(* ===== verification/Prelude.thy ===== *)
theory Prelude
  imports Main "HOL-Library.Word" "HOL-Library.Signed_Division"
begin

text \<open>
  Shared vocabulary of the development: the machine integers of the kernel (\<open>uint8\<close>,
  \<open>uint16\<close>, \<open>uint32\<close> of \<open>src/src/include/types.h\<close>) as words, the ways in which
  kernel code does not return normally as a datatype, the result type that every fallible
  operation has, and the generic lemmas the components share.

  \<^item> \<open>AssertFail\<close>: an \<open>assert\<close> of the source fails (\<open>assertion_failure\<close> prints and
    spins for ever);
  \<^item> \<open>Panic\<close>: the source calls \<open>panic\<close>, which spins for ever as well;
  \<^item> \<open>Fault\<close>: the C code has no defined behaviour there (a null or out-of-range access,
    a division by zero);
  \<^item> \<open>Diverge\<close>: a loop of the source never ends;
  \<^item> \<open>Blocked\<close>: the running task would be put to sleep at this point and the caller's
    continuation is not part of the modelled call.
\<close>

unbundle bit_operations_syntax

type_synonym u8 = "8 word"
type_synonym u16 = "16 word"
type_synonym u32 = "32 word"
type_synonym u64 = "64 word"

datatype fail = AssertFail | Panic | Fault | Diverge | Blocked

type_synonym 'a res = "fail + 'a"

named_theorems res_simps \<open>rewrite rules that run a sequence of fallible operations\<close>

subsection \<open>Sequencing of fallible operations\<close>

definition rbind :: "'a res \<Rightarrow> ('a \<Rightarrow> 'b res) \<Rightarrow> 'b res" where
  "rbind m f = (case m of Inl e \<Rightarrow> Inl e | Inr x \<Rightarrow> f x)"

lemma rbind_Inr [simp, res_simps]: "rbind (Inr x) f = f x"
  by (simp add: rbind_def)

lemma rbind_Inl [simp, res_simps]: "rbind (Inl e) f = Inl e"
  by (simp add: rbind_def)

lemma rbind_eq_Inr: "rbind m f = Inr y \<longleftrightarrow> (\<exists>x. m = Inr x \<and> f x = Inr y)"
  by (cases m) auto

lemma rbind_eq_Inl: "rbind m f = Inl e \<longleftrightarrow> m = Inl e \<or> (\<exists>x. m = Inr x \<and> f x = Inl e)"
  by (cases m) auto

lemma rbind_cong [fundef_cong]:
  "m = m' \<Longrightarrow> (\<And>x. m' = Inr x \<Longrightarrow> f x = f' x) \<Longrightarrow> rbind m f = rbind m' f'"
  by (cases m') auto

lemma rbind_assoc: "rbind (rbind m f) g = rbind m (\<lambda>x. rbind (f x) g)"
  by (cases m) auto

lemma rbind_if: "rbind (if b then m else n) f = (if b then rbind m f else rbind n f)"
  by simp

text \<open>
  A loop with no termination argument of its own is a \<^theory_text>\<open>partial_function (option)\<close>
  into results: \<open>None\<close> is the loop that does not end. \<open>lbind\<close> runs a fallible step before the
  rest of such a loop, \<open>run_loop\<close> turns the loop's value into a result.
\<close>

definition lbind :: "'a res \<Rightarrow> ('a \<Rightarrow> 'b res option) \<Rightarrow> 'b res option" where
  "lbind m f = (case m of Inl e \<Rightarrow> Some (Inl e) | Inr x \<Rightarrow> f x)"

definition run_loop :: "'a res option \<Rightarrow> 'a res" where
  "run_loop l = (case l of None \<Rightarrow> Inl Diverge | Some r \<Rightarrow> r)"

lemma lbind_Inr [simp, res_simps]: "lbind (Inr x) f = f x"
  by (simp add: lbind_def)

lemma lbind_Inl [simp, res_simps]: "lbind (Inl e) f = Some (Inl e)"
  by (simp add: lbind_def)

lemma run_loop_simps [simp, res_simps]:
  "run_loop None = Inl Diverge" "run_loop (Some r) = r"
  by (simp_all add: run_loop_def)

lemma lbind_mono [partial_function_mono]:
  "(\<And>x. mono_option (\<lambda>f. B x f)) \<Longrightarrow> mono_option (\<lambda>f. lbind m (\<lambda>x. B x f))"
  by (cases m) (auto simp: monotone_def fun_ord_def flat_ord_def)

text \<open>Reading and writing a C array: an index outside the array is undefined behaviour.\<close>

definition rd :: "'a list \<Rightarrow> nat \<Rightarrow> 'a res" where
  "rd xs i = (if i < length xs then Inr (xs ! i) else Inl Fault)"

definition wr :: "'a list \<Rightarrow> nat \<Rightarrow> 'a \<Rightarrow> 'a list res" where
  "wr xs i v = (if i < length xs then Inr (xs[i := v]) else Inl Fault)"

lemma rd_in [simp]: "i < length xs \<Longrightarrow> rd xs i = Inr (xs ! i)"
  by (simp add: rd_def)

lemma wr_in [simp]: "i < length xs \<Longrightarrow> wr xs i v = Inr (xs[i := v])"
  by (simp add: wr_def)

lemma rd_eq_Inr: "rd xs i = Inr x \<longleftrightarrow> i < length xs \<and> x = xs ! i"
  by (auto simp: rd_def)

lemma wr_eq_Inr: "wr xs i v = Inr ys \<longleftrightarrow> i < length xs \<and> ys = xs[i := v]"
  by (auto simp: wr_def)

lemmas res_Inr = rbind_eq_Inr rd_eq_Inr wr_eq_Inr

subsection \<open>Operations on a state\<close>

text \<open>
  An operation on a state of type \<open>'s\<close> returns its value and the new state, or fails. The C
  statements of a function become a chain of \<open>sbind\<close>; \<open>sensure\<close> is \<open>assert\<close>.
\<close>

type_synonym ('s, 'a) op = "'s \<Rightarrow> ('a \<times> 's) res"

definition sret :: "'a \<Rightarrow> ('s, 'a) op" where
  "sret x = (\<lambda>s. Inr (x, s))"

definition sfail :: "fail \<Rightarrow> ('s, 'a) op" where
  "sfail e = (\<lambda>s. Inl e)"

definition sbind :: "('s, 'a) op \<Rightarrow> ('a \<Rightarrow> ('s, 'b) op) \<Rightarrow> ('s, 'b) op" where
  "sbind m f = (\<lambda>s. rbind (m s) (\<lambda>(x, s'). f x s'))"

definition sget :: "('s \<Rightarrow> 'a) \<Rightarrow> ('s, 'a) op" where
  "sget f = (\<lambda>s. Inr (f s, s))"

definition smodify :: "('s \<Rightarrow> 's) \<Rightarrow> ('s, unit) op" where
  "smodify f = (\<lambda>s. Inr ((), f s))"

definition sensure :: "bool \<Rightarrow> ('s, unit) op" where
  "sensure b = (if b then sret () else sfail AssertFail)"

definition slift :: "'a res \<Rightarrow> ('s, 'a) op" where
  "slift r = (\<lambda>s. rbind r (\<lambda>x. Inr (x, s)))"

primrec sforeach :: "'a list \<Rightarrow> ('a \<Rightarrow> ('s, unit) op) \<Rightarrow> ('s, unit) op" where
  "sforeach [] f = sret ()"
| "sforeach (x # xs) f = sbind (f x) (\<lambda>_. sforeach xs f)"

lemma sop_simps [simp, res_simps]:
  "sret x s = Inr (x, s)"
  "sfail e s = Inl e"
  "sbind m f s = rbind (m s) (\<lambda>(x, s'). f x s')"
  "sget g s = Inr (g s, s)"
  "smodify h s = Inr ((), h s)"
  "sensure b s = (if b then Inr ((), s) else Inl AssertFail)"
  "slift r s = rbind r (\<lambda>x. Inr (x, s))"
  by (simp_all add: sret_def sfail_def sbind_def sget_def smodify_def sensure_def slift_def)

text \<open>
  With these congruence rules the simplifier runs a chain of operations step by step: it evaluates an
  operation before it looks at what follows it.
\<close>

lemma rbind_weak_cong: "m = m' \<Longrightarrow> rbind m f = rbind m' f"
  by simp

lemma sbind_weak_cong: "m = m' \<Longrightarrow> sbind m f = sbind m' f"
  by simp

lemma lbind_weak_cong: "m = m' \<Longrightarrow> lbind m f = lbind m' f"
  by simp

lemma sbind_run: "m s = Inr (x, s') \<Longrightarrow> sbind m f s = f x s'"
  by simp

lemma sbind_assoc: "sbind (sbind m f) g = sbind m (\<lambda>x. sbind (f x) g)"
  by (auto simp: sbind_def fun_eq_iff rbind_def split: sum.splits)

lemma sbind_ret: "sbind (sret x) f = f x"
  by (simp add: fun_eq_iff)

lemma sbind_sget: "sbind (sget g) f s = f (g s) s"
  by simp

lemma sbind_sensure: "b \<Longrightarrow> sbind (sensure b) f s = f () s"
  by simp

lemma sbind_smodify: "sbind (smodify g) f s = f () (g s)"
  by simp

lemma sbind_sret: "sbind (sret x) f s = f x s"
  by simp

lemmas run_steps = sbind_sget sbind_sensure sbind_smodify sbind_sret

lemmas run_congs = rbind_weak_cong sbind_weak_cong lbind_weak_cong

subsection \<open>Words\<close>

text \<open>\<open>EOF\<close>, as the 32 bits of \<open>-1\<close>.\<close>

definition EOF32 :: u32 where
  "EOF32 = - 1"

text \<open>The value of a C \<open>int\<close> expression after it is stored in 32 bits.\<close>

definition s32 :: "int \<Rightarrow> int" where
  "s32 i = sint (word_of_int i :: u32)"

lemma s32_id: "- (2 ^ 31) \<le> i \<Longrightarrow> i < 2 ^ 31 \<Longrightarrow> s32 i = i"
  by (simp add: s32_def sint_word_ariths signed_of_int signed_take_bit_int_eq_self)

lemma unat_Suc_32: "unat (w :: u32) + 1 < 2 ^ 32 \<Longrightarrow> unat (w + 1) = unat w + 1"
  by (simp add: unat_word_ariths)

lemma unat_add_32: "unat (a :: u32) + unat b < 2 ^ 32 \<Longrightarrow> unat (a + b) = unat a + unat b"
  by (simp add: unat_word_ariths)

lemma unat_sub_32: "unat (b :: u32) \<le> unat a \<Longrightarrow> unat (a - b) = unat a - unat b"
  by (simp add: unat_sub word_le_nat_alt)

lemma unat_less_32: "unat (w :: u32) < 2 ^ 32"
  using unsigned_less [of w, where ?'a = nat] by simp

lemma unat_inc_32: "(n :: u32) < m \<Longrightarrow> unat (n + 1) = unat n + 1"
  using unat_less_32 [of m] by (intro unat_Suc_32) (simp add: word_less_nat_alt)

text \<open>The measure of a loop that counts a 32-bit variable up to a bound.\<close>

lemma loop_up_32: "(n :: u32) < m \<Longrightarrow> unat m - unat (n + 1) < unat m - unat n"
  by (simp add: unat_inc_32 word_less_nat_alt)

lemma unat_EOF32: "unat EOF32 = 2 ^ 32 - 1"
  by (simp add: EOF32_def unsigned_minus_1_eq_mask mask_eq_exp_minus_1)

lemma u32_eq_iff: "(a :: u32) = b \<longleftrightarrow> unat a = unat b"
  by (simp add: word_unat_eq_iff)

lemma unat_of_nat_32: "n < 2 ^ 32 \<Longrightarrow> unat (of_nat n :: u32) = n"
  by (simp add: unat_of_nat take_bit_nat_eq_self)

lemma nat_div_mod_eq: "x = q * m + r \<Longrightarrow> r < m \<Longrightarrow> x div m = q \<and> x mod m = (r :: nat)"
  by simp

lemma sdiv_nonneg: "0 \<le> (a :: int) \<Longrightarrow> 0 < n \<Longrightarrow> a sdiv n = a div n"
  by (cases "a = 0") (simp_all add: signed_divide_int_def)

lemma smod_nonneg: "0 \<le> (a :: int) \<Longrightarrow> 0 < n \<Longrightarrow> a smod n = a mod n"
  by (cases "a = 0") (simp_all add: signed_modulo_int_def sgn_mod)

lemma unat_drop_32: "unat (drop_bit n (a :: u32)) = unat a div 2 ^ n"
  by (simp only: unat_drop_bit_eq) (simp only: drop_bit_eq_div)

lemma unat_mask_32: "unat ((a :: u32) AND mask n) = unat a mod 2 ^ n"
  by (simp only: take_bit_eq_mask [symmetric] unsigned_take_bit_eq) (simp only: take_bit_eq_mod)

lemma uint_of_int_32: "0 \<le> i \<Longrightarrow> i < 2 ^ 32 \<Longrightarrow> uint (word_of_int i :: u32) = i"
  by (simp add: unsigned_of_int take_bit_int_eq_self)

lemma ucast_back [simp]:
  "ucast (ucast (a :: u8) :: u16) = a"
  "ucast (ucast (a :: u8) :: u32) = a"
  "ucast (ucast (b :: u16) :: u32) = b"
  by (rule bit_word_eqI; auto simp: bit_simps)+

lemma unat_ucast_up [simp]:
  "unat (ucast (a :: u8) :: u32) = unat a"
  "unat (ucast (b :: u16) :: u32) = unat b"
  "unat (ucast (a :: u8) :: u16) = unat a"
  using unsigned_less [of a, where ?'a = nat] unsigned_less [of b, where ?'a = nat]
  by (simp_all add: unsigned_ucast_eq take_bit_nat_eq_self)

lemma sint_small_32: "(x :: u32) < 2 ^ 31 \<Longrightarrow> sint x = int (unat x)"
proof -
  assume "x < 2 ^ 31"
  then have "uint x < 2 ^ 31" by (simp add: word_less_def)
  then have "signed_take_bit 31 (uint x) = uint x"
    by (intro signed_take_bit_int_eq_self) (simp_all add: order_trans [of _ 0])
  then show ?thesis by (simp add: sint_uint)
qed

subsection \<open>Sorted lists\<close>

lemma takeWhile_sorted:
  fixes k :: "'b :: linorder"
  shows "sorted (map f xs) \<Longrightarrow> takeWhile (\<lambda>x. f x \<le> k) xs = filter (\<lambda>x. f x \<le> k) xs"
proof (induction xs)
  case (Cons x xs)
  have "\<not> f x \<le> k \<Longrightarrow> filter (\<lambda>x. f x \<le> k) xs = []"
    using Cons.prems order_trans by (fastforce simp: filter_empty_conv)
  then show ?case using Cons by auto
qed simp

lemma dropWhile_sorted:
  fixes k :: "'b :: linorder"
  shows "sorted (map f xs) \<Longrightarrow> dropWhile (\<lambda>x. f x \<le> k) xs = filter (\<lambda>x. k < f x) xs"
proof (induction xs)
  case (Cons x xs)
  have "\<not> f x \<le> k \<Longrightarrow> filter (\<lambda>x. k < f x) xs = xs"
    using Cons.prems by (fastforce simp: filter_id_conv)
  then show ?case using Cons by (auto simp: not_le)
qed simp

end
