(* ===== verification/Char_Queue.thy ===== *)
theory Char_Queue
  imports Prelude
begin

text \<open>
  The contract of a bounded character queue that forgets its oldest character when it is
  full, as the keyboard, the serial ports and the pipes of the kernel rely on it
  (\<open>fifo_put\<close>, \<open>fifo_get\<close> of \<open>src/src/lib/fifo.c\<close>), and what a client of the contract can
  conclude. The operations may fail, so the laws say that under the invariant they return.
\<close>

locale char_queue =
  fixes enq :: "'q \<Rightarrow> 'b \<Rightarrow> 'q res"
    and deq :: "'q \<Rightarrow> ('b \<times> 'q) res"
    and content :: "'q \<Rightarrow> 'b list"
    and cap :: "'q \<Rightarrow> nat"
    and inv :: "'q \<Rightarrow> bool"
  assumes cap_pos: "inv q \<Longrightarrow> 0 < cap q"
    and content_le: "inv q \<Longrightarrow> length (content q) \<le> cap q"
    and enq_law: "inv q \<Longrightarrow> \<exists>q'. enq q b = Inr q' \<and> inv q' \<and> cap q' = cap q \<and>
          content q' = (if length (content q) = cap q then tl (content q) else content q) @ [b]"
    and deq_law: "inv q \<Longrightarrow> content q \<noteq> [] \<Longrightarrow>
          \<exists>q'. deq q = Inr (hd (content q), q') \<and> inv q' \<and> cap q' = cap q \<and>
               content q' = tl (content q)"

primrec enq_all :: "('q \<Rightarrow> 'b \<Rightarrow> 'q res) \<Rightarrow> 'q \<Rightarrow> 'b list \<Rightarrow> 'q res" where
  "enq_all enq q [] = Inr q"
| "enq_all enq q (b # bs) = rbind (enq q b) (\<lambda>q'. enq_all enq q' bs)"

primrec deq_all :: "('q \<Rightarrow> ('b \<times> 'q) res) \<Rightarrow> 'q \<Rightarrow> nat \<Rightarrow> ('b list \<times> 'q) res" where
  "deq_all deq q 0 = Inr ([], q)"
| "deq_all deq q (Suc n) =
     rbind (deq q) (\<lambda>(b, q'). rbind (deq_all deq q' n) (\<lambda>(bs, q''). Inr (b # bs, q'')))"

text \<open>\<open>last_part n xs\<close>: the last \<open>n\<close> elements, or all of them when there are fewer.\<close>

definition last_part :: "nat \<Rightarrow> 'a list \<Rightarrow> 'a list" where
  "last_part n xs = drop (length xs - n) xs"

lemma length_last_part [simp]: "length (last_part n xs) = min n (length xs)"
  by (simp add: last_part_def)

lemma last_part_short: "length xs \<le> n \<Longrightarrow> last_part n xs = xs"
  by (simp add: last_part_def)

lemma last_part_push: "last_part n (us @ zs) = last_part n (last_part n us @ zs)"
proof (cases "length us \<le> n")
  case True
  then show ?thesis by (simp add: last_part_short)
next
  case False
  then have "drop (length us - n) us @ zs = drop (length us - n) (us @ zs)"
    by simp
  with False show ?thesis
    by (simp add: last_part_def add.commute del: drop_append)
qed

context char_queue
begin

lemma enq_content:
  assumes "inv q"
  shows "\<exists>q'. enq q b = Inr q' \<and> inv q' \<and> cap q' = cap q \<and>
    content q' = last_part (cap q) (content q @ [b])"
proof -
  from enq_law [OF assms, of b] obtain q' where
    q': "enq q b = Inr q'" "inv q'" "cap q' = cap q"
      "content q' = (if length (content q) = cap q then tl (content q) else content q) @ [b]"
    by blast
  have "content q' = last_part (cap q) (content q @ [b])"
  proof (cases "length (content q) = cap q")
    case True
    then have "content q \<noteq> []" using cap_pos [OF assms] by auto
    with True q'(4) show ?thesis
      by (cases "content q") (simp_all add: last_part_def)
  next
    case False
    then have "length (content q @ [b]) \<le> cap q" using content_le [OF assms] by simp
    then show ?thesis using False q'(4) by (simp add: last_part_short)
  qed
  with q' show ?thesis by blast
qed

text \<open>Writing any number of characters leaves the last \<open>cap\<close> of what was there and written.\<close>

lemma enq_all_content:
  "inv q \<Longrightarrow> \<exists>q'. enq_all enq q bs = Inr q' \<and> inv q' \<and> cap q' = cap q \<and>
     content q' = last_part (cap q) (content q @ bs)"
proof (induction bs arbitrary: q)
  case Nil
  then show ?case by (simp add: last_part_short content_le)
next
  case (Cons b bs)
  from enq_content [OF Cons.prems, of b] obtain q1 where
    q1: "enq q b = Inr q1" "inv q1" "cap q1 = cap q"
      "content q1 = last_part (cap q) (content q @ [b])" by blast
  from Cons.IH [OF q1(2)] obtain q2 where
    q2: "enq_all enq q1 bs = Inr q2" "inv q2" "cap q2 = cap q1"
      "content q2 = last_part (cap q1) (content q1 @ bs)" by blast
  have "content q2 = last_part (cap q) (content q @ b # bs)"
    using last_part_push [of "cap q" "content q @ [b]" bs] by (simp add: q2(4) q1(3,4))
  with q1 q2 show ?case by simp
qed

lemma deq_all_content:
  "inv q \<Longrightarrow> n \<le> length (content q) \<Longrightarrow>
     \<exists>q'. deq_all deq q n = Inr (take n (content q), q') \<and> inv q' \<and> cap q' = cap q \<and>
       content q' = drop n (content q)"
proof (induction n arbitrary: q)
  case 0
  then show ?case by simp
next
  case (Suc n)
  then have ne: "content q \<noteq> []" by auto
  from deq_law [OF Suc.prems(1) ne] obtain q1 where
    q1: "deq q = Inr (hd (content q), q1)" "inv q1" "cap q1 = cap q"
      "content q1 = tl (content q)" by blast
  have "n \<le> length (content q1)" using Suc.prems(2) q1(4) by simp
  from Suc.IH [OF q1(2) this] obtain q2 where
    q2: "deq_all deq q1 n = Inr (take n (content q1), q2)" "inv q2" "cap q2 = cap q1"
      "content q2 = drop n (content q1)" by blast
  from ne q1 q2 show ?case by (cases "content q") auto
qed

text \<open>A reader gets the characters in the order they were written, as long as they fit.\<close>

lemma fifo_order:
  assumes "inv q" "content q = []" "length bs \<le> cap q"
  shows "rbind (enq_all enq q bs) (\<lambda>q'. rbind (deq_all deq q' (length bs)) (\<lambda>(out, q''). Inr out))
    = Inr bs"
proof -
  from enq_all_content [OF assms(1), of bs] obtain q1 where
    q1: "enq_all enq q bs = Inr q1" "inv q1" "content q1 = bs"
    using assms(2,3) by (auto simp: last_part_short)
  from deq_all_content [OF q1(2), of "length bs"] q1(3) obtain q2 where
    "deq_all deq q1 (length bs) = Inr (bs, q2)" by auto
  with q1(1) show ?thesis by simp
qed

end

end
