(* ===== verification/Fifo.thy ===== *)
theory Fifo
  imports Char_Queue
begin

text \<open>
  The circular character queue of \<open>src/src/lib/fifo.c\<close> and its header. A \<open>fifo_t\<close> is a
  record of its buffer and three 32-bit indices; a queue is empty when \<open>head = tail\<close>, and the
  slot after \<open>head\<close> is the oldest character, so one slot of the buffer always stays free. The
  operations refine the list of the characters in the queue (\<open>fifo_list\<close>), and interpret the
  contract \<open>char_queue\<close> with a capacity of \<open>length - 1\<close>.
\<close>

unbundle bit_operations_syntax

record fifo =
  f_buf :: "u8 list"
  f_length :: u32
  f_head :: u32
  f_tail :: u32

definition fifo_next :: "fifo \<Rightarrow> u32 \<Rightarrow> u32 res" where
  "fifo_next f pos = (if f_length f = 0 then Inl Fault else Inr ((pos + 1) mod f_length f))"

definition fifo_init :: "u8 list \<Rightarrow> u32 \<Rightarrow> fifo" where
  "fifo_init buf len = \<lparr>f_buf = buf, f_length = len, f_head = 0, f_tail = 0\<rparr>"

definition fifo_full :: "fifo \<Rightarrow> bool res" where
  "fifo_full f = rbind (fifo_next f (f_tail f)) (\<lambda>n. Inr (n = f_head f))"

definition fifo_empty :: "fifo \<Rightarrow> bool" where
  "fifo_empty f \<longleftrightarrow> f_head f = f_tail f"

definition fifo_get :: "fifo \<Rightarrow> (u8 \<times> fifo) res" where
  "fifo_get f =
     (if fifo_empty f then Inl AssertFail
      else rbind (fifo_next f (f_head f)) (\<lambda>h.
           rbind (rd (f_buf f) (unat h)) (\<lambda>b. Inr (b, f\<lparr>f_head := h\<rparr>))))"

text \<open>
  The loop \<open>while (fifo_full(fifo)) fifo_get(fifo)\<close>. It ends after one round on a well-formed
  queue, and never on a queue of length 1 whose tail is out of range.
\<close>

partial_function (option) fifo_drain :: "fifo \<Rightarrow> fifo res option" where
  "fifo_drain f =
     lbind (fifo_full f) (\<lambda>full.
       if full then lbind (fifo_get f) (\<lambda>r. fifo_drain (snd r)) else Some (Inr f))"

definition fifo_put :: "fifo \<Rightarrow> u8 \<Rightarrow> fifo res" where
  "fifo_put f b =
     rbind (run_loop (fifo_drain f)) (\<lambda>f.
     rbind (fifo_next f (f_tail f)) (\<lambda>t.
     rbind (wr (f_buf f) (unat t) b) (\<lambda>buf. Inr (f\<lparr>f_tail := t, f_buf := buf\<rparr>))))"

subsection \<open>The queue as a list\<close>

definition fifo_wf :: "fifo \<Rightarrow> bool" where
  "fifo_wf f \<longleftrightarrow> 2 \<le> unat (f_length f) \<and> length (f_buf f) = unat (f_length f) \<and>
     unat (f_head f) < unat (f_length f) \<and> unat (f_tail f) < unat (f_length f)"

definition fifo_count :: "fifo \<Rightarrow> nat" where
  "fifo_count f = (unat (f_tail f) + unat (f_length f) - unat (f_head f)) mod unat (f_length f)"

definition fifo_list :: "fifo \<Rightarrow> u8 list" where
  "fifo_list f = map (\<lambda>i. f_buf f ! ((unat (f_head f) + 1 + i) mod unat (f_length f)))
                     [0..<fifo_count f]"

definition fifo_cap :: "fifo \<Rightarrow> nat" where
  "fifo_cap f = unat (f_length f) - 1"

lemma wrap_Suc: "x < (L::nat) \<Longrightarrow> Suc x mod L = (if Suc x = L then 0 else Suc x)"
  by auto

lemma wrap_dist: "h < (L::nat) \<Longrightarrow> t < L \<Longrightarrow>
    (t + L - h) mod L = (if h \<le> t then t - h else t + L - h)"
  by (auto simp: mod_if)

lemma fifo_next_wf:
  assumes "fifo_wf f" "unat pos < unat (f_length f)"
  shows "\<exists>p. fifo_next f pos = Inr p \<and> unat p = (unat pos + 1) mod unat (f_length f)"
proof -
  have "unat pos + 1 < 2 ^ 32"
    using assms(2) unat_less_32 [of "f_length f"] by linarith
  then have "unat ((pos + 1) mod f_length f) = (unat pos + 1) mod unat (f_length f)"
    by (simp add: unat_mod unat_Suc_32)
  moreover have "f_length f \<noteq> 0" using assms(1) by (auto simp: fifo_wf_def)
  ultimately show ?thesis by (simp add: fifo_next_def)
qed

lemma fifo_count_eq: "fifo_wf f \<Longrightarrow> fifo_count f =
    (if unat (f_head f) \<le> unat (f_tail f) then unat (f_tail f) - unat (f_head f)
     else unat (f_tail f) + unat (f_length f) - unat (f_head f))"
  unfolding fifo_count_def fifo_wf_def by (intro wrap_dist) auto

lemma fifo_count_le: "fifo_wf f \<Longrightarrow> fifo_count f \<le> fifo_cap f"
  by (auto simp: fifo_count_eq fifo_cap_def) (auto simp: fifo_wf_def)

lemma fifo_empty_count: "fifo_wf f \<Longrightarrow> fifo_empty f \<longleftrightarrow> fifo_count f = 0"
  by (auto simp: fifo_count_eq fifo_empty_def word_unat_eq_iff) (auto simp: fifo_wf_def)

lemma fifo_full_count: "fifo_wf f \<Longrightarrow> fifo_full f = Inr (fifo_count f = fifo_cap f)"
proof -
  assume wf: "fifo_wf f"
  then have b: "unat (f_head f) < unat (f_length f)" "unat (f_tail f) < unat (f_length f)"
    "2 \<le> unat (f_length f)"
    by (auto simp: fifo_wf_def)
  from fifo_next_wf [OF wf b(2)] obtain p where
    p: "fifo_next f (f_tail f) = Inr p" "unat p = (unat (f_tail f) + 1) mod unat (f_length f)"
    by blast
  have "(p = f_head f) = (fifo_count f = fifo_cap f)"
    using b by (auto simp: word_unat_eq_iff p(2) fifo_count_eq [OF wf] fifo_cap_def wrap_Suc)
  with p(1) show ?thesis by (simp add: fifo_full_def)
qed

lemma fifo_get_wf:
  assumes wf: "fifo_wf f" and ne: "fifo_list f \<noteq> []"
  shows "\<exists>f'. fifo_get f = Inr (hd (fifo_list f), f') \<and> fifo_wf f' \<and> fifo_cap f' = fifo_cap f \<and>
    fifo_list f' = tl (fifo_list f)"
proof -
  let ?L = "unat (f_length f)" and ?h = "unat (f_head f)"
  have b: "?h < ?L" and bl: "length (f_buf f) = ?L" using wf by (auto simp: fifo_wf_def)
  have c: "0 < fifo_count f" using ne by (simp add: fifo_list_def)
  from fifo_next_wf [OF wf b] obtain h where
    h: "fifo_next f (f_head f) = Inr h" "unat h = (?h + 1) mod ?L" by blast
  define f' where "f' = f\<lparr>f_head := h\<rparr>"
  have wf': "fifo_wf f'" using wf by (simp add: f'_def fifo_wf_def h(2))
  have c': "fifo_count f = Suc (fifo_count f')"
    using c wf b unfolding fifo_count_eq [OF wf] fifo_count_eq [OF wf']
    by (auto simp: f'_def h(2) wrap_Suc fifo_wf_def split: if_splits)
  have lst: "fifo_list f = (f_buf f ! unat h) # fifo_list f'"
  proof -
    have "(?h + 1 + Suc i) mod ?L = (unat h + 1 + i) mod ?L" for i
      unfolding h(2) by (metis ab_semigroup_add_class.add_ac(1) add_Suc_shift mod_add_left_eq plus_1_eq_Suc)
    then show ?thesis
      unfolding fifo_list_def c' map_upt_Suc by (simp add: f'_def h(2))
  qed
  have "fifo_get f = Inr (f_buf f ! unat h, f')"
    using wf c b bl by (simp add: fifo_get_def fifo_empty_count h f'_def)
  with wf' lst show ?thesis by (simp add: fifo_cap_def f'_def)
qed

lemma fifo_list_put:
  fixes b :: u8
  assumes wf: "fifo_wf f" and room: "fifo_count f < fifo_cap f"
    and t: "unat t = (unat (f_tail f) + 1) mod unat (f_length f)"
  defines "f' \<equiv> f\<lparr>f_tail := t, f_buf := (f_buf f)[unat t := b]\<rparr>"
  shows "fifo_wf f' \<and> fifo_list f' = fifo_list f @ [b]"
proof -
  let ?L = "unat (f_length f)" and ?h = "unat (f_head f)" and ?t = "unat (f_tail f)"
  have bnd: "?h < ?L" "?t < ?L" "length (f_buf f) = ?L" "2 \<le> ?L"
    using wf by (auto simp: fifo_wf_def)
  have wf': "fifo_wf f'" using wf bnd by (simp add: f'_def fifo_wf_def t)
  have c': "fifo_count f' = Suc (fifo_count f)"
    using room bnd unfolding fifo_count_eq [OF wf] fifo_count_eq [OF wf'] fifo_cap_def
    by (auto simp: f'_def t wrap_Suc split: if_splits)
  have last: "(?h + 1 + fifo_count f) mod ?L = unat t"
  proof -
    have "(?h + fifo_count f) mod ?L = ?t"
      using bnd by (auto simp: fifo_count_eq [OF wf])
    then show ?thesis by (simp add: t) (metis mod_Suc_eq)
  qed
  have diff: "(?h + 1 + i) mod ?L \<noteq> unat t" if "i < fifo_count f" for i
  proof
    assume eq: "(?h + 1 + i) mod ?L = unat t"
    then have "(?h + 1 + i) mod ?L = (?h + 1 + fifo_count f) mod ?L" by (simp only: last)
    then have "?L dvd (fifo_count f - i)"
      using that by (metis add_diff_cancel_left le_add_diff_inverse less_imp_le mod_eq_dvd_iff_nat nat_add_left_cancel_le)
    moreover have "0 < fifo_count f - i" "fifo_count f - i < ?L"
      using that fifo_count_le [OF wf] bnd by (auto simp: fifo_cap_def)
    ultimately show False using nat_dvd_not_less by blast
  qed
  have old: "f_buf f' ! ((?h + 1 + i) mod ?L) = f_buf f ! ((?h + 1 + i) mod ?L)"
    if "i < fifo_count f" for i
    using diff [OF that] by (simp add: f'_def)
  have new: "f_buf f' ! ((?h + 1 + fifo_count f) mod ?L) = b"
    using bnd unfolding last by (simp add: f'_def t)
  have same: "f_head f' = f_head f" "f_length f' = f_length f" by (simp_all add: f'_def)
  have "fifo_list f' = map (\<lambda>i. f_buf f ! ((?h + 1 + i) mod ?L)) [0..<fifo_count f] @ [b]"
    unfolding fifo_list_def c' same upt_Suc using old new by simp
  with wf' show ?thesis by (simp add: fifo_list_def)
qed

lemma fifo_drain_room: "fifo_wf f \<Longrightarrow> fifo_count f < fifo_cap f \<Longrightarrow> fifo_drain f = Some (Inr f)"
  by (subst fifo_drain.simps) (simp add: fifo_full_count)

lemma fifo_drain_full:
  assumes "fifo_wf f" "fifo_count f = fifo_cap f"
  shows "\<exists>f'. fifo_drain f = Some (Inr f') \<and> fifo_wf f' \<and> fifo_cap f' = fifo_cap f \<and>
    fifo_list f' = tl (fifo_list f)"
proof -
  have cp: "0 < fifo_cap f" using assms(1) by (auto simp: fifo_cap_def fifo_wf_def)
  then have "fifo_list f \<noteq> []" using assms(2) by (simp add: fifo_list_def)
  from fifo_get_wf [OF assms(1) this] obtain f' where
    f': "fifo_get f = Inr (hd (fifo_list f), f')" "fifo_wf f'" "fifo_cap f' = fifo_cap f"
      "fifo_list f' = tl (fifo_list f)" by blast
  have "length (fifo_list f') = fifo_count f - 1" by (simp add: f'(4)) (simp add: fifo_list_def)
  then have "fifo_count f' < fifo_cap f'"
    using cp assms(2) f'(3) by (simp add: fifo_list_def)
  with f'(2) have "fifo_drain f' = Some (Inr f')" by (rule fifo_drain_room)
  with f' assms show ?thesis
    by (subst fifo_drain.simps) (simp add: fifo_full_count)
qed

lemma length_fifo_list [simp]: "length (fifo_list f) = fifo_count f"
  by (simp add: fifo_list_def)

lemma fifo_put_wf:
  assumes wf: "fifo_wf f"
  shows "\<exists>f'. fifo_put f b = Inr f' \<and> fifo_wf f' \<and> fifo_cap f' = fifo_cap f \<and>
    fifo_list f' = (if length (fifo_list f) = fifo_cap f then tl (fifo_list f) else fifo_list f) @ [b]"
proof -
  obtain g where g: "fifo_drain f = Some (Inr g)" "fifo_wf g" "fifo_cap g = fifo_cap f"
    "fifo_list g = (if length (fifo_list f) = fifo_cap f then tl (fifo_list f) else fifo_list f)"
  proof (cases "fifo_count f = fifo_cap f")
    case True
    with fifo_drain_full [OF wf] that show ?thesis by auto
  next
    case False
    with fifo_count_le [OF wf] have "fifo_count f < fifo_cap f" by simp
    with wf that False show ?thesis by (simp add: fifo_drain_room)
  qed
  have "0 < fifo_cap f" using wf by (auto simp: fifo_cap_def fifo_wf_def)
  then have room: "fifo_count g < fifo_cap g"
    using g(3,4) fifo_count_le [OF wf] by (auto simp flip: length_fifo_list split: if_splits)
  have tb: "unat (f_tail g) < unat (f_length g)" "length (f_buf g) = unat (f_length g)"
    using g(2) by (auto simp: fifo_wf_def)
  from fifo_next_wf [OF g(2) tb(1)] obtain t where
    t: "fifo_next g (f_tail g) = Inr t" "unat t = (unat (f_tail g) + 1) mod unat (f_length g)"
    by blast
  have "unat t < length (f_buf g)" using tb by (simp add: t(2))
  then have "fifo_put f b = Inr (g\<lparr>f_tail := t, f_buf := (f_buf g)[unat t := b]\<rparr>)"
    by (simp add: fifo_put_def g(1) t(1))
  with fifo_list_put [OF g(2) room t(2), of b] g(3,4) show ?thesis
    by (simp add: fifo_cap_def)
qed

interpretation fq: char_queue fifo_put fifo_get fifo_list fifo_cap fifo_wf
proof
  show "fifo_wf q \<Longrightarrow> 0 < fifo_cap q" for q by (auto simp: fifo_cap_def fifo_wf_def)
  show "fifo_wf q \<Longrightarrow> length (fifo_list q) \<le> fifo_cap q" for q by (simp add: fifo_count_le)
qed (rule fifo_put_wf fifo_get_wf; assumption)+

lemma fifo_init_wf:
  "length buf = unat len \<Longrightarrow> 2 \<le> unat len \<Longrightarrow>
    fifo_wf (fifo_init buf len) \<and> fifo_list (fifo_init buf len) = [] \<and>
    fifo_cap (fifo_init buf len) = unat len - 1"
  by (auto simp: fifo_init_def fifo_wf_def fifo_list_def fifo_count_def fifo_cap_def)

subsection \<open>The queue as its clients see it\<close>

text \<open>C23: A queue initialised on a buffer of \<open>len >= 2\<close> bytes accepts any sequence of characters
without failing; reading it back afterwards returns, in the order of writing, exactly the last
\<open>len - 1\<close> characters written (all of them when they fit), and leaves it empty.\<close>

theorem fifo_stream:
  assumes "length buf = unat len" "2 \<le> unat len"
  shows "\<exists>f g. enq_all fifo_put (fifo_init buf len) bs = Inr f \<and> fifo_wf f \<and>
    deq_all fifo_get f (min (unat len - 1) (length bs)) =
      Inr (last_part (unat len - 1) bs, g) \<and> fifo_empty g"
proof -
  note I = fifo_init_wf [OF assms]
  from fq.enq_all_content [of "fifo_init buf len" bs] I obtain f where
    f: "enq_all fifo_put (fifo_init buf len) bs = Inr f" "fifo_wf f"
      "fifo_list f = last_part (unat len - 1) bs" by auto
  then have n: "fifo_count f = min (unat len - 1) (length bs)" by (simp flip: length_fifo_list)
  from fq.deq_all_content [OF f(2), of "fifo_count f"] obtain g where
    g: "deq_all fifo_get f (fifo_count f) = Inr (fifo_list f, g)" "fifo_wf g" "fifo_list g = []"
    by auto
  then have "fifo_empty g" using fifo_empty_count [of g] by (simp flip: length_fifo_list)
  with f g n show ?thesis by auto
qed

theorem fifo_stream_witness:
  "\<exists>f g. enq_all fifo_put (fifo_init [0, 0, 0, 0] 4) [1, 2, 3, 4, 5] = Inr f \<and> fifo_wf f \<and>
    deq_all fifo_get f 3 = Inr ([3, 4, 5], g) \<and> fifo_empty g"
  using fifo_stream [of "[0, 0, 0, 0]" 4 "[1, 2, 3, 4, 5]"] 
  by (simp add: last_part_def numeral_3_eq_3 del: enq_all.simps deq_all.simps)

end
