(* ===== verification/Bitmap.thy ===== *)
theory Bitmap
  imports Prelude
begin

text \<open>
  The bitmaps of \<open>src/src/lib/bitmap.c\<close>, which the kernel page allocator, the memory-mapped
  areas of a process and the inode and zone maps of the file system share. A bitmap is a byte
  buffer, its length in bytes and the index of its first bit (\<open>offset\<close>). \<open>bitmap_scan\<close> is proved
  to be a first-fit allocator of runs of bits.
\<close>

unbundle bit_operations_syntax

record bitmap =
  bm_bits :: "u8 list"
  bm_length :: u32
  bm_offset :: u32

definition bitmap_make :: "u8 list \<Rightarrow> u32 \<Rightarrow> u32 \<Rightarrow> bitmap" where
  "bitmap_make bits len offset = \<lparr>bm_bits = bits, bm_length = len, bm_offset = offset\<rparr>"

text \<open>\<open>memset(bits, 0, length)\<close> clears the first \<open>length\<close> bytes of the buffer.\<close>

definition bitmap_init :: "u8 list \<Rightarrow> u32 \<Rightarrow> u32 \<Rightarrow> bitmap res" where
  "bitmap_init bits len offset =
     (if length bits < unat len then Inl Fault
      else Inr (bitmap_make (replicate (unat len) 0 @ drop (unat len) bits) len offset))"

definition bitmap_test :: "bitmap \<Rightarrow> u32 \<Rightarrow> bool res" where
  "bitmap_test m index =
     (if index < bm_offset m then Inl AssertFail
      else let idx = index - bm_offset m; bytes = idx div 8; bits = idx mod 8
           in if \<not> bytes < bm_length m then Inl AssertFail
              else rbind (rd (bm_bits m) (unat bytes)) (\<lambda>b.
                   Inr (b AND push_bit (unat bits) 1 \<noteq> 0)))"

definition bitmap_set :: "bitmap \<Rightarrow> u32 \<Rightarrow> bool \<Rightarrow> bitmap res" where
  "bitmap_set m index value =
     (if index < bm_offset m then Inl AssertFail
      else let idx = index - bm_offset m; bytes = idx div 8; bits = idx mod 8
           in if \<not> bytes < bm_length m then Inl AssertFail
              else rbind (rd (bm_bits m) (unat bytes)) (\<lambda>b.
                   rbind (wr (bm_bits m) (unat bytes)
                           (if value then b OR push_bit (unat bits) 1
                            else b AND NOT (push_bit (unat bits) 1))) (\<lambda>bs.
                   Inr (m\<lparr>bm_bits := bs\<rparr>))))"

text \<open>
  The search loop: \<open>counter\<close> is the length of the run of clear bits that ends before
  \<open>next_bit\<close>; the result is the start of the first run of \<open>count\<close> bits, if any.
\<close>

function scan_loop :: "bitmap \<Rightarrow> u32 \<Rightarrow> u32 \<Rightarrow> u32 \<Rightarrow> u32 \<Rightarrow> u32 option res" where
  "scan_loop m count bits_left counter next_bit =
     (if next_bit < bits_left then
        rbind (bitmap_test m (bm_offset m + next_bit)) (\<lambda>used.
          let counter' = (if \<not> used then counter + 1 else 0)
          in if counter' = count then Inr (Some (next_bit - count + 1))
             else scan_loop m count bits_left counter' (next_bit + 1))
      else Inr None)"
  by pat_completeness auto
termination
  by (relation "measure (\<lambda>(m, c, left, k, n). unat left - unat n)")
    (simp_all add: loop_up_32)

declare scan_loop.simps [simp del]

text \<open>The second loop marks the bits of the run.\<close>

primrec set_run :: "bitmap \<Rightarrow> u32 \<Rightarrow> nat \<Rightarrow> bitmap res" where
  "set_run m index 0 = Inr m"
| "set_run m index (Suc n) = rbind (bitmap_set m index True) (\<lambda>m'. set_run m' (index + 1) n)"

definition bitmap_scan :: "bitmap \<Rightarrow> u32 \<Rightarrow> (u32 \<times> bitmap) res" where
  "bitmap_scan m count =
     rbind (scan_loop m count (bm_length m * 8) 0 0) (\<lambda>found.
       case found of
         Some start \<Rightarrow>
           if start \<noteq> EOF32 then
             rbind (set_run m (bm_offset m + start) (unat count)) (\<lambda>m'.
               Inr (start + bm_offset m, m'))
           else Inr (EOF32, m)
       | None \<Rightarrow> Inr (EOF32, m))"

subsection \<open>Bitmaps as sets of bits\<close>

definition bitmap_wf :: "bitmap \<Rightarrow> bool" where
  "bitmap_wf m \<longleftrightarrow> unat (bm_length m) \<le> length (bm_bits m) \<and>
     unat (bm_offset m) + 8 * unat (bm_length m) < 2 ^ 32"

definition nbits :: "bitmap \<Rightarrow> nat" where
  "nbits m = 8 * unat (bm_length m)"

definition bit_of :: "bitmap \<Rightarrow> nat \<Rightarrow> bool" where
  "bit_of m i = bit (bm_bits m ! (i div 8)) (i mod 8)"

definition free_run :: "bitmap \<Rightarrow> nat \<Rightarrow> nat \<Rightarrow> bool" where
  "free_run m s c \<longleftrightarrow> (\<forall>k<c. \<not> bit_of m (s + k))"

lemma and_two_power_bit: "((b :: u8) AND 2 ^ n \<noteq> 0) = bit b n"
  by (simp add: bit_iff_and_push_bit_not_eq_0 [of b n] push_bit_eq_mult)

lemma index_split:
  assumes "bitmap_wf m" "i < nbits m"
  shows "\<not> bm_offset m + of_nat i < bm_offset m"
    and "unat ((bm_offset m + of_nat i - bm_offset m) div 8) = i div 8"
    and "unat ((bm_offset m + of_nat i - bm_offset m) mod 8) = i mod 8"
    and "(bm_offset m + of_nat i - bm_offset m) div 8 < bm_length m"
    and "i div 8 < length (bm_bits m)"
proof -
  have i: "unat (of_nat i :: u32) = i"
    using assms by (intro unat_of_nat_32) (auto simp: bitmap_wf_def nbits_def)
  have "unat (bm_offset m + of_nat i) = unat (bm_offset m) + i"
    using assms by (subst unat_add_32) (auto simp: i bitmap_wf_def nbits_def)
  then show "\<not> bm_offset m + of_nat i < bm_offset m" by (simp add: word_less_nat_alt)
  show d: "unat ((bm_offset m + of_nat i - bm_offset m) div 8) = i div 8"
    by (simp add: unat_div i)
  show "unat ((bm_offset m + of_nat i - bm_offset m) mod 8) = i mod 8"
    by (simp add: unat_mod i)
  show "(bm_offset m + of_nat i - bm_offset m) div 8 < bm_length m"
    using assms d by (auto simp: word_less_nat_alt nbits_def)
  show "i div 8 < length (bm_bits m)"
    using assms by (auto simp: bitmap_wf_def nbits_def)
qed

lemma bitmap_test_wf:
  "bitmap_wf m \<Longrightarrow> i < nbits m \<Longrightarrow> bitmap_test m (bm_offset m + of_nat i) = Inr (bit_of m i)"
  using index_split [of m i]
  by (simp add: bitmap_test_def Let_def and_two_power_bit bit_of_def push_bit_eq_mult
      del: add_diff_cancel_left')

lemma bitmap_set_wf:
  assumes "bitmap_wf m" "i < nbits m"
  shows "\<exists>m'. bitmap_set m (bm_offset m + of_nat i) v = Inr m' \<and> bitmap_wf m' \<and>
    bm_length m' = bm_length m \<and> bm_offset m' = bm_offset m \<and>
    length (bm_bits m') = length (bm_bits m) \<and>
    (\<forall>j. bit_of m' j = (if j = i then v else bit_of m j))"
proof -
  note I = index_split [OF assms]
  define b where "b = bm_bits m ! (i div 8)"
  define w where "w = (if v then b OR push_bit (i mod 8) 1 else b AND NOT (push_bit (i mod 8) 1))"
  define m' where "m' = m\<lparr>bm_bits := (bm_bits m)[i div 8 := w]\<rparr>"
  have e: "bitmap_set m (bm_offset m + of_nat i) v = Inr m'"
    using I by (simp add: bitmap_set_def Let_def m'_def w_def b_def del: add_diff_cancel_left')
  have wbit: "bit w k = (if k = i mod 8 then v else bit b k)" if "k < 8" for k
    using that by (auto simp: w_def bit_simps)
  have "bit_of m' j = (if j = i then v else bit_of m j)" for j
  proof (cases "j div 8 = i div 8")
    case True
    then have "(j = i) = (j mod 8 = i mod 8)" by (metis div_mult_mod_eq)
    with True I(5) show ?thesis by (simp add: bit_of_def m'_def wbit b_def)
  next
    case False
    then show ?thesis by (auto simp: bit_of_def m'_def)
  qed
  with e assms show ?thesis by (auto simp: m'_def bitmap_wf_def)
qed


subsection \<open>The scan is first fit\<close>

lemma scan_loop_spec:
  assumes "bitmap_wf m" "0 < c" "k < c" "n \<le> nbits m" "k \<le> n" "c < 2 ^ 32"
    and "free_run m (n - k) k" "\<forall>s. s + c \<le> n \<longrightarrow> \<not> free_run m s c"
    and "k < n \<longrightarrow> bit_of m (n - k - 1)"
  shows "\<exists>r. scan_loop m (of_nat c) (bm_length m * 8) (of_nat k) (of_nat n) = Inr r \<and>
    (case r of
       Some w \<Rightarrow> unat w + c \<le> nbits m \<and> free_run m (unat w) c \<and>
                 (\<forall>s'<unat w. \<not> free_run m s' c)
     | None \<Rightarrow> \<forall>s. s + c \<le> nbits m \<longrightarrow> \<not> free_run m s c)"
  using assms
proof (induction "nbits m - n" arbitrary: n k)
  case 0
  then have n: "n = nbits m" by simp
  have N: "nbits m < 2 ^ 32" using 0(2) by (auto simp: bitmap_wf_def nbits_def)
  have "unat (bm_length m * 8) = nbits m"
    using N by (simp add: unat_word_ariths nbits_def mult.commute)
  then have "\<not> (of_nat n :: u32) < bm_length m * 8"
    using N by (simp add: word_less_nat_alt n unat_of_nat_32)
  then show ?case using 0 n by (subst scan_loop.simps) simp
next
  case (Suc d)
  have N: "nbits m < 2 ^ 32" using Suc.prems(1) by (auto simp: bitmap_wf_def nbits_def)
  have n: "n < nbits m" using Suc.hyps(2) by simp
  have left: "unat (bm_length m * 8) = nbits m"
    using N by (simp add: unat_word_ariths nbits_def mult.commute)
  have lt: "(of_nat n :: u32) < bm_length m * 8"
    using N n by (simp add: word_less_nat_alt left unat_of_nat_32)
  note T = bitmap_test_wf [OF Suc.prems(1) n]
  show ?case
  proof (cases "bit_of m n")
    case True
    have "scan_loop m (of_nat c) (bm_length m * 8) (of_nat k) (of_nat n) =
        scan_loop m (of_nat c) (bm_length m * 8) (of_nat 0) (of_nat (Suc n))"
      using True lt Suc.prems by (subst scan_loop.simps) (simp add: T u32_eq_iff unat_of_nat_32 add.commute)
    moreover have "\<not> free_run m s c" if "s + c \<le> Suc n" for s
    proof (cases "s + c \<le> n")
      case True
      then show ?thesis using Suc.prems(8) by blast
    next
      case False
      with that have "s + c = Suc n" by simp
      then have "n = s + (c - 1)" "c - 1 < c" using Suc.prems(2) by auto
      with \<open>bit_of m n\<close> show ?thesis unfolding free_run_def by blast
    qed
    ultimately show ?thesis
      using Suc.hyps(1) [of "Suc n" 0] Suc.hyps(2) Suc.prems n True by (simp add: free_run_def)
  next
    case False
    have ext: "free_run m (n - k) (Suc k)"
      using Suc.prems(5,7) False by (auto simp: free_run_def less_Suc_eq)
    show ?thesis
    proof (cases "Suc k = c")
      case True
      have "(of_nat k :: u32) + 1 = of_nat c" by (simp add: True [symmetric])
      then have "scan_loop m (of_nat c) (bm_length m * 8) (of_nat k) (of_nat n) =
          Inr (Some (of_nat n - of_nat c + 1))"
        using False lt by (subst scan_loop.simps) (simp add: T)
      moreover have "(of_nat n - of_nat c + 1 :: u32) = of_nat (n - k)"
        using Suc.prems(5) True by (simp add: True [symmetric])
      moreover have "unat (of_nat (n - k) :: u32) = n - k"
        using n N by (intro unat_of_nat_32) simp
      moreover have "\<not> free_run m s' c" if "s' < n - k" for s'
        using Suc.prems(8) that True by auto
      ultimately show ?thesis using ext True n Suc.prems(5) by auto
    next
      case ne: False
      have "(of_nat k :: u32) + 1 \<noteq> of_nat c"
        using ne Suc.prems(3,6) by (simp add: u32_eq_iff unat_of_nat_32 unat_Suc_32)
      then have "scan_loop m (of_nat c) (bm_length m * 8) (of_nat k) (of_nat n) =
          scan_loop m (of_nat c) (bm_length m * 8) (of_nat (Suc k)) (of_nat (Suc n))"
        using False lt by (subst scan_loop.simps) (simp add: T add.commute)
      moreover have "\<not> free_run m s c" if s: "s + c \<le> Suc n" for s
      proof (cases "s + c \<le> n")
        case True
        then show ?thesis using Suc.prems(8) by blast
      next
        case False
        with s ne Suc.prems(3) have "s \<le> n - k - 1" "n - k - 1 - s < c" "k < n" by auto
        with Suc.prems(9) show ?thesis unfolding free_run_def
          by (metis le_add_diff_inverse)
      qed
      ultimately show ?thesis
        using Suc.hyps(1) [of "Suc n" "Suc k"] Suc.hyps(2) Suc.prems n ne ext by simp
    qed
  qed
qed

lemma set_run_spec:
  "bitmap_wf m \<Longrightarrow> s + c \<le> nbits m \<Longrightarrow>
   \<exists>m'. set_run m (bm_offset m + of_nat s) c = Inr m' \<and> bitmap_wf m' \<and>
     bm_length m' = bm_length m \<and> bm_offset m' = bm_offset m \<and>
     length (bm_bits m') = length (bm_bits m) \<and>
     (\<forall>j. bit_of m' j = (bit_of m j \<or> s \<le> j \<and> j < s + c))"
proof (induction c arbitrary: m s)
  case 0
  then show ?case by auto
next
  case (Suc c)
  then have "s < nbits m" by simp
  from bitmap_set_wf [OF Suc.prems(1) this, of True] obtain m1 where
    m1: "bitmap_set m (bm_offset m + of_nat s) True = Inr m1" "bitmap_wf m1"
      "bm_length m1 = bm_length m" "bm_offset m1 = bm_offset m"
      "length (bm_bits m1) = length (bm_bits m)"
      "\<forall>j. bit_of m1 j = (if j = s then True else bit_of m j)" by blast
  have "Suc s + c \<le> nbits m1" using Suc.prems(2) m1(3) by (simp add: nbits_def)
  from Suc.IH [OF m1(2) this] obtain m2 where
    m2: "set_run m1 (bm_offset m1 + of_nat (Suc s)) c = Inr m2" "bitmap_wf m2"
      "bm_length m2 = bm_length m1" "bm_offset m2 = bm_offset m1"
      "length (bm_bits m2) = length (bm_bits m1)"
      "\<forall>j. bit_of m2 j = (bit_of m1 j \<or> Suc s \<le> j \<and> j < Suc s + c)" by blast
  have "bm_offset m + of_nat s + 1 = bm_offset m1 + of_nat (Suc s)" by (simp add: m1(4))
  then have "set_run m (bm_offset m + of_nat s) (Suc c) = Inr m2"
    by (simp only: set_run.simps m1(1) m2(1) rbind_Inr)
  with m1 m2 show ?case by auto
qed

text \<open>
  What a scan for \<open>count\<close> bits does: it takes the first run of clear bits that is long enough
  and sets exactly that run, or it reports \<open>EOF\<close> and changes nothing when there is none.
\<close>

definition scan_post :: "bitmap \<Rightarrow> u32 \<Rightarrow> u32 \<Rightarrow> bitmap \<Rightarrow> bool" where
  "scan_post m count r m' \<longleftrightarrow>
     (let s = unat r - unat (bm_offset m); c = unat count in
      unat (bm_offset m) \<le> unat r \<and> s + c \<le> nbits m \<and> free_run m s c \<and>
      (\<forall>s' < s. \<not> free_run m s' c) \<and>
      (\<forall>j. bit_of m' j = (bit_of m j \<or> s \<le> j \<and> j < s + c)))"

lemma bitmap_scan_wf:
  assumes wf: "bitmap_wf m" and pos: "0 < unat count"
  shows "\<exists>r m'. bitmap_scan m count = Inr (r, m') \<and> bitmap_wf m' \<and>
    bm_length m' = bm_length m \<and> bm_offset m' = bm_offset m \<and>
    length (bm_bits m') = length (bm_bits m) \<and>
    (if r = EOF32 then m' = m \<and> (\<forall>s. s + unat count \<le> nbits m \<longrightarrow> \<not> free_run m s (unat count))
     else scan_post m count r m')"
proof -
  let ?c = "unat count"
  have N: "unat (bm_offset m) + nbits m < 2 ^ 32" using wf by (auto simp: bitmap_wf_def nbits_def)
  from scan_loop_spec [OF wf pos, of 0 0] obtain r where
    r: "scan_loop m count (bm_length m * 8) 0 0 = Inr r"
      "case r of Some w \<Rightarrow> unat w + ?c \<le> nbits m \<and> free_run m (unat w) ?c \<and>
                 (\<forall>s'<unat w. \<not> free_run m s' ?c)
       | None \<Rightarrow> \<forall>s. s + ?c \<le> nbits m \<longrightarrow> \<not> free_run m s ?c"
    using pos unat_less_32 [of count] by (auto simp: free_run_def)
  show ?thesis
  proof (cases r)
    case None
    then show ?thesis using r wf by (simp add: bitmap_scan_def)
  next
    case (Some w)
    with r(2) have w: "unat w + ?c \<le> nbits m" "free_run m (unat w) ?c"
      "\<forall>s'<unat w. \<not> free_run m s' ?c" by simp_all
    from set_run_spec [OF wf w(1)] obtain m' where
      m': "set_run m (bm_offset m + w) ?c = Inr m'" "bitmap_wf m'"
        "bm_length m' = bm_length m" "bm_offset m' = bm_offset m"
        "length (bm_bits m') = length (bm_bits m)"
        "\<forall>j. bit_of m' j = (bit_of m j \<or> unat w \<le> j \<and> j < unat w + ?c)" by auto
    have sum: "unat (w + bm_offset m) = unat (bm_offset m) + unat w"
      using N w(1) by (subst unat_add_32) auto
    from unat_EOF32 have "w \<noteq> EOF32" "w + bm_offset m \<noteq> EOF32"
      using N w(1) pos sum by (auto simp: u32_eq_iff)
    with Some r(1) m' w sum show ?thesis
      by (simp add: bitmap_scan_def scan_post_def Let_def)
  qed
qed

text \<open>C24: Scanning a well-formed bitmap for \<open>count > 0\<close> bits always returns. If it returns \<open>EOF\<close> the
bitmap is unchanged and has no run of \<open>count\<close> clear bits; otherwise the result is the offset plus
the position of the first such run, and exactly the bits of that run are now set.\<close>

theorem bitmap_scan_first_fit:
  assumes "bitmap_wf m" "0 < unat count"
  shows "\<exists>r m'. bitmap_scan m count = Inr (r, m') \<and> bitmap_wf m' \<and>
    (if r = EOF32 then m' = m \<and> (\<forall>s. s + unat count \<le> nbits m \<longrightarrow> \<not> free_run m s (unat count))
     else scan_post m count r m')"
  using bitmap_scan_wf [OF assms] by blast

theorem bitmap_scan_first_fit_witness:
  "let m = bitmap_make [0xFD, 0x0F] 2 100 in
   \<exists>r m'. bitmap_scan m 3 = Inr (r, m') \<and> bitmap_wf m' \<and>
    (if r = EOF32 then m' = m \<and> (\<forall>s. s + unat (3 :: u32) \<le> nbits m \<longrightarrow> \<not> free_run m s (unat (3 :: u32)))
     else scan_post m 3 r m')"
  unfolding Let_def by (rule bitmap_scan_first_fit) (simp_all add: bitmap_wf_def bitmap_make_def)

end
