(* ===== verification/DList.thy ===== *)
theory DList
  imports Prelude
begin

text \<open>
  The intrusive doubly linked lists of \<open>src/src/lib/list.c\<close>, on an explicit heap: an address is a
  32-bit word (0 is \<open>NULL\<close>), a node is its two links, and a \<open>list_t\<close> at address \<open>l\<close> is its two
  sentinel nodes, \<open>head\<close> at \<open>l\<close> and \<open>tail\<close> eight bytes further. Following a null link is a
  \<open>Fault\<close>. Every operation is proved to implement its operation on the list of the linked nodes
  (\<open>dlist h l xs\<close>); the other components use the lists through those abstract operations.
\<close>

record dnode =
  n_prev :: u32
  n_next :: u32

type_synonym dheap = "u32 \<Rightarrow> dnode"

definition lhead :: "u32 \<Rightarrow> u32" where
  "lhead l = l"

definition ltail :: "u32 \<Rightarrow> u32" where
  "ltail l = l + 8"

definition get_next :: "dheap \<Rightarrow> u32 \<Rightarrow> u32 res" where
  "get_next h p = (if p = 0 then Inl Fault else Inr (n_next (h p)))"

definition get_prev :: "dheap \<Rightarrow> u32 \<Rightarrow> u32 res" where
  "get_prev h p = (if p = 0 then Inl Fault else Inr (n_prev (h p)))"

definition set_next :: "dheap \<Rightarrow> u32 \<Rightarrow> u32 \<Rightarrow> dheap res" where
  "set_next h p v = (if p = 0 then Inl Fault else Inr (h(p := (h p)\<lparr>n_next := v\<rparr>)))"

definition set_prev :: "dheap \<Rightarrow> u32 \<Rightarrow> u32 \<Rightarrow> dheap res" where
  "set_prev h p v = (if p = 0 then Inl Fault else Inr (h(p := (h p)\<lparr>n_prev := v\<rparr>)))"

definition list_init :: "dheap \<Rightarrow> u32 \<Rightarrow> dheap" where
  "list_init h l =
     h(lhead l := \<lparr>n_prev = 0, n_next = ltail l\<rparr>, ltail l := \<lparr>n_prev = lhead l, n_next = 0\<rparr>)"

definition list_insert_before :: "dheap \<Rightarrow> u32 \<Rightarrow> u32 \<Rightarrow> dheap res" where
  "list_insert_before h anchor node =
     rbind (set_next h node anchor) (\<lambda>h.
     rbind (get_prev h anchor) (\<lambda>p.
     rbind (set_next h p node) (\<lambda>h.
     rbind (get_prev h anchor) (\<lambda>p.
     rbind (set_prev h node p) (\<lambda>h.
     set_prev h anchor node)))))"

definition list_insert_after :: "dheap \<Rightarrow> u32 \<Rightarrow> u32 \<Rightarrow> dheap res" where
  "list_insert_after h anchor node =
     rbind (get_next h anchor) (\<lambda>n.
     rbind (set_next h node n) (\<lambda>h.
     rbind (set_next h anchor node) (\<lambda>h.
     rbind (set_prev h node anchor) (\<lambda>h.
     rbind (get_next h node) (\<lambda>n.
     set_prev h n node)))))"

definition list_remove :: "dheap \<Rightarrow> u32 \<Rightarrow> dheap res" where
  "list_remove h node =
     rbind (get_prev h node) (\<lambda>p. if p = 0 then Inl AssertFail else
     rbind (get_next h node) (\<lambda>n. if n = 0 then Inl AssertFail else
     rbind (set_next h p n) (\<lambda>h.
     rbind (get_next h node) (\<lambda>n.
     rbind (get_prev h node) (\<lambda>p.
     rbind (set_prev h n p) (\<lambda>h.
     rbind (set_prev h node 0) (\<lambda>h.
     set_next h node 0)))))))"

definition list_empty :: "dheap \<Rightarrow> u32 \<Rightarrow> bool res" where
  "list_empty h l = rbind (get_next h (lhead l)) (\<lambda>n. Inr (n = ltail l))"

text \<open>The walks along the list do not end on a cycle that misses the tail.\<close>

partial_function (option) search_from :: "dheap \<Rightarrow> u32 \<Rightarrow> u32 \<Rightarrow> u32 \<Rightarrow> bool res option" where
  "search_from h l node next =
     (if next = ltail l then Some (Inr False)
      else if next = node then Some (Inr True)
      else lbind (get_next h next) (\<lambda>next. search_from h l node next))"

definition list_search :: "dheap \<Rightarrow> u32 \<Rightarrow> u32 \<Rightarrow> bool res" where
  "list_search h l node =
     rbind (get_next h (lhead l)) (\<lambda>next. run_loop (search_from h l node next))"

partial_function (option) size_from :: "dheap \<Rightarrow> u32 \<Rightarrow> u32 \<Rightarrow> u32 \<Rightarrow> u32 res option" where
  "size_from h l next sz =
     (if next = ltail l then Some (Inr sz)
      else lbind (get_next h next) (\<lambda>next. size_from h l next (sz + 1)))"

definition list_size :: "dheap \<Rightarrow> u32 \<Rightarrow> u32 res" where
  "list_size h l = rbind (get_next h (lhead l)) (\<lambda>next. run_loop (size_from h l next 0))"

definition list_push :: "dheap \<Rightarrow> u32 \<Rightarrow> u32 \<Rightarrow> dheap res" where
  "list_push h l node =
     rbind (list_search h l node) (\<lambda>found.
       if found then Inl AssertFail else list_insert_after h (lhead l) node)"

definition list_pushback :: "dheap \<Rightarrow> u32 \<Rightarrow> u32 \<Rightarrow> dheap res" where
  "list_pushback h l node =
     rbind (list_search h l node) (\<lambda>found.
       if found then Inl AssertFail else list_insert_before h (ltail l) node)"

definition list_pop :: "dheap \<Rightarrow> u32 \<Rightarrow> (u32 \<times> dheap) res" where
  "list_pop h l =
     rbind (list_empty h l) (\<lambda>e. if e then Inl AssertFail else
     rbind (get_next h (lhead l)) (\<lambda>node.
     rbind (list_remove h node) (\<lambda>h. Inr (node, h))))"

definition list_popback :: "dheap \<Rightarrow> u32 \<Rightarrow> (u32 \<times> dheap) res" where
  "list_popback h l =
     rbind (list_empty h l) (\<lambda>e. if e then Inl AssertFail else
     rbind (get_prev h (ltail l)) (\<lambda>node.
     rbind (list_remove h node) (\<lambda>h. Inr (node, h))))"

text \<open>
  \<open>list_insert_sort\<close>: the key is the \<open>int\<close> that \<open>element_node_key\<close> reads \<open>offset\<close> bytes after a
  node; \<open>ints\<close> is the memory outside the links, by the addresses of its 32-bit cells.
\<close>

definition element_node_key :: "(u32 \<Rightarrow> u32) \<Rightarrow> u32 \<Rightarrow> u32 \<Rightarrow> int" where
  "element_node_key ints offset node = sint (ints (node + offset))"

partial_function (option) anchor_from :: "dheap \<Rightarrow> u32 \<Rightarrow> (u32 \<Rightarrow> int) \<Rightarrow> int \<Rightarrow> u32 \<Rightarrow> u32 res option" where
  "anchor_from h l key k ptr =
     (if ptr = ltail l then Some (Inr (ltail l))
      else if key ptr > k then Some (Inr ptr)
      else lbind (get_next h ptr) (\<lambda>ptr. anchor_from h l key k ptr))"

definition list_insert_sort :: "dheap \<Rightarrow> (u32 \<Rightarrow> u32) \<Rightarrow> u32 \<Rightarrow> u32 \<Rightarrow> u32 \<Rightarrow> dheap res" where
  "list_insert_sort h ints l node offset =
     rbind (get_next h (lhead l)) (\<lambda>ptr.
     rbind (run_loop (anchor_from h l (element_node_key ints offset)
                        (element_node_key ints offset node) ptr)) (\<lambda>anchor.
     rbind (get_next h node) (\<lambda>n. if n \<noteq> 0 then Inl AssertFail else
     rbind (get_prev h node) (\<lambda>p. if p \<noteq> 0 then Inl AssertFail else
     list_insert_before h anchor node))))"

subsection \<open>The linked nodes as a list\<close>

fun chain :: "dheap \<Rightarrow> u32 list \<Rightarrow> bool" where
  "chain h (a # b # r) \<longleftrightarrow> n_next (h a) = b \<and> n_prev (h b) = a \<and> chain h (b # r)"
| "chain h _ \<longleftrightarrow> True"

definition path :: "u32 \<Rightarrow> u32 list \<Rightarrow> u32 list" where
  "path l xs = lhead l # xs @ [ltail l]"

definition dlist :: "dheap \<Rightarrow> u32 \<Rightarrow> u32 list \<Rightarrow> bool" where
  "dlist h l xs \<longleftrightarrow> distinct (path l xs) \<and> 0 \<notin> set (path l xs) \<and> chain h (path l xs)"

definition detached :: "dheap \<Rightarrow> u32 \<Rightarrow> bool" where
  "detached h n \<longleftrightarrow> n_prev (h n) = 0 \<and> n_next (h n) = 0"

text \<open>A node that can be inserted: it exists and is no node of the list.\<close>

definition fresh :: "u32 \<Rightarrow> u32 list \<Rightarrow> u32 \<Rightarrow> bool" where
  "fresh l xs n \<longleftrightarrow> n \<noteq> 0 \<and> n \<notin> set (path l xs)"

lemma chain_split: "chain h (xs @ a # ys) \<longleftrightarrow> chain h (xs @ [a]) \<and> chain h (a # ys)"
  by (induction xs rule: induct_list012) auto

lemma chain_upd: "a \<notin> set xs \<Longrightarrow> chain (h(a := v)) xs = chain h xs"
  by (induction h xs rule: chain.induct) auto

lemma chain_cong:
  "(\<And>a. a \<in> set xs \<Longrightarrow> h a = h' a) \<Longrightarrow> chain h xs = chain h' xs"
  by (induction h xs rule: chain.induct) auto

lemma chain_last_next:
  "a \<notin> set xs \<Longrightarrow> chain (h(a := (h a)\<lparr>n_next := v\<rparr>)) (xs @ [a]) = chain h (xs @ [a])"
  by (induction xs rule: induct_list012) auto

lemma chain_first_prev:
  "b \<notin> set ys \<Longrightarrow> chain (h(b := (h b)\<lparr>n_prev := v\<rparr>)) (b # ys) = chain h (b # ys)"
  by (cases ys) (auto simp: chain_upd)


lemma chain_insert:
  assumes "chain h (as @ a # b # bs)" "distinct (as @ a # b # bs)" "n \<notin> set (as @ a # b # bs)"
    and n: "h' n = \<lparr>n_prev = a, n_next = b\<rparr>" and a: "h' a = (h a)\<lparr>n_next := n\<rparr>"
    and b: "h' b = (h b)\<lparr>n_prev := n\<rparr>" and rest: "\<And>c. c \<notin> {a, b, n} \<Longrightarrow> h' c = h c"
  shows "chain h' (as @ a # n # b # bs)"
proof -
  have "h' c = (h(a := (h a)\<lparr>n_next := n\<rparr>)) c" if "c \<in> set (as @ [a])" for c
    using that assms(2,3) a rest [of c] by (cases "c = a") auto
  then have "chain h' (as @ [a]) = chain (h(a := (h a)\<lparr>n_next := n\<rparr>)) (as @ [a])"
    by (rule chain_cong)
  then have 1: "chain h' (as @ [a])"
    using assms(1,2) chain_split [of h as a "b # bs"] by (simp add: chain_last_next)
  have "h' c = (h(b := (h b)\<lparr>n_prev := n\<rparr>)) c" if "c \<in> set (b # bs)" for c
    using that assms(2,3) b rest [of c] by (cases "c = b") auto
  then have "chain h' (b # bs) = chain (h(b := (h b)\<lparr>n_prev := n\<rparr>)) (b # bs)"
    by (rule chain_cong)
  then have 2: "chain h' (b # bs)"
    using assms(1,2) chain_split [of h as a "b # bs"] by (simp add: chain_first_prev)
  show ?thesis using 1 2 n a b by (subst chain_split) simp
qed

lemma chain_delete:
  assumes "chain h (as @ a # n # b # bs)" "distinct (as @ a # n # b # bs)"
    and a: "h' a = (h a)\<lparr>n_next := b\<rparr>" and b: "h' b = (h b)\<lparr>n_prev := a\<rparr>"
    and rest: "\<And>c. c \<notin> {a, b, n} \<Longrightarrow> h' c = h c"
  shows "chain h' (as @ a # b # bs)"
proof -
  have "h' c = (h(a := (h a)\<lparr>n_next := b\<rparr>)) c" if "c \<in> set (as @ [a])" for c
    using that assms(2) a rest [of c] by (cases "c = a") auto
  then have "chain h' (as @ [a]) = chain (h(a := (h a)\<lparr>n_next := b\<rparr>)) (as @ [a])"
    by (rule chain_cong)
  then have 1: "chain h' (as @ [a])"
    using assms(1,2) chain_split [of h as a "n # b # bs"] by (simp add: chain_last_next)
  have "h' c = (h(b := (h b)\<lparr>n_prev := a\<rparr>)) c" if "c \<in> set (b # bs)" for c
    using that assms(2) b rest [of c] by (cases "c = b") auto
  then have "chain h' (b # bs) = chain (h(b := (h b)\<lparr>n_prev := a\<rparr>)) (b # bs)"
    by (rule chain_cong)
  then have 2: "chain h' (b # bs)"
    using assms(1,2) chain_split [of h as a "n # b # bs"] by (simp add: chain_first_prev)
  show ?thesis using 1 2 a b by (subst chain_split) simp
qed

text \<open>Splitting the path at a node: its neighbours are on the path.\<close>

lemma path_insert_split:
  "path l (us @ vs) = as @ a # b # bs \<Longrightarrow> length as = length us \<Longrightarrow>
     path l (us @ n # vs) = as @ a # n # b # bs"
proof -
  assume p: "path l (us @ vs) = as @ a # b # bs" and len: "length as = length us"
  have "(lhead l # us) @ (vs @ [ltail l]) = (as @ [a]) @ (b # bs)"
    using p by (simp add: path_def)
  then have "lhead l # us = as @ [a] \<and> vs @ [ltail l] = b # bs"
    using len by (intro append_eq_append_conv [THEN iffD1]) auto
  then have "(lhead l # us) @ n # (vs @ [ltail l]) = (as @ [a]) @ n # (b # bs)" by metis
  then show ?thesis by (simp add: path_def)
qed

lemma path_split_at:
  obtains as a b bs where "path l (us @ vs) = as @ a # b # bs" "length as = length us"
    "lhead l # us = as @ [a]" "vs @ [ltail l] = b # bs"
proof -
  have "lhead l # us = butlast (lhead l # us) @ [last (lhead l # us)]"
    by (metis append_butlast_last_id list.distinct(1))
  moreover have "vs @ [ltail l] = hd (vs @ [ltail l]) # tl (vs @ [ltail l])" by simp
  ultimately show ?thesis
    by (intro that [of "butlast (lhead l # us)" "last (lhead l # us)"
          "hd (vs @ [ltail l])" "tl (vs @ [ltail l])"])
      (metis append.assoc append_Cons append_Nil path_def, simp_all)
qed

lemma dlist_links:
  assumes "dlist h l (us @ vs)" "lhead l # us = as @ [a]" "vs @ [ltail l] = b # bs"
  shows "n_next (h a) = b" "n_prev (h b) = a" "a \<noteq> 0" "b \<noteq> 0" "a \<noteq> b"
proof -
  have p: "path l (us @ vs) = as @ a # b # bs"
    using assms(2,3) by (simp add: path_def)
  show "n_next (h a) = b" "n_prev (h b) = a"
    using assms(1) p by (auto simp: dlist_def chain_split [of h as a "b # bs"])
  show "a \<noteq> 0" "b \<noteq> 0" "a \<noteq> b" using assms(1) p by (auto simp: dlist_def)
qed

lemma insert_before_dlist:
  assumes "dlist h l (us @ vs)" "fresh l (us @ vs) n" "vs @ [ltail l] = b # bs"
  shows "\<exists>h'. list_insert_before h b n = Inr h' \<and> dlist h' l (us @ n # vs) \<and>
    (\<forall>c. c \<notin> set (path l (us @ n # vs)) \<longrightarrow> h' c = h c)"
proof -
  obtain as a where a: "lhead l # us = as @ [a]" by (metis rev_exhaust list.distinct(1))
  note L = dlist_links [OF assms(1) a assms(3)]
  have p: "path l (us @ vs) = as @ a # b # bs" using a assms(3) by (simp add: path_def)
  have la: "length as = length us" using a by (metis length_Cons length_append_singleton nat.inject)
  note p' = path_insert_split [OF p la, of n]
  have n: "n \<noteq> 0" "n \<notin> set (as @ a # b # bs)" using assms(2) p by (auto simp: fresh_def)
  define h' where "h' = h(n := \<lparr>n_prev = a, n_next = b\<rparr>, a := (h a)\<lparr>n_next := n\<rparr>,
    b := (h b)\<lparr>n_prev := n\<rparr>)"
  have e: "list_insert_before h b n = Inr h'"
    using L n by (auto simp: list_insert_before_def set_next_def set_prev_def get_prev_def h'_def
        fun_eq_iff)
  have "chain h' (as @ a # n # b # bs)"
    using assms(1) p n L by (intro chain_insert [where h = h]) (auto simp: dlist_def h'_def)
  with assms(1) p p' n have "dlist h' l (us @ n # vs)" by (auto simp: dlist_def)
  moreover have "\<forall>c. c \<notin> set (path l (us @ n # vs)) \<longrightarrow> h' c = h c"
    by (auto simp: p' h'_def)
  ultimately show ?thesis using e by blast
qed

lemma insert_after_dlist:
  assumes "dlist h l (us @ vs)" "fresh l (us @ vs) n" "lhead l # us = as @ [a]"
  shows "\<exists>h'. list_insert_after h a n = Inr h' \<and> dlist h' l (us @ n # vs) \<and>
    (\<forall>c. c \<notin> set (path l (us @ n # vs)) \<longrightarrow> h' c = h c)"
proof -
  obtain b bs where b: "vs @ [ltail l] = b # bs" by (cases "vs @ [ltail l]") auto
  note L = dlist_links [OF assms(1,3) b]
  have p: "path l (us @ vs) = as @ a # b # bs" using assms(3) b by (simp add: path_def)
  have la: "length as = length us" using assms(3) by (metis length_Cons length_append_singleton nat.inject)
  note p' = path_insert_split [OF p la, of n]
  have n: "n \<noteq> 0" "n \<notin> set (as @ a # b # bs)" using assms(2) p by (auto simp: fresh_def)
  define h' where "h' = h(n := \<lparr>n_prev = a, n_next = b\<rparr>, a := (h a)\<lparr>n_next := n\<rparr>,
    b := (h b)\<lparr>n_prev := n\<rparr>)"
  have e: "list_insert_after h a n = Inr h'"
    using L n by (auto simp: list_insert_after_def set_next_def set_prev_def get_next_def h'_def
        fun_eq_iff)
  have "chain h' (as @ a # n # b # bs)"
    using assms(1) p n L by (intro chain_insert [where h = h]) (auto simp: dlist_def h'_def)
  with assms(1) p p' n have "dlist h' l (us @ n # vs)" by (auto simp: dlist_def)
  moreover have "\<forall>c. c \<notin> set (path l (us @ n # vs)) \<longrightarrow> h' c = h c"
    by (auto simp: p' h'_def)
  ultimately show ?thesis using e by blast
qed

lemma remove_dlist:
  assumes "dlist h l (us @ n # vs)"
  shows "\<exists>h'. list_remove h n = Inr h' \<and> dlist h' l (us @ vs) \<and> detached h' n \<and>
    (\<forall>c. c \<notin> set (path l (us @ n # vs)) \<longrightarrow> h' c = h c)"
proof -
  obtain as a where a: "lhead l # us = as @ [a]" by (metis rev_exhaust list.distinct(1))
  obtain b bs where b: "vs @ [ltail l] = b # bs" by (cases "vs @ [ltail l]") auto
  have p: "path l (us @ n # vs) = as @ a # n # b # bs" using a b by (simp add: path_def)
  have p0: "path l (us @ vs) = as @ a # b # bs" using a b by (simp add: path_def)
  have d: "distinct (as @ a # n # b # bs)" "0 \<notin> set (as @ a # n # b # bs)"
    "chain h (as @ a # n # b # bs)" using assms p by (auto simp: dlist_def)
  have L: "n_next (h a) = n" "n_prev (h n) = a" "n_next (h n) = b" "n_prev (h b) = n"
    using d(3) by (auto simp: chain_split [of h as a "n # b # bs"])
  have ne: "a \<noteq> 0" "b \<noteq> 0" "n \<noteq> 0" "a \<noteq> b" "a \<noteq> n" "b \<noteq> n" using d(1,2) by auto
  define h1 where "h1 = h(a := (h a)\<lparr>n_next := b\<rparr>)"
  define h2 where "h2 = h1(b := (h b)\<lparr>n_prev := a\<rparr>)"
  define h3 where "h3 = h2(n := (h n)\<lparr>n_prev := 0\<rparr>)"
  define h' where "h' = h3(n := (h n)\<lparr>n_prev := 0, n_next := 0\<rparr>)"
  have steps: "get_prev h n = Inr a" "get_next h n = Inr b" "set_next h a b = Inr h1"
    "get_next h1 n = Inr b" "get_prev h1 n = Inr a" "set_prev h1 b a = Inr h2"
    "set_prev h2 n 0 = Inr h3" "set_next h3 n 0 = Inr h'"
    using ne L by (simp_all add: get_prev_def get_next_def set_next_def set_prev_def
        h1_def h2_def h3_def h'_def)
  then have e: "list_remove h n = Inr h'"
    using ne by (simp add: list_remove_def)
  have same: "h' c = h c" if "c \<notin> {a, b, n}" for c
    using that by (simp add: h'_def h3_def h2_def h1_def)
  have at: "h' a = (h a)\<lparr>n_next := b\<rparr>" "h' b = (h b)\<lparr>n_prev := a\<rparr>"
    "h' n = (h n)\<lparr>n_prev := 0, n_next := 0\<rparr>"
    using ne by (simp_all add: h'_def h3_def h2_def h1_def)
  have "chain h' (as @ a # b # bs)"
    using d(3,1) at(1,2) same by (rule chain_delete)
  with d p0 have "dlist h' l (us @ vs)" by (auto simp: dlist_def)
  moreover have "\<forall>c. c \<notin> set (path l (us @ n # vs)) \<longrightarrow> h' c = h c"
    using same by (simp add: p)
  ultimately show ?thesis using e at(3) by (auto simp: detached_def)
qed


lemma search_from_dlist:
  assumes "dlist h l (us @ vs)" "vs @ [ltail l] = b # bs"
  shows "search_from h l n b = Some (Inr (n \<in> set vs))"
  using assms
proof (induction vs arbitrary: us b bs)
  case Nil
  then show ?case by (subst search_from.simps) simp
next
  case (Cons v vs)
  obtain c cs where c: "vs @ [ltail l] = c # cs" by (cases "vs @ [ltail l]") auto
  have "dlist h l ((us @ [v]) @ vs)" using Cons.prems(1) by simp
  note IH = Cons.IH [OF this c]
  have "n_next (h v) = c"
    using dlist_links(1) [OF \<open>dlist h l ((us @ [v]) @ vs)\<close>, of "lhead l # us" v c cs] c by simp
  moreover have "v \<noteq> 0" "v \<noteq> ltail l" using Cons.prems(1) by (auto simp: dlist_def path_def)
  moreover have "b = v" using Cons.prems(2) by simp
  ultimately show ?case using IH
    by (subst search_from.simps) (auto simp: get_next_def)
qed

lemma first_link:
  assumes "dlist h l xs" "xs @ [ltail l] = b # bs"
  shows "get_next h (lhead l) = Inr b"
  using dlist_links(1,3) [of h l "[]" xs "[]" "lhead l" b bs] assms by (simp add: get_next_def)

lemma list_search_dlist: "dlist h l xs \<Longrightarrow> list_search h l n = Inr (n \<in> set xs)"
  by (cases "xs @ [ltail l]")
    (simp_all add: list_search_def first_link search_from_dlist [of h l "[]", simplified])

lemma list_empty_dlist: "dlist h l xs \<Longrightarrow> list_empty h l = Inr (xs = [])"
  using first_link [of h l xs]
  by (cases xs) (auto simp: list_empty_def dlist_def path_def)

lemma size_from_dlist:
  assumes "dlist h l (us @ vs)" "vs @ [ltail l] = b # bs"
  shows "size_from h l b k = Some (Inr (k + of_nat (length vs)))"
  using assms
proof (induction vs arbitrary: us b bs k)
  case Nil
  then show ?case by (subst size_from.simps) simp
next
  case (Cons v vs)
  obtain c cs where c: "vs @ [ltail l] = c # cs" by (cases "vs @ [ltail l]") auto
  have D: "dlist h l ((us @ [v]) @ vs)" using Cons.prems(1) by simp
  have "n_next (h v) = c" using dlist_links(1) [OF D, of "lhead l # us" v c cs] c by simp
  moreover have "v \<noteq> 0" "v \<noteq> ltail l" using Cons.prems(1) by (auto simp: dlist_def path_def)
  moreover have "b = v" using Cons.prems(2) by simp
  ultimately show ?case using Cons.IH [OF D c, of "k + 1"]
    by (subst size_from.simps) (simp add: get_next_def add.assoc)
qed

lemma list_size_dlist: "dlist h l xs \<Longrightarrow> list_size h l = Inr (of_nat (length xs))"
  by (cases "xs @ [ltail l]")
    (simp_all add: list_size_def first_link size_from_dlist [of h l "[]", simplified])

lemma list_push_dlist:
  assumes "dlist h l xs" "fresh l xs n"
  shows "\<exists>h'. list_push h l n = Inr h' \<and> dlist h' l (n # xs) \<and>
    (\<forall>c. c \<notin> set (path l (n # xs)) \<longrightarrow> h' c = h c)"
proof -
  have "n \<notin> set xs" using assms(2) by (simp add: fresh_def path_def)
  with insert_after_dlist [of h l "[]" xs n "[]" "lhead l"] assms show ?thesis
    by (simp add: list_push_def list_search_dlist)
qed

lemma list_pushback_dlist:
  assumes "dlist h l xs" "fresh l xs n"
  shows "\<exists>h'. list_pushback h l n = Inr h' \<and> dlist h' l (xs @ [n]) \<and>
    (\<forall>c. c \<notin> set (path l (xs @ [n])) \<longrightarrow> h' c = h c)"
proof -
  have "n \<notin> set xs" using assms(2) by (simp add: fresh_def path_def)
  with insert_before_dlist [of h l xs "[]" n "ltail l" "[]"] assms show ?thesis
    by (simp add: list_pushback_def list_search_dlist)
qed

lemma list_pop_dlist:
  assumes "dlist h l (n # xs)"
  shows "\<exists>h'. list_pop h l = Inr (n, h') \<and> dlist h' l xs \<and> detached h' n \<and>
    (\<forall>c. c \<notin> set (path l (n # xs)) \<longrightarrow> h' c = h c)"
  using remove_dlist [of h l "[]" n xs] assms first_link [OF assms]
  by (auto simp: list_pop_def list_empty_dlist)

lemma list_popback_dlist:
  assumes "dlist h l (xs @ [n])"
  shows "\<exists>h'. list_popback h l = Inr (n, h') \<and> dlist h' l xs \<and> detached h' n \<and>
    (\<forall>c. c \<notin> set (path l (xs @ [n])) \<longrightarrow> h' c = h c)"
proof -
  have "get_prev h (ltail l) = Inr n"
    using dlist_links(2,4) [of h l "xs @ [n]" "[]" "lhead l # xs" n "ltail l" "[]"] assms
    by (simp add: get_prev_def)
  with remove_dlist [of h l xs n "[]"] assms show ?thesis
    by (auto simp: list_popback_def list_empty_dlist)
qed

subsection \<open>Sorted insertion\<close>

definition sorted_ins :: "('a \<Rightarrow> int) \<Rightarrow> 'a \<Rightarrow> 'a list \<Rightarrow> 'a list" where
  "sorted_ins key n xs =
     takeWhile (\<lambda>x. key x \<le> key n) xs @ n # dropWhile (\<lambda>x. key x \<le> key n) xs"

lemma sorted_ins_simps [simp]:
  "sorted_ins key n [] = [n]"
  "sorted_ins key n (x # xs) = (if key x \<le> key n then x # sorted_ins key n xs else n # x # xs)"
  by (simp_all add: sorted_ins_def)

lemma set_sorted_ins [simp]: "set (sorted_ins key n xs) = insert n (set xs)"
  by (induction xs) auto

lemma sorted_sorted_ins: "sorted (map key xs) \<Longrightarrow> sorted (map key (sorted_ins key n xs))"
  by (induction xs) fastforce+

lemma anchor_from_dlist:
  assumes "dlist h l (us @ vs)" "vs @ [ltail l] = b # bs"
  shows "anchor_from h l key k b = Some (Inr (hd (dropWhile (\<lambda>x. key x \<le> k) vs @ [ltail l])))"
  using assms
proof (induction vs arbitrary: us b bs)
  case Nil
  then show ?case by (subst anchor_from.simps) simp
next
  case (Cons v vs)
  obtain c cs where c: "vs @ [ltail l] = c # cs" by (cases "vs @ [ltail l]") auto
  have D: "dlist h l ((us @ [v]) @ vs)" using Cons.prems(1) by simp
  have "n_next (h v) = c" using dlist_links(1) [OF D, of "lhead l # us" v c cs] c by simp
  moreover have "v \<noteq> 0" "v \<noteq> ltail l" using Cons.prems(1) by (auto simp: dlist_def path_def)
  moreover have "b = v" using Cons.prems(2) by simp
  ultimately show ?case using Cons.IH [OF D c]
    by (subst anchor_from.simps) (auto simp: get_next_def)
qed

lemma list_insert_sort_dlist:
  assumes "dlist h l xs" "fresh l xs n" "detached h n"
  shows "\<exists>h'. list_insert_sort h ints l n offset = Inr h' \<and>
    dlist h' l (sorted_ins (element_node_key ints offset) n xs) \<and>
    (\<forall>c. c \<notin> set (path l (n # xs)) \<longrightarrow> h' c = h c)"
proof -
  let ?key = "element_node_key ints offset"
  let ?us = "takeWhile (\<lambda>x. ?key x \<le> ?key n) xs" and ?vs = "dropWhile (\<lambda>x. ?key x \<le> ?key n) xs"
  obtain b bs where b: "xs @ [ltail l] = b # bs" by (cases "xs @ [ltail l]") auto
  have A: "anchor_from h l ?key (?key n) b = Some (Inr (hd (?vs @ [ltail l])))"
    using anchor_from_dlist [of h l "[]" xs b bs] assms(1) b by simp
  obtain c cs where c: "?vs @ [ltail l] = c # cs" by (cases "?vs @ [ltail l]") auto
  have n: "n \<noteq> 0" using assms(2) by (simp add: fresh_def)
  have "dlist h l (?us @ ?vs)" "fresh l (?us @ ?vs) n" using assms by simp_all
  from insert_before_dlist [OF this c] obtain h' where
    h': "list_insert_before h c n = Inr h'" "dlist h' l (?us @ n # ?vs)"
      "\<forall>c. c \<notin> set (path l (?us @ n # ?vs)) \<longrightarrow> h' c = h c" by blast
  have "set (path l (?us @ n # ?vs)) = set (path l (n # xs))"
    using takeWhile_dropWhile_id [of "\<lambda>x. ?key x \<le> ?key n" xs] unfolding path_def
    by (metis (no_types, lifting) append_Cons append_assoc list.simps(15) set_append Un_insert_right Un_insert_left)
  have "list_insert_sort h ints l n offset = Inr h'"
    using first_link [OF assms(1) b] A c h'(1) assms(3) n
    by (simp add: list_insert_sort_def detached_def get_next_def get_prev_def)
  with h'(2,3) \<open>set (path l (?us @ n # ?vs)) = set (path l (n # xs))\<close> show ?thesis
    by (auto simp: sorted_ins_def)
qed

lemma list_init_dlist:
  assumes "l \<noteq> 0" "l \<noteq> - 8"
  shows "dlist (list_init h l) l []"
proof -
  have "l + 8 \<noteq> 0" using assms(2) by (metis add_eq_0_iff2)
  then show ?thesis using assms by (simp add: dlist_def path_def list_init_def lhead_def ltail_def)
qed

subsection \<open>A list as a queue of nodes\<close>

text \<open>
  The contract of a queue of nodes, as the waiters of a mutex and the requests of a device use a
  list: a node that is not yet in the queue can be added, the oldest node is taken.
\<close>

locale node_queue =
  fixes add :: "'s \<Rightarrow> 'n \<Rightarrow> 's res"
    and take_first :: "'s \<Rightarrow> ('n \<times> 's) res"
    and holds :: "'s \<Rightarrow> 'n list \<Rightarrow> bool"
    and node :: "'n \<Rightarrow> bool"
  assumes add_law: "holds s ns \<Longrightarrow> node n \<Longrightarrow> n \<notin> set ns \<Longrightarrow>
            \<exists>s'. add s n = Inr s' \<and> holds s' (ns @ [n])"
    and take_law: "holds s (n # ns) \<Longrightarrow> \<exists>s'. take_first s = Inr (n, s') \<and> holds s' ns"
    and add_twice: "holds s ns \<Longrightarrow> n \<in> set ns \<Longrightarrow> add s n = Inl AssertFail"
    and take_none: "holds s [] \<Longrightarrow> take_first s = Inl AssertFail"

primrec add_nodes :: "('s \<Rightarrow> 'n \<Rightarrow> 's res) \<Rightarrow> 's \<Rightarrow> 'n list \<Rightarrow> 's res" where
  "add_nodes add s [] = Inr s"
| "add_nodes add s (n # ns) = rbind (add s n) (\<lambda>s'. add_nodes add s' ns)"

primrec take_nodes :: "('s \<Rightarrow> ('n \<times> 's) res) \<Rightarrow> 's \<Rightarrow> nat \<Rightarrow> ('n list \<times> 's) res" where
  "take_nodes tk s 0 = Inr ([], s)"
| "take_nodes tk s (Suc k) =
     rbind (tk s) (\<lambda>(n, s'). rbind (take_nodes tk s' k) (\<lambda>(ns, s''). Inr (n # ns, s'')))"

context node_queue
begin

lemma add_nodes_holds:
  "holds s ms \<Longrightarrow> distinct (ms @ ns) \<Longrightarrow> \<forall>n\<in>set ns. node n \<Longrightarrow>
     \<exists>s'. add_nodes add s ns = Inr s' \<and> holds s' (ms @ ns)"
proof (induction ns arbitrary: s ms)
  case (Cons n ns)
  then have "node n" "n \<notin> set ms" by auto
  from add_law [OF Cons.prems(1) this] obtain s1 where
    s1: "add s n = Inr s1" "holds s1 (ms @ [n])" by blast
  from Cons.IH [OF s1(2)] Cons.prems s1(1) show ?case by auto
qed auto

lemma take_nodes_holds:
  "holds s (ns @ ms) \<Longrightarrow> \<exists>s'. take_nodes take_first s (length ns) = Inr (ns, s') \<and> holds s' ms"
proof (induction ns arbitrary: s)
  case (Cons n ns)
  then have "holds s (n # ns @ ms)" by simp
  from take_law [OF this] obtain s1 where
    s1: "take_first s = Inr (n, s1)" "holds s1 (ns @ ms)" by blast
  from Cons.IH [OF s1(2)] s1(1) show ?case by auto
qed auto

text \<open>Nodes leave the queue in the order in which they entered it.\<close>

lemma fair:
  assumes "holds s ms" "distinct (ms @ ns)" "\<forall>n\<in>set ns. node n"
  shows "\<exists>s' s''. add_nodes add s ns = Inr s' \<and>
    take_nodes take_first s' (length (ms @ ns)) = Inr (ms @ ns, s'') \<and> holds s'' []"
proof -
  from add_nodes_holds [OF assms] obtain s' where
    s': "add_nodes add s ns = Inr s'" "holds s' ((ms @ ns) @ [])" by auto
  from take_nodes_holds [OF s'(2)] s'(1) show ?thesis by blast
qed

end

definition list_node :: "u32 \<Rightarrow> u32 \<Rightarrow> bool" where
  "list_node l n \<longleftrightarrow> n \<noteq> 0 \<and> n \<noteq> lhead l \<and> n \<noteq> ltail l"

lemma fresh_list_node: "list_node l n \<Longrightarrow> n \<notin> set xs \<Longrightarrow> fresh l xs n"
  by (simp add: list_node_def fresh_def path_def)

text \<open>Both ends: pushed in front and taken at the back, or the other way round.\<close>

interpretation pushq: node_queue "\<lambda>h. list_push h l" "\<lambda>h. list_popback h l"
  "\<lambda>h xs. dlist h l (rev xs)" "list_node l" for l
proof
  fix h ns n
  show "dlist h l (rev ns) \<Longrightarrow> list_node l n \<Longrightarrow> n \<notin> set ns \<Longrightarrow>
      \<exists>h'. list_push h l n = Inr h' \<and> dlist h' l (rev (ns @ [n]))"
    using list_push_dlist [of h l "rev ns" n] by (auto simp: fresh_list_node)
  show "dlist h l (rev (n # ns)) \<Longrightarrow> \<exists>h'. list_popback h l = Inr (n, h') \<and> dlist h' l (rev ns)"
    using list_popback_dlist [of h l "rev ns" n] by auto
  show "dlist h l (rev ns) \<Longrightarrow> n \<in> set ns \<Longrightarrow> list_push h l n = Inl AssertFail"
    by (simp add: list_push_def list_search_dlist)
  show "dlist h l (rev []) \<Longrightarrow> list_popback h l = Inl AssertFail"
    by (simp add: list_popback_def list_empty_dlist)
qed

interpretation backq: node_queue "\<lambda>h. list_pushback h l" "\<lambda>h. list_pop h l"
  "\<lambda>h xs. dlist h l xs" "list_node l" for l
proof
  fix h ns n
  show "dlist h l ns \<Longrightarrow> list_node l n \<Longrightarrow> n \<notin> set ns \<Longrightarrow>
      \<exists>h'. list_pushback h l n = Inr h' \<and> dlist h' l (ns @ [n])"
    using list_pushback_dlist [of h l ns n] by (auto simp: fresh_list_node)
  show "dlist h l (n # ns) \<Longrightarrow> \<exists>h'. list_pop h l = Inr (n, h') \<and> dlist h' l ns"
    using list_pop_dlist [of h l n ns] by auto
  show "dlist h l ns \<Longrightarrow> n \<in> set ns \<Longrightarrow> list_pushback h l n = Inl AssertFail"
    by (simp add: list_pushback_def list_search_dlist)
  show "dlist h l [] \<Longrightarrow> list_pop h l = Inl AssertFail"
    by (simp add: list_pop_def list_empty_dlist)
qed

subsection \<open>The lists as their clients see them\<close>

text \<open>C25: Nodes that are pushed in front of a list and taken from its back (the waiting queue of a
mutex) come out in the order in which they were pushed, after the nodes that were there before;
none is lost, none is given twice, and the list is empty in the end. This holds on the pointer
structure itself: every link that the code follows is there.\<close>

theorem list_push_popback_order:
  assumes "dlist h l (rev ms)" "distinct (ms @ ns)" "\<forall>n\<in>set ns. list_node l n"
  shows "\<exists>h' h''. add_nodes (\<lambda>h. list_push h l) h ns = Inr h' \<and>
    take_nodes (\<lambda>h. list_popback h l) h' (length (ms @ ns)) = Inr (ms @ ns, h'') \<and>
    dlist h'' l []"
  using pushq.fair [OF assms] by simp

theorem list_push_popback_order_witness:
  "\<exists>h' h''. add_nodes (\<lambda>h. list_push h 0x1000) (list_init (\<lambda>_. \<lparr>n_prev = 0, n_next = 0\<rparr>) 0x1000)
      [0x2000, 0x3000] = Inr h' \<and>
    take_nodes (\<lambda>h. list_popback h 0x1000) h' (length ([] @ [0x2000, 0x3000 :: u32])) =
      Inr ([] @ [0x2000, 0x3000], h'') \<and> dlist h'' 0x1000 []"
  by (rule list_push_popback_order) (simp_all add: list_init_dlist list_node_def lhead_def ltail_def)

text \<open>C32: \<open>list_insert_sort\<close> puts a detached node into a list that is sorted by the key such that the
list stays sorted, holds the same nodes and the new one, and is still well linked in both
directions; so the list of the sleeping tasks stays ordered.\<close>

theorem list_insert_sort_sorted:
  assumes "dlist h l xs" "fresh l xs n" "detached h n"
    and "sorted (map (element_node_key ints offset) xs)"
  shows "\<exists>h' ys. list_insert_sort h ints l n offset = Inr h' \<and> dlist h' l ys \<and>
    set ys = insert n (set xs) \<and> length ys = length xs + 1 \<and>
    sorted (map (element_node_key ints offset) ys)"
proof -
  let ?key = "element_node_key ints offset"
  have "length (sorted_ins ?key n xs) = length xs + 1" by (induction xs) auto
  with list_insert_sort_dlist [OF assms(1-3)] sorted_sorted_ins [OF assms(4)] show ?thesis
    by (metis set_sorted_ins)
qed

theorem list_insert_sort_sorted_witness:
  "\<exists>h' ys. list_insert_sort (list_init (\<lambda>_. \<lparr>n_prev = 0, n_next = 0\<rparr>) 0x1000) (\<lambda>_. 7) 0x1000 0x2000 12
      = Inr h' \<and> dlist h' 0x1000 ys \<and> set ys = {0x2000} \<and> length ys = 1 \<and>
    sorted (map (element_node_key (\<lambda>_. 7) 12) ys)"
  using list_insert_sort_sorted [of "list_init (\<lambda>_. \<lparr>n_prev = 0, n_next = 0\<rparr>) 0x1000" "0x1000" "[]" "0x2000"
      "\<lambda>_. 7" 12] list_init_dlist [of "0x1000" "\<lambda>_. \<lparr>n_prev = 0, n_next = 0\<rparr>"]
  by (simp add: fresh_def detached_def path_def lhead_def ltail_def list_init_def)

end
