(* ===== verification/KString.thy ===== *)
theory KString
  imports Prelude
begin

text \<open>
  The string and memory routines of \<open>src/src/lib/string.c\<close> on a byte-addressed 32-bit memory.
  Each loop is translated as it reads and writes memory, so overlapping arguments and addresses
  that wrap around are covered by the definitions; a loop that looks for a terminator which is not
  there has the value \<open>None\<close>. \<open>cstr m a s\<close> says that the bytes of \<open>s\<close> stand at \<open>a\<close>, followed by a
  zero byte; \<open>put_bytes\<close> is the memory after a sequence of byte stores.
\<close>

unbundle bit_operations_syntax

type_synonym mem = "u32 \<Rightarrow> u8"

partial_function (option) strcpy_from :: "mem \<Rightarrow> u32 \<Rightarrow> u32 \<Rightarrow> mem option" where
  "strcpy_from m ptr src =
     (let m = m(ptr := m src)
      in if m src = 0 then Some m else strcpy_from m (ptr + 1) (src + 1))"

definition strcpy :: "mem \<Rightarrow> u32 \<Rightarrow> u32 \<Rightarrow> mem option" where
  "strcpy m dest src = strcpy_from m dest src"

primrec strncpy_from :: "mem \<Rightarrow> u32 \<Rightarrow> u32 \<Rightarrow> u32 \<Rightarrow> u32 \<Rightarrow> nat \<Rightarrow> mem" where
  "strncpy_from m dest count ptr src 0 = m(dest + (count - 1) := 0)"
| "strncpy_from m dest count ptr src (Suc left) =
     (let m = m(ptr := m src)
      in if m src = 0 then m else strncpy_from m dest count (ptr + 1) (src + 1) left)"

definition strncpy :: "mem \<Rightarrow> u32 \<Rightarrow> u32 \<Rightarrow> u32 \<Rightarrow> mem" where
  "strncpy m dest src count = strncpy_from m dest count dest src (unat count)"

partial_function (option) end_from :: "mem \<Rightarrow> u32 \<Rightarrow> u32 option" where
  "end_from m ptr = (if m ptr \<noteq> 0 then end_from m (ptr + 1) else Some ptr)"

definition strcat :: "mem \<Rightarrow> u32 \<Rightarrow> u32 \<Rightarrow> mem option" where
  "strcat m dest src = Option.bind (end_from m dest) (\<lambda>ptr. strcpy_from m ptr src)"

definition strlen :: "mem \<Rightarrow> u32 \<Rightarrow> u32 option" where
  "strlen m str = map_option (\<lambda>ptr. ptr - str) (end_from m str)"

text \<open>The sign of the first difference, with \<open>char\<close> a signed type.\<close>

definition char_cmp :: "u8 \<Rightarrow> u8 \<Rightarrow> int" where
  "char_cmp a b = (if sint a < sint b then -1 else if sint a > sint b then 1 else 0)"

partial_function (option) strcmp :: "mem \<Rightarrow> u32 \<Rightarrow> u32 \<Rightarrow> int option" where
  "strcmp m lhs rhs =
     (if m lhs = m rhs \<and> m lhs \<noteq> 0 \<and> m rhs \<noteq> 0 then strcmp m (lhs + 1) (rhs + 1)
      else Some (char_cmp (m lhs) (m rhs)))"

partial_function (option) strchr :: "mem \<Rightarrow> u32 \<Rightarrow> int \<Rightarrow> u32 option" where
  "strchr m ptr ch =
     (if sint (m ptr) = ch then Some ptr
      else if m ptr = 0 then Some 0
      else strchr m (ptr + 1) ch)"

partial_function (option) strrchr_from :: "mem \<Rightarrow> u32 \<Rightarrow> u32 \<Rightarrow> int \<Rightarrow> u32 option" where
  "strrchr_from m best ptr ch =
     (let best = (if sint (m ptr) = ch then ptr else best)
      in if m ptr = 0 then Some best else strrchr_from m best (ptr + 1) ch)"

definition strrchr :: "mem \<Rightarrow> u32 \<Rightarrow> int \<Rightarrow> u32 option" where
  "strrchr m str ch = strrchr_from m 0 str ch"

primrec memcmp_n :: "mem \<Rightarrow> u32 \<Rightarrow> u32 \<Rightarrow> nat \<Rightarrow> int" where
  "memcmp_n m lptr rptr 0 = 0"
| "memcmp_n m lptr rptr (Suc n) =
     (if m lptr = m rptr then memcmp_n m (lptr + 1) (rptr + 1) n
      else char_cmp (m lptr) (m rptr))"

definition memcmp :: "mem \<Rightarrow> u32 \<Rightarrow> u32 \<Rightarrow> u32 \<Rightarrow> int" where
  "memcmp m lhs rhs count = memcmp_n m lhs rhs (unat count)"

primrec memset_n :: "mem \<Rightarrow> u32 \<Rightarrow> u8 \<Rightarrow> nat \<Rightarrow> mem" where
  "memset_n m ptr ch 0 = m"
| "memset_n m ptr ch (Suc n) = memset_n (m(ptr := ch)) (ptr + 1) ch n"

definition memset :: "mem \<Rightarrow> u32 \<Rightarrow> int \<Rightarrow> u32 \<Rightarrow> mem" where
  "memset m dest ch count = memset_n m dest (word_of_int ch) (unat count)"

primrec memcpy_n :: "mem \<Rightarrow> u32 \<Rightarrow> u32 \<Rightarrow> nat \<Rightarrow> mem" where
  "memcpy_n m ptr src 0 = m"
| "memcpy_n m ptr src (Suc n) = memcpy_n (m(ptr := m src)) (ptr + 1) (src + 1) n"

definition memcpy :: "mem \<Rightarrow> u32 \<Rightarrow> u32 \<Rightarrow> u32 \<Rightarrow> mem" where
  "memcpy m dest src count = memcpy_n m dest src (unat count)"

text \<open>\<open>memchr\<close> has no \<open>return\<close> after its loop: the result is then undefined.\<close>

primrec memchr_n :: "mem \<Rightarrow> u32 \<Rightarrow> int \<Rightarrow> nat \<Rightarrow> u32 res" where
  "memchr_n m ptr ch 0 = Inl Fault"
| "memchr_n m ptr ch (Suc n) =
     (if sint (m ptr) = ch then Inr ptr else memchr_n m (ptr + 1) ch n)"

definition memchr :: "mem \<Rightarrow> u32 \<Rightarrow> int \<Rightarrow> u32 \<Rightarrow> u32 res" where
  "memchr m str ch count = memchr_n m str ch (unat count)"

text \<open>\<open>IS_SEPARATOR\<close>: a slash or a backslash.\<close>

definition is_separator :: "u8 \<Rightarrow> bool" where
  "is_separator c \<longleftrightarrow> c = 0x2F \<or> c = 0x5C"

partial_function (option) strsep :: "mem \<Rightarrow> u32 \<Rightarrow> u32 option" where
  "strsep m ptr =
     (if is_separator (m ptr) then Some ptr
      else if m ptr = 0 then Some 0
      else strsep m (ptr + 1))"

partial_function (option) strrsep_from :: "mem \<Rightarrow> u32 \<Rightarrow> u32 \<Rightarrow> u32 option" where
  "strrsep_from m best ptr =
     (let best = (if is_separator (m ptr) then ptr else best)
      in if m ptr = 0 then Some best else strrsep_from m best (ptr + 1))"

definition strrsep :: "mem \<Rightarrow> u32 \<Rightarrow> u32 option" where
  "strrsep m str = strrsep_from m 0 str"

subsection \<open>Strings in memory\<close>

lemma sint_eq_iff: "sint (a :: u8) = sint b \<longleftrightarrow> a = b"
  using signed_word_eqI by auto

lemma char_cmp_eq_0: "char_cmp a b = 0 \<longleftrightarrow> a = b"
  using sint_eq_iff [of a b] by (auto simp: char_cmp_def)

primrec cstr :: "mem \<Rightarrow> u32 \<Rightarrow> u8 list \<Rightarrow> bool" where
  "cstr m a [] \<longleftrightarrow> m a = 0"
| "cstr m a (c # cs) \<longleftrightarrow> m a = c \<and> c \<noteq> 0 \<and> cstr m (a + 1) cs"

primrec bytes_at :: "mem \<Rightarrow> u32 \<Rightarrow> u8 list \<Rightarrow> bool" where
  "bytes_at m a [] \<longleftrightarrow> True"
| "bytes_at m a (c # cs) \<longleftrightarrow> m a = c \<and> bytes_at m (a + 1) cs"

primrec put_bytes :: "mem \<Rightarrow> u32 \<Rightarrow> u8 list \<Rightarrow> mem" where
  "put_bytes m a [] = m"
| "put_bytes m a (c # cs) = put_bytes (m(a := c)) (a + 1) cs"

text \<open>The addresses of \<open>n\<close> bytes from \<open>a\<close> on, wrap-around included.\<close>

definition span :: "u32 \<Rightarrow> nat \<Rightarrow> u32 set" where
  "span a n = (\<lambda>i. a + of_nat i) ` {..<n}"

lemma span_0 [simp]: "span a 0 = {}"
  by (simp add: span_def)

lemma span_Suc: "span a (Suc n) = insert a (span (a + 1) n)"
proof -
  have "span a (Suc n) = (\<lambda>i. a + of_nat i) ` insert 0 (Suc ` {..<n})"
    by (simp only: span_def lessThan_Suc_eq_insert_0)
  also have "\<dots> = insert a (span (a + 1) n)"
    by (auto simp: span_def image_image add.assoc)
  finally show ?thesis .
qed

lemma span_numeral [simp]:
  "span a (numeral k) = insert a (span (a + 1) (pred_numeral k))"
  "span a (Suc 0) = {a}"
  by (simp_all add: numeral_eq_Suc span_Suc)

lemma span_fresh: "n < 2 ^ 32 \<Longrightarrow> a \<notin> span (a + 1) n"
proof
  assume n: "n < 2 ^ 32" and "a \<in> span (a + 1) n"
  then obtain i where "i < n" "a = a + 1 + of_nat i" by (auto simp: span_def)
  then have "(of_nat (Suc i) :: u32) = 0" by (simp add: add.assoc)
  moreover have "unat (of_nat (Suc i) :: u32) = Suc i"
    using n \<open>i < n\<close> by (intro unat_of_nat_32) simp
  ultimately show False by simp
qed

lemma put_bytes_same: "a \<notin> span p (length cs) \<Longrightarrow> put_bytes m p cs a = m a"
  by (induction cs arbitrary: m p) (auto simp: span_Suc)

lemma put_bytes_at: "length cs \<le> 2 ^ 32 \<Longrightarrow> bytes_at (put_bytes m p cs) p cs"
proof (induction cs arbitrary: m p)
  case (Cons c cs)
  then show ?case
    using put_bytes_same [of p "p + 1" cs] span_fresh [of "length cs" p] by simp
qed simp

lemma bytes_at_cong: "(\<And>a. a \<in> span p (length cs) \<Longrightarrow> m a = m' a) \<Longrightarrow> bytes_at m p cs = bytes_at m' p cs"
  by (induction cs arbitrary: p) (auto simp: span_Suc)

lemma cstr_bytes: "cstr m a s \<longleftrightarrow> bytes_at m a (s @ [0]) \<and> 0 \<notin> set s"
  by (induction s arbitrary: a) auto

lemma cstr_upd: "p \<notin> span a (Suc (length s)) \<Longrightarrow> cstr (m(p := v)) a s = cstr m a s"
  by (induction s arbitrary: a) (auto simp: span_Suc)

lemma end_from_cstr: "cstr m a s \<Longrightarrow> end_from m a = Some (a + of_nat (length s))"
  by (induction s arbitrary: a) (subst end_from.simps, simp add: add.assoc)+

lemma strlen_cstr: "cstr m a s \<Longrightarrow> strlen m a = Some (of_nat (length s))"
  by (simp add: strlen_def end_from_cstr)

lemma strcpy_from_cstr:
  assumes "cstr m src s" "span ptr (Suc (length s)) \<inter> span src (Suc (length s)) = {}"
  shows "strcpy_from m ptr src = Some (put_bytes m ptr (s @ [0]))"
  using assms
proof (induction s arbitrary: m ptr src)
  case Nil
  then show ?case by (subst strcpy_from.simps) (auto simp: span_Suc Let_def)
next
  case (Cons c cs)
  have d: "ptr \<notin> span (src + 1) (Suc (length cs))" "ptr \<noteq> src"
    "span (ptr + 1) (Suc (length cs)) \<inter> span (src + 1) (Suc (length cs)) = {}"
    using Cons.prems(2) by (auto simp: span_Suc)
  have "cstr (m(ptr := c)) (src + 1) cs" using Cons.prems(1) d(1) by (simp add: cstr_upd)
  from Cons.IH [OF this d(3)] show ?case
    using Cons.prems(1) d(2) by (subst strcpy_from.simps) (simp add: Let_def fun_upd_def)
qed

lemma strncpy_from_cstr:
  assumes "cstr m src s" "span ptr left \<inter> span src (Suc (length s)) = {}" "left \<le> unat count"
    and "ptr = dest + of_nat (unat count - left)"
  shows "strncpy_from m dest count ptr src left =
    (if length s < left then put_bytes m ptr (s @ [0])
     else (put_bytes m ptr (take left s))(dest + (count - 1) := 0))"
  using assms
proof (induction s arbitrary: m ptr src left)
  case Nil
  then show ?case by (cases left) (auto simp: span_Suc Let_def)
next
  case (Cons c cs)
  show ?case
  proof (cases left)
    case (Suc n)
    have d: "ptr \<notin> span (src + 1) (Suc (length cs))" "ptr \<noteq> src"
      "span (ptr + 1) n \<inter> span (src + 1) (Suc (length cs)) = {}"
      using Cons.prems(2) Suc by (auto simp: span_Suc)
    have 1: "cstr (m(ptr := c)) (src + 1) cs" using Cons.prems(1) d(1) by (simp add: cstr_upd)
    have "unat count - n = Suc (unat count - left)" using Suc Cons.prems(3) by simp
    then have 2: "ptr + 1 = dest + of_nat (unat count - n)" using Cons.prems(4) by simp
    have 3: "n \<le> unat count" using Suc Cons.prems(3) by simp
    from Cons.IH [OF 1 d(3) 3 2] show ?thesis
      using Cons.prems(1) d(2) Suc by (simp add: Let_def fun_upd_def)
  qed simp
qed

lemma strcmp_cstr:
  assumes "cstr m a s" "cstr m b t"
  shows "\<exists>r. strcmp m a b = Some r \<and> (r = 0 \<longleftrightarrow> s = t)"
  using assms
proof (induction s arbitrary: a b t)
  case Nil
  then show ?case
    by (cases t) (subst strcmp.simps, auto simp: char_cmp_eq_0)+
next
  case (Cons c cs)
  show ?case
  proof (cases t)
    case Nil
    with Cons.prems show ?thesis
      by (subst strcmp.simps) (auto simp: char_cmp_eq_0)
  next
    case (Cons d ds)
    show ?thesis
    proof (cases "c = d")
      case True
      with Cons Cons.prems Cons.IH [of "a + 1" "b + 1" ds] show ?thesis
        by (subst strcmp.simps) auto
    next
      case False
      with Cons Cons.prems show ?thesis
        by (subst strcmp.simps) (auto simp: char_cmp_eq_0)
    qed
  qed
qed

lemma memcpy_n_bytes:
  assumes "bytes_at m src cs" "span dest (length cs) \<inter> span src (length cs) = {}"
  shows "memcpy_n m dest src (length cs) = put_bytes m dest cs"
  using assms
proof (induction cs arbitrary: m dest src)
  case (Cons c cs)
  have d: "dest \<notin> span (src + 1) (length cs)"
    "span (dest + 1) (length cs) \<inter> span (src + 1) (length cs) = {}"
    using Cons.prems(2) by (auto simp: span_Suc)
  have "bytes_at (m(dest := c)) (src + 1) cs = bytes_at m (src + 1) cs"
    using d(1) by (intro bytes_at_cong) auto
  with Cons.IH [of "m(dest := c)" "src + 1" "dest + 1"] Cons.prems(1) d(2) show ?case
    by (simp add: fun_upd_def)
qed simp

lemma memset_n_bytes: "memset_n m p c n = put_bytes m p (replicate n c)"
  by (induction n arbitrary: m p) simp_all

text \<open>The index of the last separator of a string, if it has one.\<close>

primrec last_sep :: "u8 list \<Rightarrow> nat option" where
  "last_sep [] = None"
| "last_sep (c # cs) =
     (case last_sep cs of Some i \<Rightarrow> Some (Suc i)
      | None \<Rightarrow> if is_separator c then Some 0 else None)"

lemma last_sep_Some:
  "last_sep s = Some i \<Longrightarrow> i < length s \<and> is_separator (s ! i) \<and>
     (\<forall>j. i < j \<longrightarrow> j < length s \<longrightarrow> \<not> is_separator (s ! j))"
proof (induction s arbitrary: i)
  case (Cons c cs)
  show ?case
  proof (cases "last_sep cs")
    case None
    then have "\<not> is_separator (cs ! j)" if "j < length cs" for j
      using that
    proof (induction cs arbitrary: j)
      case (Cons d ds)
      then show ?case by (cases j) (auto split: option.splits if_splits)
    qed simp
    with None Cons.prems show ?thesis by (auto simp: nth_Cons' split: if_splits)
  next
    case (Some k)
    with Cons.IH [OF Some] Cons.prems show ?thesis by (auto simp: nth_Cons' )
  qed
qed simp

lemma strrsep_from_cstr:
  "cstr m a s \<Longrightarrow> strrsep_from m best a =
     Some (case last_sep s of Some i \<Rightarrow> a + of_nat i | None \<Rightarrow> best)"
proof (induction s arbitrary: a best)
  case Nil
  then show ?case by (subst strrsep_from.simps) (simp add: is_separator_def Let_def)
next
  case (Cons c cs)
  then show ?case
    by (subst strrsep_from.simps) (simp add: Let_def add.assoc split: option.split)
qed

lemma cstr_span_cong:
  "(\<And>p. p \<in> span a (Suc (length s)) \<Longrightarrow> m p = m' p) \<Longrightarrow> cstr m a s = cstr m' a s"
  using bytes_at_cong [of a "s @ [0]" m m'] by (simp add: cstr_bytes)

lemma cstr_put: "0 \<notin> set s \<Longrightarrow> length s < 2 ^ 32 \<Longrightarrow> cstr (put_bytes m a (s @ [0])) a s"
  using put_bytes_at [of "s @ [0]" m a] by (simp add: cstr_bytes)

lemma cstr_nonzero: "cstr m a s \<Longrightarrow> 0 \<notin> set s"
  by (simp add: cstr_bytes)

subsection \<open>Searching for the terminator\<close>

lemma end_from_zero:
  assumes "m (p + of_nat n) = 0" "\<forall>i<n. m (p + of_nat i) \<noteq> 0"
  shows "end_from m p = Some (p + of_nat n)"
  using assms
proof (induction n arbitrary: p)
  case 0
  then show ?case by (subst end_from.simps) simp
next
  case (Suc n)
  have "m p \<noteq> 0" using Suc.prems(2) by (auto dest: spec [of _ 0])
  moreover have "\<forall>i<n. m (p + 1 + of_nat i) \<noteq> 0"
    using Suc.prems(2) by (auto simp: add.assoc dest: spec [of _ "Suc _"])
  moreover have "m (p + 1 + of_nat n) = 0" using Suc.prems(1) by (simp add: add.assoc)
  ultimately show ?case using Suc.IH [of "p + 1"]
    by (subst end_from.simps) (simp add: add.assoc)
qed

lemma end_from_at_zero:
  assumes "end_from m p = Some r"
  shows "m r = 0"
  using _ assms
proof (rule end_from.raw_induct)
  fix loop :: "mem \<Rightarrow> u32 \<Rightarrow> u32 option" and m ptr r
  assume "\<And>m ptr r. loop m ptr = Some r \<Longrightarrow> m r = 0"
    and "(if m ptr \<noteq> 0 then loop m (ptr + 1) else Some ptr) = Some r"
  then show "m r = 0" by (auto split: if_splits)
qed

definition char_less :: "(u8 \<times> u8) set" where
  "char_less = {(a, b). sint a < sint b}"

lemma sint_0D: "sint (a :: u8) = 0 \<Longrightarrow> a = 0"
  using sint_eq_iff [of a 0] by simp

lemma strcmp_lex_cstr:
  assumes "cstr m a s" "cstr m b t"
  shows "strcmp m a b = Some (if (s @ [0], t @ [0]) \<in> lexord char_less then - 1 else if s = t then 0 else 1)"
  using assms
proof (induction s arbitrary: a b t)
  case Nil
  then show ?case
    by (cases t) (subst strcmp.simps, auto simp: char_cmp_def char_less_def dest: sint_0D)+
next
  case (Cons c cs)
  show ?case
  proof (cases t)
    case Nil
    with Cons.prems show ?thesis
      using sint_eq_iff [of c 0]
      by (subst strcmp.simps) (auto simp: char_cmp_def char_less_def)
  next
    case (Cons d ds)
    then show ?thesis 
      using Cons.prems Cons.IH [of "a + 1" "b + 1" ds] sint_eq_iff [of c d]
      by (subst strcmp.simps) (auto simp: char_cmp_def char_less_def)
  qed
qed
subsection \<open>Copying strings\<close>

text \<open>\<open>strcpy\<close> of a terminated string onto a place that does not overlap it returns, leaves the same
string at both places (so \<open>strcmp\<close> calls them equal and \<open>strlen\<close> agrees), and changes no byte
outside the destination's \<open>length + 1\<close> bytes.\<close>

theorem strcpy_copies:
  assumes "cstr m src s" "length s < 2 ^ 32"
    and "span dest (Suc (length s)) \<inter> span src (Suc (length s)) = {}"
  shows "\<exists>m'. strcpy m dest src = Some m' \<and> cstr m' dest s \<and> cstr m' src s \<and>
    strcmp m' dest src = Some 0 \<and> strlen m' dest = strlen m src \<and>
    (\<forall>p. p \<notin> span dest (Suc (length s)) \<longrightarrow> m' p = m p)"
proof -
  define m' where "m' = put_bytes m dest (s @ [0])"
  have e: "strcpy m dest src = Some m'"
    using strcpy_from_cstr [OF assms(1,3)] by (simp add: strcpy_def m'_def)
  have same: "m' p = m p" if "p \<notin> span dest (Suc (length s))" for p
    using that by (simp add: m'_def put_bytes_same)
  have d: "cstr m' dest s" using cstr_nonzero [OF assms(1)] assms(2) by (simp add: m'_def cstr_put)
  have "cstr m' src s = cstr m src s"
    using same assms(3) by (intro cstr_span_cong) auto
  then have c: "cstr m' src s" using assms(1) by simp
  from strcmp_cstr [OF d c] have "strcmp m' dest src = Some 0" by auto
  with e same d c assms(1) show ?thesis by (simp add: strlen_cstr)
qed

theorem strcpy_copies_witness:
  "\<exists>m'. strcpy ((\<lambda>_. 0)(100 := 0x61, 101 := 0x62)) 200 100 = Some m' \<and> cstr m' 200 [0x61, 0x62] \<and>
    cstr m' 100 [0x61, 0x62] \<and> strcmp m' 200 100 = Some 0 \<and>
    strlen m' 200 = strlen ((\<lambda>_. 0)(100 := 0x61, 101 := 0x62)) 100"
  using strcpy_copies [of "(\<lambda>_. 0)(100 := 0x61, 101 := 0x62)" 100 "[0x61, 0x62]" 200]
  by (auto simp: span_Suc)

text \<open>C38: \<open>strncpy\<close> with \<open>count > 0\<close> always leaves a terminated string in the destination's \<open>count\<close> bytes
and touches nothing else: the source when it is shorter than \<open>count\<close>, and otherwise its first
\<open>count - 1\<close> characters.\<close>

theorem strncpy_terminates_string:
  assumes "cstr m src s" "0 < unat count"
    and "span dest (unat count) \<inter> span src (Suc (length s)) = {}"
  shows "cstr (strncpy m dest src count) dest (take (unat count - 1) s) \<and>
    (\<forall>p. p \<notin> span dest (unat count) \<longrightarrow> strncpy m dest src count p = m p)"
proof (cases "length s < unat count")
  case True
  then have e: "strncpy m dest src count = put_bytes m dest (s @ [0])"
    using strncpy_from_cstr [OF assms(1,3), of count] by (simp add: strncpy_def)
  have "span dest (Suc (length s)) \<subseteq> span dest (unat count)"
    using True by (auto simp: span_def)
  moreover have "length s < 2 ^ 32" using True unat_less_32 [of count] by simp
  moreover have "put_bytes m dest (s @ [0]) p = m p" if "p \<notin> span dest (Suc (length s))" for p
    using that put_bytes_same [of p dest "s @ [0]"] by simp
  ultimately show ?thesis using True cstr_nonzero [OF assms(1)]
    by (auto simp: e cstr_put)
next
  case False
  define n where "n = unat count - 1"
  have n: "unat count = Suc n" "n \<le> length s" using False assms(2) by (auto simp: n_def)
  have c1: "count - 1 = of_nat n"
  proof -
    have "count = of_nat (Suc n)" by (simp add: u32_eq_iff unat_of_nat_32 n(1)[symmetric])
    then show ?thesis by simp
  qed
  have up: "put_bytes m p (xs @ [y]) = (put_bytes m p xs)(p + of_nat (length xs) := y)" for m p xs y
    by (induction xs arbitrary: m p) (simp_all add: add.assoc)
  have "strncpy m dest src count =
      (put_bytes m dest (take (Suc n) s))(dest + of_nat n := 0)"
    using False strncpy_from_cstr [OF assms(1,3), of count] n(1) by (simp add: strncpy_def c1)
  also have "\<dots> = put_bytes m dest (take n s @ [0])"
  proof (cases "n < length s")
    case True
    then show ?thesis using n(2) by (simp add: take_Suc_conv_app_nth up min_absorb2)
  next
    case ge: False
    then have "length s = n" using n(2) by simp
    then show ?thesis by (simp add: up)
  qed
  finally have e: "strncpy m dest src count = put_bytes m dest (take n s @ [0])" .
  have "0 \<notin> set (take n s)" using cstr_nonzero [OF assms(1)] by (meson in_set_takeD)
  moreover have "length (take n s) < 2 ^ 32" using n unat_less_32 [of count] by simp
  ultimately show ?thesis using n
    by (auto simp: e cstr_put min_absorb2 intro!: put_bytes_same)
qed

theorem strncpy_terminates_string_witness:
  "cstr (strncpy ((\<lambda>_. 0)(100 := 0x61, 101 := 0x62)) 200 100 2) 200 [0x61]"
  using strncpy_terminates_string [of "(\<lambda>_. 0)(100 := 0x61, 101 := 0x62)" 100 "[0x61, 0x62]" 2 200]
  by (auto simp: span_Suc)

subsection \<open>Searching and comparing\<close>

text \<open>C31: \<open>strlen\<close> returns exactly when some byte of the memory is 0, and then its value is the distance to the
first zero byte from the argument on, across the end of the address space if need be; otherwise it
never returns.\<close>

theorem strlen_first_zero:
  "strlen m p = (if 0 \<in> range m then Some (of_nat (LEAST i. m (p + of_nat i) = 0)) else None)"
proof (cases "0 \<in> range m")
  case True
  define n where "n = (LEAST i. m (p + of_nat i) = 0)"
  obtain q where "m q = 0" using True by (metis rangeE)
  then have "m (p + of_nat (unat (q - p))) = 0" by simp
  then have "m (p + of_nat n) = 0" unfolding n_def by (rule LeastI)
  moreover have "\<forall>i<n. m (p + of_nat i) \<noteq> 0" using not_less_Least n_def by blast
  ultimately have "end_from m p = Some (p + of_nat n)" by (rule end_from_zero)
  then show ?thesis using True by (simp add: strlen_def n_def)
next
  case False
  have "end_from m p = None"
  proof (cases "end_from m p")
    case (Some r)
    then have "m r = 0" by (rule end_from_at_zero)
    then show ?thesis using False by (metis rangeI)
  qed
  then show ?thesis using False by (simp add: strlen_def)
qed

text \<open>C30: \<open>strcmp\<close> of two terminated strings is the lexicographic comparison of the strings with their
terminators, where characters compare as signed numbers: \<open>-1\<close>, \<open>0\<close> or \<open>1\<close>. A string that goes on with a
byte from 128 on therefore comes before its own prefix.\<close>

theorem strcmp_lexicographic:
  assumes "cstr m a s" "cstr m b t"
  shows "strcmp m a b = Some (if (s @ [0], t @ [0]) \<in> lexord char_less then - 1 else if s = t then 0 else 1)"
  using assms by (rule strcmp_lex_cstr)

theorem strcmp_lexicographic_witness:
  "strcmp ((\<lambda>_. 0)(100 := 0x61, 101 := 0x80, 200 := 0x61)) 100 200 = Some (- 1)"
proof -
  have "(0x80 :: u8, 0) \<in> char_less" by (simp add: char_less_def)
  then show ?thesis
    using strcmp_lexicographic [of "(\<lambda>_. 0)(100 := 0x61, 101 := 0x80, 200 := 0x61)" 100 "[0x61, 0x80]" 200 "[0x61]"]
    by simp
qed

end
