(* ===== verification/Ports.thy ===== *)
theory Ports
  imports Prelude
begin

text \<open>
  The I/O ports, as the drivers use them through \<open>inb\<close> and \<open>outb\<close> of \<open>src/src/include/io.h\<close>. The
  devices behind the ports are a parameter of the state (\<open>p_dev\<close>): what a read of a port gives may
  depend on the whole history of accesses (\<open>p_trace\<close>, newest first). On top of them are the
  real-time clock registers of \<open>src/src/kernel/rtc.c\<close>.
\<close>

unbundle bit_operations_syntax

datatype io_event = Out u16 u8 | In u16 u8 | OutW u16 u16 | InW u16 u16

record ports =
  p_trace :: "io_event list"
  p_dev :: "io_event list \<Rightarrow> u16 \<Rightarrow> u16"

definition outb :: "u16 \<Rightarrow> u8 \<Rightarrow> ('a ports_scheme, unit) op" where
  "outb port v = smodify (p_trace_update (\<lambda>t. Out port v # t))"

definition inb :: "u16 \<Rightarrow> ('a ports_scheme, u8) op" where
  "inb port = (\<lambda>p. let v = ucast (p_dev p (p_trace p) port) in Inr (v, p\<lparr>p_trace := In port v # p_trace p\<rparr>))"

definition outw :: "u16 \<Rightarrow> u16 \<Rightarrow> ('a ports_scheme, unit) op" where
  "outw port v = smodify (p_trace_update (\<lambda>t. OutW port v # t))"

definition inw :: "u16 \<Rightarrow> ('a ports_scheme, u16) op" where
  "inw port = (\<lambda>p. let v = p_dev p (p_trace p) port in Inr (v, p\<lparr>p_trace := InW port v # p_trace p\<rparr>))"

definition cmos_read :: "u8 \<Rightarrow> ('a ports_scheme, u8) op" where
  "cmos_read addr = sbind (outb 0x70 (0x80 OR addr)) (\<lambda>_. inb 0x71)"

definition cmos_write :: "u8 \<Rightarrow> u8 \<Rightarrow> ('a ports_scheme, unit) op" where
  "cmos_write addr v = sbind (outb 0x70 (0x80 OR addr)) (\<lambda>_. outb 0x71 v)"

lemma outb_run: "outb port v p = Inr ((), p\<lparr>p_trace := Out port v # p_trace p\<rparr>)"
  by (cases p) (simp add: outb_def)

lemma outw_run: "outw port v p = Inr ((), p\<lparr>p_trace := OutW port v # p_trace p\<rparr>)"
  by (cases p) (simp add: outw_def)

text \<open>The values a driver sent to a port, oldest first.\<close>

fun sent :: "u16 \<Rightarrow> io_event list \<Rightarrow> u8 list" where
  "sent port [] = []"
| "sent port (Out q v # t) = sent port t @ (if q = port then [v] else [])"
| "sent port (_ # t) = sent port t"

text \<open>
  A clock chip whose registers stand still: register \<open>r\<close> reads as \<open>regs r\<close> after \<open>r\<close> was selected.
\<close>

definition steady_cmos :: "(u8 \<Rightarrow> u8) \<Rightarrow> 'a ports_scheme \<Rightarrow> bool" where
  "steady_cmos regs p \<longleftrightarrow>
     (\<forall>t a. p_dev p (Out 0x70 (0x80 OR a) # t) 0x71 = ucast (regs a))"

lemma cmos_read_steady:
  assumes "steady_cmos regs p"
  shows "cmos_read a p = Inr (regs a, p\<lparr>p_trace := In 0x71 (regs a) # Out 0x70 (0x80 OR a) # p_trace p\<rparr>)"
  using assms by (simp add: cmos_read_def outb_def inb_def steady_cmos_def Let_def)

lemma steady_trace [simp]: "steady_cmos regs (p\<lparr>p_trace := t\<rparr>) = steady_cmos regs p"
  by (simp add: steady_cmos_def)

end
