(* ===== verification/Stdlib.thy ===== *)
theory Stdlib
  imports Prelude
begin

text \<open>The arithmetic helpers of \<open>src/src/lib/stdlib.c\<close>.\<close>

unbundle bit_operations_syntax

definition bcd_to_bin :: "u8 \<Rightarrow> u8" where
  "bcd_to_bin value = (((drop_bit 4 value AND 0xf) * 10 + value) AND 0xf)"

definition bin_to_bcd :: "u8 \<Rightarrow> u8" where
  "bin_to_bcd value = (push_bit 4 (value div 10) OR (value mod 10))"

definition div_round_up :: "u32 \<Rightarrow> u32 \<Rightarrow> u32 res" where
  "div_round_up num sz = (if sz = 0 then Inl Fault else Inr ((num + sz - 1) div sz))"

text \<open>
  \<open>atoi\<close> keeps its sign in a \<open>bool\<close>, in which \<open>-1\<close> is stored as \<open>true\<close>. The string is the list
  of its characters before the terminator; \<open>None\<close> is \<open>NULL\<close>.
\<close>

primrec atoi_digits :: "int \<Rightarrow> u8 list \<Rightarrow> int" where
  "atoi_digits result [] = result"
| "atoi_digits result (c # cs) = atoi_digits (s32 (result * 10 + (sint c - 48))) cs"

definition atoi :: "u8 list option \<Rightarrow> int" where
  "atoi str =
     (case str of None \<Rightarrow> 0
      | Some s \<Rightarrow>
          (let neg = (s \<noteq> [] \<and> hd s = 0x2D);
               sign = (if neg then (if (-1 :: int) \<noteq> 0 then 1 else 0) else 1);
               s = (if neg then tl s else s)
           in s32 (atoi_digits 0 s * sign)))"

text \<open>
  The precedence of \<open>+\<close> and \<open>&\<close> in \<open>bcd_to_bin\<close> keeps only the low four bits of the value, so that
  the two conversions are inverse below 16 only.
\<close>

lemma bcd_to_bin_low: "unat (bcd_to_bin (bin_to_bcd v)) = unat v mod 16" if "v < 100"
proof -
  have "\<forall>n \<in> set [0..<100]. unat (bcd_to_bin (bin_to_bcd (of_nat n))) = n mod 16"
    by code_simp
  moreover have "v = of_nat (unat v)" "unat v \<in> set [0..<100]"
    using that by (simp_all add: word_less_nat_alt)
  ultimately show ?thesis by metis
qed

end
