(* ===== verification/Calendar.thy ===== *)
theory Calendar
  imports Ports Stdlib
begin

text \<open>
  The calendar of \<open>src/src/kernel/time.c\<close>
  and the alarm of \<open>src/src/kernel/rtc.c\<close>. The fields of a \<open>tm\<close> are C \<open>int\<close>s, C division is
  \<open>sdiv\<close>/\<open>smod\<close>, and a \<open>time_t\<close> is a 32-bit word into which every sum is truncated.
  \<open>greg_stamp\<close> is the reference: seconds since 1970 by the Gregorian calendar.
\<close>

unbundle bit_operations_syntax

subsection \<open>The calendar\<close>

record tm =
  tm_sec :: int
  tm_min :: int
  tm_hour :: int
  tm_mday :: int
  tm_mon :: int
  tm_year :: int
  tm_wday :: int
  tm_yday :: int
  tm_isdst :: int

definition month :: "int list" where
  "month = [0, 0, 31, 31 + 29, 31 + 29 + 31, 31 + 29 + 31 + 30, 31 + 29 + 31 + 30 + 31,
     31 + 29 + 31 + 30 + 31 + 30, 31 + 29 + 31 + 30 + 31 + 30 + 31,
     31 + 29 + 31 + 30 + 31 + 30 + 31 + 31, 31 + 29 + 31 + 30 + 31 + 30 + 31 + 31 + 30,
     31 + 29 + 31 + 30 + 31 + 30 + 31 + 31 + 30 + 31,
     31 + 29 + 31 + 30 + 31 + 30 + 31 + 31 + 30 + 31 + 30]"

text \<open>\<open>month[i]\<close>, with undefined behaviour outside the table.\<close>

definition month_at :: "int \<Rightarrow> int res" where
  "month_at i = (if 0 \<le> i then rd month (nat i) else Inl Fault)"

text \<open>The year counted from 1970 that \<open>mktime\<close> and \<open>get_yday\<close> use.\<close>

definition year_1970 :: "tm \<Rightarrow> int" where
  "year_1970 t = (if tm_year t \<ge> 70 then tm_year t - 70 else tm_year t - 70 + 100)"

definition mktime :: "tm \<Rightarrow> u32 res" where
  "mktime t =
     (let year = year_1970 t;
          res = word_of_int (365 * 86400 * year);
          res = res + word_of_int (86400 * ((year + 1) sdiv 4))
      in rbind (month_at (tm_mon t)) (\<lambda>md.
         let res = res + word_of_int (md * 86400);
             res = (if tm_mon t > 2 \<and> (year + 2) smod 4 \<noteq> 0 then res - 86400 else res);
             res = res + word_of_int (86400 * (tm_mday t - 1));
             res = res + word_of_int (3600 * tm_hour t);
             res = res + word_of_int (60 * tm_min t);
             res = res + word_of_int (tm_sec t)
         in Inr res))"

definition get_yday :: "tm \<Rightarrow> int res" where
  "get_yday t =
     rbind (month_at (tm_mon t)) (\<lambda>res.
       let res = res + tm_mday t; year = year_1970 t
       in Inr (if (year + 2) smod 4 \<noteq> 0 \<and> tm_mon t > 2 then res - 1 else res))"

definition elapsed_leap_years :: "int \<Rightarrow> int" where
  "elapsed_leap_years year =
     (year - 1) sdiv 4 - (year - 1) sdiv 100 + (year + 299) sdiv 400 - (1970 - 1900) sdiv 4"

definition is_leap_year :: "int \<Rightarrow> bool" where
  "is_leap_year year \<longleftrightarrow>
     (year smod 4 = 0 \<and> year smod 100 \<noteq> 0) \<or> (year + 1900) smod 400 = 0"

text \<open>The month loop of \<open>localtime\<close>: the first \<open>mon\<close> with \<open>month[mon] - offset > yday\<close>, or 13.\<close>

function first_month :: "nat \<Rightarrow> int \<Rightarrow> int \<Rightarrow> nat" where
  "first_month mon offset yday =
     (if 13 \<le> mon then mon
      else if month ! mon - offset > yday then mon
      else first_month (Suc mon) offset yday)"
  by pat_completeness auto
termination
  by (relation "measure (\<lambda>(mon, _). 13 - mon)") auto

declare first_month.simps [simp del]

definition localtime :: "u32 \<Rightarrow> tm \<Rightarrow> tm" where
  "localtime stamp t =
     (let sec = uint (stamp mod 60);
          remain = stamp div 60;
          mi = uint (remain mod 60);
          remain = remain div 60;
          hour = uint (remain mod 24);
          days = remain div 24;
          wday = uint ((days + 4) mod 7);
          years = s32 (uint (days div 365 + 70));
          offset = (if is_leap_year years then 0 else 1 :: int);
          days = days - word_of_int (elapsed_leap_years years);
          yday = uint (days mod word_of_int (366 - offset));
          mon = first_month 1 offset yday
      in t\<lparr>tm_sec := sec, tm_min := mi, tm_hour := hour, tm_wday := wday, tm_year := years,
           tm_yday := yday, tm_mon := int mon - 1,
           tm_mday := yday - month ! (mon - 1) + offset + 1\<rparr>)"

subsection \<open>Reading the clock\<close>

text \<open>One round of the reading loop: the eight registers, in the order of the code.\<close>

definition read_round :: "tm \<Rightarrow> ('a ports_scheme, tm \<times> u8) op" where
  "read_round t =
     sbind (cmos_read 0x00) (\<lambda>sec.
     sbind (cmos_read 0x02) (\<lambda>mi.
     sbind (cmos_read 0x04) (\<lambda>hour.
     sbind (cmos_read 0x06) (\<lambda>wday.
     sbind (cmos_read 0x07) (\<lambda>mday.
     sbind (cmos_read 0x08) (\<lambda>mon.
     sbind (cmos_read 0x09) (\<lambda>year.
     sbind (cmos_read 0x32) (\<lambda>century.
     sret (t\<lparr>tm_sec := uint sec, tm_min := uint mi, tm_hour := uint hour, tm_wday := uint wday,
             tm_mday := uint mday, tm_mon := uint mon, tm_year := uint year\<rparr>, century)))))))))"

text \<open>The loop repeats until the seconds register still holds what the round read.\<close>

partial_function (option) time_read_bcd_loop ::
    "tm \<Rightarrow> 'a ports_scheme \<Rightarrow> ((tm \<times> u8) \<times> 'a ports_scheme) res option" where
  "time_read_bcd_loop t p =
     lbind (sbind (read_round t) (\<lambda>r. sbind (cmos_read 0x00) (\<lambda>s. sret (r, s))) p) (\<lambda>q.
       if tm_sec (fst (fst (fst q))) \<noteq> uint (snd (fst q))
       then time_read_bcd_loop (fst (fst (fst q))) (snd q)
       else Some (Inr (fst (fst q), snd q)))"

definition time_read_bcd :: "tm \<Rightarrow> ('a ports_scheme, tm \<times> u8) op" where
  "time_read_bcd t p = run_loop (time_read_bcd_loop t p)"

definition bcd_int :: "int \<Rightarrow> int" where
  "bcd_int i = uint (bcd_to_bin (word_of_int i))"

definition time_read :: "tm \<Rightarrow> ('a ports_scheme, tm \<times> int) op" where
  "time_read t =
     sbind (time_read_bcd t) (\<lambda>(t, century).
       let t = t\<lparr>tm_sec := bcd_int (tm_sec t), tm_min := bcd_int (tm_min t),
                 tm_hour := bcd_int (tm_hour t), tm_wday := bcd_int (tm_wday t),
                 tm_mday := bcd_int (tm_mday t), tm_mon := bcd_int (tm_mon t),
                 tm_year := bcd_int (tm_year t)\<rparr>
       in sbind (slift (get_yday t)) (\<lambda>yday.
          sret (t\<lparr>tm_yday := yday, tm_isdst := -1\<rparr>, bcd_int (uint century))))"

text \<open>\<open>time_init\<close> stores the time stamp of the clock in \<open>startup_time\<close>.\<close>

definition time_init :: "tm \<Rightarrow> ('a ports_scheme, u32) op" where
  "time_init t = sbind (time_read t) (\<lambda>(t, _). slift (mktime t))"

text \<open>The time of day to which \<open>set_alarm\<close> sets the alarm, from the time it has read.\<close>

definition alarm_time :: "tm \<Rightarrow> u32 \<Rightarrow> tm" where
  "alarm_time t secs =
     (let sec = uint (ucast (secs mod 60) :: u8);
          secs = secs div 60;
          mi = uint (ucast (secs mod 60) :: u8);
          hour = secs div 60;
          t = t\<lparr>tm_sec := tm_sec t + sec\<rparr>;
          t = (if tm_sec t \<ge> 60 then t\<lparr>tm_sec := tm_sec t smod 60, tm_min := tm_min t + 1\<rparr> else t);
          t = t\<lparr>tm_min := tm_min t + mi\<rparr>;
          t = (if tm_min t \<ge> 60 then t\<lparr>tm_min := tm_min t smod 60, tm_hour := tm_hour t + 1\<rparr> else t);
          t = t\<lparr>tm_hour := s32 (tm_hour t + uint hour)\<rparr>
      in if tm_hour t \<ge> 24 then t\<lparr>tm_hour := tm_hour t smod 24\<rparr> else t)"

definition set_alarm :: "tm \<Rightarrow> u32 \<Rightarrow> ('a ports_scheme, unit) op" where
  "set_alarm t secs =
     sbind (time_read t) (\<lambda>(t, _).
       let t = alarm_time t secs
       in sbind (cmos_write 0x05 (bin_to_bcd (word_of_int (tm_hour t)))) (\<lambda>_.
          sbind (cmos_write 0x03 (bin_to_bcd (word_of_int (tm_min t)))) (\<lambda>_.
          sbind (cmos_write 0x01 (bin_to_bcd (word_of_int (tm_sec t)))) (\<lambda>_.
          sbind (slift (mktime t)) (\<lambda>_.
          sbind (cmos_write 0x0B 0x22) (\<lambda>_.
          sbind (cmos_read 0x0C) (\<lambda>_. sret ())))))))"

subsection \<open>The Gregorian calendar\<close>

definition greg_leap :: "nat \<Rightarrow> bool" where
  "greg_leap y \<longleftrightarrow> 4 dvd y \<and> (\<not> 100 dvd y \<or> 400 dvd y)"

definition month_len :: "nat \<Rightarrow> nat \<Rightarrow> nat" where
  "month_len y m = (if m = 2 then (if greg_leap y then 29 else 28)
                    else if m \<in> {4, 6, 9, 11} then 30 else 31)"

definition year_len :: "nat \<Rightarrow> nat" where
  "year_len y = (\<Sum>m\<leftarrow>[1..<13]. month_len y m)"

text \<open>The year a \<open>tm\<close> stands for: two-digit years below 70 are in this century.\<close>

definition full_year :: "tm \<Rightarrow> nat" where
  "full_year t = nat (if tm_year t \<ge> 70 then 1900 + tm_year t else 2000 + tm_year t)"

definition year_day :: "tm \<Rightarrow> nat" where
  "year_day t = (\<Sum>m\<leftarrow>[1..<nat (tm_mon t)]. month_len (full_year t) m) + nat (tm_mday t) - 1"

definition greg_days :: "tm \<Rightarrow> nat" where
  "greg_days t = (\<Sum>y\<leftarrow>[1970..<full_year t]. year_len y) + year_day t"

definition greg_stamp :: "tm \<Rightarrow> int" where
  "greg_stamp t = 86400 * int (greg_days t) + 3600 * tm_hour t + 60 * tm_min t + tm_sec t"

text \<open>The dates from 1970 to 2037, after which 31 bits of seconds are exceeded.\<close>

definition valid_tm :: "tm \<Rightarrow> bool" where
  "valid_tm t \<longleftrightarrow> 0 \<le> tm_year t \<and> full_year t \<in> {1970..2037} \<and> 1 \<le> tm_mon t \<and> tm_mon t \<le> 12 \<and>
     1 \<le> tm_mday t \<and> tm_mday t \<le> int (month_len (full_year t) (nat (tm_mon t))) \<and>
     0 \<le> tm_hour t \<and> tm_hour t < 24 \<and> 0 \<le> tm_min t \<and> tm_min t < 60 \<and>
     0 \<le> tm_sec t \<and> tm_sec t < 60"

lemma greg_leap_1970: "k < 130 \<Longrightarrow> greg_leap (1970 + k) \<longleftrightarrow> (k + 2) mod 4 = 0"
proof -
  assume "k < 130"
  then have "k = 30 \<or> (1970 + k) mod 100 \<noteq> 0" by presburger
  moreover have "(1970 + k) mod 4 = (k + 2) mod 4" by presburger
  ultimately show ?thesis by (auto simp: greg_leap_def dvd_eq_mod_eq_0)
qed

lemma year_len_1970: "k < 130 \<Longrightarrow> year_len (1970 + k) = (if (k + 2) mod 4 = 0 then 366 else 365)"
  using greg_leap_1970 [of k] by (simp add: year_len_def month_len_def upt_conv_Cons)

lemma years_1970: "k \<le> 130 \<Longrightarrow> (\<Sum>y\<leftarrow>[1970..<1970 + k]. year_len y) = 365 * k + (k + 1) div 4"
proof (induction k)
  case (Suc k)
  have "(k + 2) div 4 = (k + 1) div 4 + (if (k + 2) mod 4 = 0 then 1 else 0)" by presburger
  moreover have "[1970..<1970 + Suc k] = [1970..<1970 + k] @ [1970 + k]"
    by (simp only: add_Suc_right upt_Suc le_add1 if_True)
  ultimately show ?case using Suc year_len_1970 [of k] by (simp del: upt_Suc)
qed simp

lemma month_cases:
  assumes "1 \<le> (m :: int)" "m \<le> 12"
  shows "m \<in> {1, 2, 3, 4, 5, 6, 7, 8, 9, 10, 11, 12}"
  using assms by (simp, presburger)

text \<open>The table counts the days of a leap year.\<close>

lemma month_at_sum:
  assumes "1 \<le> m" "m \<le> 12"
  shows "month_at m = Inr (int (\<Sum>k\<leftarrow>[1..<nat m]. month_len y k) +
    (if m > 2 \<and> \<not> greg_leap y then 1 else 0))"
  using month_cases [OF assms]
  by (auto simp: month_at_def rd_def month_def month_len_def upt_conv_Cons)

lemma month_at_nth: "1 \<le> m \<Longrightarrow> m \<le> 12 \<Longrightarrow> month_at m = Inr (month ! nat m)"
  by (simp add: month_at_def rd_def month_def)

lemma valid_year:
  assumes "valid_tm t"
  obtains k where "full_year t = 1970 + k" "year_1970 t = int k" "k \<le> 67"
    "(int k + 2) smod 4 = 0 \<longleftrightarrow> greg_leap (full_year t)"
    "(int k + 1) sdiv 4 = int ((k + 1) div 4)"
proof -
  define k where "k = nat (year_1970 t)"
  have k: "full_year t = 1970 + k" "year_1970 t = int k" "k \<le> 67"
    using assms by (auto simp: k_def valid_tm_def full_year_def year_1970_def split: if_splits)
  have "(int k + 2) smod 4 = int ((k + 2) mod 4)"
    by (simp add: signed_modulo_int_def signed_divide_int_def zmod_int minus_div_mult_eq_mod [symmetric])
  moreover have "(int k + 1) sdiv 4 = int ((k + 1) div 4)"
    by (simp add: signed_divide_int_def zdiv_int)
  ultimately show ?thesis using k that [of k] greg_leap_1970 [of k] by simp
qed

lemma mktime_greg:
  assumes "valid_tm t"
  shows "mktime t = Inr (word_of_int (greg_stamp t))"
proof -
  from valid_year [OF assms] obtain k where
    k: "full_year t = 1970 + k" "year_1970 t = int k" "k \<le> 67"
      "(int k + 2) smod 4 = 0 \<longleftrightarrow> greg_leap (full_year t)"
      "(int k + 1) sdiv 4 = int ((k + 1) div 4)" by blast
  have m: "1 \<le> tm_mon t" "tm_mon t \<le> 12" "1 \<le> tm_mday t" using assms by (auto simp: valid_tm_def)
  define d where "d = (\<Sum>j\<leftarrow>[1..<nat (tm_mon t)]. month_len (full_year t) j)"
  have md: "month_at (tm_mon t) =
      Inr (int d + (if tm_mon t > 2 \<and> \<not> greg_leap (full_year t) then 1 else 0))"
    unfolding d_def by (rule month_at_sum [OF m(1,2)])
  have gd: "int (greg_days t) = 365 * int k + int ((k + 1) div 4) + int d + tm_mday t - 1"
    using years_1970 [of k] k(3) m(3)
    by (simp add: greg_days_def year_day_def d_def k(1) of_nat_diff)
  show ?thesis
    unfolding mktime_def Let_def md k(2,4,5) greg_stamp_def gd
    by (simp add: algebra_simps)
qed

lemma greg_stamp_bound:
  assumes "valid_tm t"
  shows "0 \<le> greg_stamp t" "greg_stamp t < 2 ^ 32" "greg_stamp t div 86400 = int (greg_days t)"
proof -
  from valid_year [OF assms] obtain k where k: "full_year t = 1970 + k" "k \<le> 67" by blast
  have m: "1 \<le> tm_mon t" "tm_mon t \<le> 12" using assms by (auto simp: valid_tm_def)
  have "month ! nat (tm_mon t) \<le> 335"
    using month_cases [OF m] by (elim insertE) (simp_all add: month_def)
  then have "int (\<Sum>j\<leftarrow>[1..<nat (tm_mon t)]. month_len (full_year t) j) \<le> 335"
    using month_at_sum [OF m, of "full_year t"] month_at_nth [OF m] by (auto split: if_splits)
  moreover have "tm_mday t \<le> 31" using assms by (auto simp: valid_tm_def month_len_def split: if_splits)
  ultimately have "year_day t \<le> 365" by (simp add: year_day_def)
  then have "greg_days t \<le> 24855"
    using k years_1970 [of k] by (simp add: greg_days_def)
  moreover have "0 \<le> 3600 * tm_hour t + 60 * tm_min t + tm_sec t"
    "3600 * tm_hour t + 60 * tm_min t + tm_sec t < 86400"
    using assms by (auto simp: valid_tm_def)
  ultimately show "0 \<le> greg_stamp t" "greg_stamp t < 2 ^ 32"
    "greg_stamp t div 86400 = int (greg_days t)"
    by (auto simp: greg_stamp_def)
qed

lemma elapsed_leap_1970: "k \<le> 67 \<Longrightarrow> elapsed_leap_years (int k + 70) = int ((k + 1) div 4)"
proof -
  assume k: "k \<le> 67"
  have "(int k + 69) sdiv n = (int k + 69) div n" if "0 < n" for n
    using that by (simp add: signed_divide_int_def)
  moreover have "(int k + 369) sdiv 400 = (int k + 369) div 400"
    by (simp add: signed_divide_int_def)
  moreover have "(int k + 69) div 4 = 17 + (int k + 1) div 4" by presburger
  moreover have "(int k + 69) div 100 = (int k + 369) div 400"
  proof (cases "k \<le> 30")
    case True
    then show ?thesis by simp
  next
    case False
    then have "(int k + 69) div 100 = 1" "(int k + 369) div 400 = 1"
      using k by (auto intro!: int_div_pos_eq [where r = "int k - 31"])
    then show ?thesis by simp
  qed
  ultimately show ?thesis
    by (simp add: elapsed_leap_years_def signed_divide_int_def zdiv_int add.commute)
qed

text \<open>The month loop finds the month of a day from March on in a common year.\<close>

lemma first_month_found:
  assumes "3 \<le> m" "m \<le> 12" "month ! m - 1 \<le> yday" "m = 12 \<or> yday < month ! Suc m - 1"
  shows "first_month 1 1 yday = Suc m"
proof -
  have m: "m \<in> {3, 4, 5, 6, 7, 8, 9, 10, 11, 12}" using assms(1,2) by (simp, presburger)
  have step: "first_month j 1 yday = first_month (Suc j) 1 yday" if "j < 13" "month ! j - 1 \<le> yday" for j
    using that by (subst first_month.simps) simp
  have le: "month ! j - 1 \<le> yday" if "j \<in> {1..m}" for j
  proof -
    have "month ! j \<le> month ! m"
      using m that by (auto simp: month_def nth_Cons' split: if_splits)
    then show ?thesis using assms(3) by simp
  qed
  have "first_month 1 1 yday = first_month j 1 yday" if "1 \<le> j" "j \<le> Suc m" for j
    using that
  proof (induction j)
    case (Suc j)
    show ?case
    proof (cases "j = 0")
      case False
      then have "first_month 1 1 yday = first_month j 1 yday" using Suc by simp
      also have "\<dots> = first_month (Suc j) 1 yday"
        using False Suc.prems assms(2) le [of j] by (intro step) auto
      finally show ?thesis .
    qed simp
  qed simp
  then have "first_month 1 1 yday = first_month (Suc m) 1 yday" by simp
  also have "\<dots> = Suc m" using assms(2,4) by (subst first_month.simps) auto
  finally show ?thesis .
qed

text \<open>
  \<open>localtime\<close> on the days it gets right: from March on, in a common year, and before the days that
  the division by 365 moves into the next year.
\<close>

definition localtime_ok :: "tm \<Rightarrow> bool" where
  "localtime_ok t \<longleftrightarrow> valid_tm t \<and> \<not> greg_leap (full_year t) \<and> 3 \<le> tm_mon t \<and>
     year_day t + (full_year t - 1969) div 4 < 365"

lemma localtime_fields:
  fixes t0 :: tm
  assumes "localtime_ok t"
  defines "u \<equiv> localtime (word_of_int (greg_stamp t)) t0"
  shows "tm_sec u = tm_sec t" "tm_min u = tm_min t" "tm_hour u = tm_hour t"
    "tm_year u + 1900 = int (full_year t)" "tm_mon u = tm_mon t" "tm_mday u = tm_mday t"
    "tm_yday u = int (year_day t)"
proof -
  have v: "valid_tm t" and nl: "\<not> greg_leap (full_year t)" and m3: "3 \<le> tm_mon t"
    and yd: "year_day t + (full_year t - 1969) div 4 < 365"
    using assms by (auto simp: localtime_ok_def)
  from valid_year [OF v] obtain k where
    k: "full_year t = 1970 + k" "k \<le> 67" "(int k + 2) smod 4 = 0 \<longleftrightarrow> greg_leap (full_year t)" by blast
  note B = greg_stamp_bound [OF v]
  define w :: u32 where "w = word_of_int (greg_stamp t)"
  have uw: "uint w = greg_stamp t" using B(1,2) by (simp add: w_def uint_of_int_32)
  have rng: "0 \<le> tm_hour t" "tm_hour t < 24" "0 \<le> tm_min t" "tm_min t < 60" "0 \<le> tm_sec t" "tm_sec t < 60"
    "1 \<le> tm_mon t" "tm_mon t \<le> 12" "1 \<le> tm_mday t"
    using v by (auto simp: valid_tm_def)
  have q1: "uint w = 60 * (1440 * int (greg_days t) + 60 * tm_hour t + tm_min t) + tm_sec t"
    by (simp add: uw greg_stamp_def)
  have d1: "uint (w div 60) = 1440 * int (greg_days t) + 60 * tm_hour t + tm_min t"
    using int_div_pos_eq [OF q1] rng by (simp add: uint_div)
  have sec: "uint (w mod 60) = tm_sec t"
    using int_mod_pos_eq [OF q1] rng by (simp add: uint_mod)
  have q2: "uint (w div 60) = 60 * (24 * int (greg_days t) + tm_hour t) + tm_min t" by (simp add: d1)
  have d2: "uint (w div 60 div 60) = 24 * int (greg_days t) + tm_hour t"
    using int_div_pos_eq [OF q2] rng by (simp add: uint_div [of "w div 60"])
  have mi: "uint (w div 60 mod 60) = tm_min t"
    using int_mod_pos_eq [OF q2] rng by (simp add: uint_mod [of "w div 60"])
  have hr: "uint (w div 60 div 60 mod 24) = tm_hour t"
    using int_mod_pos_eq [OF d2] rng by (simp add: uint_mod [of "w div 60 div 60"])
  define D where "D = w div 60 div 60 div 24"
  have d3: "uint D = int (greg_days t)"
    using int_div_pos_eq [OF d2] rng by (simp add: D_def uint_div [of "w div 60 div 60"])
  define lp where "lp = (k + 1) div 4"
  have gd: "greg_days t = 365 * k + lp + year_day t"
    using years_1970 [of k] k(2) by (simp add: greg_days_def k(1) lp_def)
  have yd': "year_day t + lp < 365" using yd by (simp add: k(1) lp_def)
  have "uint (D div 365) = int k"
    unfolding uint_div d3 gd using yd' by (auto intro!: int_div_pos_eq [where r = "int lp + int (year_day t)"])
  then have "D div 365 = of_nat k" by (metis of_int_of_nat_eq word_of_int_uint)
  then have years: "s32 (uint (D div 365 + 70)) = int k + 70"
    using k(2) s32_id [of "int k + 70"] by (simp add: s32_def)
  have "\<not> is_leap_year (int k + 70)"
  proof -
    have "(int k + 70) smod 4 = (int k + 2) smod 4"
      by (simp add: smod_nonneg) presburger
    moreover have "(int k + 1970) smod 400 \<noteq> 0 \<or> k = 30"
    proof (cases "k < 30")
      case True
      then have "(int k + 1970) mod 400 = int k + 370"
        by (intro int_mod_pos_eq [where q = 4]) auto
      then show ?thesis by (simp add: smod_nonneg)
    next
      case False
      then have "(int k + 1970) mod 400 = int k - 30"
        using k(2) by (intro int_mod_pos_eq [where q = 5]) auto
      with False show ?thesis by (simp add: smod_nonneg)
    qed
    moreover have "greg_leap 2000" by (simp add: greg_leap_def)
    ultimately show ?thesis using nl k by (auto simp: is_leap_year_def add.commute)
  qed
  note leap = this
  have "D - word_of_int (elapsed_leap_years (int k + 70)) = of_nat (365 * k + year_day t)"
  proof -
    have "D = of_nat (greg_days t)" using d3 by (metis of_int_of_nat_eq word_of_int_uint)
    then show ?thesis using elapsed_leap_1970 [OF k(2)] by (simp add: gd lp_def)
  qed
  moreover have "uint (of_nat (365 * k + year_day t) mod 365 :: u32) = int (year_day t)"
  proof -
    have "unat (of_nat (365 * k + year_day t) :: u32) = 365 * k + year_day t"
      using k(2) yd' by (intro unat_of_nat_32) simp
    then have "unat (of_nat (365 * k + year_day t) mod 365 :: u32) = year_day t"
      using yd' by (simp only: unat_mod) (simp add: mod_mult_self4)
    then show ?thesis by (metis uint_nat)
  qed
  ultimately have yday: "uint ((D - word_of_int (elapsed_leap_years (int k + 70))) mod word_of_int (366 - 1)) = int (year_day t)"
    by simp
  have mn: "month ! nat (tm_mon t) = int (\<Sum>j\<leftarrow>[1..<nat (tm_mon t)]. month_len (full_year t) j) + 1"
    using month_at_sum [OF rng(7,8), of "full_year t"] month_at_nth [OF rng(7,8)] nl m3 by simp
  then have ydm: "int (year_day t) = month ! nat (tm_mon t) - 2 + tm_mday t"
    using rng(9) by (simp add: year_day_def)
  have "nat (tm_mon t) = 12 \<or> int (year_day t) < month ! Suc (nat (tm_mon t)) - 1"
  proof (cases "tm_mon t = 12")
    case False
    then have l: "1 \<le> tm_mon t + 1" "tm_mon t + 1 \<le> 12" using rng(8) m3 by auto
    have "month ! nat (tm_mon t + 1) =
        int (\<Sum>j\<leftarrow>[1..<nat (tm_mon t + 1)]. month_len (full_year t) j) + 1"
      using month_at_sum [OF l, of "full_year t"] month_at_nth [OF l] nl m3 by simp
    moreover have "nat (tm_mon t + 1) = Suc (nat (tm_mon t))" "Suc 0 \<le> nat (tm_mon t)"
      using rng(7) by simp_all
    moreover have "tm_mday t \<le> int (month_len (full_year t) (nat (tm_mon t)))"
      using v by (simp add: valid_tm_def)
    ultimately show ?thesis using mn ydm m3 by simp
  qed simp
  moreover have "3 \<le> nat (tm_mon t)" "nat (tm_mon t) \<le> 12" using m3 rng(8) by auto
  ultimately have fm: "first_month 1 1 (int (year_day t)) = Suc (nat (tm_mon t))"
    using ydm rng(9) by (intro first_month_found) auto
  show "tm_sec u = tm_sec t" "tm_min u = tm_min t" "tm_hour u = tm_hour t"
    "tm_year u + 1900 = int (full_year t)" "tm_mon u = tm_mon t" "tm_mday u = tm_mday t"
    "tm_yday u = int (year_day t)"
    using rng(7) ydm unfolding u_def localtime_def Let_def w_def [symmetric] D_def [symmetric] years if_not_P [OF leap]
      yday fm sec mi hr
    by (simp_all add: k(1))
qed

subsection \<open>What the calendar is proved to do\<close>

text \<open>C35: For every valid date and time of the years 1970 to 2037, \<open>mktime\<close> returns, and its value is
the number of seconds since 1970-01-01 00:00:00 by the Gregorian calendar (which no 32-bit
truncation of the intermediate sums disturbs).\<close>

theorem mktime_gregorian:
  assumes "valid_tm t"
  shows "\<exists>w. mktime t = Inr w \<and> uint w = greg_stamp t"
  using mktime_greg [OF assms] greg_stamp_bound(1,2) [OF assms] by (simp add: uint_of_int_32)

theorem mktime_gregorian_witness:
  "\<exists>w. mktime \<lparr>tm_sec = 1, tm_min = 2, tm_hour = 3, tm_mday = 29, tm_mon = 2, tm_year = 100,
      tm_wday = 0, tm_yday = 0, tm_isdst = 0\<rparr> = Inr w \<and>
    uint w = greg_stamp \<lparr>tm_sec = 1, tm_min = 2, tm_hour = 3, tm_mday = 29, tm_mon = 2, tm_year = 100,
      tm_wday = 0, tm_yday = 0, tm_isdst = 0\<rparr>"
  by (rule mktime_gregorian) (simp add: valid_tm_def full_year_def month_len_def greg_leap_def)

text \<open>C36: \<open>localtime\<close> inverts \<open>mktime\<close> on common years from March on (up to the last days of
December that its division by 365 counts into the next year): the second, minute, hour, day, month
and year come back.\<close>

theorem localtime_inverts_mktime:
  assumes "localtime_ok t"
  shows "\<exists>w. mktime t = Inr w \<and> tm_sec (localtime w t0) = tm_sec t \<and>
    tm_min (localtime w t0) = tm_min t \<and> tm_hour (localtime w t0) = tm_hour t \<and>
    tm_mday (localtime w t0) = tm_mday t \<and> tm_mon (localtime w t0) = tm_mon t \<and>
    tm_year (localtime w t0) + 1900 = int (full_year t)"
proof -
  have "valid_tm t" using assms by (simp add: localtime_ok_def)
  from mktime_greg [OF this] localtime_fields [OF assms] show ?thesis by auto
qed

theorem localtime_inverts_mktime_witness:
  "let t = \<lparr>tm_sec = 1, tm_min = 2, tm_hour = 3, tm_mday = 20, tm_mon = 10, tm_year = 122,
      tm_wday = 0, tm_yday = 0, tm_isdst = 0\<rparr>
   in \<exists>w. mktime t = Inr w \<and> tm_sec (localtime w t) = tm_sec t \<and>
    tm_min (localtime w t) = tm_min t \<and> tm_hour (localtime w t) = tm_hour t \<and>
    tm_mday (localtime w t) = tm_mday t \<and> tm_mon (localtime w t) = tm_mon t \<and>
    tm_year (localtime w t) + 1900 = int (full_year t)"
  unfolding Let_def
  by (rule localtime_inverts_mktime)
    (simp add: localtime_ok_def valid_tm_def full_year_def month_len_def greg_leap_def year_day_def
      upt_conv_Cons)

text \<open>
  In January and February of a common year \<open>localtime\<close> is a day late, on the first second of 1970
  already.
\<close>

lemma localtime_epoch: "tm_mday (localtime 0 t) = 2" "tm_mon (localtime 0 t) = 1"
  by (simp_all add: localtime_def Let_def is_leap_year_def elapsed_leap_years_def s32_def
      smod_nonneg sdiv_nonneg first_month.simps month_def nth_Cons')

end
