(* ===== verification/Vsprintf.thy ===== *)
theory Vsprintf
  imports KString
begin

text \<open>
  The formatted output of \<open>src/src/lib/vsprintf.c\<close>. The format is the list of its characters
  before the terminator, the arguments are the 32-bit cells that \<open>va_arg\<close> walks over, and strings
  are read from a byte memory, into which \<open>%n\<close> stores. The characters written to \<open>buf\<close> are
  collected in order (\<open>v_out\<close>). Reading past the given arguments is a \<open>Fault\<close>.
\<close>

unbundle bit_operations_syntax

definition ZEROPAD :: u32 where "ZEROPAD = 1"
definition SIGN :: u32 where "SIGN = 2"
definition PLUS :: u32 where "PLUS = 4"
definition SPACE :: u32 where "SPACE = 8"
definition LEFT :: u32 where "LEFT = 16"
definition SPECIAL :: u32 where "SPECIAL = 32"
definition SMALL :: u32 where "SMALL = 64"

definition has :: "u32 \<Rightarrow> u32 \<Rightarrow> bool" where
  "has flags f \<longleftrightarrow> flags AND f \<noteq> 0"

definition is_digit :: "u8 \<Rightarrow> bool" where
  "is_digit c \<longleftrightarrow> 48 \<le> sint c \<and> sint c \<le> 57"

text \<open>\<open>skip_atoi\<close> returns the number and the rest of the string.\<close>

primrec skip_atoi_from :: "int \<Rightarrow> u8 list \<Rightarrow> int \<times> u8 list" where
  "skip_atoi_from i [] = (i, [])"
| "skip_atoi_from i (c # cs) =
     (if is_digit c then skip_atoi_from (s32 (i * 10 + sint c - 48)) cs else (i, c # cs))"

definition skip_atoi :: "u8 list \<Rightarrow> int \<times> u8 list" where
  "skip_atoi s = skip_atoi_from 0 s"

subsection \<open>Numbers\<close>

text \<open>The digit characters: \<open>0\<close> to \<open>9\<close>, then the letters, small ones with \<open>SMALL\<close>.\<close>

definition digit_char :: "u32 \<Rightarrow> nat \<Rightarrow> u8" where
  "digit_char flags k = of_nat (if k < 10 then 48 + k else if has flags SMALL then 87 + k else 55 + k)"

text \<open>The buffer \<open>tmp\<close>: the digits of a positive number, the least one first.\<close>

function digits_rev :: "nat \<Rightarrow> nat \<Rightarrow> nat list" where
  "digits_rev base num =
     (if num = 0 \<or> base < 2 then [] else num mod base # digits_rev base (num div base))"
  by pat_completeness auto
termination by (relation "measure snd") auto

declare digits_rev.simps [simp del]

text \<open>\<open>while (n-- > 0) *str++ = c\<close>: the characters written and the value of \<open>n\<close> after the loop. The widths
and precisions are of the type \<open>int\<close>, with the wrap-around of 32 bits.\<close>

definition fill :: "int \<Rightarrow> u8 \<Rightarrow> u8 list" where
  "fill n c = replicate (nat n) c"

definition drained :: "int \<Rightarrow> int" where
  "drained n = (if n > 0 then -1 else s32 (n - 1))"

definition number :: "u32 \<Rightarrow> int \<Rightarrow> int \<Rightarrow> int \<Rightarrow> u32 \<Rightarrow> u8 list option" where
  "number num base sz precision flags =
     (let digits = digit_char flags;
          flags = (if has flags LEFT then flags AND NOT ZEROPAD else flags)
      in if base < 2 \<or> base > 36 then None
      else
        let c = (if has flags ZEROPAD then 0x30 else 0x20);
            neg = (has flags SIGN \<and> num < 0);
            sign = (if neg then 0x2D else if has flags PLUS then 0x2B else if has flags SPACE then 0x20 else 0);
            num = (if neg then - num else num);
            sz = (if sign \<noteq> 0 then s32 (sz - 1) else sz);
            sz = (if has flags SPECIAL then (if base = 16 then s32 (sz - 2) else if base = 8 then s32 (sz - 1) else sz) else sz);
            tmp = (if num = 0 then [0x30] else map digits (digits_rev (nat base) (unat num)));
            i = int (length tmp);
            precision = (if i > precision then i else precision);
            sz = s32 (sz - precision);
            out1 = (if \<not> has flags (ZEROPAD + LEFT) then fill sz 0x20 else []);
            sz = (if \<not> has flags (ZEROPAD + LEFT) then drained sz else sz);
            out2 = (if sign \<noteq> 0 then [sign] else []);
            out3 = (if has flags SPECIAL then (if base = 8 then [0x30] else if base = 16 then [0x30, digits 33] else []) else []);
            out4 = (if \<not> has flags LEFT then fill sz c else []);
            sz = (if \<not> has flags LEFT then drained sz else sz);
            out5 = fill (precision - i) 0x30;
            out6 = rev tmp;
            out7 = fill sz 0x20
        in Some (out1 @ out2 @ out3 @ out4 @ out5 @ out6 @ out7))"

subsection \<open>Format directives\<close>

text \<open>The loop at the label \<open>repeat\<close>, from the character after the percent sign.\<close>

primrec parse_flags :: "u32 \<Rightarrow> u8 list \<Rightarrow> u32 \<times> u8 list" where
  "parse_flags flags [] = (flags, [])"
| "parse_flags flags (c # cs) =
     (if c = 0x2D then parse_flags (flags OR LEFT) cs
      else if c = 0x2B then parse_flags (flags OR PLUS) cs
      else if c = 0x20 then parse_flags (flags OR SPACE) cs
      else if c = 0x23 then parse_flags (flags OR SPECIAL) cs
      else if c = 0x30 then parse_flags (flags OR ZEROPAD) cs
      else (flags, c # cs))"

text \<open>The character at \<open>fmt\<close>; at the end of the string it is the terminator.\<close>

definition fmt_char :: "u8 list \<Rightarrow> u8" where
  "fmt_char fmt = (case fmt of [] \<Rightarrow> 0 | c # _ \<Rightarrow> c)"

definition next_arg :: "u32 list \<Rightarrow> (u32 \<times> u32 list) res" where
  "next_arg args = (case args of [] \<Rightarrow> Inl Fault | a # as \<Rightarrow> Inr (a, as))"

definition parse_width :: "u32 \<Rightarrow> u8 list \<Rightarrow> u32 list \<Rightarrow> (u32 \<times> int \<times> u8 list \<times> u32 list) res" where
  "parse_width flags fmt args =
     (if is_digit (fmt_char fmt) then
        (case skip_atoi fmt of (w, fmt) \<Rightarrow> Inr (flags, w, fmt, args))
      else if fmt_char fmt = 0x2A then
        rbind (next_arg args) (\<lambda>(a, args).
          let w = sint a
          in if w < 0 then Inr (flags OR LEFT, s32 (- w), tl fmt, args)
             else Inr (flags, w, tl fmt, args))
      else Inr (flags, -1, fmt, args))"

definition parse_precision :: "u8 list \<Rightarrow> u32 list \<Rightarrow> (int \<times> u8 list \<times> u32 list) res" where
  "parse_precision fmt args =
     (if fmt_char fmt = 0x2E then
        rbind (let fmt = tl fmt
               in if is_digit (fmt_char fmt) then
                    (case skip_atoi fmt of (p, fmt) \<Rightarrow> Inr (p, fmt, args))
                  else if fmt_char fmt = 0x2A then
                    rbind (next_arg args) (\<lambda>(a, args). Inr (sint a, fmt, args))
                  else Inr (-1, fmt, args))
          (\<lambda>(p, fmt, args). Inr (if p < 0 then 0 else p, fmt, args))
      else Inr (-1, fmt, args))"

definition skip_qualifier :: "u8 list \<Rightarrow> u8 list" where
  "skip_qualifier fmt = (if fmt_char fmt \<in> {0x68, 0x6C, 0x4C} then tl fmt else fmt)"

record vstate =
  v_out :: "u8 list"
  v_args :: "u32 list"
  v_mem :: mem

definition emit :: "u8 list \<Rightarrow> (vstate, unit) op" where
  "emit cs = smodify (v_out_update (\<lambda>o'. o' @ cs))"

definition va_arg :: "(vstate, u32) op" where
  "va_arg = (\<lambda>s. rbind (next_arg (v_args s)) (\<lambda>(a, as). Inr (a, s\<lparr>v_args := as\<rparr>)))"

definition emit_number :: "int \<Rightarrow> int \<Rightarrow> int \<Rightarrow> u32 \<Rightarrow> (vstate, unit) op" where
  "emit_number base width precision flags =
     sbind va_arg (\<lambda>a.
       case number a base width precision flags of None \<Rightarrow> sfail Fault | Some cs \<Rightarrow> emit cs)"

definition conv_char :: "int \<Rightarrow> u32 \<Rightarrow> (vstate, unit) op" where
  "conv_char width flags =
     sbind (if \<not> has flags LEFT then emit (fill (s32 (width - 1)) 0x20) else sret ()) (\<lambda>_.
     let width = (if \<not> has flags LEFT then (if s32 (width - 1) > 0 then 0 else s32 (width - 1)) else width)
     in sbind va_arg (\<lambda>a.
        sbind (emit [ucast a]) (\<lambda>_.
        emit (fill (s32 (width - 1)) 0x20))))"

text \<open>\<open>while (len < field_width--)\<close>: the blanks, and the width after the loop.\<close>

definition width_after :: "int \<Rightarrow> int \<Rightarrow> int" where
  "width_after len w = (if len < w then s32 (len - 1) else s32 (w - 1))"

definition conv_string :: "int \<Rightarrow> int \<Rightarrow> u32 \<Rightarrow> (vstate, unit) op" where
  "conv_string width precision flags =
     sbind va_arg (\<lambda>s.
     sbind (sget v_mem) (\<lambda>m.
     case strlen m s of None \<Rightarrow> sfail Diverge
     | Some l \<Rightarrow>
       let len = sint l;
           len = (if precision < 0 then len else if len > precision then precision else len)
       in sbind (if \<not> has flags LEFT then emit (fill (width - len) 0x20) else sret ()) (\<lambda>_.
          let width = (if \<not> has flags LEFT then width_after len width else width)
          in sbind (emit (map (\<lambda>i. m (s + of_nat i)) [0..<nat len])) (\<lambda>_.
             emit (fill (width - len) 0x20)))))"

text \<open>\<open>*ip = str - buf\<close>: an \<open>int\<close> in little-endian order.\<close>

definition store32 :: "mem \<Rightarrow> u32 \<Rightarrow> u32 \<Rightarrow> mem" where
  "store32 m a v = m(a := ucast v, a + 1 := ucast (drop_bit 8 v), a + 2 := ucast (drop_bit 16 v),
                     a + 3 := ucast (drop_bit 24 v))"

definition conv_count :: "(vstate, unit) op" where
  "conv_count =
     sbind va_arg (\<lambda>ip.
     sbind (sget (\<lambda>s. of_nat (length (v_out s)))) (\<lambda>n.
     smodify (v_mem_update (\<lambda>m. store32 m ip n))))"

text \<open>The \<open>switch\<close> on the conversion character; the result is the rest of the format.\<close>

definition convert :: "u32 \<Rightarrow> int \<Rightarrow> int \<Rightarrow> u8 list \<Rightarrow> (vstate, u8 list) op" where
  "convert flags width precision fmt =
     (let c = fmt_char fmt; done = (\<lambda>_. sret (tl fmt))
      in if c = 0x63 then sbind (conv_char width flags) done
         else if c = 0x73 then sbind (conv_string width precision flags) done
         else if c = 0x6F then sbind (emit_number 8 width precision flags) done
         else if c = 0x70 then
           (if width = -1 then sbind (emit_number 16 8 precision (flags OR ZEROPAD)) done
            else sbind (emit_number 16 width precision flags) done)
         else if c = 0x78 then sbind (emit_number 16 width precision (flags OR SMALL)) done
         else if c = 0x58 then sbind (emit_number 16 width precision flags) done
         else if c = 0x64 \<or> c = 0x69 then sbind (emit_number 10 width precision (flags OR SIGN)) done
         else if c = 0x75 then sbind (emit_number 10 width precision flags) done
         else if c = 0x6E then sbind conv_count done
         else sbind (if c \<noteq> 0x25 then emit [0x25] else sret ()) (\<lambda>_.
              if c \<noteq> 0 then sbind (emit [c]) done else sret []))"

definition directive :: "u8 list \<Rightarrow> (vstate, u8 list) op" where
  "directive fmt =
     (case parse_flags 0 fmt of (flags, fmt) \<Rightarrow>
        (\<lambda>s. rbind (parse_width flags fmt (v_args s)) (\<lambda>(flags, width, fmt, args).
             rbind (parse_precision fmt args) (\<lambda>(precision, fmt, args).
               convert flags width precision (skip_qualifier fmt) (s\<lparr>v_args := args\<rparr>)))))"

text \<open>A directive never grows the format, so the main loop comes to its end.\<close>

lemma skip_atoi_from_length: "length (snd (skip_atoi_from i s)) \<le> length s"
  by (induction s arbitrary: i) (auto simp: le_Suc_eq)

lemma skip_atoi_length: "skip_atoi s = (n, r) \<Longrightarrow> length r \<le> length s"
  using skip_atoi_from_length [of 0 s] by (simp add: skip_atoi_def)

lemma parse_flags_length: "parse_flags f s = (f', r) \<Longrightarrow> length r \<le> length s"
  by (induction s arbitrary: f) (auto simp: le_Suc_eq split: if_splits)

lemma parse_width_length: "parse_width f s as = Inr (f', w, r, as') \<Longrightarrow> length r \<le> length s"
  by (auto simp: parse_width_def Let_def rbind_eq_Inr dest!: skip_atoi_length split: if_splits prod.splits)

lemma parse_precision_length: "parse_precision s as = Inr (p, r, as') \<Longrightarrow> length r \<le> length s"
  by (force simp: parse_precision_def Let_def rbind_eq_Inr dest!: skip_atoi_length split: if_splits prod.splits)

lemma convert_length: "convert f w p s v = Inr (r, v') \<Longrightarrow> length r \<le> length s"
  by (auto simp: convert_def Let_def rbind_eq_Inr split: if_splits)

lemma directive_length: "directive s v = Inr (r, v') \<Longrightarrow> length r \<le> length s"
  by (auto simp: directive_def rbind_eq_Inr skip_qualifier_def split: prod.splits if_splits
      dest!: parse_flags_length parse_width_length parse_precision_length convert_length)

function format_loop :: "u8 list \<Rightarrow> vstate \<Rightarrow> vstate res" where
  "format_loop [] s = Inr s"
| "format_loop (c # fmt) s =
     (if c \<noteq> 0x25 then rbind (emit [c] s) (\<lambda>(_, s). format_loop fmt s)
      else rbind (directive fmt s) (\<lambda>(fmt, s). format_loop fmt s))"
  by pat_completeness auto
termination
  by (relation "measure (\<lambda>(fmt, s). length fmt)") (auto dest!: directive_length)

text \<open>The value is the length, which has to be below 1024, and the characters written to \<open>buf\<close>.\<close>

definition vsprintf :: "u8 list \<Rightarrow> u32 list \<Rightarrow> mem \<Rightarrow> (int \<times> u8 list \<times> mem) res" where
  "vsprintf fmt args m =
     rbind (format_loop fmt \<lparr>v_out = [], v_args = args, v_mem = m\<rparr>) (\<lambda>s.
       let i = int (length (v_out s))
       in if i < 1024 then Inr (i, v_out s @ [0], v_mem s) else Inl AssertFail)"

subsection \<open>Reading the output back\<close>

fun digit_value :: "u8 \<Rightarrow> nat" where
  "digit_value c = (if unat c \<le> 57 then unat c - 48 else if unat c \<le> 90 then unat c - 55 else unat c - 87)"

definition read_number :: "nat \<Rightarrow> u8 list \<Rightarrow> nat" where
  "read_number base s = foldl (\<lambda>n c. n * base + digit_value c) 0 s"

lemma digit_value_char: "k < 36 \<Longrightarrow> digit_value (digit_char flags k) = k"
proof -
  assume "k < 36"
  then have "unat (digit_char flags k) = (if k < 10 then 48 + k else if has flags SMALL then 87 + k else 55 + k)"
    unfolding digit_char_def by (simp add: unat_of_nat take_bit_nat_eq_self)
  with \<open>k < 36\<close> show ?thesis by simp
qed

lemma digits_rev_less: "k \<in> set (digits_rev base n) \<Longrightarrow> k < base"
  by (induction base n rule: digits_rev.induct) (subst (asm) digits_rev.simps, auto split: if_splits)

lemma read_digits_rev:
  assumes "2 \<le> base" "base \<le> 36"
  shows "read_number base (rev (map (digit_char flags) (digits_rev base n))) = n"
  using assms
proof (induction n rule: less_induct)
  case (less n)
  show ?case
  proof (cases "n = 0")
    case True
    then show ?thesis by (simp add: digits_rev.simps [of base 0] read_number_def)
  next
    case False
    then have "n div base < n" using less.prems by simp
    from less.IH [OF this less.prems]
    have "read_number base (rev (map (digit_char flags) (digits_rev base (n div base)))) = n div base" .
    moreover have "digit_value (digit_char flags (n mod base)) = n mod base"
    proof (rule digit_value_char)
      have "n mod base < base" using less.prems by simp
      then show "n mod base < 36" using less.prems by linarith
    qed
    moreover have "digits_rev base n = n mod base # digits_rev base (n div base)"
      using False less.prems by (simp add: digits_rev.simps [of base n])
    ultimately show ?thesis by (simp add: read_number_def del: digit_value.simps)
  qed
qed

lemma has_left_both: "has f LEFT \<Longrightarrow> has f (ZEROPAD + LEFT)"
proof -
  have "f AND 16 = (f AND 17) AND 16" by (simp add: and.assoc)
  then show "has f LEFT \<Longrightarrow> has f (ZEROPAD + LEFT)" by (auto simp: has_def LEFT_def ZEROPAD_def)
qed

text \<open>The sign and the prefix that the flags ask for.\<close>

definition sign_part :: "u32 \<Rightarrow> u8 list" where
  "sign_part flags = (if has flags PLUS then [0x2B] else if has flags SPACE then [0x20] else [])"

definition prefix_part :: "int \<Rightarrow> u32 \<Rightarrow> u8 list" where
  "prefix_part base flags =
     (if has flags SPECIAL then (if base = 8 then [0x30] else if base = 16 then [0x30, digit_char flags 33] else [])
      else [])"

definition digits_part :: "u32 \<Rightarrow> int \<Rightarrow> u32 \<Rightarrow> u8 list" where
  "digits_part num base flags =
     (if num = 0 then [0x30] else rev (map (digit_char flags) (digits_rev (nat base) (unat num))))"

lemma has_no_zeropad:
  "has (x AND NOT ZEROPAD) PLUS = has x PLUS" "has (x AND NOT ZEROPAD) SPACE = has x SPACE"
  "has (x AND NOT ZEROPAD) SPECIAL = has x SPECIAL" "has (x AND NOT ZEROPAD) LEFT = has x LEFT"
  by (simp_all add: has_def and.assoc ZEROPAD_def PLUS_def SPACE_def SPECIAL_def LEFT_def)

lemma s32_minus_two [simp]: "s32 (- 2) = - 2"
  by (simp add: s32_id)

lemma fill_drained: "- (2 ^ 31) < n \<Longrightarrow> n < 2 ^ 31 \<Longrightarrow> fill (drained n) c = []"
  by (simp add: fill_def drained_def s32_id)

lemma digits_rev_length: "2 \<le> base \<Longrightarrow> n < 2 ^ k \<Longrightarrow> length (digits_rev base n) \<le> k"
proof (induction k arbitrary: n)
  case 0
  then show ?case by (simp add: digits_rev.simps [of base 0])
next
  case (Suc k)
  have "n div base \<le> n div 2" using Suc.prems(1) by (intro div_le_mono2) simp_all
  also have "\<dots> < 2 ^ k" using Suc.prems(2) by simp
  finally have "length (digits_rev base (n div base)) \<le> k" by (rule Suc.IH [OF Suc.prems(1)])
  then show ?case by (subst digits_rev.simps) simp
qed

lemma digits_part_length: "2 \<le> base \<Longrightarrow> length (digits_part num base flags) \<le> 32"
  using digits_rev_length [of "nat base" "unat num" 32] unat_less_32 [of num] by (simp add: digits_part_def)

lemma number_shape:
  fixes num :: u32 and flags :: u32
  assumes "2 \<le> base" "base \<le> 36" "- 1 \<le> sz" "sz < 2 ^ 31" "- 1 \<le> precision" "precision < 2 ^ 30"
  shows "\<exists>a b c.
    number num base sz precision flags = Some (replicate a 0x20 @ sign_part flags @ prefix_part base flags @
      b @ fill (precision - int (length (digits_part num base flags))) 0x30 @
      digits_part num base flags @ replicate c 0x20) \<and>
    set b \<subseteq> {0x20, 0x30} \<and>
    int (a + length b + c) = max 0 (sz - int (length (sign_part flags) + length (prefix_part base flags)) -
      max precision (int (length (digits_part num base flags))))"
proof -
  define f where "f = (if has flags LEFT then flags AND NOT ZEROPAD else flags)"
  have f: "has f PLUS = has flags PLUS" "has f SPACE = has flags SPACE" "has f SPECIAL = has flags SPECIAL"
    "has f LEFT = has flags LEFT"
    by (simp_all add: f_def has_no_zeropad)
  define k where "k = int (length (digits_part num base flags))"
  define n where "n = sz - int (length (sign_part flags) + length (prefix_part base flags)) - max precision k"
  have range: "- (2 ^ 31) + 2 < n \<and> n < 2 ^ 31"
  proof -
    have "k \<le> 32" "0 \<le> k" using digits_part_length [OF assms(1), of num flags] by (simp_all add: k_def)
    then have "max precision k < 1073741824" "0 \<le> max precision k" using assms(6) by simp_all
    moreover have "length (sign_part flags) + length (prefix_part base flags) \<le> 3"
      by (simp add: sign_part_def prefix_part_def)
    then have "int (length (sign_part flags) + length (prefix_part base flags)) \<le> 3" by linarith
    moreover have "sz < 2147483648" using assms(4) by simp
    ultimately have "- 2147483646 < n" "n < 2147483648" unfolding n_def using assms(3) by linarith+
    then show ?thesis by simp
  qed
  define ch :: u8 where "ch = (if has f ZEROPAD then 0x30 else 0x20)"
  define L B where "L = has f LEFT" and "B = has f (ZEROPAD + LEFT)"
  have LB: "L \<Longrightarrow> B" unfolding L_def B_def by (rule has_left_both)
  define o1 where "o1 = (if \<not> B then fill n 0x20 else [])"
  define n1 where "n1 = (if \<not> B then drained n else n)"
  define o4 where "o4 = (if \<not> L then fill n1 ch else [])"
  define n2 where "n2 = (if \<not> L then drained n1 else n1)"
  have e: "number num base sz precision flags = Some (o1 @ sign_part flags @ prefix_part base flags @
      o4 @ fill (precision - k) 0x30 @ digits_part num base flags @ fill n2 0x20)"
  proof -
    have dg: "(if num = 0 then [0x30] else map (digit_char flags) (digits_rev (nat base) (unat num))) =
        rev (digits_part num base flags)"
      by (simp add: digits_part_def)
    have fl: "fill (max precision k - k) 0x30 = fill (precision - k) 0x30" by (simp add: fill_def)
    have mx: "(if k > precision then k else precision) = max precision k" by (simp add: max_def)
    define sg where "sg = (if has f PLUS then 0x2B else if has f SPACE then 0x20 else 0 :: u8)"
    have neg: "(has f SIGN \<and> num < 0) = False" by simp
    have s1: "(if sg \<noteq> 0 then s32 (sz - 1) else sz) = sz - int (length (sign_part flags))"
      using assms(3,4) s32_id [of "sz - 1"] by (simp add: sg_def sign_part_def f)
    have s2: "(if has f SPECIAL then if base = 16 then s32 (sz - int (length (sign_part flags)) - 2)
        else if base = 8 then s32 (sz - int (length (sign_part flags)) - 1)
        else sz - int (length (sign_part flags)) else sz - int (length (sign_part flags))) =
        sz - int (length (sign_part flags)) - int (length (prefix_part base flags))"
      using assms(3,4) by (auto simp: prefix_part_def f sign_part_def intro!: s32_id)
    have s3: "(if sg \<noteq> 0 then [sg] else []) = sign_part flags"
      by (simp add: sg_def sign_part_def f)
    have s4: "(if has f SPECIAL then if base = 8 then [0x30] else if base = 16 then [0x30, digit_char flags 33]
        else [] else []) = prefix_part base flags"
      by (simp add: prefix_part_def f)
    have n': "s32 (sz - int (length (sign_part flags)) - int (length (prefix_part base flags)) - max precision k) = n"
    proof -
      have "s32 n = n" using range by (simp add: s32_id)
      moreover have "sz - int (length (sign_part flags)) - int (length (prefix_part base flags)) - max precision k = n"
        by (simp add: n_def)
      ultimately show ?thesis by (simp only:)
    qed
    have nb: "(base < 2 \<or> base > 36) = False" using assms by simp
    show ?thesis
      unfolding number_def Let_def f_def [symmetric] neg if_False sg_def [symmetric] nb s1 s2 s3 s4 dg
        length_rev rev_rev_ident k_def [symmetric] mx n' ch_def [symmetric] L_def [symmetric] B_def [symmetric]
        o1_def [symmetric] n1_def [symmetric] o4_def [symmetric] n2_def [symmetric] fl ..
  qed
  have "o1 = replicate (length o1) 0x20" by (simp add: o1_def fill_def)
  moreover have "fill n2 0x20 = replicate (nat n2) 0x20" by (simp add: fill_def)
  moreover have "set o4 \<subseteq> {0x20, 0x30}" by (auto simp: o4_def fill_def ch_def)
  moreover have "int (length o1 + length o4 + nat n2) = max 0 n"
  proof -
    have "s32 (n - 1) = n - 1 \<and> s32 (n - 1 - 1) = n - 1 - 1" using range by (simp add: s32_id)
    then show ?thesis using LB by (auto simp: o1_def o4_def n2_def n1_def fill_def drained_def)
  qed
  ultimately show ?thesis using e unfolding n_def k_def by metis
qed

subsection \<open>What is printed\<close>

lemma read_digits_part:
  assumes "2 \<le> base" "base \<le> 36"
  shows "read_number (nat base) (digits_part num base flags) = unat num"
proof (cases "num = 0")
  case True
  then show ?thesis by (simp add: digits_part_def read_number_def)
next
  case False
  have "2 \<le> nat base" "nat base \<le> 36" using assms by simp_all
  from read_digits_rev [OF this] False show ?thesis by (simp add: digits_part_def)
qed

text \<open>C37: For every base from 2 to 36, every width (\<open>-1\<close> when none is given) and every precision below
\<open>2^30\<close>, and every combination of flags, \<open>number\<close> prints blanks, the sign, the prefix, blanks or zeros, the
zeros that the precision asks for, the digits and blanks, in this order; the digits read back in that
base are the number as an unsigned one, and the blanks and zeros fill the field to exactly the width whenever
it is not exceeded. The sign is a plus sign or a blank as the flags ask: a minus sign is never printed, not
with \<open>SIGN\<close> either, because the code compares an unsigned number with 0, against its comments.\<close>

theorem number_reads_back:
  fixes num :: u32 and flags :: u32
  assumes "2 \<le> base" "base \<le> 36" "- 1 \<le> sz" "sz < 2 ^ 31" "- 1 \<le> precision" "precision < 2 ^ 30"
  shows "\<exists>a b c ds.
    number num base sz precision flags = Some (replicate a 0x20 @ sign_part flags @ prefix_part base flags @
      b @ fill (precision - int (length ds)) 0x30 @ ds @ replicate c 0x20) \<and>
    read_number (nat base) ds = unat num \<and> set b \<subseteq> {0x20, 0x30} \<and>
    int (a + length b + c) = max 0 (sz - int (length (sign_part flags) + length (prefix_part base flags)) -
      max precision (int (length ds)))"
  using number_shape [OF assms, of num flags] read_digits_part [OF assms(1,2), of num flags]
  by blast

theorem number_reads_back_witness:
  "\<exists>a b c ds.
    number 255 16 10 (-1) SPECIAL = Some (replicate a 0x20 @ sign_part SPECIAL @ prefix_part 16 SPECIAL @
      b @ fill ((-1) - int (length ds)) 0x30 @ ds @ replicate c 0x20) \<and>
    read_number (nat 16) ds = unat (255 :: u32) \<and> set b \<subseteq> {0x20, 0x30} \<and>
    int (a + length b + c) = max 0 (10 - int (length (sign_part SPECIAL) + length (prefix_part 16 SPECIAL)) -
      max (-1) (int (length ds)))"
  by (rule number_reads_back) simp_all

lemma format_plain:
  "0x25 \<notin> set p \<Longrightarrow> format_loop (p @ fmt) s = format_loop fmt (s\<lparr>v_out := v_out s @ p\<rparr>)"
  by (induction p arbitrary: s) (auto simp: emit_def)

lemma cstr_nth:
  "cstr m a s \<Longrightarrow> i < length s \<Longrightarrow> m (a + of_nat i) = s ! i"
proof (induction s arbitrary: a i)
  case (Cons c cs)
  show ?case
  proof (cases i)
    case (Suc j)
    with Cons.IH [of "a + 1" j] Cons.prems show ?thesis by (simp add: add.assoc)
  qed (use Cons.prems in simp)
qed simp

lemma conv_string_cstr:
  assumes "cstr (v_mem s) a t" "length t < 2 ^ 31" "v_args s = [a]"
  shows "conv_string (-1) (-1) 0 s = Inr ((), s\<lparr>v_out := v_out s @ t, v_args := []\<rparr>)"
proof -
  have "sint (of_nat (length t) :: u32) = int (length t)"
    using assms(2) by (simp add: signed_of_nat signed_take_bit_int_eq_self)
  moreover have "map (\<lambda>i. v_mem s (a + of_nat i)) [0..<length t] = t"
    using cstr_nth [OF assms(1)] by (intro nth_equalityI) simp_all
  ultimately show ?thesis
    by (simp add: conv_string_def va_arg_def assms(3) next_arg_def strlen_cstr [OF assms(1)] emit_def
        has_def fill_def width_after_def)
qed

text \<open>A format that has one \<open>%s\<close> between two texts without percent signs prints the first text, the
string that its argument points to and the second text, terminates the buffer and returns the number
of characters, as long as they are fewer than 1024.\<close>

theorem vsprintf_string:
  assumes "cstr m a t" "0x25 \<notin> set p" "0x25 \<notin> set q" "length p + length t + length q < 1024"
  shows "vsprintf (p @ [0x25, 0x73] @ q) [a] m =
    Inr (int (length p + length t + length q), p @ t @ q @ [0], m)"
proof -
  let ?s = "\<lparr>v_out = p, v_args = [a], v_mem = m\<rparr>"
  have "directive (0x73 # q) ?s = Inr (q, ?s\<lparr>v_out := p @ t, v_args := []\<rparr>)"
    using conv_string_cstr [of ?s a t] assms(1,4)
    by (simp add: directive_def parse_width_def fmt_char_def is_digit_def parse_precision_def
        skip_qualifier_def convert_def)
  then have "format_loop (p @ 0x25 # 0x73 # q) \<lparr>v_out = [], v_args = [a], v_mem = m\<rparr> =
      Inr \<lparr>v_out = p @ t @ q, v_args = [], v_mem = m\<rparr>"
    using format_plain [OF assms(2)] format_plain [OF assms(3), of "[]"] by simp
  with assms(4) show ?thesis by (simp add: vsprintf_def)
qed

theorem vsprintf_string_witness:
  "vsprintf ([0x61] @ [0x25, 0x73] @ [0x62]) [100] ((\<lambda>_. 0)(100 := 0x63)) =
    Inr (int (length [0x61 :: u8] + length [0x63 :: u8] + length [0x62 :: u8]),
      [0x61] @ [0x63] @ [0x62] @ [0], (\<lambda>_. 0)(100 := 0x63))"
  by (rule vsprintf_string) simp_all

text \<open>A negative number is never recognised: \<open>%d\<close> of \<open>-1\<close> prints \<open>4294967295\<close>.\<close>

lemma vsprintf_minus_one:
  "\<exists>ds. number (-1) 10 (-1) (-1) SIGN = Some ds \<and> read_number 10 ds = 4294967295 \<and> 0x2D \<notin> set ds"
proof -
  have "number (-1) 10 (-1) (-1) SIGN = Some (digits_part (-1) 10 SIGN)"
  proof -
    have "sign_part SIGN = []" "prefix_part 10 SIGN = []"
      by (simp_all add: sign_part_def prefix_part_def has_def SIGN_def PLUS_def SPACE_def SPECIAL_def)
    moreover obtain a b c where
      "number (- 1) 10 (- 1) (- 1) SIGN = Some (replicate a 0x20 @ sign_part SIGN @ prefix_part 10 SIGN @
        b @ fill (- 1 - int (length (digits_part (- 1) 10 SIGN))) 0x30 @ digits_part (- 1) 10 SIGN @ replicate c 0x20)"
      "int (a + length b + c) = max 0 (- 1 - int (length (sign_part SIGN) + length (prefix_part 10 SIGN)) -
        max (- 1) (int (length (digits_part (- 1) 10 SIGN))))"
      using number_shape [of 10 "- 1" "- 1" "- 1" SIGN] by auto
    moreover from this(2) calculation(1,2) have "int (a + length b + c) = 0" by simp
    then have "a = 0" "b = []" "c = 0" unfolding of_nat_eq_0_iff by simp_all
    ultimately show ?thesis by (simp add: fill_def)
  qed
  moreover have "0x2D \<notin> set (digits_part num 10 SIGN)" for num
  proof
    assume "0x2D \<in> set (digits_part num 10 SIGN)"
    then obtain k where "k < 10" "digit_char SIGN k = 0x2D"
      by (auto simp: digits_part_def dest: digits_rev_less split: if_splits)
    then have "k \<in> {0, 1, 2, 3, 4, 5, 6, 7, 8, 9}" by auto
    with \<open>digit_char SIGN k = 0x2D\<close> show False by (auto simp: digit_char_def)
  qed
  ultimately show ?thesis
    using read_digits_part [of 10 "-1" SIGN] by (simp add: unsigned_minus_1_eq_mask mask_eq_exp_minus_1)
qed

end
