(* ===== verification/Run_Allocator.thy ===== *)
theory Run_Allocator
  imports Prelude
begin

text \<open>
  The contract of an allocator of runs of equal units, as the kernel relies on it for kernel pages
  and for the memory-mapped pages of a process: an allocation either panics or gives a run of units
  that nobody had, a release takes back a run that is in use. \<open>units a n\<close> is the set of units of a run
  of \<open>n\<close> from the address \<open>a\<close> on, \<open>fits\<close> says that a run lies inside the allocator's area.
\<close>

locale run_allocator =
  fixes alloc :: "'s \<Rightarrow> u32 \<Rightarrow> (u32 \<times> 's) res"
    and release :: "'s \<Rightarrow> u32 \<Rightarrow> u32 \<Rightarrow> 's res"
    and used :: "'s \<Rightarrow> nat set"
    and units :: "u32 \<Rightarrow> u32 \<Rightarrow> nat set"
    and fits :: "'s \<Rightarrow> u32 \<Rightarrow> u32 \<Rightarrow> bool"
    and inv :: "'s \<Rightarrow> bool"
  assumes alloc_law: "inv s \<Longrightarrow> 0 < n \<Longrightarrow> alloc s n = Inr (a, s') \<Longrightarrow>
      inv s' \<and> fits s' a n \<and> units a n \<inter> used s = {} \<and> used s' = used s \<union> units a n"
    and alloc_fail: "inv s \<Longrightarrow> 0 < n \<Longrightarrow> alloc s n = Inl e \<Longrightarrow> e = Panic"
    and alloc_fits: "inv s \<Longrightarrow> 0 < n \<Longrightarrow> alloc s n = Inr (a, s') \<Longrightarrow> fits s' b m = fits s b m"
    and release_law: "inv s \<Longrightarrow> 0 < n \<Longrightarrow> fits s a n \<Longrightarrow> units a n \<subseteq> used s \<Longrightarrow>
      \<exists>s'. release s a n = Inr s' \<and> inv s' \<and> used s' = used s - units a n \<and>
        (\<forall>b m. fits s' b m = fits s b m)"
begin

text \<open>Two runs that are in use at the same time share no unit.\<close>

lemma two_runs:
  assumes "inv s" "0 < n" "0 < m" "alloc s n = Inr (a, s1)" "alloc s1 m = Inr (b, s2)"
  shows "units a n \<inter> units b m = {}"
  using alloc_law [OF assms(1,2,4)] alloc_law [of s1 m b s2] assms(3,5) by blast

text \<open>A run can be given back in any order with respect to later allocations.\<close>

lemma release_first:
  assumes "inv s" "0 < n" "0 < m" "alloc s n = Inr (a, s1)" "alloc s1 m = Inr (b, s2)"
  shows "\<exists>s3. release s2 a n = Inr s3 \<and> inv s3 \<and> used s3 = used s \<union> units b m"
proof -
  have 1: "inv s1" "fits s1 a n" "units a n \<inter> used s = {}" "used s1 = used s \<union> units a n"
    using alloc_law [OF assms(1,2,4)] by auto
  have 2: "inv s2" "units b m \<inter> used s1 = {}" "used s2 = used s1 \<union> units b m"
    using alloc_law [OF 1(1) assms(3,5)] by auto
  have "fits s2 a n" using 1(2) alloc_fits [OF 1(1) assms(3,5)] by simp
  with release_law [OF 2(1) assms(2) this] 1 2 obtain s3 where
    "release s2 a n = Inr s3" "inv s3" "used s3 = used s2 - units a n" by blast
  with 1 2 show ?thesis by blast
qed

lemma alloc_release:
  assumes "inv s" "0 < n" "alloc s n = Inr (a, s1)"
  shows "\<exists>s2. release s1 a n = Inr s2 \<and> inv s2 \<and> used s2 = used s"
proof -
  have 1: "inv s1" "fits s1 a n" "units a n \<inter> used s = {}" "used s1 = used s \<union> units a n"
    using alloc_law [OF assms] by auto
  with release_law [OF 1(1) assms(2) 1(2)] show ?thesis by blast
qed

end

end
