(* ===== verification/Frames.thy ===== *)
theory Frames
  imports Stdlib Bitmap KString Run_Allocator
begin

text \<open>
  Physical memory and the kernel's page allocators (\<open>src/src/kernel/memory.c\<close>): finding the memory
  at boot, the reference counts of the page frames (\<open>memory_map\<close>), the MMU as the kernel sees it,
  and the bitmap allocator of kernel pages. The state \<open>mm\<close> keeps the file's static variables under
  their names, the physical memory by the addresses of its 32-bit cells (\<open>ram\<close>), the register CR3
  and what the code uses of the running task (\<open>cur\<close>). An address is translated through the two
  levels of tables that CR3 points to, on every access: there is no TLB, so \<open>flush_tlb\<close> has no
  counterpart; write protection does not bind the kernel itself. The byte array \<open>memory_map\<close> and the
  bits of \<open>kernel_map\<close>, which live in the identity-mapped kernel area, are kept as lists.
\<close>

unbundle bit_operations_syntax

subsection \<open>Addresses and page entries\<close>

definition IDX :: "u32 \<Rightarrow> u32" where "IDX addr = drop_bit 12 addr"
definition DIDX :: "u32 \<Rightarrow> u32" where "DIDX addr = drop_bit 22 addr AND 0x3ff"
definition TIDX :: "u32 \<Rightarrow> u32" where "TIDX addr = drop_bit 12 addr AND 0x3ff"
definition PAGE :: "u32 \<Rightarrow> u32" where "PAGE idx = push_bit 12 idx"

definition page_aligned :: "u32 \<Rightarrow> bool" where
  "page_aligned addr \<longleftrightarrow> addr AND 0xfff = 0"

abbreviation PAGE_SIZE :: u32 where "PAGE_SIZE \<equiv> 0x1000"
abbreviation USER_EXEC_ADDR :: u32 where "USER_EXEC_ADDR \<equiv> 0x1000000"
abbreviation USER_MMAP_ADDR :: u32 where "USER_MMAP_ADDR \<equiv> 0x8000000"
abbreviation USER_STACK_TOP :: u32 where "USER_STACK_TOP \<equiv> 0x10000000"
abbreviation USER_STACK_BOTTOM :: u32 where "USER_STACK_BOTTOM \<equiv> 0xFE00000"

text \<open>A \<open>page_entry_t\<close> is a 32-bit word: its flags by their bit numbers, the frame from bit 12 on.\<close>

type_synonym page_entry = u32

definition pe_present :: "page_entry \<Rightarrow> bool" where "pe_present e = bit e 0"
definition pe_write :: "page_entry \<Rightarrow> bool" where "pe_write e = bit e 1"
definition pe_user :: "page_entry \<Rightarrow> bool" where "pe_user e = bit e 2"
definition pe_shared :: "page_entry \<Rightarrow> bool" where "pe_shared e = bit e 9"
definition pe_private :: "page_entry \<Rightarrow> bool" where "pe_private e = bit e 10"
definition pe_readonly :: "page_entry \<Rightarrow> bool" where "pe_readonly e = bit e 11"
definition pe_index :: "page_entry \<Rightarrow> u32" where "pe_index e = drop_bit 12 e"

definition pe_put :: "nat \<Rightarrow> bool \<Rightarrow> page_entry \<Rightarrow> page_entry" where
  "pe_put n b e = (if b then e OR push_bit n 1 else e AND NOT (push_bit n 1))"

definition pe_set_index :: "u32 \<Rightarrow> page_entry \<Rightarrow> page_entry" where
  "pe_set_index i e = (e AND 0xfff) OR push_bit 12 i"

text \<open>\<open>entry_init\<close> overwrites the whole entry: present, writable, for users.\<close>

definition entry_init :: "u32 \<Rightarrow> page_entry" where
  "entry_init index = pe_set_index index (pe_put 2 True (pe_put 1 True (pe_put 0 True 0)))"

subsection \<open>Address arithmetic\<close>

lemma unat_IDX: "unat (IDX a) = unat a div 4096"
  using unat_drop_32 [of 12 a] by (simp add: IDX_def)

lemma unat_IDX_less: "unat (IDX a) < 2 ^ 20"
  using unat_less_32 [of a] by (simp add: unat_IDX)

lemma unat_PAGE: "unat i < 2 ^ 20 \<Longrightarrow> unat (PAGE i) = unat i * 4096"
  by (simp add: PAGE_def push_bit_eq_mult unat_word_ariths)

lemma unat_off: "unat ((a :: u32) AND 0xfff) = unat a mod 4096"
  using unat_mask_32 [of a 12] by (simp add: mask_eq_exp_minus_1)

lemma unat_DIDX: "unat (DIDX a) = unat a div 4194304"
  using unat_mask_32 [of "drop_bit 22 a" 10] unat_drop_32 [of 22 a] unat_less_32 [of a]
  by (simp add: DIDX_def mask_eq_exp_minus_1)

lemma unat_TIDX: "unat (TIDX a) = unat a div 4096 mod 1024"
  using unat_mask_32 [of "drop_bit 12 a" 10] unat_drop_32 [of 12 a]
  by (simp add: TIDX_def mask_eq_exp_minus_1)

lemma page_aligned_unat: "page_aligned a \<longleftrightarrow> unat a mod 4096 = 0"
  by (simp add: page_aligned_def u32_eq_iff unat_off)

lemma IDX_PAGE: "unat i < 2 ^ 20 \<Longrightarrow> IDX (PAGE i) = i"
  by (simp add: u32_eq_iff unat_IDX unat_PAGE)

lemma PAGE_IDX: "page_aligned a \<Longrightarrow> PAGE (IDX a) = a"
  using unat_IDX_less [of a]
  by (simp add: u32_eq_iff unat_PAGE) (simp add: unat_IDX page_aligned_unat mod_0_imp_dvd)

lemma page_aligned_PAGE: "unat i < 2 ^ 20 \<Longrightarrow> page_aligned (PAGE i)"
  by (simp add: page_aligned_unat unat_PAGE)

lemma unat_PAGE_off:
  "unat i < 2 ^ 20 \<Longrightarrow> unat off < 4096 \<Longrightarrow> unat (PAGE i + off) = unat i * 4096 + unat off"
  by (subst unat_add_32) (simp_all add: unat_PAGE)

text \<open>Page, table slot and offset determine an address.\<close>

lemma PAGE_off_eq:
  assumes "unat i < 2 ^ 20" "unat j < 2 ^ 20" "unat a < 4096" "unat b < 4096"
  shows "PAGE i + a = PAGE j + b \<longleftrightarrow> i = j \<and> a = b"
proof
  assume "PAGE i + a = PAGE j + b"
  then have e: "unat i * 4096 + unat a = unat j * 4096 + unat b"
    using unat_PAGE_off [OF assms(1,3)] unat_PAGE_off [OF assms(2,4)] by simp
  have "unat i = (unat i * 4096 + unat a) div 4096" "unat j = (unat j * 4096 + unat b) div 4096"
    using assms(3,4) by simp_all
  with e have "unat i = unat j" by simp
  with e show "i = j \<and> a = b" by (simp add: u32_eq_iff)
qed simp

lemma pe_put_bits:
  "pe_present (pe_put n b e) = (if n = 0 then b else pe_present e)"
  "n < 12 \<Longrightarrow> pe_index (pe_put n b e) = pe_index e"
proof -
  show "pe_present (pe_put n b e) = (if n = 0 then b else pe_present e)"
    by (auto simp: pe_present_def pe_put_def bit_simps)
  assume "n < 12"
  then show "pe_index (pe_put n b e) = pe_index e"
    using bit_imp_le_length [of e]
    by (auto simp: pe_put_def pe_index_def bit_simps intro!: bit_word_eqI)
qed

lemma pe_entry_init:
  "pe_present (entry_init i)"
  "unat i < 2 ^ 20 \<Longrightarrow> pe_index (entry_init i) = i"
proof -
  have e: "entry_init i = 7 OR push_bit 12 i"
    by (simp add: entry_init_def pe_set_index_def pe_put_def)
  show "pe_present (entry_init i)" by (simp add: e pe_present_def bit_simps)
  assume "unat i < 2 ^ 20"
  then have "i = take_bit 20 i"
    by (simp add: u32_eq_iff unsigned_take_bit_eq take_bit_nat_eq_self)
  moreover have "drop_bit 12 (7 OR push_bit 12 i) = take_bit 20 i"
    by (rule bit_word_eqI) (auto simp: bit_simps)
  ultimately show "pe_index (entry_init i) = i" by (simp add: e pe_index_def)
qed

lemma pe_index_less: "unat (pe_index e) < 2 ^ 20"
  using unat_IDX_less [of e] by (simp add: pe_index_def IDX_def)

subsection \<open>The state\<close>

record mtask =
  mt_pde :: u32
  mt_brk :: u32
  mt_end :: u32
  mt_uid :: u32
  mt_vmap :: bitmap

record mm =
  memory_base :: u32
  memory_size :: u32
  total_pages :: u32
  free_pages :: u32
  start_page :: u32
  memory_map_pages :: u32
  memory_map :: "u8 list"
  ram :: "u32 \<Rightarrow> u32"
  cr3 :: u32
  kernel_map :: bitmap
  cur :: mtask

subsection \<open>Finding the memory\<close>

definition load32 :: "mem \<Rightarrow> u32 \<Rightarrow> u32" where
  "load32 m a = ucast (m a) OR push_bit 8 (ucast (m (a + 1))) OR push_bit 16 (ucast (m (a + 2))) OR
     push_bit 24 (ucast (m (a + 3)))"

definition load64 :: "mem \<Rightarrow> u32 \<Rightarrow> u64" where
  "load64 m a = ucast (load32 m a) OR push_bit 32 (ucast (load32 m (a + 4)))"

text \<open>One memory area: it is taken if it is usable and larger than what was found before.\<close>

definition take_zone :: "u64 \<Rightarrow> u64 \<Rightarrow> u32 \<Rightarrow> u32 \<times> u32 \<Rightarrow> u32 \<times> u32" where
  "take_zone base sz ty found =
     (if ty = 1 \<and> sz > ucast (snd found) then (ucast base, ucast sz) else found)"

text \<open>The packed 20-byte descriptors that the loader leaves.\<close>

primrec ards_loop :: "mem \<Rightarrow> nat \<Rightarrow> u32 \<Rightarrow> u32 \<times> u32 \<Rightarrow> u32 \<times> u32" where
  "ards_loop m 0 ptr found = found"
| "ards_loop m (Suc n) ptr found =
     ards_loop m n (ptr + 20) (take_zone (load64 m ptr) (load64 m (ptr + 8)) (load32 m (ptr + 16)) found)"

text \<open>The multiboot tags: the search for the memory map, and the walk over its entries.\<close>

partial_function (option) find_mmap_tag :: "mem \<Rightarrow> u32 \<Rightarrow> u32 option" where
  "find_mmap_tag m tag =
     (if load32 m tag = 0 \<or> load32 m tag = 6 then Some tag
      else find_mmap_tag m (tag + ((load32 m (tag + 4) + 7) AND NOT 7)))"

partial_function (option) mmap_loop :: "mem \<Rightarrow> u32 \<Rightarrow> u32 \<Rightarrow> u32 \<times> u32 \<Rightarrow> (u32 \<times> u32) option" where
  "mmap_loop m tag entry found =
     (if entry < tag + load32 m (tag + 4) then
        mmap_loop m tag (entry + load32 m (tag + 8))
          (take_zone (load64 m entry) (load64 m (entry + 8)) (load32 m (entry + 16)) found)
      else Some found)"

definition find_memory :: "mem \<Rightarrow> u32 \<Rightarrow> u32 \<Rightarrow> u32 \<times> u32 \<Rightarrow> (u32 \<times> u32) res" where
  "find_memory m magic addr found =
     (if magic = 0x20220205 then Inr (ards_loop m (unat (load32 m addr)) (addr + 4) found)
      else if magic = 0x36d76289 then
        (case Option.bind (find_mmap_tag m (addr + 8)) (\<lambda>tag. mmap_loop m tag (tag + 16) found) of
           None \<Rightarrow> Inl Diverge | Some r \<Rightarrow> Inr r)
      else Inl Panic)"

definition memory_init :: "mem \<Rightarrow> u32 \<Rightarrow> u32 \<Rightarrow> (mm, unit) op" where
  "memory_init m magic addr =
     sbind (sget (\<lambda>s. (memory_base s, memory_size s))) (\<lambda>found.
     sbind (slift (find_memory m magic addr found)) (\<lambda>(base, sz).
     sbind (smodify (\<lambda>s. s\<lparr>memory_base := base, memory_size := sz\<rparr>)) (\<lambda>_.
     sbind (sensure (base = 0x100000)) (\<lambda>_.
     sbind (sensure (sz AND 0xfff = 0)) (\<lambda>_.
     sbind (smodify (\<lambda>s. s\<lparr>total_pages := IDX sz + IDX 0x100000, free_pages := IDX sz\<rparr>)) (\<lambda>_.
     if sz < 0x1000000 then sfail Panic else sret ()))))))"

subsection \<open>Reference counts of page frames\<close>

definition map_get :: "u32 \<Rightarrow> (mm, u8) op" where
  "map_get i = (\<lambda>s. rbind (rd (memory_map s) (unat i)) (\<lambda>c. Inr (c, s)))"

definition map_put :: "u32 \<Rightarrow> u8 \<Rightarrow> (mm, unit) op" where
  "map_put i c = (\<lambda>s. rbind (wr (memory_map s) (unat i) c) (\<lambda>mp. Inr ((), s\<lparr>memory_map := mp\<rparr>)))"

definition memory_map_init :: "(mm, unit) op" where
  "memory_map_init =
     sbind (sget total_pages) (\<lambda>total.
     sbind (slift (div_round_up total PAGE_SIZE)) (\<lambda>pages.
     sbind (smodify (\<lambda>s. s\<lparr>memory_map_pages := pages, free_pages := free_pages s - pages,
                        memory_map := replicate (unat (pages * PAGE_SIZE)) 0,
                        start_page := IDX 0x100000 + pages\<rparr>)) (\<lambda>_.
     sbind (sget start_page) (\<lambda>sp.
     sbind (sforeach (map of_nat [0..<unat sp]) (\<lambda>i. map_put i 1)) (\<lambda>_.
     let len = (IDX 0x1000000 - IDX 0x100000) div 8
     in sbind (slift (bitmap_init (replicate (unat len) 0) len (IDX 0x100000))) (\<lambda>bm.
        sbind (slift (bitmap_scan bm pages)) (\<lambda>(_, bm).
        smodify (\<lambda>s. s\<lparr>kernel_map := bm\<rparr>))))))))"

function get_page_from :: "u32 \<Rightarrow> (mm, u32) op" where
  "get_page_from i s =
     (if i < total_pages s then
        rbind (map_get i s) (\<lambda>(c, _).
          if c = 0 then
            rbind (map_put i 1 s) (\<lambda>(_, s). Inr (PAGE i, s\<lparr>free_pages := free_pages s - 1\<rparr>))
          else get_page_from (i + 1) s)
      else Inl Panic)"
  by pat_completeness auto
termination
  by (relation "measure (\<lambda>(i, s). unat (total_pages s) - unat i)") (auto simp: loop_up_32)

declare get_page_from.simps [simp del]

definition get_page :: "(mm, u32) op" where
  "get_page = (\<lambda>s. get_page_from (start_page s) s)"

definition put_page :: "u32 \<Rightarrow> (mm, unit) op" where
  "put_page addr =
     sbind (sensure (page_aligned addr)) (\<lambda>_.
     let idx = IDX addr
     in sbind (sget (\<lambda>s. start_page s \<le> idx \<and> idx < total_pages s)) (\<lambda>ok.
        sbind (sensure ok) (\<lambda>_.
        sbind (map_get idx) (\<lambda>c.
        sbind (sensure (c \<ge> 1)) (\<lambda>_.
        sbind (map_put idx (c - 1)) (\<lambda>_.
        sbind (if c - 1 = 0 then smodify (free_pages_update (\<lambda>n. n + 1)) else sret ()) (\<lambda>_.
        sbind (sget (\<lambda>s. free_pages s < total_pages s)) sensure)))))))"

subsection \<open>The MMU\<close>

definition entry_at :: "mm \<Rightarrow> u32 \<Rightarrow> u32 \<Rightarrow> page_entry" where
  "entry_at s table i = ram s (PAGE (IDX table) + 4 * i)"

definition translate :: "mm \<Rightarrow> u32 \<Rightarrow> u32 option" where
  "translate s va =
     (let pde = entry_at s (cr3 s) (DIDX va)
      in if \<not> pe_present pde then None
         else let pte = entry_at s pde (TIDX va)
              in if \<not> pe_present pte then None
                 else Some (PAGE (pe_index pte) + (va AND 0xfff)))"

definition vread :: "u32 \<Rightarrow> (mm, u32) op" where
  "vread va = (\<lambda>s. case translate s va of None \<Rightarrow> Inl Fault | Some pa \<Rightarrow> Inr (ram s pa, s))"

definition vwrite :: "u32 \<Rightarrow> u32 \<Rightarrow> (mm, unit) op" where
  "vwrite va v = (\<lambda>s. case translate s va of None \<Rightarrow> Inl Fault
     | Some pa \<Rightarrow> Inr ((), s\<lparr>ram := (ram s)(pa := v)\<rparr>))"

definition pwrite :: "u32 \<Rightarrow> u32 \<Rightarrow> (mm, unit) op" where
  "pwrite pa v = smodify (ram_update (\<lambda>r. r(pa := v)))"

definition set_cr3 :: "u32 \<Rightarrow> (mm, unit) op" where
  "set_cr3 pde = sbind (sensure (page_aligned pde)) (\<lambda>_. smodify (cr3_update (\<lambda>_. pde)))"

text \<open>
  \<open>mapping_init\<close> runs before paging is on, on physical addresses. The running \<open>index\<close> of its inner
  loop is \<open>1024 * didx + tidx\<close>.
\<close>

definition KERNEL_PAGE_TABLE :: "u32 list" where
  "KERNEL_PAGE_TABLE = [0x2000, 0x3000, 0x4000, 0x5000]"

definition zero_page :: "u32 \<Rightarrow> (mm, unit) op" where
  "zero_page a = sforeach [0..<1024] (\<lambda>i. pwrite (a + 4 * of_nat i) 0)"

definition map_kernel_table :: "nat \<Rightarrow> (mm, unit) op" where
  "map_kernel_table didx =
     (let pte = KERNEL_PAGE_TABLE ! didx
      in sbind (zero_page pte) (\<lambda>_.
         sbind (pwrite (0x1000 + 4 * of_nat didx) (pe_put 2 False (entry_init (IDX pte)))) (\<lambda>_.
         sforeach [0..<1024] (\<lambda>tidx.
           let index = 1024 * didx + tidx
           in if index = 0 then sret ()
              else sbind (pwrite (pte + 4 * of_nat tidx) (pe_put 2 False (entry_init (of_nat index)))) (\<lambda>_.
                   map_put (of_nat index) 1)))))"

definition mapping_init :: "(mm, unit) op" where
  "mapping_init =
     sbind (zero_page 0x1000) (\<lambda>_.
     sbind (sforeach [0..<length KERNEL_PAGE_TABLE] map_kernel_table) (\<lambda>_.
     sbind (smodify (\<lambda>s. s\<lparr>free_pages := free_pages s - (IDX 0x1000000 - start_page s)\<rparr>)) (\<lambda>_.
     sbind (pwrite (0x1000 + 4 * 1023) (entry_init (IDX 0x1000))) (\<lambda>_.
     set_cr3 0x1000))))"

subsection \<open>Kernel pages\<close>

definition scan_page :: "bitmap \<Rightarrow> u32 \<Rightarrow> (u32 \<times> bitmap) res" where
  "scan_page bm count =
     (if count = 0 then Inl AssertFail
      else rbind (bitmap_scan bm count) (\<lambda>(r, bm).
        if r = EOF32 then Inl Panic else Inr (PAGE r, bm)))"

primrec reset_run :: "bitmap \<Rightarrow> u32 \<Rightarrow> nat \<Rightarrow> bitmap res" where
  "reset_run bm index 0 = Inr bm"
| "reset_run bm index (Suc n) =
     rbind (bitmap_test bm index) (\<lambda>used.
       if \<not> used then Inl AssertFail
       else rbind (bitmap_set bm index False) (\<lambda>bm. reset_run bm (index + 1) n))"

definition reset_page :: "bitmap \<Rightarrow> u32 \<Rightarrow> u32 \<Rightarrow> bitmap res" where
  "reset_page bm addr count =
     (if \<not> page_aligned addr \<or> count = 0 then Inl AssertFail
      else reset_run bm (IDX addr) (unat count))"

definition alloc_kpage :: "u32 \<Rightarrow> (mm, u32) op" where
  "alloc_kpage count =
     sbind (sensure (count > 0)) (\<lambda>_.
     sbind (sget kernel_map) (\<lambda>bm.
     sbind (slift (scan_page bm count)) (\<lambda>(vaddr, bm).
     sbind (smodify (kernel_map_update (\<lambda>_. bm))) (\<lambda>_. sret vaddr))))"

definition free_kpage :: "u32 \<Rightarrow> u32 \<Rightarrow> (mm, unit) op" where
  "free_kpage vaddr count =
     sbind (sensure (count > 0)) (\<lambda>_.
     sbind (sget kernel_map) (\<lambda>bm.
     sbind (slift (reset_page bm vaddr count)) (\<lambda>bm.
     smodify (kernel_map_update (\<lambda>_. bm)))))"

subsection \<open>Frame accounting\<close>

text \<open>The frames that \<open>get_page\<close> hands out are those from \<open>start_page\<close> on.\<close>

definition zero_frames :: "mm \<Rightarrow> nat set" where
  "zero_frames s = {i. unat (start_page s) \<le> i \<and> i < unat (total_pages s) \<and> memory_map s ! i = 0}"

definition frames_ok :: "mm \<Rightarrow> bool" where
  "frames_ok s \<longleftrightarrow> unat (total_pages s) \<le> length (memory_map s) \<and> unat (total_pages s) \<le> 2 ^ 20 \<and>
     0 < unat (start_page s) \<and> unat (free_pages s) = card (zero_frames s)"

lemma finite_zero_frames [simp]: "finite (zero_frames s)"
  by (rule finite_subset [of _ "{..<unat (total_pages s)}"]) (auto simp: zero_frames_def)

lemma card_zero_frames: "0 < unat (start_page s) \<Longrightarrow> 0 < unat (total_pages s) \<Longrightarrow>
    card (zero_frames s) < unat (total_pages s)"
proof -
  assume a: "0 < unat (start_page s)" "0 < unat (total_pages s)"
  have "zero_frames s \<subseteq> {1..<unat (total_pages s)}" using a(1) by (auto simp: zero_frames_def)
  then have "card (zero_frames s) \<le> card {1..<unat (total_pages s)}" by (intro card_mono) auto
  with a(2) show ?thesis by simp
qed

text \<open>\<open>get_page\<close> takes the first free frame.\<close>

lemma get_page_from_spec:
  assumes "unat (total_pages s) \<le> length (memory_map s)" "start_page s \<le> i"
    and "\<forall>j\<in>zero_frames s. unat i \<le> j"
  shows "get_page_from i s =
    (if zero_frames s = {} then Inl Panic
     else let f = Min (zero_frames s) in
       Inr (PAGE (of_nat f), s\<lparr>memory_map := (memory_map s)[f := 1], free_pages := free_pages s - 1\<rparr>))"
  using assms
proof (induction i s rule: get_page_from.induct)
  case (1 i s)
  show ?case
  proof (cases "i < total_pages s")
    case False
    then have "zero_frames s = {}"
      using "1.prems"(3) by (auto simp: zero_frames_def word_less_nat_alt)
    with False show ?thesis by (subst get_page_from.simps) simp
  next
    case True
    then have it: "unat i < unat (total_pages s)" by (simp add: word_less_nat_alt)
    then have il: "unat i < length (memory_map s)" using "1.prems"(1) by simp
    show ?thesis
    proof (cases "memory_map s ! unat i = 0")
      case z: True
      have m: "unat i \<in> zero_frames s"
        using it z "1.prems"(2) by (simp add: zero_frames_def word_le_nat_alt)
      then have "Min (zero_frames s) = unat i"
        using "1.prems"(3) by (intro Min_eqI) auto
      with m True z il show ?thesis
        by (subst get_page_from.simps) (auto simp: map_get_def map_put_def Let_def)
    next
      case nz: False
      have s1: "unat (i + 1) = unat i + 1" using True by (rule unat_inc_32)
      have le: "start_page s \<le> i + 1" using s1 "1.prems"(2) by (simp add: word_le_nat_alt)
      have "unat (i + 1) \<le> j" if "j \<in> zero_frames s" for j
      proof -
        have "j \<noteq> unat i" using that nz by (auto simp: zero_frames_def)
        with that "1.prems"(3) s1 show ?thesis by fastforce
      qed
      moreover have mg: "map_get i s = Inr (memory_map s ! unat i, s)" using il by (simp add: map_get_def)
      ultimately show ?thesis
        using "1.IH" [OF True mg _ nz "1.prems"(1) le] True nz
        by (subst get_page_from.simps) simp
    qed
  qed
qed

lemma get_page_eq:
  "frames_ok s \<Longrightarrow> get_page s =
    (if zero_frames s = {} then Inl Panic
     else let f = Min (zero_frames s) in
       Inr (PAGE (of_nat f), s\<lparr>memory_map := (memory_map s)[f := 1], free_pages := free_pages s - 1\<rparr>))"
  unfolding get_page_def
  by (rule get_page_from_spec) (auto simp: frames_ok_def zero_frames_def word_le_nat_alt)

lemma zero_frames_less: "frames_ok s \<Longrightarrow> i \<in> zero_frames s \<Longrightarrow> i < length (memory_map s) \<and> i < 2 ^ 20"
  by (auto simp: frames_ok_def zero_frames_def)

text \<open>What a successful \<open>get_page\<close> has done: frame \<open>f\<close> was free and now has one reference.\<close>

definition took_frame :: "mm \<Rightarrow> nat \<Rightarrow> mm \<Rightarrow> bool" where
  "took_frame s f s' \<longleftrightarrow> f \<in> zero_frames s \<and>
     s' = s\<lparr>memory_map := (memory_map s)[f := 1], free_pages := free_pages s - 1\<rparr>"

lemma get_page_cases:
  assumes "frames_ok s"
  shows "get_page s = Inl Panic \<and> zero_frames s = {} \<or>
    (\<exists>f s'. get_page s = Inr (PAGE (of_nat f), s') \<and> took_frame s f s' \<and> (\<forall>g\<in>zero_frames s. f \<le> g))"
proof (cases "zero_frames s = {}")
  case True
  then show ?thesis using get_page_eq [OF assms] by simp
next
  case False
  then show ?thesis
    using get_page_eq [OF assms] Min_in [OF finite_zero_frames False] Min_le [OF finite_zero_frames]
    by (intro disjI2 exI [of _ "Min (zero_frames s)"]) (auto simp: took_frame_def Let_def)
qed

lemma took_frame_ok:
  assumes "frames_ok s" "took_frame s f s'"
  shows "frames_ok s'" "zero_frames s' = zero_frames s - {f}" "unat (of_nat f :: u32) = f" "f < 2 ^ 20"
proof -
  have f: "f \<in> zero_frames s" using assms(2) by (simp add: took_frame_def)
  from zero_frames_less [OF assms(1) f] show n: "f < 2 ^ 20" by simp
  then show "unat (of_nat f :: u32) = f" by (intro unat_of_nat_32) simp
  show z: "zero_frames s' = zero_frames s - {f}"
    using assms f by (auto simp: took_frame_def zero_frames_def frames_ok_def nth_list_update split: if_splits)
  have "0 < card (zero_frames s)" using f by (auto simp: card_gt_0_iff)
  then have "unat (free_pages s - 1) = unat (free_pages s) - 1"
    using assms(1) unat_sub_32 [of 1 "free_pages s"] by (simp add: frames_ok_def)
  with assms f z show "frames_ok s'"
    by (auto simp: frames_ok_def took_frame_def)
qed

lemma put_page_spec:
  assumes ok: "frames_ok s" and idx: "unat (start_page s) \<le> f" "f < unat (total_pages s)"
    and c: "memory_map s ! f \<noteq> 0"
  shows "\<exists>s'. put_page (PAGE (of_nat f)) s = Inr ((), s') \<and> frames_ok s' \<and>
    s' = s\<lparr>memory_map := (memory_map s)[f := memory_map s ! f - 1],
           free_pages := (if memory_map s ! f = 1 then free_pages s + 1 else free_pages s)\<rparr>"
proof -
  have n: "f < 2 ^ 20" "f < length (memory_map s)" using ok idx by (auto simp: frames_ok_def)
  then have u: "unat (of_nat f :: u32) = f" by (intro unat_of_nat_32) simp
  define s' where "s' = s\<lparr>memory_map := (memory_map s)[f := memory_map s ! f - 1],
    free_pages := (if memory_map s ! f = 1 then free_pages s + 1 else free_pages s)\<rparr>"
  have lt: "card (zero_frames t) < unat (total_pages s)"
    if "start_page t = start_page s" "total_pages t = total_pages s" for t
    using card_zero_frames [of t] that ok idx by (auto simp: frames_ok_def)
  have "frames_ok s'"
  proof (cases "memory_map s ! f = 1")
    case True
    have "zero_frames s' = insert f (zero_frames s)"
      using True idx n by (auto simp: s'_def zero_frames_def nth_list_update)
    moreover have "f \<notin> zero_frames s" using c by (simp add: zero_frames_def)
    moreover have "unat (free_pages s + 1) = unat (free_pages s) + 1"
      using lt [of s] ok n unat_less_32 [of "total_pages s"]
      by (intro unat_Suc_32) (simp add: frames_ok_def)
    ultimately show ?thesis using True ok by (simp add: frames_ok_def s'_def)
  next
    case False
    have "memory_map s ! f - 1 \<noteq> 0" using False by simp
    then have "zero_frames s' = zero_frames s"
      using c n by (auto simp: s'_def zero_frames_def nth_list_update)
    with False ok show ?thesis by (simp add: frames_ok_def s'_def)
  qed
  moreover have "free_pages s' < total_pages s'"
    using \<open>frames_ok s'\<close> lt [of s'] by (simp add: frames_ok_def word_less_nat_alt s'_def)
  moreover have "1 \<le> memory_map s ! f" using c by (simp add: word_le_nat_alt Suc_le_eq unat_gt_0)
  ultimately show ?thesis using n u idx
    by (intro exI [of _ s'], cases "memory_map s ! f = 1")
      (simp_all add: put_page_def page_aligned_PAGE IDX_PAGE Let_def map_get_def map_put_def s'_def
        word_le_nat_alt word_less_nat_alt)
qed

lemma put_get_page:
  assumes "frames_ok s" "took_frame s f s'"
  shows "put_page (PAGE (of_nat f)) s' = Inr ((), s)"
proof -
  note T = took_frame_ok [OF assms]
  have f: "f \<in> zero_frames s" "f < length (memory_map s)"
    using assms zero_frames_less by (auto simp: took_frame_def)
  then have m: "memory_map s' ! f = 1" using assms(2) by (simp add: took_frame_def)
  have "unat (start_page s') \<le> f" "f < unat (total_pages s')"
    using f assms(2) by (auto simp: took_frame_def zero_frames_def)
  from put_page_spec [OF T(1) this] m obtain t where
    t: "put_page (PAGE (of_nat f)) s' = Inr ((), t)"
      "t = s'\<lparr>memory_map := (memory_map s')[f := 0], free_pages := free_pages s' + 1\<rparr>" by auto
  have "t = s"
    using f assms(2) unfolding t(2)
    by (simp add: took_frame_def zero_frames_def list_update_same_conv)
  with t(1) show ?thesis by simp
qed

subsection \<open>Runs of pages in a bitmap\<close>

definition page_bits :: "bitmap \<Rightarrow> nat set" where
  "page_bits bm = {i. unat (bm_offset bm) \<le> i \<and> bit_of bm (i - unat (bm_offset bm)) \<and>
     i < unat (bm_offset bm) + nbits bm}"

definition page_run :: "u32 \<Rightarrow> u32 \<Rightarrow> nat set" where
  "page_run a n = {unat (IDX a)..<unat (IDX a) + unat n}"

definition run_fits :: "bitmap \<Rightarrow> u32 \<Rightarrow> u32 \<Rightarrow> bool" where
  "run_fits bm a n \<longleftrightarrow> page_aligned a \<and> unat (bm_offset bm) \<le> unat (IDX a) \<and>
     unat (IDX a) + unat n \<le> unat (bm_offset bm) + nbits bm"

definition page_bitmap :: "bitmap \<Rightarrow> bool" where
  "page_bitmap bm \<longleftrightarrow> bitmap_wf bm \<and> unat (bm_offset bm) + nbits bm \<le> 2 ^ 20"

lemma reset_run_spec:
  "bitmap_wf m \<Longrightarrow> s + c \<le> nbits m \<Longrightarrow> \<forall>k<c. bit_of m (s + k) \<Longrightarrow>
   \<exists>m'. reset_run m (bm_offset m + of_nat s) c = Inr m' \<and> bitmap_wf m' \<and>
     bm_length m' = bm_length m \<and> bm_offset m' = bm_offset m \<and>
     (\<forall>j. bit_of m' j = (bit_of m j \<and> \<not> (s \<le> j \<and> j < s + c)))"
proof (induction c arbitrary: m s)
  case 0
  then show ?case by auto
next
  case (Suc c)
  then have s: "s < nbits m" "bit_of m s" by auto
  from bitmap_set_wf [OF Suc.prems(1) s(1), of False] obtain m1 where
    m1: "bitmap_set m (bm_offset m + of_nat s) False = Inr m1" "bitmap_wf m1"
      "bm_length m1 = bm_length m" "bm_offset m1 = bm_offset m"
      "\<forall>j. bit_of m1 j = (if j = s then False else bit_of m j)" by blast
  have "Suc s + c \<le> nbits m1" using Suc.prems(2) m1(3) by (simp add: nbits_def)
  moreover have "\<forall>k<c. bit_of m1 (Suc s + k)" using Suc.prems(3) m1(5) by auto
  ultimately obtain m2 where
    m2: "reset_run m1 (bm_offset m1 + of_nat (Suc s)) c = Inr m2" "bitmap_wf m2"
      "bm_length m2 = bm_length m1" "bm_offset m2 = bm_offset m1"
      "\<forall>j. bit_of m2 j = (bit_of m1 j \<and> \<not> (Suc s \<le> j \<and> j < Suc s + c))"
    using Suc.IH [OF m1(2), of "Suc s"] by blast
  have "bm_offset m + of_nat s + 1 = bm_offset m1 + of_nat (Suc s)" by (simp add: m1(4))
  then have "reset_run m (bm_offset m + of_nat s) (Suc c) = Inr m2"
    using s(2) by (simp only: reset_run.simps bitmap_test_wf [OF Suc.prems(1) s(1)] m1(1) m2(1)
        rbind_Inr simp_thms if_False)
  with m1 m2 show ?case by auto
qed

interpretation pages: run_allocator scan_page reset_page page_bits page_run run_fits page_bitmap
proof
  fix s n a s' and e :: fail
  assume inv: "page_bitmap s" and n: "0 < (n :: u32)"
  then have wf: "bitmap_wf s" and n0: "0 < unat n" "n \<noteq> 0" by (auto simp: page_bitmap_def word_less_nat_alt)
  obtain r m' where r: "bitmap_scan s n = Inr (r, m')" "bitmap_wf m'" "bm_length m' = bm_length s"
      "bm_offset m' = bm_offset s" "r \<noteq> EOF32 \<longrightarrow> scan_post s n r m'"
    using bitmap_scan_wf [OF wf n0(1)] by (auto split: if_splits)
  show "e = Panic" if "scan_page s n = Inl e"
    using that n0(2) r(1) by (auto simp: scan_page_def split: if_splits)
  assume al: "scan_page s n = Inr (a, s')"
  then have a: "r \<noteq> EOF32" "a = PAGE r" "s' = m'"
    using n0(2) r(1) by (auto simp: scan_page_def split: if_splits)
  define k where "k = unat r - unat (bm_offset s)"
  have P: "unat (bm_offset s) \<le> unat r" "k + unat n \<le> nbits s" "free_run s k (unat n)"
    "\<forall>j. bit_of m' j = (bit_of s j \<or> k \<le> j \<and> j < k + unat n)"
    using r(5) a(1) unfolding scan_post_def Let_def k_def by blast+
  have rk: "unat r = unat (bm_offset s) + k" using P(1) by (simp add: k_def)
  have "unat r < 2 ^ 20" using P(2) rk n0(1) inv by (auto simp: page_bitmap_def)
  then have ia: "IDX a = r" "page_aligned a" by (simp_all add: a(2) IDX_PAGE page_aligned_PAGE)
  have nb: "nbits m' = nbits s" using r(3) by (simp add: nbits_def)
  have run: "i \<in> page_run a n \<longleftrightarrow> unat (bm_offset s) \<le> i \<and> k \<le> i - unat (bm_offset s) \<and>
      i - unat (bm_offset s) < k + unat n" for i
    using rk ia(1) by (auto simp: page_run_def)
  show "page_bitmap s' \<and> run_fits s' a n \<and> page_run a n \<inter> page_bits s = {} \<and>
      page_bits s' = page_bits s \<union> page_run a n"
  proof (intro conjI)
    show "page_bitmap s'" using inv r(2,4) nb a(3) by (simp add: page_bitmap_def)
    show "run_fits s' a n" using P(2) rk ia r(4) nb a(3) by (simp add: run_fits_def)
    have "\<not> bit_of s (i - unat (bm_offset s))" if "i \<in> page_run a n" for i
    proof -
      define d where "d = i - unat (bm_offset s) - k"
      have "i - unat (bm_offset s) = k + d" "d < unat n" using that by (auto simp: run d_def)
      with P(3) show ?thesis by (simp add: free_run_def)
    qed
    then show "page_run a n \<inter> page_bits s = {}" by (auto simp: page_bits_def)
    show "page_bits s' = page_bits s \<union> page_run a n"
    proof (rule set_eqI)
      fix i
      have "i < unat (bm_offset s) + nbits s" if "unat (bm_offset s) \<le> i" "i - unat (bm_offset s) < k + unat n"
        using that P(2) by linarith
      then show "i \<in> page_bits s' \<longleftrightarrow> i \<in> page_bits s \<union> page_run a n"
        unfolding page_bits_def Un_iff mem_Collect_eq run nb r(4) a(3) P(4) [rule_format] by blast
    qed
  qed
  show "run_fits s' b m = run_fits s b m" for b m
    using r(4) nb a(3) by (simp add: run_fits_def)
next
  fix s n a
  assume inv: "page_bitmap s" and n: "0 < (n :: u32)" and fit: "run_fits s a n"
    and used: "page_run a n \<subseteq> page_bits s"
  define k where "k = unat (IDX a) - unat (bm_offset s)"
  have k: "unat (IDX a) = unat (bm_offset s) + k" "k + unat n \<le> nbits s" "page_aligned a"
    using fit by (auto simp: run_fits_def k_def)
  have "\<forall>j<unat n. bit_of s (k + j)"
  proof (intro allI impI)
    fix j assume "j < unat n"
    then have "unat (IDX a) + j \<in> page_bits s" using used by (auto simp: page_run_def)
    then show "bit_of s (k + j)" by (simp add: page_bits_def k(1))
  qed
  moreover have "bitmap_wf s" using inv by (simp add: page_bitmap_def)
  ultimately obtain m' where
    m': "reset_run s (bm_offset s + of_nat k) (unat n) = Inr m'" "bitmap_wf m'"
      "bm_length m' = bm_length s" "bm_offset m' = bm_offset s"
      "\<forall>j. bit_of m' j = (bit_of s j \<and> \<not> (k \<le> j \<and> j < k + unat n))"
    using reset_run_spec [OF _ k(2)] by blast
  have "IDX a = bm_offset s + of_nat k"
    using unat_IDX_less [of a] k(1) by (simp add: u32_eq_iff unat_add_32 unat_of_nat_32)
  with m'(1) n k(3) have "reset_page s a n = Inr m'" by (auto simp: reset_page_def)
  moreover have nb: "nbits m' = nbits s" using m'(3) by (simp add: nbits_def)
  moreover have "page_bits m' = page_bits s - page_run a n"
  proof (rule set_eqI)
    fix i
    have run: "i \<in> page_run a n \<longleftrightarrow> unat (bm_offset s) \<le> i \<and> k \<le> i - unat (bm_offset s) \<and>
        i - unat (bm_offset s) < k + unat n"
      using k(1) by (auto simp: page_run_def)
    show "i \<in> page_bits m' \<longleftrightarrow> i \<in> page_bits s - page_run a n"
      unfolding page_bits_def Diff_iff mem_Collect_eq run nb m'(4) m'(5) [rule_format] by blast
  qed
  moreover have "\<forall>b m. run_fits m' b m = run_fits s b m" using m'(4) nb by (simp add: run_fits_def)
  ultimately show "\<exists>s'. reset_page s a n = Inr s' \<and> page_bitmap s' \<and> page_bits s' = page_bits s - page_run a n \<and>
      (\<forall>b m. run_fits s' b m = run_fits s b m)"
    using m'(2,4) inv by (auto simp: page_bitmap_def)
qed

subsection \<open>What the allocators are proved to do\<close>

text \<open>C33: While \<open>free_pages\<close> is the number of frames without a reference, \<open>get_page\<close> panics exactly when
there is none, and otherwise gives the lowest one a first reference and keeps the count right; giving
that page back with \<open>put_page\<close> passes all its assertions and restores the state exactly.\<close>

theorem get_put_page:
  assumes "frames_ok s"
  shows "(get_page s = Inl Panic \<and> zero_frames s = {}) \<or>
    (\<exists>f s'. get_page s = Inr (PAGE (of_nat f), s') \<and> f \<in> zero_frames s \<and> (\<forall>g\<in>zero_frames s. f \<le> g) \<and>
       memory_map s' ! f = 1 \<and> frames_ok s' \<and> zero_frames s' = zero_frames s - {f} \<and>
       put_page (PAGE (of_nat f)) s' = Inr ((), s))"
proof (cases "zero_frames s = {}")
  case True
  then show ?thesis using get_page_cases [OF assms] by (auto simp: took_frame_def)
next
  case False
  with get_page_cases [OF assms] obtain f s' where
    f: "get_page s = Inr (PAGE (of_nat f), s')" "took_frame s f s'" "\<forall>g\<in>zero_frames s. f \<le> g" by blast
  have "f \<in> zero_frames s" "memory_map s' ! f = 1"
    using f(2) zero_frames_less [OF assms] by (auto simp: took_frame_def)
  with f took_frame_ok [OF assms f(2)] put_get_page [OF assms f(2)] show ?thesis by blast
qed

definition mm0 :: mm where
  "mm0 = \<lparr>memory_base = 0x100000, memory_size = 0x1000000, total_pages = 4, free_pages = 1, start_page = 2,
     memory_map_pages = 1, memory_map = [1, 1, 0, 1], ram = (\<lambda>_. 0), cr3 = 0x1000,
     kernel_map = bitmap_make [0x03, 0x00] 2 0x100,
     cur = \<lparr>mt_pde = 0x1000, mt_brk = 0x1002000, mt_end = 0x1001000, mt_uid = 1000,
            mt_vmap = bitmap_make [0] 1 0x8000\<rparr>\<rparr>"

lemma frames_ok_mm0: "frames_ok mm0"
proof -
  have "zero_frames mm0 = {2}"
  proof (rule set_eqI)
    fix i :: nat
    have "2 \<le> i \<and> i < 4 \<longleftrightarrow> i = 2 \<or> i = 3" by auto
    then show "i \<in> zero_frames mm0 \<longleftrightarrow> i \<in> {2}"
      by (auto simp: zero_frames_def mm0_def)
  qed
  then show ?thesis by (simp add: frames_ok_def) (simp add: mm0_def)
qed

theorem get_put_page_witness:
  "(get_page mm0 = Inl Panic \<and> zero_frames mm0 = {}) \<or>
    (\<exists>f s'. get_page mm0 = Inr (PAGE (of_nat f), s') \<and> f \<in> zero_frames mm0 \<and> (\<forall>g\<in>zero_frames mm0. f \<le> g) \<and>
       memory_map s' ! f = 1 \<and> frames_ok s' \<and> zero_frames s' = zero_frames mm0 - {f} \<and>
       put_page (PAGE (of_nat f)) s' = Inr ((), mm0))"
  by (rule get_put_page [OF frames_ok_mm0])

lemma alloc_kpage_pages:
  "0 < n \<Longrightarrow> alloc_kpage n s = (case scan_page (kernel_map s) n of Inl e \<Rightarrow> Inl e
     | Inr (a, bm) \<Rightarrow> Inr (a, s\<lparr>kernel_map := bm\<rparr>))"
  by (auto simp: alloc_kpage_def word_neq_0_conv split: sum.splits)

lemma free_kpage_pages:
  "0 < n \<Longrightarrow> free_kpage a n s = (case reset_page (kernel_map s) a n of Inl e \<Rightarrow> Inl e
     | Inr bm \<Rightarrow> Inr ((), s\<lparr>kernel_map := bm\<rparr>))"
  by (auto simp: free_kpage_def word_neq_0_conv split: sum.splits)

text \<open>C39: Two allocations of kernel pages either panic or give runs of pages that share no page, even
with everything allocated before, and the first run can be freed while the second is in use: exactly
its pages become free again.\<close>

theorem kernel_pages_disjoint:
  assumes "page_bitmap (kernel_map s)" "0 < n" "0 < m"
  shows "case alloc_kpage n s of Inl e \<Rightarrow> e = Panic | Inr (a, s1) \<Rightarrow>
    page_run a n \<inter> page_bits (kernel_map s) = {} \<and>
    (case alloc_kpage m s1 of Inl e \<Rightarrow> e = Panic | Inr (b, s2) \<Rightarrow>
       page_run a n \<inter> page_run b m = {} \<and>
       (\<exists>s3. free_kpage a n s2 = Inr ((), s3) \<and>
          page_bits (kernel_map s3) = page_bits (kernel_map s) \<union> page_run b m))"
proof (cases "scan_page (kernel_map s) n")
  case (Inl e)
  then show ?thesis using pages.alloc_fail [OF assms(1,2) Inl] by (simp add: alloc_kpage_pages assms(2))
next
  case (Inr r)
  obtain a bm where r: "r = (a, bm)" by (cases r)
  note A = pages.alloc_law [OF assms(1,2) Inr [unfolded r]]
  then have inv1: "page_bitmap bm" by simp
  show ?thesis
  proof (cases "scan_page bm m")
    case (Inl e)
    then show ?thesis
      using pages.alloc_fail [OF inv1 assms(3) Inl] A Inr r by (simp add: alloc_kpage_pages assms(2,3))
  next
    case (Inr q)
    obtain b bm2 where q: "q = (b, bm2)" by (cases q)
    note D = pages.two_runs [OF assms \<open>scan_page (kernel_map s) n = Inr r\<close> [unfolded r] Inr [unfolded q]]
    note R = pages.release_first [OF assms \<open>scan_page (kernel_map s) n = Inr r\<close> [unfolded r] Inr [unfolded q]]
    show ?thesis
      using A D R Inr q r \<open>scan_page (kernel_map s) n = Inr r\<close>
      by (auto simp: alloc_kpage_pages free_kpage_pages assms(2,3))
  qed
qed

theorem kernel_pages_disjoint_witness:
  "case alloc_kpage 3 mm0 of Inl e \<Rightarrow> e = Panic | Inr (a, s1) \<Rightarrow>
    page_run a 3 \<inter> page_bits (kernel_map mm0) = {} \<and>
    (case alloc_kpage 2 s1 of Inl e \<Rightarrow> e = Panic | Inr (b, s2) \<Rightarrow>
       page_run a 3 \<inter> page_run b 2 = {} \<and>
       (\<exists>s3. free_kpage a 3 s2 = Inr ((), s3) \<and>
          page_bits (kernel_map s3) = page_bits (kernel_map mm0) \<union> page_run b 2))"
  by (rule kernel_pages_disjoint) (simp_all add: mm0_def page_bitmap_def bitmap_wf_def bitmap_make_def nbits_def)

end
