(* ===== verification/Paging.thy ===== *)
theory Paging
  imports Frames
begin

text \<open>
  The page tables of a process (\<open>src/src/kernel/memory.c\<close>): the recursive mapping through which the
  kernel reaches them, linking and unlinking pages, copying the page directory for \<open>fork\<close>, the page
  fault handler with copy on write, and the system calls \<open>brk\<close>, \<open>mmap\<close> and \<open>munmap\<close>. All accesses to
  tables and pages go through the MMU model of \<open>Frames\<close>.
\<close>

unbundle bit_operations_syntax

definition get_pde :: u32 where
  "get_pde = 0xfffff000"

definition PDE_MASK :: u32 where
  "PDE_MASK = 0xFFC00000"

text \<open>A page through its virtual addresses: \<open>memset\<close> to zero and \<open>memcpy\<close>, cell by cell.\<close>

definition vzero :: "u32 \<Rightarrow> (mm, unit) op" where
  "vzero va = sforeach [0..<1024] (\<lambda>i. vwrite (va + 4 * of_nat i) 0)"

definition vcopy :: "u32 \<Rightarrow> u32 \<Rightarrow> (mm, unit) op" where
  "vcopy dst src =
     sforeach [0..<1024] (\<lambda>i. sbind (vread (src + 4 * of_nat i)) (\<lambda>v. vwrite (dst + 4 * of_nat i) v))"

definition get_pte :: "u32 \<Rightarrow> bool \<Rightarrow> (mm, u32) op" where
  "get_pte vaddr create =
     (let idx = DIDX vaddr; ea = get_pde + 4 * idx; table = PDE_MASK OR push_bit 12 idx
      in sbind (vread ea) (\<lambda>entry.
         sbind (sensure (create \<or> (\<not> create \<and> pe_present entry))) (\<lambda>_.
         if \<not> pe_present entry then
           sbind get_page (\<lambda>page.
           sbind (vwrite ea (entry_init (IDX page))) (\<lambda>_.
           sbind (vzero table) (\<lambda>_. sret table)))
         else sret table)))"

definition get_entry :: "u32 \<Rightarrow> bool \<Rightarrow> (mm, u32) op" where
  "get_entry vaddr create = sbind (get_pte vaddr create) (\<lambda>pte. sret (pte + 4 * TIDX vaddr))"

definition link_page :: "u32 \<Rightarrow> (mm, unit) op" where
  "link_page vaddr =
     sbind (sensure (page_aligned vaddr)) (\<lambda>_.
     sbind (get_entry vaddr True) (\<lambda>ea.
     sbind (vread ea) (\<lambda>entry.
     if pe_present entry then sret ()
     else sbind get_page (\<lambda>paddr. vwrite ea (entry_init (IDX paddr))))))"

definition unlink_page :: "u32 \<Rightarrow> (mm, unit) op" where
  "unlink_page vaddr =
     sbind (sensure (page_aligned vaddr)) (\<lambda>_.
     sbind (vread (get_pde + 4 * DIDX vaddr)) (\<lambda>dentry.
     if \<not> pe_present dentry then sret ()
     else
       sbind (get_entry vaddr False) (\<lambda>ea.
       sbind (vread ea) (\<lambda>entry.
       if \<not> pe_present entry then sret ()
       else sbind (vwrite ea (pe_put 0 False entry)) (\<lambda>_. put_page (PAGE (pe_index entry)))))))"

text \<open>
  \<open>copy_page\<close> maps the new frame at virtual address 0 for the time of the copy; the entry it gets is
  the first of the table for address 0.
\<close>

definition copy_page :: "u32 \<Rightarrow> (mm, u32) op" where
  "copy_page page =
     sbind get_page (\<lambda>paddr.
     sbind (get_pte 0 False) (\<lambda>ea.
     sbind (vwrite ea (entry_init (IDX paddr))) (\<lambda>_.
     sbind (vcopy 0 page) (\<lambda>_.
     sbind (vread ea) (\<lambda>entry.
     sbind (vwrite ea (pe_put 0 False entry)) (\<lambda>_. sret paddr))))))"

text \<open>Sharing one present entry of a table with the copy: read-only unless shared, one more reference.\<close>

definition share_entry :: "u32 \<Rightarrow> (mm, unit) op" where
  "share_entry ea =
     sbind (vread ea) (\<lambda>entry.
     if \<not> pe_present entry then sret ()
     else
       sbind (map_get (pe_index entry)) (\<lambda>c.
       sbind (sensure (c > 0)) (\<lambda>_.
       sbind (if \<not> pe_shared entry then vwrite ea (pe_put 1 False entry) else sret ()) (\<lambda>_.
       sbind (map_put (pe_index entry) (c + 1)) (\<lambda>_.
       sensure (c + 1 < 255))))))"

definition copy_table :: "u32 \<Rightarrow> nat \<Rightarrow> (mm, unit) op" where
  "copy_table pde didx =
     (let dea = pde + 4 * of_nat didx; pte = PDE_MASK OR push_bit 12 (of_nat didx)
      in sbind (vread dea) (\<lambda>dentry.
         if \<not> pe_present dentry then sret ()
         else
           sbind (sforeach [0..<1024] (\<lambda>tidx. share_entry (pte + 4 * of_nat tidx))) (\<lambda>_.
           sbind (copy_page pte) (\<lambda>paddr.
           sbind (vread dea) (\<lambda>dentry. vwrite dea (pe_set_index (IDX paddr) dentry))))))"

definition copy_pde :: "(mm, u32) op" where
  "copy_pde =
     sbind (sget (\<lambda>s. mt_pde (cur s))) (\<lambda>tpde.
     sbind (alloc_kpage 1) (\<lambda>pde.
     sbind (vcopy pde tpde) (\<lambda>_.
     sbind (vwrite (pde + 4 * 1023) (entry_init (IDX pde))) (\<lambda>_.
     sbind (sforeach [4..<1023] (copy_table pde)) (\<lambda>_.
     sbind (set_cr3 tpde) (\<lambda>_. sret pde))))))"

subsection \<open>Page faults\<close>

text \<open>How the handler ends: the access is tried again, or the task exits.\<close>

datatype fault_end = Resume | TaskExit int

definition break_cow :: "u32 \<Rightarrow> (mm, unit) op" where
  "break_cow vaddr =
     sbind (get_entry vaddr False) (\<lambda>ea.
     sbind (vread ea) (\<lambda>entry.
     sbind (sensure (pe_present entry)) (\<lambda>_.
     sbind (map_get (pe_index entry)) (\<lambda>c.
     sbind (sensure (c > 0)) (\<lambda>_.
     sbind (sensure (\<not> pe_shared entry)) (\<lambda>_.
     sbind (sensure (\<not> pe_readonly entry)) (\<lambda>_.
     if c = 1 then vwrite ea (pe_put 1 True entry)
     else
       sbind (copy_page (PAGE (IDX vaddr))) (\<lambda>paddr.
       sbind (vread ea) (\<lambda>entry.
       sbind (map_get (pe_index entry)) (\<lambda>c.
       sbind (map_put (pe_index entry) (c - 1)) (\<lambda>_.
       vwrite ea (entry_init (IDX paddr)))))))))))))"

definition page_fault :: "u32 \<Rightarrow> u32 \<Rightarrow> u32 \<Rightarrow> (mm, fault_end) op" where
  "page_fault vector error cr2 =
     (let vaddr = cr2
      in sbind (sensure (vector = 0xe)) (\<lambda>_.
         sbind (sget cur) (\<lambda>task.
         if vaddr < USER_EXEC_ADDR \<or> vaddr \<ge> USER_STACK_TOP then
           sbind (sensure (mt_uid task \<noteq> 0)) (\<lambda>_. sret (TaskExit (-1)))
         else if bit error 0 then
           sbind (sensure (bit error 1)) (\<lambda>_.
           sbind (break_cow vaddr) (\<lambda>_. sret Resume))
         else if vaddr < mt_brk task \<or> vaddr \<ge> USER_STACK_BOTTOM then
           sbind (link_page (PAGE (IDX vaddr))) (\<lambda>_. sret Resume)
         else sfail Panic)))"

subsection \<open>System calls\<close>

text \<open>The loop of \<open>sys_brk\<close> counts pages up to the old break.\<close>

partial_function (option) unlink_range :: "u32 \<Rightarrow> u32 \<Rightarrow> mm \<Rightarrow> mm res option" where
  "unlink_range page old_brk s =
     (if page < old_brk then
        lbind (unlink_page page s) (\<lambda>r. unlink_range (page + PAGE_SIZE) old_brk (snd r))
      else Some (Inr s))"

definition sys_brk :: "u32 \<Rightarrow> (mm, u32) op" where
  "sys_brk brk =
     sbind (sensure (page_aligned brk)) (\<lambda>_.
     sbind (sget cur) (\<lambda>task.
     sbind (sensure (mt_uid task \<noteq> 0)) (\<lambda>_.
     sbind (sensure (mt_end task \<le> brk \<and> brk < USER_MMAP_ADDR)) (\<lambda>_.
     let old_brk = mt_brk task; set_brk = smodify (\<lambda>s. s\<lparr>cur := (cur s)\<lparr>mt_brk := brk\<rparr>\<rparr>)
     in if old_brk > brk then
          sbind (\<lambda>s. rbind (run_loop (unlink_range brk old_brk s)) (\<lambda>s. Inr ((), s))) (\<lambda>_.
          sbind set_brk (\<lambda>_. sret 0))
        else
          sbind (sget free_pages) (\<lambda>fp.
          if IDX (brk - old_brk) > fp then sret (-1)
          else sbind set_brk (\<lambda>_. sret 0))))))"

definition free_table :: "nat \<Rightarrow> (mm, unit) op" where
  "free_table didx =
     (let dea = get_pde + 4 * of_nat didx; pte = PDE_MASK OR push_bit 12 (of_nat didx)
      in sbind (vread dea) (\<lambda>dentry.
         if \<not> pe_present dentry then sret ()
         else
           sbind (sforeach [0..<1024] (\<lambda>tidx.
             sbind (vread (pte + 4 * of_nat tidx)) (\<lambda>entry.
             if \<not> pe_present entry then sret ()
             else sbind (map_get (pe_index entry)) (\<lambda>c.
                  sbind (sensure (c > 0)) (\<lambda>_. put_page (PAGE (pe_index entry))))))) (\<lambda>_.
           put_page (PAGE (pe_index dentry)))))"

definition free_pde :: "(mm, unit) op" where
  "free_pde =
     sbind (sget cur) (\<lambda>task.
     sbind (sensure (mt_uid task \<noteq> 0)) (\<lambda>_.
     sbind (sforeach [4..<1023] free_table) (\<lambda>_.
     free_kpage (mt_pde task) 1)))"

definition set_vmap :: "bitmap \<Rightarrow> mm \<Rightarrow> mm" where
  "set_vmap bm s = s\<lparr>cur := (cur s)\<lparr>mt_vmap := bm\<rparr>\<rparr>"

definition vmap_set :: "u32 \<Rightarrow> bool \<Rightarrow> (mm, unit) op" where
  "vmap_set index v =
     (\<lambda>s. rbind (bitmap_set (mt_vmap (cur s)) index v) (\<lambda>bm. Inr ((), set_vmap bm s)))"

text \<open>The protection bits of a mapped page; \<open>prot\<close> bit 1 is \<open>PROT_WRITE\<close>, the flags are
\<open>MAP_SHARED\<close> and \<open>MAP_PRIVATE\<close>.\<close>

definition map_entry :: "u32 \<Rightarrow> u32 \<Rightarrow> page_entry \<Rightarrow> page_entry" where
  "map_entry prot flags e =
     (let e = pe_put 11 True (pe_put 1 False (pe_put 2 True e));
          e = (if bit prot 1 then pe_put 11 False (pe_put 1 True e) else e);
          e = (if bit flags 0 then pe_put 9 True e else e)
      in if bit flags 1 then pe_put 10 True e else e)"

definition map_one_page :: "u32 \<Rightarrow> u32 \<Rightarrow> u32 \<Rightarrow> (mm, unit) op" where
  "map_one_page prot flags page =
     sbind (link_page page) (\<lambda>_.
     sbind (vmap_set (IDX page) True) (\<lambda>_.
     sbind (get_entry page False) (\<lambda>ea.
     sbind (vread ea) (\<lambda>entry. vwrite ea (map_entry prot flags entry)))))"

text \<open>
  The last step of \<open>mmap\<close> reads the file into the mapped area; \<open>load_file fd offset vaddr length\<close> is
  \<open>lseek\<close> and \<open>read\<close> of the file system, which work on their own state.
\<close>

definition sys_mmap :: "(u32 \<Rightarrow> u32 \<Rightarrow> u32 \<Rightarrow> u32 \<Rightarrow> (mm, unit) op) \<Rightarrow>
    u32 \<Rightarrow> u32 \<Rightarrow> u32 \<Rightarrow> u32 \<Rightarrow> u32 \<Rightarrow> u32 \<Rightarrow> (mm, u32) op" where
  "sys_mmap load_file addr len prot flags fd offset =
     sbind (sensure (page_aligned addr)) (\<lambda>_.
     sbind (slift (div_round_up len PAGE_SIZE)) (\<lambda>count.
     sbind (if addr = 0 then
              (\<lambda>s. rbind (scan_page (mt_vmap (cur s)) count) (\<lambda>(a, bm). Inr (a, set_vmap bm s)))
            else sret addr) (\<lambda>vaddr.
     sbind (sensure (USER_MMAP_ADDR \<le> vaddr \<and> vaddr < USER_STACK_BOTTOM)) (\<lambda>_.
     sbind (sforeach [0..<unat count] (\<lambda>i. map_one_page prot flags (vaddr + PAGE_SIZE * of_nat i))) (\<lambda>_.
     sbind (if fd \<noteq> EOF32 then load_file fd offset vaddr len else sret ()) (\<lambda>_.
     sret vaddr))))))"

definition unmap_one_page :: "u32 \<Rightarrow> (mm, unit) op" where
  "unmap_one_page page =
     sbind (unlink_page page) (\<lambda>_.
     sbind (\<lambda>s. rbind (bitmap_test (mt_vmap (cur s)) (IDX page)) (\<lambda>b. Inr (b, s))) (\<lambda>used.
     sbind (sensure used) (\<lambda>_.
     vmap_set (IDX page) False)))"

definition sys_munmap :: "u32 \<Rightarrow> u32 \<Rightarrow> (mm, u32) op" where
  "sys_munmap addr len =
     sbind (sensure (USER_MMAP_ADDR \<le> addr \<and> addr < USER_STACK_BOTTOM)) (\<lambda>_.
     sbind (sensure (page_aligned addr)) (\<lambda>_.
     sbind (slift (div_round_up len PAGE_SIZE)) (\<lambda>count.
     sbind (sforeach [0..<unat count] (\<lambda>i. unmap_one_page (addr + PAGE_SIZE * of_nat i))) (\<lambda>_.
     sret 0))))"

subsection \<open>The recursive mapping\<close>

text \<open>Cell \<open>i\<close> of frame \<open>f\<close>.\<close>

definition slot :: "u32 \<Rightarrow> u32 \<Rightarrow> u32" where
  "slot f i = PAGE f + 4 * i"

lemma unat_mult4: "unat (i :: u32) < 1024 \<Longrightarrow> unat (4 * i) = 4 * unat i"
  by (simp add: unat_word_ariths)

lemma slot_eq:
  assumes "unat f < 2 ^ 20" "unat g < 2 ^ 20" "unat i < 1024" "unat j < 1024"
  shows "slot f i = slot g j \<longleftrightarrow> f = g \<and> i = j"
proof -
  have "4 * i = 4 * j \<longleftrightarrow> i = j"
    using assms(3,4) by (simp add: u32_eq_iff unat_mult4)
  then show ?thesis
    using PAGE_off_eq [OF assms(1,2), of "4 * i" "4 * j"] assms(3,4) by (simp add: slot_def unat_mult4)
qed

lemma IDX_slot: "unat f < 2 ^ 20 \<Longrightarrow> unat i < 1024 \<Longrightarrow> IDX (slot f i) = f"
  using unat_PAGE_off [of f "4 * i"]
  by (simp add: u32_eq_iff unat_IDX slot_def unat_mult4)

lemma entry_at_slot: "entry_at s table i = ram s (slot (IDX table) i)"
  by (simp add: entry_at_def slot_def)

lemma DIDX_less: "unat (DIDX a) < 1024"
  using unat_less_32 [of a] by (simp add: unat_DIDX)

lemma TIDX_less: "unat (TIDX a) < 1024"
  by (simp add: unat_TIDX)

text \<open>The entry of the page directory for a slot, and the entry that maps an address.\<close>

definition dir_entry :: "mm \<Rightarrow> u32 \<Rightarrow> page_entry" where
  "dir_entry s i = ram s (slot (IDX (cr3 s)) i)"

definition table_entry :: "mm \<Rightarrow> u32 \<Rightarrow> u32 \<Rightarrow> page_entry" where
  "table_entry s d t = ram s (slot (pe_index (dir_entry s d)) t)"

lemma IDX_pe_index: "IDX e = pe_index e"
  by (simp add: IDX_def pe_index_def)

lemma translate_alt:
  "translate s va =
     (if \<not> pe_present (dir_entry s (DIDX va)) then None
      else if \<not> pe_present (table_entry s (DIDX va) (TIDX va)) then None
      else Some (PAGE (pe_index (table_entry s (DIDX va) (TIDX va))) + (va AND 0xfff)))"
  by (simp add: translate_def Let_def entry_at_slot dir_entry_def table_entry_def IDX_pe_index)

text \<open>
  The shape of the tables: the last slot of the directory points to the directory, and no two slots
  point to the same frame.
\<close>

definition paging_ok :: "mm \<Rightarrow> bool" where
  "paging_ok s \<longleftrightarrow> page_aligned (cr3 s) \<and> pe_present (dir_entry s 1023) \<and>
     pe_index (dir_entry s 1023) = IDX (cr3 s) \<and>
     (\<forall>i j. unat i < 1024 \<and> unat j < 1024 \<and> pe_present (dir_entry s i) \<and> pe_present (dir_entry s j) \<and>
        pe_index (dir_entry s i) = pe_index (dir_entry s j) \<longrightarrow> i = j)"

lemma IDX_less: "unat (IDX a) < 2 ^ 20"
  by (rule unat_IDX_less)

lemma dir_va:
  assumes "unat i < 1024"
  shows "DIDX (get_pde + 4 * i) = 1023" "TIDX (get_pde + 4 * i) = 1023"
    "(get_pde + 4 * i) AND 0xfff = 4 * i"
proof -
  have u: "unat (get_pde + 4 * i) = 0xfffff000 + 4 * unat i"
    using assms by (subst unat_add_32) (simp_all add: get_pde_def unat_mult4)
  have "unat (get_pde + 4 * i) div 4194304 = 1023"
    using nat_div_mod_eq [of "unat (get_pde + 4 * i)" 1023 4194304 "4190208 + 4 * unat i"] u assms by simp
  moreover have "unat (get_pde + 4 * i) div 4096 = 1048575 \<and> unat (get_pde + 4 * i) mod 4096 = 4 * unat i"
    using u assms by (intro nat_div_mod_eq) simp_all
  ultimately show "DIDX (get_pde + 4 * i) = 1023" "TIDX (get_pde + 4 * i) = 1023"
    "(get_pde + 4 * i) AND 0xfff = 4 * i"
    using assms by (simp_all add: u32_eq_iff unat_DIDX unat_TIDX unat_off unat_mult4)
qed

lemma translate_dir:
  assumes "paging_ok s" "unat i < 1024"
  shows "translate s (get_pde + 4 * i) = Some (slot (IDX (cr3 s)) i)"
proof -
  have "table_entry s 1023 1023 = dir_entry s 1023"
    using assms(1) by (simp add: table_entry_def paging_ok_def dir_entry_def)
  with assms(1) show ?thesis
    unfolding translate_alt dir_va [OF assms(2)] by (simp add: paging_ok_def slot_def)
qed

definition table_va :: "u32 \<Rightarrow> u32" where
  "table_va d = PDE_MASK OR push_bit 12 d"

lemma table_va_add: "unat d < 1024 \<Longrightarrow> table_va d = PDE_MASK + PAGE d"
proof -
  assume "unat d < 1024"
  then have d: "d = take_bit 10 d" by (simp add: u32_eq_iff unsigned_take_bit_eq take_bit_nat_eq_self)
  have pm: "PDE_MASK = NOT (mask 22)" by (simp add: PDE_MASK_def mask_eq_exp_minus_1)
  have "PDE_MASK AND push_bit 12 (take_bit 10 d) = 0"
    unfolding pm by (rule bit_word_eqI) (auto simp: bit_simps)
  then have "PDE_MASK + push_bit 12 d = PDE_MASK OR push_bit 12 d"
    using d by (intro disjunctive_add_eq_or) metis
  then show ?thesis by (simp add: table_va_def PAGE_def)
qed

lemma table_va_parts:
  assumes "unat d < 1024" "unat t < 1024"
  shows "DIDX (table_va d + 4 * t) = 1023" "TIDX (table_va d + 4 * t) = d"
    "(table_va d + 4 * t) AND 0xfff = 4 * t" "page_aligned (table_va d)"
proof -
  have u0: "unat (table_va d) = 0xFFC00000 + unat d * 4096"
    using assms(1) by (subst table_va_add) (simp_all add: unat_add_32 unat_PAGE PDE_MASK_def)
  then have u: "unat (table_va d + 4 * t) = 0xFFC00000 + unat d * 4096 + 4 * unat t"
    using assms by (subst unat_add_32) (simp_all add: unat_mult4)
  have "unat (table_va d + 4 * t) div 4194304 = 1023"
    using nat_div_mod_eq [of "unat (table_va d + 4 * t)" 1023 4194304 "unat d * 4096 + 4 * unat t"] u assms
    by simp
  moreover have "unat (table_va d + 4 * t) div 4096 = 1047552 + unat d \<and>
      unat (table_va d + 4 * t) mod 4096 = 4 * unat t"
    using u assms by (intro nat_div_mod_eq) simp_all
  moreover have "unat (table_va d) mod 4096 = 0"
    using nat_div_mod_eq [of "unat (table_va d)" "1047552 + unat d" 4096 0] u0 by simp
  moreover have "(1047552 + unat d) mod 1024 = unat d" 
    using nat_div_mod_eq [of "1047552 + unat d" 1023 1024 "unat d"] assms by simp
  ultimately show "DIDX (table_va d + 4 * t) = 1023" "TIDX (table_va d + 4 * t) = d"
    "(table_va d + 4 * t) AND 0xfff = 4 * t" "page_aligned (table_va d)"
    using assms by (simp_all add: u32_eq_iff unat_DIDX unat_TIDX unat_off unat_mult4 page_aligned_unat)
qed

lemma translate_table:
  assumes "paging_ok s" "unat d < 1024" "unat t < 1024" "pe_present (dir_entry s d)"
  shows "translate s (table_va d + 4 * t) = Some (slot (pe_index (dir_entry s d)) t)"
proof -
  have "table_entry s 1023 d = dir_entry s d"
    using assms(1) by (simp add: table_entry_def paging_ok_def dir_entry_def)
  with assms(1,4) show ?thesis
    unfolding translate_alt table_va_parts [OF assms(2,3)] by (simp add: paging_ok_def slot_def)
qed

subsection \<open>Filling a frame\<close>

lemma sforeach_append:
  "sforeach (xs @ ys) f s = rbind (sforeach xs f s) (\<lambda>(_, s). sforeach ys f s)"
  by (induction xs arbitrary: s) (auto simp: rbind_assoc case_prod_beta intro!: rbind_cong)

definition fill_frame :: "u32 \<Rightarrow> (nat \<Rightarrow> u32) \<Rightarrow> nat \<Rightarrow> (u32 \<Rightarrow> u32) \<Rightarrow> u32 \<Rightarrow> u32" where
  "fill_frame f h n r = foldl (\<lambda>r i. r(slot f (of_nat i) := h i)) r [0..<n]"

lemma fill_frame_Suc: "fill_frame f h (Suc n) r = (fill_frame f h n r)(slot f (of_nat n) := h n)"
  by (simp add: fill_frame_def)

lemma unat_of_nat_1024: "i < 1024 \<Longrightarrow> unat (of_nat i :: u32) = i"
  by (rule unat_of_nat_32) simp

lemma fill_frame_out:
  assumes "unat f < 2 ^ 20" "n \<le> 1024" "IDX a \<noteq> f"
  shows "fill_frame f h n r a = r a"
  using assms(2)
proof (induction n)
  case (Suc n)
  then have "IDX (slot f (of_nat n)) = f" using assms(1) by (simp add: IDX_slot unat_of_nat_1024)
  with assms(3) Suc show ?case by (auto simp: fill_frame_Suc)
qed (simp add: fill_frame_def)

lemma fill_frame_in:
  assumes "unat f < 2 ^ 20" "n \<le> 1024" "i < n"
  shows "fill_frame f h n r (slot f (of_nat i)) = h i"
  using assms(2,3)
proof (induction n)
  case (Suc n)
  then have "slot f (of_nat i) = slot f (of_nat n) \<longleftrightarrow> i = n"
    using assms(1) by (subst slot_eq) (auto simp: unat_of_nat_1024 u32_eq_iff)
  with Suc show ?case by (auto simp: fill_frame_Suc)
qed simp

text \<open>
  A loop that writes cell after cell of a frame: each step may assume that the memory outside the
  frame is as it was.
\<close>

lemma frame_loop:
  assumes f: "unat f < 2 ^ 20" and n: "n \<le> 1024"
    and step: "\<And>r i. i < 1024 \<Longrightarrow> (\<And>a. IDX a \<noteq> f \<Longrightarrow> r a = ram s a) \<Longrightarrow>
      body i (s\<lparr>ram := r\<rparr>) = Inr ((), s\<lparr>ram := r(slot f (of_nat i) := h i)\<rparr>)"
  shows "sforeach [0..<n] body s = Inr ((), s\<lparr>ram := fill_frame f h n (ram s)\<rparr>)"
  using n
proof (induction n)
  case 0
  then show ?case by (simp add: fill_frame_def)
next
  case (Suc n)
  have "[0..<Suc n] = [0..<n] @ [n]" by simp
  moreover have "body n (s\<lparr>ram := fill_frame f h n (ram s)\<rparr>) =
      Inr ((), s\<lparr>ram := (fill_frame f h n (ram s))(slot f (of_nat n) := h n)\<rparr>)"
    using Suc.prems f by (intro step) (auto simp: fill_frame_out)
  ultimately show ?case using Suc by (simp add: sforeach_append fill_frame_Suc fun_upd_def del: upt_Suc)
qed

text \<open>Changes outside the page tables do not change the translation.\<close>

definition table_frames :: "mm \<Rightarrow> u32 set" where
  "table_frames s = insert (IDX (cr3 s)) {pe_index (dir_entry s i) | i. unat i < 1024 \<and> pe_present (dir_entry s i)}"

lemma dir_entry_ram:
  assumes "\<And>a. IDX a \<noteq> f \<Longrightarrow> r a = ram s a" "f \<noteq> IDX (cr3 s)" "unat i < 1024"
  shows "dir_entry (s\<lparr>ram := r\<rparr>) i = dir_entry s i"
proof -
  have "IDX (slot (IDX (cr3 s)) i) \<noteq> f" using assms(2,3) by (simp add: IDX_slot [OF IDX_less])
  from assms(1) [OF this] show ?thesis by (simp add: dir_entry_def)
qed

lemma table_entry_ram:
  assumes "\<And>a. IDX a \<noteq> f \<Longrightarrow> r a = ram s a" "f \<notin> table_frames s" "unat d < 1024" "unat t < 1024"
    "pe_present (dir_entry s d)"
  shows "table_entry (s\<lparr>ram := r\<rparr>) d t = table_entry s d t"
proof -
  have "dir_entry (s\<lparr>ram := r\<rparr>) d = dir_entry s d"
    using assms(1-3) by (intro dir_entry_ram) (auto simp: table_frames_def)
  moreover have "f \<noteq> pe_index (dir_entry s d)" using assms(2,3,5) by (auto simp: table_frames_def)
  then have "IDX (slot (pe_index (dir_entry s d)) t) \<noteq> f"
    using assms(4) by (simp add: IDX_slot [OF pe_index_less])
  from assms(1) [OF this] show ?thesis using \<open>dir_entry (s\<lparr>ram := r\<rparr>) d = dir_entry s d\<close>
    by (simp add: table_entry_def)
qed

lemma translate_ram:
  assumes "\<And>a. IDX a \<noteq> f \<Longrightarrow> r a = ram s a" "f \<notin> table_frames s"
  shows "translate (s\<lparr>ram := r\<rparr>) va = translate s va"
proof -
  have "dir_entry (s\<lparr>ram := r\<rparr>) (DIDX va) = dir_entry s (DIDX va)"
    using assms by (intro dir_entry_ram) (auto simp: table_frames_def DIDX_less)
  moreover have "pe_present (dir_entry s (DIDX va)) \<Longrightarrow>
      table_entry (s\<lparr>ram := r\<rparr>) (DIDX va) (TIDX va) = table_entry s (DIDX va) (TIDX va)"
    using assms by (intro table_entry_ram) (auto simp: DIDX_less TIDX_less)
  ultimately show ?thesis by (simp add: translate_alt)
qed

lemma paging_ok_ram:
  assumes "paging_ok s" "\<And>a. IDX a \<noteq> f \<Longrightarrow> r a = ram s a" "f \<noteq> IDX (cr3 s)"
  shows "paging_ok (s\<lparr>ram := r\<rparr>)"
proof -
  have "dir_entry (s\<lparr>ram := r\<rparr>) i = dir_entry s i" if "unat i < 1024" for i
    using dir_entry_ram [OF assms(2,3) that] .
  note same = this
  have "dir_entry (s\<lparr>ram := r\<rparr>) 1023 = dir_entry s 1023" by (rule same) simp
  with assms(1) same show ?thesis unfolding paging_ok_def by auto
qed

subsection \<open>Linking a page\<close>

lemma tables_irrelevant [simp]:
  "dir_entry (s\<lparr>memory_map := m\<rparr>) i = dir_entry s i" "dir_entry (s\<lparr>free_pages := n\<rparr>) i = dir_entry s i"
  "table_entry (s\<lparr>memory_map := m\<rparr>) i j = table_entry s i j" "table_entry (s\<lparr>free_pages := n\<rparr>) i j = table_entry s i j"
  "translate (s\<lparr>memory_map := m\<rparr>) a = translate s a" "translate (s\<lparr>free_pages := n\<rparr>) a = translate s a"
  "table_frames (s\<lparr>memory_map := m\<rparr>) = table_frames s" "table_frames (s\<lparr>free_pages := n\<rparr>) = table_frames s"
  "paging_ok (s\<lparr>memory_map := m\<rparr>) = paging_ok s" "paging_ok (s\<lparr>free_pages := n\<rparr>) = paging_ok s"
  by (simp_all add: dir_entry_def table_entry_def translate_alt table_frames_def paging_ok_def)

lemma frames_irrelevant [simp]:
  "zero_frames (s\<lparr>ram := r\<rparr>) = zero_frames s" "frames_ok (s\<lparr>ram := r\<rparr>) = frames_ok s"
  by (simp_all add: zero_frames_def frames_ok_def)

text \<open>The invariant of the virtual memory: no table lies in a free frame.\<close>

definition vm_ok :: "mm \<Rightarrow> bool" where
  "vm_ok s \<longleftrightarrow> paging_ok s \<and> frames_ok s \<and> (\<forall>f\<in>table_frames s. unat f \<notin> zero_frames s)"

lemma vm_took:
  assumes "vm_ok s" "took_frame s f s'"
  shows "vm_ok s'" "of_nat f \<notin> table_frames s'" "table_frames s' = table_frames s"
    "unat (of_nat f :: u32) < 2 ^ 20" "\<And>va. translate s' va = translate s va"
    "\<And>i. dir_entry s' i = dir_entry s i" "\<And>i j. table_entry s' i j = table_entry s i j"
proof -
  have ok: "frames_ok s" using assms(1) by (simp add: vm_ok_def)
  note T = took_frame_ok [OF ok assms(2)]
  have s': "s' = s\<lparr>memory_map := (memory_map s)[f := 1], free_pages := free_pages s - 1\<rparr>"
    and f: "f \<in> zero_frames s" using assms(2) by (simp_all add: took_frame_def)
  show "table_frames s' = table_frames s" "\<And>va. translate s' va = translate s va"
    "\<And>i. dir_entry s' i = dir_entry s i" "\<And>i j. table_entry s' i j = table_entry s i j"
    by (simp_all add: s')
  moreover have "paging_ok s'" using assms(1) by (simp add: s' vm_ok_def)
  ultimately show "vm_ok s'" using assms(1) T(1,2) by (auto simp: vm_ok_def)
  show "of_nat f \<notin> table_frames s'"
    using assms(1) f T(3) \<open>table_frames s' = table_frames s\<close> by (auto simp: vm_ok_def)
  show "unat (of_nat f :: u32) < 2 ^ 20" using T(3,4) by simp
qed

lemma IDX_split: "IDX a = IDX b \<longleftrightarrow> DIDX a = DIDX b \<and> TIDX a = TIDX b"
proof -
  have "unat (IDX a) = 1024 * unat (DIDX a) + unat (TIDX a)" for a :: u32
    using div_mult2_eq [of "unat a" 4096 1024] by (simp add: unat_IDX unat_DIDX unat_TIDX)
  then show ?thesis
    using TIDX_less [of a] TIDX_less [of b] by (auto simp: u32_eq_iff) (metis nat_div_mod_eq mult.commute)+
qed

lemma table_frames_cong:
  assumes "cr3 s' = cr3 s" "\<And>i. unat i < 1024 \<Longrightarrow> dir_entry s' i = dir_entry s i"
  shows "table_frames s' = table_frames s"
  unfolding table_frames_def assms(1)
  using assms(2) by (intro arg_cong [where f = "insert (IDX (cr3 s))"] Collect_cong ex_cong1) auto

lemma dir_not_table:
  assumes "paging_ok s" "unat d < 1024" "d \<noteq> 1023" "pe_present (dir_entry s d)"
  shows "pe_index (dir_entry s d) \<noteq> IDX (cr3 s)"
proof
  assume "pe_index (dir_entry s d) = IDX (cr3 s)"
  moreover have "unat (1023 :: u32) < 1024" by simp
  ultimately have "d = 1023" using assms unfolding paging_ok_def by metis
  with assms(3) show False by simp
qed

text \<open>Writing one entry of one table.\<close>

lemma table_write:
  fixes v :: page_entry
  assumes "paging_ok s" "unat d < 1024" "d \<noteq> 1023" "unat t < 1024" "pe_present (dir_entry s d)"
  defines "s' \<equiv> s\<lparr>ram := (ram s)(slot (pe_index (dir_entry s d)) t := v)\<rparr>"
  shows "\<And>i. unat i < 1024 \<Longrightarrow> dir_entry s' i = dir_entry s i" "paging_ok s'"
    "table_frames s' = table_frames s"
    "\<And>d' t'. unat d' < 1024 \<Longrightarrow> unat t' < 1024 \<Longrightarrow> pe_present (dir_entry s d') \<Longrightarrow>
       table_entry s' d' t' = (if d' = d \<and> t' = t then v else table_entry s d' t')"
proof -
  let ?T = "pe_index (dir_entry s d)"
  have ne: "?T \<noteq> IDX (cr3 s)" using assms(1,2,3,5) by (rule dir_not_table)
  have out: "((ram s)(slot ?T t := v)) a = ram s a" if "IDX a \<noteq> ?T" for a
    using that assms(4) by (auto simp: IDX_slot [OF pe_index_less])
  show de: "\<And>i. unat i < 1024 \<Longrightarrow> dir_entry s' i = dir_entry s i"
    unfolding s'_def using out ne by (rule dir_entry_ram)
  show "paging_ok s'" unfolding s'_def using assms(1) out ne by (rule paging_ok_ram)
  have "cr3 s' = cr3 s" by (simp add: s'_def)
  then show "table_frames s' = table_frames s" using de by (rule table_frames_cong)
  fix d' t' :: u32 assume d': "unat d' < 1024" "unat t' < 1024" "pe_present (dir_entry s d')"
  have "slot (pe_index (dir_entry s d')) t' = slot ?T t \<longleftrightarrow> d' = d \<and> t' = t"
    using assms(1,2,4,5) d' unfolding paging_ok_def
    by (subst slot_eq [OF pe_index_less pe_index_less]) auto
  then show "table_entry s' d' t' = (if d' = d \<and> t' = t then v else table_entry s d' t')"
    using de [OF d'(1)] by (simp add: table_entry_def) (simp add: s'_def)
qed

lemma get_pte_present:
  assumes "paging_ok s" "pe_present (dir_entry s (DIDX va))"
  shows "get_pte va c s = Inr (table_va (DIDX va), s)"
  using assms by (simp add: get_pte_def Let_def vread_def translate_dir DIDX_less dir_entry_def table_va_def)

lemma read_entry:
  assumes "paging_ok s" "unat d < 1024" "unat t < 1024" "pe_present (dir_entry s d)"
  shows "vread (table_va d + 4 * t) s = Inr (table_entry s d t, s)"
    "vwrite (table_va d + 4 * t) v s = Inr ((), s\<lparr>ram := (ram s)(slot (pe_index (dir_entry s d)) t := v)\<rparr>)"
  using translate_table [OF assms] by (simp_all add: vread_def vwrite_def table_entry_def)

text \<open>What linking an unmapped page has done.\<close>

definition linked :: "mm \<Rightarrow> u32 \<Rightarrow> nat \<Rightarrow> mm \<Rightarrow> bool" where
  "linked s va f s' \<longleftrightarrow> vm_ok s' \<and> f \<in> zero_frames s \<and> memory_map s' ! f = 1 \<and>
     translate s' va = Some (PAGE (of_nat f)) \<and>
     (\<forall>w. DIDX w \<noteq> 1023 \<longrightarrow> IDX w \<noteq> IDX va \<longrightarrow> translate s' w = translate s w)"

lemma link_present:
  assumes vm: "vm_ok s" and al: "page_aligned va" and d: "DIDX va \<noteq> 1023"
    and pd: "pe_present (dir_entry s (DIDX va))" and np: "\<not> pe_present (table_entry s (DIDX va) (TIDX va))"
    and free: "zero_frames s \<noteq> {}"
  shows "\<exists>f s'. link_page va s = Inr ((), s') \<and> linked s va f s'"
proof -
  let ?d = "DIDX va" and ?t = "TIDX va"
  have pg: "paging_ok s" "frames_ok s" using vm by (auto simp: vm_ok_def)
  from get_page_cases [OF pg(2)] free obtain f s1 where
    g: "get_page s = Inr (PAGE (of_nat f), s1)" "took_frame s f s1" by blast
  note V = vm_took [OF vm g(2)]
  have pg1: "paging_ok s1" using V(1) by (simp add: vm_ok_def)
  have pd1: "pe_present (dir_entry s1 ?d)" using pd by (simp add: V(6))
  let ?v = "entry_init (of_nat f)"
  define s2 where "s2 = s1\<lparr>ram := (ram s1)(slot (pe_index (dir_entry s1 ?d)) ?t := ?v)\<rparr>"
  note W = table_write [OF pg1 DIDX_less [of va] d TIDX_less [of va] pd1, where v = ?v, folded s2_def]
  have e: "link_page va s = Inr ((), s2)"
    using al np pd g(1) V(4)
    by (simp add: link_page_def get_entry_def get_pte_present [OF pg(1)] read_entry(1) [OF pg(1) DIDX_less TIDX_less]
        read_entry(2) [OF pg1 DIDX_less TIDX_less pd1] IDX_PAGE s2_def)
  have "vm_ok s2" using V(1) W(2,3) by (simp add: vm_ok_def s2_def)
  moreover have "translate s2 va = Some (PAGE (of_nat f))"
    using pd1 W(1) [OF DIDX_less [of va]] W(4) [OF DIDX_less [of va] TIDX_less [of va]] al V(4)
    by (simp add: translate_alt pe_entry_init page_aligned_def)
  moreover have "translate s2 w = translate s w" if "IDX w \<noteq> IDX va" for w
    using that W(1) [OF DIDX_less [of w]] W(4) [OF DIDX_less [of w] TIDX_less [of w]] V(6,7)
    by (auto simp: translate_alt IDX_split)
  moreover have "f \<in> zero_frames s" "memory_map s2 ! f = 1"
    using g(2) zero_frames_less [OF pg(2)] by (auto simp: took_frame_def s2_def)
  ultimately show ?thesis using e by (auto simp: linked_def)
qed

text \<open>Creating a missing table: an empty one appears, nothing else changes.\<close>

lemma get_pte_creates:
  assumes vm: "vm_ok s" and d: "unat d < 1024" "d \<noteq> 1023" "DIDX va = d"
    and np: "\<not> pe_present (dir_entry s d)" and free: "zero_frames s \<noteq> {}"
  shows "\<exists>g s'. get_pte va True s = Inr (table_va d, s') \<and> g \<in> zero_frames s \<and>
    zero_frames s' = zero_frames s - {g} \<and> vm_ok s' \<and> pe_present (dir_entry s' d) \<and>
    memory_map s' = (memory_map s)[g := 1] \<and>
    (\<forall>t. unat t < 1024 \<longrightarrow> \<not> pe_present (table_entry s' d t)) \<and>
    (\<forall>w. DIDX w \<noteq> 1023 \<longrightarrow> translate s' w = translate s w)"
proof -
  have pg: "paging_ok s" "frames_ok s" using vm by (auto simp: vm_ok_def)
  from get_page_cases [OF pg(2)] free obtain g s1 where
    g: "get_page s = Inr (PAGE (of_nat g), s1)" "took_frame s g s1" by blast
  note V = vm_took [OF vm g(2)]
  let ?g = "of_nat g :: u32"
  have pg1: "paging_ok s1" using V(1) by (simp add: vm_ok_def)
  let ?D = "IDX (cr3 s1)"
  define s2 where "s2 = s1\<lparr>ram := (ram s1)(slot ?D d := entry_init ?g)\<rparr>"
  have de2: "dir_entry s2 i = (if i = d then entry_init ?g else dir_entry s i)" if "unat i < 1024" for i
    using that d(1) V(6) [of i] by (simp add: s2_def dir_entry_def slot_eq [OF IDX_less IDX_less])
  have gD: "?g \<noteq> ?D" using V(2) by (auto simp: table_frames_def)
  have gidx: "pe_index (entry_init ?g) = ?g" using V(4) by (rule pe_entry_init)
  have gT: "pe_index (dir_entry s i) \<noteq> ?g" if "unat i < 1024" "pe_present (dir_entry s i)" for i
    using that V(2) by (auto simp: table_frames_def V(6))
  have u1023: "unat (1023 :: u32) < 1024" by simp
  have "pe_index (dir_entry s 1023) = ?D" "pe_present (dir_entry s 1023)"
    using pg(1) g(2) by (auto simp: paging_ok_def took_frame_def)
  then have pg2: "paging_ok s2"
    unfolding paging_ok_def
  proof (intro conjI allI impI)
    show "page_aligned (cr3 s2)" using pg1 by (simp add: s2_def paging_ok_def)
    show "pe_present (dir_entry s2 1023)" "pe_index (dir_entry s2 1023) = IDX (cr3 s2)"
      using d(2) de2 [OF u1023] \<open>pe_index (dir_entry s 1023) = ?D\<close> \<open>pe_present (dir_entry s 1023)\<close>
      by (simp_all add: s2_def)
    fix i j assume ij: "unat i < 1024 \<and> unat j < 1024 \<and> pe_present (dir_entry s2 i) \<and>
      pe_present (dir_entry s2 j) \<and> pe_index (dir_entry s2 i) = pe_index (dir_entry s2 j)"
    then have I: "unat i < 1024" "pe_present (dir_entry s2 i)" and J: "unat j < 1024" "pe_present (dir_entry s2 j)"
      and eq: "pe_index (dir_entry s2 i) = pe_index (dir_entry s2 j)" by auto
    have inj: "i = j" if "pe_present (dir_entry s i)" "pe_present (dir_entry s j)"
        "pe_index (dir_entry s i) = pe_index (dir_entry s j)"
      using pg(1) I(1) J(1) that unfolding paging_ok_def by blast
    show "i = j"
    proof (cases "i = d")
      case True
      then have "pe_index (dir_entry s2 j) = ?g" using eq de2 [OF I(1)] gidx by simp
      then show ?thesis using True J de2 [OF J(1)] gT [OF J(1)] by (auto split: if_splits)
    next
      case False
      then have i2: "dir_entry s2 i = dir_entry s i" using de2 [OF I(1)] by simp
      show ?thesis
      proof (cases "j = d")
        case True
        then have "pe_index (dir_entry s i) = ?g" using eq i2 de2 [OF J(1)] gidx by simp
        then show ?thesis using I gT [OF I(1)] i2 by simp
      next
        case False
        then have "dir_entry s2 j = dir_entry s j" using de2 [OF J(1)] by simp
        then show ?thesis using inj I J eq i2 by simp
      qed
    qed
  qed
  have tf: "table_frames s2 \<subseteq> insert ?g (table_frames s)"
  proof
    fix x assume "x \<in> table_frames s2"
    then consider "x = IDX (cr3 s2)" | i where "unat i < 1024" "pe_present (dir_entry s2 i)" "x = pe_index (dir_entry s2 i)"
      by (auto simp: table_frames_def)
    then show "x \<in> insert ?g (table_frames s)"
    proof cases
      case 1
      then show ?thesis using g(2) by (simp add: table_frames_def s2_def took_frame_def)
    next
      case 2
      then show ?thesis using de2 [OF 2(1)] gidx by (auto simp: table_frames_def split: if_splits)
    qed
  qed
  define s3 where "s3 = s2\<lparr>ram := fill_frame ?g (\<lambda>_. 0) 1024 (ram s2)\<rparr>"
  have out: "fill_frame ?g (\<lambda>_. 0) 1024 (ram s2) a = ram s2 a" if "IDX a \<noteq> ?g" for a
    using V(4) that by (intro fill_frame_out) simp_all
  have gD2: "?g \<noteq> IDX (cr3 s2)" using gD by (simp add: s2_def)
  have de3: "dir_entry s3 i = dir_entry s2 i" if "unat i < 1024" for i
    unfolding s3_def using out gD2 that by (rule dir_entry_ram)
  have pg3: "paging_ok s3" unfolding s3_def using pg2 out gD2 by (rule paging_ok_ram)
  have z: "vzero (table_va d) s2 = Inr ((), s3)"
    unfolding vzero_def s3_def
  proof (rule frame_loop)
    fix r :: "u32 \<Rightarrow> u32" and i :: nat
    assume i: "i < 1024" and r: "\<And>a. IDX a \<noteq> ?g \<Longrightarrow> r a = ram s2 a"
    have "paging_ok (s2\<lparr>ram := r\<rparr>)" using pg2 r gD2 by (rule paging_ok_ram)
    moreover have dr: "dir_entry (s2\<lparr>ram := r\<rparr>) d = entry_init ?g"
      using dir_entry_ram [OF r gD2 d(1)] de2 [OF d(1)] by simp
    ultimately show "vwrite (table_va d + 4 * word_of_nat i) 0 (s2\<lparr>ram := r\<rparr>) =
        Inr ((), s2\<lparr>ram := r(slot ?g (word_of_nat i) := 0)\<rparr>)"
      using read_entry(2) [of "s2\<lparr>ram := r\<rparr>" d "of_nat i" 0] d(1) i gidx
      by (simp add: unat_of_nat_1024 pe_entry_init)
  qed (use V(4) in simp_all)
  have te3: "table_entry s3 d t = 0" if "unat t < 1024" for t
    using fill_frame_in [OF V(4), of 1024 "unat t" "\<lambda>_. 0" "ram s2"] that de3 [OF d(1)] de2 [OF d(1)] gidx
    by (simp add: table_entry_def) (simp add: s3_def)
  have te3': "table_entry s3 i t = table_entry s i t"
    if "unat i < 1024" "unat t < 1024" "i \<noteq> d" "i \<noteq> 1023" "pe_present (dir_entry s i)" for i t
  proof -
    have "dir_entry s3 i = dir_entry s i" using that de3 [OF that(1)] de2 [OF that(1)] by simp
    moreover have "IDX (slot (pe_index (dir_entry s i)) t) \<noteq> ?g"
      using gT [OF that(1,5)] that(2) by (simp add: IDX_slot [OF pe_index_less])
    moreover have "slot (pe_index (dir_entry s i)) t \<noteq> slot ?D d"
      using dir_not_table [OF pg(1) that(1,4,5)] that(2) d(1) g(2)
      by (simp add: slot_eq [OF pe_index_less IDX_less] took_frame_def)
    ultimately show ?thesis
      using out by (simp add: table_entry_def) (simp add: s3_def s2_def g(2) [unfolded took_frame_def])
  qed
  have "translate s3 w = translate s w" if "DIDX w \<noteq> 1023" for w
  proof (cases "DIDX w = d")
    case True
    then show ?thesis using te3 [OF TIDX_less [of w]] np
      by (simp add: translate_alt pe_present_def)
  next
    case False
    have "dir_entry s3 (DIDX w) = dir_entry s (DIDX w)"
      using False de3 [OF DIDX_less] de2 [OF DIDX_less] by simp
    with False that te3' [OF DIDX_less TIDX_less] show ?thesis by (auto simp: translate_alt)
  qed
  moreover have "get_pte va True s = Inr (table_va d, s3)"
  proof -
    have "vwrite (get_pde + 4 * d) (entry_init ?g) s1 = Inr ((), s2)"
      using translate_dir [OF pg1 d(1)] by (simp add: vwrite_def s2_def)
    moreover have "vread (get_pde + 4 * d) s = Inr (dir_entry s d, s)"
      using translate_dir [OF pg(1) d(1)] by (simp add: vread_def dir_entry_def)
    ultimately show ?thesis
      using np g(1) z V(4) by (simp add: get_pte_def Let_def d(3) table_va_def IDX_PAGE)
  qed
  moreover have "vm_ok s3"
  proof -
    have "table_frames s3 = table_frames s2"
      using de3 by (intro table_frames_cong) (auto simp: s3_def)
    moreover have "frames_ok s3" using V(1) by (simp add: s3_def s2_def vm_ok_def)
    moreover have "zero_frames s3 = zero_frames s - {g}"
      using took_frame_ok(2) [OF pg(2) g(2)] by (simp add: s3_def s2_def)
    moreover have "unat ?g = g" using took_frame_ok(3) [OF pg(2) g(2)] .
    ultimately show ?thesis using pg3 tf vm by (auto simp: vm_ok_def)
  qed
  moreover have "zero_frames s3 = zero_frames s - {g}" "g \<in> zero_frames s" "memory_map s3 = (memory_map s)[g := 1]"
    using took_frame_ok(2) [OF pg(2) g(2)] g(2) by (simp_all add: s3_def s2_def took_frame_def)
  moreover have "pe_present (dir_entry s3 d)" using de3 [OF d(1)] de2 [OF d(1)] by (simp add: pe_entry_init)
  moreover have "\<not> pe_present (table_entry s3 d t)" if "unat t < 1024" for t
    using te3 [OF that] by (simp add: pe_present_def)
  ultimately show ?thesis by blast
qed

text \<open>The frames that linking a page takes: one for the page, and one for the table when it is missing.\<close>

definition frames_needed :: "mm \<Rightarrow> u32 \<Rightarrow> nat" where
  "frames_needed s va = (if pe_present (dir_entry s (DIDX va)) then 1 else 2)"

lemma link_page_linked:
  assumes vm: "vm_ok s" and al: "page_aligned va" and d: "DIDX va \<noteq> 1023"
    and none: "translate s va = None" and free: "frames_needed s va \<le> card (zero_frames s)"
  shows "\<exists>f s'. link_page va s = Inr ((), s') \<and> linked s va f s'"
proof -
  have ne: "zero_frames s \<noteq> {}" using free by (auto simp: frames_needed_def split: if_splits)
  show ?thesis
  proof (cases "pe_present (dir_entry s (DIDX va))")
    case True
    then show ?thesis
      using none by (intro link_present [OF vm al d True _ ne]) (auto simp: translate_alt split: if_splits)
  next
    case False
    from get_pte_creates [OF vm DIDX_less [of va] d refl False ne] obtain g s1 where
      g: "get_pte va True s = Inr (table_va (DIDX va), s1)" "g \<in> zero_frames s"
        "zero_frames s1 = zero_frames s - {g}" "vm_ok s1" "pe_present (dir_entry s1 (DIDX va))"
        "\<forall>t. unat t < 1024 \<longrightarrow> \<not> pe_present (table_entry s1 (DIDX va) t)"
        "\<forall>w. DIDX w \<noteq> 1023 \<longrightarrow> translate s1 w = translate s w"
      by blast
    have free: "2 \<le> card (zero_frames s)" using free False by (simp add: frames_needed_def)
    have "zero_frames s1 \<noteq> {}"
      using free g(2,3) by (metis card_Diff_singleton card.empty diff_is_0_eq le_trans not_numeral_le_zero
          finite_zero_frames numeral_le_one_iff semiring_norm(69) nat_le_linear)
    from link_present [OF g(4) al d g(5) _ this] g(6) TIDX_less obtain f s2 where
      f: "link_page va s1 = Inr ((), s2)" "linked s1 va f s2" by blast
    have "link_page va s = link_page va s1"
      using g(1,4,5) by (simp add: link_page_def get_entry_def vm_ok_def get_pte_present)
    moreover have "linked s va f s2"
      using f(2) g(3,7) by (simp add: linked_def)
    ultimately show ?thesis using f(1) by auto
  qed
qed

subsection \<open>Copying a page and copy on write\<close>

text \<open>The memory after \<open>copy_page\<close>: frame \<open>f\<close> holds what frame \<open>g\<close> holds, \<open>hole\<close> is the entry of address 0.\<close>

definition copied :: "mm \<Rightarrow> nat \<Rightarrow> u32 \<Rightarrow> mm \<Rightarrow> bool" where
  "copied s f g s' \<longleftrightarrow> f \<in> zero_frames s \<and> vm_ok s' \<and> zero_frames s' = zero_frames s - {f} \<and>
     memory_map s' = (memory_map s)[f := 1] \<and> cr3 s' = cr3 s \<and>
     start_page s' = start_page s \<and> total_pages s' = total_pages s \<and>
     (\<forall>i. unat i < 1024 \<longrightarrow> ram s' (slot (of_nat f) i) = ram s (slot g i)) \<and>
     (\<forall>a. IDX a \<noteq> of_nat f \<longrightarrow> a \<noteq> slot (pe_index (dir_entry s 0)) 0 \<longrightarrow> ram s' a = ram s a)"

lemma translate_page:
  assumes "translate s page = Some (PAGE g)" "page_aligned page" "unat i < 1024"
  shows "translate s (page + 4 * i) = Some (slot g i)"
proof -
  define k where "k = unat (IDX page)"
  have k: "unat page = k * 4096" "k < 2 ^ 20"
    using PAGE_IDX [OF assms(2)] unat_PAGE [OF unat_IDX_less, of page] unat_IDX_less [of page]
    by (simp_all add: k_def)
  then have u: "unat (page + 4 * i) = k * 4096 + 4 * unat i"
    using assms(3) by (subst unat_add_32) (simp_all add: unat_mult4)
  then have i: "IDX (page + 4 * i) = IDX page" "(page + 4 * i) AND 0xfff = 4 * i"
    using assms(3) k nat_div_mod_eq [of "unat (page + 4 * i)" k 4096 "4 * unat i"]
    by (simp_all add: u32_eq_iff unat_IDX unat_off unat_mult4)
  from i(1) have "DIDX (page + 4 * i) = DIDX page" "TIDX (page + 4 * i) = TIDX page"
    by (simp_all add: IDX_split)
  with i(2) assms(1,2) show ?thesis
    by (auto simp: translate_alt page_aligned_def slot_def split: if_splits)
qed

lemma copy_page_copied:
  assumes vm: "vm_ok s" and free: "zero_frames s \<noteq> {}" and k0: "pe_present (dir_entry s 0)"
    and src: "translate s page = Some (PAGE g)" "page_aligned page" "IDX page \<noteq> 0" "DIDX page \<noteq> 1023"
    and g: "unat g < 2 ^ 20" "unat g \<notin> zero_frames s" "g \<noteq> pe_index (dir_entry s 0)"
  shows "\<exists>f s'. copy_page page s = Inr (PAGE (of_nat f), s') \<and> copied s f g s'"
proof -
  have pg: "paging_ok s" "frames_ok s" using vm by (auto simp: vm_ok_def)
  from get_page_cases [OF pg(2)] free obtain f s1 where
    f: "get_page s = Inr (PAGE (of_nat f), s1)" "took_frame s f s1" by blast
  note V = vm_took [OF vm f(2)]
  let ?f = "of_nat f :: u32"
  let ?T = "pe_index (dir_entry s1 0)"
  have z0: "DIDX 0 = 0" "TIDX 0 = 0" "IDX 0 = 0" by (simp_all add: DIDX_def TIDX_def IDX_def)
  have u0: "unat (0 :: u32) < 1024" by simp
  have pg1: "paging_ok s1" and k1: "pe_present (dir_entry s1 0)" using V(1,6) k0 by (simp_all add: vm_ok_def)
  have n0: "(0 :: u32) \<noteq> 1023" by simp
  define s2 where "s2 = s1\<lparr>ram := (ram s1)(slot ?T 0 := entry_init ?f)\<rparr>"
  note W = table_write [OF pg1 u0 n0 u0 k1, where v = "entry_init ?f", folded s2_def]
  have tf2: "?f \<notin> table_frames s2" using W(3) V(2) by simp
  have fT: "?T \<noteq> ?f" using V(2) k1 u0 by (auto simp: table_frames_def)
  have t0: "translate s2 0 = Some (PAGE ?f)"
    using k1 W(1) [OF u0] W(4) [OF u0 u0 k1] V(4) by (simp add: translate_alt z0 pe_entry_init)
  have ts: "translate s2 page = Some (PAGE g)"
    using src W(1) [OF DIDX_less [of page]] W(4) [OF DIDX_less [of page] TIDX_less [of page]] V(6,7) z0
      IDX_split [of page 0]
    by (auto simp: translate_alt split: if_splits)
  have gf: "g \<noteq> ?f" using g(2) f(2) took_frame_ok(3) [OF pg(2) f(2)] by (auto simp: took_frame_def)
  have gT: "g \<noteq> ?T" using g(3) V(6) by simp
  define h where "h = (\<lambda>i. ram s2 (slot g (of_nat i)))"
  have al0: "page_aligned 0" by (simp add: page_aligned_def)
  define s3 where "s3 = s2\<lparr>ram := fill_frame ?f h 1024 (ram s2)\<rparr>"
  have cp: "vcopy 0 page s2 = Inr ((), s3)"
    unfolding vcopy_def s3_def
  proof (rule frame_loop)
    fix r :: "u32 \<Rightarrow> u32" and i :: nat
    assume i: "i < 1024" and r: "\<And>a. IDX a \<noteq> ?f \<Longrightarrow> r a = ram s2 a"
    have ui: "unat (of_nat i :: u32) < 1024" using i by (simp add: unat_of_nat_1024)
    have "translate (s2\<lparr>ram := r\<rparr>) (page + 4 * of_nat i) = Some (slot g (of_nat i))"
      using translate_ram [OF r tf2] translate_page [OF ts src(2) ui] by simp
    moreover have "translate (s2\<lparr>ram := r\<rparr>) (0 + 4 * of_nat i) = Some (slot ?f (of_nat i))"
      using translate_ram [OF r tf2] translate_page [OF t0 al0 ui] by simp
    moreover have "r (slot g (of_nat i)) = h i"
      using r [of "slot g (of_nat i)"] gf g(1) ui by (simp add: h_def IDX_slot)
    ultimately show "sbind (vread (page + 4 * word_of_nat i)) (vwrite (0 + 4 * word_of_nat i)) (s2\<lparr>ram := r\<rparr>) =
        Inr ((), s2\<lparr>ram := r(slot ?f (word_of_nat i) := h i)\<rparr>)"
      by (simp add: vread_def vwrite_def)
  qed (use V(4) in simp_all)
  have out: "fill_frame ?f h 1024 (ram s2) a = ram s2 a" if "IDX a \<noteq> ?f" for a
    using V(4) that by (intro fill_frame_out) simp_all
  have D: "?f \<noteq> IDX (cr3 s2)" using tf2 by (simp add: table_frames_def)
  have pg3: "paging_ok s3" unfolding s3_def using W(2) out D by (rule paging_ok_ram)
  have de3: "dir_entry s3 i = dir_entry s1 i" if "unat i < 1024" for i
  proof -
    have "dir_entry s3 i = dir_entry s2 i" unfolding s3_def using out D that by (rule dir_entry_ram)
    with W(1) [OF that] show ?thesis by simp
  qed
  have k3: "pe_present (dir_entry s3 0)" using de3 [OF u0] k1 by simp
  let ?v = "pe_put 0 False (table_entry s3 0 0)"
  define s4 where "s4 = s3\<lparr>ram := (ram s3)(slot ?T 0 := ?v)\<rparr>"
  have T3: "pe_index (dir_entry s3 0) = ?T" using de3 [OF u0] by simp
  note W4 = table_write [OF pg3 u0 n0 u0 k3, where v = ?v, unfolded T3, folded s4_def]
  have e: "copy_page page s = Inr (PAGE ?f, s4)"
  proof -
    have "get_pte 0 False s1 = Inr (table_va 0 + 4 * 0, s1)"
      using get_pte_present [OF pg1, of 0 False] k1 by (simp add: z0)
    moreover have "vwrite (table_va 0 + 4 * 0) (entry_init ?f) s1 = Inr ((), s2)"
      using read_entry(2) [OF pg1 u0 u0 k1] by (simp only: s2_def)
    moreover have "vread (table_va 0 + 4 * 0) s3 = Inr (table_entry s3 0 0, s3)"
      using read_entry(1) [OF pg3 u0 u0 k3] .
    moreover have "vwrite (table_va 0 + 4 * 0) ?v s3 = Inr ((), s4)"
      using read_entry(2) [OF pg3 u0 u0 k3] by (simp only: s4_def T3)
    ultimately show ?thesis
      using f(1) cp V(4) by (simp add: copy_page_def IDX_PAGE del: mult_zero_right add_0_right)
  qed
  have vm4: "vm_ok s4"
  proof -
    have "table_frames s3 = table_frames s1" using de3 by (intro table_frames_cong) (auto simp: s3_def s2_def)
    then have "table_frames s4 = table_frames s1" using W4(3) by simp
    moreover have "zero_frames s4 = zero_frames s1" "frames_ok s4 = frames_ok s1"
      by (simp_all add: s4_def s3_def s2_def)
    ultimately show ?thesis using W4(2) V(1) by (simp add: vm_ok_def)
  qed
  have cells: "ram s4 (slot ?f i) = ram s (slot g i)" if i: "unat i < 1024" for i
  proof -
    have "slot ?f i \<noteq> slot ?T 0" using fT i V(4) by (subst slot_eq [OF _ pe_index_less]) auto
    moreover have "slot g i \<noteq> slot ?T 0" using gT i g(1) by (subst slot_eq [OF _ pe_index_less]) auto
    moreover have "fill_frame ?f h 1024 (ram s2) (slot ?f i) = h (unat i)"
      using fill_frame_in [OF V(4), of 1024 "unat i"] i by simp
    ultimately show ?thesis
      using f(2) by (simp add: s4_def s3_def h_def) (simp add: s2_def took_frame_def)
  qed
  have rest: "ram s4 a = ram s a" if "IDX a \<noteq> ?f" "a \<noteq> slot (pe_index (dir_entry s 0)) 0" for a
    using that out V(6) f(2) by (simp add: s4_def s3_def) (simp add: s2_def took_frame_def)
  have "memory_map s4 = (memory_map s)[f := 1]" "cr3 s4 = cr3 s" "start_page s4 = start_page s"
    "total_pages s4 = total_pages s" "zero_frames s4 = zero_frames s - {f}" "f \<in> zero_frames s"
    using took_frame_ok(2) [OF pg(2) f(2)] f(2) by (simp_all add: s4_def s3_def s2_def took_frame_def)
  then have "copied s f g s4"
    unfolding copied_def using cells rest vm4 by blast
  with e show ?thesis by blast
qed

text \<open>What breaking a shared page has done for the address \<open>va\<close>, which was mapped by the entry \<open>e\<close>.\<close>

definition unshared :: "mm \<Rightarrow> u32 \<Rightarrow> page_entry \<Rightarrow> nat \<Rightarrow> mm \<Rightarrow> bool" where
  "unshared s va e f s' \<longleftrightarrow>
     f \<in> zero_frames s \<and> memory_map s' ! f = 1 \<and>
     memory_map s' ! unat (pe_index e) = memory_map s ! unat (pe_index e) - 1 \<and>
     translate s' va = Some (PAGE (of_nat f) + (va AND 0xfff)) \<and>
     pe_write (table_entry s' (DIDX va) (TIDX va)) \<and>
     (\<forall>i. unat i < 1024 \<longrightarrow> ram s' (slot (of_nat f) i) = ram s (slot (pe_index e) i) \<and>
                             ram s' (slot (pe_index e) i) = ram s (slot (pe_index e) i)) \<and>
     (\<forall>w. DIDX w \<noteq> 1023 \<longrightarrow> IDX w \<noteq> IDX va \<longrightarrow> IDX w \<noteq> 0 \<longrightarrow> translate s' w = translate s w)"

lemma pe_write_entry_init: "pe_write (entry_init i)"
  by (simp add: entry_init_def pe_write_def pe_put_def pe_set_index_def bit_simps)

lemma break_cow_unshares:
  assumes vm: "vm_ok s" and free: "zero_frames s \<noteq> {}" and k0: "pe_present (dir_entry s 0)"
    and va: "DIDX va \<noteq> 1023" "IDX va \<noteq> 0" and pd: "pe_present (dir_entry s (DIDX va))"
    and e: "e = table_entry s (DIDX va) (TIDX va)" "pe_present e" "\<not> pe_shared e" "\<not> pe_readonly e"
    and c: "unat (pe_index e) < length (memory_map s)" "1 < memory_map s ! unat (pe_index e)"
    and nt: "pe_index e \<notin> table_frames s"
  shows "\<exists>f s'. break_cow va s = Inr ((), s') \<and> unshared s va e f s'"
proof -
  have pg: "paging_ok s" "frames_ok s" using vm by (auto simp: vm_ok_def)
  let ?d = "DIDX va" and ?t = "TIDX va" and ?g = "pe_index e"
  let ?p = "PAGE (IDX va)"
  have al: "page_aligned ?p" by (rule page_aligned_PAGE [OF unat_IDX_less])
  have ip: "IDX ?p = IDX va" by (rule IDX_PAGE [OF unat_IDX_less])
  then have dp: "DIDX ?p = ?d" "TIDX ?p = ?t" by (simp_all add: IDX_split)
  have tp: "translate s ?p = Some (PAGE ?g)"
    using pd e(1,2) al by (simp add: translate_alt dp page_aligned_def)
  have gz: "unat ?g \<notin> zero_frames s" using c(2) by (auto simp: zero_frames_def)
  have u0: "unat (0 :: u32) < 1024" by simp
  have gT: "?g \<noteq> pe_index (dir_entry s 0)" using nt k0 u0 by (auto simp: table_frames_def)
  from copy_page_copied [OF vm free k0 tp al _ _ pe_index_less gz gT] va ip dp obtain f s1 where
    f: "copy_page ?p s = Inr (PAGE (of_nat f), s1)" "copied s f ?g s1" by auto
  let ?f = "of_nat f :: u32"
  have fz: "f \<in> zero_frames s" using f(2) by (simp add: copied_def)
  have uf: "unat ?f = f" "f < 2 ^ 20"
    using zero_frames_less [OF pg(2) fz] by (auto intro: unat_of_nat_32)
  have ftf: "?f \<notin> table_frames s" using vm fz uf(1) by (auto simp: vm_ok_def)
  have fg: "unat ?g \<noteq> f" using gz fz by auto
  have rest: "ram s1 a = ram s a" if "IDX a \<noteq> ?f" "a \<noteq> slot (pe_index (dir_entry s 0)) 0" for a
    using f(2) that unfolding copied_def by blast
  have T0: "pe_index (dir_entry s 0) \<noteq> IDX (cr3 s)"
    by (rule dir_not_table [OF pg(1) u0 _ k0]) simp
  have de1: "dir_entry s1 i = dir_entry s i" if "unat i < 1024" for i
  proof -
    have "IDX (slot (IDX (cr3 s)) i) \<noteq> ?f"
      using ftf that by (auto simp: IDX_slot [OF IDX_less] table_frames_def)
    moreover have "slot (IDX (cr3 s)) i \<noteq> slot (pe_index (dir_entry s 0)) 0"
      using T0 that by (subst slot_eq [OF IDX_less pe_index_less]) auto
    ultimately show ?thesis using rest f(2) by (simp add: dir_entry_def copied_def)
  qed
  have te1: "table_entry s1 d' t' = table_entry s d' t'"
    if "unat d' < 1024" "unat t' < 1024" "pe_present (dir_entry s d')" "\<not> (d' = 0 \<and> t' = 0)" for d' t'
  proof -
    have "pe_index (dir_entry s d') \<noteq> ?f" using ftf that(1,3) by (auto simp: table_frames_def)
    then have "IDX (slot (pe_index (dir_entry s d')) t') \<noteq> ?f"
      using that(2) by (simp add: IDX_slot [OF pe_index_less])
    moreover have "slot (pe_index (dir_entry s d')) t' \<noteq> slot (pe_index (dir_entry s 0)) 0"
      using pg(1) that k0 u0 unfolding paging_ok_def
      by (subst slot_eq [OF pe_index_less pe_index_less]) auto
    ultimately show ?thesis using rest de1 [OF that(1)] by (simp add: table_entry_def)
  qed
  have va0: "\<not> (?d = 0 \<and> ?t = 0)" using va(2) IDX_split [of va 0] by (simp add: DIDX_def TIDX_def IDX_def)
  have e1: "table_entry s1 ?d ?t = e" using te1 [OF DIDX_less TIDX_less pd va0] e(1) by simp
  have vm1: "vm_ok s1" using f(2) by (simp add: copied_def)
  then have pg1: "paging_ok s1" by (simp add: vm_ok_def)
  have pd1: "pe_present (dir_entry s1 ?d)" using de1 [OF DIDX_less] pd by simp
  have mm1: "memory_map s1 = (memory_map s)[f := 1]" using f(2) by (simp add: copied_def)
  define mp where "mp = (memory_map s1)[unat ?g := memory_map s ! unat ?g - 1]"
  define s2 where "s2 = s1\<lparr>memory_map := mp\<rparr>"
  have pg2: "paging_ok s2" "pe_present (dir_entry s2 ?d)" using pg1 pd1 by (simp_all add: s2_def)
  define s3 where "s3 = s2\<lparr>ram := (ram s2)(slot (pe_index (dir_entry s2 ?d)) ?t := entry_init ?f)\<rparr>"
  note W = table_write [OF pg2(1) DIDX_less [of va] va(1) TIDX_less [of va] pg2(2), where v = "entry_init ?f",
      folded s3_def]
  have run: "break_cow va s = Inr ((), s3)"
  proof -
    have "memory_map s ! unat ?g \<noteq> 1" "0 < memory_map s ! unat ?g"
      using c(2) by (auto simp: word_less_nat_alt)
    moreover have "map_get ?g s1 = Inr (memory_map s ! unat ?g, s1)"
      using c(1) fg mm1 by (simp add: map_get_def)
    moreover have "map_put ?g (memory_map s ! unat ?g - 1) s1 = Inr ((), s2)"
      using c(1) mm1 by (simp add: map_put_def s2_def mp_def)
    moreover have "vwrite (table_va ?d + 4 * ?t) (entry_init ?f) s2 = Inr ((), s3)"
      using read_entry(2) [OF pg2(1) DIDX_less TIDX_less pg2(2)] by (simp add: s3_def)
    moreover have "map_get ?g s = Inr (memory_map s ! unat ?g, s)" using c(1) by (simp add: map_get_def)
    ultimately show ?thesis
      using f(1) e uf pd get_pte_present [OF pg(1) pd] read_entry(1) [OF pg(1) DIDX_less TIDX_less pd]
        read_entry(1) [OF pg1 DIDX_less TIDX_less pd1] e1
      by (simp add: break_cow_def get_entry_def IDX_PAGE)
  qed
  have te3: "table_entry s3 ?d ?t = entry_init ?f"
    using W(4) [OF DIDX_less TIDX_less pg2(2)] by simp
  have "translate s3 va = Some (PAGE ?f + (va AND 0xfff))"
    using W(1) [OF DIDX_less] pg2(2) te3 uf by (simp add: translate_alt pe_entry_init)
  moreover have "translate s3 w = translate s w" if "IDX w \<noteq> IDX va" "IDX w \<noteq> 0" for w
  proof -
    have "\<not> (DIDX w = 0 \<and> TIDX w = 0)" using that(2) IDX_split [of w 0] by (simp add: DIDX_def TIDX_def IDX_def)
    moreover have "\<not> (DIDX w = ?d \<and> TIDX w = ?t)" using that(1) by (simp add: IDX_split)
    ultimately show ?thesis
      using W(1) [OF DIDX_less [of w]] W(4) [OF DIDX_less [of w] TIDX_less [of w]]
        te1 [OF DIDX_less [of w] TIDX_less [of w]] de1 [OF DIDX_less [of w]]
      by (auto simp: translate_alt s2_def)
  qed
  moreover have "ram s3 (slot ?f i) = ram s (slot ?g i)" "ram s3 (slot ?g i) = ram s (slot ?g i)"
    if i: "unat i < 1024" for i
  proof -
    let ?T = "pe_index (dir_entry s1 ?d)"
    have Ttf: "?T \<in> table_frames s" using de1 [OF DIDX_less] pd DIDX_less by (auto simp: table_frames_def)
    have "slot ?f i \<noteq> slot ?T ?t" using Ttf ftf i uf TIDX_less by (subst slot_eq [OF _ pe_index_less]) auto
    moreover have "slot ?g i \<noteq> slot ?T ?t" using Ttf nt i TIDX_less by (subst slot_eq [OF pe_index_less pe_index_less]) auto
    moreover have "slot ?g i \<noteq> slot (pe_index (dir_entry s 0)) 0"
      using gT i by (subst slot_eq [OF pe_index_less pe_index_less]) auto
    moreover have "IDX (slot ?g i) \<noteq> ?f" using fg uf i by (auto simp: IDX_slot [OF pe_index_less])
    moreover have "ram s1 (slot ?f i) = ram s (slot ?g i)" using f(2) i by (simp add: copied_def)
    ultimately show "ram s3 (slot ?f i) = ram s (slot ?g i)" "ram s3 (slot ?g i) = ram s (slot ?g i)"
      using rest by (simp_all add: s3_def s2_def)
  qed
  moreover have "memory_map s3 ! f = 1" "memory_map s3 ! unat ?g = memory_map s ! unat ?g - 1"
    using fg c(1) zero_frames_less [OF pg(2) fz] by (simp_all add: s3_def s2_def mp_def mm1)
  ultimately have "unshared s va e f s3"
    unfolding unshared_def using fz te3 pe_write_entry_init by auto
  with run show ?thesis by blast
qed

subsection \<open>What the page fault handler is proved to do\<close>

lemma user_address:
  assumes "USER_EXEC_ADDR \<le> va" "va < USER_STACK_TOP"
  shows "DIDX va \<noteq> 1023" "IDX va \<noteq> 0" "DIDX (PAGE (IDX va)) \<noteq> 1023"
proof -
  have b: "16777216 \<le> unat va" "unat va < 268435456"
    using assms by (simp_all add: word_le_nat_alt word_less_nat_alt)
  then have "unat (DIDX va) < 64" "unat (IDX va) \<noteq> 0" by (auto simp: unat_DIDX unat_IDX)
  then show "DIDX va \<noteq> 1023" "IDX va \<noteq> 0" by auto
  then show "DIDX (PAGE (IDX va)) \<noteq> 1023" using IDX_PAGE [OF unat_IDX_less, of va] by (simp add: IDX_split)
qed

text \<open>Without a free frame for the page, or for the table that has to be created first, linking panics.\<close>

lemma link_present_panics:
  assumes vm: "vm_ok s" and al: "page_aligned va"
    and pd: "pe_present (dir_entry s (DIDX va))" and np: "\<not> pe_present (table_entry s (DIDX va) (TIDX va))"
    and none: "zero_frames s = {}"
  shows "link_page va s = Inl Panic"
proof -
  have pg: "paging_ok s" "frames_ok s" using vm by (auto simp: vm_ok_def)
  have "get_page s = Inl Panic" using get_page_cases [OF pg(2)] none by (auto simp: took_frame_def)
  then show ?thesis
    using al np pd by (simp add: link_page_def get_entry_def get_pte_present [OF pg(1)]
        read_entry(1) [OF pg(1) DIDX_less TIDX_less])
qed

lemma get_pte_panics:
  assumes vm: "vm_ok s" and np: "\<not> pe_present (dir_entry s (DIDX va))" and none: "zero_frames s = {}"
  shows "get_pte va True s = Inl Panic"
proof -
  have pg: "paging_ok s" "frames_ok s" using vm by (auto simp: vm_ok_def)
  have "get_page s = Inl Panic" using get_page_cases [OF pg(2)] none by (auto simp: took_frame_def)
  then show ?thesis
    using np by (simp add: get_pte_def Let_def vread_def translate_dir [OF pg(1) DIDX_less] dir_entry_def)
qed

lemma link_page_panics:
  assumes vm: "vm_ok s" and al: "page_aligned va" and d: "DIDX va \<noteq> 1023"
    and none: "translate s va = None" and few: "card (zero_frames s) < frames_needed s va"
  shows "link_page va s = Inl Panic"
proof (cases "pe_present (dir_entry s (DIDX va))")
  case True
  then have "zero_frames s = {}" using few by (simp add: frames_needed_def)
  then show ?thesis
    using none True by (intro link_present_panics [OF vm al True]) (auto simp: translate_alt split: if_splits)
next
  case False
  show ?thesis
  proof (cases "zero_frames s = {}")
    case True
    then show ?thesis using al get_pte_panics [OF vm False] by (simp add: link_page_def get_entry_def)
  next
    case ne: False
    from get_pte_creates [OF vm DIDX_less [of va] d refl False ne] obtain g s1 where
      g: "get_pte va True s = Inr (table_va (DIDX va), s1)" "g \<in> zero_frames s"
        "zero_frames s1 = zero_frames s - {g}" "vm_ok s1" "pe_present (dir_entry s1 (DIDX va))"
        "\<forall>t. unat t < 1024 \<longrightarrow> \<not> pe_present (table_entry s1 (DIDX va) t)"
      by blast
    have "card (zero_frames s - {g}) = card (zero_frames s) - 1" using g(2) by simp
    then have "zero_frames s1 = {}"
      using few False g(3) by (simp add: frames_needed_def card_eq_0_iff finite_zero_frames)
    from link_present_panics [OF g(4) al g(5) _ this] g(6) TIDX_less have "link_page va s1 = Inl Panic" by blast
    moreover have "link_page va s = link_page va s1"
      using g(1,4,5) by (simp add: link_page_def get_entry_def vm_ok_def get_pte_present)
    ultimately show ?thesis by simp
  qed
qed

text \<open>C20: A page fault of a user task on an address of its heap or stack that is not mapped is resumed as
soon as the frames that it needs are free, one for the page and one more when the page table has to be
created first: the page of the address is then mapped to a frame that was free, which now has one
reference, no other user page changes its frame, and the page tables keep their shape (the recursive
slot, no two slots with one table, no table in a free frame). With fewer free frames the kernel panics.\<close>

theorem page_fault_maps_page:
  assumes "vm_ok s" "USER_EXEC_ADDR \<le> va" "va < USER_STACK_TOP"
    and "va < mt_brk (cur s) \<or> USER_STACK_BOTTOM \<le> va"
    and "\<not> bit error 0" "translate s (PAGE (IDX va)) = None"
  shows "if frames_needed s va \<le> card (zero_frames s)
    then \<exists>f s'. page_fault 0xe error va s = Inr (Resume, s') \<and> linked s (PAGE (IDX va)) f s'
    else page_fault 0xe error va s = Inl Panic"
proof -
  let ?p = "PAGE (IDX va)"
  have al: "page_aligned ?p" by (rule page_aligned_PAGE [OF unat_IDX_less])
  have "DIDX ?p = DIDX va" using IDX_PAGE [OF unat_IDX_less, of va] by (simp add: IDX_split)
  then have n: "frames_needed s ?p = frames_needed s va" by (simp add: frames_needed_def)
  have pf: "page_fault 0xe error va s = rbind (link_page ?p s) (\<lambda>(x, s'). Inr (Resume, s'))"
    using assms(2,3,4,5) by (auto simp: page_fault_def Let_def not_less [symmetric] sbind_def split: sum.splits)
  show ?thesis
  proof (cases "frames_needed s va \<le> card (zero_frames s)")
    case True
    with link_page_linked [OF assms(1) al user_address(3) [OF assms(2,3)] assms(6)] n show ?thesis
      by (auto simp: pf)
  next
    case False
    with link_page_panics [OF assms(1) al user_address(3) [OF assms(2,3)] assms(6)] n show ?thesis
      by (simp add: pf)
  qed
qed

definition mm1 :: mm where
  "mm1 = mm0\<lparr>total_pages := 6, free_pages := 4, start_page := 2, memory_map := [1, 1, 0, 0, 0, 0],
     ram := (\<lambda>_. 0)(slot 1 1023 := entry_init 1)\<rparr>"

lemma zero_frames_eval:
  "zero_frames s = set (filter (\<lambda>i. memory_map s ! i = 0) [unat (start_page s)..<unat (total_pages s)])"
  by (auto simp: zero_frames_def)

lemma dir_entry_mm1: "unat i < 1024 \<Longrightarrow> dir_entry mm1 i = (if i = 1023 then entry_init 1 else 0)"
proof -
  assume i: "unat i < 1024"
  have "IDX 0x1000 = 1" by (simp add: IDX_def)
  moreover have "slot 1 i = slot 1 1023 \<longleftrightarrow> i = 1023" using i by (subst slot_eq) auto
  ultimately show ?thesis by (simp add: dir_entry_def mm1_def mm0_def)
qed

lemma vm_ok_mm1: "vm_ok mm1" "zero_frames mm1 = {2, 3, 4, 5}"
proof -
  show z: "zero_frames mm1 = {2, 3, 4, 5}"
    by (auto simp: zero_frames_eval mm1_def upt_conv_Cons)
  have i1: "IDX (cr3 mm1) = 1" by (simp add: mm1_def mm0_def IDX_def)
  have np: "\<not> pe_present 0" by (simp add: pe_present_def)
  have pi: "pe_index (entry_init 1) = 1" by (rule pe_entry_init) simp
  have "paging_ok mm1"
    unfolding paging_ok_def i1
  proof (intro conjI allI impI)
    show "page_aligned (cr3 mm1)" by (simp add: mm1_def mm0_def page_aligned_def)
    show "pe_present (dir_entry mm1 1023)" "pe_index (dir_entry mm1 1023) = 1"
      using pi by (simp_all add: dir_entry_mm1 pe_entry_init(1))
    fix i j assume "unat i < 1024 \<and> unat j < 1024 \<and> pe_present (dir_entry mm1 i) \<and>
      pe_present (dir_entry mm1 j) \<and> pe_index (dir_entry mm1 i) = pe_index (dir_entry mm1 j)"
    then show "i = j" using np by (auto simp: dir_entry_mm1 split: if_splits)
  qed
  moreover have "frames_ok mm1" by (simp add: frames_ok_def z) (simp add: mm1_def)
  moreover have "unat f \<notin> zero_frames mm1" if "f \<in> table_frames mm1" for f
  proof -
    have "f = 1" using that np pi by (auto simp: table_frames_def i1 dir_entry_mm1 split: if_splits)
    then show ?thesis by (simp add: z)
  qed
  ultimately show "vm_ok mm1" by (simp add: vm_ok_def)
qed

theorem page_fault_maps_page_witness:
  "\<exists>f s'. page_fault 0xe 0 0x1001234 mm1 = Inr (Resume, s') \<and> linked mm1 (PAGE (IDX 0x1001234)) f s'"
proof -
  have "DIDX (PAGE (IDX 0x1001234)) = 4" by (simp add: PAGE_def IDX_def DIDX_def)
  then have "translate mm1 (PAGE (IDX 0x1001234)) = None"
    by (simp add: translate_alt dir_entry_mm1 pe_present_def)
  moreover have "0x1001234 < mt_brk (cur mm1)" by (simp add: mm1_def mm0_def)
  moreover have "frames_needed mm1 0x1001234 \<le> card (zero_frames mm1)" by (simp add: frames_needed_def vm_ok_mm1)
  ultimately show ?thesis
    using page_fault_maps_page [OF vm_ok_mm1(1), of "0x1001234" 0] by simp
qed

lemma break_cow_stops:
  assumes vm: "vm_ok s" and pd: "pe_present (dir_entry s (DIDX va))"
    and e: "e = table_entry s (DIDX va) (TIDX va)" "pe_present e"
    and c: "unat (pe_index e) < length (memory_map s)" "1 < memory_map s ! unat (pe_index e)"
  shows "pe_shared e \<or> pe_readonly e \<Longrightarrow> break_cow va s = Inl AssertFail"
    "\<not> pe_shared e \<Longrightarrow> \<not> pe_readonly e \<Longrightarrow> zero_frames s = {} \<Longrightarrow> break_cow va s = Inl Panic"
proof -
  have pg: "paging_ok s" "frames_ok s" using vm by (auto simp: vm_ok_def)
  have c': "memory_map s ! unat (pe_index e) \<noteq> 1" "0 < memory_map s ! unat (pe_index e)"
    using c(2) by (auto simp: word_less_nat_alt)
  have g: "map_get (pe_index e) s = Inr (memory_map s ! unat (pe_index e), s)" using c(1) by (simp add: map_get_def)
  note run = break_cow_def get_entry_def get_pte_present [OF pg(1) pd] read_entry(1) [OF pg(1) DIDX_less TIDX_less pd]
  show "break_cow va s = Inl AssertFail" if "pe_shared e \<or> pe_readonly e"
    using that e c' g by (auto simp: run)
  assume "\<not> pe_shared e" "\<not> pe_readonly e" "zero_frames s = {}"
  moreover from this have "copy_page p s = Inl Panic" for p
    using get_page_cases [OF pg(2)] by (auto simp: copy_page_def took_frame_def)
  ultimately show "break_cow va s = Inl Panic" using e c' g by (simp add: run)
qed

text \<open>C5: Copy on write. A write fault on a present page whose frame has more than one reference and is no
page table: when the page is private, may be written and a frame is free, the access is resumed with the
page mapped, writable, to a frame that was free and now holds the same 1024 cells; the old frame loses one
reference and keeps its contents for the other tasks, and no other user page changes its frame. On a
page that is shared or mapped without \<open>PROT\_WRITE\<close> an assertion stops the kernel, and it panics when no
frame is free. The directory's first slot, with the page at address 0 through which the copy is made, is present.\<close>

theorem page_fault_copies_on_write:
  assumes "vm_ok s" "pe_present (dir_entry s 0)"
    and "USER_EXEC_ADDR \<le> va" "va < USER_STACK_TOP" "bit error 0" "bit error 1"
    and "pe_present (dir_entry s (DIDX va))"
    and "e = table_entry s (DIDX va) (TIDX va)" "pe_present e"
    and "unat (pe_index e) < length (memory_map s)" "1 < memory_map s ! unat (pe_index e)"
    and "pe_index e \<notin> table_frames s"
  shows "if pe_shared e \<or> pe_readonly e then page_fault 0xe error va s = Inl AssertFail
    else if zero_frames s = {} then page_fault 0xe error va s = Inl Panic
    else \<exists>f s'. page_fault 0xe error va s = Inr (Resume, s') \<and> unshared s va e f s'"
proof -
  have pf: "page_fault 0xe error va s = rbind (break_cow va s) (\<lambda>(x, s'). Inr (Resume, s'))"
    using assms(3-6) by (auto simp: page_fault_def Let_def not_less [symmetric] sbind_def split: sum.splits)
  note stops = break_cow_stops [OF assms(1,7,8,9,10,11)]
  show ?thesis
  proof (cases "pe_shared e \<or> pe_readonly e \<or> zero_frames s = {}")
    case True
    with stops show ?thesis by (auto simp: pf)
  next
    case False
    with break_cow_unshares [OF assms(1) _ assms(2) user_address(1,2) [OF assms(3,4)] assms(7,8,9) _ _ assms(10-12)]
    obtain f s' where "break_cow va s = Inr ((), s')" "unshared s va e f s'" by blast
    with False show ?thesis by (auto simp: pf)
  qed
qed

definition mm2 :: mm where
  "mm2 = mm0\<lparr>total_pages := 6, free_pages := 1, start_page := 2, memory_map := [1, 1, 1, 1, 2, 0],
     ram := (\<lambda>_. 0)(slot 1 1023 := entry_init 1, slot 1 0 := entry_init 2, slot 1 4 := entry_init 3,
                    slot 3 0 := pe_put 1 False (entry_init 4))\<rparr>"

lemma ram_mm2:
  "unat i < 1024 \<Longrightarrow> dir_entry mm2 i =
     (if i = 4 then entry_init 3 else if i = 0 then entry_init 2 else if i = 1023 then entry_init 1 else 0)"
  "table_entry mm2 4 0 = pe_put 1 False (entry_init 4)"
proof -
  have i1: "IDX (cr3 mm2) = 1" by (simp add: mm2_def mm0_def IDX_def)
  show d: "dir_entry mm2 i =
     (if i = 4 then entry_init 3 else if i = 0 then entry_init 2 else if i = 1023 then entry_init 1 else 0)"
    if "unat i < 1024" for i
    using that unfolding dir_entry_def i1 by (simp add: mm2_def slot_eq)
  have "pe_index (entry_init 3) = 3" by (rule pe_entry_init) simp
  then show "table_entry mm2 4 0 = pe_put 1 False (entry_init 4)"
    using d [of 4] by (simp add: table_entry_def) (simp add: mm2_def)
qed

lemma vm_ok_mm2: "vm_ok mm2" "zero_frames mm2 = {5}" "table_frames mm2 = {1, 2, 3}"
proof -
  show z: "zero_frames mm2 = {5}" by (auto simp: zero_frames_eval mm2_def upt_conv_Cons)
  have i1: "IDX (cr3 mm2) = 1" by (simp add: mm2_def mm0_def IDX_def)
  have np: "\<not> pe_present 0" by (simp add: pe_present_def)
  have pi: "pe_index (entry_init 1) = 1" "pe_index (entry_init 2) = 2" "pe_index (entry_init 3) = 3"
    by (rule pe_entry_init, simp)+
  have "paging_ok mm2"
    unfolding paging_ok_def i1
  proof (intro conjI allI impI)
    show "page_aligned (cr3 mm2)" by (simp add: mm2_def mm0_def page_aligned_def)
    show "pe_present (dir_entry mm2 1023)" "pe_index (dir_entry mm2 1023) = 1"
      using pi by (simp_all add: ram_mm2 pe_entry_init(1))
    fix i j assume "unat i < 1024 \<and> unat j < 1024 \<and> pe_present (dir_entry mm2 i) \<and>
      pe_present (dir_entry mm2 j) \<and> pe_index (dir_entry mm2 i) = pe_index (dir_entry mm2 j)"
    then show "i = j" using np pi by (auto simp: ram_mm2 split: if_splits)
  qed
  moreover have "frames_ok mm2" by (simp add: frames_ok_def z) (simp add: mm2_def)
  moreover show tf: "table_frames mm2 = {1, 2, 3}"
  proof (rule set_eqI)
    fix f
    have "f \<in> {pe_index (dir_entry mm2 i) | i. unat i < 1024 \<and> pe_present (dir_entry mm2 i)} \<longleftrightarrow> f \<in> {1, 2, 3}"
    proof
      assume "f \<in> {1, 2, 3}"
      then have "\<exists>i \<in> {0, 4, 1023}. f = pe_index (dir_entry mm2 i)" using pi by (auto simp: ram_mm2)
      then show "f \<in> {pe_index (dir_entry mm2 i) | i. unat i < 1024 \<and> pe_present (dir_entry mm2 i)}"
        by (auto simp: ram_mm2 pe_entry_init(1) intro: exI [of _ 0] exI [of _ 4] exI [of _ 1023])
    qed (use np pi in \<open>auto simp: ram_mm2 split: if_splits\<close>)
    then show "f \<in> table_frames mm2 \<longleftrightarrow> f \<in> {1, 2, 3}" by (auto simp: table_frames_def i1)
  qed
  ultimately show "vm_ok mm2" using z by (auto simp: vm_ok_def)
qed

theorem page_fault_copies_on_write_witness:
  "\<exists>f s'. page_fault 0xe 3 0x1000010 mm2 = Inr (Resume, s') \<and>
    unshared mm2 0x1000010 (pe_put 1 False (entry_init 4)) f s'"
proof -
  let ?e = "pe_put 1 False (entry_init 4)"
  have d: "DIDX 0x1000010 = 4" "TIDX 0x1000010 = 0" by (simp_all add: DIDX_def TIDX_def)
  have pi: "pe_index ?e = 4" by (simp add: pe_put_bits(2)) (rule pe_entry_init, simp)
  have "if pe_shared ?e \<or> pe_readonly ?e then page_fault 0xe 3 0x1000010 mm2 = Inl AssertFail
    else if zero_frames mm2 = {} then page_fault 0xe 3 0x1000010 mm2 = Inl Panic
    else \<exists>f s'. page_fault 0xe 3 0x1000010 mm2 = Inr (Resume, s') \<and> unshared mm2 0x1000010 ?e f s'"
  proof (rule page_fault_copies_on_write)
    show "pe_present (dir_entry mm2 (DIDX 0x1000010))"
      "?e = table_entry mm2 (DIDX 0x1000010) (TIDX 0x1000010)"
      by (simp_all add: d ram_mm2 pe_entry_init(1))
    show "unat (pe_index ?e) < length (memory_map mm2)" "1 < memory_map mm2 ! unat (pe_index ?e)"
      unfolding pi by (simp_all add: mm2_def)
    show "pe_index ?e \<notin> table_frames mm2"
      unfolding pi by (simp add: vm_ok_mm2)
  qed (simp_all add: vm_ok_mm2 ram_mm2 pe_entry_init(1) pe_put_bits(1) bit_numeral_rec)
  then show ?thesis
    by (simp add: vm_ok_mm2 entry_init_def pe_shared_def pe_readonly_def pe_put_def pe_set_index_def bit_simps)
qed

end
