(* ===== verification/Interrupt.thy ===== *)
theory Interrupt
  imports Ports
begin

text \<open>
  The interrupt flag, the interrupt controllers and the descriptor table of
  \<open>src/src/kernel/interrupt.c\<close>. The state extends the ports by the processor's interrupt flag, the
  table of handlers and the gates. Handlers are code addresses; those that are labels of the
  assembly files or functions of other files are parameters.
\<close>

unbundle bit_operations_syntax

record gate =
  g_offset0 :: u16
  g_selector :: u16
  g_reserved :: u8
  g_type :: u8
  g_segment :: bool
  g_DPL :: u8
  g_present :: bool
  g_offset1 :: u16

record cpu = ports +
  c_if :: bool
  handler_table :: "u32 list"
  idt :: "gate list"

definition interrupt_disable :: "('a cpu_scheme, bool) op" where
  "interrupt_disable = sbind (sget c_if) (\<lambda>b. sbind (smodify (c_if_update (\<lambda>_. False))) (\<lambda>_. sret b))"

definition get_interrupt_state :: "('a cpu_scheme, bool) op" where
  "get_interrupt_state = sget c_if"

definition set_interrupt_state :: "bool \<Rightarrow> ('a cpu_scheme, unit) op" where
  "set_interrupt_state b = smodify (c_if_update (\<lambda>_. b))"

text \<open>\<open>assert(!get_interrupt_state())\<close>, which guards most of the scheduler.\<close>

definition ensure_disabled :: "('a cpu_scheme, unit) op" where
  "ensure_disabled = sbind get_interrupt_state (\<lambda>b. sensure (\<not> b))"

definition send_eoi :: "int \<Rightarrow> ('a cpu_scheme, unit) op" where
  "send_eoi vector =
     (if vector \<ge> 0x20 \<and> vector < 0x28 then outb 0x20 0x20
      else if vector \<ge> 0x28 \<and> vector < 0x30 then sbind (outb 0x20 0x20) (\<lambda>_. outb 0xa0 0x20)
      else sret ())"

definition set_interrupt_handler :: "u32 \<Rightarrow> u32 \<Rightarrow> ('a cpu_scheme, unit) op" where
  "set_interrupt_handler irq handler =
     sbind (sensure (irq < 16)) (\<lambda>_.
     \<lambda>s. rbind (wr (handler_table s) (unat (0x20 + irq)) handler) (\<lambda>t. Inr ((), s\<lparr>handler_table := t\<rparr>)))"

definition set_interrupt_mask :: "u32 \<Rightarrow> bool \<Rightarrow> ('a cpu_scheme, unit) op" where
  "set_interrupt_mask irq enable =
     sbind (sensure (irq < 16)) (\<lambda>_.
     let port = (if irq < 8 then 0x21 else 0xa1); irq = (if irq < 8 then irq else irq - 8)
     in sbind (inb port) (\<lambda>v.
        outb port (if enable then v AND NOT (push_bit (unat irq) 1) else v OR push_bit (unat irq) 1)))"

definition mk_gate :: "u32 \<Rightarrow> u8 \<Rightarrow> gate" where
  "mk_gate handler dpl =
     \<lparr>g_offset0 = ucast (handler AND 0xffff), g_selector = 8, g_reserved = 0, g_type = 0xE,
      g_segment = False, g_DPL = dpl, g_present = True, g_offset1 = ucast (drop_bit 16 handler AND 0xffff)\<rparr>"

text \<open>The address that the processor jumps to through a gate.\<close>

definition gate_target :: "gate \<Rightarrow> u32" where
  "gate_target g = push_bit 16 (ucast (g_offset1 g)) OR ucast (g_offset0 g)"

definition idt_init :: "u32 list \<Rightarrow> u32 \<Rightarrow> u32 \<Rightarrow> u32 \<Rightarrow> u32 \<Rightarrow> ('a cpu_scheme, unit) op" where
  "idt_init entry_table exception_handler page_fault default_handler syscall_handler =
     smodify (\<lambda>s. s\<lparr>idt := (map (\<lambda>h. mk_gate h 0) (take 0x30 entry_table) @ drop 0x30 (idt s))[0x80 := mk_gate syscall_handler 3],
        handler_table := (replicate 0x20 exception_handler)[0xe := page_fault] @ replicate 0x10 default_handler @
                         drop 0x30 (handler_table s)\<rparr>)"

definition pic_init :: "('a cpu_scheme, unit) op" where
  "pic_init = sforeach [(0x20, 0x11), (0x21, 0x20), (0x21, 0x04), (0x21, 0x01),
                        (0xa0, 0x11), (0xa1, 0x28), (0xa1, 2), (0xa1, 0x01), (0x21, 0xff), (0xa1, 0xff)]
     (\<lambda>(port, v). outb port v)"

definition interrupt_init :: "u32 list \<Rightarrow> u32 \<Rightarrow> u32 \<Rightarrow> u32 \<Rightarrow> u32 \<Rightarrow> ('a cpu_scheme, unit) op" where
  "interrupt_init entry_table exc pf dflt sysc = sbind (idt_init entry_table exc pf dflt sysc) (\<lambda>_. pic_init)"

text \<open>A gate leads to the handler it was made for.\<close>

lemma gate_target_mk_gate: "gate_target (mk_gate h dpl) = h"
proof -
  have m: "(0xffff :: u32) = mask 16" by (simp add: mask_eq_exp_minus_1)
  show ?thesis
    unfolding gate_target_def mk_gate_def m by (rule bit_word_eqI) (auto simp: bit_simps)
qed

end
