(* ===== verification/Sched.thy ===== *)
theory Sched
  imports DList Interrupt Frames
begin

text \<open>
  The scheduler of \<open>src/src/kernel/tasks.c\<close> and the clock interrupt of \<open>src/src/kernel/clock.c\<close>. A
  task is known by the address of its control block, 0 is \<open>NULL\<close>. The list node of a task lies 4 bytes
  into its control block and its \<open>ticks\<close> 16 bytes after the node; the blocked and sleeping tasks are
  linked on the heap of \<open>DList\<close>. The running task (which the code finds through its stack pointer) is
  the field \<open>current\<close>; \<open>task_switch\<close> makes another task the running one, and what the caller of
  \<open>schedule\<close> does after it runs only when the caller is scheduled again.
\<close>

unbundle bit_operations_syntax

datatype task_state =
  TASK_INIT | TASK_READY | TASK_RUNNING | TASK_BLOCKED | TASK_SLEEPING | TASK_WAITING | TASK_DEAD

record task =
  t_stack :: u32
  t_state :: task_state
  t_priority :: u32
  t_ticks :: u32
  t_jiffies :: u32
  t_name :: "u8 list"
  t_uid :: u32
  t_gid :: u32
  t_pid :: int
  t_ppid :: int
  t_pde :: u32
  t_vmap :: bitmap
  t_text :: u32
  t_data :: u32
  t_end :: u32
  t_brk :: u32
  t_status :: int
  t_waitpid :: int
  t_pwd :: u32
  t_ipwd :: u32
  t_iroot :: u32
  t_iexec :: u32
  t_umask :: u16
  t_files :: "u32 list"
  t_magic :: u32

definition ONIX_MAGIC :: u32 where "ONIX_MAGIC = 0x20220205"

record sched = cpu +
  task_table :: "u32 list"
  pcb :: "u32 \<Rightarrow> task"
  heap :: dheap
  block_list :: u32
  sleep_list :: u32
  idle_task :: u32
  current :: u32
  jiffies :: u32
  beeping :: u32
  cr3_reg :: u32
  tss_esp0 :: u32

definition task_node :: "u32 \<Rightarrow> u32" where
  "task_node t = t + 4"

definition node_task :: "u32 \<Rightarrow> u32" where
  "node_task n = n - 4"

definition get_task :: "u32 \<Rightarrow> ('a sched_scheme, task) op" where
  "get_task t = (\<lambda>s. if t = 0 then Inl Fault else Inr (pcb s t, s))"

definition upd_task :: "u32 \<Rightarrow> (task \<Rightarrow> task) \<Rightarrow> ('a sched_scheme, unit) op" where
  "upd_task t f = (\<lambda>s. if t = 0 then Inl Fault else Inr ((), s\<lparr>pcb := (pcb s)(t := f (pcb s t))\<rparr>))"

definition on_heap :: "(dheap \<Rightarrow> dheap res) \<Rightarrow> ('a sched_scheme, unit) op" where
  "on_heap f = (\<lambda>s. rbind (f (heap s)) (\<lambda>h. Inr ((), s\<lparr>heap := h\<rparr>)))"

definition ensure_detached :: "u32 \<Rightarrow> ('a sched_scheme, unit) op" where
  "ensure_detached t =
     sbind (\<lambda>s. rbind (get_next (heap s) (task_node t)) (\<lambda>n. Inr (n, s))) (\<lambda>n.
     sbind (sensure (n = 0)) (\<lambda>_.
     sbind (\<lambda>s. rbind (get_prev (heap s) (task_node t)) (\<lambda>p. Inr (p, s))) (\<lambda>p.
     sensure (p = 0))))"

text \<open>
  The search loop: the candidate is replaced by a task with more ticks left or with an older time of
  its last run.
\<close>

primrec search_loop :: "('a sched_scheme) \<Rightarrow> task_state \<Rightarrow> u32 \<Rightarrow> u32 list \<Rightarrow> u32" where
  "search_loop s st task [] = task"
| "search_loop s st task (ptr # ptrs) =
     (if ptr = 0 \<or> t_state (pcb s ptr) \<noteq> st \<or> ptr = current s then search_loop s st task ptrs
      else if task = 0 \<or> t_ticks (pcb s task) < t_ticks (pcb s ptr) \<or>
              t_jiffies (pcb s task) > t_jiffies (pcb s ptr)
      then search_loop s st ptr ptrs
      else search_loop s st task ptrs)"

definition task_search :: "task_state \<Rightarrow> ('a sched_scheme, u32) op" where
  "task_search st = sget (\<lambda>s.
     let task = search_loop s st 0 (task_table s)
     in if task = 0 \<and> st = TASK_READY then idle_task s else task)"

definition task_unblock :: "u32 \<Rightarrow> ('a sched_scheme, unit) op" where
  "task_unblock task =
     sbind ensure_disabled (\<lambda>_.
     sbind (on_heap (\<lambda>h. list_remove h (task_node task))) (\<lambda>_.
     sbind (ensure_detached task) (\<lambda>_.
     upd_task task (t_state_update (\<lambda>_. TASK_READY)))))"

definition task_activate :: "u32 \<Rightarrow> ('a sched_scheme, unit) op" where
  "task_activate task =
     sbind (get_task task) (\<lambda>t.
     sbind (sensure (t_magic t = ONIX_MAGIC)) (\<lambda>_.
     sbind (sget cr3_reg) (\<lambda>c.
     sbind (if t_pde t \<noteq> c then
              sbind (sensure (page_aligned (t_pde t))) (\<lambda>_. smodify (cr3_reg_update (\<lambda>_. t_pde t)))
            else sret ()) (\<lambda>_.
     if t_uid t \<noteq> 0 then smodify (tss_esp0_update (\<lambda>_. task + 0x1000)) else sret ()))))"

definition task_switch :: "u32 \<Rightarrow> ('a sched_scheme, unit) op" where
  "task_switch task = smodify (current_update (\<lambda>_. task))"

definition schedule :: "('a sched_scheme, unit) op" where
  "schedule =
     sbind ensure_disabled (\<lambda>_.
     sbind (sget current) (\<lambda>cur.
     sbind (task_search TASK_READY) (\<lambda>next.
     sbind (sensure (next \<noteq> 0)) (\<lambda>_.
     sbind (get_task next) (\<lambda>n.
     sbind (sensure (t_magic n = ONIX_MAGIC)) (\<lambda>_.
     sbind (get_task cur) (\<lambda>c.
     sbind (if t_ticks c = 0 then upd_task cur (t_ticks_update (\<lambda>_. t_priority c)) else sret ()) (\<lambda>_.
     sbind (if t_state c = TASK_RUNNING then upd_task cur (t_state_update (\<lambda>_. TASK_READY)) else sret ()) (\<lambda>_.
     sbind (get_task next) (\<lambda>n.
     sbind (if t_state n \<noteq> TASK_READY then
              sbind (if t_state n = TASK_SLEEPING then upd_task next (t_ticks_update (\<lambda>_. t_priority n)) else sret ()) (\<lambda>_.
              task_unblock next)
            else sret ()) (\<lambda>_.
     sbind (upd_task next (t_state_update (\<lambda>_. TASK_RUNNING))) (\<lambda>_.
     sbind (task_activate next) (\<lambda>_.
     task_switch next)))))))))))))"

definition task_yield :: "('a sched_scheme, unit) op" where
  "task_yield = schedule"

text \<open>\<open>blist = 0\<close> stands for \<open>NULL\<close>, the default list.\<close>

definition task_block :: "u32 \<Rightarrow> u32 \<Rightarrow> task_state \<Rightarrow> ('a sched_scheme, unit) op" where
  "task_block task blist st =
     sbind ensure_disabled (\<lambda>_.
     sbind (ensure_detached task) (\<lambda>_.
     sbind (sget block_list) (\<lambda>bl.
     let blist = (if blist = 0 then bl else blist)
     in sbind (on_heap (\<lambda>h. list_push h blist (task_node task))) (\<lambda>_.
        sbind (sensure (st \<noteq> TASK_READY \<and> st \<noteq> TASK_RUNNING)) (\<lambda>_.
        sbind (upd_task task (t_state_update (\<lambda>_. st))) (\<lambda>_.
        sbind (sget current) (\<lambda>cur. if cur = task then schedule else sret ())))))))"

text \<open>The 32-bit cells of the control blocks that the sleeping list is sorted by.\<close>

definition tick_cells :: "(u32 \<Rightarrow> task) \<Rightarrow> u32 \<Rightarrow> u32" where
  "tick_cells p a = t_ticks (p (a - 20))"

definition task_sleep :: "u32 \<Rightarrow> ('a sched_scheme, unit) op" where
  "task_sleep ms =
     sbind ensure_disabled (\<lambda>_.
     let ticks = ms div 10; ticks = (if ticks > 0 then ticks else 1)
     in sbind (sget current) (\<lambda>cur.
        sbind (sget jiffies) (\<lambda>j.
        sbind (upd_task cur (t_ticks_update (\<lambda>_. j + ticks))) (\<lambda>_.
        sbind (sget sleep_list) (\<lambda>sl.
        sbind (sget pcb) (\<lambda>p.
        sbind (on_heap (\<lambda>h. list_insert_sort h (tick_cells p) sl (task_node cur) 16)) (\<lambda>_.
        sbind (upd_task cur (t_state_update (\<lambda>_. TASK_SLEEPING))) (\<lambda>_.
        schedule))))))))"

text \<open>The loop over the sleeping list reads the next pointer before it removes a node.\<close>

partial_function (option) weakup_loop :: "u32 \<Rightarrow> 'a sched_scheme \<Rightarrow> (unit \<times> 'a sched_scheme) res option" where
  "weakup_loop ptr s =
     (if ptr = ltail (sleep_list s) then Some (Inr ((), s))
      else let task = node_task ptr
           in if t_ticks (pcb s task) > jiffies s then Some (Inr ((), s))
              else lbind (sbind (\<lambda>s. rbind (get_next (heap s) ptr) (\<lambda>n. Inr (n, s))) (\<lambda>n.
                          sbind (upd_task task (\<lambda>t. t\<lparr>t_ticks := t_priority t\<rparr>)) (\<lambda>_.
                          sbind (task_unblock task) (\<lambda>_. sret n))) s)
                    (\<lambda>r. weakup_loop (fst r) (snd r)))"

definition task_weakup :: "('a sched_scheme, unit) op" where
  "task_weakup =
     sbind ensure_disabled (\<lambda>_.
     sbind (sget sleep_list) (\<lambda>sl.
     sbind (\<lambda>s. rbind (get_next (heap s) (lhead sl)) (\<lambda>n. Inr (n, s))) (\<lambda>ptr.
     \<lambda>s. run_loop (weakup_loop ptr s))))"

subsection \<open>The clock\<close>

definition start_beep :: "('a sched_scheme, unit) op" where
  "start_beep =
     sbind (sget beeping) (\<lambda>b.
     sbind (if b = 0 then sbind (inb 0x61) (\<lambda>v. outb 0x61 (v OR 0x3)) else sret ()) (\<lambda>_.
     smodify (\<lambda>s. s\<lparr>beeping := jiffies s + 5\<rparr>)))"

definition stop_beep :: "('a sched_scheme, unit) op" where
  "stop_beep =
     sbind (sget (\<lambda>s. beeping s \<noteq> 0 \<and> jiffies s > beeping s)) (\<lambda>b.
     if b then sbind (inb 0x61) (\<lambda>v.
               sbind (outb 0x61 (v AND 0xfc)) (\<lambda>_. smodify (beeping_update (\<lambda>_. 0))))
     else sret ())"

definition clock_handler :: "int \<Rightarrow> ('a sched_scheme, unit) op" where
  "clock_handler vector =
     sbind (sensure (vector = 0x20)) (\<lambda>_.
     sbind (send_eoi vector) (\<lambda>_.
     sbind stop_beep (\<lambda>_.
     sbind task_weakup (\<lambda>_.
     sbind (smodify (\<lambda>s. s\<lparr>jiffies := jiffies s + 1\<rparr>)) (\<lambda>_.
     sbind (sget current) (\<lambda>cur.
     sbind (get_task cur) (\<lambda>t.
     sbind (sensure (t_magic t = ONIX_MAGIC)) (\<lambda>_.
     sbind (sget jiffies) (\<lambda>j.
     sbind (upd_task cur (\<lambda>t. t\<lparr>t_jiffies := j, t_ticks := t_ticks t - 1\<rparr>)) (\<lambda>_.
     sbind (get_task cur) (\<lambda>t.
     if t_ticks t = 0 then schedule else sret ())))))))))))"

definition sys_time :: "u32 \<Rightarrow> ('a sched_scheme, u32) op" where
  "sys_time startup_time = sget (\<lambda>s. startup_time + (jiffies s * 10) div 1000)"

definition pit_init :: "('a sched_scheme, unit) op" where
  "pit_init =
     (let c = 1193182 div 100 :: u32; b = 1193182 div 440 :: u32
      in sforeach [(0x43, 0x34), (0x40, ucast (c AND 0xff)), (0x40, ucast (drop_bit 8 c AND 0xff)),
                   (0x43, 0xb6), (0x42, ucast (b AND 0xff)), (0x42, ucast (drop_bit 8 b AND 0xff))]
           (\<lambda>(port, v). outb port v))"

definition clock_init :: "u32 \<Rightarrow> ('a sched_scheme, unit) op" where
  "clock_init handler = sbind pit_init (\<lambda>_. sbind (set_interrupt_handler 0 handler) (\<lambda>_. set_interrupt_mask 0 True))"

definition sys_getpid :: "('a sched_scheme, int) op" where
  "sys_getpid = sbind ensure_disabled (\<lambda>_. sbind (sget current) (\<lambda>c. sbind (get_task c) (\<lambda>t. sret (t_pid t))))"

definition sys_getppid :: "('a sched_scheme, int) op" where
  "sys_getppid = sbind ensure_disabled (\<lambda>_. sbind (sget current) (\<lambda>c. sbind (get_task c) (\<lambda>t. sret (t_ppid t))))"

subsection \<open>The invariant of the scheduler\<close>

definition live :: "'a sched_scheme \<Rightarrow> u32 set" where
  "live s = set (task_table s) - {0}"

definition waiting :: "task_state \<Rightarrow> bool" where
  "waiting st \<longleftrightarrow> st \<in> {TASK_BLOCKED, TASK_SLEEPING, TASK_WAITING}"

text \<open>The states from which \<open>schedule\<close> can bring a task to the processor.\<close>

definition runnable :: "task_state \<Rightarrow> bool" where
  "runnable st \<longleftrightarrow> st = TASK_READY \<or> st = TASK_RUNNING \<or> waiting st"

text \<open>The states in the order of the enumeration: those of a task that waits are an interval, and so are the runnable ones.\<close>

primrec state_nr :: "task_state \<Rightarrow> nat" where
  "state_nr TASK_INIT = 0" | "state_nr TASK_READY = 1" | "state_nr TASK_RUNNING = 2" | "state_nr TASK_BLOCKED = 3"
| "state_nr TASK_SLEEPING = 4" | "state_nr TASK_WAITING = 5" | "state_nr TASK_DEAD = 6"

lemma state_nr_inject: "state_nr a = state_nr b \<longleftrightarrow> a = b"
  by (cases a; cases b) simp_all

instantiation task_state :: linorder
begin

definition less_eq_task_state :: "task_state \<Rightarrow> task_state \<Rightarrow> bool" where
  "a \<le> b \<longleftrightarrow> state_nr a \<le> state_nr b"

definition less_task_state :: "task_state \<Rightarrow> task_state \<Rightarrow> bool" where
  "a < b \<longleftrightarrow> state_nr a < state_nr b"

instance
  by standard (auto simp: less_eq_task_state_def less_task_state_def state_nr_inject [symmetric])

end

lemma state_intervals:
  "waiting st \<longleftrightarrow> TASK_BLOCKED \<le> st \<and> st \<le> TASK_WAITING"
  "runnable st \<longleftrightarrow> TASK_READY \<le> st \<and> st \<le> TASK_WAITING"
  by (cases st; simp add: waiting_def runnable_def less_eq_task_state_def)+

text \<open>
  \<open>A\<close> are the addresses of the lists that tasks wait on, \<open>L\<close> gives the nodes of each. A task waits
  exactly when its node is on one of the lists, a task that does not wait is detached, and no task
  but the current one runs.
\<close>

definition sched_inv :: "u32 set \<Rightarrow> (u32 \<Rightarrow> u32 list) \<Rightarrow> 'a sched_scheme \<Rightarrow> bool" where
  "sched_inv A L s \<longleftrightarrow>
     (\<forall>t\<in>live s. \<forall>l\<in>A. list_node l (task_node t)) \<and>
     (\<forall>l\<in>A. dlist (heap s) l (L l)) \<and>
     (\<forall>l\<in>A. \<forall>m\<in>A. l \<noteq> m \<longrightarrow> set (path l (L l)) \<inter> set (path m (L m)) = {}) \<and>
     (\<forall>l\<in>A. \<forall>n\<in>set (L l). node_task n \<in> live s \<and> waiting (t_state (pcb s (node_task n)))) \<and>
     (\<forall>t\<in>live s. \<not> waiting (t_state (pcb s t)) \<longrightarrow> detached (heap s) (task_node t)) \<and>
     (\<forall>t\<in>live s. waiting (t_state (pcb s t)) \<longrightarrow> (\<exists>l\<in>A. task_node t \<in> set (L l))) \<and>
     (\<forall>t\<in>live s. t_state (pcb s t) = TASK_RUNNING \<longrightarrow> t = current s) \<and>
     (\<forall>t\<in>live s. t_magic (pcb s t) = ONIX_MAGIC \<and> page_aligned (t_pde (pcb s t))) \<and>
     block_list s \<in> A \<and> sleep_list s \<in> A \<and> 0 \<notin> A \<and> current s \<in> live s \<and> idle_task s \<in> live s \<and>
     runnable (t_state (pcb s (idle_task s))) \<and> \<not> c_if s"

lemma node_task_node [simp]: "node_task (task_node t) = t" "task_node (node_task n) = n"
  by (simp_all add: node_task_def task_node_def)

lemma node_task_inj [simp]: "node_task n = node_task m \<longleftrightarrow> n = m"
  by (simp add: node_task_def)

lemma task_node_inj [simp]: "task_node t = task_node u \<longleftrightarrow> t = u"
  by (simp add: task_node_def)

lemma dlist_frame:
  "dlist h l xs \<Longrightarrow> (\<And>c. c \<in> set (path l xs) \<Longrightarrow> h' c = h c) \<Longrightarrow> dlist h' l xs"
  using chain_cong [of "path l xs" h' h] by (auto simp: dlist_def)

lemma live_nonzero: "t \<in> live s \<Longrightarrow> t \<noteq> 0"
  by (simp add: live_def)

lemmas sched_upd_simps = get_task_def upd_task_def on_heap_def

lemma sbind_get_task: "t \<noteq> 0 \<Longrightarrow> sbind (get_task t) f s = f (pcb s t) s"
  by (simp add: get_task_def)

lemma sbind_upd_task: "t \<noteq> 0 \<Longrightarrow> sbind (upd_task t g) f s = f () (s\<lparr>pcb := (pcb s)(t := g (pcb s t))\<rparr>)"
  by (simp add: upd_task_def)

lemma sbind_disabled: "\<not> c_if s \<Longrightarrow> sbind ensure_disabled f s = f () s"
  by (simp add: ensure_disabled_def get_interrupt_state_def)

lemmas sched_steps = run_steps sbind_get_task sbind_upd_task sbind_disabled

lemma sched_invD:
  assumes "sched_inv A L s"
  shows "current s \<in> live s" "idle_task s \<in> live s" "runnable (t_state (pcb s (idle_task s)))" "\<not> c_if s"
    and "t \<in> live s \<Longrightarrow> t_state (pcb s t) = TASK_RUNNING \<longrightarrow> t = current s"
    and "t \<in> live s \<Longrightarrow> t_magic (pcb s t) = ONIX_MAGIC \<and> page_aligned (t_pde (pcb s t))"
    and "l \<in> A \<Longrightarrow> dlist (heap s) l (L l)"
    and "l \<in> A \<Longrightarrow> n \<in> set (L l) \<Longrightarrow> node_task n \<in> live s \<and> waiting (t_state (pcb s (node_task n)))"
    and "t \<in> live s \<Longrightarrow> \<not> waiting (t_state (pcb s t)) \<Longrightarrow> detached (heap s) (task_node t)"
    and "l \<in> A \<Longrightarrow> t \<in> live s \<Longrightarrow> list_node l (task_node t)"
    and "block_list s \<in> A" "sleep_list s \<in> A" "0 \<notin> A"
  using assms unfolding sched_inv_def by blast+

text \<open>A waiting task is taken off its list.\<close>

lemma sched_inv_remove:
  assumes inv: "sched_inv A L s" and t: "t \<in> live s" "waiting (t_state (pcb s t))" and st_def: "st = TASK_READY"
  shows "\<exists>h' L'. list_remove (heap s) (task_node t) = Inr h' \<and> detached h' (task_node t) \<and>
    sched_inv A L' (s\<lparr>heap := h', pcb := (pcb s)(t := (pcb s t)\<lparr>t_state := st\<rparr>)\<rparr>) \<and>
    (\<forall>l. set (L' l) \<subseteq> set (L l)) \<and>
    (\<exists>l us vs. l \<in> A \<and> L l = us @ task_node t # vs \<and> L' = L(l := us @ vs)) \<and>
    (\<forall>c. (\<forall>l\<in>A. c \<notin> set (path l (L l))) \<longrightarrow> h' c = heap s c)"
proof -
  have st: "\<not> waiting st" "st \<noteq> TASK_RUNNING" "runnable st" by (simp_all add: st_def waiting_def runnable_def)
  obtain l where l: "l \<in> A" "task_node t \<in> set (L l)"
    using inv t unfolding sched_inv_def by blast
  then obtain us vs where uv: "L l = us @ task_node t # vs" by (meson split_list)
  have dl: "dlist (heap s) l (us @ task_node t # vs)" using inv l(1) uv by (auto simp: sched_inv_def)
  from remove_dlist [OF dl] obtain h' where
    h': "list_remove (heap s) (task_node t) = Inr h'" "dlist h' l (us @ vs)" "detached h' (task_node t)"
      "\<forall>c. c \<notin> set (path l (us @ task_node t # vs)) \<longrightarrow> h' c = heap s c" by blast
  define L' where "L' = L(l := us @ vs)"
  define s' where "s' = s\<lparr>heap := h', pcb := (pcb s)(t := (pcb s t)\<lparr>t_state := st\<rparr>)\<rparr>"
  have dist: "distinct (us @ task_node t # vs)" using dl by (auto simp: dlist_def path_def)
  have disj: "set (path l (L l)) \<inter> set (path m (L m)) = {}" if "m \<in> A" "m \<noteq> l" for m
    using inv l(1) that unfolding sched_inv_def by blast
  have tm: "task_node t \<notin> set (L m)" if "m \<in> A" "m \<noteq> l" for m
    using disj [OF that] l(2) by (auto simp: path_def)
  have sub: "set (path m (L' m)) \<subseteq> set (path m (L m))" for m
    by (auto simp: L'_def uv path_def)
  have lv: "live s' = live s" by (simp add: s'_def live_def)
  have node_u: "u = t" if "u \<in> live s" "task_node u \<in> set (path l (L l))" "task_node u \<notin> set (path l (us @ vs))" for u
    using that by (auto simp: uv path_def)
  have sent: "task_node u \<noteq> lhead m" "task_node u \<noteq> ltail m" if "u \<in> live s" "m \<in> A" for u m
    using inv that unfolding sched_inv_def by (auto simp: list_node_def)
  have on: "m \<in> A \<Longrightarrow> n \<in> set (L m) \<Longrightarrow> node_task n \<in> live s \<and> waiting (t_state (pcb s (node_task n)))" for m n
    using inv unfolding sched_inv_def by blast
  have "sched_inv A L' s'"
    unfolding sched_inv_def lv
  proof (intro conjI ballI impI)
    fix m assume m: "m \<in> A"
    show "dlist (heap s') m (L' m)"
    proof (cases "m = l")
      case True
      then show ?thesis using h'(2) by (simp add: L'_def s'_def)
    next
      case False
      have "h' c = heap s c" if "c \<in> set (path m (L m))" for c
        using h'(4) disj [OF m False] that uv by auto
      moreover have "dlist (heap s) m (L m)" using inv m by (auto simp: sched_inv_def)
      ultimately show ?thesis using False dlist_frame by (auto simp: L'_def s'_def)
    qed
    fix n assume n: "n \<in> set (L' m)"
    have nL: "n \<in> set (L m)" using n by (auto simp: L'_def uv split: if_splits)
    have "node_task n \<noteq> t"
      using n m tm [OF m] dist by (auto simp: L'_def split: if_splits)
    with on [OF m nL] show "node_task n \<in> live s" "waiting (t_state (pcb s' (node_task n)))"
      by (simp_all add: s'_def)
  next
    fix m k assume "m \<in> A" "k \<in> A" "m \<noteq> k"
    then have "set (path m (L m)) \<inter> set (path k (L k)) = {}" using inv by (auto simp: sched_inv_def)
    with sub show "set (path m (L' m)) \<inter> set (path k (L' k)) = {}" by blast
  next
    fix u assume u: "u \<in> live s" "\<not> waiting (t_state (pcb s' u))"
    show "detached (heap s') (task_node u)"
    proof (cases "u = t")
      case True
      then show ?thesis using h'(3) by (simp add: s'_def)
    next
      case False
      then have nw: "\<not> waiting (t_state (pcb s u))" using u(2) by (simp add: s'_def)
      then have "task_node u \<notin> set (L l)" using on [OF l(1)] by fastforce
      then have "task_node u \<notin> set (path l (L l))" using sent [OF u(1) l(1)] by (auto simp: path_def)
      then have "h' (task_node u) = heap s (task_node u)" using h'(4) uv by auto
      moreover have "detached (heap s) (task_node u)" using inv u(1) nw unfolding sched_inv_def by blast
      ultimately show ?thesis by (simp add: s'_def detached_def)
    qed
  next
    fix u assume u: "u \<in> live s" "waiting (t_state (pcb s' u))"
    then have "u \<noteq> t" using st by (auto simp: s'_def)
    then have "waiting (t_state (pcb s u))" using u(2) by (simp add: s'_def)
    then obtain m where m: "m \<in> A" "task_node u \<in> set (L m)" using inv u(1) unfolding sched_inv_def by blast
    then show "\<exists>l\<in>A. task_node u \<in> set (L' l)"
      using \<open>u \<noteq> t\<close> by (intro bexI [of _ m]) (auto simp: L'_def uv)
  qed (use inv st in \<open>auto simp: sched_inv_def s'_def split: if_splits\<close>)
  moreover have "\<forall>l. set (L' l) \<subseteq> set (L l)" by (auto simp: L'_def uv)
  moreover have "\<forall>c. (\<forall>l\<in>A. c \<notin> set (path l (L l))) \<longrightarrow> h' c = heap s c" using h'(4) l(1) uv by auto
  ultimately show ?thesis using h'(1,3) l(1) uv unfolding s'_def L'_def by blast
qed

lemma task_unblock_ok:
  assumes "sched_inv A L s" "t \<in> live s" "waiting (t_state (pcb s t))"
  shows "\<exists>h' L'. task_unblock t s = Inr ((), s\<lparr>heap := h', pcb := (pcb s)(t := (pcb s t)\<lparr>t_state := TASK_READY\<rparr>)\<rparr>) \<and>
    sched_inv A L' (s\<lparr>heap := h', pcb := (pcb s)(t := (pcb s t)\<lparr>t_state := TASK_READY\<rparr>)\<rparr>) \<and>
    (\<forall>l. set (L' l) \<subseteq> set (L l)) \<and>
    (\<exists>l us vs. l \<in> A \<and> L l = us @ task_node t # vs \<and> L' = L(l := us @ vs))"
proof -
  from sched_inv_remove [OF assms refl] obtain h' L' where
    h': "list_remove (heap s) (task_node t) = Inr h'" "detached h' (task_node t)"
      "sched_inv A L' (s\<lparr>heap := h', pcb := (pcb s)(t := (pcb s t)\<lparr>t_state := TASK_READY\<rparr>)\<rparr>)"
      "\<forall>l. set (L' l) \<subseteq> set (L l)"
      "\<exists>l us vs. l \<in> A \<and> L l = us @ task_node t # vs \<and> L' = L(l := us @ vs)"
    by blast
  have "task_node t \<noteq> 0" using assms by (auto simp: sched_inv_def list_node_def)
  then have "task_unblock t s = Inr ((), s\<lparr>heap := h', pcb := (pcb s)(t := (pcb s t)\<lparr>t_state := TASK_READY\<rparr>)\<rparr>)"
    using h'(1,2) assms(1) live_nonzero [OF assms(2)]
    by (simp add: task_unblock_def ensure_disabled_def get_interrupt_state_def sched_upd_simps ensure_detached_def
        get_next_def get_prev_def detached_def sched_inv_def)
  with h' show ?thesis by blast
qed

text \<open>A task that does not wait is put on a list.\<close>

lemma sched_inv_add:
  assumes inv: "sched_inv A L s" and t: "t \<in> live s" "\<not> waiting (t_state (pcb s t))" and l: "l \<in> A"
    and h': "dlist h' l ys" "set ys = insert (task_node t) (set (L l))"
      "\<forall>c. c \<notin> set (path l (task_node t # L l)) \<longrightarrow> h' c = heap s c"
    and g: "waiting (t_state g)" "t_magic g = ONIX_MAGIC" "page_aligned (t_pde g)"
  shows "sched_inv A (L(l := ys)) (s\<lparr>heap := h', pcb := (pcb s)(t := g)\<rparr>)" (is "sched_inv A ?L ?s")
proof -
  have lv: "live ?s = live s" by (simp add: live_def)
  have on: "m \<in> A \<Longrightarrow> n \<in> set (L m) \<Longrightarrow> node_task n \<in> live s \<and> waiting (t_state (pcb s (node_task n)))" for m n
    using inv unfolding sched_inv_def by blast
  have sent: "task_node u \<noteq> 0" "task_node u \<noteq> lhead m" "task_node u \<noteq> ltail m" if "u \<in> live s" "m \<in> A" for u m
    using inv that unfolding sched_inv_def by (auto simp: list_node_def)
  have tn: "task_node t \<notin> set (path m (L m))" if "m \<in> A" for m
    using on [OF that, of "task_node t"] t sent [OF t(1) that] by (auto simp: path_def)
  have disj: "set (path k (L k)) \<inter> set (path m (L m)) = {}" if "m \<in> A" "k \<in> A" "k \<noteq> m" for m k
    using inv that unfolding sched_inv_def by blast
  have path_l: "set (path l ys) = insert (task_node t) (set (path l (L l)))"
    using h'(2) by (auto simp: path_def)
  have g': "t_state g \<noteq> TASK_RUNNING" "runnable (t_state g)" using g by (auto simp: waiting_def runnable_def)
  show ?thesis
    unfolding sched_inv_def lv
  proof (intro conjI ballI impI)
    fix m assume m: "m \<in> A"
    show "dlist (heap ?s) m (?L m)"
    proof (cases "m = l")
      case False
      have "h' c = heap s c" if "c \<in> set (path m (L m))" for c
      proof -
        have "set (path l (task_node t # L l)) = insert (task_node t) (set (path l (L l)))"
          by (auto simp: path_def)
        then have "c \<notin> set (path l (task_node t # L l))"
          using disj [OF m l] that tn [OF m] False by auto
        then show ?thesis using h'(3) by blast
      qed
      moreover have "dlist (heap s) m (L m)" using inv m by (auto simp: sched_inv_def)
      ultimately show ?thesis using False dlist_frame by auto
    qed (simp add: h'(1))
    fix n assume n: "n \<in> set (?L m)"
    then have "n = task_node t \<or> n \<in> set (L m)" using h'(2) by (auto split: if_splits)
    then show "node_task n \<in> live s" "waiting (t_state (pcb ?s (node_task n)))"
      using on [OF m] t(1) g by auto
  next
    fix m k assume mk: "m \<in> A" "k \<in> A" "m \<noteq> k"
    show "set (path m (?L m)) \<inter> set (path k (?L k)) = {}"
      using disj [OF mk(2,1) mk(3)] path_l tn [OF mk(1)] tn [OF mk(2)] mk(3) by auto
  next
    fix u assume u: "u \<in> live s" "\<not> waiting (t_state (pcb ?s u))"
    then have "u \<noteq> t" using g by auto
    then have nw: "\<not> waiting (t_state (pcb s u))" using u(2) by simp
    then have "task_node u \<notin> set (L l)" using on [OF l] by fastforce
    then have "task_node u \<notin> set (path l (task_node t # L l))"
      using sent [OF u(1) l] \<open>u \<noteq> t\<close> by (auto simp: path_def)
    then have "h' (task_node u) = heap s (task_node u)" using h'(3) by auto
    moreover have "detached (heap s) (task_node u)" using inv u(1) nw unfolding sched_inv_def by blast
    ultimately show "detached (heap ?s) (task_node u)" by (simp add: detached_def)
  next
    fix u assume u: "u \<in> live s" "waiting (t_state (pcb ?s u))"
    show "\<exists>m\<in>A. task_node u \<in> set (?L m)"
    proof (cases "u = t")
      case True
      then show ?thesis using l h'(2) by (intro bexI [of _ l]) auto
    next
      case False
      then obtain m where m: "m \<in> A" "task_node u \<in> set (L m)" using inv u unfolding sched_inv_def by auto
      then show ?thesis using h'(2) by (intro bexI [of _ m]) auto
    qed
  qed (use inv g g' in \<open>auto simp: sched_inv_def split: if_splits\<close>)
qed

text \<open>Changes that leave the lists and what a task waits for alone.\<close>

lemma sched_inv_cong:
  assumes inv: "sched_inv A L s"
    and eq: "task_table s' = task_table s" "heap s' = heap s" "block_list s' = block_list s"
      "sleep_list s' = sleep_list s" "idle_task s' = idle_task s" "c_if s' = c_if s" "current s' \<in> live s"
    and p: "\<And>u. u \<in> live s \<Longrightarrow> waiting (t_state (pcb s' u)) = waiting (t_state (pcb s u)) \<and>
        t_magic (pcb s' u) = t_magic (pcb s u) \<and> t_pde (pcb s' u) = t_pde (pcb s u) \<and>
        (t_state (pcb s' u) = TASK_RUNNING \<longrightarrow> u = current s')"
    and i: "runnable (t_state (pcb s' (idle_task s)))"
  shows "sched_inv A L s'"
proof -
  have "live s' = live s" using eq by (simp add: live_def)
  then show ?thesis using inv p i eq unfolding sched_inv_def by auto
qed

subsection \<open>Scheduling\<close>

definition candidate :: "'a sched_scheme \<Rightarrow> task_state \<Rightarrow> u32 \<Rightarrow> bool" where
  "candidate s st r \<longleftrightarrow> r \<noteq> 0 \<and> t_state (pcb s r) = st \<and> r \<noteq> current s"

lemma search_loop_candidate:
  "search_loop s st task (ptr # ptrs) =
     search_loop s st (if candidate s st ptr \<and> (task = 0 \<or> t_ticks (pcb s task) < t_ticks (pcb s ptr) \<or>
        t_jiffies (pcb s task) > t_jiffies (pcb s ptr)) then ptr else task) ptrs"
  by (auto simp: candidate_def)

lemma search_loop_result:
  "search_loop s st task ptrs = r \<Longrightarrow> r = task \<or> (r \<in> set ptrs \<and> candidate s st r)"
proof (induction ptrs arbitrary: task)
  case (Cons p ptrs)
  from Cons.IH [OF Cons.prems [unfolded search_loop_candidate]] show ?case by (auto split: if_splits)
qed simp

lemma search_loop_nonzero:
  "task \<noteq> 0 \<or> (\<exists>r\<in>set ptrs. candidate s st r) \<Longrightarrow> search_loop s st task ptrs \<noteq> 0"
proof (induction ptrs arbitrary: task)
  case (Cons p ptrs)
  then show ?case unfolding search_loop_candidate by (intro Cons.IH) (auto simp: candidate_def)
qed simp

text \<open>The task that \<open>schedule\<close> brings to the processor.\<close>

definition chosen :: "'a sched_scheme \<Rightarrow> u32" where
  "chosen s = (let task = search_loop s TASK_READY 0 (task_table s) in if task = 0 then idle_task s else task)"

lemma task_search_ready: "task_search TASK_READY s = Inr (chosen s, s)"
  by (simp add: task_search_def chosen_def Let_def)

lemma chosen_cases:
  assumes "current s \<in> live s" "idle_task s \<in> live s"
  shows "chosen s \<in> live s"
    and "t_state (pcb s (chosen s)) \<noteq> TASK_READY \<or> chosen s = current s \<Longrightarrow>
      chosen s = idle_task s \<and> (\<forall>t\<in>live s. t_state (pcb s t) = TASK_READY \<longrightarrow> t = current s)"
proof -
  let ?r = "search_loop s TASK_READY 0 (task_table s)"
  have nz: "?r = 0 \<Longrightarrow> \<forall>t\<in>live s. t_state (pcb s t) = TASK_READY \<longrightarrow> t = current s"
    using search_loop_nonzero [of 0 "task_table s" s TASK_READY] by (auto simp: live_def candidate_def)
  show "chosen s \<in> live s"
    using search_loop_result [OF refl, of s TASK_READY 0 "task_table s"] assms
    by (auto simp: chosen_def Let_def live_def candidate_def)
  show "t_state (pcb s (chosen s)) \<noteq> TASK_READY \<or> chosen s = current s \<Longrightarrow>
      chosen s = idle_task s \<and> (\<forall>t\<in>live s. t_state (pcb s t) = TASK_READY \<longrightarrow> t = current s)"
    using search_loop_result [OF refl, of s TASK_READY 0 "task_table s"] nz
    by (auto simp: chosen_def Let_def candidate_def split: if_splits)
qed

text \<open>The control block of the task that leaves the processor.\<close>

definition leave :: "task \<Rightarrow> task" where
  "leave c = (let d = (if t_ticks c = 0 then c\<lparr>t_ticks := t_priority c\<rparr> else c)
              in if t_state c = TASK_RUNNING then d\<lparr>t_state := TASK_READY\<rparr> else d)"

lemma leave_simps [simp]:
  "t_state (leave c) = (if t_state c = TASK_RUNNING then TASK_READY else t_state c)"
  "t_magic (leave c) = t_magic c" "t_pde (leave c) = t_pde c"
  "t_priority (leave c) = t_priority c" "t_uid (leave c) = t_uid c"
  by (simp_all add: leave_def Let_def)

lemma leave_steps:
  "c \<noteq> 0 \<Longrightarrow>
   sbind (if t_ticks (pcb s c) = 0 then upd_task c (t_ticks_update (\<lambda>_. t_priority (pcb s c))) else sret ()) (\<lambda>_.
     sbind (if t_state (pcb s c) = TASK_RUNNING then upd_task c (t_state_update (\<lambda>_. TASK_READY)) else sret ()) (\<lambda>_.
     m)) s = m (s\<lparr>pcb := (pcb s)(c := leave (pcb s c))\<rparr>)"
  by (simp add: upd_task_def leave_def Let_def)

lemma task_activate_ok:
  assumes "t \<noteq> 0" "t_magic (pcb s t) = ONIX_MAGIC" "page_aligned (t_pde (pcb s t))"
  shows "task_activate t s = Inr ((), s\<lparr>cr3_reg := t_pde (pcb s t),
     tss_esp0 := if t_uid (pcb s t) \<noteq> 0 then t + 0x1000 else tss_esp0 s\<rparr>)"
  using assms by (simp add: task_activate_def sched_upd_simps)

text \<open>The last statements of \<open>schedule\<close>: a ready task becomes the running one.\<close>

definition on_cpu :: "u32 \<Rightarrow> 'a sched_scheme \<Rightarrow> 'a sched_scheme" where
  "on_cpu n s = s\<lparr>pcb := (pcb s)(n := (pcb s n)\<lparr>t_state := TASK_RUNNING\<rparr>), cr3_reg := t_pde (pcb s n),
     tss_esp0 := if t_uid (pcb s n) \<noteq> 0 then n + 0x1000 else tss_esp0 s, current := n\<rparr>"

lemma on_cpu_steps:
  assumes "n \<noteq> 0" "t_magic (pcb s n) = ONIX_MAGIC" "page_aligned (t_pde (pcb s n))"
  shows "sbind (upd_task n (t_state_update (\<lambda>_. TASK_RUNNING))) (\<lambda>_.
     sbind (task_activate n) (\<lambda>_. task_switch n)) s = Inr ((), on_cpu n s)"
  using assms by (simp add: upd_task_def task_activate_ok task_switch_def on_cpu_def)

lemma sched_inv_on_cpu:
  assumes inv: "sched_inv A L s" and n: "n \<in> live s" "t_state (pcb s n) = TASK_READY"
    and none: "\<forall>t\<in>live s. t_state (pcb s t) \<noteq> TASK_RUNNING"
  shows "sched_inv A L (on_cpu n s)"
proof (rule sched_inv_cong [OF inv])
  show "runnable (t_state (pcb (on_cpu n s) (idle_task s)))"
    using sched_invD(3) [OF inv] by (simp add: on_cpu_def runnable_def)
  fix u assume "u \<in> live s"
  with none n show "waiting (t_state (pcb (on_cpu n s) u)) = waiting (t_state (pcb s u)) \<and>
        t_magic (pcb (on_cpu n s) u) = t_magic (pcb s u) \<and> t_pde (pcb (on_cpu n s) u) = t_pde (pcb s u) \<and>
        (t_state (pcb (on_cpu n s) u) = TASK_RUNNING \<longrightarrow> u = current (on_cpu n s))"
    by (simp add: on_cpu_def waiting_def)
qed (use n in \<open>simp_all add: on_cpu_def\<close>)

definition bring :: "u32 \<Rightarrow> ('a sched_scheme, unit) op" where
  "bring next =
     sbind (get_task next) (\<lambda>n.
     sbind (if t_state n \<noteq> TASK_READY then
              sbind (if t_state n = TASK_SLEEPING then upd_task next (t_ticks_update (\<lambda>_. t_priority n)) else sret ()) (\<lambda>_.
              task_unblock next)
            else sret ()) (\<lambda>_.
     sbind (upd_task next (t_state_update (\<lambda>_. TASK_RUNNING))) (\<lambda>_.
     sbind (task_activate next) (\<lambda>_.
     task_switch next))))"

text \<open>The control block of the task that gets the processor.\<close>

definition take_cpu :: "task \<Rightarrow> task" where
  "take_cpu n = (if t_state n = TASK_SLEEPING then n\<lparr>t_ticks := t_priority n\<rparr> else n)\<lparr>t_state := TASK_RUNNING\<rparr>"

text \<open>The part of the state that no scheduling step changes.\<close>

definition same_world :: "'a sched_scheme \<Rightarrow> 'a sched_scheme \<Rightarrow> bool" where
  "same_world s s' \<longleftrightarrow> task_table s' = task_table s \<and> block_list s' = block_list s \<and>
     sleep_list s' = sleep_list s \<and> idle_task s' = idle_task s \<and> jiffies s' = jiffies s \<and> beeping s' = beeping s"

lemma same_world_refl [simp]: "same_world s s"
  by (simp add: same_world_def)

lemma same_world_trans: "same_world s t \<Longrightarrow> same_world t u \<Longrightarrow> same_world s u"
  by (simp add: same_world_def)

lemma same_world_live: "same_world s s' \<Longrightarrow> live s' = live s"
  by (simp add: same_world_def live_def)

lemma bring_ok:
  assumes inv: "sched_inv A L s" and n: "n \<in> live s" "runnable (t_state (pcb s n))"
    and none: "\<forall>t\<in>live s. t_state (pcb s t) \<noteq> TASK_RUNNING"
  shows "\<exists>s' L'. bring n s = Inr ((), s') \<and> sched_inv A L' s' \<and> same_world s s' \<and> current s' = n \<and>
    pcb s' n = take_cpu (pcb s n) \<and> cr3_reg s' = t_pde (pcb s n) \<and> (\<forall>t. t \<noteq> n \<longrightarrow> pcb s' t = pcb s t) \<and>
    (\<not> waiting (t_state (pcb s n)) \<longrightarrow> L' = L) \<and> (\<forall>l. set (L' l) \<subseteq> set (L l))"
proof (cases "waiting (t_state (pcb s n))")
  case False
  have nz: "n \<noteq> 0" by (rule live_nonzero [OF n(1)])
  have m: "t_magic (pcb s n) = ONIX_MAGIC" "page_aligned (t_pde (pcb s n))"
    using sched_invD(6) [OF inv n(1)] by blast+
  have r: "t_state (pcb s n) = TASK_READY" using False n none by (simp add: runnable_def)
  have "bring n s = Inr ((), on_cpu n s)"
    unfolding bring_def using r on_cpu_steps [OF nz m] by (simp add: sbind_get_task [OF nz] run_steps del: sop_simps)
  moreover have "sched_inv A L (on_cpu n s)" by (rule sched_inv_on_cpu [OF inv n(1) r none])
  ultimately show ?thesis using r by (auto simp: on_cpu_def same_world_def take_cpu_def)
next
  case True
  let ?g = "if t_state (pcb s n) = TASK_SLEEPING then (pcb s n)\<lparr>t_ticks := t_priority (pcb s n)\<rparr> else pcb s n"
  define s2 where "s2 = s\<lparr>pcb := (pcb s)(n := ?g)\<rparr>"
  have nz: "n \<noteq> 0" by (rule live_nonzero [OF n(1)])
  have lv: "live s2 = live s" by (simp add: s2_def live_def)
  have st2: "t_state (pcb s2 u) = t_state (pcb s u)" for u by (simp add: s2_def)
  have inv2: "sched_inv A L s2"
  proof (rule sched_inv_cong [OF inv])
    show "runnable (t_state (pcb s2 (idle_task s)))" using sched_invD(3) [OF inv] by (simp add: st2)
    fix u assume "u \<in> live s"
    with none show "waiting (t_state (pcb s2 u)) = waiting (t_state (pcb s u)) \<and>
        t_magic (pcb s2 u) = t_magic (pcb s u) \<and> t_pde (pcb s2 u) = t_pde (pcb s u) \<and>
        (t_state (pcb s2 u) = TASK_RUNNING \<longrightarrow> u = current s2)"
      by (cases "u = n") (simp_all add: s2_def)
  qed (use sched_invD(1) [OF inv] in \<open>simp_all add: s2_def\<close>)
  have "n \<in> live s2" "waiting (t_state (pcb s2 n))" using n True by (simp_all add: lv st2)
  from task_unblock_ok [OF inv2 this] obtain h' L' where
    u: "task_unblock n s2 = Inr ((), s2\<lparr>heap := h', pcb := (pcb s2)(n := (pcb s2 n)\<lparr>t_state := TASK_READY\<rparr>)\<rparr>)"
      "sched_inv A L' (s2\<lparr>heap := h', pcb := (pcb s2)(n := (pcb s2 n)\<lparr>t_state := TASK_READY\<rparr>)\<rparr>)"
      "\<forall>l. set (L' l) \<subseteq> set (L l)" by blast
  define s3 where "s3 = s2\<lparr>heap := h', pcb := (pcb s2)(n := (pcb s2 n)\<lparr>t_state := TASK_READY\<rparr>)\<rparr>"
  have s3: "n \<in> live s3" "t_state (pcb s3 n) = TASK_READY" "\<forall>t\<in>live s3. t_state (pcb s3 t) \<noteq> TASK_RUNNING"
    using n none by (auto simp: s3_def s2_def live_def)
  have inv3: "sched_inv A L' s3" using u(2) by (simp only: s3_def)
  have m: "t_magic (pcb s3 n) = ONIX_MAGIC" "page_aligned (t_pde (pcb s3 n))"
    using sched_invD(6) [OF inv3 s3(1)] by blast+
  have "t_state (pcb s n) \<noteq> TASK_READY" using True by (auto simp: waiting_def)
  moreover have "sbind (if t_state (pcb s n) = TASK_SLEEPING then upd_task n (t_ticks_update (\<lambda>_. t_priority (pcb s n))) else sret ())
      (\<lambda>_. task_unblock n) s = Inr ((), s3)"
  proof -
    have "sbind (if t_state (pcb s n) = TASK_SLEEPING then upd_task n (t_ticks_update (\<lambda>_. t_priority (pcb s n)))
        else sret ()) f s = f () s2" for f :: "unit \<Rightarrow> ('a sched_scheme, unit) op"
      using nz by (cases "t_state (pcb s n) = TASK_SLEEPING") (simp_all add: sched_steps s2_def del: sop_simps)
    then show ?thesis using u(1) by (simp only: s3_def)
  qed
  ultimately have "bring n s = Inr ((), on_cpu n s3)"
    unfolding bring_def using on_cpu_steps [OF nz m]
    by (simp add: sbind_get_task [OF nz] sbind_run del: sop_simps)
  moreover have "sched_inv A L' (on_cpu n s3)" by (rule sched_inv_on_cpu [OF inv3 s3])
  moreover have "same_world s (on_cpu n s3)" "pcb (on_cpu n s3) n = take_cpu (pcb s n)"
    "current (on_cpu n s3) = n" "cr3_reg (on_cpu n s3) = t_pde (pcb s n)" "\<forall>t. t \<noteq> n \<longrightarrow> pcb (on_cpu n s3) t = pcb s t"
    by (auto simp: on_cpu_def s3_def s2_def same_world_def take_cpu_def)
  ultimately show ?thesis using u(3) True by blast
qed

text \<open>What \<open>schedule\<close> leaves behind.\<close>

definition scheduled :: "u32 set \<Rightarrow> (u32 \<Rightarrow> u32 list) \<Rightarrow> 'a sched_scheme \<Rightarrow> 'a sched_scheme \<Rightarrow> bool" where
  "scheduled A L s s' \<longleftrightarrow>
     sched_inv A L s' \<and> same_world s s' \<and> current s' = chosen s \<and> t_state (pcb s' (chosen s)) = TASK_RUNNING \<and>
     cr3_reg s' = t_pde (pcb s (chosen s)) \<and>
     (\<forall>t. t \<noteq> current s \<longrightarrow> t \<noteq> chosen s \<longrightarrow> pcb s' t = pcb s t) \<and>
     (current s \<noteq> chosen s \<longrightarrow> pcb s' (current s) = leave (pcb s (current s))) \<and>
     pcb s' (chosen s) = take_cpu (if chosen s = current s then leave (pcb s (current s)) else pcb s (chosen s))"

lemma take_cpu_state [simp]: "t_state (take_cpu n) = TASK_RUNNING"
  by (simp add: take_cpu_def)

lemma schedule_ok:
  assumes inv: "sched_inv A L s"
  shows "\<exists>s' L'. schedule s = Inr ((), s') \<and> scheduled A L' s s' \<and>
    (\<not> waiting (t_state (pcb s (chosen s))) \<longrightarrow> L' = L) \<and> (\<forall>l. set (L' l) \<subseteq> set (L l))"
proof -
  let ?c = "current s" and ?n = "chosen s"
  define s1 where "s1 = s\<lparr>pcb := (pcb s)(?c := leave (pcb s ?c))\<rparr>"
  have cl: "?c \<in> live s" "idle_task s \<in> live s" and i: "runnable (t_state (pcb s (idle_task s)))" "\<not> c_if s"
    using sched_invD [OF inv] by blast+
  have nl: "?n \<in> live s" by (rule chosen_cases(1) [OF cl])
  have nz: "?n \<noteq> 0" "?c \<noteq> 0" using nl cl by (auto simp: live_def)
  have run: "t_state (pcb s u) = TASK_RUNNING \<Longrightarrow> u = ?c" if "u \<in> live s" for u
    using sched_invD(5) [OF inv that] by blast
  have m: "t_magic (pcb s ?n) = ONIX_MAGIC" using sched_invD(6) [OF inv nl] by blast
  have lv: "live s1 = live s" by (simp add: s1_def live_def)
  have inv1: "sched_inv A L s1"
  proof (rule sched_inv_cong [OF inv])
    show "runnable (t_state (pcb s1 (idle_task s)))"
      using i(1) by (cases "idle_task s = ?c") (auto simp: s1_def runnable_def waiting_def)
    fix u assume u: "u \<in> live s"
    have "t_state (pcb s u) = TASK_RUNNING \<longrightarrow> u = ?c" using run [OF u] by blast
    then show "waiting (t_state (pcb s1 u)) = waiting (t_state (pcb s u)) \<and>
        t_magic (pcb s1 u) = t_magic (pcb s u) \<and> t_pde (pcb s1 u) = t_pde (pcb s u) \<and>
        (t_state (pcb s1 u) = TASK_RUNNING \<longrightarrow> u = current s1)"
      by (cases "u = ?c") (simp_all add: s1_def waiting_def)
  qed (use cl in \<open>simp_all add: s1_def\<close>)
  have none: "\<forall>t\<in>live s1. t_state (pcb s1 t) \<noteq> TASK_RUNNING"
  proof
    fix t assume "t \<in> live s1"
    then have "t_state (pcb s t) = TASK_RUNNING \<longrightarrow> t = ?c" using run [of t] by (simp add: lv)
    then show "t_state (pcb s1 t) \<noteq> TASK_RUNNING" by (cases "t = ?c") (simp_all add: s1_def)
  qed
  have st: "runnable (t_state (pcb s1 ?n))"
  proof (cases "t_state (pcb s ?n) = TASK_READY")
    case False
    then have "?n = idle_task s1" using chosen_cases(2) [OF cl] by (simp add: s1_def)
    with sched_invD(3) [OF inv1] show ?thesis by simp
  next
    case True
    then show ?thesis by (cases "?n = ?c") (simp_all add: runnable_def s1_def)
  qed
  have run: "schedule s = bring ?n s1"
    unfolding schedule_def bring_def [symmetric] s1_def leave_steps [OF nz(2), symmetric]
    using i(2) nz m by (simp add: sched_steps sbind_run [OF task_search_ready] del: sop_simps)
  have s1: "waiting (t_state (pcb s1 ?n)) = waiting (t_state (pcb s ?n))" "same_world s s1" "t_pde (pcb s1 ?n) = t_pde (pcb s ?n)"
      "\<And>t. t \<noteq> ?c \<Longrightarrow> pcb s1 t = pcb s t" "pcb s1 ?c = leave (pcb s ?c)"
    by (simp_all add: s1_def same_world_def waiting_def)
  have "?n \<in> live s1" using nl by (simp add: lv)
  from bring_ok [OF inv1 this st none] obtain s' L' where
    b: "bring ?n s1 = Inr ((), s')" "sched_inv A L' s'" "same_world s1 s'" "current s' = ?n" "pcb s' ?n = take_cpu (pcb s1 ?n)"
      "cr3_reg s' = t_pde (pcb s1 ?n)" "\<forall>t. t \<noteq> ?n \<longrightarrow> pcb s' t = pcb s1 t" "\<not> waiting (t_state (pcb s1 ?n)) \<longrightarrow> L' = L"
      "\<forall>l. set (L' l) \<subseteq> set (L l)" by blast
  then have "scheduled A L' s s'"
    using same_world_trans [OF s1(2)] s1(3-5) by (auto simp: scheduled_def)
  then show ?thesis
    using b run s1(1) by (intro exI [of _ s'] exI [of _ L']) simp
qed

text \<open>A task with nothing in it, for concrete instances.\<close>

definition blank_task :: task where
  "blank_task = \<lparr>t_stack = 0, t_state = TASK_READY, t_priority = 5, t_ticks = 5, t_jiffies = 0, t_name = [],
     t_uid = 0, t_gid = 0, t_pid = 0, t_ppid = 0, t_pde = 0x1000, t_vmap = \<lparr>bm_bits = [], bm_length = 0, bm_offset = 0\<rparr>,
     t_text = 0, t_data = 0, t_end = 0, t_brk = 0, t_status = 0, t_waitpid = 0, t_pwd = 0, t_ipwd = 0,
     t_iroot = 0, t_iexec = 0, t_umask = 0, t_files = [], t_magic = ONIX_MAGIC\<rparr>"

end
