(* ===== verification/Tasks.thy ===== *)
theory Tasks
  imports Sched
begin

text \<open>
  The operations of \<open>src/src/kernel/tasks.c\<close> and \<open>src/src/kernel/clock.c\<close> that put tasks to sleep and wake
  them, proved to keep the invariant of the scheduler; and the scheduler as a transition system: the
  steps that the kernel takes between two moments at which a task runs, with the invariant of every
  state that can be reached.
\<close>

subsection \<open>Blocking\<close>

definition blocked_on :: "'a sched_scheme \<Rightarrow> u32 \<Rightarrow> u32" where
  "blocked_on s blist = (if blist = 0 then block_list s else blist)"

lemma task_block_ok:
  assumes inv: "sched_inv A L s" and t: "t \<in> live s" "\<not> waiting (t_state (pcb s t))"
    and l: "blocked_on s blist \<in> A" and st: "waiting st"
  shows "\<exists>h'. let l = blocked_on s blist;
      s1 = s\<lparr>heap := h', pcb := (pcb s)(t := (pcb s t)\<lparr>t_state := st\<rparr>)\<rparr>
    in sched_inv A (L(l := task_node t # L l)) s1 \<and>
       task_block t blist st s = (if current s = t then schedule s1 else Inr ((), s1))"
proof -
  let ?l = "blocked_on s blist"
  have nz: "t \<noteq> 0" by (rule live_nonzero [OF t(1)])
  have det: "detached (heap s) (task_node t)" by (rule sched_invD(9) [OF inv t])
  have tn: "list_node ?l (task_node t)" by (rule sched_invD(10) [OF inv l t(1)])
  have "task_node t \<notin> set (L ?l)" using sched_invD(8) [OF inv l] t(2) by fastforce
  then have "fresh ?l (L ?l) (task_node t)" by (rule fresh_list_node [OF tn])
  from list_push_dlist [OF sched_invD(7) [OF inv l] this] obtain h' where
    h': "list_push (heap s) ?l (task_node t) = Inr h'" "dlist h' ?l (task_node t # L ?l)"
      "\<forall>c. c \<notin> set (path ?l (task_node t # L ?l)) \<longrightarrow> h' c = heap s c" by blast
  define s1 where "s1 = s\<lparr>heap := h', pcb := (pcb s)(t := (pcb s t)\<lparr>t_state := st\<rparr>)\<rparr>"
  have "sched_inv A (L(?l := task_node t # L ?l)) s1"
    unfolding s1_def using sched_invD(6) [OF inv t(1)] st
    by (intro sched_inv_add [OF inv t l h'(2) _ h'(3)]) simp_all
  moreover have "ensure_detached t s = Inr ((), s)"
    using det tn by (simp add: ensure_detached_def get_next_def get_prev_def detached_def list_node_def)
  moreover have "on_heap (\<lambda>h. list_push h ?l (task_node t)) s = Inr ((), s\<lparr>heap := h'\<rparr>)"
    using h'(1) by (simp add: on_heap_def)
  moreover have "st \<noteq> TASK_READY \<and> st \<noteq> TASK_RUNNING" using st by (auto simp: waiting_def)
  ultimately have "sched_inv A (L(?l := task_node t # L ?l)) s1 \<and>
      task_block t blist st s = (if current s = t then schedule s1 else Inr ((), s1))"
    unfolding task_block_def using sched_invD(4) [OF inv] nz
    by (simp add: Let_def sched_steps sbind_run blocked_on_def [symmetric] s1_def del: sop_simps) (simp add: s1_def)
  then show ?thesis unfolding s1_def Let_def by blast
qed

text \<open>A task that is not the idle task and blocks itself waits afterwards.\<close>

lemma task_block_self:
  assumes inv: "sched_inv A L s" and c: "\<not> waiting (t_state (pcb s (current s)))" "current s \<noteq> idle_task s"
    and l: "blocked_on s blist \<in> A" and st: "waiting st"
  shows "\<exists>s' L'. task_block (current s) blist st s = Inr ((), s') \<and> sched_inv A L' s' \<and> same_world s s' \<and>
    t_state (pcb s' (current s)) = st \<and> current s' \<noteq> current s \<and> current s' \<in> live s \<and>
    t_state (pcb s' (current s')) = TASK_RUNNING \<and> (\<forall>t. t \<noteq> current s \<longrightarrow> t \<noteq> current s' \<longrightarrow> pcb s' t = pcb s t) \<and>
    (\<not> waiting (t_state (pcb s (current s'))) \<longrightarrow>
       L' = L(blocked_on s blist := task_node (current s) # L (blocked_on s blist)))"
proof -
  let ?t = "current s" and ?l = "blocked_on s blist"
  from task_block_ok [OF inv sched_invD(1) [OF inv] c(1) l st] obtain h' s1 where
    s1: "s1 = s\<lparr>heap := h', pcb := (pcb s)(?t := (pcb s ?t)\<lparr>t_state := st\<rparr>)\<rparr>" "sched_inv A (L(?l := task_node ?t # L ?l)) s1"
      "task_block ?t blist st s = schedule s1" by (auto simp: Let_def)
  from schedule_ok [OF s1(2)] obtain s' L' where
    s': "schedule s1 = Inr ((), s')" "scheduled A L' s1 s'"
      "\<not> waiting (t_state (pcb s1 (chosen s1))) \<longrightarrow> L' = L(?l := task_node ?t # L ?l)" by blast
  have cl: "current s1 \<in> live s1" "idle_task s1 \<in> live s1" using sched_invD(1,2) [OF s1(2)] by blast+
  have i: "current s1 = ?t" "idle_task s1 = idle_task s" by (simp_all add: s1(1))
  then have ne: "chosen s1 \<noteq> ?t" using chosen_cases(2) [OF cl] c(2) by metis
  have v: "current s1 = ?t" "live s1 = live s" "pcb s1 ?t = (pcb s ?t)\<lparr>t_state := st\<rparr>" "\<And>t. t \<noteq> ?t \<Longrightarrow> pcb s1 t = pcb s t"
    "same_world s s1" by (simp_all add: s1(1) live_def same_world_def)
  have "st \<noteq> TASK_RUNNING" using st by (auto simp: waiting_def)
  then have p: "pcb s' ?t = (pcb s ?t)\<lparr>t_state := st\<rparr> \<or> t_state (pcb s' ?t) = st" and
    "sched_inv A L' s'" "same_world s1 s'" "current s' = chosen s1" "t_state (pcb s' (chosen s1)) = TASK_RUNNING"
    "\<forall>t. t \<noteq> ?t \<longrightarrow> t \<noteq> chosen s1 \<longrightarrow> pcb s' t = pcb s t"
    using s'(2) ne v(1,3,4) by (auto simp: scheduled_def)
  moreover have "t_state (pcb s' ?t) = st" using p by auto
  moreover have "chosen s1 \<in> live s" using chosen_cases(1) [OF cl] v(2) by simp
  moreover have "\<not> waiting (t_state (pcb s (chosen s1))) \<longrightarrow> L' = L(?l := task_node ?t # L ?l)" using s'(3) v(4) [OF ne] by simp
  moreover have "task_block ?t blist st s = Inr ((), s')" using s1(3) s'(1) by simp
  ultimately show ?thesis using ne same_world_trans [OF v(5)] by (intro exI [of _ s'] exI [of _ L']) simp
qed

subsection \<open>Sleeping\<close>

definition sleep_key :: "(u32 \<Rightarrow> task) \<Rightarrow> u32 \<Rightarrow> int" where
  "sleep_key p n = sint (t_ticks (p (node_task n)))"

lemma element_node_key_ticks: "element_node_key (tick_cells p) 16 = sleep_key p"
  by (rule ext) (simp add: element_node_key_def tick_cells_def sleep_key_def node_task_def)

definition deadline :: "'a sched_scheme \<Rightarrow> u32 \<Rightarrow> u32" where
  "deadline s ms = jiffies s + (if ms div 10 > 0 then ms div 10 else 1)"

lemma task_sleep_ok:
  assumes inv: "sched_inv A L s" and run: "\<not> waiting (t_state (pcb s (current s)))"
  shows "\<exists>h'. let c = current s; g = (pcb s c)\<lparr>t_ticks := deadline s ms\<rparr>; sl = sleep_list s;
      s1 = s\<lparr>heap := h', pcb := (pcb s)(c := g\<lparr>t_state := TASK_SLEEPING\<rparr>)\<rparr>
    in sched_inv A (L(sl := sorted_ins (sleep_key ((pcb s)(c := g))) (task_node c) (L sl))) s1 \<and>
       task_sleep ms s = schedule s1"
proof -
  let ?c = "current s" and ?sl = "sleep_list s"
  let ?g = "(pcb s ?c)\<lparr>t_ticks := deadline s ms\<rparr>"
  let ?p = "(pcb s)(?c := ?g)"
  have c: "?c \<in> live s" and sl: "?sl \<in> A" using sched_invD [OF inv] by blast+
  have nz: "?c \<noteq> 0" by (rule live_nonzero [OF c])
  have det: "detached (heap s) (task_node ?c)" by (rule sched_invD(9) [OF inv c run])
  have "task_node ?c \<notin> set (L ?sl)" using sched_invD(8) [OF inv sl] run by fastforce
  then have "fresh ?sl (L ?sl) (task_node ?c)" by (rule fresh_list_node [OF sched_invD(10) [OF inv sl c]])
  from list_insert_sort_dlist [OF sched_invD(7) [OF inv sl] this det, of "tick_cells ?p" 16]
  obtain h' where h': "list_insert_sort (heap s) (tick_cells ?p) ?sl (task_node ?c) 16 = Inr h'"
      "dlist h' ?sl (sorted_ins (sleep_key ?p) (task_node ?c) (L ?sl))"
      "\<forall>c. c \<notin> set (path ?sl (task_node ?c # L ?sl)) \<longrightarrow> h' c = heap s c"
    unfolding element_node_key_ticks by blast
  define s1 where "s1 = s\<lparr>heap := h', pcb := (pcb s)(?c := ?g\<lparr>t_state := TASK_SLEEPING\<rparr>)\<rparr>"
  have "sched_inv A (L(?sl := sorted_ins (sleep_key ?p) (task_node ?c) (L ?sl))) s1"
    unfolding s1_def using sched_invD(6) [OF inv c]
    by (intro sched_inv_add [OF inv c run sl h'(2) _ h'(3)]) (simp_all add: waiting_def)
  moreover have "task_sleep ms s = schedule s1"
  proof -
    have "on_heap (\<lambda>h. list_insert_sort h (tick_cells ?p) ?sl (task_node ?c) 16) (s\<lparr>pcb := ?p\<rparr>) =
        Inr ((), s\<lparr>heap := h', pcb := ?p\<rparr>)"
      using h'(1) by (simp add: on_heap_def)
    then show ?thesis
      unfolding task_sleep_def Let_def using sched_invD(4) [OF inv] nz
      by (simp add: sched_steps sbind_run deadline_def s1_def del: sop_simps)
  qed
  ultimately show ?thesis unfolding s1_def Let_def by blast
qed

subsection \<open>Waking the sleepers whose time has come\<close>

definition due :: "'a sched_scheme \<Rightarrow> u32 \<Rightarrow> bool" where
  "due s n \<longleftrightarrow> t_ticks (pcb s (node_task n)) \<le> jiffies s"

definition wake :: "task \<Rightarrow> task" where
  "wake t = t\<lparr>t_ticks := t_priority t, t_state := TASK_READY\<rparr>"

text \<open>The state after the tasks of the nodes in \<open>ns\<close> are woken.\<close>

definition woken :: "u32 list \<Rightarrow> (u32 \<Rightarrow> task) \<Rightarrow> u32 \<Rightarrow> task" where
  "woken ns p t = (if task_node t \<in> set ns then wake (p t) else p t)"

lemma woken_Nil [simp]: "woken [] p = p"
  by (simp add: woken_def fun_eq_iff)

lemma woken_Cons: "n \<notin> set ns \<Longrightarrow> woken ns (p(node_task n := wake (p (node_task n)))) = woken (n # ns) p"
  by (auto simp: woken_def fun_eq_iff)

lemma sched_inv_same_list:
  assumes "sched_inv A L s" "l \<in> A" "m \<in> A" "n \<in> set (L l)" "n \<in> set (L m)"
  shows "l = m"
proof (rule ccontr)
  assume "l \<noteq> m"
  with assms have "set (path l (L l)) \<inter> set (path m (L m)) = {}" unfolding sched_inv_def by blast
  with assms(4,5) show False by (auto simp: path_def)
qed

lemma weakup_loop_ok:
  assumes "sched_inv A L s" "\<not> waiting (t_state (pcb s (current s)))"
  shows "\<exists>h'. let sl = sleep_list s; due = takeWhile (due s) (L sl);
      s' = s\<lparr>heap := h', pcb := woken due (pcb s)\<rparr>
    in weakup_loop (hd (L sl @ [ltail sl])) s = Some (Inr ((), s')) \<and>
       sched_inv A (L(sl := drop (length due) (L sl))) s'"
  using assms
proof (induction "L (sleep_list s)" arbitrary: s L)
  case Nil
  have L: "L (sleep_list s) = []" using Nil.hyps by simp
  then have "L(sleep_list s := []) = L" by (intro fun_upd_idem)
  then show ?case using Nil.prems unfolding Let_def L
    by (intro exI [of _ "heap s"]) (simp add: weakup_loop.simps)
next
  case (Cons n ns)
  let ?sl = "sleep_list s" and ?t = "node_task n"
  have sl: "?sl \<in> A" and d: "dlist (heap s) ?sl (n # ns)" and on: "?t \<in> live s" "waiting (t_state (pcb s ?t))"
    using sched_invD [OF Cons.prems(1)] Cons.hyps(2) by (metis list.set_intros(1))+
  have n: "n \<noteq> ltail ?sl" "n \<noteq> 0" "n \<notin> set ns" using d by (auto simp: dlist_def path_def)
  have L: "L ?sl = n # ns" using Cons.hyps(2) by simp
  show ?case
  proof (cases "due s n")
    case False
    have "L(?sl := n # ns) = L" using L by (intro fun_upd_idem)
    moreover have "jiffies s < t_ticks (pcb s ?t)" using False by (simp add: due_def not_le)
    ultimately show ?thesis using n Cons.prems(1) False unfolding Let_def L
      by (intro exI [of _ "heap s"]) (simp add: weakup_loop.simps [of n, unfolded Let_def])
  next
    case True
    obtain b bs where b: "ns @ [ltail ?sl] = b # bs" by (cases "ns @ [ltail ?sl]") auto
    have next_n: "get_next (heap s) n = Inr b"
      using dlist_links(1) [of "heap s" ?sl "[n]" ns "[lhead ?sl]" n b bs] d b n(2) by (simp add: get_next_def)
    let ?g = "(pcb s ?t)\<lparr>t_ticks := t_priority (pcb s ?t)\<rparr>"
    define s1 where "s1 = s\<lparr>pcb := (pcb s)(?t := ?g)\<rparr>"
    have inv1: "sched_inv A L s1"
    proof (rule sched_inv_cong [OF Cons.prems(1)])
      show "runnable (t_state (pcb s1 (idle_task s)))"
        using sched_invD(3) [OF Cons.prems(1)] by (cases "idle_task s = ?t") (simp_all add: s1_def)
      fix u assume u: "u \<in> live s"
      show "waiting (t_state (pcb s1 u)) = waiting (t_state (pcb s u)) \<and>
          t_magic (pcb s1 u) = t_magic (pcb s u) \<and> t_pde (pcb s1 u) = t_pde (pcb s u) \<and>
          (t_state (pcb s1 u) = TASK_RUNNING \<longrightarrow> u = current s1)"
        using sched_invD(5) [OF Cons.prems(1) u] by (cases "u = ?t") (simp_all add: s1_def)
    qed (use sched_invD(1) [OF Cons.prems(1)] in \<open>simp_all add: s1_def\<close>)
    have "?t \<in> live s1" "waiting (t_state (pcb s1 ?t))" using on by (simp_all add: s1_def live_def)
    from task_unblock_ok [OF inv1 this] obtain h1 L1 l us vs where
      u: "task_unblock ?t s1 = Inr ((), s1\<lparr>heap := h1, pcb := (pcb s1)(?t := (pcb s1 ?t)\<lparr>t_state := TASK_READY\<rparr>)\<rparr>)"
        "sched_inv A L1 (s1\<lparr>heap := h1, pcb := (pcb s1)(?t := (pcb s1 ?t)\<lparr>t_state := TASK_READY\<rparr>)\<rparr>)"
        "l \<in> A" "L l = us @ n # vs" "L1 = L(l := us @ vs)" by auto
    have "l = ?sl" using sched_inv_same_list [OF Cons.prems(1) u(3) sl, of n] u(4) L by simp
    with u(4) L n(3) have "us = []" "vs = ns" by (auto simp: Cons_eq_append_conv)
    with u(5) \<open>l = ?sl\<close> have L1: "L1 = L(?sl := ns)" by simp
    define s2 where "s2 = s\<lparr>heap := h1, pcb := (pcb s)(?t := wake (pcb s ?t))\<rparr>"
    have s2: "s1\<lparr>heap := h1, pcb := (pcb s1)(?t := (pcb s1 ?t)\<lparr>t_state := TASK_READY\<rparr>)\<rparr> = s2"
      by (simp add: s1_def s2_def wake_def)
    have "ns = L1 (sleep_list s2)" by (simp add: L1 s2_def)
    moreover have "sched_inv A L1 s2" using u(2) by (simp only: s2)
    moreover have "\<not> waiting (t_state (pcb s2 (current s2)))"
      using Cons.prems(2) by (cases "current s = ?t") (simp_all add: s2_def wake_def waiting_def)
    ultimately obtain h' where h': "let sl = sleep_list s2; due = takeWhile (due s2) (L1 sl);
         s' = s2\<lparr>heap := h', pcb := woken due (pcb s2)\<rparr>
       in weakup_loop (hd (L1 sl @ [ltail sl])) s2 = Some (Inr ((), s')) \<and>
          sched_inv A (L1(sl := drop (length due) (L1 sl))) s'"
      using Cons.hyps(1) [of L1 s2] by blast
    have tw: "takeWhile (due s2) ns = takeWhile (due s) ns"
      using n(3) by (intro takeWhile_cong) (auto simp: due_def s2_def)
    have nt: "n \<notin> set (takeWhile (due s) ns)" using n(3) by (meson set_takeWhileD)
    have lt: "t_ticks (pcb s ?t) \<le> jiffies s" using True by (simp add: due_def)
    have "weakup_loop n s = weakup_loop b s2"
      using lt n next_n u(1) live_nonzero [OF on(1)]
      by (simp add: leD weakup_loop.simps [of n, unfolded Let_def] upd_task_def s2 s1_def [symmetric] not_less cong: run_congs)
    have "hd (L1 ?sl @ [ltail ?sl]) = b" using b by (simp add: L1)
    show ?thesis
    proof (intro exI [of _ h'])
      have "sleep_list s2 = ?sl" "s2\<lparr>heap := h', pcb := q\<rparr> = s\<lparr>heap := h', pcb := q\<rparr>"
        "woken (takeWhile (due s) ns) (pcb s2) = woken (n # takeWhile (due s) ns) (pcb s)" for q
        using nt by (simp_all add: s2_def woken_Cons)
      with h' True show "let sl = sleep_list s; due = takeWhile (due s) (L sl);
          s' = s\<lparr>heap := h', pcb := woken due (pcb s)\<rparr>
        in weakup_loop (hd (L sl @ [ltail sl])) s = Some (Inr ((), s')) \<and>
           sched_inv A (L(sl := drop (length due) (L sl))) s'"
        using \<open>weakup_loop n s = weakup_loop b s2\<close> \<open>hd (L1 ?sl @ [ltail ?sl]) = b\<close>
        by (simp add: Let_def L L1 tw)
    qed
  qed
qed

lemma task_weakup_ok:
  assumes inv: "sched_inv A L s" and run: "\<not> waiting (t_state (pcb s (current s)))"
  shows "\<exists>h'. let sl = sleep_list s; due = takeWhile (due s) (L sl);
      s' = s\<lparr>heap := h', pcb := woken due (pcb s)\<rparr>
    in task_weakup s = Inr ((), s') \<and> sched_inv A (L(sl := drop (length due) (L sl))) s'"
proof -
  let ?sl = "sleep_list s"
  obtain b bs where b: "L ?sl @ [ltail ?sl] = b # bs" by (cases "L ?sl @ [ltail ?sl]") auto
  have "get_next (heap s) (lhead ?sl) = Inr (hd (L ?sl @ [ltail ?sl]))"
    using first_link [OF sched_invD(7) [OF inv sched_invD(12) [OF inv]] b] b by simp
  then have "task_weakup s = run_loop (weakup_loop (hd (L ?sl @ [ltail ?sl])) s)"
    unfolding task_weakup_def using sched_invD(4) [OF inv] by (simp add: sched_steps sbind_run del: sop_simps)
  moreover obtain h' where "let due = takeWhile (due s) (L ?sl); s' = s\<lparr>heap := h', pcb := woken due (pcb s)\<rparr>
    in weakup_loop (hd (L ?sl @ [ltail ?sl])) s = Some (Inr ((), s')) \<and>
       sched_inv A (L(?sl := drop (length due) (L ?sl))) s'"
    using weakup_loop_ok [OF inv run] unfolding Let_def by blast
  ultimately show ?thesis unfolding Let_def by (intro exI [of _ h']) simp
qed

subsection \<open>Between two tasks\<close>

text \<open>
  The states of the scheduler in which a task runs: the invariant holds for some contents of the
  lists, and the current task is the one that is marked as running.
\<close>

definition good :: "u32 set \<Rightarrow> 'a sched_scheme \<Rightarrow> bool" where
  "good A s \<longleftrightarrow> (\<exists>L. sched_inv A L s) \<and> t_state (pcb s (current s)) = TASK_RUNNING"

lemma goodD: "good A s \<Longrightarrow> \<exists>L. sched_inv A L s \<and> \<not> waiting (t_state (pcb s (current s)))"
  by (auto simp: good_def waiting_def)

lemma schedule_good: "sched_inv A L s \<Longrightarrow> \<exists>s'. schedule s = Inr ((), s') \<and> good A s' \<and> same_world s s'"
  using schedule_ok [of A L s] by (fastforce simp: scheduled_def good_def)

lemma task_block_good:
  assumes g: "good A s" and t: "t \<in> live s" "\<not> waiting (t_state (pcb s t))"
    and l: "blocked_on s blist \<in> A" and st: "waiting st"
  shows "\<exists>s'. task_block t blist st s = Inr ((), s') \<and> good A s' \<and> same_world s s'"
proof -
  obtain L where inv: "sched_inv A L s" using g by (auto simp: good_def)
  from task_block_ok [OF inv t l st] obtain h' s1 L1 where
    s1: "s1 = s\<lparr>heap := h', pcb := (pcb s)(t := (pcb s t)\<lparr>t_state := st\<rparr>)\<rparr>" "sched_inv A L1 s1"
      "task_block t blist st s = (if current s = t then schedule s1 else Inr ((), s1))"
    unfolding Let_def by blast
  have w: "same_world s s1" by (simp add: s1 same_world_def)
  show ?thesis
  proof (cases "current s = t")
    case True
    then show ?thesis using schedule_good [OF s1(2)] s1(3) same_world_trans [OF w] by metis
  next
    case False
    then have "good A s1" using g s1(1,2) by (auto simp: good_def)
    then show ?thesis using False s1(3) w by auto
  qed
qed

lemma task_unblock_good:
  assumes g: "good A s" and t: "t \<in> live s" "waiting (t_state (pcb s t))"
  shows "\<exists>s'. task_unblock t s = Inr ((), s') \<and> good A s' \<and> same_world s s'"
proof -
  obtain L where inv: "sched_inv A L s" using g by (auto simp: good_def)
  have "t \<noteq> current s" using g t by (auto simp: good_def waiting_def)
  with task_unblock_ok [OF inv t] g show ?thesis by (fastforce simp: good_def same_world_def)
qed

lemma task_sleep_good:
  assumes "good A s"
  shows "\<exists>s'. task_sleep ms s = Inr ((), s') \<and> good A s' \<and> same_world s s'"
proof -
  obtain L where inv: "sched_inv A L s" "\<not> waiting (t_state (pcb s (current s)))" using goodD [OF assms] by blast
  from task_sleep_ok [OF inv] obtain h' g s1 L1 where
    s1: "s1 = s\<lparr>heap := h', pcb := (pcb s)(current s := g)\<rparr>" "sched_inv A L1 s1" "task_sleep ms s = schedule s1"
    unfolding Let_def by blast
  have "same_world s s1" by (simp add: s1 same_world_def)
  with schedule_good [OF s1(2)] s1(3) same_world_trans show ?thesis by metis
qed

lemma clock_prologue:
  obtains tr b where "sbind (send_eoi 0x20) (\<lambda>_. sbind stop_beep f) s = f () (s\<lparr>p_trace := tr, beeping := b\<rparr>)"
proof (cases "beeping s \<noteq> 0 \<and> beeping s < jiffies s")
  case True
  then have "\<exists>tr. sbind (send_eoi 0x20) (\<lambda>_. sbind stop_beep f) s = f () (s\<lparr>p_trace := tr, beeping := 0\<rparr>)"
    by (auto simp: send_eoi_def stop_beep_def outb_run inb_def Let_def)
  then show ?thesis using that by blast
next
  case False
  then have "sbind (send_eoi 0x20) (\<lambda>_. sbind stop_beep f) s =
      f () (s\<lparr>p_trace := Out 0x20 0x20 # p_trace s, beeping := beeping s\<rparr>)"
    by (auto simp: send_eoi_def stop_beep_def outb_run)
  then show ?thesis using that by blast
qed

definition tick :: "u32 \<Rightarrow> task \<Rightarrow> task" where
  "tick j t = t\<lparr>t_jiffies := j, t_ticks := t_ticks t - 1\<rparr>"

text \<open>The clock interrupt up to the call of the scheduler.\<close>

lemma clock_handler_split:
  fixes s :: "'a sched_scheme"
  assumes inv: "sched_inv A L s" and run: "t_state (pcb s (current s)) = TASK_RUNNING"
  shows "\<exists>s3 n. let L' = L(sleep_list s := drop n (L (sleep_list s))) in
    clock_handler 0x20 s = (if t_ticks (pcb s3 (current s)) = 0 then schedule s3 else Inr ((), s3)) \<and>
    sched_inv A L' s3 \<and> good A s3 \<and> current s3 = current s \<and> jiffies s3 = jiffies s + 1 \<and>
    task_table s3 = task_table s \<and> block_list s3 = block_list s \<and> sleep_list s3 = sleep_list s \<and> idle_task s3 = idle_task s \<and>
    (\<forall>t. \<not> waiting (t_state (pcb s t)) \<longrightarrow> \<not> waiting (t_state (pcb s3 t)))"
proof -
  define rest :: "unit \<Rightarrow> ('a sched_scheme, unit) op" where "rest = (\<lambda>_. sbind task_weakup (\<lambda>_.
     sbind (smodify (\<lambda>s. s\<lparr>jiffies := jiffies s + 1\<rparr>)) (\<lambda>_.
     sbind (sget current) (\<lambda>cur.
     sbind (get_task cur) (\<lambda>t.
     sbind (sensure (t_magic t = ONIX_MAGIC)) (\<lambda>_.
     sbind (sget jiffies) (\<lambda>j.
     sbind (upd_task cur (\<lambda>t. t\<lparr>t_jiffies := j, t_ticks := t_ticks t - 1\<rparr>)) (\<lambda>_.
     sbind (get_task cur) (\<lambda>t.
     if t_ticks t = 0 then schedule else sret ())))))))))"
  obtain tr b where "sbind (send_eoi 0x20) (\<lambda>_. sbind stop_beep rest) s = rest () (s\<lparr>p_trace := tr, beeping := b\<rparr>)"
    by (rule clock_prologue)
  moreover define s1 where "s1 = s\<lparr>p_trace := tr, beeping := b\<rparr>"
  ultimately have c1: "clock_handler 0x20 s = rest () s1"
    by (simp add: clock_handler_def rest_def run_steps del: sop_simps)
  have inv1: "sched_inv A L s1"
    by (rule sched_inv_cong [OF inv]) (use sched_invD [OF inv] in \<open>simp_all add: s1_def\<close>)
  have run1: "\<not> waiting (t_state (pcb s1 (current s1)))" using run by (simp add: s1_def waiting_def)
  from task_weakup_ok [OF inv1 run1] obtain h' due L2 s2 where
    s2: "s2 = s1\<lparr>heap := h', pcb := woken due (pcb s1)\<rparr>" "task_weakup s1 = Inr ((), s2)" "sched_inv A L2 s2"
      "due = takeWhile (Tasks.due s1) (L (sleep_list s1))" "L2 = L(sleep_list s1 := drop (length due) (L (sleep_list s1)))"
    unfolding Let_def by blast
  let ?c = "current s"
  have "task_node ?c \<notin> set due"
    using sched_invD(8) [OF inv1 sched_invD(12) [OF inv1], of "task_node ?c"] run1 s2(4)
    by (auto simp: s1_def dest: set_takeWhileD)
  then have pc: "pcb s2 ?c = pcb s ?c" "current s2 = ?c" by (simp_all add: s2(1) s1_def woken_def)
  have c: "?c \<in> live s2" using sched_invD(1) [OF s2(3)] by (simp add: s2(1) s1_def)
  define s3 where "s3 = s2\<lparr>jiffies := jiffies s2 + 1, pcb := (pcb s2)(?c := tick (jiffies s2 + 1) (pcb s2 ?c))\<rparr>"
  have c2: "rest () s1 = (if t_ticks (pcb s3 ?c) = 0 then schedule s3 else Inr ((), s3))"
    using live_nonzero [OF c] sched_invD(6) [OF s2(3) c] pc(2) s2(2)
    by (simp add: rest_def sched_steps sbind_run [where m = task_weakup] s3_def tick_def del: sop_simps) simp
  have inv3: "sched_inv A L2 s3"
  proof (rule sched_inv_cong [OF s2(3)])
    show "runnable (t_state (pcb s3 (idle_task s2)))"
      using sched_invD(3) [OF s2(3)] by (cases "idle_task s2 = ?c") (simp_all add: s3_def tick_def)
    fix u assume u: "u \<in> live s2"
    have "t_state (pcb s2 u) = TASK_RUNNING \<longrightarrow> u = current s3"
      using sched_invD(5) [OF s2(3) u] by (simp add: s3_def)
    then show "waiting (t_state (pcb s3 u)) = waiting (t_state (pcb s2 u)) \<and> t_magic (pcb s3 u) = t_magic (pcb s2 u) \<and>
        t_pde (pcb s3 u) = t_pde (pcb s2 u) \<and> (t_state (pcb s3 u) = TASK_RUNNING \<longrightarrow> u = current s3)"
      by (cases "u = ?c") (simp_all add: s3_def tick_def)
  qed (use sched_invD(1) [OF s2(3)] in \<open>simp_all add: s3_def\<close>)
  have g3: "good A s3" using inv3 run pc by (auto simp: good_def s3_def tick_def)
  have w: "jiffies s3 = jiffies s + 1 \<and> task_table s3 = task_table s \<and> block_list s3 = block_list s \<and>
      sleep_list s3 = sleep_list s \<and> idle_task s3 = idle_task s \<and> current s3 = ?c"
    by (simp add: s3_def s2(1) s1_def)
  have nw: "\<not> waiting (t_state (pcb s3 t))" if "\<not> waiting (t_state (pcb s t))" for t
    using that by (cases "t = ?c") (simp_all add: s3_def s2(1) s1_def woken_def wake_def tick_def waiting_def)
  have L2: "L2 = L(sleep_list s := drop (length due) (L (sleep_list s)))" using s2(5) by (simp add: s1_def)
  show ?thesis
    unfolding Let_def using c1 c2 g3 inv3 w nw L2 by (intro exI [of _ s3] exI [of _ "length due"]) simp
qed

lemma clock_handler_good:
  assumes "good A s"
  shows "\<exists>s'. clock_handler 0x20 s = Inr ((), s') \<and> good A s' \<and> jiffies s' = jiffies s + 1 \<and>
    task_table s' = task_table s \<and> block_list s' = block_list s \<and> sleep_list s' = sleep_list s \<and>
    idle_task s' = idle_task s"
proof -
  obtain L where "sched_inv A L s" "t_state (pcb s (current s)) = TASK_RUNNING" using assms by (auto simp: good_def)
  from clock_handler_split [OF this] obtain s3 L3 where
    s3: "clock_handler 0x20 s = (if t_ticks (pcb s3 (current s)) = 0 then schedule s3 else Inr ((), s3))"
    "sched_inv A L3 s3" "good A s3" "jiffies s3 = jiffies s + 1 \<and> task_table s3 = task_table s \<and>
      block_list s3 = block_list s \<and> sleep_list s3 = sleep_list s \<and> idle_task s3 = idle_task s"
    unfolding Let_def by blast
  then show ?thesis using schedule_good [OF s3(2)] by (auto simp: same_world_def)
qed

subsection \<open>The kernel as a transition system\<close>

text \<open>
  The steps of the kernel between two moments at which a task runs: the running task yields, blocks
  itself on one of the lists, sleeps or wakes another task, or the clock interrupts it.
\<close>

inductive kstep :: "u32 set \<Rightarrow> 'a sched_scheme \<Rightarrow> 'a sched_scheme \<Rightarrow> bool" for A where
  k_yield: "task_yield s = Inr ((), s') \<Longrightarrow> kstep A s s'"
| k_block: "task_block (current s) blist st s = Inr ((), s') \<Longrightarrow> blocked_on s blist \<in> A \<Longrightarrow> waiting st \<Longrightarrow>
            kstep A s s'"
| k_unblock: "task_unblock t s = Inr ((), s') \<Longrightarrow> t \<in> live s \<Longrightarrow> waiting (t_state (pcb s t)) \<Longrightarrow> kstep A s s'"
| k_sleep: "task_sleep ms s = Inr ((), s') \<Longrightarrow> kstep A s s'"
| k_clock: "clock_handler 0x20 s = Inr ((), s') \<Longrightarrow> kstep A s s'"

inductive_cases kstepE: "kstep A s s'"

lemma good_current: "good A s \<Longrightarrow> current s \<in> live s \<and> \<not> waiting (t_state (pcb s (current s)))"
  using sched_invD(1) by (auto simp: good_def waiting_def)

lemma kstep_good: "kstep A s s' \<Longrightarrow> good A s \<Longrightarrow> good A s' \<and> live s' = live s"
proof (induction rule: kstep.induct)
  case (k_yield s s')
  then obtain L where "sched_inv A L s" by (auto simp: good_def)
  from schedule_good [OF this] k_yield(1) show ?case by (auto simp: task_yield_def same_world_live)
next
  case (k_block s blist st s')
  from task_block_good [OF k_block(4) _ _ k_block(2,3)] good_current [OF k_block(4)] k_block(1)
  show ?case using same_world_live [of s s'] by fastforce
next
  case (k_unblock t s s')
  from task_unblock_good [OF k_unblock(4,2,3)] k_unblock(1) show ?case using same_world_live [of s s'] by auto
next
  case (k_sleep ms s s')
  from task_sleep_good [OF k_sleep(2), of ms] k_sleep(1) show ?case using same_world_live [of s s'] by auto
next
  case (k_clock s s')
  from clock_handler_good [OF k_clock(2)] k_clock(1) show ?case by (auto simp: live_def)
qed

lemma kstep_reach: "(kstep A)\<^sup>*\<^sup>* s s' \<Longrightarrow> good A s \<Longrightarrow> good A s' \<and> live s' = live s"
  by (induction rule: rtranclp_induct) (auto dest: kstep_good)

lemma good_one_running:
  assumes "good A s"
  shows "\<exists>!t. t \<in> live s \<and> t_state (pcb s t) = TASK_RUNNING"
proof
  show "current s \<in> live s \<and> t_state (pcb s (current s)) = TASK_RUNNING"
    using assms good_current by (auto simp: good_def)
  fix t assume "t \<in> live s \<and> t_state (pcb s t) = TASK_RUNNING"
  then show "t = current s" using assms sched_invD(5) by (fastforce simp: good_def)
qed

text \<open>A state to start from: an idle task that runs and a second task that is ready.\<close>

definition sched0 :: sched where
  "sched0 = \<lparr>p_trace = [], p_dev = (\<lambda>_ _. 0), c_if = False, handler_table = [], idt = [],
     task_table = [0x10000, 0x11000, 0], pcb = (\<lambda>_. blank_task)(0x10000 := blank_task\<lparr>t_state := TASK_RUNNING\<rparr>),
     heap = list_init (list_init (\<lambda>_. \<lparr>n_prev = 0, n_next = 0\<rparr>) 0x500) 0x600,
     block_list = 0x500, sleep_list = 0x600, idle_task = 0x10000, current = 0x10000, jiffies = 0,
     beeping = 0, cr3_reg = 0x1000, tss_esp0 = 0\<rparr>"

lemma sched0_inv: "sched_inv {0x500, 0x600} (\<lambda>_. []) sched0"
proof -
  have "dlist (heap sched0) 0x500 []" "dlist (heap sched0) 0x600 []"
    by (simp_all add: sched0_def dlist_def path_def list_init_def lhead_def ltail_def)
  moreover have "live sched0 = {0x10000, 0x11000}" by (auto simp: sched0_def live_def)
  ultimately show ?thesis
    by (simp add: sched_inv_def) (simp add: sched0_def list_node_def path_def lhead_def ltail_def list_init_def
      task_node_def detached_def blank_task_def waiting_def runnable_def page_aligned_def)
qed

lemma sched0_good: "good {0x500, 0x600} sched0"
  using sched0_inv by (auto simp: good_def) (simp add: sched0_def)

text \<open>The same tasks when the second one sleeps until jiffy 3 and the clock stands at 4.\<close>

definition sched1 :: sched where
  "sched1 = sched0\<lparr>
     pcb := (pcb sched0)(0x11000 := blank_task\<lparr>t_state := TASK_SLEEPING, t_ticks := 3\<rparr>), jiffies := 4,
     heap := (heap sched0)(0x600 := \<lparr>n_prev = 0, n_next = 0x11004\<rparr>, 0x11004 := \<lparr>n_prev = 0x600, n_next = 0x608\<rparr>,
       0x608 := \<lparr>n_prev = 0x11004, n_next = 0\<rparr>)\<rparr>"

lemma sched1_inv: "sched_inv {0x500, 0x600} ((\<lambda>_. [])(0x600 := [0x11004])) sched1"
proof -
  have "dlist (heap sched1) 0x500 []" "dlist (heap sched1) 0x600 [0x11004]"
    by (simp_all add: sched1_def sched0_def dlist_def path_def list_init_def lhead_def ltail_def)
  moreover have "live sched1 = {0x10000, 0x11000}" by (auto simp: sched1_def sched0_def live_def)
  ultimately show ?thesis
    by (simp add: sched_inv_def) (simp add: sched1_def sched0_def list_node_def path_def lhead_def ltail_def
      list_init_def task_node_def node_task_def detached_def blank_task_def waiting_def runnable_def page_aligned_def)
qed

lemma sched1_good: "good {0x500, 0x600} sched1"
  using sched1_inv by (auto simp: good_def) (simp add: sched1_def sched0_def)

subsection \<open>The scheduler as the rest of the kernel sees it\<close>

text \<open>C16: In every state that the kernel reaches by yielding, blocking, sleeping, waking and clock
interrupts, exactly one task is marked as running, and it is the one on the processor; a task waits
exactly when its node is linked in a list, and then in one list only.\<close>

theorem scheduler_reachable_invariant:
  assumes "good A s0" "(kstep A)\<^sup>*\<^sup>* s0 s"
  shows "(\<exists>!t. t \<in> live s \<and> t_state (pcb s t) = TASK_RUNNING) \<and> t_state (pcb s (current s)) = TASK_RUNNING \<and>
    (\<exists>L. (\<forall>l\<in>A. dlist (heap s) l (L l)) \<and>
         (\<forall>t\<in>live s. waiting (t_state (pcb s t)) \<longleftrightarrow> (\<exists>!l. l \<in> A \<and> task_node t \<in> set (L l))))"
proof -
  have g: "good A s" using kstep_reach assms by blast
  then obtain L where inv: "sched_inv A L s" by (auto simp: good_def)
  have "waiting (t_state (pcb s t)) \<longleftrightarrow> (\<exists>!l. l \<in> A \<and> task_node t \<in> set (L l))" if t: "t \<in> live s" for t
  proof
    assume "waiting (t_state (pcb s t))"
    then obtain l where "l \<in> A" "task_node t \<in> set (L l)" using inv t unfolding sched_inv_def by blast
    with sched_inv_same_list [OF inv] show "\<exists>!l. l \<in> A \<and> task_node t \<in> set (L l)" by blast
  next
    assume "\<exists>!l. l \<in> A \<and> task_node t \<in> set (L l)"
    then show "waiting (t_state (pcb s t))" using sched_invD(8) [OF inv] by fastforce
  qed
  moreover have "t_state (pcb s (current s)) = TASK_RUNNING" using g by (simp add: good_def)
  ultimately show ?thesis using good_one_running [OF g] sched_invD(7) [OF inv] by (intro conjI exI [of _ L]) simp_all
qed

theorem scheduler_reachable_invariant_witness:
  "(\<exists>!t. t \<in> live sched1 \<and> t_state (pcb sched1 t) = TASK_RUNNING) \<and>
    t_state (pcb sched1 (current sched1)) = TASK_RUNNING \<and> (\<exists>xs. dlist (heap sched1) 0x600 xs \<and> 0x11004 \<in> set xs)"
proof -
  have w: "0x11000 \<in> live sched1" "waiting (t_state (pcb sched1 0x11000))" "task_node 0x11000 = 0x11004"
    by (simp_all add: sched1_def sched0_def live_def waiting_def task_node_def)
  note inst = scheduler_reachable_invariant [OF sched1_good rtranclp.rtrancl_refl]
  from inst obtain L where L: "\<forall>l\<in>{0x500, 0x600}. dlist (heap sched1) l (L l)"
    "\<forall>t\<in>live sched1. waiting (t_state (pcb sched1 t)) \<longleftrightarrow> (\<exists>!l. l \<in> {0x500, 0x600} \<and> task_node t \<in> set (L l))"
    by blast
  from L(1) have d: "dlist (heap sched1) 0x500 (L 0x500)" "dlist (heap sched1) 0x600 (L 0x600)" by blast+
  from L(2) w obtain l where "l \<in> {0x500, 0x600}" "0x11004 \<in> set (L l)" by (metis (no_types, lifting))
  then have n: "0x11004 \<in> set (L 0x500) \<or> 0x11004 \<in> set (L 0x600)" by blast
  have "n_next (heap sched1 (lhead 0x500)) = ltail 0x500"
    by (simp add: sched1_def sched0_def list_init_def lhead_def ltail_def)
  with d(1) have "L 0x500 = []" by (cases "L 0x500") (simp_all add: dlist_def path_def)
  with d n have "\<exists>xs. dlist (heap sched1) 0x600 xs \<and> 0x11004 \<in> set xs" by auto
  with inst show ?thesis by blast
qed

text \<open>C1: No scheduling operation fails in a state that the kernel reaches: no assertion of the code,
no null link and no endless loop. Yielding, sleeping, the clock interrupt, blocking the running task
on one of the lists and unblocking any waiting task all return, and the invariant holds again.\<close>

theorem scheduler_never_fails:
  assumes "good A s0" "(kstep A)\<^sup>*\<^sup>* s0 s"
  shows "(\<exists>s'. task_yield s = Inr ((), s') \<and> good A s') \<and> (\<exists>s'. task_sleep ms s = Inr ((), s') \<and> good A s') \<and>
    (\<exists>s'. clock_handler 0x20 s = Inr ((), s') \<and> good A s') \<and>
    (blocked_on s blist \<in> A \<and> waiting st \<longrightarrow> (\<exists>s'. task_block (current s) blist st s = Inr ((), s') \<and> good A s')) \<and>
    (t \<in> live s \<and> waiting (t_state (pcb s t)) \<longrightarrow> (\<exists>s'. task_unblock t s = Inr ((), s') \<and> good A s'))"
proof -
  have g: "good A s" using kstep_reach assms by blast
  then obtain L where inv: "sched_inv A L s" by (auto simp: good_def)
  show ?thesis
    using schedule_good [OF inv] task_sleep_good [OF g, of ms] clock_handler_good [OF g]
      task_block_good [OF g] good_current [OF g] task_unblock_good [OF g, of t]
    unfolding task_yield_def by blast
qed

theorem scheduler_never_fails_witness:
  "(\<exists>s'. task_yield sched1 = Inr ((), s') \<and> good {0x500, 0x600} s') \<and>
    (\<exists>s'. task_sleep 100 sched1 = Inr ((), s') \<and> good {0x500, 0x600} s') \<and>
    (\<exists>s'. clock_handler 0x20 sched1 = Inr ((), s') \<and> good {0x500, 0x600} s') \<and>
    (\<exists>s'. task_block (current sched1) 0 TASK_BLOCKED sched1 = Inr ((), s') \<and> good {0x500, 0x600} s') \<and>
    (\<exists>s'. task_unblock 0x11000 sched1 = Inr ((), s') \<and> good {0x500, 0x600} s')"
proof -
  have "blocked_on sched1 0 \<in> {0x500, 0x600} \<and> waiting TASK_BLOCKED"
    "0x11000 \<in> live sched1 \<and> waiting (t_state (pcb sched1 0x11000))"
    by (simp_all add: sched1_def sched0_def live_def waiting_def blocked_on_def)
  with scheduler_never_fails [OF sched1_good rtranclp.rtrancl_refl, of 100 0 TASK_BLOCKED "0x11000"]
  show ?thesis by blast
qed

text \<open>C15: \<open>schedule\<close> gives the processor to a task that was ready, if there is one besides the caller, and
to the idle task otherwise. The caller is left ready when it was running, with its time slice refilled when it
was used up; the chosen task, which may be the caller when that is the idle task, becomes the running one (with
a full slice when it was asleep), and no other control block changes.\<close>

theorem schedule_chooses:
  assumes "sched_inv A L s"
  shows "\<exists>s'. schedule s = Inr ((), s') \<and> good A s' \<and>
    (if \<exists>t\<in>live s. t \<noteq> current s \<and> t_state (pcb s t) = TASK_READY
     then current s' \<noteq> current s \<and> current s' \<in> live s \<and> t_state (pcb s (current s')) = TASK_READY
     else current s' = idle_task s) \<and>
    (\<forall>t. pcb s' t = (let c = (if t = current s then leave (pcb s t) else pcb s t)
       in if t = current s' then take_cpu c else c))"
proof -
  from schedule_ok [OF assms] obtain s' L' where s': "schedule s = Inr ((), s')" "scheduled A L' s s'" by blast
  have cl: "current s \<in> live s" "idle_task s \<in> live s" using sched_invD [OF assms] by blast+
  let ?r = "search_loop s TASK_READY 0 (task_table s)"
  have r: "\<exists>t\<in>live s. t \<noteq> current s \<and> t_state (pcb s t) = TASK_READY \<Longrightarrow> ?r \<noteq> 0"
    by (rule search_loop_nonzero) (auto simp: live_def candidate_def)
  have c: "?r = 0 \<or> candidate s TASK_READY ?r" using search_loop_result [OF refl] by blast
  have "\<exists>t\<in>live s. t \<noteq> current s \<and> t_state (pcb s t) = TASK_READY \<Longrightarrow>
      chosen s \<noteq> current s \<and> t_state (pcb s (chosen s)) = TASK_READY"
    using r c by (auto simp: chosen_def Let_def candidate_def)
  moreover have "chosen s = idle_task s" if none: "\<not> (\<exists>t\<in>live s. t \<noteq> current s \<and> t_state (pcb s t) = TASK_READY)"
  proof -
    have "\<not> (t_state (pcb s (chosen s)) = TASK_READY \<and> chosen s \<noteq> current s)"
      using none chosen_cases(1) [OF cl] by blast
    then show ?thesis using chosen_cases(2) [OF cl] by blast
  qed
  moreover have "good A s'" "current s' = chosen s"
    using s'(2) by (auto simp: scheduled_def good_def)
  moreover have "pcb s' t = (let c = (if t = current s then leave (pcb s t) else pcb s t)
      in if t = current s' then take_cpu c else c)" for t
    using s'(2) by (auto simp: scheduled_def Let_def)
  ultimately show ?thesis
    using s'(1) chosen_cases(1) [OF cl]
    by (cases "\<exists>t\<in>live s. t \<noteq> current s \<and> t_state (pcb s t) = TASK_READY"; intro exI [of _ s']) auto
qed

theorem schedule_chooses_witness:
  "\<exists>s'. schedule sched0 = Inr ((), s') \<and> good {0x500, 0x600} s' \<and> current s' = 0x11000 \<and>
    pcb s' 0x10000 = leave (pcb sched0 0x10000) \<and> pcb s' 0x11000 = take_cpu (pcb sched0 0x11000)"
proof -
  have "live sched0 = {0x10000, 0x11000}" "current sched0 = 0x10000" "t_state (pcb sched0 0x11000) = TASK_READY"
    by (auto simp: sched0_def live_def blank_task_def)
  with schedule_chooses [OF sched0_inv] show ?thesis by auto
qed

text \<open>C22: \<open>task\_weakup\<close>, which the clock interrupt runs for the sleepers while the interrupted task is not itself in a
list, wakes the tasks at the head of the list of the sleepers up to the first whose wake-up time is after the
clock; each of them is ready then, with a full time slice, and all other control blocks are unchanged. When the list is
sorted as \<open>list\_insert\_sort\<close> keeps it, by the times as signed numbers, and no time is \<open>2^31\<close> or later, these are all
the sleeping tasks whose time has come, and no other. (The test is unsigned, so a sleeper with a later time, which is sorted
to the front, would keep the others asleep.)\<close>

theorem task_weakup_wakes_due:
  assumes "sched_inv A L s" "\<not> waiting (t_state (pcb s (current s)))"
    and "xs = L (sleep_list s)" "ds = takeWhile (\<lambda>n. t_ticks (pcb s (node_task n)) \<le> jiffies s) xs"
  shows "\<exists>s' L'. task_weakup s = Inr ((), s') \<and> sched_inv A L' s' \<and> L' (sleep_list s) = drop (length ds) xs \<and>
    (\<forall>t. pcb s' t = (if task_node t \<in> set ds
                      then (pcb s t)\<lparr>t_ticks := t_priority (pcb s t), t_state := TASK_READY\<rparr> else pcb s t)) \<and>
    (sorted (map (sleep_key (pcb s)) xs) \<longrightarrow> (\<forall>n\<in>set xs. t_ticks (pcb s (node_task n)) < 2 ^ 31) \<longrightarrow>
       ds = filter (\<lambda>n. t_ticks (pcb s (node_task n)) \<le> jiffies s) xs)"
proof -
  let ?tick = "\<lambda>n. t_ticks (pcb s (node_task n))"
  have due: "due s = (\<lambda>n. ?tick n \<le> jiffies s)" by (simp add: due_def fun_eq_iff)
  from task_weakup_ok [OF assms(1,2)] obtain h' ds' s' where
    s': "ds' = takeWhile (due s) (L (sleep_list s))" "s' = s\<lparr>heap := h', pcb := woken ds' (pcb s)\<rparr>" "task_weakup s = Inr ((), s')"
      "sched_inv A (L(sleep_list s := drop (length ds') (L (sleep_list s)))) s'"
    unfolding Let_def by blast
  have ds: "ds' = ds" using s'(1) by (simp add: assms(3,4) due)
  have "ds = filter (\<lambda>n. ?tick n \<le> jiffies s) xs"
    if srt: "sorted (map (sleep_key (pcb s)) xs)" and small: "\<forall>n\<in>set xs. ?tick n < 2 ^ 31"
  proof -
    have "sleep_key (pcb s) n = int (unat (?tick n))" if "n \<in> set xs" for n
      using small that by (simp only: sleep_key_def sint_small_32)
    then have "?tick m \<le> ?tick n" if "m \<in> set xs" "n \<in> set xs" "sleep_key (pcb s) m \<le> sleep_key (pcb s) n" for m n
      using that by (simp only: word_le_nat_alt of_nat_le_iff)
    then have "sorted (map ?tick xs)"
      using srt by (auto simp: sorted_map intro: sorted_wrt_mono_rel [rotated])
    then show ?thesis unfolding assms(4) by (rule takeWhile_sorted)
  qed
  then show ?thesis using s'(3,4)
    by (intro exI [of _ s'] exI [of _ "L(sleep_list s := drop (length ds) xs)"])
      (simp add: s'(2) ds woken_def wake_def assms(3))
qed

theorem task_weakup_wakes_due_witness:
  "\<exists>s' L'. task_weakup sched1 = Inr ((), s') \<and> sched_inv {0x500, 0x600} L' s' \<and> L' 0x600 = [] \<and>
    pcb s' 0x11000 = (pcb sched1 0x11000)\<lparr>t_ticks := 5, t_state := TASK_READY\<rparr>"
proof -
  have w: "\<not> waiting (t_state (pcb sched1 (current sched1)))"
    "sleep_list sched1 = 0x600" "jiffies sched1 = 4" "t_ticks (pcb sched1 0x11000) = 3" "t_priority (pcb sched1 0x11000) = 5"
    by (simp_all add: sched1_def sched0_def waiting_def blank_task_def)
  have t: "node_task 0x11004 = 0x11000" "task_node 0x11000 = 0x11004" by (simp_all add: node_task_def task_node_def)
  let ?ds = "takeWhile (\<lambda>n. t_ticks (pcb sched1 (node_task n)) \<le> jiffies sched1) [0x11004]"
  have d: "?ds = [0x11004]" by (simp add: w t)
  from task_weakup_wakes_due [OF sched1_inv w(1) _ refl, of "[0x11004]"] obtain s' L' where
    "task_weakup sched1 = Inr ((), s')" "sched_inv {0x500, 0x600} L' s'" "L' 0x600 = drop (length ?ds) [0x11004]"
    "pcb s' 0x11000 = (if task_node 0x11000 \<in> set ?ds
       then (pcb sched1 0x11000)\<lparr>t_ticks := t_priority (pcb sched1 0x11000), t_state := TASK_READY\<rparr>
       else pcb sched1 0x11000)"
    by (auto simp: w(2))
  then show ?thesis unfolding d by (intro exI [of _ s'] exI [of _ L']) (simp add: w t)
qed

end
