(* ===== verification/Bytes.thy ===== *)
theory Bytes
  imports Prelude
begin

text \<open>
  Byte arrays as the kernel reads and writes them: little-endian fields of 16 and 32 bits at an
  offset, a range that is overwritten or filled, and the bounded string copy of
  \<open>src/src/lib/string.c\<close> into a field of a structure. Accesses outside the array are a \<open>Fault\<close>.
\<close>

unbundle bit_operations_syntax

definition get16 :: "u8 list \<Rightarrow> nat \<Rightarrow> u16" where
  "get16 xs i = ucast (xs ! i) OR push_bit 8 (ucast (xs ! (i + 1)))"

definition get32 :: "u8 list \<Rightarrow> nat \<Rightarrow> u32" where
  "get32 xs i = ucast (get16 xs i) OR push_bit 16 (ucast (get16 xs (i + 2)))"

definition bytes16 :: "u16 \<Rightarrow> u8 list" where
  "bytes16 v = [ucast v, ucast (drop_bit 8 v)]"

definition bytes32 :: "u32 \<Rightarrow> u8 list" where
  "bytes32 v = bytes16 (ucast v) @ bytes16 (ucast (drop_bit 16 v))"

text \<open>The bytes of \<open>ys\<close> replace those from \<open>i\<close> on.\<close>

definition put :: "u8 list \<Rightarrow> nat \<Rightarrow> u8 list \<Rightarrow> u8 list" where
  "put xs i ys = take i xs @ ys @ drop (i + length ys) xs"

definition slice :: "u8 list \<Rightarrow> nat \<Rightarrow> nat \<Rightarrow> u8 list" where
  "slice xs i n = take n (drop i xs)"

text \<open>The text of a \<open>char\<close> array up to its terminator.\<close>

definition cstring :: "u8 list \<Rightarrow> u8 list" where
  "cstring xs = takeWhile (\<lambda>c. c \<noteq> 0) xs"

text \<open>\<open>strncpy(dest, src, n)\<close>, where \<open>src\<close> is the text before the terminator and \<open>dest\<close> the old array.\<close>

definition strncpy_into :: "u8 list \<Rightarrow> u8 list \<Rightarrow> nat \<Rightarrow> u8 list" where
  "strncpy_into dest src n =
     (if length src < n then put dest 0 (src @ [0]) else put dest 0 ((take n src)[n - 1 := 0]))"

lemma length_bytes [simp]: "length (bytes16 v) = 2" "length (bytes32 w) = 4"
  by (simp_all add: bytes16_def bytes32_def)

lemma length_put [simp]: "i + length ys \<le> length xs \<Longrightarrow> length (put xs i ys) = length xs"
  by (simp add: put_def)

lemma nth_put:
  "i + length ys \<le> length xs \<Longrightarrow> j < length xs \<Longrightarrow>
   put xs i ys ! j = (if i \<le> j \<and> j < i + length ys then ys ! (j - i) else xs ! j)"
  by (auto simp: put_def nth_append)

lemma slice_put_same: "i + length ys \<le> length xs \<Longrightarrow> slice (put xs i ys) i (length ys) = ys"
  by (simp add: slice_def put_def)

lemma slice_put_other:
  "i + length ys \<le> length xs \<Longrightarrow> j + n \<le> i \<or> i + length ys \<le> j \<Longrightarrow> slice (put xs i ys) j n = slice xs j n"
proof (rule nth_equalityI)
  assume a: "i + length ys \<le> length xs" "j + n \<le> i \<or> i + length ys \<le> j"
  then show "length (slice (put xs i ys) j n) = length (slice xs j n)" by (simp add: slice_def)
  fix k assume "k < length (slice (put xs i ys) j n)"
  then have "k < n" "j + k < length xs" using a(1) by (auto simp: slice_def)
  then show "slice (put xs i ys) j n ! k = slice xs j n ! k" using a by (auto simp: slice_def nth_put)
qed

lemma get16_put16: "i + 2 \<le> length xs \<Longrightarrow> get16 (put xs i (bytes16 v)) i = v"
  by (simp add: get16_def nth_put) (auto simp: bytes16_def intro!: bit_word_eqI simp: bit_simps)

lemma get16_bytes16: "get16 (bytes16 v) 0 = v"
  by (auto simp: get16_def bytes16_def intro!: bit_word_eqI simp: bit_simps)

lemma get16_put_other:
  "i + length ys \<le> length xs \<Longrightarrow> j + 2 \<le> length xs \<Longrightarrow> j + 2 \<le> i \<or> i + length ys \<le> j \<Longrightarrow>
   get16 (put xs i ys) j = get16 xs j"
  by (auto simp: get16_def nth_put)

lemma get32_put_other:
  "i + length ys \<le> length xs \<Longrightarrow> j + 4 \<le> length xs \<Longrightarrow> j + 4 \<le> i \<or> i + length ys \<le> j \<Longrightarrow>
   get32 (put xs i ys) j = get32 xs j"
  by (auto simp: get32_def get16_put_other)

lemma get32_put32: "i + 4 \<le> length xs \<Longrightarrow> get32 (put xs i (bytes32 v)) i = v"
  by (simp add: get32_def get16_def nth_put) (auto simp: bytes32_def bytes16_def intro!: bit_word_eqI simp: bit_simps)

end
