(* ===== verification/Device.thy ===== *)
theory Device
  imports Bytes Sched
begin

text \<open>
  The device table of \<open>src/src/kernel/device.c\<close> with the requests that wait for a disk. A driver's
  functions are functions on the state of the hardware, whose type \<open>'w\<close> is a parameter; a read
  returns the bytes that it stores in the caller's buffer. The list of the requests of a disk is the
  list of the linked nodes (\<open>DList\<close>). \<open>device_request\<close> is cut where the caller may be blocked:
  \<open>device_submit\<close> enters the request, \<open>device_finish\<close> runs when it is its turn. The address that
  \<open>kmalloc\<close> gives for a request is the field \<open>request_addr\<close> of the state.
\<close>

unbundle bit_operations_syntax

definition DEVICE_NR :: nat where "DEVICE_NR = 64"
definition NAMELEN :: nat where "NAMELEN = 16"

definition DEV_NULL :: int where "DEV_NULL = 0"
definition DEV_CHAR :: int where "DEV_CHAR = 1"
definition DEV_BLOCK :: int where "DEV_BLOCK = 2"

definition DEV_CONSOLE :: int where "DEV_CONSOLE = 1"
definition DEV_KEYBOARD :: int where "DEV_KEYBOARD = 2"
definition DEV_SERIAL :: int where "DEV_SERIAL = 3"
definition DEV_IDE_DISK :: int where "DEV_IDE_DISK = 4"
definition DEV_IDE_PART :: int where "DEV_IDE_PART = 5"
definition DEV_RAMDISK :: int where "DEV_RAMDISK = 6"

definition DEV_CMD_SECTOR_START :: int where "DEV_CMD_SECTOR_START = 1"
definition DEV_CMD_SECTOR_COUNT :: int where "DEV_CMD_SECTOR_COUNT = 2"

definition REQ_READ :: u32 where "REQ_READ = 0"
definition REQ_WRITE :: u32 where "REQ_WRITE = 1"

record request =
  r_addr :: u32
  r_dev :: int
  r_type :: u32
  r_idx :: u32
  r_count :: u32
  r_flags :: int
  r_task :: u32

type_synonym 'w ioctl_fn = "u32 \<Rightarrow> int \<Rightarrow> int \<Rightarrow> ('w, int) op"
type_synonym 'w read_fn = "u32 \<Rightarrow> u32 \<Rightarrow> u32 \<Rightarrow> int \<Rightarrow> ('w, int \<times> u8 list) op"
type_synonym 'w write_fn = "u32 \<Rightarrow> u8 list \<Rightarrow> u32 \<Rightarrow> u32 \<Rightarrow> int \<Rightarrow> ('w, int) op"

record 'w device =
  d_name :: "u8 list"
  d_type :: int
  d_subtype :: int
  d_dev :: int
  d_parent :: int
  d_ptr :: u32
  d_requests :: "request list"
  d_down :: bool
  d_ioctl :: "'w ioctl_fn option"
  d_read :: "'w read_fn option"
  d_write :: "'w write_fn option"

record 'w dev_state = sched +
  devices :: "'w device list"
  world :: 'w
  request_addr :: u32

text \<open>A driver's function, run on the hardware.\<close>

definition on_world :: "('w, 'r) op \<Rightarrow> (('w, 'a) dev_state_scheme, 'r) op" where
  "on_world f = (\<lambda>s. rbind (f (world s)) (\<lambda>(x, w). Inr (x, s\<lparr>world := w\<rparr>)))"

definition upd_device :: "nat \<Rightarrow> ('w device \<Rightarrow> 'w device) \<Rightarrow> (('w, 'a) dev_state_scheme, unit) op" where
  "upd_device i f = (\<lambda>s. rbind (rd (devices s) i) (\<lambda>d. Inr ((), s\<lparr>devices := (devices s)[i := f d]\<rparr>)))"

primrec null_device_from :: "'w device list \<Rightarrow> nat \<Rightarrow> nat option" where
  "null_device_from [] i = None"
| "null_device_from (d # ds) i = (if d_type d = DEV_NULL then Some i else null_device_from ds (i + 1))"

definition get_null_device :: "(('w, 'a) dev_state_scheme, nat) op" where
  "get_null_device = (\<lambda>s. case null_device_from (drop 1 (devices s)) 1 of
     Some i \<Rightarrow> Inr (i, s) | None \<Rightarrow> Inl Panic)"

definition device_install :: "int \<Rightarrow> int \<Rightarrow> u32 \<Rightarrow> u8 list \<Rightarrow> int \<Rightarrow> 'w ioctl_fn option \<Rightarrow> 'w read_fn option \<Rightarrow>
    'w write_fn option \<Rightarrow> (('w, 'a) dev_state_scheme, int) op" where
  "device_install type subtype ptr name parent ioctl rdf wrf =
     sbind get_null_device (\<lambda>i.
     sbind (upd_device i (\<lambda>d. d\<lparr>d_type := type, d_subtype := subtype, d_ptr := ptr,
       d_name := strncpy_into (d_name d) name NAMELEN, d_parent := parent,
       d_ioctl := ioctl, d_read := rdf, d_write := wrf\<rparr>)) (\<lambda>_.
     \<lambda>s. rbind (rd (devices s) i) (\<lambda>d. Inr (d_dev d, s))))"

primrec find_from :: "int \<Rightarrow> u32 \<Rightarrow> 'w device list \<Rightarrow> nat \<Rightarrow> u32 \<Rightarrow> nat option" where
  "find_from subtype idx [] i nr = None"
| "find_from subtype idx (d # ds) i nr =
     (if d_subtype d \<noteq> subtype then find_from subtype idx ds (i + 1) nr
      else if nr = idx then Some i
      else find_from subtype idx ds (i + 1) (nr + 1))"

definition device_find :: "int \<Rightarrow> u32 \<Rightarrow> (('w, 'a) dev_state_scheme, nat option) op" where
  "device_find subtype idx = sget (\<lambda>s. find_from subtype idx (drop 1 (devices s)) 1 0)"

definition device_get :: "int \<Rightarrow> (('w, 'a) dev_state_scheme, 'w device) op" where
  "device_get dev =
     sbind (sensure (dev < int DEVICE_NR)) (\<lambda>_.
     sbind (\<lambda>s. if dev < 0 then Inl Fault else rbind (rd (devices s) (nat dev)) (\<lambda>d. Inr (d, s))) (\<lambda>d.
     sbind (sensure (d_type d \<noteq> DEV_NULL)) (\<lambda>_. sret d)))"

definition device_ioctl :: "int \<Rightarrow> int \<Rightarrow> int \<Rightarrow> (('w, 'a) dev_state_scheme, int) op" where
  "device_ioctl dev cmd flags =
     sbind (device_get dev) (\<lambda>d.
     case d_ioctl d of Some f \<Rightarrow> on_world (f (d_ptr d) cmd flags) | None \<Rightarrow> sret (- 1))"

definition device_read :: "int \<Rightarrow> u32 \<Rightarrow> u32 \<Rightarrow> int \<Rightarrow> (('w, 'a) dev_state_scheme, int \<times> u8 list) op" where
  "device_read dev count idx flags =
     sbind (device_get dev) (\<lambda>d.
     case d_read d of Some f \<Rightarrow> on_world (f (d_ptr d) count idx flags) | None \<Rightarrow> sret (- 1, []))"

definition device_write :: "int \<Rightarrow> u8 list \<Rightarrow> u32 \<Rightarrow> u32 \<Rightarrow> int \<Rightarrow> (('w, 'a) dev_state_scheme, int) op" where
  "device_write dev buf count idx flags =
     sbind (device_get dev) (\<lambda>d.
     case d_write d of Some f \<Rightarrow> on_world (f (d_ptr d) buf count idx flags) | None \<Rightarrow> sret (- 1))"

definition device_init :: "(('w, 'a) dev_state_scheme, unit) op" where
  "device_init = smodify (\<lambda>s. s\<lparr>devices := map (\<lambda>i.
     \<lparr>d_name = put (replicate NAMELEN 0) 0 [0x6e, 0x75, 0x6c, 0x6c, 0], d_type = DEV_NULL, d_subtype = DEV_NULL,
      d_dev = int i, d_parent = 0, d_ptr = 0, d_requests = [], d_down = False,
      d_ioctl = None, d_read = None, d_write = None\<rparr>) [0..<DEVICE_NR]\<rparr>)"

text \<open>A read overwrites the front of the buffer, a write leaves it alone.\<close>

definition do_request :: "request \<Rightarrow> u8 list \<Rightarrow> (('w, 'a) dev_state_scheme, u8 list) op" where
  "do_request req buf =
     (if r_type req = REQ_READ then
        sbind (device_read (r_dev req) (r_count req) (r_idx req) (r_flags req)) (\<lambda>(_, bytes).
        if length bytes \<le> length buf then sret (put buf 0 bytes) else sfail Fault)
      else if r_type req = REQ_WRITE then
        sbind (device_write (r_dev req) buf (r_count req) (r_idx req) (r_flags req)) (\<lambda>_. sret buf)
      else sfail Panic)"

text \<open>
  The elevator: \<open>us\<close> are the requests below the current one and \<open>vs\<close> those above it. The result
  is the new direction and the request that is served next.
\<close>

definition elevator :: "bool \<Rightarrow> request list \<Rightarrow> request list \<Rightarrow> bool \<times> request option" where
  "elevator down us vs =
     (let down' = (if \<not> down \<and> vs = [] then True else if down \<and> us = [] then False else down)
      in (down', if down' then (if us = [] then None else Some (last us)) else (if vs = [] then None else Some (hd vs))))"

definition request_nextreq :: "nat \<Rightarrow> u32 \<Rightarrow> (('w, 'a) dev_state_scheme, request option) op" where
  "request_nextreq i addr =
     sbind (\<lambda>s. rbind (rd (devices s) i) (\<lambda>d. Inr (d, s))) (\<lambda>d.
     let us = takeWhile (\<lambda>r. r_addr r \<noteq> addr) (d_requests d);
         vs = dropWhile (\<lambda>r. r_addr r \<noteq> addr) (d_requests d);
         (down', next) = elevator (d_down d) us (tl vs)
     in if vs = [] then sfail Fault
        else sbind (upd_device i (d_down_update (\<lambda>_. down'))) (\<lambda>_. sret next))"

text \<open>
  The first half of \<open>device_request\<close>: the request is entered into the list of the disk; the value is
  the number of the disk, the request and whether the caller has to wait.
\<close>

definition device_submit :: "int \<Rightarrow> u32 \<Rightarrow> u32 \<Rightarrow> int \<Rightarrow> u32 \<Rightarrow> (('w, 'a) dev_state_scheme, nat \<times> request \<times> bool) op" where
  "device_submit dev count idx flags type =
     sbind (device_get dev) (\<lambda>device.
     sbind (sensure (d_type device = DEV_BLOCK)) (\<lambda>_.
     sbind (device_ioctl (d_dev device) DEV_CMD_SECTOR_START 0) (\<lambda>start.
     let offset = idx + word_of_int start
     in sbind (if d_parent device \<noteq> 0 then device_get (d_parent device) else sret device) (\<lambda>disk.
        sbind (sget request_addr) (\<lambda>addr.
        sbind (sget current) (\<lambda>cur.
        let wait = (d_requests disk \<noteq> []);
            req = \<lparr>r_addr = addr, r_dev = d_dev disk, r_type = type, r_idx = offset, r_count = count, r_flags = flags,
                   r_task = if wait then cur else 0\<rparr>
        in sbind (upd_device (nat (d_dev disk)) (d_requests_update (sorted_ins (\<lambda>r. sint (r_idx r)) req))) (\<lambda>_.
           sret (nat (d_dev disk), req, wait))))))))"

text \<open>The second half: the transfer, the choice of the next request and the wake-up of its task.\<close>

definition device_finish :: "nat \<Rightarrow> request \<Rightarrow> u8 list \<Rightarrow> (('w, 'a) dev_state_scheme, u8 list) op" where
  "device_finish i req buf =
     sbind (do_request req buf) (\<lambda>buf.
     sbind (request_nextreq i (r_addr req)) (\<lambda>next.
     sbind (upd_device i (d_requests_update (filter (\<lambda>r. r_addr r \<noteq> r_addr req)))) (\<lambda>_.
     sbind (case next of None \<Rightarrow> sret ()
            | Some r \<Rightarrow> sbind (get_task (r_task r)) (\<lambda>t. sbind (sensure (t_magic t = ONIX_MAGIC)) (\<lambda>_. task_unblock (r_task r)))) (\<lambda>_.
     sret buf))))"

text \<open>The request of a caller that does not have to wait; otherwise it is blocked.\<close>

definition device_request :: "int \<Rightarrow> u8 list \<Rightarrow> u32 \<Rightarrow> u32 \<Rightarrow> int \<Rightarrow> u32 \<Rightarrow> (('w, 'a) dev_state_scheme, u8 list) op" where
  "device_request dev buf count idx flags type =
     sbind (device_submit dev count idx flags type) (\<lambda>(i, req, wait).
     if wait then sbind (sget current) (\<lambda>cur. sbind (task_block cur 0 TASK_BLOCKED) (\<lambda>_. sfail Blocked))
     else device_finish i req buf)"

end
