(* ===== verification/Ramdisk.thy ===== *)
theory Ramdisk
  imports Device
begin

text \<open>
  The memory disks of \<open>src/src/kernel/ramdisk.c\<close>. The hardware that the driver works on is the memory
  from \<open>KERNEL_RAMDISK_MEM\<close> on and the table of the disks; a disk is named by its index in that table. The record
  can be extended by the hardware of other drivers.
\<close>

unbundle bit_operations_syntax

definition SECTOR_SIZE :: u32 where "SECTOR_SIZE = 512"
definition RAMDISK_NR :: nat where "RAMDISK_NR = 4"
definition KERNEL_RAMDISK_MEM :: u32 where "KERNEL_RAMDISK_MEM = 0xc00000"
definition KERNEL_RAMDISK_SIZE :: u32 where "KERNEL_RAMDISK_SIZE = 0x400000"

record ramdisk =
  rd_start :: u32
  rd_size :: u32

record ram_world =
  rmem :: "u32 \<Rightarrow> u8"
  ramdisks :: "ramdisk list"

definition ramdisk_ioctl :: "'x ram_world_scheme ioctl_fn" where
  "ramdisk_ioctl disk cmd flags = (\<lambda>w.
     if cmd = DEV_CMD_SECTOR_START then Inr (0, w)
     else if cmd = DEV_CMD_SECTOR_COUNT then
       rbind (rd (ramdisks w) (unat disk)) (\<lambda>d. Inr (sint (rd_size d div SECTOR_SIZE), w))
     else Inl Panic)"

text \<open>The parameter \<open>count\<close> of the driver is a \<open>uint8\<close>.\<close>

definition ramdisk_range :: "ramdisk \<Rightarrow> u8 \<Rightarrow> u32 \<Rightarrow> u32 \<times> u32" where
  "ramdisk_range d count lba = (rd_start d + lba * SECTOR_SIZE, ucast count * SECTOR_SIZE)"

definition ramdisk_read :: "'x ram_world_scheme read_fn" where
  "ramdisk_read disk count lba flags = (\<lambda>w.
     rbind (rd (ramdisks w) (unat disk)) (\<lambda>d.
     let (addr, len) = ramdisk_range d (ucast count) lba
     in if \<not> addr + len < KERNEL_RAMDISK_MEM + KERNEL_RAMDISK_SIZE then Inl AssertFail
        else Inr ((sint (ucast (ucast count :: u8) :: u32), map (\<lambda>i. rmem w (addr + of_nat i)) [0..<unat len]), w)))"

definition store_bytes :: "(u32 \<Rightarrow> u8) \<Rightarrow> u32 \<Rightarrow> u8 list \<Rightarrow> u32 \<Rightarrow> u8" where
  "store_bytes m addr xs a = (if unat (a - addr) < length xs then xs ! unat (a - addr) else m a)"

definition ramdisk_write :: "'x ram_world_scheme write_fn" where
  "ramdisk_write disk buf count lba flags = (\<lambda>w.
     rbind (rd (ramdisks w) (unat disk)) (\<lambda>d.
     let (addr, len) = ramdisk_range d (ucast count) lba
     in if \<not> addr + len < KERNEL_RAMDISK_MEM + KERNEL_RAMDISK_SIZE then Inl AssertFail
        else if length buf < unat len then Inl Fault
        else Inr (sint (ucast (ucast count :: u8) :: u32),
                  w\<lparr>rmem := store_bytes (rmem w) addr (take (unat len) buf)\<rparr>)))"

primrec ramdisk_install :: "u32 \<Rightarrow> nat list \<Rightarrow> (('x ram_world_scheme, 'a) dev_state_scheme, unit) op" where
  "ramdisk_install sz [] = sret ()"
| "ramdisk_install sz (i # is) =
     sbind (\<lambda>s. rbind (wr (ramdisks (world s)) i \<lparr>rd_start = KERNEL_RAMDISK_MEM + sz * of_nat i, rd_size = sz\<rparr>)
       (\<lambda>t. Inr ((), s\<lparr>world := (world s)\<lparr>ramdisks := t\<rparr>\<rparr>))) (\<lambda>_.
     sbind (device_install DEV_BLOCK DEV_RAMDISK (of_nat i) [0x6d, 0x64, of_nat i + 0x61] 0
       (Some ramdisk_ioctl) (Some ramdisk_read) (Some ramdisk_write)) (\<lambda>_.
     ramdisk_install sz is))"

definition ramdisk_init :: "(('x ram_world_scheme, 'a) dev_state_scheme, unit) op" where
  "ramdisk_init =
     (let sz = KERNEL_RAMDISK_SIZE div of_nat RAMDISK_NR
      in sbind (sensure (sz mod SECTOR_SIZE = 0)) (\<lambda>_. ramdisk_install sz [0..<RAMDISK_NR]))"

end
