(* ===== verification/Buffer.thy ===== *)
theory Buffer
  imports Device
begin

text \<open>
  The buffer cache of \<open>src/src/kernel/buffer.c\<close>. The buffers are the structures that were carved from
  \<open>KERNEL_BUFFER_MEM\<close> so far; a pointer to the buffer \<open>i\<close> is the number \<open>i + 1\<close>, and 0 is \<open>NULL\<close>.
  The hash chains and the free list are the lists of the linked buffers (\<open>DList\<close>), the newest first.
  The lock of a buffer is free whenever an operation runs to its end without being blocked; a caller
  that has to wait for a buffer or for the disk is \<open>Blocked\<close>.
\<close>

unbundle bit_operations_syntax

definition BLOCK_SIZE :: u32 where "BLOCK_SIZE = 1024"
definition BLOCK_SECS :: u32 where "BLOCK_SECS = 2"
definition HASH_COUNT :: u32 where "HASH_COUNT = 31"
definition KERNEL_BUFFER_MEM :: u32 where "KERNEL_BUFFER_MEM = 0x800000"
definition KERNEL_BUFFER_SIZE :: u32 where "KERNEL_BUFFER_SIZE = 0x400000"

text \<open>The size of a \<open>buffer_t\<close>: 60 bytes for its fields and two booleans, rounded up.\<close>

definition sizeof_buffer :: u32 where "sizeof_buffer = 64"

record buffer =
  b_data :: "u8 list"
  b_dev :: int
  b_block :: u32
  b_count :: int
  b_dirty :: bool
  b_valid :: bool

record 'w buf_state = "'w dev_state" +
  buffers :: "buffer list"
  buffer_ptr :: u32
  buffer_data :: u32
  buffer_mem :: "u32 \<Rightarrow> u8"
  free_list :: "u32 list"
  wait_list :: u32
  hash_table :: "u32 list list"

definition get_buf :: "u32 \<Rightarrow> (('w, 'a) buf_state_scheme, buffer) op" where
  "get_buf p = (\<lambda>s. if p = 0 then Inl Fault else rbind (rd (buffers s) (unat p - 1)) (\<lambda>b. Inr (b, s)))"

definition upd_buf :: "u32 \<Rightarrow> (buffer \<Rightarrow> buffer) \<Rightarrow> (('w, 'a) buf_state_scheme, unit) op" where
  "upd_buf p f = (\<lambda>s. if p = 0 then Inl Fault
     else rbind (rd (buffers s) (unat p - 1)) (\<lambda>b. Inr ((), s\<lparr>buffers := (buffers s)[unat p - 1 := f b]\<rparr>)))"

definition hash :: "int \<Rightarrow> u32 \<Rightarrow> u32" where
  "hash dev block = (word_of_int dev XOR block) mod HASH_COUNT"

primrec find_buffer :: "buffer list \<Rightarrow> int \<Rightarrow> u32 \<Rightarrow> u32 list \<Rightarrow> u32 res" where
  "find_buffer bs dev block [] = Inr 0"
| "find_buffer bs dev block (p # ps) =
     rbind (rd bs (unat p - 1)) (\<lambda>b.
       if b_dev b = dev \<and> b_block b = block then Inr p else find_buffer bs dev block ps)"

definition get_from_hash_table :: "int \<Rightarrow> u32 \<Rightarrow> (('w, 'a) buf_state_scheme, u32) op" where
  "get_from_hash_table dev block = (\<lambda>s.
     rbind (rd (hash_table s) (unat (hash dev block))) (\<lambda>l.
     rbind (find_buffer (buffers s) dev block l) (\<lambda>p. Inr (p, s))))"

definition hash_locate :: "u32 \<Rightarrow> (('w, 'a) buf_state_scheme, unit) op" where
  "hash_locate p =
     sbind (get_buf p) (\<lambda>b. \<lambda>s.
     let idx = unat (hash (b_dev b) (b_block b))
     in rbind (rd (hash_table s) idx) (\<lambda>l.
        if p \<in> set l then Inl AssertFail
        else Inr ((), s\<lparr>hash_table := (hash_table s)[idx := p # l]\<rparr>)))"

text \<open>
  A buffer that is carved from the memory; its data area is at the other end, and holds what is in the memory
  there (\<open>buffer_mem\<close>), since nothing clears it. \<open>0\<close> when the two ends meet.
\<close>

definition get_new_buffer :: "(('w, 'a) buf_state_scheme, u32) op" where
  "get_new_buffer = (\<lambda>s.
     if buffer_ptr s + sizeof_buffer < buffer_data s then
       Inr (of_nat (length (buffers s)) + 1,
         s\<lparr>buffers := buffers s @ [\<lparr>b_data = map (\<lambda>i. buffer_mem s (buffer_data s + of_nat i)) [0..<1024], b_dev = - 1, b_block = 0, b_count = 0,
              b_dirty = False, b_valid = False\<rparr>],
           buffer_ptr := buffer_ptr s + sizeof_buffer, buffer_data := buffer_data s - BLOCK_SIZE\<rparr>)
     else Inr (0, s))"

definition get_free_buffer :: "(('w, 'a) buf_state_scheme, u32) op" where
  "get_free_buffer =
     sbind get_new_buffer (\<lambda>p.
     if p \<noteq> 0 then sret p
     else sbind (sget free_list) (\<lambda>l.
       if l \<noteq> [] then sbind (smodify (free_list_update butlast)) (\<lambda>_. sret (last l))
       else sbind (sget current) (\<lambda>cur. sbind (sget wait_list) (\<lambda>w.
              sbind (task_block cur w TASK_BLOCKED) (\<lambda>_. sfail Blocked)))))"

definition bwrite :: "u32 \<Rightarrow> (('w, 'a) buf_state_scheme, unit) op" where
  "bwrite p =
     sbind (sensure (p \<noteq> 0)) (\<lambda>_.
     sbind (get_buf p) (\<lambda>b.
     sbind (device_request (b_dev b) (b_data b) BLOCK_SECS (b_block b * BLOCK_SECS) 0 REQ_WRITE) (\<lambda>_.
     sret ())))"

text \<open>The part of \<open>bread\<close> after \<open>getagain\<close>.\<close>

definition bread_new :: "int \<Rightarrow> u32 \<Rightarrow> (('w, 'a) buf_state_scheme, u32) op" where
  "bread_new dev block =
     sbind get_free_buffer (\<lambda>p.
     sbind (get_buf p) (\<lambda>b.
     sbind (sensure (b_count b = 0 \<and> \<not> b_dirty b \<and> \<not> b_valid b)) (\<lambda>_.
     sbind (upd_buf p (\<lambda>b. b\<lparr>b_count := 1, b_dev := dev, b_block := block\<rparr>)) (\<lambda>_.
     sbind (hash_locate p) (\<lambda>_.
     sbind (device_request dev (b_data b) BLOCK_SECS (block * BLOCK_SECS) 0 REQ_READ) (\<lambda>bytes.
     sbind (upd_buf p (\<lambda>b. b\<lparr>b_data := bytes, b_valid := True\<rparr>)) (\<lambda>_.
     sret p)))))))"

definition bread :: "int \<Rightarrow> u32 \<Rightarrow> (('w, 'a) buf_state_scheme, u32) op" where
  "bread dev block =
     sbind (get_from_hash_table dev block) (\<lambda>p.
     if p \<noteq> 0 then
       sbind (get_buf p) (\<lambda>b.
       sbind (sensure (b_valid b)) (\<lambda>_.
       if b_count b = 0 then bread_new dev block
       else sbind (upd_buf p (b_count_update (\<lambda>n. n + 1))) (\<lambda>_. sret p)))
     else bread_new dev block)"

definition unhash :: "u32 \<Rightarrow> buffer \<Rightarrow> (('w, 'a) buf_state_scheme, unit) op" where
  "unhash p b = (\<lambda>s.
     let idx = unat (hash (b_dev b) (b_block b))
     in rbind (rd (hash_table s) idx) (\<lambda>l.
        if p \<in> set l then Inr ((), s\<lparr>hash_table := (hash_table s)[idx := remove1 p l]\<rparr>) else Inl AssertFail))"

definition wake_waiter :: "(('w, 'a) buf_state_scheme, unit) op" where
  "wake_waiter =
     sbind (sget wait_list) (\<lambda>w.
     sbind (\<lambda>s. rbind (list_empty (heap s) w) (\<lambda>e. Inr (e, s))) (\<lambda>e.
     if e then sret ()
     else sbind (\<lambda>s. rbind (list_pop (heap s) w) (\<lambda>(n, h). Inr (n, s\<lparr>heap := h\<rparr>))) (\<lambda>n.
          task_unblock (node_task n))))"

definition brelease :: "u32 \<Rightarrow> (('w, 'a) buf_state_scheme, unit) op" where
  "brelease p =
     (if p = 0 then sret ()
      else sbind (upd_buf p (b_count_update (\<lambda>n. n - 1))) (\<lambda>_.
           sbind (get_buf p) (\<lambda>b.
           sbind (sensure (b_count b \<ge> 0)) (\<lambda>_.
           if b_count b \<noteq> 0 then sret ()
           else sbind (unhash p b) (\<lambda>_.
                sbind (if b_dirty b then sbind (upd_buf p (b_dirty_update (\<lambda>_. False))) (\<lambda>_. bwrite p) else sret ()) (\<lambda>_.
                sbind (upd_buf p (\<lambda>b. b\<lparr>b_dev := - 1, b_block := 0, b_valid := False\<rparr>)) (\<lambda>_.
                sbind (\<lambda>s. if p \<in> set (free_list s) then Inl AssertFail else Inr ((), s\<lparr>free_list := p # free_list s\<rparr>)) (\<lambda>_.
                wake_waiter))))))))"

definition buffer_init :: "u32 \<Rightarrow> (('w, 'a) buf_state_scheme, unit) op" where
  "buffer_init w = smodify (\<lambda>s. s\<lparr>free_list := [], wait_list := w, heap := list_init (heap s) w,
     hash_table := replicate (unat HASH_COUNT) []\<rparr>)"

end
