(* ===== verification/Fs.thy ===== *)
theory Fs
  imports Buffer Fifo Bitmap KString
begin

text \<open>
  The state of the file system: the tables of super blocks, inodes and open files of
  \<open>src/src/fs/super.c\<close>, \<open>src/src/fs/inode.c\<close> and \<open>src/src/fs/file.c\<close>, and the disk structures of
  \<open>src/src/include/fs.h\<close>. A pointer to entry \<open>i\<close> of one of these tables is the number \<open>i + 1\<close>, 0 is
  \<open>NULL\<close>. The descriptor of an inode and that of a super block are not copied: as in the code they are
  bytes of a buffer of the cache (\<open>i_buf\<close> at offset \<open>i_desc\<close>, \<open>sb_buf\<close> at offset 0). \<open>kmem\<close> is the memory
  that holds the names of the current directories.
\<close>

unbundle bit_operations_syntax

record inode =
  i_desc :: u32
  i_buf :: u32
  i_dev :: int
  i_nr :: u32
  i_count :: u32
  i_atime :: u32
  i_ctime :: u32
  i_mount :: int
  i_rxwaiter :: u32
  i_txwaiter :: u32
  i_pipe :: bool
  i_fifo :: fifo

record super =
  sb_buf :: u32
  sb_imaps :: "u32 list"
  sb_zmaps :: "u32 list"
  sb_dev :: int
  sb_count :: u32
  sb_inodes :: "u32 list"
  sb_iroot :: u32
  sb_imount :: u32

record file_entry =
  fl_inode :: u32
  fl_count :: u32
  fl_offset :: u32
  fl_flags :: int
  fl_mode :: int

record 'w fs_state = "'w buf_state" +
  supers :: "super list"
  inodes :: "inode list"
  files :: "file_entry list"
  root_sb :: u32
  startup_time :: u32
  kmem :: mem

definition MINIX1_MAGIC :: u16 where "MINIX1_MAGIC = 0x137F"
definition NAME_LEN :: nat where "NAME_LEN = 14"
definition IMAP_NR :: nat where "IMAP_NR = 8"
definition ZMAP_NR :: nat where "ZMAP_NR = 8"
definition BLOCK_BITS :: u32 where "BLOCK_BITS = 8192"
definition BLOCK_INODES :: u32 where "BLOCK_INODES = 32"
definition BLOCK_DENTRIES :: u32 where "BLOCK_DENTRIES = 64"
definition BLOCK_INDEXES :: u32 where "BLOCK_INDEXES = 512"
definition DIRECT_BLOCK :: u32 where "DIRECT_BLOCK = 7"
definition TOTAL_BLOCK :: u32 where "TOTAL_BLOCK = 7 + 512 + 512 * 512"
definition TASK_FILE_NR :: u32 where "TASK_FILE_NR = 16"

definition O_RDONLY :: int where "O_RDONLY = 0"
definition O_WRONLY :: int where "O_WRONLY = 1"
definition O_RDWR :: int where "O_RDWR = 2"
definition O_ACCMODE :: int where "O_ACCMODE = 3"
definition O_CREAT :: int where "O_CREAT = 0x40"
definition O_TRUNC :: int where "O_TRUNC = 0x200"
definition O_APPEND :: int where "O_APPEND = 0x400"

definition IFMT :: int where "IFMT = 0xf000"
definition IFREG :: int where "IFREG = 0x8000"
definition IFBLK :: int where "IFBLK = 0x6000"
definition IFDIR :: int where "IFDIR = 0x4000"
definition IFCHR :: int where "IFCHR = 0x2000"
definition ISVTX :: int where "ISVTX = 0x200"

definition ISREG :: "int \<Rightarrow> bool" where "ISREG m \<longleftrightarrow> m AND IFMT = IFREG"
definition ISDIR :: "int \<Rightarrow> bool" where "ISDIR m \<longleftrightarrow> m AND IFMT = IFDIR"
definition ISCHR :: "int \<Rightarrow> bool" where "ISCHR m \<longleftrightarrow> m AND IFMT = IFCHR"
definition ISBLK :: "int \<Rightarrow> bool" where "ISBLK m \<longleftrightarrow> m AND IFMT = IFBLK"

subsection \<open>Fields of an inode descriptor of 32 bytes\<close>

definition d_mode :: "u8 list \<Rightarrow> int" where "d_mode xs = uint (get16 xs 0)"
definition d_uid :: "u8 list \<Rightarrow> u16" where "d_uid xs = get16 xs 2"
definition d_size :: "u8 list \<Rightarrow> u32" where "d_size xs = get32 xs 4"
definition d_mtime :: "u8 list \<Rightarrow> u32" where "d_mtime xs = get32 xs 8"
definition d_gid :: "u8 list \<Rightarrow> u8" where "d_gid xs = xs ! 12"
definition d_nlinks :: "u8 list \<Rightarrow> u8" where "d_nlinks xs = xs ! 13"
definition d_zone :: "u8 list \<Rightarrow> nat \<Rightarrow> u16" where "d_zone xs i = get16 xs (14 + 2 * i)"

definition put_mode :: "int \<Rightarrow> u8 list \<Rightarrow> u8 list" where "put_mode v xs = put xs 0 (bytes16 (word_of_int v))"
definition put_uid :: "u16 \<Rightarrow> u8 list \<Rightarrow> u8 list" where "put_uid v xs = put xs 2 (bytes16 v)"
definition put_size :: "u32 \<Rightarrow> u8 list \<Rightarrow> u8 list" where "put_size v xs = put xs 4 (bytes32 v)"
definition put_mtime :: "u32 \<Rightarrow> u8 list \<Rightarrow> u8 list" where "put_mtime v xs = put xs 8 (bytes32 v)"
definition put_gid :: "u8 \<Rightarrow> u8 list \<Rightarrow> u8 list" where "put_gid v xs = put xs 12 [v]"
definition put_nlinks :: "u8 \<Rightarrow> u8 list \<Rightarrow> u8 list" where "put_nlinks v xs = put xs 13 [v]"
definition put_zone :: "nat \<Rightarrow> u16 \<Rightarrow> u8 list \<Rightarrow> u8 list" where "put_zone i v xs = put xs (14 + 2 * i) (bytes16 v)"

subsection \<open>Fields of a super block descriptor\<close>

definition s_inodes :: "u8 list \<Rightarrow> u16" where "s_inodes xs = get16 xs 0"
definition s_zones :: "u8 list \<Rightarrow> u16" where "s_zones xs = get16 xs 2"
definition s_imap_blocks :: "u8 list \<Rightarrow> u16" where "s_imap_blocks xs = get16 xs 4"
definition s_zmap_blocks :: "u8 list \<Rightarrow> u16" where "s_zmap_blocks xs = get16 xs 6"
definition s_firstdatazone :: "u8 list \<Rightarrow> u16" where "s_firstdatazone xs = get16 xs 8"
definition s_magic :: "u8 list \<Rightarrow> u16" where "s_magic xs = get16 xs 16"

subsection \<open>Access to the tables\<close>

definition get_inode :: "u32 \<Rightarrow> (('w, 'a) fs_state_scheme, inode) op" where
  "get_inode p = (\<lambda>s. if p = 0 then Inl Fault else rbind (rd (inodes s) (unat p - 1)) (\<lambda>i. Inr (i, s)))"

definition upd_inode :: "u32 \<Rightarrow> (inode \<Rightarrow> inode) \<Rightarrow> (('w, 'a) fs_state_scheme, unit) op" where
  "upd_inode p f = (\<lambda>s. if p = 0 then Inl Fault
     else rbind (rd (inodes s) (unat p - 1)) (\<lambda>i. Inr ((), s\<lparr>inodes := (inodes s)[unat p - 1 := f i]\<rparr>)))"

definition get_sb :: "u32 \<Rightarrow> (('w, 'a) fs_state_scheme, super) op" where
  "get_sb p = (\<lambda>s. if p = 0 then Inl Fault else rbind (rd (supers s) (unat p - 1)) (\<lambda>i. Inr (i, s)))"

definition upd_sb :: "u32 \<Rightarrow> (super \<Rightarrow> super) \<Rightarrow> (('w, 'a) fs_state_scheme, unit) op" where
  "upd_sb p f = (\<lambda>s. if p = 0 then Inl Fault
     else rbind (rd (supers s) (unat p - 1)) (\<lambda>i. Inr ((), s\<lparr>supers := (supers s)[unat p - 1 := f i]\<rparr>)))"

definition get_fl :: "u32 \<Rightarrow> (('w, 'a) fs_state_scheme, file_entry) op" where
  "get_fl p = (\<lambda>s. if p = 0 then Inl Fault else rbind (rd (files s) (unat p - 1)) (\<lambda>i. Inr (i, s)))"

definition upd_fl :: "u32 \<Rightarrow> (file_entry \<Rightarrow> file_entry) \<Rightarrow> (('w, 'a) fs_state_scheme, unit) op" where
  "upd_fl p f = (\<lambda>s. if p = 0 then Inl Fault
     else rbind (rd (files s) (unat p - 1)) (\<lambda>i. Inr ((), s\<lparr>files := (files s)[unat p - 1 := f i]\<rparr>)))"

text \<open>The 32 bytes of an inode's descriptor, and a change of them in the buffer.\<close>

definition desc_of :: "u32 \<Rightarrow> (('w, 'a) fs_state_scheme, u8 list) op" where
  "desc_of p =
     sbind (get_inode p) (\<lambda>i.
     sbind (get_buf (i_buf i)) (\<lambda>b.
     if unat (i_desc i) + 32 \<le> length (b_data b) then sret (slice (b_data b) (unat (i_desc i)) 32) else sfail Fault))"

definition upd_desc :: "u32 \<Rightarrow> (u8 list \<Rightarrow> u8 list) \<Rightarrow> (('w, 'a) fs_state_scheme, unit) op" where
  "upd_desc p f =
     sbind (desc_of p) (\<lambda>xs.
     sbind (get_inode p) (\<lambda>i.
     upd_buf (i_buf i) (\<lambda>b. b\<lparr>b_data := put (b_data b) (unat (i_desc i)) (f xs)\<rparr>)))"

text \<open>The bytes of a super block's descriptor.\<close>

definition sb_desc :: "u32 \<Rightarrow> (('w, 'a) fs_state_scheme, u8 list) op" where
  "sb_desc p = sbind (get_sb p) (\<lambda>sb. sbind (get_buf (sb_buf sb)) (\<lambda>b. sret (b_data b)))"

definition time_now :: "(('w, 'a) fs_state_scheme, u32) op" where
  "time_now = sbind (sget startup_time) sys_time"

definition running_task :: "(('w, 'a) fs_state_scheme, task) op" where
  "running_task = sbind (sget current) get_task"

definition dirty_buf :: "u32 \<Rightarrow> (('w, 'a) fs_state_scheme, unit) op" where
  "dirty_buf p = upd_buf p (b_dirty_update (\<lambda>_. True))"

text \<open>\<open>get_super\<close> of \<open>src/src/fs/super.c\<close>: the first entry for the device, or \<open>NULL\<close>.\<close>

primrec super_from :: "super list \<Rightarrow> int \<Rightarrow> u32 \<Rightarrow> u32" where
  "super_from [] dev p = 0"
| "super_from (sb # sbs) dev p = (if sb_dev sb = dev then p else super_from sbs dev (p + 1))"

definition get_super :: "int \<Rightarrow> (('w, 'a) fs_state_scheme, u32) op" where
  "get_super dev = sget (\<lambda>s. super_from (supers s) dev 1)"

end
