(* ===== verification/Bmap.thy ===== *)
theory Bmap
  imports Fs
begin

text \<open>
  The allocation of blocks and inodes in the bitmaps of a file system and the map from the blocks of
  a file to the blocks of the disk: \<open>src/src/fs/bmap.c\<close>.
\<close>

unbundle bit_operations_syntax

text \<open>A bitmap block as a bitmap that starts at \<open>offset\<close>, and a bitmap operation on it.\<close>

definition on_map :: "u32 \<Rightarrow> u32 \<Rightarrow> (bitmap \<Rightarrow> ('r \<times> bitmap) res) \<Rightarrow> (('w, 'a) fs_state_scheme, 'r) op" where
  "on_map buf offset f =
     sbind (get_buf buf) (\<lambda>b.
     sbind (slift (f (bitmap_make (b_data b) BLOCK_SIZE offset))) (\<lambda>(r, m).
     sbind (upd_buf buf (b_data_update (\<lambda>_. bm_bits m))) (\<lambda>_. sret r)))"

text \<open>
  The search of \<open>balloc\<close> and \<open>ialloc\<close> over the bitmap blocks: the first that has a free bit gives it
  and is written to the disk.
\<close>

primrec alloc_in :: "u32 list \<Rightarrow> u32 \<Rightarrow> (('w, 'a) fs_state_scheme, u32) op" where
  "alloc_in [] offset = sret EOF32"
| "alloc_in (buf # bufs) offset =
     sbind (sensure (buf \<noteq> 0)) (\<lambda>_.
     sbind (on_map buf offset (\<lambda>m. bitmap_scan m 1)) (\<lambda>bit.
     if bit \<noteq> EOF32 then sbind (bwrite buf) (\<lambda>_. sret bit)
     else alloc_in bufs (offset + BLOCK_BITS)))"

text \<open>The search of \<open>bfree\<close> and \<open>ifree\<close> for the bitmap block of a bit.\<close>

primrec free_in :: "u32 list \<Rightarrow> u32 \<Rightarrow> u32 \<Rightarrow> (('w, 'a) fs_state_scheme, unit) op" where
  "free_in [] offset idx = sret ()"
| "free_in (buf # bufs) offset idx =
     (if offset \<le> idx \<and> idx < offset + BLOCK_BITS then
        sbind (sensure (buf \<noteq> 0)) (\<lambda>_.
        sbind (on_map buf offset (\<lambda>m. rbind (bitmap_test m idx) (\<lambda>used.
          if \<not> used then Inl AssertFail else rbind (bitmap_set m idx False) (\<lambda>m. Inr ((), m))))) (\<lambda>_.
        bwrite buf))
      else free_in bufs (offset + BLOCK_BITS) idx)"

definition zone_base :: "u32 \<Rightarrow> (('w, 'a) fs_state_scheme, u32) op" where
  "zone_base sb = sbind (sb_desc sb) (\<lambda>d. sret (ucast (s_firstdatazone d) - 1))"

definition balloc :: "int \<Rightarrow> (('w, 'a) fs_state_scheme, u32) op" where
  "balloc dev =
     sbind (get_super dev) (\<lambda>sb.
     sbind (sensure (sb \<noteq> 0)) (\<lambda>_.
     sbind (get_sb sb) (\<lambda>t.
     sbind (zone_base sb) (\<lambda>base.
     alloc_in (sb_zmaps t) base))))"

definition bfree :: "int \<Rightarrow> u32 \<Rightarrow> (('w, 'a) fs_state_scheme, unit) op" where
  "bfree dev idx =
     sbind (get_super dev) (\<lambda>sb.
     sbind (sensure (sb \<noteq> 0)) (\<lambda>_.
     sbind (get_sb sb) (\<lambda>t.
     sbind (zone_base sb) (\<lambda>base.
     free_in (sb_zmaps t) base idx))))"

definition ialloc :: "int \<Rightarrow> (('w, 'a) fs_state_scheme, u32) op" where
  "ialloc dev =
     sbind (get_super dev) (\<lambda>sb.
     sbind (sensure (sb \<noteq> 0)) (\<lambda>_.
     sbind (get_sb sb) (\<lambda>t. alloc_in (sb_imaps t) 0)))"

definition ifree :: "int \<Rightarrow> u32 \<Rightarrow> (('w, 'a) fs_state_scheme, unit) op" where
  "ifree dev idx =
     sbind (get_super dev) (\<lambda>sb.
     sbind (sensure (sb \<noteq> 0)) (\<lambda>_.
     sbind (get_sb sb) (\<lambda>t. free_in (sb_imaps t) 0 idx)))"

text \<open>The array of 16-bit block numbers at an offset of a buffer.\<close>

definition zone_get :: "u32 \<Rightarrow> u32 \<Rightarrow> u32 \<Rightarrow> (('w, 'a) fs_state_scheme, u16) op" where
  "zone_get buf off index =
     sbind (get_buf buf) (\<lambda>b.
     let at = unat off + 2 * unat index
     in if at + 2 \<le> length (b_data b) then sret (get16 (b_data b) at) else sfail Fault)"

definition zone_put :: "u32 \<Rightarrow> u32 \<Rightarrow> u32 \<Rightarrow> u16 \<Rightarrow> (('w, 'a) fs_state_scheme, unit) op" where
  "zone_put buf off index v =
     upd_buf buf (\<lambda>b. b\<lparr>b_data := put (b_data b) (unat off + 2 * unat index) (bytes16 v)\<rparr>)"

text \<open>
  The loop of \<open>reckon\<close>: \<open>buf\<close> holds the array at \<open>off\<close>; \<open>index\<close>, \<open>block\<close> and \<open>divider\<close> are the
  variables of the code.
\<close>

primrec reckon_loop :: "u32 \<Rightarrow> int \<Rightarrow> bool \<Rightarrow> nat \<Rightarrow> u32 \<Rightarrow> u32 \<Rightarrow> u32 \<Rightarrow> u32 \<Rightarrow> u32 \<Rightarrow> (('w, 'a) fs_state_scheme, u32) op" where
  "reckon_loop ip dev create 0 buf off index block divider =
     sbind (zone_get buf off index) (\<lambda>z.
     if z = 0 \<and> \<not> create then sret 0
     else sbind (if z = 0 then sbind (balloc dev) (\<lambda>n. sbind (zone_put buf off index (ucast n)) (\<lambda>_. dirty_buf buf))
                 else sret ()) (\<lambda>_.
          sbind (brelease buf) (\<lambda>_.
          sbind (get_inode ip) (\<lambda>i.
          sbind (get_buf (i_buf i)) (\<lambda>b.
          sbind (if b_dirty b then sbind (upd_buf (i_buf i) (b_dirty_update (\<lambda>_. False))) (\<lambda>_. bwrite (i_buf i))
                 else sret ()) (\<lambda>_.
          sbind (zone_get buf off index) (\<lambda>z. sret (ucast z))))))))"
| "reckon_loop ip dev create (Suc level) buf off index block divider =
     sbind (zone_get buf off index) (\<lambda>z.
     if z = 0 \<and> \<not> create then sret 0
     else sbind (if z = 0 then sbind (balloc dev) (\<lambda>n. sbind (zone_put buf off index (ucast n)) (\<lambda>_. dirty_buf buf))
                 else sret ()) (\<lambda>_.
          sbind (brelease buf) (\<lambda>_.
          sbind (zone_get buf off index) (\<lambda>z.
          sbind (bread dev (ucast z)) (\<lambda>buf'.
          reckon_loop ip dev create level buf' 0 (block div divider) (block mod divider) (divider div BLOCK_INDEXES))))))"

definition reckon :: "u32 \<Rightarrow> u32 \<Rightarrow> bool \<Rightarrow> nat \<Rightarrow> (('w, 'a) fs_state_scheme, u32) op" where
  "reckon ip block create level =
     sbind (get_inode ip) (\<lambda>i.
     let (index, divider) = (if level = 0 then (block, 0) else if level = 1 then (DIRECT_BLOCK, 1)
                             else (DIRECT_BLOCK + 1, BLOCK_INDEXES))
     in sbind (upd_buf (i_buf i) (b_count_update (\<lambda>n. n + 1))) (\<lambda>_.
        reckon_loop ip (i_dev i) create level (i_buf i) (i_desc i + 14) index block divider))"

definition bmap :: "u32 \<Rightarrow> u32 \<Rightarrow> bool \<Rightarrow> (('w, 'a) fs_state_scheme, u32) op" where
  "bmap ip block create =
     sbind (sensure (block < TOTAL_BLOCK)) (\<lambda>_.
     if block < DIRECT_BLOCK then reckon ip block create 0
     else if block < DIRECT_BLOCK + BLOCK_INDEXES then reckon ip (block - DIRECT_BLOCK) create 1
     else reckon ip (block - BLOCK_INDEXES) create 2)"

end
