(* ===== verification/Inode.thy ===== *)
theory Inode
  imports Bmap
begin

text \<open>
  The inodes in memory: \<open>src/src/fs/inode.c\<close>. The two \<open>kmalloc\<close> and \<open>alloc_kpage\<close> areas of a pipe are
  the queue in the inode itself.
\<close>

unbundle bit_operations_syntax

primrec free_inode_from :: "inode list \<Rightarrow> u32 \<Rightarrow> u32" where
  "free_inode_from [] p = 0"
| "free_inode_from (i # is) p = (if i_dev i = - 1 then p else free_inode_from is (p + 1))"

definition get_free_inode :: "(('w, 'a) fs_state_scheme, u32) op" where
  "get_free_inode = sbind (sget (\<lambda>s. free_inode_from (inodes s) 1)) (\<lambda>p. if p = 0 then sfail Panic else sret p)"

definition get_root_inode :: u32 where
  "get_root_inode = 1"

definition put_free_inode :: "u32 \<Rightarrow> (('w, 'a) fs_state_scheme, unit) op" where
  "put_free_inode p =
     sbind (sensure (p \<noteq> get_root_inode)) (\<lambda>_.
     sbind (get_inode p) (\<lambda>i.
     sbind (sensure (i_count i = 0)) (\<lambda>_. upd_inode p (i_dev_update (\<lambda>_. - 1)))))"

definition PIPE_SIZE :: u32 where "PIPE_SIZE = 0x1000"

definition get_pipe_inode :: "u8 list \<Rightarrow> (('w, 'a) fs_state_scheme, u32) op" where
  "get_pipe_inode page =
     sbind get_free_inode (\<lambda>p.
     sbind (upd_inode p (\<lambda>i. i\<lparr>i_dev := - 2, i_buf := 0, i_count := 2, i_pipe := True,
       i_fifo := fifo_init page PIPE_SIZE\<rparr>)) (\<lambda>_. sret p))"

definition put_pipe_inode :: "u32 \<Rightarrow> (('w, 'a) fs_state_scheme, unit) op" where
  "put_pipe_inode p =
     (if p = 0 then sret ()
      else sbind (upd_inode p (i_count_update (\<lambda>n. n - 1))) (\<lambda>_.
           sbind (get_inode p) (\<lambda>i.
           if i_count i \<noteq> 0 then sret ()
           else sbind (upd_inode p (i_pipe_update (\<lambda>_. False))) (\<lambda>_. put_free_inode p))))"

definition inode_block :: "u32 \<Rightarrow> u32 \<Rightarrow> (('w, 'a) fs_state_scheme, u32) op" where
  "inode_block sb nr =
     sbind (sb_desc sb) (\<lambda>d.
     sret (2 + ucast (s_imap_blocks d) + ucast (s_zmap_blocks d) + (nr - 1) div BLOCK_INODES))"

primrec find_inode_in :: "inode list \<Rightarrow> u32 \<Rightarrow> u32 list \<Rightarrow> u32 res" where
  "find_inode_in is nr [] = Inr 0"
| "find_inode_in is nr (p # ps) =
     rbind (rd is (unat p - 1)) (\<lambda>i. if i_nr i = nr then Inr p else find_inode_in is nr ps)"

definition find_inode :: "u32 \<Rightarrow> u32 \<Rightarrow> (('w, 'a) fs_state_scheme, u32) op" where
  "find_inode sb nr =
     sbind (get_sb sb) (\<lambda>t. \<lambda>s. rbind (find_inode_in (inodes s) nr (sb_inodes t)) (\<lambda>p. Inr (p, s)))"

text \<open>The list of the inodes in use of a super block; \<open>list_remove\<close> finds the node by its links.\<close>

definition link_inode :: "u32 \<Rightarrow> u32 \<Rightarrow> (('w, 'a) fs_state_scheme, unit) op" where
  "link_inode sb p =
     sbind (get_sb sb) (\<lambda>t.
     if p \<in> set (sb_inodes t) then sfail AssertFail else upd_sb sb (sb_inodes_update (\<lambda>l. p # l)))"

definition unlink_inode :: "u32 \<Rightarrow> (('w, 'a) fs_state_scheme, unit) op" where
  "unlink_inode p = (\<lambda>s.
     if \<exists>t\<in>set (supers s). p \<in> set (sb_inodes t)
     then Inr ((), s\<lparr>supers := map (sb_inodes_update (remove1 p)) (supers s)\<rparr>) else Inl AssertFail)"

definition iput :: "u32 \<Rightarrow> (('w, 'a) fs_state_scheme, unit) op" where
  "iput p =
     (if p = 0 then sret ()
      else sbind (get_inode p) (\<lambda>i.
           if i_pipe i then put_pipe_inode p
           else sbind (upd_inode p (i_count_update (\<lambda>n. n - 1))) (\<lambda>_.
                sbind (get_inode p) (\<lambda>i.
                if i_count i \<noteq> 0 then sret ()
                else sbind (unlink_inode p) (\<lambda>_.
                     sbind (brelease (i_buf i)) (\<lambda>_.
                     put_free_inode p))))))"

definition fit_inode :: "u32 \<Rightarrow> (('w, 'a) fs_state_scheme, u32) op" where
  "fit_inode p =
     sbind (get_inode p) (\<lambda>i.
     if i_mount i = 0 then sret p
     else sbind (get_super (i_mount i)) (\<lambda>sb.
          sbind (sensure (sb \<noteq> 0)) (\<lambda>_.
          sbind (iput p) (\<lambda>_.
          sbind (get_sb sb) (\<lambda>t.
          sbind (upd_inode (sb_iroot t) (i_count_update (\<lambda>n. n + 1))) (\<lambda>_.
          sret (sb_iroot t)))))))"

definition iget :: "int \<Rightarrow> u32 \<Rightarrow> (('w, 'a) fs_state_scheme, u32) op" where
  "iget dev nr =
     sbind (get_super dev) (\<lambda>sb.
     sbind (sensure (sb \<noteq> 0)) (\<lambda>_.
     sbind (find_inode sb nr) (\<lambda>p.
     if p \<noteq> 0 then
       sbind time_now (\<lambda>t.
       sbind (upd_inode p (\<lambda>i. i\<lparr>i_count := i_count i + 1, i_atime := t\<rparr>)) (\<lambda>_.
       fit_inode p))
     else
       sbind get_free_inode (\<lambda>p.
       sbind time_now (\<lambda>t.
       sbind (upd_inode p (\<lambda>i. i\<lparr>i_dev := dev, i_nr := nr, i_count := i_count i + 1, i_atime := t\<rparr>)) (\<lambda>_.
       sbind (link_inode sb p) (\<lambda>_.
       sbind (inode_block sb nr) (\<lambda>block.
       sbind (bread dev block) (\<lambda>buf.
       sbind (upd_inode p (\<lambda>i. i\<lparr>i_buf := buf, i_desc := ((nr - 1) mod BLOCK_INODES) * 32\<rparr>)) (\<lambda>_.
       sbind (desc_of p) (\<lambda>d.
       sbind (upd_inode p (i_ctime_update (\<lambda>_. d_mtime d))) (\<lambda>_.
       sret p))))))))))))"

definition inode_init :: "(('w, 'a) fs_state_scheme, unit) op" where
  "inode_init = smodify (\<lambda>s. s\<lparr>inodes := map (\<lambda>i. i\<lparr>i_dev := - 1, i_rxwaiter := 0, i_txwaiter := 0, i_pipe := False\<rparr>)
     (inodes s)\<rparr>)"

text \<open>How many bytes of the block at \<open>offset\<close> a transfer of \<open>left\<close> bytes takes.\<close>

definition chunk :: "u32 \<Rightarrow> u32 \<Rightarrow> u32" where
  "chunk offset left = (let start = offset mod BLOCK_SIZE
     in if BLOCK_SIZE - start > left then left else BLOCK_SIZE - start)"

lemma chunk_bounds:
  "unat (chunk offset left) \<le> unat left" "left \<noteq> 0 \<Longrightarrow> chunk offset left \<noteq> 0"
proof -
  have m: "offset mod BLOCK_SIZE < BLOCK_SIZE" by (simp add: BLOCK_SIZE_def word_mod_less_divisor)
  show "unat (chunk offset left) \<le> unat left" by (simp add: chunk_def Let_def word_le_nat_alt [symmetric] not_less)
  show "left \<noteq> 0 \<Longrightarrow> chunk offset left \<noteq> 0" using m by (auto simp: chunk_def Let_def)
qed

lemma chunk_decreases: "left \<noteq> 0 \<Longrightarrow> unat (left - chunk offset left) < unat left"
  using chunk_bounds(1) [of offset left] chunk_bounds(2) [of left offset]
  by (simp add: unat_sub word_le_nat_alt unat_gt_0 diff_less)

function read_loop :: "u32 \<Rightarrow> u32 \<Rightarrow> u32 \<Rightarrow> u8 list \<Rightarrow> (('w, 'a) fs_state_scheme, u32 \<times> u8 list) op" where
  "read_loop ip left offset acc =
     (if left = 0 then sret (offset, acc)
      else sbind (bmap ip (offset div BLOCK_SIZE) False) (\<lambda>idx.
           sbind (sensure (idx \<noteq> 0)) (\<lambda>_.
           sbind (get_inode ip) (\<lambda>i.
           sbind (bread (i_dev i) idx) (\<lambda>bf.
           sbind (get_buf bf) (\<lambda>b.
           let start = unat (offset mod BLOCK_SIZE); chars = chunk offset left
           in sbind (brelease bf) (\<lambda>_.
              read_loop ip (left - chars) (offset + chars) (acc @ slice (b_data b) start (unat chars)))))))))"
  by pat_completeness auto
termination
  by (relation "measure (\<lambda>(ip, left, offset, acc). unat left)") (simp_all add: chunk_decreases)

declare read_loop.simps [simp del]

text \<open>The value and the bytes that are stored in the caller's buffer.\<close>

definition inode_read :: "u32 \<Rightarrow> u32 \<Rightarrow> u32 \<Rightarrow> (('w, 'a) fs_state_scheme, int \<times> u8 list) op" where
  "inode_read ip len offset =
     sbind (desc_of ip) (\<lambda>d.
     sbind (sensure (ISREG (d_mode d) \<or> ISDIR (d_mode d))) (\<lambda>_.
     if offset \<ge> d_size d then sret (- 1, [])
     else sbind (read_loop ip (if len > d_size d - offset then d_size d - offset else len) offset []) (\<lambda>(end', xs).
          sbind time_now (\<lambda>t.
          sbind (upd_inode ip (i_atime_update (\<lambda>_. t))) (\<lambda>_.
          sret (sint (end' - offset), xs))))))"

function write_loop :: "u32 \<Rightarrow> u8 list \<Rightarrow> u32 \<Rightarrow> u32 \<Rightarrow> (('w, 'a) fs_state_scheme, u32) op" where
  "write_loop ip buf left offset =
     (if left = 0 then sret offset
      else sbind (bmap ip (offset div BLOCK_SIZE) True) (\<lambda>idx.
           sbind (sensure (idx \<noteq> 0)) (\<lambda>_.
           sbind (get_inode ip) (\<lambda>i.
           sbind (bread (i_dev i) idx) (\<lambda>bf.
           let start = unat (offset mod BLOCK_SIZE); chars = chunk offset left
           in sbind (if unat chars \<le> length buf then sret () else sfail Fault) (\<lambda>_.
              sbind (upd_buf bf (\<lambda>b. b\<lparr>b_data := put (b_data b) start (take (unat chars) buf), b_dirty := True\<rparr>)) (\<lambda>_.
              sbind (brelease bf) (\<lambda>_.
              write_loop ip (drop (unat chars) buf) (left - chars) (offset + chars)))))))))"
  by pat_completeness auto
termination
  by (relation "measure (\<lambda>(ip, buf, left, offset). unat left)") (simp_all add: chunk_decreases)

declare write_loop.simps [simp del]

definition inode_write :: "u32 \<Rightarrow> u8 list \<Rightarrow> u32 \<Rightarrow> u32 \<Rightarrow> (('w, 'a) fs_state_scheme, int) op" where
  "inode_write ip buf len offset =
     sbind (desc_of ip) (\<lambda>d.
     sbind (sensure (ISREG (d_mode d))) (\<lambda>_.
     sbind (write_loop ip buf len offset) (\<lambda>end'.
     sbind time_now (\<lambda>t.
     sbind (upd_desc ip (\<lambda>d. put_mtime t (put_size (if end' < d_size d then d_size d else end') d))) (\<lambda>_.
     sbind (upd_inode ip (i_atime_update (\<lambda>_. t))) (\<lambda>_.
     sbind (get_inode ip) (\<lambda>i.
     sbind (bwrite (i_buf i)) (\<lambda>_.
     sret (sint (end' - offset))))))))))"

text \<open>The entry at \<open>index\<close> of a block array and the blocks below it, to the depth of \<open>level\<close>.\<close>

primrec inode_bfree :: "nat \<Rightarrow> u32 \<Rightarrow> u32 \<Rightarrow> u32 \<Rightarrow> u32 \<Rightarrow> (('w, 'a) fs_state_scheme, unit) op" where
  "inode_bfree 0 ip buf off index =
     sbind (zone_get buf off index) (\<lambda>z.
     if z = 0 then sret ()
     else sbind (get_inode ip) (\<lambda>i. bfree (i_dev i) (ucast z)))"
| "inode_bfree (Suc level) ip buf off index =
     sbind (zone_get buf off index) (\<lambda>z.
     if z = 0 then sret ()
     else sbind (get_inode ip) (\<lambda>i.
          sbind (bread (i_dev i) (ucast z)) (\<lambda>buf'.
          sbind (sforeach (map of_nat [0..<unat BLOCK_INDEXES]) (inode_bfree level ip buf' 0)) (\<lambda>_.
          sbind (brelease buf') (\<lambda>_.
          sbind (zone_get buf off index) (\<lambda>z. bfree (i_dev i) (ucast z)))))))"

definition free_zone :: "u32 \<Rightarrow> nat \<Rightarrow> u32 \<Rightarrow> (('w, 'a) fs_state_scheme, unit) op" where
  "free_zone ip level index =
     sbind (get_inode ip) (\<lambda>i.
     sbind (inode_bfree level ip (i_buf i) (i_desc i + 14) index) (\<lambda>_.
     zone_put (i_buf i) (i_desc i + 14) index 0))"

definition inode_truncate :: "u32 \<Rightarrow> (('w, 'a) fs_state_scheme, unit) op" where
  "inode_truncate ip =
     sbind (desc_of ip) (\<lambda>d.
     if \<not> ISREG (d_mode d) \<or> \<not> ISDIR (d_mode d) then sret ()
     else sbind (sforeach (map of_nat [0..<unat DIRECT_BLOCK]) (free_zone ip 0)) (\<lambda>_.
          sbind (free_zone ip 1 DIRECT_BLOCK) (\<lambda>_.
          sbind (free_zone ip 2 (DIRECT_BLOCK + 1)) (\<lambda>_.
          sbind time_now (\<lambda>t.
          sbind (upd_desc ip (\<lambda>d. put_mtime t (put_size 0 d))) (\<lambda>_.
          sbind (upd_inode ip (i_atime_update (\<lambda>_. t))) (\<lambda>_.
          sbind (get_inode ip) (\<lambda>i. bwrite (i_buf i)))))))))"

text \<open>No mode is both that of a file and that of a directory, so nothing is ever truncated.\<close>

lemma inode_truncate_nothing:
  "desc_of ip s = Inr (d, s) \<Longrightarrow> inode_truncate ip s = Inr ((), s)"
  by (simp add: inode_truncate_def sbind_run ISREG_def ISDIR_def IFREG_def IFDIR_def)

definition new_inode :: "int \<Rightarrow> u32 \<Rightarrow> (('w, 'a) fs_state_scheme, u32) op" where
  "new_inode dev nr =
     sbind running_task (\<lambda>task.
     sbind (iget dev nr) (\<lambda>ip.
     sbind (get_inode ip) (\<lambda>i.
     sbind (dirty_buf (i_buf i)) (\<lambda>_.
     sbind time_now (\<lambda>t.
     sbind (upd_desc ip (\<lambda>d. put_nlinks 1 (put_gid (ucast (t_gid task)) (put_mtime t (put_size 0 (put_uid (ucast (t_uid task))
       (put_mode (uint (0x1ff AND NOT (t_umask task))) d))))))) (\<lambda>_.
     sbind (upd_inode ip (i_atime_update (\<lambda>_. t))) (\<lambda>_.
     sret ip)))))))"

end
