(* ===== verification/Namei.thy ===== *)
theory Namei
  imports Inode
begin

text \<open>
  Directories and path names: \<open>src/src/fs/namei.c\<close>. A path is the list of its characters before the
  terminator, and a pointer into it is the rest of the list from there. A directory entry is a
  buffer and the offset of the 16 bytes of the entry in it.
\<close>

unbundle bit_operations_syntax

definition P_EXEC :: u16 where "P_EXEC = 1"
definition P_WRITE :: u16 where "P_WRITE = 2"
definition P_READ :: u16 where "P_READ = 4"
definition KERNEL_USER :: u32 where "KERNEL_USER = 0"

definition may_access :: "task \<Rightarrow> u8 list \<Rightarrow> u16 \<Rightarrow> bool" where
  "may_access task d want =
     (if d_nlinks d = 0 then False
      else if t_uid task = KERNEL_USER then True
      else let mode = (word_of_int (d_mode d) :: u16);
               mode = (if t_uid task = ucast (d_uid d) then drop_bit 6 mode
                       else if t_gid task = ucast (d_gid d) then drop_bit 3 mode else mode)
           in mode AND want AND 7 = want)"

definition permission :: "u32 \<Rightarrow> u16 \<Rightarrow> (('w, 'a) fs_state_scheme, bool) op" where
  "permission ip want = sbind (desc_of ip) (\<lambda>d. sbind running_task (\<lambda>task. sret (may_access task d want)))"

text \<open>
  The loop of \<open>match_name\<close>; the entry's name is read from the buffer, whose end it must not reach.
  \<open>Some next\<close> when the name matches.
\<close>

fun match_rest :: "u8 list \<Rightarrow> u8 list \<Rightarrow> (u8 list \<times> u8) res" where
  "match_rest lhs [] = Inl Fault"
| "match_rest [] (r # rs) = Inr ([], r)"
| "match_rest (c # cs) (r # rs) = (if c = r \<and> r \<noteq> 0 then match_rest cs rs else Inr (c # cs, r))"

definition match_name :: "u8 list \<Rightarrow> u8 list \<Rightarrow> u8 list option res" where
  "match_name name entry =
     rbind (match_rest name entry) (\<lambda>(lhs, r).
       if r \<noteq> 0 then Inr None
       else case lhs of [] \<Rightarrow> Inr (Some [])
            | c # cs \<Rightarrow> if is_separator c then Inr (Some cs) else Inr None)"

definition DOT :: u8 where "DOT = 0x2E"
definition SLASH :: u8 where "SLASH = 0x2F"

definition entry_nr :: "u32 \<Rightarrow> u32 \<Rightarrow> (('w, 'a) fs_state_scheme, u16) op" where
  "entry_nr buf off =
     sbind (get_buf buf) (\<lambda>b. if unat off + 2 \<le> length (b_data b) then sret (get16 (b_data b) (unat off)) else sfail Fault)"

definition put_entry_nr :: "u32 \<Rightarrow> u32 \<Rightarrow> u16 \<Rightarrow> (('w, 'a) fs_state_scheme, unit) op" where
  "put_entry_nr buf off nr = upd_buf buf (\<lambda>b. b\<lparr>b_data := put (b_data b) (unat off) (bytes16 nr)\<rparr>)"

text \<open>
  The search loop of \<open>find_entry\<close>: \<open>left\<close> entries are still to be looked at, \<open>buf\<close> and \<open>entry\<close> are
  the variables of the code (\<open>entry\<close> relative to the buffer's data).
\<close>

primrec find_loop :: "u32 \<Rightarrow> u8 list \<Rightarrow> nat \<Rightarrow> u32 \<Rightarrow> u32 \<Rightarrow> u32 \<Rightarrow> (('w, 'a) fs_state_scheme, (u32 \<times> u32 \<times> u8 list) option) op" where
  "find_loop dir name 0 i buf entry = sbind (brelease buf) (\<lambda>_. sret None)"
| "find_loop dir name (Suc left) i buf entry =
     sbind (if buf = 0 \<or> entry \<ge> BLOCK_SIZE then
              sbind (brelease buf) (\<lambda>_.
              sbind (bmap dir (i div BLOCK_DENTRIES) False) (\<lambda>block.
              sbind (get_inode dir) (\<lambda>d. bread (i_dev d) block)))
            else sret buf) (\<lambda>buf.
     let entry = (i mod BLOCK_DENTRIES) * 16
     in sbind (get_buf buf) (\<lambda>b.
        sbind (slift (match_name name (drop (unat entry + 2) (b_data b)))) (\<lambda>m.
        sbind (if m \<noteq> None then entry_nr buf entry else sret 0) (\<lambda>nr.
        case m of Some next \<Rightarrow> if nr \<noteq> 0 then sret (Some (buf, entry, next)) else find_loop dir name left (i + 1) buf entry
        | None \<Rightarrow> find_loop dir name left (i + 1) buf entry))))"

text \<open>The value is the directory, which \<open>..\<close> in the root of a file system changes, and the entry.\<close>

definition find_entry :: "u32 \<Rightarrow> u8 list \<Rightarrow> (('w, 'a) fs_state_scheme, u32 \<times> (u32 \<times> u32 \<times> u8 list) option) op" where
  "find_entry dir name =
     sbind (desc_of dir) (\<lambda>d.
     sbind (sensure (ISDIR (d_mode d))) (\<lambda>_.
     sbind (slift (match_name name [DOT, DOT, 0])) (\<lambda>up.
     sbind (get_inode dir) (\<lambda>i.
     sbind (if up \<noteq> None \<and> i_nr i = 1 then
              sbind (get_super (i_dev i)) (\<lambda>sb.
              sbind (get_sb sb) (\<lambda>t.
              sbind (upd_inode (sb_imount t) (i_count_update (\<lambda>n. n + 1))) (\<lambda>_.
              sbind (iput dir) (\<lambda>_. sret (sb_imount t)))))
            else sret dir) (\<lambda>dir.
     sbind (desc_of dir) (\<lambda>d.
     sbind (find_loop dir name (unat (d_size d div 16)) 0 0 0) (\<lambda>r.
     sret (dir, r))))))))"

text \<open>The search of \<open>add_entry\<close> for the end of the directory, which is then one entry longer.\<close>

definition new_entry :: "u32 \<Rightarrow> u8 list \<Rightarrow> u32 \<Rightarrow> u32 \<Rightarrow> u32 \<Rightarrow> (('w, 'a) fs_state_scheme, unit) op" where
  "new_entry dir name i buf entry =
     sbind (upd_desc dir (put_size ((i + 1) * 16))) (\<lambda>_.
     sbind time_now (\<lambda>t.
     sbind (upd_desc dir (put_mtime t)) (\<lambda>_.
     sbind (get_inode dir) (\<lambda>d.
     sbind (bwrite (i_buf d)) (\<lambda>_.
     sbind (put_entry_nr buf entry 0) (\<lambda>_.
     sbind (upd_buf buf (\<lambda>b. b\<lparr>b_data := put (b_data b) (unat entry + 2)
        (strncpy_into (slice (b_data b) (unat entry + 2) NAME_LEN) name NAME_LEN)\<rparr>)) (\<lambda>_.
     dirty_buf buf)))))))"

partial_function (option) add_loop ::
  "u32 \<Rightarrow> u8 list \<Rightarrow> u32 \<Rightarrow> u32 \<Rightarrow> u32 \<Rightarrow> ('w, 'a) fs_state_scheme \<Rightarrow>
   ((u32 \<times> u32) \<times> ('w, 'a) fs_state_scheme) res option" where
  "add_loop dir name i buf entry s =
     lbind (sbind (if buf = 0 \<or> entry \<ge> BLOCK_SIZE then
              sbind (brelease buf) (\<lambda>_.
              sbind (bmap dir (i div BLOCK_DENTRIES) True) (\<lambda>block.
              sbind (sensure (block \<noteq> 0)) (\<lambda>_.
              sbind (get_inode dir) (\<lambda>d.
              sbind (bread (i_dev d) block) (\<lambda>buf. sret (buf, 0))))))
            else sret (buf, entry)) (\<lambda>(buf, entry).
          sbind (desc_of dir) (\<lambda>d. sret (buf, entry, d_size d))) s)
       (\<lambda>((buf, entry, sz), s).
          if i * 16 \<ge> sz then Some (sbind (new_entry dir name i buf entry) (\<lambda>_. sret (buf, entry)) s)
          else add_loop dir name (i + 1) buf (entry + 16) s)"

definition add_entry :: "u32 \<Rightarrow> u8 list \<Rightarrow> (('w, 'a) fs_state_scheme, u32 \<times> u32) op" where
  "add_entry dir name =
     sbind (find_entry dir name) (\<lambda>(dir, r).
     case r of Some (buf, entry, _) \<Rightarrow> sret (buf, entry)
     | None \<Rightarrow> sbind (sensure (list_all (\<lambda>c. \<not> is_separator c) name)) (\<lambda>_.
               \<lambda>s. run_loop (add_loop dir name 0 0 0 s)))"

text \<open>The rest of a path after its last separator.\<close>

fun after_last_sep :: "u8 list \<Rightarrow> u8 list option" where
  "after_last_sep [] = None"
| "after_last_sep (c # cs) =
     (case after_last_sep cs of Some r \<Rightarrow> Some r | None \<Rightarrow> if is_separator c then Some cs else None)"

text \<open>The loop of \<open>named\<close>; positions in the path are compared by what is left from there.\<close>

partial_function (option) named_loop ::
  "int \<Rightarrow> u8 list \<Rightarrow> u32 \<Rightarrow> u8 list \<Rightarrow> ('w, 'a) fs_state_scheme \<Rightarrow>
   ((u32 \<times> u8 list) \<times> ('w, 'a) fs_state_scheme) res option" where
  "named_loop dev right inode left s =
     lbind (find_entry inode left s) (\<lambda>((inode, r), s).
       case r of
         None \<Rightarrow> Some (sbind (iput inode) (\<lambda>_. sret (0, left)) s)
       | Some (buf, entry, next) \<Rightarrow>
           lbind (sbind (iput inode) (\<lambda>_.
                  sbind (entry_nr buf entry) (\<lambda>nr.
                  sbind (iget dev (ucast nr)) (\<lambda>inode.
                  sbind (brelease buf) (\<lambda>_.
                  sbind (desc_of inode) (\<lambda>d.
                  sbind (permission inode P_EXEC) (\<lambda>ok. sret (inode, ISDIR (d_mode d) \<and> ok))))))) s)
             (\<lambda>((inode, ok), s).
                if \<not> ok then Some (sbind (iput inode) (\<lambda>_. sret (0, next)) s)
                else if length right = length next then Some (Inr ((inode, next), s))
                else named_loop dev right inode next s))"

definition named :: "u8 list \<Rightarrow> (('w, 'a) fs_state_scheme, u32 \<times> u8 list) op" where
  "named pathname =
     sbind running_task (\<lambda>task.
     let (inode, left) = (case pathname of [] \<Rightarrow> (0, [])
            | c # cs \<Rightarrow> if is_separator c then (t_iroot task, cs) else (t_ipwd task, pathname))
     in sbind (upd_inode inode (i_count_update (\<lambda>n. n + 1))) (\<lambda>_.
        case after_last_sep left of
          None \<Rightarrow> sret (inode, left)
        | Some right \<Rightarrow> sbind (get_inode inode) (\<lambda>i. \<lambda>s. run_loop (named_loop (i_dev i) right inode left s))))"

definition namei :: "u8 list \<Rightarrow> (('w, 'a) fs_state_scheme, u32) op" where
  "namei pathname =
     sbind (named pathname) (\<lambda>(dir, next).
     if dir = 0 then sret 0
     else if next = [] then sbind (iput dir) (\<lambda>_. sret 0)
     else sbind (find_entry dir next) (\<lambda>(dir, r).
          case r of None \<Rightarrow> sbind (iput dir) (\<lambda>_. sret 0)
          | Some (buf, entry, _) \<Rightarrow>
              sbind (entry_nr buf entry) (\<lambda>nr.
              sbind (get_inode dir) (\<lambda>d.
              sbind (iget (i_dev d) (ucast nr)) (\<lambda>inode.
              sbind (iput dir) (\<lambda>_.
              sbind (brelease buf) (\<lambda>_. sret inode)))))))"

subsection \<open>Reference definitions\<close>

text \<open>The position of the class of a task (owner, group, others) in the mode bits.\<close>

definition access_class :: "task \<Rightarrow> u8 list \<Rightarrow> nat" where
  "access_class task d = (if t_uid task = ucast (d_uid d) then 6 else if t_gid task = ucast (d_gid d) then 3 else 0)"

lemma and_7_bits: "(want :: u16) < 8 \<Longrightarrow> m AND want AND 7 = want \<longleftrightarrow> (\<forall>i<3. bit want i \<longrightarrow> bit m i)"
proof -
  assume w: "want < 8"
  have 7: "(7 :: u16) = mask 3" by (simp add: mask_eq_exp_minus_1)
  have t: "want AND mask 3 = want"
    using w by (intro less_mask_eq) simp
  show ?thesis
    unfolding 7
  proof
    assume e: "m AND want AND mask 3 = want"
    show "\<forall>i<3. bit want i \<longrightarrow> bit m i"
    proof (intro allI impI)
      fix i assume "bit want i"
      then have "bit (m AND want AND mask 3) i" using e by simp
      then show "bit m i" by (simp add: bit_simps)
    qed
  next
    assume b: "\<forall>i<3. bit want i \<longrightarrow> bit m i"
    have "bit (m AND want AND mask 3) i = bit (want AND mask 3) i" for i
      using b by (auto simp: bit_simps)
    then show "m AND want AND mask 3 = want" using t by (metis bit_eqI)
  qed
qed

text \<open>The first component of a path and what follows its separator.\<close>

definition component :: "u8 list \<Rightarrow> u8 list" where
  "component name = takeWhile (\<lambda>c. \<not> is_separator c) name"

definition remainder :: "u8 list \<Rightarrow> u8 list" where
  "remainder name = drop 1 (dropWhile (\<lambda>c. \<not> is_separator c) name)"

lemma match_name_Cons: "0 \<notin> set (c # cs) \<Longrightarrow> c \<noteq> 0 \<Longrightarrow> match_name (c # cs) (c # rs) = match_name cs rs"
  by (simp add: match_name_def)

lemma match_name_component:
  assumes "0 \<notin> set name" "0 \<notin> set e" "\<forall>c\<in>set e. \<not> is_separator c"
  shows "match_name name (e @ 0 # rest) = Inr (if component name = e then Some (remainder name) else None)"
  using assms
proof (induction e arbitrary: name)
  case Nil
  then show ?case
    by (cases name) (auto simp: match_name_def component_def remainder_def)
next
  case (Cons r e)
  show ?case
  proof (cases name)
    case Nil
    then show ?thesis using Cons.prems by (simp add: match_name_def component_def)
  next
    case (Cons c cs)
    then show ?thesis
      using Cons.prems Cons.IH [of cs]
      by (auto simp: match_name_def component_def remainder_def)
  qed
qed

subsection \<open>Names and permissions\<close>

text \<open>C28: A directory entry whose name (without separators, ended by a zero byte) is \<open>e\<close> matches a path exactly
when \<open>e\<close> is the path's first component, and the search goes on behind the separator that ends it.\<close>

theorem match_name_first_component:
  assumes "0 \<notin> set name" "0 \<notin> set e" "\<forall>c\<in>set e. \<not> is_separator c"
  shows "match_name name (e @ 0 # rest) = Inr (if component name = e then Some (remainder name) else None)"
  using assms by (rule match_name_component)

theorem match_name_first_component_witness:
  "match_name [0x61, 0x2F, 0x62] [0x61, 0, 7] = Inr (Some [0x62])"
  using match_name_first_component [of "[0x61, 0x2F, 0x62]" "[0x61]" "[7]"]
  by (simp add: component_def remainder_def is_separator_def)

text \<open>C26: The permission check is the one of POSIX: access to an inode that still has a link is granted to the
superuser, and to any other task when each requested bit is set in the mode bits of its class, the
owner's before the group's before the others'.\<close>

theorem permission_posix:
  assumes "want < 8"
  shows "may_access task d want \<longleftrightarrow> d_nlinks d \<noteq> 0 \<and>
    (t_uid task = 0 \<or> (\<forall>i<3. bit want i \<longrightarrow> bit (word_of_int (d_mode d) :: u16) (access_class task d + i)))"
  using and_7_bits [OF assms]
  by (simp add: may_access_def KERNEL_USER_def access_class_def bit_simps Let_def)

theorem permission_posix_witness:
  "may_access (blank_task\<lparr>t_uid := 5, t_gid := 7\<rparr>) ([0xA4, 0x81, 5, 0] @ replicate 9 0 @ [1] @ replicate 18 0) P_READ"
proof -
  let ?d = "[0xA4, 0x81, 5, 0] @ replicate 9 0 @ [1] @ replicate 18 0 :: u8 list"
  have "d_mode ?d = 0x81A4" "d_nlinks ?d = 1" "access_class (blank_task\<lparr>t_uid := 5, t_gid := 7\<rparr>) ?d = 6"
    by (simp_all add: access_class_def d_nlinks_def d_uid_def d_mode_def get16_def blank_task_def nth_append)
  then show ?thesis
    using permission_posix [of P_READ "blank_task\<lparr>t_uid := 5, t_gid := 7\<rparr>" ?d]
    by (simp add: P_READ_def numeral_3_eq_3 All_less_Suc)
qed

end
