(* ===== verification/Dirs.thy ===== *)
theory Dirs
  imports Namei
begin

text \<open>
  The system calls on directories of \<open>src/src/fs/namei.c\<close>: \<open>mkdir\<close>, \<open>rmdir\<close>, \<open>link\<close>, \<open>unlink\<close>, \<open>mknod\<close>, the
  opening of an inode, the current and the root directory. A \<open>goto rollback\<close> is the call of the
  function's clean-up with the result that it returns.
\<close>

unbundle bit_operations_syntax

definition put_entry :: "u32 \<Rightarrow> u32 \<Rightarrow> u8 list \<Rightarrow> u16 \<Rightarrow> (('w, 'a) fs_state_scheme, unit) op" where
  "put_entry buf entry name nr =
     sbind (upd_buf buf (\<lambda>b. b\<lparr>b_data := put (b_data b) (unat entry + 2) (name @ [0])\<rparr>)) (\<lambda>_.
     put_entry_nr buf entry nr)"

definition bwrite_inode :: "u32 \<Rightarrow> (('w, 'a) fs_state_scheme, unit) op" where
  "bwrite_inode ip = sbind (get_inode ip) (\<lambda>i. bwrite (i_buf i))"

definition sys_mkdir :: "u8 list \<Rightarrow> int \<Rightarrow> (('w, 'a) fs_state_scheme, int) op" where
  "sys_mkdir pathname mode =
     sbind (named pathname) (\<lambda>(dir, name).
     if dir = 0 then sret (- 1)
     else if name = [] then sbind (iput dir) (\<lambda>_. sret (- 1))
     else sbind (permission dir P_WRITE) (\<lambda>ok.
     if \<not> ok then sbind (iput dir) (\<lambda>_. sret (- 1))
     else sbind (find_entry dir name) (\<lambda>(dir, r).
     case r of Some (bf, _, _) \<Rightarrow> sbind (brelease bf) (\<lambda>_. sbind (iput dir) (\<lambda>_. sret (- 1)))
     | None \<Rightarrow>
       sbind (add_entry dir name) (\<lambda>(bf, entry).
       sbind (dirty_buf bf) (\<lambda>_.
       sbind (get_inode dir) (\<lambda>d.
       sbind (ialloc (i_dev d)) (\<lambda>nr.
       sbind (put_entry_nr bf entry (ucast nr)) (\<lambda>_.
       sbind running_task (\<lambda>task.
       sbind (entry_nr bf entry) (\<lambda>nr.
       sbind (new_inode (i_dev d) (ucast nr)) (\<lambda>inode.
       sbind (upd_desc inode (\<lambda>x. put_nlinks 2 (put_size 32
         (put_mode ((mode AND 0x1ff AND NOT (uint (t_umask task))) OR IFDIR) x)))) (\<lambda>_.
       sbind (bwrite_inode inode) (\<lambda>_.
       sbind (get_inode inode) (\<lambda>i.
       sbind (bmap inode 0 True) (\<lambda>block.
       sbind (bread (i_dev i) block) (\<lambda>zbuf.
       sbind (dirty_buf zbuf) (\<lambda>_.
       sbind (put_entry zbuf 0 [DOT] (ucast (i_nr i))) (\<lambda>_.
       sbind (put_entry zbuf 16 [DOT, DOT] (ucast (i_nr d))) (\<lambda>_.
       sbind (upd_desc dir (\<lambda>x. put_nlinks (d_nlinks x + 1) x)) (\<lambda>_.
       sbind (bwrite_inode dir) (\<lambda>_.
       sbind (iput inode) (\<lambda>_.
       sbind (iput dir) (\<lambda>_.
       sbind (brelease zbuf) (\<lambda>_.
       sbind (brelease bf) (\<lambda>_. sret 0)))))))))))))))))))))))))"

primrec count_entries :: "u32 \<Rightarrow> nat \<Rightarrow> u32 \<Rightarrow> u32 \<Rightarrow> u32 \<Rightarrow> int \<Rightarrow> (('w, 'a) fs_state_scheme, u32 \<times> int) op" where
  "count_entries inode 0 i buf entry count = sret (buf, count)"
| "count_entries inode (Suc left) i buf entry count =
     sbind (if buf = 0 \<or> entry > BLOCK_SIZE then
              sbind (brelease buf) (\<lambda>_.
              sbind (bmap inode (i div BLOCK_DENTRIES) False) (\<lambda>block.
              sbind (sensure (block \<noteq> 0)) (\<lambda>_.
              sbind (get_inode inode) (\<lambda>d.
              sbind (bread (i_dev d) block) (\<lambda>buf. sret (buf, 0))))))
            else sret (buf, entry)) (\<lambda>(buf, entry).
     sbind (entry_nr buf entry) (\<lambda>nr.
     count_entries inode left (i + 1) buf (entry + 16) (if nr \<noteq> 0 then count + 1 else count)))"

definition is_empty :: "u32 \<Rightarrow> (('w, 'a) fs_state_scheme, bool) op" where
  "is_empty inode =
     sbind (desc_of inode) (\<lambda>d.
     sbind (sensure (ISDIR (d_mode d))) (\<lambda>_.
     let entries = d_size d div 16
     in if entries < 2 \<or> d_zone d 0 = 0 then sret False
        else sbind (count_entries inode (unat entries) 0 0 0 0) (\<lambda>(buf, count).
             sbind (brelease buf) (\<lambda>_.
             if count < 2 then sret False else sret (count = 2)))))"

definition rmdir_end :: "u32 \<Rightarrow> u32 \<Rightarrow> u32 \<Rightarrow> int \<Rightarrow> (('w, 'a) fs_state_scheme, int) op" where
  "rmdir_end inode dir bf ret =
     sbind (iput inode) (\<lambda>_. sbind (iput dir) (\<lambda>_. sbind (brelease bf) (\<lambda>_. sret ret)))"

definition touch_dir :: "u32 \<Rightarrow> (('w, 'a) fs_state_scheme, unit) op" where
  "touch_dir dir =
     sbind time_now (\<lambda>t.
     sbind (upd_desc dir (put_mtime t)) (\<lambda>_.
     sbind (upd_inode dir (\<lambda>i. i\<lparr>i_atime := t, i_ctime := t\<rparr>)) (\<lambda>_.
     bwrite_inode dir)))"

definition sys_rmdir :: "u8 list \<Rightarrow> (('w, 'a) fs_state_scheme, int) op" where
  "sys_rmdir pathname =
     sbind (named pathname) (\<lambda>(dir, name).
     if dir = 0 \<or> name = [] then rmdir_end 0 dir 0 (- 1)
     else sbind (permission dir P_WRITE) (\<lambda>ok.
     if \<not> ok then rmdir_end 0 dir 0 (- 1)
     else sbind (find_entry dir name) (\<lambda>(dir, r).
     case r of None \<Rightarrow> rmdir_end 0 dir 0 (- 1)
     | Some (bf, entry, _) \<Rightarrow>
       sbind (get_inode dir) (\<lambda>d.
       sbind (entry_nr bf entry) (\<lambda>nr.
       sbind (iget (i_dev d) (ucast nr)) (\<lambda>inode.
       sbind (put_entry_nr bf entry 0) (\<lambda>_.
       sbind (dirty_buf bf) (\<lambda>_.
       sbind running_task (\<lambda>task.
       sbind (desc_of inode) (\<lambda>x.
       sbind (desc_of dir) (\<lambda>y.
       if \<not> ISDIR (d_mode x) \<or> (d_mode y AND ISVTX \<noteq> 0 \<and> t_uid task \<noteq> ucast (d_uid x)) then rmdir_end inode dir bf (- 1)
       else sbind (is_empty inode) (\<lambda>e.
       sbind (get_inode inode) (\<lambda>i.
       if \<not> e \<or> i_count i > 1 then rmdir_end inode dir bf (- 1)
       else sbind (desc_of inode) (\<lambda>x.
       sbind (sensure (d_nlinks x = 2)) (\<lambda>_.
       sbind (inode_truncate inode) (\<lambda>_.
       sbind (ifree (i_dev i) (i_nr i)) (\<lambda>_.
       sbind (upd_desc dir (\<lambda>y. put_nlinks (d_nlinks y - 1) y)) (\<lambda>_.
       sbind (touch_dir dir) (\<lambda>_.
       rmdir_end inode dir bf 0)))))))))))))))))))"

text \<open>The clean-up of \<open>link\<close>, \<open>unlink\<close> and \<open>mknod\<close>.\<close>

definition link_end :: "u32 \<Rightarrow> u32 \<Rightarrow> u32 \<Rightarrow> int \<Rightarrow> (('w, 'a) fs_state_scheme, int) op" where
  "link_end buf inode dir ret =
     sbind (brelease buf) (\<lambda>_. sbind (iput inode) (\<lambda>_. sbind (iput dir) (\<lambda>_. sret ret)))"

definition sys_link :: "u8 list \<Rightarrow> u8 list \<Rightarrow> (('w, 'a) fs_state_scheme, int) op" where
  "sys_link oldname newname =
     sbind (namei oldname) (\<lambda>inode.
     if inode = 0 then link_end 0 inode 0 (- 1)
     else sbind (desc_of inode) (\<lambda>x.
     if ISDIR (d_mode x) then link_end 0 inode 0 (- 1)
     else sbind (named newname) (\<lambda>(dir, name).
     if dir = 0 \<or> name = [] then link_end 0 inode dir (- 1)
     else sbind (permission dir P_WRITE) (\<lambda>ok.
     if \<not> ok then link_end 0 inode dir (- 1)
     else sbind (find_entry dir name) (\<lambda>(dir, r).
     case r of Some (buf, _, _) \<Rightarrow> link_end buf inode dir (- 1)
     | None \<Rightarrow>
       sbind (add_entry dir name) (\<lambda>(buf, entry).
       sbind (get_inode inode) (\<lambda>i.
       sbind (put_entry_nr buf entry (ucast (i_nr i))) (\<lambda>_.
       sbind (dirty_buf buf) (\<lambda>_.
       sbind (upd_desc inode (\<lambda>x. put_nlinks (d_nlinks x + 1) x)) (\<lambda>_.
       sbind time_now (\<lambda>t.
       sbind (upd_inode inode (i_ctime_update (\<lambda>_. t))) (\<lambda>_.
       sbind (bwrite_inode inode) (\<lambda>_.
       link_end buf inode dir 0)))))))))))))"

definition sys_unlink :: "u8 list \<Rightarrow> (('w, 'a) fs_state_scheme, int) op" where
  "sys_unlink filename =
     sbind (named filename) (\<lambda>(dir, name).
     if dir = 0 \<or> name = [] then link_end 0 0 dir (- 1)
     else sbind (find_entry dir name) (\<lambda>(dir, r).
     case r of None \<Rightarrow> link_end 0 0 dir (- 1)
     | Some (buf, entry, _) \<Rightarrow>
       sbind (get_inode dir) (\<lambda>d.
       sbind (entry_nr buf entry) (\<lambda>nr.
       sbind (iget (i_dev d) (ucast nr)) (\<lambda>inode.
       sbind (desc_of inode) (\<lambda>x.
       if ISDIR (d_mode x) then link_end buf inode dir (- 1)
       else sbind running_task (\<lambda>task.
       if d_mode x AND ISVTX \<noteq> 0 \<and> t_uid task \<noteq> ucast (d_uid x) then link_end buf inode dir (- 1)
       else sbind (put_entry_nr buf entry 0) (\<lambda>_.
       sbind (dirty_buf buf) (\<lambda>_.
       sbind (upd_desc inode (\<lambda>x. put_nlinks (d_nlinks x - 1) x)) (\<lambda>_.
       sbind (bwrite_inode inode) (\<lambda>_.
       sbind (desc_of inode) (\<lambda>x.
       sbind (get_inode inode) (\<lambda>i.
       sbind (if d_nlinks x = 0 then sbind (inode_truncate inode) (\<lambda>_. ifree (i_dev i) (i_nr i)) else sret ()) (\<lambda>_.
       sbind (touch_dir dir) (\<lambda>_.
       link_end buf inode dir 0)))))))))))))))"

text \<open>The permission that \<open>ACC_MODE(flag && O_ACCMODE)\<close> asks for.\<close>

definition acc_mode :: "int \<Rightarrow> u16" where
  "acc_mode flag = (let x = (if flag \<noteq> 0 then 1 else 0) :: nat in [4, 2, 6, 0xffff] ! x)"

definition open_rollback :: "u32 \<Rightarrow> u32 \<Rightarrow> u32 \<Rightarrow> (('w, 'a) fs_state_scheme, u32) op" where
  "open_rollback buf dir inode =
     sbind (brelease buf) (\<lambda>_. sbind (iput dir) (\<lambda>_. sbind (iput inode) (\<lambda>_. sret 0)))"

definition open_makeup :: "u32 \<Rightarrow> u32 \<Rightarrow> u32 \<Rightarrow> int \<Rightarrow> (('w, 'a) fs_state_scheme, u32) op" where
  "open_makeup buf dir inode flag =
     sbind (permission inode (acc_mode flag)) (\<lambda>ok.
     if \<not> ok then open_rollback buf dir inode
     else sbind (desc_of inode) (\<lambda>x.
     if ISDIR (d_mode x) \<and> flag AND O_ACCMODE \<noteq> O_RDONLY then open_rollback buf dir inode
     else sbind time_now (\<lambda>t.
     sbind (upd_inode inode (i_atime_update (\<lambda>_. t))) (\<lambda>_.
     sbind (if flag AND O_TRUNC \<noteq> 0 then inode_truncate inode else sret ()) (\<lambda>_.
     sbind (brelease buf) (\<lambda>_.
     sbind (iput dir) (\<lambda>_. sret inode)))))))"

definition inode_open :: "u8 list \<Rightarrow> int \<Rightarrow> int \<Rightarrow> (('w, 'a) fs_state_scheme, u32) op" where
  "inode_open pathname flag mode =
     sbind (named pathname) (\<lambda>(dir, name).
     if dir = 0 then open_rollback 0 0 0
     else if name = [] then sret dir
     else let flag = (if flag AND O_TRUNC \<noteq> 0 \<and> flag AND O_ACCMODE = O_RDONLY then flag OR O_RDWR else flag)
     in sbind (find_entry dir name) (\<lambda>(dir, r).
     case r of Some (buf, entry, _) \<Rightarrow>
       sbind (get_inode dir) (\<lambda>d.
       sbind (entry_nr buf entry) (\<lambda>nr.
       sbind (iget (i_dev d) (ucast nr)) (\<lambda>inode.
       open_makeup buf dir inode flag)))
     | None \<Rightarrow>
       sbind (permission dir P_WRITE) (\<lambda>ok.
       if flag AND O_CREAT = 0 \<or> \<not> ok then open_rollback 0 dir 0
       else sbind (add_entry dir name) (\<lambda>(buf, entry).
       sbind (dirty_buf buf) (\<lambda>_.
       sbind (get_inode dir) (\<lambda>d.
       sbind (ialloc (i_dev d)) (\<lambda>nr.
       sbind (put_entry_nr buf entry (ucast nr)) (\<lambda>_.
       sbind (entry_nr buf entry) (\<lambda>nr.
       sbind (new_inode (i_dev d) (ucast nr)) (\<lambda>inode.
       sbind running_task (\<lambda>task.
       sbind (upd_desc inode (put_mode ((mode AND (0x1ff AND NOT (uint (t_umask task)))) OR IFREG))) (\<lambda>_.
       sbind (bwrite_inode inode) (\<lambda>_.
       open_makeup buf dir inode flag)))))))))))))"

definition sys_mknod :: "u8 list \<Rightarrow> int \<Rightarrow> int \<Rightarrow> (('w, 'a) fs_state_scheme, int) op" where
  "sys_mknod filename mode dev =
     sbind (named filename) (\<lambda>(dir, name).
     if dir = 0 \<or> name = [] then link_end 0 0 dir (- 1)
     else sbind (permission dir P_WRITE) (\<lambda>ok.
     if \<not> ok then link_end 0 0 dir (- 1)
     else sbind (find_entry dir name) (\<lambda>(dir, r).
     case r of Some (buf, _, _) \<Rightarrow> link_end buf 0 dir (- 1)
     | None \<Rightarrow>
       sbind (add_entry dir name) (\<lambda>(buf, entry).
       sbind (dirty_buf buf) (\<lambda>_.
       sbind (get_inode dir) (\<lambda>d.
       sbind (ialloc (i_dev d)) (\<lambda>nr.
       sbind (put_entry_nr buf entry (ucast nr)) (\<lambda>_.
       sbind (entry_nr buf entry) (\<lambda>nr.
       sbind (new_inode (i_dev d) (ucast nr)) (\<lambda>inode.
       sbind (upd_desc inode (\<lambda>x. let x = put_mode mode x
          in if ISBLK mode \<or> ISCHR mode then put_zone 0 (word_of_int dev) x else x)) (\<lambda>_.
       sbind (bwrite_inode inode) (\<lambda>_.
       link_end buf inode dir 0))))))))))))"

end
