(* ===== verification/Super.thy ===== *)
theory Super
  imports Dirs Stdlib
begin

text \<open>
  Super blocks: \<open>src/src/fs/super.c\<close>. A file system is made, read, mounted and unmounted.
\<close>

unbundle bit_operations_syntax

definition get_free_super :: "(('w, 'a) fs_state_scheme, u32) op" where
  "get_free_super = sbind (sget (\<lambda>s. super_from (supers s) (- 1) 1)) (\<lambda>p. if p = 0 then sfail Panic else sret p)"

text \<open>\<open>brelease\<close> of the first \<open>n\<close> entries of an array of 8 buffers.\<close>

definition release_maps :: "u32 list \<Rightarrow> u16 \<Rightarrow> (('w, 'a) fs_state_scheme, unit) op" where
  "release_maps maps n = sforeach [0..<unat n] (\<lambda>i. sbind (slift (rd maps i)) brelease)"

definition put_super :: "u32 \<Rightarrow> (('w, 'a) fs_state_scheme, unit) op" where
  "put_super sb =
     (if sb = 0 then sret ()
      else sbind (get_sb sb) (\<lambda>t.
      sbind (sensure (sb_count t > 0)) (\<lambda>_.
      sbind (upd_sb sb (sb_count_update (\<lambda>n. n - 1))) (\<lambda>_.
      if sb_count t - 1 \<noteq> 0 then sret ()
      else sbind (upd_sb sb (sb_dev_update (\<lambda>_. - 1))) (\<lambda>_.
           sbind (iput (sb_imount t)) (\<lambda>_.
           sbind (iput (sb_iroot t)) (\<lambda>_.
           sbind (sb_desc sb) (\<lambda>d.
           sbind (release_maps (sb_imaps t) (s_imap_blocks d)) (\<lambda>_.
           sbind (release_maps (sb_zmaps t) (s_zmap_blocks d)) (\<lambda>_.
           brelease (sb_buf t)))))))))))"

text \<open>The bitmap blocks are read one by one into the array that \<open>upd\<close> changes.\<close>

definition read_maps :: "u32 \<Rightarrow> int \<Rightarrow> u32 \<Rightarrow> u16 \<Rightarrow> ((u32 list \<Rightarrow> u32 list) \<Rightarrow> super \<Rightarrow> super) \<Rightarrow>
    (('w, 'a) fs_state_scheme, unit) op" where
  "read_maps sb dev idx n upd = sforeach [0..<unat n] (\<lambda>i.
     sbind (sensure (i < 8)) (\<lambda>_.
     sbind (bread dev (idx + of_nat i)) (\<lambda>buf.
     upd_sb sb (upd (\<lambda>maps. maps[i := buf])))))"

definition read_super :: "int \<Rightarrow> (('w, 'a) fs_state_scheme, u32) op" where
  "read_super dev =
     sbind (get_super dev) (\<lambda>sb.
     if sb \<noteq> 0 then sbind (upd_sb sb (sb_count_update (\<lambda>n. n + 1))) (\<lambda>_. sret sb)
     else sbind get_free_super (\<lambda>sb.
          sbind (bread dev 1) (\<lambda>buf.
          sbind (upd_sb sb (\<lambda>t. t\<lparr>sb_buf := buf, sb_dev := dev, sb_count := 1\<rparr>)) (\<lambda>_.
          sbind (sb_desc sb) (\<lambda>d.
          sbind (sensure (s_magic d = MINIX1_MAGIC)) (\<lambda>_.
          sbind (upd_sb sb (\<lambda>t. t\<lparr>sb_imaps := replicate IMAP_NR 0, sb_zmaps := replicate ZMAP_NR 0\<rparr>)) (\<lambda>_.
          sbind (read_maps sb dev 2 (s_imap_blocks d) sb_imaps_update) (\<lambda>_.
          sbind (read_maps sb dev (2 + ucast (s_imap_blocks d)) (s_zmap_blocks d) sb_zmaps_update) (\<lambda>_.
          sret sb)))))))))"

definition mount_root :: "(('w, 'a) fs_state_scheme, unit) op" where
  "mount_root =
     sbind (device_find DEV_IDE_PART 0) (\<lambda>d.
     case d of None \<Rightarrow> sfail AssertFail
     | Some i \<Rightarrow>
       sbind (\<lambda>s. rbind (rd (devices s) i) (\<lambda>d. Inr (d_dev d, s))) (\<lambda>dev.
       sbind (read_super dev) (\<lambda>root.
       sbind (smodify (root_sb_update (\<lambda>_. root))) (\<lambda>_.
       sbind (iget dev 1) (\<lambda>iroot.
       sbind (upd_sb root (sb_iroot_update (\<lambda>_. iroot))) (\<lambda>_.
       sbind (iget dev 1) (\<lambda>imount.
       upd_sb root (sb_imount_update (\<lambda>_. imount)))))))))"

definition super_init :: "(('w, 'a) fs_state_scheme, unit) op" where
  "super_init =
     sbind (smodify (\<lambda>s. s\<lparr>supers := map (\<lambda>t. t\<lparr>sb_dev := - 1, sb_buf := 0, sb_iroot := 0, sb_imount := 0,
       sb_inodes := []\<rparr>) (supers s)\<rparr>)) (\<lambda>_. mount_root)"

definition mount_rollback :: "u32 \<Rightarrow> u32 \<Rightarrow> u32 \<Rightarrow> (('w, 'a) fs_state_scheme, int) op" where
  "mount_rollback sb devinode dirinode =
     sbind (put_super sb) (\<lambda>_. sbind (iput devinode) (\<lambda>_. sbind (iput dirinode) (\<lambda>_. sret (- 1))))"

definition sys_mount :: "u8 list \<Rightarrow> u8 list \<Rightarrow> int \<Rightarrow> (('w, 'a) fs_state_scheme, int) op" where
  "sys_mount devname dirname flags =
     sbind (namei devname) (\<lambda>devinode.
     if devinode = 0 then mount_rollback 0 0 0
     else sbind (desc_of devinode) (\<lambda>x.
     if \<not> ISBLK (d_mode x) then mount_rollback 0 devinode 0
     else let dev = uint (d_zone x 0)
     in sbind (namei dirname) (\<lambda>dirinode.
     if dirinode = 0 then mount_rollback 0 devinode 0
     else sbind (desc_of dirinode) (\<lambda>y.
     if \<not> ISDIR (d_mode y) then mount_rollback 0 devinode dirinode
     else sbind (get_inode dirinode) (\<lambda>i.
     if i_count i \<noteq> 1 \<or> i_mount i \<noteq> 0 then mount_rollback 0 devinode dirinode
     else sbind (read_super dev) (\<lambda>sb.
     sbind (get_sb sb) (\<lambda>t.
     if sb_imount t \<noteq> 0 then mount_rollback sb devinode dirinode
     else sbind (iget dev 1) (\<lambda>iroot.
     sbind (upd_sb sb (\<lambda>t. t\<lparr>sb_iroot := iroot, sb_imount := dirinode\<rparr>)) (\<lambda>_.
     sbind (upd_inode dirinode (i_mount_update (\<lambda>_. dev))) (\<lambda>_.
     sbind (iput devinode) (\<lambda>_. sret 0)))))))))))"

definition umount_rollback :: "u32 \<Rightarrow> u32 \<Rightarrow> int \<Rightarrow> (('w, 'a) fs_state_scheme, int) op" where
  "umount_rollback sb inode ret = sbind (put_super sb) (\<lambda>_. sbind (iput inode) (\<lambda>_. sret ret))"

definition sys_umount :: "u8 list \<Rightarrow> (('w, 'a) fs_state_scheme, int) op" where
  "sys_umount target =
     sbind (namei target) (\<lambda>inode.
     if inode = 0 then umount_rollback 0 0 (- 1)
     else sbind (desc_of inode) (\<lambda>x.
     sbind (get_inode inode) (\<lambda>i.
     if \<not> ISBLK (d_mode x) \<and> i_nr i \<noteq> 1 then umount_rollback 0 inode (- 1)
     else sbind (sget root_sb) (\<lambda>root.
     sbind (get_sb root) (\<lambda>r.
     if inode = sb_imount r then umount_rollback 0 inode (- 1)
     else sbind (get_super (if ISBLK (d_mode x) then uint (d_zone x 0) else i_dev i)) (\<lambda>sb.
     sbind (get_sb sb) (\<lambda>t.
     if sb_imount t = 0 then umount_rollback sb inode (- 1)
     else sbind (get_inode (sb_imount t)) (\<lambda>_.
     if length (sb_inodes t) > 1 then umount_rollback sb inode (- 1)
     else sbind (iput (sb_iroot t)) (\<lambda>_.
     sbind (upd_sb sb (sb_iroot_update (\<lambda>_. 0))) (\<lambda>_.
     sbind (upd_inode (sb_imount t) (i_mount_update (\<lambda>_. 0))) (\<lambda>_.
     sbind (iput (sb_imount t)) (\<lambda>_.
     sbind (upd_sb sb (sb_imount_update (\<lambda>_. 0))) (\<lambda>_.
     umount_rollback sb inode 0)))))))))))))"

text \<open>\<open>div_round_up\<close> of a number by a size that is not zero.\<close>

definition blocks_for :: "u32 \<Rightarrow> u32 \<Rightarrow> u32" where
  "blocks_for num sz = (case div_round_up num sz of Inl _ \<Rightarrow> 0 | Inr n \<Rightarrow> n)"

text \<open>The super block that \<open>devmkfs\<close> writes, over the old contents of its block.\<close>

definition super_desc :: "u32 \<Rightarrow> int \<Rightarrow> u8 list \<Rightarrow> u8 list" where
  "super_desc icount total_block xs =
     (let inode_blocks = blocks_for (icount * 32) 1024;
          imap_blocks = (ucast (blocks_for icount 8192) :: u16);
          zcount = total_block - uint imap_blocks - uint inode_blocks - 2;
          zmap_blocks = (ucast (blocks_for (word_of_int zcount) 8192) :: u16)
      in put (put (put (put (put (put (put (put xs
           0 (bytes16 (ucast icount))) 2 (bytes16 (word_of_int total_block)))
           4 (bytes16 imap_blocks)) 6 (bytes16 zmap_blocks))
           8 (bytes16 (2 + imap_blocks + zmap_blocks + ucast inode_blocks)))
           10 (bytes16 0)) 12 (bytes32 (BLOCK_SIZE * TOTAL_BLOCK))) 16 (bytes16 MINIX1_MAGIC))"

text \<open>The bitmap blocks are cleared.\<close>

definition clear_maps :: "u32 \<Rightarrow> int \<Rightarrow> u32 \<Rightarrow> u16 \<Rightarrow> ((u32 list \<Rightarrow> u32 list) \<Rightarrow> super \<Rightarrow> super) \<Rightarrow>
    (('w, 'a) fs_state_scheme, unit) op" where
  "clear_maps sb dev idx n upd = sforeach [0..<unat n] (\<lambda>i.
     sbind (bread dev (idx + of_nat i)) (\<lambda>buf.
     sbind (if i < 8 then sret () else sfail Fault) (\<lambda>_.
     sbind (upd_sb sb (upd (\<lambda>maps. maps[i := buf]))) (\<lambda>_.
     upd_buf buf (\<lambda>b. b\<lparr>b_data := replicate 1024 0 @ drop 1024 (b_data b), b_dirty := True\<rparr>)))))"

text \<open>The tail of a bitmap block is marked as used from bit \<open>count\<close> on.\<close>

definition tail_byte :: "nat \<Rightarrow> u8" where
  "tail_byte remain = foldl (\<lambda>d i. d OR drop_bit i 0x80) 0 [0..<remain]"

definition mark_tail :: "int \<Rightarrow> u8 list \<Rightarrow> u8 list" where
  "mark_tail count xs =
     (let offset = nat (count smod 8192); begin = offset div 8
      in put (put xs (begin + 1) (replicate (1024 - begin - 1) 0xff)) begin [tail_byte (8 - offset mod 8)])"

definition devmkfs :: "int \<Rightarrow> u32 \<Rightarrow> (('w, 'a) fs_state_scheme, int) op" where
  "devmkfs dev icount =
     sbind (device_ioctl dev DEV_CMD_SECTOR_COUNT 0) (\<lambda>sectors.
     let total_block = sectors sdiv 2
     in sbind (sensure (total_block \<noteq> 0)) (\<lambda>_.
     sbind (sensure (icount < word_of_int total_block)) (\<lambda>_.
     let icount = (if icount = 0 then word_of_int (total_block sdiv 3) else icount)
     in sbind get_free_super (\<lambda>sb.
     sbind (upd_sb sb (\<lambda>t. t\<lparr>sb_dev := dev, sb_count := 1\<rparr>)) (\<lambda>_.
     sbind (bread dev 1) (\<lambda>buf.
     sbind (upd_sb sb (sb_buf_update (\<lambda>_. buf))) (\<lambda>_.
     sbind (upd_buf buf (\<lambda>b. b\<lparr>b_dirty := True, b_data := super_desc icount total_block (b_data b)\<rparr>)) (\<lambda>_.
     sbind (sb_desc sb) (\<lambda>d.
     let imaps = s_imap_blocks d; zmaps = s_zmap_blocks d; inode_blocks = blocks_for (icount * 32) 1024;
         zcount = total_block - uint imaps - uint inode_blocks - 2
     in sbind (upd_sb sb (\<lambda>t. t\<lparr>sb_imaps := replicate IMAP_NR 0, sb_zmaps := replicate ZMAP_NR 0\<rparr>)) (\<lambda>_.
     sbind (clear_maps sb dev 2 imaps sb_imaps_update) (\<lambda>_.
     sbind (clear_maps sb dev (2 + ucast imaps) zmaps sb_zmaps_update) (\<lambda>_.
     sbind (balloc dev) (\<lambda>_.
     sbind (ialloc dev) (\<lambda>_.
     sbind (ialloc dev) (\<lambda>_.
     sbind (get_sb sb) (\<lambda>t.
     sbind (if imaps = 0 \<or> zmaps = 0 then sfail Fault else sret ()) (\<lambda>_.
     sbind (slift (rd (sb_imaps t) (unat imaps - 1))) (\<lambda>imap.
     sbind (slift (rd (sb_zmaps t) (unat zmaps - 1))) (\<lambda>zmap.
     sbind (upd_buf imap (\<lambda>b. b\<lparr>b_dirty := True, b_data := mark_tail (sint icount + 1) (b_data b)\<rparr>)) (\<lambda>_.
     sbind (upd_buf zmap (\<lambda>b. b\<lparr>b_dirty := True, b_data := mark_tail zcount (b_data b)\<rparr>)) (\<lambda>_.
     sbind running_task (\<lambda>task.
     sbind (new_inode dev 1) (\<lambda>iroot.
     sbind (upd_sb sb (sb_iroot_update (\<lambda>_. iroot))) (\<lambda>_.
     sbind (upd_desc iroot (\<lambda>x. put_nlinks 2 (put_size 32
        (put_mode ((0x1ff AND NOT (uint (t_umask task))) OR IFDIR) x)))) (\<lambda>_.
     sbind (bmap iroot 0 True) (\<lambda>block.
     sbind (bread dev block) (\<lambda>buf.
     sbind (upd_buf buf (\<lambda>b. b\<lparr>b_dirty := True, b_data := replicate 1024 0 @ drop 1024 (b_data b)\<rparr>)) (\<lambda>_.
     sbind (get_inode iroot) (\<lambda>i.
     sbind (put_entry buf 0 [DOT] (ucast (i_nr i))) (\<lambda>_.
     sbind (put_entry buf 16 [DOT, DOT] (ucast (i_nr i))) (\<lambda>_.
     sbind (brelease buf) (\<lambda>_.
     sbind (put_super sb) (\<lambda>_. sret 0)))))))))))))))))))))))))))))))))"

definition sys_mkfs :: "u8 list \<Rightarrow> int \<Rightarrow> (('w, 'a) fs_state_scheme, int) op" where
  "sys_mkfs devname icount =
     sbind (namei devname) (\<lambda>inode.
     if inode = 0 then sbind (iput 0) (\<lambda>_. sret (- 1))
     else sbind (desc_of inode) (\<lambda>x.
     if \<not> ISBLK (d_mode x) then sbind (iput inode) (\<lambda>_. sret (- 1))
     else let dev = uint (d_zone x 0)
     in sbind (sensure (dev \<noteq> 0)) (\<lambda>_.
        sbind (devmkfs dev (word_of_int icount)) (\<lambda>ret.
        sbind (iput inode) (\<lambda>_. sret ret)))))"

end
