(* ===== verification/Files.thy ===== *)
theory Files
  imports Dirs
begin

text \<open>
  Open files, pipes and file status: \<open>src/src/fs/file.c\<close>, \<open>src/src/fs/pipe.c\<close>, \<open>src/src/fs/stat.c\<close> and the
  descriptor table of a task in \<open>src/src/kernel/tasks.c\<close>. The buffers of the callers are byte lists: a
  read returns the bytes that it stores. A reader or writer that has to wait is \<open>Blocked\<close>.
\<close>

unbundle bit_operations_syntax

subsection \<open>The descriptors of a task\<close>

primrec free_fd_from :: "u32 list \<Rightarrow> u32 \<Rightarrow> u32 option" where
  "free_fd_from [] i = None"
| "free_fd_from (f # fs) i = (if f = 0 then Some i else free_fd_from fs (i + 1))"

definition task_get_fd :: "(('w, 'a) fs_state_scheme, u32) op" where
  "task_get_fd = sbind running_task (\<lambda>task.
     case free_fd_from (drop 3 (take (unat TASK_FILE_NR) (t_files task))) 3 of None \<Rightarrow> sfail Panic | Some fd \<Rightarrow> sret fd)"

definition set_fd :: "u32 \<Rightarrow> u32 \<Rightarrow> (('w, 'a) fs_state_scheme, unit) op" where
  "set_fd fd file = sbind (sget current) (\<lambda>c.
     sbind (get_task c) (\<lambda>task.
     sbind (slift (wr (t_files task) (unat fd) file)) (\<lambda>fs. upd_task c (t_files_update (\<lambda>_. fs)))))"

definition task_put_fd :: "u32 \<Rightarrow> (('w, 'a) fs_state_scheme, unit) op" where
  "task_put_fd fd = sbind (sensure (fd < TASK_FILE_NR)) (\<lambda>_. set_fd fd 0)"

definition fd_file :: "u32 \<Rightarrow> (('w, 'a) fs_state_scheme, u32) op" where
  "fd_file fd = sbind running_task (\<lambda>task. slift (rd (t_files task) (unat fd)))"

subsection \<open>The table of the open files\<close>

primrec free_file_from :: "file_entry list \<Rightarrow> u32 \<Rightarrow> u32" where
  "free_file_from [] p = 0"
| "free_file_from (f # fs) p = (if fl_count f = 0 then p else free_file_from fs (p + 1))"

definition get_file :: "(('w, 'a) fs_state_scheme, u32) op" where
  "get_file = sbind (sget (\<lambda>s. free_file_from (drop 3 (files s)) 4)) (\<lambda>p.
     if p = 0 then sfail Panic else sbind (upd_fl p (fl_count_update (\<lambda>n. n + 1))) (\<lambda>_. sret p))"

definition put_file :: "u32 \<Rightarrow> (('w, 'a) fs_state_scheme, unit) op" where
  "put_file p =
     sbind (get_fl p) (\<lambda>f.
     sbind (sensure (fl_count f > 0)) (\<lambda>_.
     sbind (upd_fl p (fl_count_update (\<lambda>n. n - 1))) (\<lambda>_.
     if fl_count f - 1 = 0 then iput (fl_inode f) else sret ())))"

definition file_init :: "(('w, 'a) fs_state_scheme, unit) op" where
  "file_init = smodify (\<lambda>s. s\<lparr>files := take 3 (files s) @
     map (\<lambda>_. \<lparr>fl_inode = 0, fl_count = 0, fl_offset = 0, fl_flags = 0, fl_mode = 0\<rparr>) (drop 3 (files s))\<rparr>)"

definition sys_open :: "u8 list \<Rightarrow> int \<Rightarrow> int \<Rightarrow> (('w, 'a) fs_state_scheme, u32) op" where
  "sys_open filename flags mode =
     sbind (inode_open filename flags mode) (\<lambda>inode.
     if inode = 0 then sret EOF32
     else sbind task_get_fd (\<lambda>fd.
          sbind get_file (\<lambda>file.
          sbind (set_fd fd file) (\<lambda>_.
          sbind (desc_of inode) (\<lambda>x.
          sbind (upd_fl file (\<lambda>f. f\<lparr>fl_inode := inode, fl_flags := flags, fl_count := 1, fl_mode := d_mode x,
            fl_offset := if flags AND O_APPEND \<noteq> 0 then d_size x else 0\<rparr>)) (\<lambda>_.
          sret fd))))))"

definition sys_creat :: "u8 list \<Rightarrow> int \<Rightarrow> (('w, 'a) fs_state_scheme, u32) op" where
  "sys_creat filename mode = sys_open filename (O_CREAT OR O_TRUNC) mode"

definition sys_close :: "u32 \<Rightarrow> (('w, 'a) fs_state_scheme, unit) op" where
  "sys_close fd =
     sbind (sensure (fd < TASK_FILE_NR)) (\<lambda>_.
     sbind (fd_file fd) (\<lambda>file.
     if file = 0 then sret ()
     else sbind (get_fl file) (\<lambda>f.
          sbind (sensure (fl_inode f \<noteq> 0)) (\<lambda>_.
          sbind (put_file file) (\<lambda>_. task_put_fd fd)))))"

subsection \<open>Pipes\<close>

text \<open>One turn of the loop of \<open>pipe_read\<close>; \<open>None\<close> when the reader is put to sleep.\<close>

definition pipe_get :: "u32 \<Rightarrow> (('w, 'a) fs_state_scheme, u8 option) op" where
  "pipe_get ip =
     sbind (get_inode ip) (\<lambda>i.
     if fifo_empty (i_fifo i) then
       sbind (sensure (i_rxwaiter i = 0)) (\<lambda>_.
       sbind (sget current) (\<lambda>cur.
       sbind (upd_inode ip (i_rxwaiter_update (\<lambda>_. cur))) (\<lambda>_.
       sbind (task_block cur 0 TASK_BLOCKED) (\<lambda>_. sret None))))
     else
       sbind (slift (fifo_get (i_fifo i))) (\<lambda>(c, q).
       sbind (upd_inode ip (i_fifo_update (\<lambda>_. q))) (\<lambda>_.
       sbind (if i_txwaiter i \<noteq> 0 then
                sbind (task_unblock (i_txwaiter i)) (\<lambda>_. upd_inode ip (i_txwaiter_update (\<lambda>_. 0)))
              else sret ()) (\<lambda>_.
       sret (Some c)))))"

primrec pipe_read_n :: "u32 \<Rightarrow> nat \<Rightarrow> (('w, 'a) fs_state_scheme, u8 list) op" where
  "pipe_read_n ip 0 = sret []"
| "pipe_read_n ip (Suc n) =
     sbind (pipe_get ip) (\<lambda>r. case r of None \<Rightarrow> sfail Blocked
       | Some c \<Rightarrow> sbind (pipe_read_n ip n) (\<lambda>cs. sret (c # cs)))"

definition pipe_read :: "u32 \<Rightarrow> int \<Rightarrow> (('w, 'a) fs_state_scheme, int \<times> u8 list) op" where
  "pipe_read ip count = sbind (pipe_read_n ip (nat count)) (\<lambda>cs. sret (int (length cs), cs))"

text \<open>One turn of the loop of \<open>pipe_write\<close>; false when the writer is put to sleep.\<close>

definition pipe_put :: "u32 \<Rightarrow> u8 \<Rightarrow> (('w, 'a) fs_state_scheme, bool) op" where
  "pipe_put ip c =
     sbind (get_inode ip) (\<lambda>i.
     sbind (slift (fifo_full (i_fifo i))) (\<lambda>full.
     if full then
       sbind (sensure (i_txwaiter i = 0)) (\<lambda>_.
       sbind (sget current) (\<lambda>cur.
       sbind (upd_inode ip (i_txwaiter_update (\<lambda>_. cur))) (\<lambda>_.
       sbind (task_block cur 0 TASK_BLOCKED) (\<lambda>_. sret False))))
     else
       sbind (slift (fifo_put (i_fifo i) c)) (\<lambda>q.
       sbind (upd_inode ip (i_fifo_update (\<lambda>_. q))) (\<lambda>_.
       sbind (if i_rxwaiter i \<noteq> 0 then
                sbind (task_unblock (i_rxwaiter i)) (\<lambda>_. upd_inode ip (i_rxwaiter_update (\<lambda>_. 0)))
              else sret ()) (\<lambda>_.
       sret True)))))"

primrec pipe_write_list :: "u32 \<Rightarrow> u8 list \<Rightarrow> (('w, 'a) fs_state_scheme, unit) op" where
  "pipe_write_list ip [] = sret ()"
| "pipe_write_list ip (c # cs) =
     sbind (pipe_put ip c) (\<lambda>ok. if ok then pipe_write_list ip cs else sfail Blocked)"

definition pipe_write :: "u32 \<Rightarrow> u8 list \<Rightarrow> int \<Rightarrow> (('w, 'a) fs_state_scheme, int) op" where
  "pipe_write ip buf count =
     (if length buf < nat count then sfail Fault
      else sbind (pipe_write_list ip (take (nat count) buf)) (\<lambda>_. sret (int (nat count))))"

definition sys_pipe :: "u8 list \<Rightarrow> (('w, 'a) fs_state_scheme, u32 \<times> u32) op" where
  "sys_pipe page =
     sbind (get_pipe_inode page) (\<lambda>inode.
     sbind task_get_fd (\<lambda>fd0.
     sbind get_file (\<lambda>file0.
     sbind (set_fd fd0 file0) (\<lambda>_.
     sbind task_get_fd (\<lambda>fd1.
     sbind get_file (\<lambda>file1.
     sbind (set_fd fd1 file1) (\<lambda>_.
     sbind (upd_fl file0 (\<lambda>f. f\<lparr>fl_inode := inode, fl_flags := O_RDONLY\<rparr>)) (\<lambda>_.
     sbind (upd_fl file1 (\<lambda>f. f\<lparr>fl_inode := inode, fl_flags := O_WRONLY\<rparr>)) (\<lambda>_.
     sret (fd0, fd1))))))))))"

subsection \<open>Reading and writing\<close>

definition sys_read :: "u32 \<Rightarrow> int \<Rightarrow> (('w, 'a) fs_state_scheme, int \<times> u8 list) op" where
  "sys_read fd len =
     sbind (fd_file fd) (\<lambda>file.
     sbind (sensure (file \<noteq> 0)) (\<lambda>_.
     sbind (sensure (len > 0)) (\<lambda>_.
     sbind (get_fl file) (\<lambda>f.
     if fl_flags f AND O_ACCMODE = O_WRONLY then sret (- 1, [])
     else sbind (get_inode (fl_inode f)) (\<lambda>i.
     if i_pipe i then pipe_read (fl_inode f) len
     else sbind (desc_of (fl_inode f)) (\<lambda>x.
     if ISCHR (d_mode x) then
       sbind (sensure (d_zone x 0 \<noteq> 0)) (\<lambda>_. device_read (uint (d_zone x 0)) (word_of_int len) 0 0)
     else if ISBLK (d_mode x) then
       sbind (sensure (d_zone x 0 \<noteq> 0)) (\<lambda>_.
       sbind (device_get (uint (d_zone x 0))) (\<lambda>_.
       sbind (sensure (fl_offset f mod BLOCK_SIZE = 0)) (\<lambda>_.
       sbind (sensure (len mod 1024 = 0)) (\<lambda>_.
       device_read (uint (d_zone x 0)) (word_of_int (len div 1024)) (fl_offset f div BLOCK_SIZE) 0))))
     else sbind (inode_read (fl_inode f) (word_of_int len) (fl_offset f)) (\<lambda>(ret, bytes).
          sbind (if ret \<noteq> - 1 then upd_fl file (\<lambda>f. f\<lparr>fl_offset := fl_offset f + word_of_int ret\<rparr>) else sret ()) (\<lambda>_.
          sret (ret, bytes)))))))))"

definition sys_write :: "u32 \<Rightarrow> u8 list \<Rightarrow> int \<Rightarrow> (('w, 'a) fs_state_scheme, int) op" where
  "sys_write fd buf len =
     sbind (fd_file fd) (\<lambda>file.
     sbind (sensure (file \<noteq> 0)) (\<lambda>_.
     sbind (sensure (len > 0)) (\<lambda>_.
     sbind (get_fl file) (\<lambda>f.
     if fl_flags f AND O_ACCMODE = O_RDONLY then sret (- 1)
     else sbind (get_inode (fl_inode f)) (\<lambda>i.
     if i_pipe i then pipe_write (fl_inode f) buf len
     else sbind (desc_of (fl_inode f)) (\<lambda>x.
     if ISCHR (d_mode x) then
       sbind (sensure (d_zone x 0 \<noteq> 0)) (\<lambda>_. device_write (uint (d_zone x 0)) buf (word_of_int len) 0 0)
     else if ISBLK (d_mode x) then
       sbind (sensure (d_zone x 0 \<noteq> 0)) (\<lambda>_.
       sbind (device_get (uint (d_zone x 0))) (\<lambda>_.
       sbind (sensure (fl_offset f mod BLOCK_SIZE = 0)) (\<lambda>_.
       sbind (sensure (len mod 1024 = 0)) (\<lambda>_.
       device_write (uint (d_zone x 0)) buf (word_of_int (len div 1024)) (fl_offset f div BLOCK_SIZE) 0))))
     else sbind (inode_write (fl_inode f) buf (word_of_int len) (fl_offset f)) (\<lambda>ret.
          sbind (if ret \<noteq> - 1 then upd_fl file (\<lambda>f. f\<lparr>fl_offset := fl_offset f + word_of_int ret\<rparr>) else sret ()) (\<lambda>_.
          sret ret))))))))"

definition SEEK_SET :: int where "SEEK_SET = 1"
definition SEEK_CUR :: int where "SEEK_CUR = 2"
definition SEEK_END :: int where "SEEK_END = 3"

text \<open>The assertions on the offset compare an unsigned number with 0.\<close>

definition sys_lseek :: "u32 \<Rightarrow> u32 \<Rightarrow> int \<Rightarrow> (('w, 'a) fs_state_scheme, int) op" where
  "sys_lseek fd offset whence =
     sbind (sensure (fd < TASK_FILE_NR)) (\<lambda>_.
     sbind (fd_file fd) (\<lambda>file.
     sbind (sensure (file \<noteq> 0)) (\<lambda>_.
     sbind (get_fl file) (\<lambda>f.
     sbind (sensure (fl_inode f \<noteq> 0)) (\<lambda>_.
     sbind (if whence = SEEK_SET then sret offset
            else if whence = SEEK_CUR then sret (fl_offset f + offset)
            else if whence = SEEK_END then sbind (desc_of (fl_inode f)) (\<lambda>x. sret (d_size x + offset))
            else sfail Panic) (\<lambda>new.
     sbind (upd_fl file (fl_offset_update (\<lambda>_. new))) (\<lambda>_.
     sret (sint new))))))))"

definition sys_readdir :: "u32 \<Rightarrow> u32 \<Rightarrow> (('w, 'a) fs_state_scheme, int \<times> u8 list) op" where
  "sys_readdir fd count = sys_read fd 16"

text \<open>The first free descriptor from \<open>arg\<close> on; the loop reads the entry before it checks the bound.\<close>

primrec dup_from :: "u32 list \<Rightarrow> nat \<Rightarrow> u32 \<Rightarrow> u32 res" where
  "dup_from fs 0 arg = (if unat arg < length fs \<and> fs ! unat arg = 0 then Inr arg else Inl Fault)"
| "dup_from fs (Suc left) arg =
     rbind (rd fs (unat arg)) (\<lambda>f. if f \<noteq> 0 \<and> arg < TASK_FILE_NR then dup_from fs left (arg + 1) else Inr arg)"

definition dupfd :: "u32 \<Rightarrow> u32 \<Rightarrow> (('w, 'a) fs_state_scheme, u32) op" where
  "dupfd fd arg =
     sbind running_task (\<lambda>task.
     if fd \<ge> TASK_FILE_NR then sret EOF32
     else sbind (slift (rd (t_files task) (unat fd))) (\<lambda>file.
     if file = 0 then sret EOF32
     else sbind (slift (dup_from (t_files task) (unat TASK_FILE_NR) arg)) (\<lambda>arg.
     if arg \<ge> TASK_FILE_NR then sret EOF32
     else sbind (set_fd arg file) (\<lambda>_.
          sbind (upd_fl file (fl_count_update (\<lambda>n. n + 1))) (\<lambda>_. sret arg)))))"

definition sys_dup :: "u32 \<Rightarrow> (('w, 'a) fs_state_scheme, u32) op" where
  "sys_dup oldfd = dupfd oldfd 0"

definition sys_dup2 :: "u32 \<Rightarrow> u32 \<Rightarrow> (('w, 'a) fs_state_scheme, u32) op" where
  "sys_dup2 oldfd newfd = sbind (sys_close newfd) (\<lambda>_. dupfd oldfd newfd)"

subsection \<open>File status\<close>

record stat =
  st_dev :: int
  st_nr :: u32
  st_mode :: u16
  st_nlinks :: u8
  st_uid :: u16
  st_gid :: u8
  st_rdev :: int
  st_size :: u32
  st_atime :: u32
  st_mtime :: u32
  st_ctime :: u32

definition copy_stat :: "u32 \<Rightarrow> (('w, 'a) fs_state_scheme, stat) op" where
  "copy_stat ip =
     sbind (get_inode ip) (\<lambda>i.
     sbind (desc_of ip) (\<lambda>x.
     sret \<lparr>st_dev = i_dev i, st_nr = i_nr i, st_mode = get16 x 0, st_nlinks = d_nlinks x, st_uid = d_uid x,
       st_gid = d_gid x, st_rdev = uint (d_zone x 0), st_size = d_size x, st_atime = i_atime i,
       st_mtime = d_mtime x, st_ctime = i_ctime i\<rparr>))"

definition sys_stat :: "u8 list \<Rightarrow> (('w, 'a) fs_state_scheme, stat option) op" where
  "sys_stat filename =
     sbind (namei filename) (\<lambda>ip.
     if ip = 0 then sret None
     else sbind (copy_stat ip) (\<lambda>st. sbind (iput ip) (\<lambda>_. sret (Some st))))"

definition sys_fstat :: "u32 \<Rightarrow> (('w, 'a) fs_state_scheme, stat option) op" where
  "sys_fstat fd =
     (if fd > TASK_FILE_NR then sret None
      else sbind (fd_file fd) (\<lambda>file.
           if file = 0 then sret None
           else sbind (get_fl file) (\<lambda>f.
                sbind (sensure (fl_inode f \<noteq> 0)) (\<lambda>_.
                sbind (copy_stat (fl_inode f)) (\<lambda>st. sret (Some st))))))"

end
