(* ===== verification/Cwd.thy ===== *)
theory Cwd
  imports Dirs
begin

text \<open>
  The current directory: \<open>abspath\<close>, \<open>sys_getcwd\<close>, \<open>sys_chdir\<close> and \<open>sys_chroot\<close> of
  \<open>src/src/fs/namei.c\<close>. The name of the current directory and the argument of \<open>chdir\<close> are strings in
  the kernel's memory, which \<open>abspath\<close> changes in place.
\<close>

partial_function (option) text_at :: "mem \<Rightarrow> u32 \<Rightarrow> u8 list option" where
  "text_at m p = (if m p = 0 then Some [] else Option.bind (text_at m (p + 1)) (\<lambda>cs. Some (m p # cs)))"

text \<open>One component up: \<open>pos\<close> stands after the last separator of the text at \<open>pwd\<close>.\<close>

definition go_up :: "mem \<Rightarrow> u32 \<Rightarrow> u32 \<Rightarrow> (mem \<times> u32) option" where
  "go_up m pwd pos =
     (if pos - 1 \<noteq> pwd then
        let m = m(pos - 1 := 0)
        in Option.bind (strrsep m pwd) (\<lambda>r. let pos = r + 1 in Some (m(pos := 0), pos))
      else Some (m, pos))"

partial_function (option) abs_loop :: "mem \<Rightarrow> u32 \<Rightarrow> u32 \<Rightarrow> u32 \<Rightarrow> (mem \<times> u32 \<times> u32) option" where
  "abs_loop m pwd pos pathname =
     (if m pathname = 0 then Some (m, pos, pathname)
      else Option.bind (strsep m pathname) (\<lambda>ptr.
        if ptr = 0 then Some (m, pos, pathname)
        else let len = (ptr - pathname) + 1; m = m(ptr := SLASH)
             in if bytes_at m pathname [DOT, SLASH] then abs_loop m pwd pos (pathname + len)
                else if bytes_at m pathname [DOT, DOT, SLASH] then
                  Option.bind (go_up m pwd pos) (\<lambda>(m, pos). abs_loop m pwd pos (pathname + len))
                else abs_loop (strncpy m pos pathname (len + 1)) pwd (pos + len) (pathname + len)))"

definition abspath :: "mem \<Rightarrow> u32 \<Rightarrow> u32 \<Rightarrow> mem option" where
  "abspath m pwd pathname =
     Option.bind (if is_separator (m pathname) then Some (pwd + 1, pathname + 1)
                  else Option.bind (strrsep m pwd) (\<lambda>r. Some (r + 1, pathname))) (\<lambda>(pos, pathname).
     Option.bind (abs_loop (m(pos := 0)) pwd pos pathname) (\<lambda>(m, pos, pathname).
     if m pathname = 0 then Some m
     else if cstr m pathname [DOT] then Some m
     else if \<not> cstr m pathname [DOT, DOT] then
       Option.bind (strcpy m pos pathname) (\<lambda>m.
       Option.bind (strlen m pathname) (\<lambda>n.
       let pos = pos + n in Some (m(pos := SLASH, pos + 1 := 0))))
     else Option.bind (go_up m pwd pos) (\<lambda>(m, _). Some m)))"

definition upd_cur :: "(task \<Rightarrow> task) \<Rightarrow> (('w, 'a) fs_state_scheme, unit) op" where
  "upd_cur f = sbind (sget current) (\<lambda>c. upd_task c f)"

definition sys_getcwd :: "u32 \<Rightarrow> u32 \<Rightarrow> (('w, 'a) fs_state_scheme, u32) op" where
  "sys_getcwd buf sz =
     sbind running_task (\<lambda>task.
     sbind (smodify (\<lambda>s. s\<lparr>kmem := strncpy (kmem s) buf (t_pwd task) sz\<rparr>)) (\<lambda>_. sret buf))"

definition path_arg :: "u32 \<Rightarrow> (('w, 'a) fs_state_scheme, u8 list) op" where
  "path_arg p = (\<lambda>s. case text_at (kmem s) p of None \<Rightarrow> Inl Diverge | Some cs \<Rightarrow> Inr (cs, s))"

definition sys_chdir :: "u32 \<Rightarrow> (('w, 'a) fs_state_scheme, int) op" where
  "sys_chdir pathname =
     sbind running_task (\<lambda>task.
     sbind (path_arg pathname) (\<lambda>path.
     sbind (namei path) (\<lambda>inode.
     if inode = 0 then sbind (iput 0) (\<lambda>_. sret (- 1))
     else sbind (desc_of inode) (\<lambda>x.
     if \<not> ISDIR (d_mode x) \<or> inode = t_ipwd task then sbind (iput inode) (\<lambda>_. sret (- 1))
     else sbind (\<lambda>s. case abspath (kmem s) (t_pwd task) pathname of None \<Rightarrow> Inl Diverge
                   | Some m \<Rightarrow> Inr ((), s\<lparr>kmem := m\<rparr>)) (\<lambda>_.
          sbind (iput (t_ipwd task)) (\<lambda>_.
          sbind (upd_cur (t_ipwd_update (\<lambda>_. inode))) (\<lambda>_. sret 0)))))))"

definition sys_chroot :: "u32 \<Rightarrow> (('w, 'a) fs_state_scheme, int) op" where
  "sys_chroot pathname =
     sbind running_task (\<lambda>task.
     sbind (path_arg pathname) (\<lambda>path.
     sbind (namei path) (\<lambda>inode.
     if inode = 0 then sbind (iput 0) (\<lambda>_. sret (- 1))
     else sbind (desc_of inode) (\<lambda>x.
     if \<not> ISDIR (d_mode x) \<or> inode = t_iroot task then sbind (iput inode) (\<lambda>_. sret (- 1))
     else sbind (iput (t_iroot task)) (\<lambda>_.
          sbind (upd_cur (t_iroot_update (\<lambda>_. inode))) (\<lambda>_. sret 0))))))"

end
