(* ===== verification/Block_Store.thy ===== *)
theory Block_Store
  imports Ramdisk Buffer
begin

text \<open>
  The contract between the buffer cache and a disk driver: the driver stores blocks of 1024 bytes.
  From it follows what \<open>device_request\<close> does for the cache. The memory disks of
  \<open>src/src/kernel/ramdisk.c\<close> satisfy the contract.
\<close>

locale block_store =
  fixes rdf :: "'w read_fn"
    and wrf :: "'w write_fn"
    and content :: "'w \<Rightarrow> u32 \<Rightarrow> u32 \<Rightarrow> u8 list"
    and blocks :: "u32 \<Rightarrow> u32 set"
    and ok :: "'w \<Rightarrow> bool"
  assumes read_block: "ok w \<Longrightarrow> b \<in> blocks d \<Longrightarrow>
      \<exists>n w'. rdf d BLOCK_SECS (b * BLOCK_SECS) 0 w = Inr ((n, content w d b), w') \<and> ok w' \<and> content w' = content w"
    and write_block: "ok w \<Longrightarrow> b \<in> blocks d \<Longrightarrow> length xs = 1024 \<Longrightarrow>
      \<exists>n w'. wrf d xs BLOCK_SECS (b * BLOCK_SECS) 0 w = Inr (n, w') \<and> ok w' \<and>
        content w' = (content w)(d := (content w d)(b := xs))"
    and content_length: "ok w \<Longrightarrow> b \<in> blocks d \<Longrightarrow> length (content w d b) = 1024"

text \<open>An idle disk of the device table that the driver serves.\<close>

definition disk_dev :: "'w read_fn \<Rightarrow> 'w write_fn \<Rightarrow> ('w, 'a) dev_state_scheme \<Rightarrow> int \<Rightarrow> bool" where
  "disk_dev rdf wrf s dev \<longleftrightarrow> 0 \<le> dev \<and> dev < int DEVICE_NR \<and> nat dev < length (devices s) \<and>
     (let d = devices s ! nat dev
      in d_type d = DEV_BLOCK \<and> d_dev d = dev \<and> d_parent d = 0 \<and> d_requests d = [] \<and>
         d_read d = Some rdf \<and> d_write d = Some wrf \<and>
         (\<exists>io. d_ioctl d = Some io \<and> (\<forall>w. io (d_ptr d) DEV_CMD_SECTOR_START 0 w = Inr (0, w))))"

definition disk_ptr :: "('w, 'a) dev_state_scheme \<Rightarrow> int \<Rightarrow> u32" where
  "disk_ptr s dev = d_ptr (devices s ! nat dev)"

text \<open>A request that is served at once leaves only the direction of the elevator changed.\<close>

definition turn :: "int \<Rightarrow> ('w, 'a) dev_state_scheme \<Rightarrow> ('w, 'a) dev_state_scheme" where
  "turn dev s = s\<lparr>devices := (devices s)[nat dev := (devices s ! nat dev)\<lparr>d_down := \<not> d_down (devices s ! nat dev)\<rparr>]\<rparr>"

lemma disk_dev_turn [simp]: "disk_dev rdf wrf (turn dev s) dev' = disk_dev rdf wrf s dev'"
  by (cases "nat dev < length (devices s)"; cases "nat dev = nat dev'")
     (auto simp: disk_dev_def turn_def Let_def nth_list_update)

lemma disk_ptr_turn [simp]: "disk_ptr (turn dev s) dev' = disk_ptr s dev'"
  by (cases "nat dev < length (devices s)"; cases "nat dev = nat dev'")
     (auto simp: disk_ptr_def turn_def nth_list_update list_update_beyond)

lemma device_get_disk:
  "disk_dev rdf wrf s dev \<Longrightarrow> device_get dev s = Inr (devices s ! nat dev, s)"
  by (simp add: device_get_def disk_dev_def Let_def DEV_BLOCK_def DEV_NULL_def)

lemma set_requests: "d_requests_update f d = d\<lparr>d_requests := f (d_requests d)\<rparr>"
  by (cases d) simp

lemma device_submit_disk:
  assumes "disk_dev rdf wrf s dev"
  shows "device_submit dev count idx flags type s =
    (let req = \<lparr>r_addr = request_addr s, r_dev = dev, r_type = type, r_idx = idx, r_count = count, r_flags = flags, r_task = 0\<rparr>
     in Inr ((nat dev, req, False),
             s\<lparr>devices := (devices s)[nat dev := (devices s ! nat dev)\<lparr>d_requests := [req]\<rparr>]\<rparr>))"
proof -
  let ?d = "devices s ! nat dev"
  from assms obtain io where io: "d_ioctl ?d = Some io" "\<And>w. io (d_ptr ?d) DEV_CMD_SECTOR_START 0 w = Inr (0, w)"
    and d: "d_type ?d = DEV_BLOCK" "d_dev ?d = dev" "d_parent ?d = 0" "d_requests ?d = []" "nat dev < length (devices s)"
    by (auto simp: disk_dev_def Let_def)
  have "device_ioctl dev DEV_CMD_SECTOR_START 0 s = Inr (0, s)"
    using io by (simp add: device_ioctl_def device_get_disk [OF assms] on_world_def)
  then show ?thesis
    using d by (simp add: device_submit_def device_get_disk [OF assms] upd_device_def Let_def set_requests [of "sorted_ins _ _"])
qed

text \<open>The second half of a request that is alone in the queue of its disk.\<close>

lemma request_nextreq_single:
  assumes "i < length (devices s)" "d_requests (devices s ! i) = [req]" "r_addr req = a"
  shows "request_nextreq i a s = Inr (None,
     s\<lparr>devices := (devices s)[i := (devices s ! i)\<lparr>d_down := \<not> d_down (devices s ! i)\<rparr>]\<rparr>)"
  using assms by (auto simp: request_nextreq_def elevator_def upd_device_def Let_def)

lemma device_finish_single:
  assumes "i < length (devices s)" "d_requests (devices s ! i) = [req]"
    and "do_request req buf s = Inr (out, s\<lparr>world := w'\<rparr>)"
  shows "device_finish i req buf s = Inr (out, s\<lparr>world := w', devices := (devices s)[i := (devices s ! i)
     \<lparr>d_down := \<not> d_down (devices s ! i), d_requests := []\<rparr>]\<rparr>)"
  using assms
  by (simp add: device_finish_def request_nextreq_single [where req = req] upd_device_def
      set_requests [of "filter _"] nth_list_update)

lemma device_request_disk:
  assumes d: "disk_dev rdf wrf s dev"
    and req: "req = \<lparr>r_addr = request_addr s, r_dev = dev, r_type = type, r_idx = idx, r_count = count, r_flags = flags, r_task = 0\<rparr>"
    and s1: "s1 = s\<lparr>devices := (devices s)[nat dev := (devices s ! nat dev)\<lparr>d_requests := [req]\<rparr>]\<rparr>"
    and run: "do_request req buf s1 = Inr (out, s1\<lparr>world := w'\<rparr>)"
  shows "device_request dev buf count idx flags type s = Inr (out, turn dev (s\<lparr>world := w'\<rparr>))"
proof -
  have i: "nat dev < length (devices s)" and dd: "d_requests (devices s ! nat dev) = []"
    using d by (auto simp: disk_dev_def Let_def)
  have "nat dev < length (devices s1)" "d_requests (devices s1 ! nat dev) = [req]"
    using i by (simp_all add: s1)
  from device_finish_single [OF this run] have "device_finish (nat dev) req buf s1 = Inr (out,
      s1\<lparr>world := w', devices := (devices s1)[nat dev := (devices s1 ! nat dev)
        \<lparr>d_down := \<not> d_down (devices s1 ! nat dev), d_requests := []\<rparr>]\<rparr>)" .
  moreover have "(devices s ! nat dev)\<lparr>d_requests := [req], d_down := x, d_requests := []\<rparr> =
      (devices s ! nat dev)\<lparr>d_down := x\<rparr>" for x
    using dd by (cases "devices s ! nat dev") simp
  ultimately show ?thesis
    using i by (simp add: device_request_def device_submit_disk [OF d] Let_def req [symmetric] s1 [symmetric])
      (simp add: s1 turn_def)
qed

lemma device_get_queued:
  assumes "disk_dev rdf wrf s dev"
  shows "device_get dev (s\<lparr>devices := (devices s)[nat dev := (devices s ! nat dev)\<lparr>d_requests := q\<rparr>]\<rparr>) =
    Inr ((devices s ! nat dev)\<lparr>d_requests := q\<rparr>,
         s\<lparr>devices := (devices s)[nat dev := (devices s ! nat dev)\<lparr>d_requests := q\<rparr>]\<rparr>)"
  using assms by (simp add: device_get_def disk_dev_def Let_def DEV_BLOCK_def DEV_NULL_def)

lemma disk_dev_world [simp]:
  "disk_dev rdf wrf (s\<lparr>world := w\<rparr>) dev = disk_dev rdf wrf s dev" "disk_ptr (s\<lparr>world := w\<rparr>) dev = disk_ptr s dev"
  by (simp_all add: disk_dev_def disk_ptr_def)

lemma turn_fields [simp]:
  "world (turn dev s) = world s" "heap (turn dev s) = heap s" "current (turn dev s) = current s"
  by (simp_all add: turn_def)

context block_store
begin

lemma request_read:
  assumes d: "disk_dev rdf wrf s dev" and w: "ok (world s)" "b \<in> blocks (disk_ptr s dev)" and buf: "length buf = 1024"
  shows "\<exists>w'. device_request dev buf BLOCK_SECS (b * BLOCK_SECS) 0 REQ_READ s =
      Inr (content (world s) (disk_ptr s dev) b, turn dev (s\<lparr>world := w'\<rparr>)) \<and> ok w' \<and> content w' = content (world s)"
proof -
  obtain n w' where w': "rdf (disk_ptr s dev) BLOCK_SECS (b * BLOCK_SECS) 0 (world s) =
      Inr ((n, content (world s) (disk_ptr s dev) b), w')" "ok w'" "content w' = content (world s)"
    using read_block [OF w] by blast
  moreover have "d_read (devices s ! nat dev) = Some rdf" using d by (simp add: disk_dev_def Let_def)
  ultimately show ?thesis using content_length [OF w] buf
    by (intro exI [of _ w'] conjI device_request_disk [OF d refl refl])
      (simp_all add: do_request_def device_read_def device_get_queued [OF d] on_world_def disk_ptr_def put_def)
qed

lemma request_write:
  assumes d: "disk_dev rdf wrf s dev" and w: "ok (world s)" "b \<in> blocks (disk_ptr s dev)" and buf: "length buf = 1024"
  shows "\<exists>w'. device_request dev buf BLOCK_SECS (b * BLOCK_SECS) 0 REQ_WRITE s = Inr (buf, turn dev (s\<lparr>world := w'\<rparr>)) \<and>
      ok w' \<and> content w' = (content (world s))(disk_ptr s dev := (content (world s) (disk_ptr s dev))(b := buf))"
proof -
  obtain n w' where w': "wrf (disk_ptr s dev) buf BLOCK_SECS (b * BLOCK_SECS) 0 (world s) = Inr (n, w')" "ok w'"
      "content w' = (content (world s))(disk_ptr s dev := (content (world s) (disk_ptr s dev))(b := buf))"
    using write_block [OF w buf] by blast
  moreover have "d_write (devices s ! nat dev) = Some wrf" using d by (simp add: disk_dev_def Let_def)
  ultimately show ?thesis
    by (intro exI [of _ w'] conjI device_request_disk [OF d refl refl])
      (simp_all add: do_request_def device_write_def device_get_queued [OF d] on_world_def disk_ptr_def REQ_READ_def REQ_WRITE_def)
qed

end

subsection \<open>The memory disks\<close>

text \<open>The driver's assertion excludes the last sector of the memory.\<close>

definition ram_blocks :: "u32 \<Rightarrow> u32 set" where
  "ram_blocks d = {b. d < 4 \<and> b < 1024 \<and> \<not> (d = 3 \<and> b = 1023)}"

definition ram_content :: "'x ram_world_scheme \<Rightarrow> u32 \<Rightarrow> u32 \<Rightarrow> u8 list" where
  "ram_content w d b = (if b \<in> ram_blocks d
     then map (\<lambda>k. rmem w (rd_start (ramdisks w ! unat d) + b * 1024 + of_nat k)) [0..<1024] else [])"

definition ram_ok :: "'x ram_world_scheme \<Rightarrow> bool" where
  "ram_ok w \<longleftrightarrow> ramdisks w = map (\<lambda>i. \<lparr>rd_start = KERNEL_RAMDISK_MEM + 0x100000 * of_nat i, rd_size = 0x100000\<rparr>) [0..<4]"

definition ram_addr :: "u32 \<Rightarrow> u32 \<Rightarrow> nat \<Rightarrow> nat" where
  "ram_addr d b k = 0xc00000 + (unat d * 1024 + unat b) * 1024 + k"

lemma of_nat_near:
  assumes "n < 2 ^ 31" "m < 2 ^ 31"
  shows "unat (of_nat n - of_nat m :: u32) < 1024 \<longleftrightarrow> m \<le> n \<and> n - m < 1024" (is "unat ?x < 1024 \<longleftrightarrow> _")
    and "m \<le> n \<Longrightarrow> unat (of_nat n - of_nat m :: u32) = n - m"
proof -
  have "(2 :: nat) ^ 31 + 1024 < 2 ^ 32" by simp
  with assms have n: "n < 2 ^ 32" "m < 2 ^ 32" "m + 1024 < 2 ^ 32" by linarith+
  show le: "unat ?x = n - m" if "m \<le> n"
  proof -
    have "?x = of_nat (n - m)" using that by (simp only: of_nat_diff)
    moreover have "n - m < 2 ^ 32" using n(1) by linarith
    ultimately show ?thesis by (simp only: unat_of_nat_32)
  qed
  have "n = m + unat ?x" if "unat ?x < 1024"
  proof -
    have "of_nat (m + unat ?x) = (of_nat n :: u32)" by simp
    then have "unat (of_nat (m + unat ?x) :: u32) = unat (of_nat n :: u32)" by (simp only:)
    moreover have "m + unat ?x < 2 ^ 32" using n(3) that by linarith
    ultimately show ?thesis using n(1) by (simp only: unat_of_nat_32)
  qed
  with le show "unat ?x < 1024 \<longleftrightarrow> m \<le> n \<and> n - m < 1024" by fastforce
qed

lemma ram_blocks_nat:
  "b \<in> ram_blocks d \<Longrightarrow> unat d < 4 \<and> unat b < 1024 \<and> unat d * 1024 + unat b < 4095"
  by (cases "unat d = 3") (auto simp: ram_blocks_def word_less_nat_alt u32_eq_iff)

lemma ram_addr_bound: "b \<in> ram_blocks d \<Longrightarrow> k \<le> 1024 \<Longrightarrow> ram_addr d b k < 0x1000000"
  using ram_blocks_nat [of b d] by (simp add: ram_addr_def)

lemma ram_start:
  fixes d :: u32
  assumes "ram_ok w" "unat d < 4"
  shows "ramdisks w ! unat d = \<lparr>rd_start = of_nat (0xc00000 + unat d * 1024 * 1024), rd_size = 0x100000\<rparr>"
    "unat d < length (ramdisks w)"
  using assms by (simp_all add: ram_ok_def KERNEL_RAMDISK_MEM_def)

lemma ram_addr_word:
  assumes "ram_ok w" "unat d < 4"
  shows "rd_start (ramdisks w ! unat d) + b * 1024 + of_nat k = of_nat (ram_addr d b k)"
  using ram_start [OF assms] by (simp add: ram_addr_def algebra_simps)

lemma ram_content_nth:
  assumes "ram_ok w" "b \<in> ram_blocks d"
  shows "ram_content w d b = map (\<lambda>k. rmem w (of_nat (ram_addr d b k))) [0..<1024]"
proof -
  have "unat d < 4" using ram_blocks_nat [OF assms(2)] by simp
  then show ?thesis using assms ram_addr_word [OF assms(1)] by (simp add: ram_content_def)
qed

lemma block_near: "k < 1024 \<Longrightarrow>
    c + u * 1024 + 0 \<le> c + v * 1024 + k \<and> c + v * 1024 + k - (c + u * 1024 + 0) < 1024 \<longleftrightarrow> v = (u :: nat)"
  by auto

lemma digits_eq: "a < m \<Longrightarrow> b < m \<Longrightarrow> x * m + a = y * m + b \<longleftrightarrow> x = y \<and> a = (b :: nat)"
  by (metis nat_div_mod_eq)

text \<open>Two bytes of the disks with the addresses of different blocks are different bytes.\<close>

lemma ram_addr_same_block:
  assumes "b \<in> ram_blocks d" "b' \<in> ram_blocks d'" "k < 1024"
  shows "ram_addr d b 0 \<le> ram_addr d' b' k \<and> ram_addr d' b' k - ram_addr d b 0 < 1024 \<longleftrightarrow> d' = d \<and> b' = b"
proof -
  have "ram_addr d b 0 \<le> ram_addr d' b' k \<and> ram_addr d' b' k - ram_addr d b 0 < 1024 \<longleftrightarrow>
      unat d' * 1024 + unat b' = unat d * 1024 + unat b"
    unfolding ram_addr_def by (rule block_near [OF assms(3)])
  also have "\<dots> \<longleftrightarrow> unat d' = unat d \<and> unat b' = unat b"
    using ram_blocks_nat [OF assms(1)] ram_blocks_nat [OF assms(2)] by (intro digits_eq) simp_all
  finally show ?thesis by (simp add: u32_eq_iff)
qed

lemma store_bytes_ram:
  assumes b: "b \<in> ram_blocks d" "b' \<in> ram_blocks d'" and k: "k < 1024" and xs: "length xs = 1024"
  shows "store_bytes m (of_nat (ram_addr d b 0)) xs (of_nat (ram_addr d' b' k)) =
    (if d' = d \<and> b' = b then xs ! k else m (of_nat (ram_addr d' b' k)))"
proof -
  have n: "ram_addr d' b' k < 2 ^ 31" "ram_addr d b 0 < 2 ^ 31"
    using ram_addr_bound [OF b(2), of k] ram_addr_bound [OF b(1), of 0] k by simp_all
  have "unat (of_nat (ram_addr d b k) - of_nat (ram_addr d b 0) :: u32) = k" if "d' = d" "b' = b"
    using of_nat_near(2) [OF n] that by (simp add: ram_addr_def)
  then show ?thesis
    using of_nat_near(1) [OF n] ram_addr_same_block [OF b k] k by (auto simp: store_bytes_def xs)
qed

interpretation ramstore: block_store ramdisk_read ramdisk_write ram_content ram_blocks ram_ok
proof
  fix w b d
  assume w: "ram_ok w" and b: "b \<in> ram_blocks d"
  have d: "unat d < 4" using ram_blocks_nat [OF b] by simp
  show "length (ram_content w d b) = 1024" using b by (simp add: ram_content_def)
  have "of_nat (ram_addr d b 0) + (1024 :: u32) = of_nat (ram_addr d b 1024)" by (simp add: ram_addr_def)
  moreover have "unat (of_nat (ram_addr d b 1024) :: u32) = ram_addr d b 1024"
    using ram_addr_bound [OF b, of 1024] by (intro unat_of_nat_32) simp
  ultimately have range: "(of_nat (ram_addr d b 0) :: u32) + 1024 < KERNEL_RAMDISK_MEM + KERNEL_RAMDISK_SIZE"
    using ram_addr_bound [OF b, of 1024]
    by (simp add: word_less_nat_alt KERNEL_RAMDISK_MEM_def KERNEL_RAMDISK_SIZE_def)
  have rng: "ramdisk_range (ramdisks w ! unat d) (ucast BLOCK_SECS) (b * BLOCK_SECS) = (of_nat (ram_addr d b 0), 1024)"
    using ram_addr_word [OF w d, of b 0] by (simp add: ramdisk_range_def BLOCK_SECS_def SECTOR_SIZE_def mult.commute)
  have addr: "(of_nat (ram_addr d b 0) :: u32) + of_nat k = of_nat (ram_addr d b k)" for k by (simp add: ram_addr_def)
  show "\<exists>n w'. ramdisk_read d BLOCK_SECS (b * BLOCK_SECS) 0 w = Inr ((n, ram_content w d b), w') \<and>
      ram_ok w' \<and> ram_content w' = ram_content w"
    using range ram_start(2) [OF w d] w
    by (simp add: ramdisk_read_def rng ram_content_nth [OF w b] addr)
  fix xs :: "u8 list"
  assume xs: "length xs = 1024"
  let ?w = "w\<lparr>rmem := store_bytes (rmem w) (of_nat (ram_addr d b 0)) xs\<rparr>"
  have w': "ram_ok ?w" using w by (simp add: ram_ok_def)
  have "ram_content ?w d' b' = ((ram_content w)(d := (ram_content w d)(b := xs))) d' b'" for d' b'
  proof (cases "b' \<in> ram_blocks d'")
    case True
    then have "ram_content ?w d' b' = (if d' = d \<and> b' = b then map ((!) xs) [0..<1024] else ram_content w d' b')"
      by (auto simp: ram_content_nth [OF w'] ram_content_nth [OF w] store_bytes_ram [OF b _ _ xs])
    then show ?thesis using xs map_nth [of xs] by simp
  next
    case False
    then show ?thesis using b by (auto simp: ram_content_def)
  qed
  then show "\<exists>n w'. ramdisk_write d xs BLOCK_SECS (b * BLOCK_SECS) 0 w = Inr (n, w') \<and> ram_ok w' \<and>
      ram_content w' = (ram_content w)(d := (ram_content w d)(b := xs))"
    using range ram_start(2) [OF w d] w' xs by (simp add: ramdisk_write_def rng fun_eq_iff)
qed

end
