(* ===== verification/Cache.thy ===== *)
theory Cache
  imports Block_Store
begin

text \<open>
  The correctness of the buffer cache: \<open>cache_ok\<close> is the consistency of the buffers, the hash chains
  and the free list, \<open>view\<close> is the content of the disks as the kernel sees it through the cache. In
  the context of any disk driver that stores blocks, reading a block returns its view, releasing a
  buffer keeps the view, and changing the data of a buffer changes the view of its block alone.
\<close>

subsection \<open>The state of the cache\<close>

definition buf_at :: "('w, 'a) buf_state_scheme \<Rightarrow> u32 \<Rightarrow> buffer" where
  "buf_at s p = buffers s ! (unat p - 1)"

definition valid_buf :: "('w, 'a) buf_state_scheme \<Rightarrow> u32 \<Rightarrow> bool" where
  "valid_buf s p \<longleftrightarrow> p \<noteq> 0 \<and> unat p - 1 < length (buffers s)"

definition hashed :: "('w, 'a) buf_state_scheme \<Rightarrow> u32 set" where
  "hashed s = (\<Union>l \<in> set (hash_table s). set l)"

definition has_key :: "('w, 'a) buf_state_scheme \<Rightarrow> int \<Rightarrow> u32 \<Rightarrow> u32 \<Rightarrow> bool" where
  "has_key s dev block p \<longleftrightarrow> b_dev (buf_at s p) = dev \<and> b_block (buf_at s p) = block"

definition chain_ok :: "('w, 'a) buf_state_scheme \<Rightarrow> nat \<Rightarrow> u32 list \<Rightarrow> bool" where
  "chain_ok s i l \<longleftrightarrow> distinct l \<and> (\<forall>p \<in> set l. valid_buf s p \<and> 0 < b_count (buf_at s p) \<and> b_valid (buf_at s p) \<and>
     unat (hash (b_dev (buf_at s p)) (b_block (buf_at s p))) = i)"

definition carved :: "('w, 'a) buf_state_scheme \<Rightarrow> bool" where
  "carved s \<longleftrightarrow> (let n = length (buffers s)
     in 64 * n + 1024 * n \<le> 0x400000 \<and>
        buffer_ptr s = KERNEL_BUFFER_MEM + 64 * of_nat n \<and>
        buffer_data s = KERNEL_BUFFER_MEM + KERNEL_BUFFER_SIZE - 1024 * (of_nat n + 1))"

definition cache_ok :: "('w, 'a) buf_state_scheme \<Rightarrow> bool" where
  "cache_ok s \<longleftrightarrow> carved s \<and> (\<forall>b \<in> set (buffers s). length (b_data b) = 1024) \<and>
     length (hash_table s) = 31 \<and> (\<forall>i < 31. chain_ok s i (hash_table s ! i)) \<and>
     (\<forall>p \<in> hashed s. \<forall>q \<in> hashed s. has_key s (b_dev (buf_at s q)) (b_block (buf_at s q)) p \<longrightarrow> p = q) \<and>
     distinct (free_list s) \<and>
     (\<forall>p \<in> set (free_list s). valid_buf s p \<and> b_count (buf_at s p) = 0 \<and> \<not> b_dirty (buf_at s p) \<and> \<not> b_valid (buf_at s p))"

text \<open>The buffer that holds a block, if any.\<close>

definition cached_at :: "('w, 'a) buf_state_scheme \<Rightarrow> int \<Rightarrow> u32 \<Rightarrow> u32 option" where
  "cached_at s dev block = find (has_key s dev block) (hash_table s ! unat (hash dev block))"

definition has_room :: "('w, 'a) buf_state_scheme \<Rightarrow> bool" where
  "has_room s \<longleftrightarrow> free_list s \<noteq> [] \<or> buffer_ptr s + sizeof_buffer < buffer_data s"

lemma hash_less [simp]: "unat (hash dev block) < 31"
  by (simp add: hash_def HASH_COUNT_def unat_mod)

lemma cache_okD:
  assumes "cache_ok s"
  shows "carved s" "length (hash_table s) = 31" "i < 31 \<Longrightarrow> chain_ok s i (hash_table s ! i)" "distinct (free_list s)"
    "\<And>b. b \<in> set (buffers s) \<Longrightarrow> length (b_data b) = 1024"
    "\<And>p q. p \<in> hashed s \<Longrightarrow> q \<in> hashed s \<Longrightarrow> has_key s (b_dev (buf_at s q)) (b_block (buf_at s q)) p \<Longrightarrow> p = q"
    "\<And>p. p \<in> set (free_list s) \<Longrightarrow> valid_buf s p \<and> b_count (buf_at s p) = 0 \<and> \<not> b_dirty (buf_at s p) \<and> \<not> b_valid (buf_at s p)"
  using assms by (auto simp: cache_ok_def)

lemma hashed_nth: "length (hash_table s) = 31 \<Longrightarrow> p \<in> hashed s \<longleftrightarrow> (\<exists>i < 31. p \<in> set (hash_table s ! i))"
  by (simp add: hashed_def Bex_def in_set_conv_nth [of _ "hash_table s"]) metis

lemma hashedD:
  assumes "cache_ok s" "p \<in> hashed s"
  shows "valid_buf s p" "0 < b_count (buf_at s p)" "b_valid (buf_at s p)"
    "p \<in> set (hash_table s ! unat (hash (b_dev (buf_at s p)) (b_block (buf_at s p))))"
proof -
  from assms obtain i where i: "i < 31" "p \<in> set (hash_table s ! i)"
    using hashed_nth [OF cache_okD(2)] by blast
  with cache_okD(3) [OF assms(1) i(1)]
  show "valid_buf s p" "0 < b_count (buf_at s p)" "b_valid (buf_at s p)"
    "p \<in> set (hash_table s ! unat (hash (b_dev (buf_at s p)) (b_block (buf_at s p))))"
    by (auto simp: chain_ok_def)
qed

lemma hash_chain_hashed: "cache_ok s \<Longrightarrow> i < 31 \<Longrightarrow> set (hash_table s ! i) \<subseteq> hashed s"
  using hashed_nth [OF cache_okD(2)] by blast

lemma free_not_hashed: "cache_ok s \<Longrightarrow> p \<in> set (free_list s) \<Longrightarrow> p \<notin> hashed s"
  using hashedD(2) cache_okD(7) by force

lemma find_unique:
  "(\<And>p q. p \<in> set l \<Longrightarrow> P p \<Longrightarrow> q \<in> set l \<Longrightarrow> P q \<Longrightarrow> p = q) \<Longrightarrow> find P l = Some p \<longleftrightarrow> p \<in> set l \<and> P p"
  by (induction l) auto

lemma cached_at_iff: "cache_ok s \<Longrightarrow> cached_at s dev block = Some p \<longleftrightarrow> p \<in> hashed s \<and> has_key s dev block p"
proof -
  assume s: "cache_ok s"
  let ?l = "hash_table s ! unat (hash dev block)"
  have "p \<in> hashed s \<and> has_key s dev block p \<longleftrightarrow> p \<in> set ?l \<and> has_key s dev block p" for p
    using hashedD(4) [OF s] hash_chain_hashed [OF s, of "unat (hash dev block)"] by (auto simp: has_key_def)
  moreover have "p = q" if "p \<in> set ?l" "has_key s dev block p" "q \<in> set ?l" "has_key s dev block q" for p q
    using cache_okD(6) [OF s, of p q] that hash_chain_hashed [OF s, of "unat (hash dev block)"] by (auto simp: has_key_def)
  ultimately show ?thesis
    by (simp add: cached_at_def find_unique)
qed

lemma cached_at_None: "cache_ok s \<Longrightarrow> cached_at s dev block = None \<longleftrightarrow> (\<forall>p \<in> hashed s. \<not> has_key s dev block p)"
  using cached_at_iff [of s dev block] by (metis not_Some_eq)

lemma find_buffer_cached:
  "\<forall>p \<in> set l. valid_buf s p \<Longrightarrow>
   find_buffer (buffers s) dev block l = Inr (case find (has_key s dev block) l of None \<Rightarrow> 0 | Some p \<Rightarrow> p)"
  by (induction l) (auto simp: valid_buf_def has_key_def buf_at_def)

lemma get_from_hash_table_ok:
  assumes "cache_ok s"
  shows "get_from_hash_table dev block s = Inr (case cached_at s dev block of None \<Rightarrow> 0 | Some p \<Rightarrow> p, s)"
proof -
  have "\<forall>p \<in> set (hash_table s ! unat (hash dev block)). valid_buf s p"
    using cache_okD(3) [OF assms hash_less] by (auto simp: chain_ok_def)
  then show ?thesis
    by (simp add: get_from_hash_table_def cache_okD(2) [OF assms] find_buffer_cached cached_at_def)
qed

lemma get_buf_ok: "valid_buf s p \<Longrightarrow> get_buf p s = Inr (buf_at s p, s)"
  by (simp add: get_buf_def valid_buf_def buf_at_def)

lemma upd_buf_ok: "valid_buf s p \<Longrightarrow> upd_buf p f s = Inr ((), s\<lparr>buffers := (buffers s)[unat p - 1 := f (buf_at s p)]\<rparr>)"
  by (simp add: upd_buf_def valid_buf_def buf_at_def)

lemma buf_at_other:
  "valid_buf s p \<Longrightarrow> valid_buf s q \<Longrightarrow> buf_at (s\<lparr>buffers := (buffers s)[unat p - 1 := b]\<rparr>) q = (if q = p then b else buf_at s q)"
proof -
  assume v: "valid_buf s p" "valid_buf s q"
  then have "unat p \<noteq> 0" "unat q \<noteq> 0" by (simp_all add: valid_buf_def unat_eq_0)
  then have "unat q - 1 = unat p - 1 \<longleftrightarrow> q = p" by (auto simp: u32_eq_iff)
  with v show ?thesis by (cases "q = p") (simp_all add: valid_buf_def nth_list_update buf_at_def)
qed


subsection \<open>The three changes of the cache\<close>

text \<open>A buffer is rewritten, entered into its hash chain, or taken out of it and put on the free list.\<close>

definition touch :: "u32 \<Rightarrow> buffer \<Rightarrow> ('w, 'a) buf_state_scheme \<Rightarrow> ('w, 'a) buf_state_scheme" where
  "touch p bf s = s\<lparr>buffers := (buffers s)[unat p - 1 := bf]\<rparr>"

definition enter :: "u32 \<Rightarrow> buffer \<Rightarrow> ('w, 'a) buf_state_scheme \<Rightarrow> ('w, 'a) buf_state_scheme" where
  "enter p bf s = (let i = unat (hash (b_dev bf) (b_block bf))
     in s\<lparr>buffers := (buffers s)[unat p - 1 := bf], hash_table := (hash_table s)[i := p # hash_table s ! i]\<rparr>)"

definition evict :: "u32 \<Rightarrow> buffer \<Rightarrow> ('w, 'a) buf_state_scheme \<Rightarrow> ('w, 'a) buf_state_scheme" where
  "evict p bf s = (let i = unat (hash (b_dev (buf_at s p)) (b_block (buf_at s p)))
     in s\<lparr>buffers := (buffers s)[unat p - 1 := bf], hash_table := (hash_table s)[i := remove1 p (hash_table s ! i)],
          free_list := p # free_list s\<rparr>)"

lemma upd_buf_touch: "valid_buf s p \<Longrightarrow> upd_buf p f s = Inr ((), touch p (f (buf_at s p)) s)"
  by (simp add: upd_buf_ok touch_def)

lemma buf_at_change:
  assumes "valid_buf s p" "valid_buf s q"
  shows "buf_at (touch p bf s) q = (if q = p then bf else buf_at s q)"
    "buf_at (enter p bf s) q = (if q = p then bf else buf_at s q)"
    "buf_at (evict p bf s) q = (if q = p then bf else buf_at s q)"
  using buf_at_other [OF assms, of bf] by (simp_all add: touch_def enter_def evict_def Let_def buf_at_def)

lemma change_fields [simp]:
  "valid_buf (touch p bf s) q = valid_buf s q" "valid_buf (enter p bf s) q = valid_buf s q"
  "valid_buf (evict p bf s) q = valid_buf s q"
  "carved (touch p bf s) = carved s" "carved (enter p bf s) = carved s" "carved (evict p bf s) = carved s"
  "hash_table (touch p bf s) = hash_table s" "free_list (touch p bf s) = free_list s"
  "free_list (enter p bf s) = free_list s" "free_list (evict p bf s) = p # free_list s"
  "world (touch p bf s) = world s" "world (enter p bf s) = world s" "world (evict p bf s) = world s"
  "devices (touch p bf s) = devices s" "devices (enter p bf s) = devices s" "devices (evict p bf s) = devices s"
  "length (hash_table (enter p bf s)) = length (hash_table s)" "length (hash_table (evict p bf s)) = length (hash_table s)"
  "hashed (touch p bf s) = hashed s"
  by (simp_all add: touch_def enter_def evict_def Let_def valid_buf_def carved_def hashed_def)

lemma change_buffers:
  "b \<in> set (buffers (touch p bf s)) \<Longrightarrow> b = bf \<or> b \<in> set (buffers s)"
  "b \<in> set (buffers (enter p bf s)) \<Longrightarrow> b = bf \<or> b \<in> set (buffers s)"
  "b \<in> set (buffers (evict p bf s)) \<Longrightarrow> b = bf \<or> b \<in> set (buffers s)"
  by (auto simp: touch_def enter_def evict_def Let_def dest: subsetD [OF set_update_subset_insert])

lemma cache_okI:
  assumes "cache_ok s" "length (b_data bf) = 1024" "carved s'" "length (hash_table s') = 31"
    and "\<And>b. b \<in> set (buffers s') \<Longrightarrow> b = bf \<or> b \<in> set (buffers s)"
    and "\<And>i. i < 31 \<Longrightarrow> chain_ok s' i (hash_table s' ! i)"
    and "\<And>p q. p \<in> hashed s' \<Longrightarrow> q \<in> hashed s' \<Longrightarrow> has_key s' (b_dev (buf_at s' q)) (b_block (buf_at s' q)) p \<Longrightarrow> p = q"
    and "distinct (free_list s')"
    and "\<And>p. p \<in> set (free_list s') \<Longrightarrow>
      valid_buf s' p \<and> b_count (buf_at s' p) = 0 \<and> \<not> b_dirty (buf_at s' p) \<and> \<not> b_valid (buf_at s' p)"
  shows "cache_ok s'"
proof -
  have "length (b_data b) = 1024" if "b \<in> set (buffers s')" for b
    using assms(5) [OF that] assms(2) cache_okD(5) [OF assms(1)] by blast
  then show ?thesis using assms(3-) unfolding cache_ok_def by blast
qed

lemma chain_valid: "cache_ok s \<Longrightarrow> i < 31 \<Longrightarrow> q \<in> set (hash_table s ! i) \<Longrightarrow> valid_buf s q"
  using cache_okD(3) by (fastforce simp: chain_ok_def)

lemma touch_ok:
  assumes s: "cache_ok s" "p \<in> hashed s" and bf: "length (b_data bf) = 1024" "0 < b_count bf" "b_valid bf"
    "b_dev bf = b_dev (buf_at s p)" "b_block bf = b_block (buf_at s p)"
  shows "cache_ok (touch p bf s)"
proof -
  have p: "valid_buf s p" using hashedD(1) [OF s] .
  have free: "buf_at (touch p bf s) q = buf_at s q" if "q \<in> set (free_list s)" for q
    using that free_not_hashed [OF s(1) that] s(2) cache_okD(7) [OF s(1) that] by (auto simp: buf_at_change p)
  have key: "b_dev (buf_at (touch p bf s) q) = b_dev (buf_at s q)" "b_block (buf_at (touch p bf s) q) = b_block (buf_at s q)"
    if "valid_buf s q" for q using that bf by (simp_all add: buf_at_change p)
  show ?thesis
  proof (rule cache_okI [OF s(1) bf(1)])
    show "carved (touch p bf s)" "length (hash_table (touch p bf s)) = 31" "distinct (free_list (touch p bf s))"
      using cache_okD(1,2,4) [OF s(1)] by simp_all
    show "b = bf \<or> b \<in> set (buffers s)" if "b \<in> set (buffers (touch p bf s))" for b using that by (rule change_buffers)
    show "chain_ok (touch p bf s) i (hash_table (touch p bf s) ! i)" if "i < 31" for i
      using cache_okD(3) [OF s(1) that] bf(2-3) by (auto simp: chain_ok_def key) (simp_all add: buf_at_change p)
    show "q = r" if "q \<in> hashed (touch p bf s)" "r \<in> hashed (touch p bf s)"
      "has_key (touch p bf s) (b_dev (buf_at (touch p bf s) r)) (b_block (buf_at (touch p bf s) r)) q" for q r
      using that cache_okD(6) [OF s(1), of q r] hashedD(1) [OF s(1)] by (simp add: has_key_def key)
    show "valid_buf (touch p bf s) q \<and> b_count (buf_at (touch p bf s) q) = 0 \<and>
      \<not> b_dirty (buf_at (touch p bf s) q) \<and> \<not> b_valid (buf_at (touch p bf s) q)" if "q \<in> set (free_list (touch p bf s))" for q
      using that cache_okD(7) [OF s(1)] free by simp
  qed
qed

lemma hash_table_enter:
  "i < 31 \<Longrightarrow> length (hash_table s) = 31 \<Longrightarrow> hash_table (enter p bf s) ! i =
     (if i = unat (hash (b_dev bf) (b_block bf)) then p # hash_table s ! i else hash_table s ! i)"
  by (simp add: enter_def Let_def)

lemma hashed_enter: "cache_ok s \<Longrightarrow> hashed (enter p bf s) = insert p (hashed s)"
proof -
  assume s: "cache_ok s"
  let ?k = "unat (hash (b_dev bf) (b_block bf))" and ?h = "hash_table (enter p bf s)"
  have k: "set (?h ! ?k) = insert p (set (hash_table s ! ?k))" "?k < 31"
    using cache_okD(2) [OF s] by (simp_all add: hash_table_enter)
  have other: "?h ! i = hash_table s ! i" if "i < 31" "i \<noteq> ?k" for i
    using that cache_okD(2) [OF s] by (simp add: hash_table_enter)
  have len: "length ?h = 31" using cache_okD(2) [OF s] by simp
  show ?thesis
    unfolding set_eq_iff insert_iff hashed_nth [OF cache_okD(2) [OF s]] hashed_nth [OF len]
    using k other by (metis insert_iff)
qed

lemma enter_ok:
  assumes s: "cache_ok s" "valid_buf s p" "p \<notin> hashed s" "p \<notin> set (free_list s)"
    and bf: "length (b_data bf) = 1024" "0 < b_count bf" "b_valid bf"
    and key: "cached_at s (b_dev bf) (b_block bf) = None"
  shows "cache_ok (enter p bf s)"
proof (rule cache_okI [OF s(1) bf(1)])
  note at = buf_at_change(2) [OF s(2)]
  note len = cache_okD(2) [OF s(1)]
  have old: "buf_at (enter p bf s) q = buf_at s q" if "valid_buf s q" "q \<noteq> p" for q using that by (simp add: at)
  show "carved (enter p bf s)" "length (hash_table (enter p bf s)) = 31" "distinct (free_list (enter p bf s))"
    using cache_okD(1,2,4) [OF s(1)] by simp_all
  show "b = bf \<or> b \<in> set (buffers s)" if "b \<in> set (buffers (enter p bf s))" for b using that by (rule change_buffers)
  show "chain_ok (enter p bf s) i (hash_table (enter p bf s) ! i)" if "i < 31" for i
  proof -
    have p: "p \<notin> set (hash_table s ! i)" using s(3) hash_chain_hashed [OF s(1) that] by blast
    then have "chain_ok (enter p bf s) i (hash_table s ! i)"
      using cache_okD(3) [OF s(1) that] by (auto simp: chain_ok_def at)
    moreover have "buf_at (enter p bf s) p = bf" using s(2) by (simp add: at)
    ultimately show ?thesis
      using p bf s(2) by (cases "i = unat (hash (b_dev bf) (b_block bf))")
        (simp_all add: hash_table_enter that len chain_ok_def)
  qed
  show "q = r" if "q \<in> hashed (enter p bf s)" "r \<in> hashed (enter p bf s)"
    "has_key (enter p bf s) (b_dev (buf_at (enter p bf s) r)) (b_block (buf_at (enter p bf s) r)) q" for q r
  proof -
    have q: "q = p \<or> q \<in> hashed s" "r = p \<or> r \<in> hashed s" using that(1,2) by (simp_all add: hashed_enter [OF s(1)])
    note no = cached_at_None [OF s(1), THEN iffD1, OF key]
    show ?thesis
      using q that(3) no s(2,3) cache_okD(6) [OF s(1), of q r] hashedD(1) [OF s(1), of q] hashedD(1) [OF s(1), of r]
      by (cases "q = p"; cases "r = p") (auto simp: has_key_def at)
  qed
  show "valid_buf (enter p bf s) q \<and> b_count (buf_at (enter p bf s) q) = 0 \<and>
      \<not> b_dirty (buf_at (enter p bf s) q) \<and> \<not> b_valid (buf_at (enter p bf s) q)" if "q \<in> set (free_list (enter p bf s))" for q
  proof -
    have "q \<noteq> p" "valid_buf s q" using that s(4) cache_okD(7) [OF s(1), of q] by auto
    then show ?thesis using that cache_okD(7) [OF s(1), of q] old [of q] by simp
  qed
qed

lemma hash_table_evict:
  "i < 31 \<Longrightarrow> length (hash_table s) = 31 \<Longrightarrow> hash_table (evict p bf s) ! i =
     (if i = unat (hash (b_dev (buf_at s p)) (b_block (buf_at s p))) then remove1 p (hash_table s ! i) else hash_table s ! i)"
  by (simp add: evict_def Let_def)

lemma hash_chain_evict:
  assumes s: "cache_ok s" "p \<in> hashed s" and i: "i < 31"
  shows "set (hash_table (evict p bf s) ! i) = set (hash_table s ! i) - {p}" "distinct (hash_table (evict p bf s) ! i)"
proof -
  have chain: "chain_ok s i (hash_table s ! i)" using cache_okD(3) [OF s(1) i] .
  then have "p \<in> set (hash_table s ! i) \<Longrightarrow> i = unat (hash (b_dev (buf_at s p)) (b_block (buf_at s p)))"
    by (auto simp: chain_ok_def)
  with chain show "set (hash_table (evict p bf s) ! i) = set (hash_table s ! i) - {p}" "distinct (hash_table (evict p bf s) ! i)"
    by (auto simp: hash_table_evict [OF i cache_okD(2) [OF s(1)]] chain_ok_def)
qed

lemma hashed_evict:
  assumes s: "cache_ok s" "p \<in> hashed s"
  shows "hashed (evict p bf s) = hashed s - {p}"
proof -
  have len: "length (hash_table (evict p bf s)) = 31" using cache_okD(2) [OF s(1)] by simp
  show ?thesis
    unfolding set_eq_iff Diff_iff hashed_nth [OF cache_okD(2) [OF s(1)]] hashed_nth [OF len]
    using hash_chain_evict(1) [OF s] by blast
qed

lemma evict_ok:
  assumes s: "cache_ok s" "p \<in> hashed s"
    and bf: "length (b_data bf) = 1024" "b_count bf = 0" "\<not> b_valid bf" "\<not> b_dirty bf"
  shows "cache_ok (evict p bf s)"
proof (rule cache_okI [OF s(1) bf(1)])
  have p: "valid_buf s p" using hashedD(1) [OF s] .
  note at = buf_at_change(3) [OF p]
  show "carved (evict p bf s)" "length (hash_table (evict p bf s)) = 31" using cache_okD(1,2) [OF s(1)] by simp_all
  show "distinct (free_list (evict p bf s))" using cache_okD(4) [OF s(1)] free_not_hashed [OF s(1)] s(2) by auto
  show "b = bf \<or> b \<in> set (buffers s)" if "b \<in> set (buffers (evict p bf s))" for b using that by (rule change_buffers)
  show "chain_ok (evict p bf s) i (hash_table (evict p bf s) ! i)" if i: "i < 31" for i
    using cache_okD(3) [OF s(1) i] hash_chain_evict [OF s i] by (auto simp: chain_ok_def at)
  show "q = r" if "q \<in> hashed (evict p bf s)" "r \<in> hashed (evict p bf s)"
    "has_key (evict p bf s) (b_dev (buf_at (evict p bf s) r)) (b_block (buf_at (evict p bf s) r)) q" for q r
    using that cache_okD(6) [OF s(1), of q r] hashedD(1) [OF s(1)] by (auto simp: hashed_evict [OF s] has_key_def at)
  show "valid_buf (evict p bf s) q \<and> b_count (buf_at (evict p bf s) q) = 0 \<and>
      \<not> b_dirty (buf_at (evict p bf s) q) \<and> \<not> b_valid (buf_at (evict p bf s) q)" if "q \<in> set (free_list (evict p bf s))" for q
    using that p bf cache_okD(7) [OF s(1), of q] by (cases "q = p") (simp_all add: at)
qed

text \<open>The next buffer: carved from the memory, or the one that is free for the longest time.\<close>

definition fresh_for :: "('w, 'a) buf_state_scheme \<Rightarrow> ('w, 'a) buf_state_scheme \<Rightarrow> u32 \<Rightarrow> bool" where
  "fresh_for s s' p \<longleftrightarrow> valid_buf s' p \<and> p \<notin> hashed s' \<and> p \<notin> set (free_list s') \<and>
     b_count (buf_at s' p) = 0 \<and> \<not> b_dirty (buf_at s' p) \<and> \<not> b_valid (buf_at s' p) \<and>
     hash_table s' = hash_table s \<and> world s' = world s \<and> devices s' = devices s \<and> heap s' = heap s \<and> wait_list s' = wait_list s \<and>
     (\<forall>q. valid_buf s q \<longrightarrow> valid_buf s' q \<and> buf_at s' q = buf_at s q)"

lemma carved_room:
  assumes "carved s" "n = length (buffers s)"
  shows "unat (buffer_ptr s) = 0x800000 + 64 * n" "unat (buffer_data s) = 0xc00000 - 1024 * (n + 1)" "n < 4096"
proof -
  from assms have le: "64 * n + 1024 * n \<le> 0x400000"
    and p: "buffer_ptr s = of_nat (0x800000 + 64 * n)"
    and d: "buffer_data s = of_nat 0xc00000 - of_nat (1024 * (n + 1))"
    by (simp_all add: carved_def Let_def KERNEL_BUFFER_MEM_def KERNEL_BUFFER_SIZE_def)
  from le show n: "n < 4096" by simp
  from n show "unat (buffer_ptr s) = 0x800000 + 64 * n" unfolding p by (intro unat_of_nat_32) simp
  have "buffer_data s = of_nat (0xc00000 - 1024 * (n + 1))" unfolding d using le by (subst of_nat_diff) simp_all
  moreover have "0xc00000 - 1024 * (n + 1) < (2 :: nat) ^ 32" by simp
  ultimately show "unat (buffer_data s) = 0xc00000 - 1024 * (n + 1)" by (simp only: unat_of_nat_32)
qed

lemma get_new_buffer_ok:
  assumes s: "cache_ok s" and room: "buffer_ptr s + sizeof_buffer < buffer_data s"
  shows "\<exists>p s'. get_new_buffer s = Inr (p, s') \<and> p \<noteq> 0 \<and> cache_ok s' \<and> fresh_for s s' p"
proof -
  let ?n = "length (buffers s)"
  define p :: u32 where "p = of_nat ?n + 1"
  define b0 where "b0 = \<lparr>b_data = map (\<lambda>i. buffer_mem s (buffer_data s + of_nat i)) [0..<1024], b_dev = - 1, b_block = 0, b_count = 0, b_dirty = False, b_valid = False\<rparr>"
  define s' where "s' = s\<lparr>buffers := buffers s @ [b0], buffer_ptr := buffer_ptr s + sizeof_buffer,
    buffer_data := buffer_data s - BLOCK_SIZE\<rparr>"
  have run: "get_new_buffer s = Inr (p, s')" using room by (simp add: get_new_buffer_def p_def s'_def b0_def)
  note c = carved_room [OF cache_okD(1) [OF s] refl]
  have p: "unat p = ?n + 1"
    unfolding p_def using c(3) by (subst unat_Suc_32) (simp_all add: unat_of_nat_32)
  then have p0: "p \<noteq> 0" by auto
  have "unat (buffer_ptr s + sizeof_buffer) = 0x800000 + 64 * (?n + 1)"
    using c(1,3) by (subst unat_add_32) (simp_all add: sizeof_buffer_def)
  with room c(2) have "0x800000 + 64 * (?n + 1) < 0xc00000 - 1024 * (?n + 1)" by (simp add: word_less_nat_alt)
  then have carved': "carved s'"
    using cache_okD(1) [OF s] by (simp add: carved_def Let_def s'_def sizeof_buffer_def BLOCK_SIZE_def algebra_simps)
  have fields [simp]: "hash_table s' = hash_table s" "free_list s' = free_list s" "hashed s' = hashed s"
    "world s' = world s" "devices s' = devices s" "heap s' = heap s" "wait_list s' = wait_list s"
    by (simp_all add: s'_def hashed_def)
  have old: "valid_buf s' q \<and> buf_at s' q = buf_at s q" if "valid_buf s q" for q
    using that by (auto simp: valid_buf_def buf_at_def s'_def nth_append)
  have new: "valid_buf s' p" "buf_at s' p = b0" "\<not> valid_buf s p"
    using p p0 by (simp_all add: valid_buf_def buf_at_def s'_def)
  have "cache_ok s'"
  proof (rule cache_okI [OF s, of b0])
    show "length (b_data b0) = 1024" by (simp add: b0_def)
    show "carved s'" by (fact carved')
    show "length (hash_table s') = 31" "distinct (free_list s')" using cache_okD(2,4) [OF s] by simp_all
    show "b = b0 \<or> b \<in> set (buffers s)" if "b \<in> set (buffers s')" for b using that by (auto simp: s'_def)
    show "chain_ok s' i (hash_table s' ! i)" if "i < 31" for i
      using cache_okD(3) [OF s that] old by (auto simp: chain_ok_def)
    show "q = r" if "q \<in> hashed s'" "r \<in> hashed s'" "has_key s' (b_dev (buf_at s' r)) (b_block (buf_at s' r)) q" for q r
      using that cache_okD(6) [OF s, of q r] hashedD(1) [OF s] old by (simp add: has_key_def)
    show "valid_buf s' q \<and> b_count (buf_at s' q) = 0 \<and> \<not> b_dirty (buf_at s' q) \<and> \<not> b_valid (buf_at s' q)"
      if "q \<in> set (free_list s')" for q using that cache_okD(7) [OF s, of q] old by auto
  qed
  moreover have "fresh_for s s' p"
    using new old hashedD(1) [OF s, of p] cache_okD(7) [OF s, of p] by (auto simp: fresh_for_def b0_def)
  ultimately show ?thesis using run p0 by blast
qed

lemma get_free_buffer_ok:
  assumes s: "cache_ok s" and room: "has_room s"
  shows "\<exists>p s'. get_free_buffer s = Inr (p, s') \<and> cache_ok s' \<and> fresh_for s s' p"
proof (cases "buffer_ptr s + sizeof_buffer < buffer_data s")
  case True
  then show ?thesis using get_new_buffer_ok [OF s True] by (auto simp: get_free_buffer_def)
next
  case False
  let ?l = "free_list s" and ?s' = "s\<lparr>free_list := butlast (free_list s)\<rparr>"
  have ne: "?l \<noteq> []" using False room by (simp add: has_room_def)
  have run: "get_free_buffer s = Inr (List.last ?l, ?s')" using False ne by (simp add: get_free_buffer_def get_new_buffer_def)
  have same: "buf_at ?s' q = buf_at s q" "valid_buf ?s' q = valid_buf s q" "hashed ?s' = hashed s"
    "chain_ok ?s' i l = chain_ok s i l" "carved ?s' = carved s" "has_key ?s' d b q = has_key s d b q" for q i l d b
    by (simp_all add: buf_at_def valid_buf_def hashed_def chain_ok_def carved_def has_key_def)
  have sub: "q \<in> set ?l" if "q \<in> set (butlast ?l)" for q using that by (rule in_set_butlastD)
  have "cache_ok ?s'"
    using s by (auto simp: cache_ok_def same distinct_butlast dest: sub)
  moreover have "List.last ?l \<in> set ?l" "List.last ?l \<notin> set (butlast ?l)"
    using ne cache_okD(4) [OF s] append_butlast_last_id [OF ne] by (simp, metis distinct_append distinct.simps(2) disjoint_insert(1) list.set(2))
  ultimately show ?thesis
    using run free_not_hashed [OF s, of "List.last ?l"] cache_okD(7) [OF s, of "List.last ?l"]
    by (auto simp: fresh_for_def same)
qed

subsection \<open>The disks as the kernel sees them\<close>

definition view :: "('w \<Rightarrow> u32 \<Rightarrow> u32 \<Rightarrow> u8 list) \<Rightarrow> ('w, 'a) buf_state_scheme \<Rightarrow> int \<Rightarrow> u32 \<Rightarrow> u8 list" where
  "view content s dev block = (case cached_at s dev block of
     Some p \<Rightarrow> b_data (buf_at s p) | None \<Rightarrow> content (world s) (disk_ptr s dev) block)"

definition on_disk :: "'w read_fn \<Rightarrow> 'w write_fn \<Rightarrow> (u32 \<Rightarrow> u32 set) \<Rightarrow> ('w, 'a) buf_state_scheme \<Rightarrow> int \<Rightarrow> u32 \<Rightarrow> bool" where
  "on_disk rdf wrf blocks s dev block \<longleftrightarrow> disk_dev rdf wrf s dev \<and> block \<in> blocks (disk_ptr s dev)"

text \<open>
  The cache may hold blocks of any devices; what is cached of a disk of this driver is a block that the driver
  serves, and clean buffers agree with the disk.
\<close>

definition store_ok :: "'w read_fn \<Rightarrow> 'w write_fn \<Rightarrow> ('w \<Rightarrow> u32 \<Rightarrow> u32 \<Rightarrow> u8 list) \<Rightarrow> (u32 \<Rightarrow> u32 set) \<Rightarrow> ('w \<Rightarrow> bool) \<Rightarrow>
    ('w, 'a) buf_state_scheme \<Rightarrow> bool" where
  "store_ok rdf wrf content blocks ok s \<longleftrightarrow> cache_ok s \<and> ok (world s) \<and>
     (\<forall>d d'. disk_dev rdf wrf s d \<longrightarrow> disk_dev rdf wrf s d' \<longrightarrow> disk_ptr s d = disk_ptr s d' \<longrightarrow> d = d') \<and>
     (\<forall>p \<in> hashed s. disk_dev rdf wrf s (b_dev (buf_at s p)) \<longrightarrow>
        on_disk rdf wrf blocks s (b_dev (buf_at s p)) (b_block (buf_at s p)) \<and>
        (\<not> b_dirty (buf_at s p) \<longrightarrow>
           b_data (buf_at s p) = content (world s) (disk_ptr s (b_dev (buf_at s p))) (b_block (buf_at s p))))"

text \<open>What every operation of the cache leaves alone, and what an operation on one buffer leaves alone.\<close>

definition others_kept :: "u32 \<Rightarrow> ('w, 'a) buf_state_scheme \<Rightarrow> ('w, 'a) buf_state_scheme \<Rightarrow> bool" where
  "others_kept p s s' \<longleftrightarrow> (\<forall>q \<in> hashed s. q \<noteq> p \<longrightarrow> q \<in> hashed s' \<and> buf_at s' q = buf_at s q)"

lemma others_kept_trans: "others_kept p s s' \<Longrightarrow> others_kept p s' s'' \<Longrightarrow> others_kept p s s''"
  by (simp add: others_kept_def)

definition same_disks :: "'w read_fn \<Rightarrow> 'w write_fn \<Rightarrow> ('w, 'a) buf_state_scheme \<Rightarrow> ('w, 'a) buf_state_scheme \<Rightarrow> bool" where
  "same_disks rdf wrf s s' \<longleftrightarrow> heap s' = heap s \<and> wait_list s' = wait_list s \<and>
     (\<forall>d. disk_dev rdf wrf s' d = disk_dev rdf wrf s d \<and> disk_ptr s' d = disk_ptr s d)"

lemma same_disks_on_disk:
  "same_disks rdf wrf s s' \<Longrightarrow> on_disk rdf wrf blocks s' d b = on_disk rdf wrf blocks s d b"
  by (simp add: same_disks_def on_disk_def)

lemma same_disks_trans: "same_disks rdf wrf s s' \<Longrightarrow> same_disks rdf wrf s' s'' \<Longrightarrow> same_disks rdf wrf s s''"
  by (simp add: same_disks_def)

lemma same_disks_touch: "same_disks rdf wrf s (touch p bf s)"
  by (simp add: same_disks_def touch_def disk_dev_def disk_ptr_def)

lemma buf_fields_turn [simp]:
  "valid_buf (turn dev s) p = valid_buf s p" "buf_at (turn dev s) p = buf_at s p" "hashed (turn dev s) = hashed s"
  "has_key (turn dev s) d b p = has_key s d b p" "cached_at (turn dev s) d b = cached_at s d b"
  "cache_ok (turn dev s) = cache_ok s" "wait_list (turn dev s) = wait_list s" "free_list (turn dev s) = free_list s"
  "hash_table (turn dev s) = hash_table s"
proof -
  show [simp]: "valid_buf (turn dev s) p = valid_buf s p" "buf_at (turn dev s) p = buf_at s p" "hashed (turn dev s) = hashed s"
    for p by (simp_all add: valid_buf_def buf_at_def hashed_def turn_def)
  show "has_key (turn dev s) d b p = has_key s d b p" "cached_at (turn dev s) d b = cached_at s d b"
    by (simp_all add: has_key_def [abs_def] cached_at_def) (simp add: turn_def)
  show "cache_ok (turn dev s) = cache_ok s"
    by (simp add: cache_ok_def chain_ok_def has_key_def) (simp add: turn_def carved_def)
qed (simp_all add: turn_def)

lemma buf_fields_world [simp]:
  "valid_buf (s\<lparr>world := w\<rparr>) p = valid_buf s p" "buf_at (s\<lparr>world := w\<rparr>) p = buf_at s p" "hashed (s\<lparr>world := w\<rparr>) = hashed s"
  "has_key (s\<lparr>world := w\<rparr>) d b p = has_key s d b p" "cached_at (s\<lparr>world := w\<rparr>) d b = cached_at s d b"
  "cache_ok (s\<lparr>world := w\<rparr>) = cache_ok s"
proof -
  show [simp]: "valid_buf (s\<lparr>world := w\<rparr>) p = valid_buf s p" "buf_at (s\<lparr>world := w\<rparr>) p = buf_at s p" "hashed (s\<lparr>world := w\<rparr>) = hashed s"
    for p by (simp_all add: valid_buf_def buf_at_def hashed_def)
  show "has_key (s\<lparr>world := w\<rparr>) d b p = has_key s d b p" "cached_at (s\<lparr>world := w\<rparr>) d b = cached_at s d b"
    by (simp_all add: has_key_def [abs_def] cached_at_def)
  show "cache_ok (s\<lparr>world := w\<rparr>) = cache_ok s"
    by (simp add: cache_ok_def chain_ok_def has_key_def carved_def)
qed

lemma disk_cong:
  "devices s' = devices s \<Longrightarrow> disk_dev rdf wrf s' d = disk_dev rdf wrf s d" "devices s' = devices s \<Longrightarrow> disk_ptr s' d = disk_ptr s d"
  by (simp_all add: disk_dev_def disk_ptr_def)

lemma touch_commutes:
  "touch p b (turn dev s) = turn dev (touch p b s)" "touch p b (s\<lparr>world := w\<rparr>) = (touch p b s)\<lparr>world := w\<rparr>"
  "b_dev b = b_dev b' \<Longrightarrow> b_block b = b_block b' \<Longrightarrow> touch p b (enter p b' s) = enter p b s"
  by (simp_all add: touch_def turn_def enter_def Let_def)

text \<open>The buffers that hold a block after each of the changes.\<close>

lemma cached_at_eqI:
  assumes "cache_ok s" "cache_ok s'"
    and "\<And>p. p \<in> hashed s' \<and> has_key s' dev block p \<longleftrightarrow> p \<in> hashed s \<and> has_key s dev block p"
  shows "cached_at s' dev block = cached_at s dev block"
  using cached_at_iff [OF assms(1), of dev block] cached_at_iff [OF assms(2), of dev block] assms(3)
  by (metis not_None_eq)

lemma cached_at_touch:
  assumes "cache_ok s" "p \<in> hashed s" "cache_ok (touch p bf s)"
    and "b_dev bf = b_dev (buf_at s p)" "b_block bf = b_block (buf_at s p)"
  shows "cached_at (touch p bf s) dev block = cached_at s dev block"
  using assms hashedD(1) [OF assms(1)]
  by (intro cached_at_eqI) (auto simp: has_key_def buf_at_change)

lemma cached_at_enter:
  assumes s: "cache_ok s" "valid_buf s p" "p \<notin> hashed s" and s': "cache_ok (enter p bf s)"
  shows "cached_at (enter p bf s) dev block = (if dev = b_dev bf \<and> block = b_block bf then Some p else cached_at s dev block)"
proof (cases "dev = b_dev bf \<and> block = b_block bf")
  case True
  then have "p \<in> hashed (enter p bf s) \<and> has_key (enter p bf s) dev block p"
    using s by (simp add: hashed_enter has_key_def buf_at_change)
  then show ?thesis using True cached_at_iff [OF s', of dev block p] by simp
next
  case False
  have "cached_at (enter p bf s) dev block = cached_at s dev block"
    using s False hashedD(1) [OF s(1)] by (intro cached_at_eqI [OF s(1) s']) (auto simp: hashed_enter has_key_def buf_at_change)
  then show ?thesis by (simp add: False)
qed

lemma cached_at_evict:
  assumes s: "cache_ok s" "p \<in> hashed s" and s': "cache_ok (evict p bf s)"
  shows "cached_at (evict p bf s) dev block =
    (if dev = b_dev (buf_at s p) \<and> block = b_block (buf_at s p) then None else cached_at s dev block)"
proof (cases "dev = b_dev (buf_at s p) \<and> block = b_block (buf_at s p)")
  case True
  then have "\<not> has_key (evict p bf s) dev block q" if "q \<in> hashed (evict p bf s)" for q
    using that cache_okD(6) [OF s(1) _ s(2), of q] hashedD(1) [OF s(1)] s
    by (auto simp: hashed_evict [OF s] has_key_def buf_at_change)
  then have "cached_at (evict p bf s) dev block = None" using cached_at_None [OF s'] by blast
  then show ?thesis using True by simp
next
  case False
  have "cached_at (evict p bf s) dev block = cached_at s dev block"
    using s False hashedD(1) [OF s(1)]
    by (intro cached_at_eqI [OF s(1) s']) (auto simp: hashed_evict [OF s] has_key_def buf_at_change)
  then show ?thesis by (simp add: False)
qed

subsection \<open>Reading, releasing and writing a block\<close>

lemma store_okD:
  assumes "store_ok rdf wrf content blocks ok s"
  shows "cache_ok s" "ok (world s)"
    "\<And>d d'. disk_dev rdf wrf s d \<Longrightarrow> disk_dev rdf wrf s d' \<Longrightarrow> disk_ptr s d = disk_ptr s d' \<Longrightarrow> d = d'"
    "\<And>p. p \<in> hashed s \<Longrightarrow> disk_dev rdf wrf s (b_dev (buf_at s p)) \<Longrightarrow>
       on_disk rdf wrf blocks s (b_dev (buf_at s p)) (b_block (buf_at s p))"
    "\<And>p. p \<in> hashed s \<Longrightarrow> disk_dev rdf wrf s (b_dev (buf_at s p)) \<Longrightarrow> \<not> b_dirty (buf_at s p) \<Longrightarrow>
       b_data (buf_at s p) = content (world s) (disk_ptr s (b_dev (buf_at s p))) (b_block (buf_at s p))"
  using assms by (auto simp: store_ok_def)

lemma touch_store_ok:
  assumes s: "store_ok rdf wrf content blocks ok s" "p \<in> hashed s"
    and bf: "length (b_data bf) = 1024" "0 < b_count bf" "b_valid bf" "b_dev bf = b_dev (buf_at s p)" "b_block bf = b_block (buf_at s p)"
    and dirty: "b_dirty bf \<or> \<not> b_dirty (buf_at s p) \<and> b_data bf = b_data (buf_at s p)"
  shows "store_ok rdf wrf content blocks ok (touch p bf s)"
    "view content (touch p bf s) = (view content s)(b_dev bf := (view content s (b_dev bf))(b_block bf := b_data bf))"
proof -
  have ok: "cache_ok (touch p bf s)" using touch_ok [OF store_okD(1) [OF s(1)] s(2) bf] .
  note at = buf_at_change(1) [OF hashedD(1) [OF store_okD(1) [OF s(1)] s(2)] hashedD(1) [OF store_okD(1) [OF s(1)]]]
  have "disk_dev rdf wrf s (b_dev (buf_at (touch p bf s) q)) \<longrightarrow>
      on_disk rdf wrf blocks s (b_dev (buf_at (touch p bf s) q)) (b_block (buf_at (touch p bf s) q)) \<and>
      (\<not> b_dirty (buf_at (touch p bf s) q) \<longrightarrow> b_data (buf_at (touch p bf s) q) =
        content (world s) (disk_ptr s (b_dev (buf_at (touch p bf s) q))) (b_block (buf_at (touch p bf s) q)))"
    if q: "q \<in> hashed s" for q
    using store_okD(4,5) [OF s(1) q] bf(4,5) dirty s(2) q by (cases "q = p") (auto simp: at)
  then show "store_ok rdf wrf content blocks ok (touch p bf s)"
    using s ok store_okD(3) [OF s(1)] by (simp add: store_ok_def disk_cong [of "touch p bf s" s] on_disk_def)
  have key: "cached_at s (b_dev bf) (b_block bf) = Some p"
    using s(2) bf(4,5) by (simp add: cached_at_iff store_okD(1) [OF s(1)] has_key_def)
  have "view content (touch p bf s) d b =
      ((view content s)(b_dev bf := (view content s (b_dev bf))(b_block bf := b_data bf))) d b" for d b
  proof (cases "cached_at s d b")
    case None
    then show ?thesis using key cached_at_touch [OF store_okD(1) [OF s(1)] s(2) ok bf(4,5)]
      by (auto simp: view_def disk_cong [of "touch p bf s" s])
  next
    case (Some q)
    then have q: "q \<in> hashed s" "has_key s d b q" using cached_at_iff [OF store_okD(1) [OF s(1)]] by simp_all
    then show ?thesis using Some key cached_at_touch [OF store_okD(1) [OF s(1)] s(2) ok bf(4,5)] bf(4,5)
      by (auto simp: view_def at has_key_def)
  qed
  then show "view content (touch p bf s) = (view content s)(b_dev bf := (view content s (b_dev bf))(b_block bf := b_data bf))"
    by blast
qed

lemma others_kept_touch: "cache_ok s \<Longrightarrow> p \<in> hashed s \<Longrightarrow> others_kept p s (touch p bf s)"
  using hashedD(1) [of s] by (simp add: others_kept_def buf_at_change)

lemma bread_hit:
  assumes s: "cache_ok s" "cached_at s dev block = Some p"
  shows "bread dev block s = Inr (p, touch p ((buf_at s p)\<lparr>b_count := b_count (buf_at s p) + 1\<rparr>) s)"
proof -
  have p: "p \<in> hashed s" using s cached_at_iff by blast
  have "upd_buf p (b_count_update (\<lambda>n. n + 1)) s = Inr ((), touch p ((buf_at s p)\<lparr>b_count := b_count (buf_at s p) + 1\<rparr>) s)"
    unfolding upd_buf_touch [OF hashedD(1) [OF s(1) p]] by (cases "buf_at s p") simp
  then show ?thesis
    using hashedD [OF s(1) p] s(2)
    by (simp add: bread_def get_from_hash_table_ok [OF s(1)] get_buf_ok valid_buf_def)
qed

lemma store_ok_turn [simp]:
  "store_ok rdf wrf content blocks ok (turn dev s) = store_ok rdf wrf content blocks ok s"
  "view content (turn dev s) d b = view content s d b" "on_disk rdf wrf blocks (turn dev s) d b = on_disk rdf wrf blocks s d b"
  by (simp_all add: store_ok_def on_disk_def view_def split: option.splits)

text \<open>A block whose last user has gone is on the disk.\<close>

lemma evict_store_ok:
  assumes s: "store_ok rdf wrf content blocks ok s" "p \<in> hashed s" and b: "b = buf_at s p"
    and dk: "disk_dev rdf wrf s (b_dev b)"
    and bf: "length (b_data bf) = 1024" "b_count bf = 0" "\<not> b_valid bf" "\<not> b_dirty bf"
    and w: "ok w'" "content w' = (content (world s))(disk_ptr s (b_dev b) := (content (world s) (disk_ptr s (b_dev b)))(b_block b := b_data b))"
    and s': "s' = (evict p bf s)\<lparr>world := w'\<rparr>"
  shows "store_ok rdf wrf content blocks ok s'"
    "disk_dev rdf wrf s d \<Longrightarrow> view content s' d n = view content s d n"
proof -
  note cok = store_okD(1) [OF s(1)]
  have ok': "cache_ok (evict p bf s)" using evict_ok [OF cok s(2) bf] .
  have fields: "hashed s' = hashed s - {p}" "world s' = w'" "disk_ptr s' d = disk_ptr s d"
    "disk_dev rdf wrf s' d = disk_dev rdf wrf s d" for d
    using hashed_evict [OF cok s(2)] by (simp_all add: s' disk_cong [of "evict p bf s" s])
  have at: "buf_at s' q = buf_at s q" if "q \<in> hashed s" "q \<noteq> p" for q
    using that hashedD(1) [OF cok] s(2) by (simp add: s' buf_at_change)
  have other: "content w' (disk_ptr s d) n = content (world s) (disk_ptr s d) n"
    if "disk_dev rdf wrf s d" "d \<noteq> b_dev b \<or> n \<noteq> b_block b" for d n
    using that store_okD(3) [OF s(1) _ dk, of d] by (auto simp: w(2))
  have differ: "b_dev (buf_at s q) \<noteq> b_dev b \<or> b_block (buf_at s q) \<noteq> b_block b" if "q \<in> hashed s" "q \<noteq> p" for q
    using cache_okD(6) [OF cok that(1) s(2)] that(2) by (auto simp: has_key_def b)
  show "store_ok rdf wrf content blocks ok s'"
    unfolding store_ok_def
  proof (intro conjI ballI allI impI)
    show "cache_ok s'" using ok' by (simp add: s')
    show "ok (world s')" using w(1) by (simp add: fields)
    show "a = c" if "disk_dev rdf wrf s' a" "disk_dev rdf wrf s' c" "disk_ptr s' a = disk_ptr s' c" for a c
      using that store_okD(3) [OF s(1)] by (simp add: fields)
    show "on_disk rdf wrf blocks s' (b_dev (buf_at s' q)) (b_block (buf_at s' q))"
      if "q \<in> hashed s'" "disk_dev rdf wrf s' (b_dev (buf_at s' q))" for q
      using that store_okD(4) [OF s(1), of q] by (auto simp: fields at on_disk_def)
    show "b_data (buf_at s' q) = content (world s') (disk_ptr s' (b_dev (buf_at s' q))) (b_block (buf_at s' q))"
      if "q \<in> hashed s'" "disk_dev rdf wrf s' (b_dev (buf_at s' q))" "\<not> b_dirty (buf_at s' q)" for q
      using that store_okD(4,5) [OF s(1), of q] differ [of q] other [of "b_dev (buf_at s q)" "b_block (buf_at s q)"]
      by (auto simp: fields at on_disk_def)
  qed
  assume d: "disk_dev rdf wrf s d"
  have c: "cached_at s' d n = (if d = b_dev b \<and> n = b_block b then None else cached_at s d n)"
    using cached_at_evict [OF cok s(2) ok', of d n] by (simp add: s' b)
  show "view content s' d n = view content s d n"
  proof (cases "d = b_dev b \<and> n = b_block b")
    case True
    then have "cached_at s d n = Some p" using s(2) by (simp add: cached_at_iff [OF cok] has_key_def b)
    then show ?thesis using True c by (simp add: view_def fields w(2) b)
  next
    case False
    show ?thesis
    proof (cases "cached_at s d n")
      case None
      then show ?thesis using False c d other by (auto simp: view_def fields)
    next
      case (Some q)
      then have "q \<in> hashed s" "q \<noteq> p" using False by (auto simp: cached_at_iff [OF cok] has_key_def b)
      then show ?thesis using Some False c by (auto simp: view_def at)
    qed
  qed
qed

lemma unhash_ok:
  assumes "cache_ok s" "p \<in> hashed s" "b_dev bf = b_dev (buf_at s p)" "b_block bf = b_block (buf_at s p)"
    and "i = unat (hash (b_dev bf) (b_block bf))"
  shows "unhash p bf (touch p bf s) = Inr ((), (touch p bf s)\<lparr>hash_table := (hash_table s)[i := remove1 p (hash_table s ! i)]\<rparr>)"
  using hashedD(4) [OF assms(1,2)] cache_okD(2) [OF assms(1)] assms(3-) by (simp add: unhash_def Let_def)

lemma wake_nobody: "list_empty (heap s) (wait_list s) = Inr True \<Longrightarrow> wake_waiter s = Inr ((), s)"
  by (simp add: wake_waiter_def)

context block_store
begin

abbreviation good :: "('w, 'a) buf_state_scheme \<Rightarrow> bool" where
  "good \<equiv> store_ok rdf wrf content blocks ok"

lemma bread_miss:
  assumes s: "good s" and d: "on_disk rdf wrf blocks s dev block" and c: "cached_at s dev block = None" and room: "has_room s"
  shows "\<exists>p s'. bread dev block s = Inr (p, s') \<and> good s' \<and> same_disks rdf wrf s s' \<and> p \<in> hashed s' \<and> has_key s' dev block p \<and>
    b_data (buf_at s' p) = view content s dev block \<and> view content s' = view content s \<and> p \<notin> hashed s \<and> others_kept p s s'"
proof -
  note cok = store_okD(1) [OF s]
  obtain p s1 where p: "get_free_buffer s = Inr (p, s1)" "cache_ok s1" "fresh_for s s1 p"
    using get_free_buffer_ok [OF cok room] by blast
  have fr: "valid_buf s1 p" "p \<notin> hashed s1" "p \<notin> set (free_list s1)" "b_count (buf_at s1 p) = 0" "\<not> b_dirty (buf_at s1 p)"
    "\<not> b_valid (buf_at s1 p)" "hash_table s1 = hash_table s" "world s1 = world s" "devices s1 = devices s"
    and old: "\<And>q. valid_buf s q \<Longrightarrow> valid_buf s1 q \<and> buf_at s1 q = buf_at s q"
    using p(3) by (simp_all add: fresh_for_def)
  have h1: "hashed s1 = hashed s" by (simp add: hashed_def fr)
  have c1: "cached_at s1 d b = cached_at s d b" for d b
    using old hashedD(1) [OF cok] by (intro cached_at_eqI [OF cok p(2)]) (auto simp: h1 has_key_def)
  let ?b1 = "(buf_at s1 p)\<lparr>b_count := 1, b_dev := dev, b_block := block\<rparr>"
  let ?x = "content (world s) (disk_ptr s dev) block"
  let ?bf = "?b1\<lparr>b_data := ?x, b_valid := True\<rparr>"
  let ?s3 = "enter p ?b1 s1"
  have x: "length ?x = 1024" using content_length [OF store_okD(2) [OF s]] d by (simp add: on_disk_def)
  have b1: "length (b_data (buf_at s1 p)) = 1024"
    using cache_okD(5) [OF p(2)] fr(1) by (simp add: valid_buf_def buf_at_def)
  have d3: "disk_dev rdf wrf ?s3 dev" "block \<in> blocks (disk_ptr ?s3 dev)" "ok (world ?s3)"
    using d store_okD(2) [OF s] fr by (simp_all add: on_disk_def disk_cong [of ?s3 s])
  obtain w' where w': "device_request dev (b_data (buf_at s1 p)) BLOCK_SECS (block * BLOCK_SECS) 0 REQ_READ ?s3 =
      Inr (?x, turn dev (?s3\<lparr>world := w'\<rparr>))" "ok w'" "content w' = content (world s)"
    using request_read [OF d3(1,3,2) b1] fr by (auto simp: disk_cong [of ?s3 s])
  define s' where "s' = turn dev ((enter p ?bf s1)\<lparr>world := w'\<rparr>)"
  have loc: "hash_locate p (touch p ?b1 s1) = Inr ((), ?s3)"
  proof -
    have "p \<notin> set (hash_table s1 ! unat (hash dev block))" using fr(2) hash_chain_hashed [OF p(2) hash_less] by blast
    then show ?thesis
      using fr(1) cache_okD(2) [OF p(2)]
      by (simp add: hash_locate_def get_buf_ok buf_at_change Let_def) (simp add: touch_def enter_def Let_def)
  qed
  have run: "bread dev block s = Inr (p, s')"
  proof -
    have "upd_buf p (\<lambda>b. b\<lparr>b_data := ?x, b_valid := True\<rparr>) (turn dev (?s3\<lparr>world := w'\<rparr>)) = Inr ((), s')"
      using fr(1) by (simp add: upd_buf_touch touch_commutes buf_at_change s'_def)
    moreover have "upd_buf p (\<lambda>b. b\<lparr>b_count := 1, b_dev := dev, b_block := block\<rparr>) s1 = Inr ((), touch p ?b1 s1)"
      using fr(1) by (simp add: upd_buf_touch)
    ultimately have "bread_new dev block s = Inr (p, s')"
      using p(1) get_buf_ok [OF fr(1)] fr(4-6) loc w'(1) by (simp add: bread_new_def)
    then show ?thesis using c by (simp add: bread_def get_from_hash_table_ok [OF cok])
  qed
  have ok': "cache_ok (enter p ?bf s1)"
    using p(2) fr(1-3) x c by (intro enter_ok) (simp_all add: c1)
  have at: "buf_at s' q = (if q = p then ?bf else buf_at s q)" if "q \<in> insert p (hashed s)" for q
    using that old [of q] fr(1) hashedD(1) [OF cok, of q] by (auto simp: s'_def buf_at_change)
  have fields: "hashed s' = insert p (hashed s)" "world s' = w'" "disk_ptr s' d = disk_ptr s d"
    "disk_dev rdf wrf s' d = disk_dev rdf wrf s d" for d
    using hashed_enter [OF p(2)] h1 fr(9) by (simp_all add: s'_def disk_cong [of "enter p ?bf s1" s])
  have "good s'"
    unfolding store_ok_def
  proof (intro conjI ballI allI impI)
    show "cache_ok s'" using ok' by (simp add: s'_def)
    show "ok (world s')" using w'(2) by (simp add: fields)
    show "a = b" if "disk_dev rdf wrf s' a" "disk_dev rdf wrf s' b" "disk_ptr s' a = disk_ptr s' b" for a b
      using that store_okD(3) [OF s] by (simp add: fields)
    show "on_disk rdf wrf blocks s' (b_dev (buf_at s' q)) (b_block (buf_at s' q))"
      if "q \<in> hashed s'" "disk_dev rdf wrf s' (b_dev (buf_at s' q))" for q
      using that d store_okD(4) [OF s, of q] by (auto simp: fields at on_disk_def)
    show "b_data (buf_at s' q) = content (world s') (disk_ptr s' (b_dev (buf_at s' q))) (b_block (buf_at s' q))"
      if "q \<in> hashed s'" "disk_dev rdf wrf s' (b_dev (buf_at s' q))" "\<not> b_dirty (buf_at s' q)" for q
      using that store_okD(5) [OF s, of q] w'(3) by (cases "q = p") (simp_all add: fields at)
  qed
  moreover have "view content s' = view content s"
  proof (intro ext)
    fix a b
    have q: "q \<in> hashed s" "buf_at s' q = buf_at s q" if "cached_at s a b = Some q" for q
      using that fr(2) h1 at [of q] by (auto simp: cached_at_iff [OF cok])
    have "cached_at s' a b = (if a = dev \<and> b = block then Some p else cached_at s a b)"
      using cached_at_enter [OF p(2) fr(1,2) ok', of a b] by (simp add: s'_def c1)
    then show "view content s' a b = view content s a b"
      using c w'(3) q by (cases "cached_at s a b") (auto simp: view_def at fields)
  qed
  moreover have "same_disks rdf wrf s s'"
    using p(3) fields by (simp add: same_disks_def fresh_for_def) (simp add: s'_def enter_def Let_def)
  moreover have "b_data (buf_at s' p) = view content s dev block" "has_key s' dev block p" "p \<in> hashed s'"
    using c by (simp_all add: at fields view_def has_key_def)
  moreover have "others_kept p s s'" by (simp add: others_kept_def fields at)
  moreover have "p \<notin> hashed s" using fr(2) h1 by simp
  ultimately show ?thesis using run by blast
qed

lemma brelease_shared:
  assumes s: "good s" and p: "p \<in> hashed s" and n: "1 < b_count (buf_at s p)"
  shows "\<exists>s'. brelease p s = Inr ((), s') \<and> good s' \<and> same_disks rdf wrf s s' \<and>
    cached_at s' (b_dev (buf_at s p)) (b_block (buf_at s p)) = Some p \<and> view content s' = view content s \<and> others_kept p s s'"
proof -
  let ?bf = "b_count_update (\<lambda>n. n - 1) (buf_at s p)"
  note cok = store_okD(1) [OF s]
  have v: "valid_buf s p" using hashedD(1) [OF cok p] .
  have "p \<noteq> 0" using v by (simp add: valid_buf_def)
  then have run: "brelease p s = Inr ((), touch p ?bf s)"
    using v n by (simp add: brelease_def upd_buf_touch get_buf_ok buf_at_change)
  have len: "length (b_data (buf_at s p)) = 1024" using cache_okD(5) [OF cok] v by (simp add: valid_buf_def buf_at_def)
  have c: "cached_at s (b_dev (buf_at s p)) (b_block (buf_at s p)) = Some p" using p by (simp add: cached_at_iff [OF cok] has_key_def)
  have g: "good (touch p ?bf s)" and "view content (touch p ?bf s) = (view content s)(b_dev ?bf := (view content s (b_dev ?bf))(b_block ?bf := b_data ?bf))"
    using touch_store_ok [OF s p, of ?bf] len n hashedD(3) [OF cok p] by auto
  moreover have "view content s (b_dev ?bf) (b_block ?bf) = b_data ?bf" using c by (simp add: view_def)
  moreover have "cached_at (touch p ?bf s) (b_dev (buf_at s p)) (b_block (buf_at s p)) = Some p"
    using c cached_at_touch [OF cok p store_okD(1) [OF g]] by simp
  ultimately show ?thesis
    using run g others_kept_touch [OF cok p, of ?bf] by (intro exI [of _ "touch p ?bf s"]) (auto simp: fun_upd_idem same_disks_touch)
qed

lemma brelease_last:
  assumes s: "good s" and p: "p \<in> hashed s" and dk: "disk_dev rdf wrf s (b_dev (buf_at s p))"
    and n: "b_count (buf_at s p) = 1" and wl: "list_empty (heap s) (wait_list s) = Inr True"
  shows "\<exists>s'. brelease p s = Inr ((), s') \<and> good s' \<and> same_disks rdf wrf s s' \<and> hashed s' = hashed s - {p} \<and> has_room s' \<and>
    cached_at s' (b_dev (buf_at s p)) (b_block (buf_at s p)) = None \<and>
    (\<forall>d b. disk_dev rdf wrf s d \<longrightarrow> view content s' d b = view content s d b) \<and> others_kept p s s'"
proof -
  note cok = store_okD(1) [OF s]
  let ?b = "buf_at s p"
  let ?i = "unat (hash (b_dev ?b) (b_block ?b))"
  let ?bc = "b_count_update (\<lambda>n. n - 1) ?b"
  let ?bf = "?bc\<lparr>b_dirty := False, b_dev := - 1, b_block := 0, b_valid := False\<rparr>"
  let ?s2 = "(touch p ?bc s)\<lparr>hash_table := (hash_table s)[?i := remove1 p (hash_table s ! ?i)]\<rparr>"
  have v: "valid_buf s p" "p \<noteq> 0" using hashedD(1) [OF cok p] by (simp_all add: valid_buf_def)
  have len: "length (b_data ?b) = 1024" using cache_okD(5) [OF cok] v by (simp add: valid_buf_def buf_at_def)
  have free: "p \<notin> set (free_list s)" using free_not_hashed [OF cok] p by blast
  have disk: "disk_dev rdf wrf s (b_dev ?b)" "b_block ?b \<in> blocks (disk_ptr s (b_dev ?b))"
    using store_okD(4) [OF s p dk] by (simp_all add: on_disk_def)
  have v2: "valid_buf ?s2 p" "buf_at ?s2 p = ?bc"
    using v buf_at_change(1) [OF v(1) v(1)] by (simp_all add: valid_buf_def buf_at_def touch_def)
  obtain w' s3 where w': "ok w'" "content w' = (content (world s))(disk_ptr s (b_dev ?b) := (content (world s) (disk_ptr s (b_dev ?b)))(b_block ?b := b_data ?b))"
    and run3: "(if b_dirty ?b then sbind (upd_buf p (b_dirty_update (\<lambda>_. False))) (\<lambda>_. bwrite p) else sret ()) ?s2 = Inr ((), s3)"
    and s3: "s3 = (touch p (?bc\<lparr>b_dirty := False\<rparr>) ?s2)\<lparr>world := w'\<rparr> \<or>
      s3 = turn (b_dev ?b) ((touch p (?bc\<lparr>b_dirty := False\<rparr>) ?s2)\<lparr>world := w'\<rparr>)"
  proof (cases "b_dirty ?b")
    case False
    have "?bc\<lparr>b_dirty := False\<rparr> = ?bc" using False by (cases ?b) simp
    then have "(touch p (?bc\<lparr>b_dirty := False\<rparr>) ?s2)\<lparr>world := world s\<rparr> = ?s2" by (simp add: touch_def)
    moreover have "content (world s) = (content (world s))(disk_ptr s (b_dev ?b) := (content (world s) (disk_ptr s (b_dev ?b)))(b_block ?b := b_data ?b))"
      using store_okD(5) [OF s p dk False] by simp
    ultimately show ?thesis using that [of "world s" ?s2] store_okD(2) [OF s] False by auto
  next
    case True
    let ?s3 = "touch p (?bc\<lparr>b_dirty := False\<rparr>) ?s2"
    have v3: "valid_buf ?s3 p" "buf_at ?s3 p = ?bc\<lparr>b_dirty := False\<rparr>" using v2 by (simp_all add: buf_at_change)
    have dw: "devices ?s3 = devices s" "world ?s3 = world s" by simp_all
    have d3: "disk_dev rdf wrf ?s3 (b_dev ?b)" "b_block ?b \<in> blocks (disk_ptr ?s3 (b_dev ?b))" "ok (world ?s3)"
      using disk store_okD(2) [OF s] unfolding disk_cong [OF dw(1)] dw(2) by simp_all
    obtain w' where w': "device_request (b_dev ?b) (b_data ?b) BLOCK_SECS (b_block ?b * BLOCK_SECS) 0 REQ_WRITE ?s3 =
        Inr (b_data ?b, turn (b_dev ?b) (?s3\<lparr>world := w'\<rparr>))" "ok w'"
      "content w' = (content (world s))(disk_ptr s (b_dev ?b) := (content (world s) (disk_ptr s (b_dev ?b)))(b_block ?b := b_data ?b))"
      using request_write [OF d3(1,3,2) len] unfolding disk_cong(2) [OF dw(1)] dw(2) by blast
    have "(if b_dirty ?b then sbind (upd_buf p (b_dirty_update (\<lambda>_. False))) (\<lambda>_. bwrite p) else sret ()) ?s2 =
        Inr ((), turn (b_dev ?b) (?s3\<lparr>world := w'\<rparr>))"
      using True v2 v3 v(2) w'(1) by (simp add: upd_buf_touch bwrite_def get_buf_ok)
    then show ?thesis using that [of w' "turn (b_dev ?b) (?s3\<lparr>world := w'\<rparr>)"] w'(2,3) by blast
  qed
  let ?s' = "(touch p ?bf s3)\<lparr>free_list := p # free_list s\<rparr>"
  have v3: "valid_buf s3 p" "buf_at s3 p = ?bc\<lparr>b_dirty := False\<rparr>" "free_list s3 = free_list s" "heap s3 = heap s" "wait_list s3 = wait_list s"
    using s3 v2 by (auto simp: buf_at_change) (simp_all add: touch_def)
  have run: "brelease p s = Inr ((), ?s')"
  proof -
    have "unhash p ?bc (touch p ?bc s) = Inr ((), ?s2)" using unhash_ok [OF cok p, of ?bc] by simp
    moreover have "wake_waiter ?s' = Inr ((), ?s')" using wl v3 by (intro wake_nobody) (simp add: touch_def)
    moreover have "upd_buf p (b_count_update (\<lambda>n. n - 1)) s = Inr ((), touch p ?bc s)" "get_buf p (touch p ?bc s) = Inr (?bc, touch p ?bc s)"
      using v by (simp_all add: upd_buf_touch get_buf_ok buf_at_change)
    moreover have "upd_buf p (\<lambda>b. b\<lparr>b_dev := - 1, b_block := 0, b_valid := False\<rparr>) s3 = Inr ((), touch p ?bf s3)"
      using v3 by (simp add: upd_buf_touch)
    ultimately show ?thesis
      using n v(2) free v3 run3 by (simp add: brelease_def cong: run_congs)
  qed
  let ?t = "(evict p ?bf s)\<lparr>world := w'\<rparr>"
  have s': "?s' = ?t \<or> ?s' = turn (b_dev ?b) ?t"
    using s3 by (auto simp: touch_def evict_def turn_def Let_def)
  have "store_ok rdf wrf content blocks ok ?t" "disk_dev rdf wrf s d \<Longrightarrow> view content ?t d n = view content s d n" for d n
    using evict_store_ok [OF s p refl dk _ _ _ _ w' refl, of ?bf] len n by simp_all
  moreover have "hashed ?t = hashed s - {p}" using hashed_evict [OF cok p] by simp
  moreover have "cached_at ?t (b_dev ?b) (b_block ?b) = None"
    using cached_at_evict [OF cok p evict_ok [OF cok p, of ?bf]] len n by simp
  moreover have "others_kept p s ?t"
    unfolding others_kept_def using hashed_evict [OF cok p] hashedD(1) [OF cok] v(1) by (simp add: buf_at_change)
  ultimately have "good ?s' \<and> hashed ?s' = hashed s - {p} \<and> cached_at ?s' (b_dev ?b) (b_block ?b) = None \<and> others_kept p s ?s' \<and>
      (\<forall>d b. disk_dev rdf wrf s d \<longrightarrow> view content ?s' d b = view content s d b)"
    using s' by (elim disjE) (simp_all add: others_kept_def)
  moreover have "same_disks rdf wrf s ?t" by (simp add: same_disks_def disk_cong [of "evict p ?bf s" s]) (simp add: evict_def Let_def)
  then have "same_disks rdf wrf s ?s'" using s' by (elim disjE) (simp_all add: same_disks_def)
  moreover have "has_room ?s'" by (simp add: has_room_def)
  ultimately show ?thesis using run by blast
qed

end

end
