(* ===== verification/Disk_Store.thy ===== *)
theory Disk_Store
  imports Cache
begin

text \<open>
  The buffer cache on the memory disks: the state after the initialisation satisfies the invariant, and
  through the interpretation of the contract of \<open>Block_Store\<close> the operations of the cache read and
  write the blocks of the disks as one would expect without a cache.
\<close>

abbreviation ram_store :: "('x ram_world_scheme, 'a) buf_state_scheme \<Rightarrow> bool" where
  "ram_store \<equiv> store_ok ramdisk_read ramdisk_write ram_content ram_blocks ram_ok"

abbreviation ram_on_disk :: "('x ram_world_scheme, 'a) buf_state_scheme \<Rightarrow> int \<Rightarrow> u32 \<Rightarrow> bool" where
  "ram_on_disk \<equiv> on_disk ramdisk_read ramdisk_write ram_blocks"

abbreviation ram_disk :: "('x ram_world_scheme, 'a) buf_state_scheme \<Rightarrow> int \<Rightarrow> bool" where
  "ram_disk \<equiv> disk_dev ramdisk_read ramdisk_write"

subsection \<open>The initial state\<close>

lemma null_device_from_Some:
  "j < length ds \<Longrightarrow> d_type (ds ! j) = DEV_NULL \<Longrightarrow> (\<And>i. i < j \<Longrightarrow> d_type (ds ! i) \<noteq> DEV_NULL) \<Longrightarrow>
   null_device_from ds n = Some (n + j)"
proof (induction ds arbitrary: j n)
  case (Cons d ds)
  show ?case
  proof (cases j)
    case (Suc k)
    have "null_device_from ds (n + 1) = Some (n + 1 + k)"
      using Cons.prems Suc by (intro Cons.IH) (auto, metis Suc_less_eq nth_Cons_Suc)
    then show ?thesis using Cons.prems(3) [of 0] Suc by simp
  qed (use Cons.prems in simp)
qed simp

definition null_dev :: "nat \<Rightarrow> 'w device" where
  "null_dev i = \<lparr>d_name = put (replicate NAMELEN 0) 0 [0x6e, 0x75, 0x6c, 0x6c, 0], d_type = DEV_NULL, d_subtype = DEV_NULL,
      d_dev = int i, d_parent = 0, d_ptr = 0, d_requests = [], d_down = False,
      d_ioctl = None, d_read = None, d_write = None\<rparr>"

text \<open>The arguments with which a driver calls \<open>device\_install\<close>, and the calls of several drivers one after the other.\<close>

record 'w driver =
  dr_type :: int
  dr_subtype :: int
  dr_ptr :: u32
  dr_name :: "u8 list"
  dr_parent :: int
  dr_ioctl :: "'w ioctl_fn option"
  dr_read :: "'w read_fn option"
  dr_write :: "'w write_fn option"

definition install_driver :: "'w driver \<Rightarrow> (('w, 'a) dev_state_scheme, int) op" where
  "install_driver r = device_install (dr_type r) (dr_subtype r) (dr_ptr r) (dr_name r) (dr_parent r) (dr_ioctl r) (dr_read r) (dr_write r)"

definition install_drivers :: "'w driver list \<Rightarrow> (('w, 'a) dev_state_scheme, unit) op" where
  "install_drivers rs = sforeach rs (\<lambda>r. sbind (install_driver r) (\<lambda>_. sret ()))"

definition dev_of :: "nat \<Rightarrow> 'w driver \<Rightarrow> 'w device" where
  "dev_of i r = (null_dev i)\<lparr>d_type := dr_type r, d_subtype := dr_subtype r, d_ptr := dr_ptr r,
     d_name := strncpy_into (d_name (null_dev i :: 'w device)) (dr_name r) NAMELEN, d_parent := dr_parent r,
     d_ioctl := dr_ioctl r, d_read := dr_read r, d_write := dr_write r\<rparr>"

text \<open>The table after the installation of the drivers \<open>rs\<close>: the entry 0 is never used.\<close>

definition devs :: "'w driver list \<Rightarrow> 'w device list" where
  "devs rs = map (\<lambda>i. if 0 < i \<and> i \<le> length rs then dev_of i (rs ! (i - 1)) else null_dev i) [0..<64]"

lemma devs_fields [simp]:
  "length (devs rs) = 64" "i < 64 \<Longrightarrow> devs rs ! i = (if 0 < i \<and> i \<le> length rs then dev_of i (rs ! (i - 1)) else null_dev i)"
  by (simp_all add: devs_def)

definition real_driver :: "'w driver \<Rightarrow> bool" where
  "real_driver r \<longleftrightarrow> dr_type r \<noteq> DEV_NULL"

lemma install_driver_devs:
  assumes s: "devices s = devs rs" and k: "length rs < 63" and r: "\<forall>r\<in>set rs. real_driver r"
  shows "install_driver r s = Inr (int (length rs + 1), s\<lparr>devices := devs (rs @ [r])\<rparr>)"
proof -
  let ?k = "length rs"
  have "d_type (drop 1 (devs rs) ! i) \<noteq> DEV_NULL" if "i < ?k" for i
    using that k r by (auto simp: dev_of_def real_driver_def)
  then have "null_device_from (drop 1 (devices s)) 1 = Some (1 + ?k)"
    using k by (intro null_device_from_Some) (auto simp: s null_dev_def)
  then have free: "get_null_device s = Inr (?k + 1, s)" by (simp add: get_null_device_def)
  have null: "devices s ! (?k + 1) = null_dev (?k + 1)" using k by (simp add: s)
  have "(devs rs)[?k + 1 := dev_of (?k + 1) r] = devs (rs @ [r])"
    using k by (intro nth_equalityI) (auto simp: nth_list_update nth_append)
  then show ?thesis
    using k null by (simp add: install_driver_def device_install_def free upd_device_def s dev_of_def)
      (simp add: null_dev_def)
qed

lemma install_drivers_devs:
  assumes "devices s = devs qs" "length qs + length rs < 64" "\<forall>r\<in>set (qs @ rs). real_driver r"
  shows "install_drivers rs s = Inr ((), s\<lparr>devices := devs (qs @ rs)\<rparr>)"
  using assms
proof (induction rs arbitrary: qs s)
  case (Cons r rs)
  have "install_driver r s = Inr (int (length qs + 1), s\<lparr>devices := devs (qs @ [r])\<rparr>)"
    using Cons.prems by (intro install_driver_devs) simp_all
  then show ?case using Cons.IH [of "s\<lparr>devices := devs (qs @ [r])\<rparr>" "qs @ [r]"] Cons.prems by (simp add: install_drivers_def)
qed (simp add: install_drivers_def)

text \<open>The memory disks are the last drivers that are installed.\<close>

definition ram_driver :: "nat \<Rightarrow> 'x ram_world_scheme driver" where
  "ram_driver i = \<lparr>dr_type = DEV_BLOCK, dr_subtype = DEV_RAMDISK, dr_ptr = of_nat i, dr_name = [0x6d, 0x64, of_nat i + 0x61],
     dr_parent = 0, dr_ioctl = Some ramdisk_ioctl, dr_read = Some ramdisk_read, dr_write = Some ramdisk_write\<rparr>"

definition ram_drivers :: "'x ram_world_scheme driver list" where
  "ram_drivers = map ram_driver [0..<4]"

lemma boot_disks:
  fixes s :: "('x ram_world_scheme, 'z) dev_state_scheme"
  assumes "devices s = devs rs" "length rs < 60" "\<forall>r\<in>set rs. real_driver r" "length (ramdisks (world s)) = 4"
  shows "\<exists>w. ramdisk_init s = Inr ((), s\<lparr>world := w, devices := devs (rs @ ram_drivers)\<rparr>) \<and> ram_ok w"
proof -
  from assms(4) obtain a b c d where t: "ramdisks (world s) = [a, b, c, d]"
    by (auto simp: length_Suc_conv numeral_eq_Suc)
  have four: "[0..<RAMDISK_NR] = [0, 1, 2, 3]" by (simp add: RAMDISK_NR_def upt_rec)
  have sz: "KERNEL_RAMDISK_SIZE div of_nat RAMDISK_NR = 0x100000" "KERNEL_RAMDISK_SIZE div of_nat RAMDISK_NR mod SECTOR_SIZE = 0"
    by (simp_all add: KERNEL_RAMDISK_SIZE_def RAMDISK_NR_def SECTOR_SIZE_def)
  have step: "device_install DEV_BLOCK DEV_RAMDISK (of_nat i) [0x6d, 0x64, of_nat i + 0x61] 0
       (Some ramdisk_ioctl) (Some ramdisk_read) (Some ramdisk_write) t =
      Inr (int (length rs + i + 1), t\<lparr>devices := devs (rs @ map ram_driver [0..<i + 1])\<rparr>)"
    if "i < 4" "devices t = devs (rs @ map ram_driver [0..<i])" for i and t :: "('x ram_world_scheme, 'z) dev_state_scheme"
  proof -
    have "install_driver (ram_driver i) t =
        Inr (int (length (rs @ map ram_driver [0..<i]) + 1), t\<lparr>devices := devs ((rs @ map ram_driver [0..<i]) @ [ram_driver i])\<rparr>)"
      using that assms(2,3)
      by (intro install_driver_devs) (auto simp: real_driver_def ram_driver_def DEV_BLOCK_def DEV_NULL_def)
    then show ?thesis by (simp add: install_driver_def ram_driver_def)
  qed
  note steps = step [of 0, simplified] step [of 1, simplified] step [of 2, simplified] step [of 3, simplified]
  let ?rd = "\<lambda>i. \<lparr>rd_start = KERNEL_RAMDISK_MEM + 0x100000 * of_nat i, rd_size = 0x100000\<rparr>"
  let ?w = "(world s)\<lparr>ramdisks := [?rd 0, ?rd 1, ?rd 2, ?rd 3]\<rparr>"
  have "ramdisk_init s = Inr ((), s\<lparr>world := ?w, devices := devs (rs @ ram_drivers)\<rparr>)"
    unfolding ramdisk_init_def Let_def four sz(1)
    using sz(2) assms(1) t by (simp add: sz(1) steps numeral_eq_Suc ram_drivers_def)
  moreover have "ram_ok ?w" by (simp add: ram_ok_def upt_rec)
  ultimately show ?thesis by blast
qed

text \<open>A driver of something else than a memory disk.\<close>

definition other_driver :: "'x ram_world_scheme driver \<Rightarrow> bool" where
  "other_driver r \<longleftrightarrow> real_driver r \<and> dr_read r \<noteq> Some ramdisk_read"

lemma ram_disk_devs:
  assumes dv: "devices s = devs (rs @ ram_drivers)" and k: "length rs < 60" and r: "\<forall>r\<in>set rs. other_driver r"
  shows "ram_disk s d \<longleftrightarrow> int (length rs) < d \<and> d \<le> int (length rs) + 4"
    "int (length rs) < d \<Longrightarrow> d \<le> int (length rs) + 4 \<Longrightarrow> disk_ptr s d = word_of_int (d - 1 - int (length rs))"
proof -
  let ?k = "length rs"
  have at: "devices s ! nat d = dev_of (nat d) (ram_driver (nat d - 1 - ?k)) \<and> nat d < 64"
    if "int ?k < d" "d \<le> int ?k + 4" for d
  proof -
    have "?k < nat d" "nat d \<le> ?k + 4" using that by linarith+
    then show ?thesis using k by (auto simp: dv ram_drivers_def nth_append)
  qed
  show "disk_ptr s d = word_of_int (d - 1 - int ?k)" if "int ?k < d" "d \<le> int ?k + 4"
  proof -
    have "int (nat d - 1 - ?k) = d - 1 - int ?k" using that by linarith
    then show ?thesis using at [OF that] by (simp add: disk_ptr_def dev_of_def ram_driver_def)
  qed
  show "ram_disk s d \<longleftrightarrow> int ?k < d \<and> d \<le> int ?k + 4"
  proof (cases "int ?k < d \<and> d \<le> int ?k + 4")
    case True
    then have "devices s ! nat d = dev_of (nat d) (ram_driver (nat d - 1 - ?k))" "nat d < 64" using at by blast+
    then show ?thesis
      using True by (auto simp: disk_dev_def dv DEVICE_NR_def Let_def dev_of_def null_dev_def ram_driver_def ramdisk_ioctl_def)
  next
    case False
    have "d_type (devices s ! nat d) \<noteq> DEV_BLOCK \<or> d_read (devices s ! nat d) \<noteq> Some ramdisk_read"
      if "0 \<le> d" "d < 64"
    proof (cases "0 < nat d \<and> nat d \<le> ?k")
      case True
      then have "rs ! (nat d - 1) \<in> set rs" by (intro nth_mem) linarith
      then have "other_driver (rs ! (nat d - 1))" using r by blast
      moreover have "devices s ! nat d = dev_of (nat d) (rs ! (nat d - 1))"
        using True that k by (auto simp: dv nth_append)
      ultimately show ?thesis by (simp add: dev_of_def other_driver_def)
    next
      case no: False
      have "\<not> (0 < nat d \<and> nat d \<le> ?k + 4)" using no False that by linarith
      then have "devices s ! nat d = null_dev (nat d)" using that by (auto simp: dv ram_drivers_def)
      then show ?thesis by (simp add: null_dev_def DEV_BLOCK_def DEV_NULL_def)
    qed
    then show ?thesis using False by (auto simp: disk_dev_def DEVICE_NR_def Let_def)
  qed
qed

lemma empty_cache_ok:
  assumes "buffers s = []" "buffer_ptr s = KERNEL_BUFFER_MEM" "buffer_data s = KERNEL_BUFFER_MEM + KERNEL_BUFFER_SIZE - BLOCK_SIZE"
    and "free_list s = []" "hash_table s = replicate (unat HASH_COUNT) []"
  shows "cache_ok s" "hashed s = {}" "has_room s"
proof -
  have n: "unat HASH_COUNT = 31" by (simp add: HASH_COUNT_def)
  show h: "hashed s = {}" by (simp add: hashed_def assms)
  show "cache_ok s"
    using assms by (simp add: cache_ok_def h n carved_def chain_ok_def BLOCK_SIZE_def)
  show "has_room s"
    using assms by (simp add: has_room_def KERNEL_BUFFER_MEM_def KERNEL_BUFFER_SIZE_def BLOCK_SIZE_def sizeof_buffer_def)
qed

text \<open>The initialisation, in the order of the kernel.\<close>

definition boot :: "'x ram_world_scheme driver list \<Rightarrow> u32 \<Rightarrow> (('x ram_world_scheme, 'a) buf_state_scheme, unit) op" where
  "boot rs w = sbind device_init (\<lambda>_. sbind (install_drivers rs) (\<lambda>_. sbind ramdisk_init (\<lambda>_. buffer_init w)))"

lemma boot_ram:
  assumes "length (ramdisks (world s)) = 4" "buffers s = []" "buffer_ptr s = KERNEL_BUFFER_MEM"
    "buffer_data s = KERNEL_BUFFER_MEM + KERNEL_BUFFER_SIZE - BLOCK_SIZE" "w \<noteq> 0"
    and k: "length rs < 60" and r: "\<forall>r\<in>set rs. other_driver r"
  shows "\<exists>s'. boot rs w s = Inr ((), s') \<and>
    ram_store s' \<and> has_room s' \<and> list_empty (heap s') (wait_list s') = Inr True \<and>
    (\<forall>d. ram_disk s' d \<longleftrightarrow> int (length rs) < d \<and> d \<le> int (length rs) + 4) \<and>
    (\<forall>d. int (length rs) < d \<longrightarrow> d \<le> int (length rs) + 4 \<longrightarrow> disk_ptr s' d = word_of_int (d - 1 - int (length rs)))"
proof -
  let ?k = "int (length rs)" and ?s1 = "s\<lparr>devices := devs []\<rparr>" and ?s2 = "s\<lparr>devices := devs rs\<rparr>"
  have 1: "device_init s = Inr ((), ?s1)"
    by (simp add: device_init_def devs_def null_dev_def DEVICE_NR_def)
  have real: "\<forall>r\<in>set rs. real_driver r" using r by (simp add: other_driver_def)
  have 2: "install_drivers rs ?s1 = Inr ((), ?s2)"
    using install_drivers_devs [of ?s1 "[]" rs] real k by simp
  obtain rw where 3: "ramdisk_init ?s2 = Inr ((), ?s2\<lparr>world := rw, devices := devs (rs @ ram_drivers)\<rparr>)" "ram_ok rw"
    using boot_disks [of ?s2 rs] real k assms(1) by auto
  let ?s' = "s\<lparr>devices := devs (rs @ ram_drivers), world := rw, free_list := [], wait_list := w, heap := list_init (heap s) w,
     hash_table := replicate (unat HASH_COUNT) []\<rparr>"
  have run: "boot rs w s = Inr ((), ?s')"
    by (simp add: boot_def 1 2 3 buffer_init_def)
  have dv: "devices ?s' = devs (rs @ ram_drivers)" by simp
  note D = ram_disk_devs [OF dv k r]
  have c: "cache_ok ?s'" "hashed ?s' = {}" "has_room ?s'" using assms by (simp_all add: empty_cache_ok)
  have "ram_store ?s'"
    unfolding store_ok_def
  proof (intro conjI allI impI)
    show "cache_ok ?s'" "ram_ok (world ?s')" using c 3(2) by simp_all
    show "a = b" if "ram_disk ?s' a" "ram_disk ?s' b" "disk_ptr ?s' a = disk_ptr ?s' b" for a b
    proof -
      have ab: "?k < a" "a \<le> ?k + 4" "?k < b" "b \<le> ?k + 4" using that by (simp_all only: D(1))
      have "uint (word_of_int (a - 1 - ?k) :: u32) = uint (word_of_int (b - 1 - ?k) :: u32)"
        using that(3) unfolding D(2) [OF ab(1,2)] D(2) [OF ab(3,4)] by (rule arg_cong)
      moreover have "uint (word_of_int (c - 1 - ?k) :: u32) = c - 1 - ?k" if "?k < c" "c \<le> ?k + 4" for c
        using that by (intro uint_of_int_32) simp_all
      ultimately show ?thesis using ab by simp
    qed
  qed (simp only: c(2) ball_empty)
  moreover have "list_empty (heap ?s') (wait_list ?s') = Inr True"
    using assms(5) by (simp add: list_empty_def list_init_def get_next_def lhead_def ltail_def)
  ultimately show ?thesis
    using run c(3) D by (intro exI [of _ ?s'] conjI allI impI)
qed

text \<open>C34: After the initialisation in the order of the kernel, that is of the table of the devices, then of the drivers of
other devices (the console, the keyboard, the serial ports, the IDE disks and their partitions, which are any list of at
most 59 calls of \<open>device\_install\<close> here), then of the memory disks and of the buffer cache, the cache invariant
holds, a buffer is available, no task waits for one, and the four devices after those of the other drivers are
four different memory disks, and the only ones.\<close>

theorem boot_store_ok:
  assumes "length (ramdisks (world s)) = 4" "buffers s = []" "buffer_ptr s = KERNEL_BUFFER_MEM"
    "buffer_data s = KERNEL_BUFFER_MEM + KERNEL_BUFFER_SIZE - BLOCK_SIZE" "w \<noteq> 0"
    "length rs < 60" "\<forall>r\<in>set rs. other_driver r"
  shows "\<exists>s'. sbind device_init (\<lambda>_. sbind (install_drivers rs) (\<lambda>_. sbind ramdisk_init (\<lambda>_. buffer_init w))) s = Inr ((), s') \<and>
    ram_store s' \<and> has_room s' \<and> list_empty (heap s') (wait_list s') = Inr True \<and>
    (\<forall>d. ram_disk s' d \<longleftrightarrow> int (length rs) < d \<and> d \<le> int (length rs) + 4) \<and>
    (\<forall>d. int (length rs) < d \<longrightarrow> d \<le> int (length rs) + 4 \<longrightarrow> disk_ptr s' d = word_of_int (d - 1 - int (length rs)))"
  using boot_ram [OF assms] unfolding boot_def .

definition cold_state :: "ram_world buf_state" where
  "cold_state = \<lparr>p_trace = [], p_dev = (\<lambda>_ _. 0), c_if = False, handler_table = [], idt = [],
     task_table = [], pcb = undefined, heap = (\<lambda>_. \<lparr>n_prev = 0, n_next = 0\<rparr>),
     block_list = 0, sleep_list = 0, idle_task = 0, current = 0, jiffies = 0, beeping = 0, cr3_reg = 0, tss_esp0 = 0,
     devices = [], world = \<lparr>rmem = (\<lambda>_. 0), ramdisks = replicate 4 \<lparr>rd_start = 0, rd_size = 0\<rparr>\<rparr>, request_addr = 0x20000,
     buffers = [], buffer_ptr = KERNEL_BUFFER_MEM, buffer_data = KERNEL_BUFFER_MEM + KERNEL_BUFFER_SIZE - BLOCK_SIZE,
     buffer_mem = (\<lambda>_. 0xcc), free_list = [], wait_list = 0, hash_table = []\<rparr>"

text \<open>The console (here without its function) and an IDE disk whose driver answers nothing, so that the first memory disk is the device 3.\<close>

definition drivers0 :: "ram_world driver list" where
  "drivers0 =
    [\<lparr>dr_type = DEV_CHAR, dr_subtype = DEV_CONSOLE, dr_ptr = 0, dr_name = [0x63, 0x6f, 0x6e, 0x73, 0x6f, 0x6c, 0x65], dr_parent = 0,
       dr_ioctl = None, dr_read = None, dr_write = None\<rparr>,
     \<lparr>dr_type = DEV_BLOCK, dr_subtype = DEV_IDE_DISK, dr_ptr = 0x30000, dr_name = [0x68, 0x64, 0x61], dr_parent = 0,
       dr_ioctl = Some (\<lambda>_ _ _ w. Inr (0, w)), dr_read = None, dr_write = None\<rparr>]"

lemma drivers0_ok: "length drivers0 = 2" "\<forall>r\<in>set drivers0. other_driver r"
  by (simp_all add: drivers0_def other_driver_def real_driver_def DEV_CHAR_def DEV_BLOCK_def DEV_NULL_def)

theorem boot_store_ok_witness:
  "\<exists>s'. boot drivers0 0x700 cold_state = Inr ((), s') \<and> ram_store s' \<and> ram_disk s' 3 \<and> \<not> ram_disk s' 2"
proof -
  have "length (ramdisks (world cold_state)) = 4" "buffers cold_state = []" "buffer_ptr cold_state = KERNEL_BUFFER_MEM"
    "buffer_data cold_state = KERNEL_BUFFER_MEM + KERNEL_BUFFER_SIZE - BLOCK_SIZE" "(0x700 :: u32) \<noteq> 0" "length drivers0 < 60"
    by (simp_all add: cold_state_def drivers0_ok)
  from boot_store_ok [OF this drivers0_ok(2)] show ?thesis unfolding boot_def [symmetric] by (auto simp: drivers0_ok(1))
qed

text \<open>The first memory disk after the initialisation.\<close>

lemma booted:
  obtains s where "boot drivers0 0x700 cold_state = Inr ((), s)"
    "ram_store s" "has_room s" "list_empty (heap s) (wait_list s) = Inr True" "ram_on_disk s 3 0" "ram_disk s 3" "disk_ptr s 3 = 0"
proof -
  have "length (ramdisks (world cold_state)) = 4" "buffers cold_state = []" "buffer_ptr cold_state = KERNEL_BUFFER_MEM"
    "buffer_data cold_state = KERNEL_BUFFER_MEM + KERNEL_BUFFER_SIZE - BLOCK_SIZE" "(0x700 :: u32) \<noteq> 0" "length drivers0 < 60"
    by (simp_all add: cold_state_def drivers0_ok)
  from boot_ram [OF this drivers0_ok(2)] obtain s where s: "boot drivers0 0x700 cold_state = Inr ((), s)"
    "ram_store s" "has_room s" "list_empty (heap s) (wait_list s) = Inr True" "ram_disk s 3" "disk_ptr s 3 = 0"
    by (auto simp: drivers0_ok(1))
  then have "ram_on_disk s 3 0" by (simp add: on_disk_def ram_blocks_def)
  with s that show ?thesis by blast
qed

subsection \<open>Reading and writing blocks\<close>

abbreviation ram_same :: "('x ram_world_scheme, 'a) buf_state_scheme \<Rightarrow> ('x ram_world_scheme, 'a) buf_state_scheme \<Rightarrow> bool" where
  "ram_same \<equiv> same_disks ramdisk_read ramdisk_write"

lemma bread_ram:
  assumes s: "ram_store s" and d: "ram_on_disk s dev block" and room: "cached_at s dev block \<noteq> None \<or> has_room s"
  shows "\<exists>p s'. bread dev block s = Inr (p, s') \<and> ram_store s' \<and> ram_same s s' \<and> p \<in> hashed s' \<and> has_key s' dev block p \<and>
    b_data (buf_at s' p) = view ram_content s dev block \<and> view ram_content s' = view ram_content s \<and>
    (p \<in> hashed s \<longrightarrow> has_key s dev block p) \<and> others_kept p s s'"
proof (cases "cached_at s dev block")
  case None
  then show ?thesis using ramstore.bread_miss [OF s d None] room by blast
next
  case (Some p)
  note cok = store_okD(1) [OF s]
  have p: "p \<in> hashed s" "has_key s dev block p" using Some cached_at_iff [OF cok] by simp_all
  let ?bf = "(buf_at s p)\<lparr>b_count := b_count (buf_at s p) + 1\<rparr>"
  have v: "valid_buf s p" "0 < b_count (buf_at s p)" "b_valid (buf_at s p)" using hashedD [OF cok p(1)] by simp_all
  have len: "length (b_data (buf_at s p)) = 1024" using cache_okD(5) [OF cok] v(1) by (simp add: valid_buf_def buf_at_def)
  have t: "ram_store (touch p ?bf s)" "view ram_content (touch p ?bf s) = (view ram_content s)
      (b_dev ?bf := (view ram_content s (b_dev ?bf))(b_block ?bf := b_data ?bf))"
    using touch_store_ok [OF s p(1), of ?bf] len v by auto
  have old: "view ram_content s dev block = b_data (buf_at s p)" using Some by (simp add: view_def)
  then have "view ram_content (touch p ?bf s) = view ram_content s"
    using t(2) p(2) by (auto simp: has_key_def fun_upd_idem)
  then show ?thesis
    using bread_hit [OF cok Some] t(1) p old v others_kept_touch [OF cok p(1), of ?bf] by (intro exI [of _ p] exI [of _ "touch p ?bf s"]) (auto simp: has_key_def buf_at_change same_disks_touch)
qed

text \<open>C17: Reading a block of a memory disk through the cache returns its current content: \<open>bread\<close> succeeds when the block
is cached or a buffer is available, the buffer it returns holds the block as it is seen through the cache, no block
of any memory disk changes, and neither does any other buffer in the cache, whose blocks may be of any devices. The
blocks are those that the driver serves: all 1024 of a disk, but for the last one of the fourth disk, on which the
assertion of \<open>ramdisk.c\<close> stops the kernel.\<close>

theorem bread_returns_view:
  assumes "ram_store s" "ram_on_disk s dev block" "cached_at s dev block \<noteq> None \<or> has_room s"
  shows "\<exists>p s'. bread dev block s = Inr (p, s') \<and> ram_store s' \<and> ram_same s s' \<and> p \<in> hashed s' \<and> has_key s' dev block p \<and>
    b_data (buf_at s' p) = view ram_content s dev block \<and> view ram_content s' = view ram_content s \<and>
    others_kept p s s'"
  using bread_ram [OF assms] by blast

lemma brelease_ram:
  assumes s: "ram_store s" and p: "p \<in> hashed s" and dk: "ram_disk s (b_dev (buf_at s p))"
    and wl: "list_empty (heap s) (wait_list s) = Inr True"
  shows "\<exists>s'. brelease p s = Inr ((), s') \<and> ram_store s' \<and> ram_same s s' \<and>
    (cached_at s' (b_dev (buf_at s p)) (b_block (buf_at s p)) \<noteq> None \<or> has_room s') \<and>
    (\<forall>d b. ram_disk s d \<longrightarrow> view ram_content s' d b = view ram_content s d b) \<and> others_kept p s s'"
proof (cases "b_count (buf_at s p) = 1")
  case True
  then show ?thesis using ramstore.brelease_last [OF s p dk True wl] by blast
next
  case False
  then have "1 < b_count (buf_at s p)" using hashedD(2) [OF store_okD(1) [OF s] p] by simp
  then show ?thesis using ramstore.brelease_shared [OF s p] by force
qed

text \<open>C19: Releasing the buffer of a block of a memory disk loses nothing: \<open>brelease\<close> succeeds when no task waits for a
buffer (C29 shows what happens otherwise), every block of every memory disk is seen as before, every other buffer in
the cache, of whatever device, stays there unchanged, and when the last user releases the buffer the disk
itself holds the data that the buffer had (written back if it was dirty).\<close>

theorem brelease_keeps_view:
  assumes s: "ram_store s" and p: "p \<in> hashed s" and dk: "ram_disk s (b_dev (buf_at s p))"
    and wl: "list_empty (heap s) (wait_list s) = Inr True"
  shows "\<exists>s'. brelease p s = Inr ((), s') \<and> ram_store s' \<and> ram_same s s' \<and>
    (\<forall>d b. ram_disk s d \<longrightarrow> view ram_content s' d b = view ram_content s d b) \<and> others_kept p s s' \<and>
    (b_count (buf_at s p) = 1 \<longrightarrow> p \<notin> hashed s' \<and>
       ram_content (world s') (disk_ptr s' (b_dev (buf_at s p))) (b_block (buf_at s p)) = b_data (buf_at s p))"
proof (cases "b_count (buf_at s p) = 1")
  case True
  note cok = store_okD(1) [OF s]
  let ?d = "b_dev (buf_at s p)" and ?b = "b_block (buf_at s p)"
  obtain s' where s': "brelease p s = Inr ((), s')" "ram_store s'" "ram_same s s'" "hashed s' = hashed s - {p}" "cached_at s' ?d ?b = None"
    "\<forall>d b. ram_disk s d \<longrightarrow> view ram_content s' d b = view ram_content s d b" "others_kept p s s'"
    using ramstore.brelease_last [OF s p dk True wl] by blast
  have "cached_at s ?d ?b = Some p" using p by (simp add: cached_at_iff [OF cok] has_key_def)
  then have "view ram_content s' ?d ?b = b_data (buf_at s p)" using s'(6) dk by (simp add: view_def)
  then show ?thesis using s' by (auto simp: view_def)
next
  case False
  then have "1 < b_count (buf_at s p)" using hashedD(2) [OF store_okD(1) [OF s] p] by simp
  then show ?thesis using ramstore.brelease_shared [OF s p] False by auto
qed

theorem bread_returns_view_witness:
  "\<exists>s p s'. boot drivers0 0x700 cold_state = Inr ((), s) \<and>
    bread 3 0 s = Inr (p, s') \<and> ram_store s' \<and> b_data (buf_at s' p) = view ram_content s 3 0"
proof -
  obtain s where s: "boot drivers0 0x700 cold_state = Inr ((), s)"
    "ram_store s" "has_room s" "ram_on_disk s 3 0" "ram_disk s 3" by (rule booted)
  with bread_returns_view [OF s(2,4)] show ?thesis by blast
qed

theorem brelease_keeps_view_witness:
  "\<exists>s p s' s''. boot drivers0 0x700 cold_state = Inr ((), s) \<and>
    bread 3 0 s = Inr (p, s') \<and> brelease p s' = Inr ((), s'') \<and> ram_store s''"
proof -
  obtain s where s: "boot drivers0 0x700 cold_state = Inr ((), s)"
    "ram_store s" "has_room s" "list_empty (heap s) (wait_list s) = Inr True" "ram_on_disk s 3 0" "ram_disk s 3" by (rule booted)
  obtain p s' where s': "bread 3 0 s = Inr (p, s')" "ram_store s'" "ram_same s s'" "p \<in> hashed s'" "has_key s' 3 0 p"
    using bread_ram [OF s(2,5)] s(3) by blast
  have "list_empty (heap s') (wait_list s') = Inr True" using s(4) s'(3) by (simp add: same_disks_def)
  moreover have "ram_disk s' (b_dev (buf_at s' p))" using s'(3,5) s(6) by (simp add: same_disks_def has_key_def)
  ultimately show ?thesis using brelease_keeps_view [OF s'(2,4)] s(1) s'(1) by blast
qed

text \<open>C8: What is written is read back: reading a block of a memory disk, storing new data in its buffer, marking it
dirty, releasing the buffer and reading the block again gives the new data, whether the block was cached
or not and whether the buffer was written back or not; every other block of every memory disk, and every buffer of the
cache for another block, of whatever device, is as before. This is for the blocks that the driver serves (all but the
last one of the fourth disk), when the block is cached or a buffer is available, and when no task waits for
a buffer; the caller is alone, so that no lock and no queue of requests makes it wait.\<close>

theorem write_then_read:
  assumes s: "ram_store s" and d: "ram_on_disk s dev block" and room: "cached_at s dev block \<noteq> None \<or> has_room s"
    and wl: "list_empty (heap s) (wait_list s) = Inr True" and xs: "length xs = 1024"
  shows "\<exists>q s'. sbind (bread dev block) (\<lambda>p. sbind (upd_buf p (\<lambda>b. b\<lparr>b_data := xs, b_dirty := True\<rparr>)) (\<lambda>_.
      sbind (brelease p) (\<lambda>_. bread dev block))) s = Inr (q, s') \<and> ram_store s' \<and> b_data (buf_at s' q) = xs \<and>
    (\<forall>d b. ram_disk s d \<longrightarrow> (d, b) \<noteq> (dev, block) \<longrightarrow> view ram_content s' d b = view ram_content s d b) \<and>
    (\<forall>r\<in>hashed s. \<not> has_key s dev block r \<longrightarrow> r \<in> hashed s' \<and> buf_at s' r = buf_at s r)"
proof -
  obtain p s1 where 1: "bread dev block s = Inr (p, s1)" "ram_store s1" "ram_same s s1" "p \<in> hashed s1" "has_key s1 dev block p"
    "view ram_content s1 = view ram_content s" "p \<in> hashed s \<longrightarrow> has_key s dev block p" "others_kept p s s1"
    using bread_ram [OF s d room] by blast
  note cok1 = store_okD(1) [OF 1(2)]
  define bf where "bf = (buf_at s1 p)\<lparr>b_data := xs, b_dirty := True\<rparr>"
  define s2 where "s2 = touch p bf s1"
  have v: "valid_buf s1 p" "0 < b_count (buf_at s1 p)" "b_valid (buf_at s1 p)" using hashedD [OF cok1 1(4)] by simp_all
  have key: "b_dev bf = dev" "b_block bf = block" using 1(5) by (simp_all add: bf_def has_key_def)
  have 2: "ram_store s2" "view ram_content s2 = (view ram_content s)(dev := (view ram_content s dev)(block := xs))"
    using touch_store_ok [OF 1(2,4), of bf] v xs key 1(6) by (auto simp: s2_def bf_def)
  have at2: "buf_at s2 p = bf" using v(1) by (simp add: s2_def buf_at_change)
  have same2: "ram_same s s2" using same_disks_trans [OF 1(3) same_disks_touch] by (simp add: s2_def)
  have wl2: "list_empty (heap s2) (wait_list s2) = Inr True" using wl same2 by (simp add: same_disks_def)
  have p2: "p \<in> hashed s2" using 1(4) by (simp add: s2_def)
  have dk2: "ram_disk s2 (b_dev (buf_at s2 p))" using d same2 by (simp add: at2 key same_disks_def on_disk_def)
  obtain s3 where 3: "brelease p s2 = Inr ((), s3)" "ram_store s3" "ram_same s2 s3" "cached_at s3 dev block \<noteq> None \<or> has_room s3"
    "\<forall>d b. ram_disk s2 d \<longrightarrow> view ram_content s3 d b = view ram_content s2 d b" "others_kept p s2 s3"
    using brelease_ram [OF 2(1) p2 dk2 wl2] by (auto simp: at2 key)
  have same3: "ram_same s s3" using same_disks_trans [OF same2 3(3)] .
  have d3: "ram_on_disk s3 dev block" using d same_disks_on_disk [OF same3] by simp
  obtain q s4 where 4: "bread dev block s3 = Inr (q, s4)" "ram_store s4" "b_data (buf_at s4 q) = view ram_content s3 dev block"
    "view ram_content s4 = view ram_content s3" "q \<in> hashed s3 \<longrightarrow> has_key s3 dev block q" "others_kept q s3 s4"
    using bread_ram [OF 3(2) d3 3(4)] by blast
  have "others_kept p s1 s2" unfolding s2_def by (rule others_kept_touch [OF cok1 1(4)])
  then have oth: "others_kept p s s3" using others_kept_trans [OF others_kept_trans [OF 1(8)] 3(6)] by blast
  have "r \<in> hashed s4 \<and> buf_at s4 r = buf_at s r" if r: "r \<in> hashed s" "\<not> has_key s dev block r" for r
  proof -
    have 5: "r \<in> hashed s3" "buf_at s3 r = buf_at s r" using oth r 1(7) by (auto simp: others_kept_def)
    then have "r \<noteq> q" using 4(5) r(2) by (auto simp: has_key_def)
    then show ?thesis using 4(6) 5 by (simp add: others_kept_def)
  qed
  note frame = this
  have disk: "ram_disk s2 d = ram_disk s d" for d using same2 by (simp add: same_disks_def)
  have "upd_buf p (\<lambda>b. b\<lparr>b_data := xs, b_dirty := True\<rparr>) s1 = Inr ((), s2)"
    using v(1) by (simp add: upd_buf_touch s2_def bf_def)
  then have "sbind (bread dev block) (\<lambda>p. sbind (upd_buf p (\<lambda>b. b\<lparr>b_data := xs, b_dirty := True\<rparr>)) (\<lambda>_.
      sbind (brelease p) (\<lambda>_. bread dev block))) s = Inr (q, s4)" by (simp add: 1(1) 3(1) 4(1))
  moreover have "b_data (buf_at s4 q) = xs" using 4(3) 3(5) 2(2) d by (simp add: disk on_disk_def)
  moreover have "view ram_content s4 d b = view ram_content s d b" if "ram_disk s d" "(d, b) \<noteq> (dev, block)" for d b
    using 4(4) 3(5) 2(2) that by (auto simp: disk)
  ultimately show ?thesis using 4(2) frame by blast
qed

theorem write_then_read_witness:
  "\<exists>s q s'. boot drivers0 0x700 cold_state = Inr ((), s) \<and>
    sbind (bread 3 0) (\<lambda>p. sbind (upd_buf p (\<lambda>b. b\<lparr>b_data := replicate 1024 7, b_dirty := True\<rparr>)) (\<lambda>_.
      sbind (brelease p) (\<lambda>_. bread 3 0))) s = Inr (q, s') \<and> b_data (buf_at s' q) = replicate 1024 7"
proof -
  obtain s where s: "boot drivers0 0x700 cold_state = Inr ((), s)"
    "ram_store s" "has_room s" "list_empty (heap s) (wait_list s) = Inr True" "ram_on_disk s 3 0" "ram_disk s 3" by (rule booted)
  with write_then_read [OF s(2,5) _ s(4), of "replicate 1024 7"] show ?thesis by simp blast
qed

end
