(* ===== verification/Mutex.thy ===== *)
theory Mutex
  imports Tasks
begin

text \<open>
  The mutexes and the reentrant locks of \<open>src/src/kernel/mutex.c\<close>. A mutex is known by its address; its
  list of waiters lies 4 bytes further, and the list is one of those of the scheduler (\<open>Tasks\<close>). The
  loop of \<open>mutex_lock\<close> is cut where the task is blocked: \<open>mutex_attempt\<close> is one round of it, which a
  task runs when it enters the loop and every time it is scheduled again. The threads that use a mutex
  are a transition system over the steps of the kernel.
\<close>

record msched = sched +
  mutex_value :: "u32 \<Rightarrow> bool"
  lock_holder :: "u32 \<Rightarrow> u32"
  lock_repeat :: "u32 \<Rightarrow> u32"

definition waiters :: "u32 \<Rightarrow> u32" where
  "waiters m = m + 4"

definition set_mutex :: "u32 \<Rightarrow> bool \<Rightarrow> ('a msched_scheme, unit) op" where
  "set_mutex m b = smodify (\<lambda>s. s\<lparr>mutex_value := (mutex_value s)(m := b)\<rparr>)"

definition mutex_init :: "u32 \<Rightarrow> ('a msched_scheme, unit) op" where
  "mutex_init m = sbind (set_mutex m False) (\<lambda>_. smodify (\<lambda>s. s\<lparr>heap := list_init (heap s) (waiters m)\<rparr>))"

text \<open>One round of the loop: the value tells whether the task has the mutex; otherwise it is blocked.\<close>

definition mutex_attempt :: "u32 \<Rightarrow> ('a msched_scheme, bool) op" where
  "mutex_attempt m =
     sbind (sget (\<lambda>s. mutex_value s m)) (\<lambda>v.
     if v then sbind (sget current) (\<lambda>cur. sbind (task_block cur (waiters m) TASK_BLOCKED) (\<lambda>_. sret False))
     else sbind (set_mutex m True) (\<lambda>_. sret True))"

definition mutex_lock :: "u32 \<Rightarrow> ('a msched_scheme, unit) op" where
  "mutex_lock m =
     sbind interrupt_disable (\<lambda>intr.
     sbind (mutex_attempt m) (\<lambda>got. if got then set_interrupt_state intr else sfail Blocked))"

definition mutex_unlock :: "u32 \<Rightarrow> ('a msched_scheme, unit) op" where
  "mutex_unlock m =
     sbind interrupt_disable (\<lambda>intr.
     sbind (sget (\<lambda>s. mutex_value s m)) (\<lambda>v.
     sbind (sensure v) (\<lambda>_.
     sbind (set_mutex m False) (\<lambda>_.
     sbind (\<lambda>s. rbind (list_empty (heap s) (waiters m)) (\<lambda>e. Inr (e, s))) (\<lambda>e.
     sbind (if e then sret ()
            else sbind (\<lambda>s. rbind (get_prev (heap s) (ltail (waiters m))) (\<lambda>n. Inr (node_task n, s))) (\<lambda>task.
                 sbind (get_task task) (\<lambda>t.
                 sbind (sensure (t_magic t = ONIX_MAGIC)) (\<lambda>_.
                 sbind (task_unblock task) (\<lambda>_. task_yield))))) (\<lambda>_.
     set_interrupt_state intr))))))"

definition reentrant_init :: "u32 \<Rightarrow> ('a msched_scheme, unit) op" where
  "reentrant_init l =
     sbind (smodify (\<lambda>s. s\<lparr>lock_holder := (lock_holder s)(l := 0), lock_repeat := (lock_repeat s)(l := 0)\<rparr>)) (\<lambda>_.
     mutex_init (l + 4))"

definition set_holder :: "u32 \<Rightarrow> u32 \<Rightarrow> ('a msched_scheme, unit) op" where
  "set_holder l t = smodify (\<lambda>s. s\<lparr>lock_holder := (lock_holder s)(l := t)\<rparr>)"

definition set_repeat :: "u32 \<Rightarrow> u32 \<Rightarrow> ('a msched_scheme, unit) op" where
  "set_repeat l n = smodify (\<lambda>s. s\<lparr>lock_repeat := (lock_repeat s)(l := n)\<rparr>)"

definition reentrant_lock :: "u32 \<Rightarrow> ('a msched_scheme, unit) op" where
  "reentrant_lock l =
     sbind (sget current) (\<lambda>cur.
     sbind (sget (\<lambda>s. lock_holder s l)) (\<lambda>h.
     if h \<noteq> cur then
       sbind (mutex_lock (l + 4)) (\<lambda>_.
       sbind (set_holder l cur) (\<lambda>_.
       sbind (sget (\<lambda>s. lock_repeat s l)) (\<lambda>n.
       sbind (sensure (n = 0)) (\<lambda>_. set_repeat l 1))))
     else sbind (sget (\<lambda>s. lock_repeat s l)) (\<lambda>n. set_repeat l (n + 1))))"

definition reentrant_unlock :: "u32 \<Rightarrow> ('a msched_scheme, unit) op" where
  "reentrant_unlock l =
     sbind (sget current) (\<lambda>cur.
     sbind (sget (\<lambda>s. lock_holder s l)) (\<lambda>h.
     sbind (sensure (h = cur)) (\<lambda>_.
     sbind (sget (\<lambda>s. lock_repeat s l)) (\<lambda>n.
     sbind (set_repeat l (n - 1)) (\<lambda>_.
     if n - 1 = 0 then sbind (set_holder l 0) (\<lambda>_. mutex_unlock (l + 4)) else sret ())))))"

subsection \<open>What the scheduler leaves alone\<close>

text \<open>No operation of the scheduler changes the fields that a component adds to its state.\<close>

definition keeps :: "('a sched_scheme, 'b) op \<Rightarrow> bool" where
  "keeps f \<longleftrightarrow> (\<forall>s x s'. f s = Inr (x, s') \<longrightarrow> sched.more s' = sched.more s)"

lemma keepsD: "keeps f \<Longrightarrow> f s = Inr (x, s') \<Longrightarrow> sched.more s' = sched.more s"
  by (simp add: keeps_def)

named_theorems keeps_intro \<open>operations that keep the fields of other components\<close>

lemma keeps_bind [keeps_intro]: "keeps m \<Longrightarrow> (\<And>x. keeps (f x)) \<Longrightarrow> keeps (sbind m f)"
  unfolding keeps_def by (simp add: rbind_eq_Inr split: prod.splits) metis

lemma keeps_smodify [keeps_intro]: "(\<And>s. sched.more (g s) = sched.more s) \<Longrightarrow> keeps (smodify g)"
  by (simp add: keeps_def)

lemma keeps_read [keeps_intro]: "keeps (\<lambda>s. rbind (r s) (\<lambda>n. Inr (q n s, s)))"
  by (auto simp: keeps_def rbind_eq_Inr)

lemma keeps_basic [keeps_intro]:
  "keeps (sret x)" "keeps (sfail e)" "keeps (sget g)" "keeps (sensure b)" "keeps (on_heap h)" "keeps (upd_task t k)"
  "keeps (get_task t)" "keeps (inb p)" "keeps (outb p v)" "keeps get_interrupt_state"
  by (auto simp: keeps_def on_heap_def upd_task_def get_task_def inb_def outb_def get_interrupt_state_def Let_def rbind_eq_Inr
      split: if_splits)

lemma keeps_if [keeps_intro]: "(b \<Longrightarrow> keeps f) \<Longrightarrow> (\<not> b \<Longrightarrow> keeps g) \<Longrightarrow> keeps (if b then f else g)"
  by simp

lemma keeps_sched [keeps_intro]:
  "keeps ensure_disabled" "keeps (task_search st)" "keeps (task_unblock t)" "keeps (task_activate t)" "keeps (task_switch t)"
  "keeps (ensure_detached t)"
  unfolding ensure_disabled_def task_search_def task_unblock_def task_activate_def task_switch_def ensure_detached_def Let_def
  by (intro keeps_intro; simp)+

lemma keeps_schedule [keeps_intro]: "keeps schedule" "keeps task_yield"
proof -
  show "keeps schedule" unfolding schedule_def by (intro keeps_intro)
  then show "keeps task_yield" by (simp add: task_yield_def)
qed

lemma keeps_block [keeps_intro]: "keeps (task_block t l st)" "keeps (task_sleep ms)"
  unfolding task_block_def task_sleep_def Let_def by (intro keeps_intro)+

lemma stop_or_go:
  "(if p then Some x else if q then Some x else l) = Some r \<Longrightarrow> r = x \<or> l = Some r"
  by (simp split: if_splits)

lemma lbind_Some: "lbind m f = Some r \<Longrightarrow> (\<exists>e. m = Inl e \<and> r = Inl e) \<or> (\<exists>y. m = Inr y \<and> f y = Some r)"
  by (cases m) auto

lemma keeps_weakup_loop:
  assumes "weakup_loop ptr s = Some r"
  shows "\<forall>s'. r = Inr ((), s') \<longrightarrow> sched.more s' = sched.more s"
  using _ assms
proof (rule weakup_loop.raw_induct)
  fix loop :: "u32 \<Rightarrow> 'a sched_scheme \<Rightarrow> (unit \<times> 'a sched_scheme) res option" and ptr s r
  assume IH: "\<And>ptr s r. loop ptr s = Some r \<Longrightarrow> \<forall>s'. r = Inr ((), s') \<longrightarrow> sched.more s' = sched.more s"
  let ?step = "sbind (\<lambda>s. rbind (get_next (heap s) ptr) (\<lambda>n. Inr (n, s))) (\<lambda>n.
     sbind (upd_task (node_task ptr) (\<lambda>t. t\<lparr>t_ticks := t_priority t\<rparr>)) (\<lambda>_.
     sbind (task_unblock (node_task ptr)) (\<lambda>_. sret n))) :: ('a sched_scheme, u32) op"
  assume "(if ptr = ltail (sleep_list s) then Some (Inr ((), s))
     else let task = node_task ptr
          in if t_ticks (pcb s task) > jiffies s then Some (Inr ((), s))
             else lbind (sbind (\<lambda>s. rbind (get_next (heap s) ptr) (\<lambda>n. Inr (n, s))) (\<lambda>n.
                         sbind (upd_task task (\<lambda>t. t\<lparr>t_ticks := t_priority t\<rparr>)) (\<lambda>_.
                         sbind (task_unblock task) (\<lambda>_. sret n))) s)
                   (\<lambda>r. loop (fst r) (snd r))) = Some r"
  then have "r = Inr ((), s) \<or> lbind (?step s) (\<lambda>r. loop (fst r) (snd r)) = Some r"
    unfolding Let_def by (rule stop_or_go)
  then consider "r = Inr ((), s)" | "lbind (?step s) (\<lambda>r. loop (fst r) (snd r)) = Some r"
    by blast
  then show "\<forall>s'. r = Inr ((), s') \<longrightarrow> sched.more s' = sched.more s"
  proof cases
    case 2
    have k: "keeps ?step" by (intro keeps_intro)
    from lbind_Some [OF 2] show ?thesis
    proof (elim disjE exE conjE)
      fix e assume "r = Inl e"
      then show ?thesis by simp
    next
      fix y assume y: "?step s = Inr y" "loop (fst y) (snd y) = Some r"
      have "sched.more (snd y) = sched.more s" by (rule keepsD [OF k, of s "fst y"]) (simp only: y(1) prod.collapse)
      with IH [OF y(2)] show ?thesis by (simp only:)
    qed
  qed simp
qed

lemma keeps_clock [keeps_intro]: "keeps task_weakup" "keeps (clock_handler v)"
proof -
  have "keeps (\<lambda>s. run_loop (weakup_loop ptr s))" for ptr
    unfolding keeps_def
  proof (intro allI impI)
    fix s x s'
    assume "run_loop (weakup_loop ptr s) = Inr (x, s')"
    then have "weakup_loop ptr s = Some (Inr ((), s'))" by (cases "weakup_loop ptr s") simp_all
    with keeps_weakup_loop show "sched.more s' = sched.more s" by blast
  qed
  then show "keeps task_weakup" unfolding task_weakup_def by (intro keeps_intro)
  then show "keeps (clock_handler v)"
    unfolding clock_handler_def send_eoi_def stop_beep_def by (intro keeps_intro; simp)
qed

lemma kstep_keeps: "kstep A s s' \<Longrightarrow> sched.more s' = sched.more s"
  by (erule kstepE; metis keeps_def keeps_schedule(2) keeps_block keeps_sched(3) keeps_clock(2))

lemma more_mutex: "sched.more s' = sched.more s \<Longrightarrow> mutex_value s' = mutex_value s"
  by (cases s; cases s') simp

text \<open>
  The tasks of a list \<open>l0\<close> and the tasks that do not wait, across a step of the kernel: no task is added
  to the list, and no task but the running one stops being able to run.
\<close>

definition undisturbed :: "u32 set \<Rightarrow> u32 \<Rightarrow> (u32 \<Rightarrow> u32 list) \<Rightarrow> 'a sched_scheme \<Rightarrow> 'a sched_scheme \<Rightarrow> (u32 \<Rightarrow> u32 list) \<Rightarrow> bool" where
  "undisturbed A l0 L s s' L' \<longleftrightarrow> sched_inv A L' s' \<and> set (L' l0) \<subseteq> set (L l0) \<and> sleep_list s' = sleep_list s \<and>
     block_list s' = block_list s \<and> live s' = live s \<and>
     (\<forall>t. t \<noteq> current s \<longrightarrow> \<not> waiting (t_state (pcb s t)) \<longrightarrow> \<not> waiting (t_state (pcb s' t)))"

lemma schedule_undisturbed:
  assumes "sched_inv A L s" "schedule s = Inr ((), s')"
  shows "\<exists>L'. undisturbed A l0 L s s' L' \<and> t_state (pcb s' (current s')) = TASK_RUNNING \<and>
    (\<not> waiting (t_state (pcb s (current s))) \<longrightarrow> \<not> waiting (t_state (pcb s' (current s))))"
proof -
  from schedule_ok [OF assms(1)] assms(2) obtain L' where
    L': "scheduled A L' s s'" "\<forall>l. set (L' l) \<subseteq> set (L l)" by auto
  have c: "t_state (pcb s' (chosen s)) = TASK_RUNNING" "current s' = chosen s" "same_world s s'"
    "\<forall>t. t \<noteq> current s \<longrightarrow> t \<noteq> chosen s \<longrightarrow> pcb s' t = pcb s t"
    "current s \<noteq> chosen s \<longrightarrow> pcb s' (current s) = leave (pcb s (current s))"
    using L'(1) by (simp_all add: scheduled_def)
  have "\<not> waiting (t_state (pcb s' t))" if "\<not> waiting (t_state (pcb s t))" for t
  proof (cases "t = chosen s")
    case True
    then show ?thesis using c(1) by (simp add: waiting_def)
  next
    case False
    then show ?thesis using that c(4,5) by (cases "t = current s") (auto simp: waiting_def)
  qed
  moreover have "undisturbed A l0 L s s' L'"
    unfolding undisturbed_def using L' same_world_live [OF c(3)] c(3) calculation
    by (intro conjI) (simp_all add: scheduled_def same_world_def)
  ultimately show ?thesis using c(1,2) by auto
qed

lemma undisturbed_then_schedule:
  assumes "undisturbed A l0 L s s1 L1" "schedule s1 = Inr ((), s')" "current s1 = current s"
  shows "\<exists>L'. undisturbed A l0 L s s' L' \<and> t_state (pcb s' (current s')) = TASK_RUNNING"
proof -
  have "sched_inv A L1 s1" using assms(1) by (simp add: undisturbed_def)
  from schedule_undisturbed [OF this assms(2), of l0] obtain L' where
    "undisturbed A l0 L1 s1 s' L'" "t_state (pcb s' (current s')) = TASK_RUNNING" by blast
  then show ?thesis using assms(1,3) by (intro exI [of _ L']) (auto simp: undisturbed_def)
qed

lemma kstep_undisturbed:
  assumes k: "kstep (A - {l0}) s s'" and inv: "sched_inv A L s" and run: "t_state (pcb s (current s)) = TASK_RUNNING"
    and l0: "sleep_list s \<noteq> l0"
  shows "\<exists>L'. undisturbed A l0 L s s' L' \<and> t_state (pcb s' (current s')) = TASK_RUNNING"
  using k
proof cases
  case k_yield
  then show ?thesis using schedule_undisturbed [OF inv] by (auto simp: task_yield_def)
next
  case (k_block blist st)
  have c: "current s \<in> live s" "\<not> waiting (t_state (pcb s (current s)))" using sched_invD(1) [OF inv] run by (auto simp: waiting_def)
  have bl: "blocked_on s blist \<in> A" "blocked_on s blist \<noteq> l0" using k_block(2) by auto
  from task_block_ok [OF inv c bl(1) k_block(3)] obtain h' s1 where
    s1: "s1 = s\<lparr>heap := h', pcb := (pcb s)(current s := (pcb s (current s))\<lparr>t_state := st\<rparr>)\<rparr>"
      "sched_inv A (L(blocked_on s blist := task_node (current s) # L (blocked_on s blist))) s1"
      "task_block (current s) blist st s = schedule s1"
    unfolding Let_def by auto
  have "undisturbed A l0 L s s1 (L(blocked_on s blist := task_node (current s) # L (blocked_on s blist)))"
    using s1(2) bl(2) by (simp add: undisturbed_def) (simp add: s1(1) live_def)
  from undisturbed_then_schedule [OF this, of s'] show ?thesis using k_block(1) s1(1,3) by simp
next
  case (k_unblock t)
  from task_unblock_ok [OF inv k_unblock(2,3)] k_unblock(1) obtain h' L' where
    "s' = s\<lparr>heap := h', pcb := (pcb s)(t := (pcb s t)\<lparr>t_state := TASK_READY\<rparr>)\<rparr>" "sched_inv A L' s'" "\<forall>l. set (L' l) \<subseteq> set (L l)"
    by auto
  moreover have "t \<noteq> current s" using run k_unblock(3) by (auto simp: waiting_def)
  ultimately show ?thesis using run by (intro exI [of _ L']) (auto simp: undisturbed_def waiting_def live_def)
next
  case (k_sleep ms)
  have r: "\<not> waiting (t_state (pcb s (current s)))" using run by (simp add: waiting_def)
  from task_sleep_ok [OF inv r, of ms] obtain h' g s1 L1 where
    s1: "s1 = s\<lparr>heap := h', pcb := (pcb s)(current s := g)\<rparr>" "sched_inv A (L(sleep_list s := L1)) s1" "task_sleep ms s = schedule s1"
    unfolding Let_def by blast
  have "undisturbed A l0 L s s1 (L(sleep_list s := L1))"
    using s1(2) l0 by (simp add: undisturbed_def) (simp add: s1(1) live_def)
  from undisturbed_then_schedule [OF this, of s'] show ?thesis using k_sleep s1(1,3) by simp
next
  case k_clock
  from clock_handler_split [OF inv run] obtain s3 n where
    s3: "clock_handler 0x20 s = (if t_ticks (pcb s3 (current s)) = 0 then schedule s3 else Inr ((), s3))"
    "sched_inv A (L(sleep_list s := drop n (L (sleep_list s)))) s3" "good A s3" "current s3 = current s"
    "task_table s3 = task_table s" "block_list s3 = block_list s" "sleep_list s3 = sleep_list s"
    "\<forall>t. \<not> waiting (t_state (pcb s t)) \<longrightarrow> \<not> waiting (t_state (pcb s3 t))"
    unfolding Let_def by blast
  have "undisturbed A l0 L s s3 (L(sleep_list s := drop n (L (sleep_list s))))"
    using s3(2,5-8) l0 by (simp add: undisturbed_def live_def)
  from this undisturbed_then_schedule [OF this, of s'] show ?thesis
    using k_clock s3(1,3,4) by (cases "t_ticks (pcb s3 (current s)) = 0") (auto simp: good_def)
qed

subsection \<open>The tasks that use a mutex\<close>

text \<open>
  What a task is doing with the mutex: nothing, waiting in the loop of \<open>mutex_lock\<close>, or between
  \<open>mutex_lock\<close> and \<open>mutex_unlock\<close>. A task that waits goes on with the loop when it is scheduled, before
  anything else; every other task may take any step of the kernel, but only \<open>mutex_lock\<close> puts tasks on
  the list of the waiters.
\<close>

datatype phase = Outside | Wanting | Holding

inductive mstep :: "u32 set \<Rightarrow> u32 \<Rightarrow> (u32 \<Rightarrow> phase) \<times> 'a msched_scheme \<Rightarrow> (u32 \<Rightarrow> phase) \<times> 'a msched_scheme \<Rightarrow> bool"
  for A m where
  m_get: "ph (current s) \<noteq> Holding \<Longrightarrow> mutex_attempt m s = Inr (True, s') \<Longrightarrow>
          mstep A m (ph, s) (ph(current s := Holding), s')"
| m_wait: "ph (current s) \<noteq> Holding \<Longrightarrow> mutex_attempt m s = Inr (False, s') \<Longrightarrow>
          mstep A m (ph, s) (ph(current s := Wanting), s')"
| m_unlock: "ph (current s) = Holding \<Longrightarrow> mutex_unlock m s = Inr ((), s') \<Longrightarrow>
          mstep A m (ph, s) (ph(current s := Outside), s')"
| m_other: "ph (current s) \<noteq> Wanting \<Longrightarrow> kstep (A - {waiters m}) s s' \<Longrightarrow> mstep A m (ph, s) (ph, s')"

inductive_cases mstepE: "mstep A m (ph, s) (ph', s')"

text \<open>
  The invariant: the mutex is taken exactly while one task holds it, the tasks on the list of the
  waiters are in the loop, and if there are any, then the mutex is taken or one of the tasks in the
  loop is able to run.
\<close>

definition mutex_inv :: "u32 set \<Rightarrow> u32 \<Rightarrow> (u32 \<Rightarrow> phase) \<times> 'a msched_scheme \<Rightarrow> bool" where
  "mutex_inv A m = (\<lambda>(ph, s). \<exists>L. sched_inv A L s \<and> t_state (pcb s (current s)) = TASK_RUNNING \<and>
     waiters m \<in> A \<and> waiters m \<noteq> 0 \<and> sleep_list s \<noteq> waiters m \<and> block_list s \<noteq> waiters m \<and>
     mutex_value s m = (\<exists>t. ph t = Holding) \<and> (\<forall>t u. ph t = Holding \<longrightarrow> ph u = Holding \<longrightarrow> t = u) \<and>
     (\<forall>n\<in>set (L (waiters m)). ph (node_task n) = Wanting) \<and>
     (\<forall>t. ph t \<noteq> Outside \<longrightarrow> t \<in> live s) \<and>
     (L (waiters m) \<noteq> [] \<longrightarrow> mutex_value s m \<or> (\<exists>t. ph t = Wanting \<and> \<not> waiting (t_state (pcb s t)))))"

lemma mutex_set_inv [simp]: "sched_inv A L (s\<lparr>mutex_value := v\<rparr>) = sched_inv A L s"
  by (simp add: sched_inv_def live_def)

lemma live_mutex [simp]: "live (s\<lparr>mutex_value := v\<rparr>) = live s"
  by (simp add: live_def)

lemma attempt_free:
  "\<not> mutex_value s m \<Longrightarrow> mutex_attempt m s = Inr (True, s\<lparr>mutex_value := (mutex_value s)(m := True)\<rparr>)"
  by (simp add: mutex_attempt_def set_mutex_def)

lemma attempt_taken:
  assumes inv: "sched_inv A L s" and run: "t_state (pcb s (current s)) = TASK_RUNNING"
    and m: "waiters m \<in> A" "waiters m \<noteq> 0" "sleep_list s \<noteq> waiters m" "mutex_value s m"
  shows "\<exists>s' L'. mutex_attempt m s = Inr (False, s') \<and> sched_inv A L' s' \<and> t_state (pcb s' (current s')) = TASK_RUNNING \<and>
    set (L' (waiters m)) \<subseteq> insert (task_node (current s)) (set (L (waiters m))) \<and> mutex_value s' = mutex_value s \<and>
    sleep_list s' = sleep_list s \<and> block_list s' = block_list s \<and> live s' = live s"
proof -
  have c: "current s \<in> live s" "\<not> waiting (t_state (pcb s (current s)))" using sched_invD(1) [OF inv] run by (auto simp: waiting_def)
  have bl: "blocked_on s (waiters m) = waiters m" using m(2) by (simp add: blocked_on_def)
  let ?L1 = "L(waiters m := task_node (current s) # L (waiters m))"
  have w: "waiting TASK_BLOCKED" by (simp add: waiting_def)
  from task_block_ok [OF inv c _ w, of "waiters m"] m(1) obtain h' s1 where
    s1: "s1 = s\<lparr>heap := h', pcb := (pcb s)(current s := (pcb s (current s))\<lparr>t_state := TASK_BLOCKED\<rparr>)\<rparr>"
      "sched_inv A ?L1 s1" "task_block (current s) (waiters m) TASK_BLOCKED s = schedule s1"
    unfolding Let_def bl by auto
  from schedule_ok [OF s1(2)] obtain s' where s': "schedule s1 = Inr ((), s')" by blast
  from schedule_undisturbed [OF s1(2) s', of "waiters m"] obtain L' where
    L': "undisturbed A (waiters m) ?L1 s1 s' L'" "t_state (pcb s' (current s')) = TASK_RUNNING" by blast
  have "mutex_value s' = mutex_value s1" by (rule more_mutex [OF keepsD [OF keeps_schedule(1) s']])
  moreover have "mutex_value s1 = mutex_value s" "sleep_list s1 = sleep_list s" "block_list s1 = block_list s" "live s1 = live s"
    by (simp_all add: s1(1) live_def)
  moreover have "mutex_attempt m s = Inr (False, s')" using m(4) s1(3) s' by (simp add: mutex_attempt_def)
  ultimately show ?thesis using L' unfolding undisturbed_def by (intro exI [of _ s'] exI [of _ L']) simp
qed

lemma last_link:
  assumes "dlist h l (xs @ [n])"
  shows "get_prev h (ltail l) = Inr n"
  using dlist_links(2,4) [of h l "xs @ [n]" "[]" "lhead l # xs" n "ltail l" "[]"] assms by (simp add: get_prev_def)

lemma disable_twice: "\<not> c_if s \<Longrightarrow> interrupt_disable s = Inr (False, s)" "\<not> c_if s \<Longrightarrow> set_interrupt_state False s = Inr ((), s)"
  by (cases s; simp add: interrupt_disable_def set_interrupt_state_def)+

text \<open>Releasing the mutex when no task waits, and when \<open>t\<close> waits for the longest time.\<close>

lemma unlock_nobody:
  assumes inv: "sched_inv A L s" and m: "waiters m \<in> A" "L (waiters m) = []" "mutex_value s m"
  shows "mutex_unlock m s = Inr ((), s\<lparr>mutex_value := (mutex_value s)(m := False)\<rparr>)"
proof -
  have "list_empty (heap s) (waiters m) = Inr True" using list_empty_dlist [OF sched_invD(7) [OF inv m(1)]] m(2) by simp
  then show ?thesis
    using m(3) sched_invD(4) [OF inv] by (simp add: mutex_unlock_def set_mutex_def disable_twice)
qed

lemma unlock_wakes:
  assumes inv: "sched_inv A L s" and run: "t_state (pcb s (current s)) = TASK_RUNNING"
    and m: "waiters m \<in> A" "L (waiters m) = ns @ [n]" "mutex_value s m"
  shows "\<exists>s' L'. mutex_unlock m s = Inr ((), s') \<and> sched_inv A L' s' \<and> t_state (pcb s' (current s')) = TASK_RUNNING \<and>
    set (L' (waiters m)) \<subseteq> set (L (waiters m)) \<and> mutex_value s' = (mutex_value s)(m := False) \<and>
    sleep_list s' = sleep_list s \<and> block_list s' = block_list s \<and> live s' = live s \<and>
    \<not> waiting (t_state (pcb s' (node_task n)))"
proof -
  let ?s1 = "s\<lparr>mutex_value := (mutex_value s)(m := False)\<rparr>" and ?t = "node_task n"
  have dl: "dlist (heap s) (waiters m) (ns @ [n])" using sched_invD(7) [OF inv m(1)] m(2) by simp
  have t: "?t \<in> live s" "waiting (t_state (pcb s ?t))" using sched_invD(8) [OF inv m(1), of n] m(2) by simp_all
  have nz: "?t \<noteq> 0" by (rule live_nonzero [OF t(1)])
  have tc: "?t \<noteq> current s" using run t(2) by (auto simp: waiting_def)
  have inv1: "sched_inv A L ?s1" using inv by simp
  from task_unblock_ok [OF inv1, of ?t] t obtain h' L2 s2 where
    s2: "task_unblock ?t ?s1 = Inr ((), s2)" "s2 = ?s1\<lparr>heap := h', pcb := (pcb s)(?t := (pcb s ?t)\<lparr>t_state := TASK_READY\<rparr>)\<rparr>"
      "sched_inv A L2 s2" "\<forall>l. set (L2 l) \<subseteq> set (L l)" by auto
  from schedule_ok [OF s2(3)] obtain s' where s': "schedule s2 = Inr ((), s')" by blast
  from schedule_undisturbed [OF s2(3) s', of "waiters m"] obtain L' where
    L': "undisturbed A (waiters m) L2 s2 s' L'" "t_state (pcb s' (current s')) = TASK_RUNNING" by blast
  have inv': "sched_inv A L' s'" using L'(1) by (simp add: undisturbed_def)
  have val: "mutex_value s' = mutex_value s2" by (rule more_mutex [OF keepsD [OF keeps_schedule(1) s']])
  have "\<not> waiting (t_state (pcb s2 ?t))" "current s2 = current s" by (simp_all add: s2(2) waiting_def)
  with L'(1) tc have woken: "\<not> waiting (t_state (pcb s' ?t))" unfolding undisturbed_def by metis
  have "list_empty (heap s) (waiters m) = Inr False" "get_prev (heap s) (ltail (waiters m)) = Inr n"
    using list_empty_dlist [OF dl] last_link [OF dl] by simp_all
  moreover have "t_magic (pcb s ?t) = ONIX_MAGIC" using sched_invD(6) [OF inv t(1)] by blast
  ultimately have "mutex_unlock m s = set_interrupt_state False s'"
    using m(3) sched_invD(4) [OF inv] s2(1) s' nz
    by (simp add: mutex_unlock_def set_mutex_def disable_twice get_task_def task_yield_def)
  then have "mutex_unlock m s = Inr ((), s')" using sched_invD(4) [OF inv'] by (simp add: disable_twice)
  moreover have "sleep_list s2 = sleep_list s" "block_list s2 = block_list s" "live s2 = live s"
      "mutex_value s2 = (mutex_value s)(m := False)"
    by (simp_all add: s2(2) live_def)
  ultimately show ?thesis
    using L' inv' val woken s2(4) unfolding undisturbed_def by (intro exI [of _ s'] exI [of _ L']) auto
qed

text \<open>Every step keeps the invariant.\<close>

lemma mstep_inv: "mstep A m x y \<Longrightarrow> mutex_inv A m x \<Longrightarrow> mutex_inv A m y"
proof (induction rule: mstep.induct)
  case (m_get ph s s')
  then obtain L where L: "sched_inv A L s" "t_state (pcb s (current s)) = TASK_RUNNING" "waiters m \<in> A" "waiters m \<noteq> 0"
    "sleep_list s \<noteq> waiters m" "block_list s \<noteq> waiters m" "mutex_value s m = (\<exists>t. ph t = Holding)"
    "\<forall>n\<in>set (L (waiters m)). ph (node_task n) = Wanting" "\<forall>t. ph t \<noteq> Outside \<longrightarrow> t \<in> live s"
    unfolding mutex_inv_def by auto
  have free: "\<not> mutex_value s m" using attempt_taken [OF L(1-5)] m_get(2) by auto
  then have s': "s' = s\<lparr>mutex_value := (mutex_value s)(m := True)\<rparr>" using attempt_free [OF free] m_get(2) by simp
  have "node_task n \<noteq> current s" if "n \<in> set (L (waiters m))" for n
    using sched_invD(8) [OF L(1,3) that] L(2) by (auto simp: waiting_def)
  then show ?case
    using L free sched_invD(1) [OF L(1)] unfolding mutex_inv_def by (auto simp: s' intro!: exI [of _ L])
next
  case (m_wait ph s s')
  then obtain L where L: "sched_inv A L s" "t_state (pcb s (current s)) = TASK_RUNNING" "waiters m \<in> A" "waiters m \<noteq> 0"
    "sleep_list s \<noteq> waiters m" "block_list s \<noteq> waiters m" "mutex_value s m = (\<exists>t. ph t = Holding)"
    "\<forall>t u. ph t = Holding \<longrightarrow> ph u = Holding \<longrightarrow> t = u"
    "\<forall>n\<in>set (L (waiters m)). ph (node_task n) = Wanting" "\<forall>t. ph t \<noteq> Outside \<longrightarrow> t \<in> live s"
    unfolding mutex_inv_def by auto
  have taken: "mutex_value s m" using attempt_free m_wait(2) by fastforce
  from attempt_taken [OF L(1-5) taken] m_wait(2) obtain L' where
    L': "sched_inv A L' s'" "t_state (pcb s' (current s')) = TASK_RUNNING"
    "set (L' (waiters m)) \<subseteq> insert (task_node (current s)) (set (L (waiters m)))" "mutex_value s' = mutex_value s"
    "sleep_list s' = sleep_list s" "block_list s' = block_list s" "live s' = live s" by auto
  have "\<forall>n\<in>set (L' (waiters m)). (ph(current s := Wanting)) (node_task n) = Wanting" using L'(3) L(9) by auto
  moreover have "\<exists>t. (ph(current s := Wanting)) t = Holding" using L(7) taken m_wait(1) by (metis fun_upd_other)
  ultimately show ?case
    using L L' taken m_wait(1) sched_invD(1) [OF L(1)] unfolding mutex_inv_def by (auto intro!: exI [of _ L'])
next
  case (m_unlock ph s s')
  then obtain L where L: "sched_inv A L s" "t_state (pcb s (current s)) = TASK_RUNNING" "waiters m \<in> A" "waiters m \<noteq> 0"
    "sleep_list s \<noteq> waiters m" "block_list s \<noteq> waiters m" "mutex_value s m = (\<exists>t. ph t = Holding)"
    "\<forall>t u. ph t = Holding \<longrightarrow> ph u = Holding \<longrightarrow> t = u"
    "\<forall>n\<in>set (L (waiters m)). ph (node_task n) = Wanting" "\<forall>t. ph t \<noteq> Outside \<longrightarrow> t \<in> live s"
    unfolding mutex_inv_def by auto
  have taken: "mutex_value s m" using L(7) m_unlock(1) by blast
  define ph' where "ph' = ph(current s := Outside)"
  have alone: "\<forall>t. ph' t \<noteq> Holding" using L(8) m_unlock(1) by (auto simp: ph'_def)
  have wanting: "\<forall>n\<in>set (L (waiters m)). ph' (node_task n) = Wanting" using L(9) m_unlock(1) by (auto simp: ph'_def)
  have lv: "\<forall>t. ph' t \<noteq> Outside \<longrightarrow> t \<in> live s" using L(10) by (simp add: ph'_def)
  show ?case
    unfolding ph'_def [symmetric]
  proof (cases "L (waiters m)" rule: rev_cases)
    case Nil
    then show "mutex_inv A m (ph', s')"
      using unlock_nobody [OF L(1,3) _ taken] m_unlock(2) L(1-6) alone lv unfolding mutex_inv_def by (auto intro!: exI [of _ L])
  next
    case (snoc ns n)
    from unlock_wakes [OF L(1-3) this taken] m_unlock(2) obtain L' where
      L': "sched_inv A L' s'" "t_state (pcb s' (current s')) = TASK_RUNNING" "set (L' (waiters m)) \<subseteq> set (L (waiters m))"
      "mutex_value s' = (mutex_value s)(m := False)" "sleep_list s' = sleep_list s" "block_list s' = block_list s"
      "live s' = live s" "\<not> waiting (t_state (pcb s' (node_task n)))" by auto
    have "ph' (node_task n) = Wanting" using wanting snoc by simp
    moreover have "\<forall>n\<in>set (L' (waiters m)). ph' (node_task n) = Wanting" using wanting L'(3) by blast
    ultimately show "mutex_inv A m (ph', s')"
      using L(3-6) L' alone lv unfolding mutex_inv_def by (intro case_prodI exI [of _ L']) auto
  qed
next
  case (m_other ph s s')
  then obtain L where L: "sched_inv A L s" "t_state (pcb s (current s)) = TASK_RUNNING" "waiters m \<in> A" "waiters m \<noteq> 0"
    "sleep_list s \<noteq> waiters m" "block_list s \<noteq> waiters m" "mutex_value s m = (\<exists>t. ph t = Holding)"
    "\<forall>t u. ph t = Holding \<longrightarrow> ph u = Holding \<longrightarrow> t = u"
    "\<forall>n\<in>set (L (waiters m)). ph (node_task n) = Wanting" "\<forall>t. ph t \<noteq> Outside \<longrightarrow> t \<in> live s"
    "L (waiters m) \<noteq> [] \<longrightarrow> mutex_value s m \<or> (\<exists>t. ph t = Wanting \<and> \<not> waiting (t_state (pcb s t)))"
    unfolding mutex_inv_def by auto
  from kstep_undisturbed [OF m_other(2) L(1,2,5)] obtain L' where
    L': "undisturbed A (waiters m) L s s' L'" "t_state (pcb s' (current s')) = TASK_RUNNING" by blast
  have "mutex_value s' = mutex_value s" by (rule more_mutex [OF kstep_keeps [OF m_other(2)]])
  moreover have "L' (waiters m) \<noteq> [] \<Longrightarrow> L (waiters m) \<noteq> []" using L'(1) by (auto simp: undisturbed_def)
  moreover have "\<not> waiting (t_state (pcb s' t))" if "ph t = Wanting" "\<not> waiting (t_state (pcb s t))" for t
  proof -
    have "t \<noteq> current s" using that(1) m_other(1) by auto
    then show ?thesis using that(2) L'(1) unfolding undisturbed_def by blast
  qed
  ultimately show ?case
    using L L' unfolding mutex_inv_def undisturbed_def by (auto intro!: exI [of _ L'])
qed

lemma mutex_inv_reach: "(mstep A m)\<^sup>*\<^sup>* x y \<Longrightarrow> mutex_inv A m x \<Longrightarrow> mutex_inv A m y"
  by (induction rule: rtranclp_induct) (auto dest: mstep_inv)

lemma mutex_inv_start:
  assumes "sched_inv A L s" "t_state (pcb s (current s)) = TASK_RUNNING" "waiters m \<in> A" "L (waiters m) = []"
    "sleep_list s \<noteq> waiters m" "block_list s \<noteq> waiters m" "\<not> mutex_value s m"
  shows "mutex_inv A m (\<lambda>_. Outside, s)"
proof -
  have "waiters m \<noteq> 0" using sched_invD(13) [OF assms(1)] assms(3) by auto
  then show ?thesis using assms unfolding mutex_inv_def by (auto intro!: exI [of _ L])
qed

lemma mutex_inv_runs:
  assumes "mutex_inv A m (ph, s)"
  shows "ph (current s) \<noteq> Holding \<Longrightarrow> \<exists>b s'. mutex_attempt m s = Inr (b, s')"
    "ph (current s) = Holding \<Longrightarrow> \<exists>s'. mutex_unlock m s = Inr ((), s')"
proof -
  obtain L where L: "sched_inv A L s" "t_state (pcb s (current s)) = TASK_RUNNING" "waiters m \<in> A" "waiters m \<noteq> 0"
    "sleep_list s \<noteq> waiters m" "mutex_value s m = (\<exists>t. ph t = Holding)"
    using assms unfolding mutex_inv_def by auto
  show "\<exists>b s'. mutex_attempt m s = Inr (b, s')" if "ph (current s) \<noteq> Holding"
    using attempt_taken [OF L(1-5)] attempt_free [of s m] by (cases "mutex_value s m") blast+
  show "\<exists>s'. mutex_unlock m s = Inr ((), s')" if "ph (current s) = Holding"
  proof -
    have taken: "mutex_value s m" using L(6) that by blast
    show ?thesis
      using unlock_nobody [OF L(1,3) _ taken] unlock_wakes [OF L(1-3) _ taken] by (cases "L (waiters m)" rule: rev_cases) blast+
  qed
qed

text \<open>A state to start from: the tasks of \<open>sched0\<close> and a free mutex at the address \<open>0x700\<close>.\<close>

definition mutex0 :: msched where
  "mutex0 = \<lparr>p_trace = [], p_dev = (\<lambda>_ _. 0), c_if = False, handler_table = [], idt = [],
     task_table = task_table sched0, pcb = pcb sched0, heap = list_init (heap sched0) 0x704,
     block_list = 0x500, sleep_list = 0x600, idle_task = 0x10000, current = 0x10000, jiffies = 0,
     beeping = 0, cr3_reg = 0x1000, tss_esp0 = 0, mutex_value = (\<lambda>_. False), lock_holder = (\<lambda>_. 0), lock_repeat = (\<lambda>_. 0)\<rparr>"

lemma mutex0_inv: "sched_inv {0x500, 0x600, 0x704} (\<lambda>_. []) mutex0"
proof -
  have "dlist (heap mutex0) 0x500 []" "dlist (heap mutex0) 0x600 []" "dlist (heap mutex0) 0x704 []"
    by (simp_all add: mutex0_def sched0_def dlist_def path_def list_init_def lhead_def ltail_def)
  moreover have "live mutex0 = {0x10000, 0x11000}" by (auto simp: mutex0_def sched0_def live_def)
  ultimately show ?thesis
    by (simp add: sched_inv_def) (simp add: mutex0_def sched0_def list_node_def path_def lhead_def ltail_def list_init_def
      task_node_def detached_def blank_task_def waiting_def runnable_def page_aligned_def)
qed

lemma mutex0_start:
  "t_state (pcb mutex0 (current mutex0)) = TASK_RUNNING" "waiters 0x700 \<in> {0x500, 0x600, 0x704}"
  "sleep_list mutex0 \<noteq> waiters 0x700" "block_list mutex0 \<noteq> waiters 0x700" "\<not> mutex_value mutex0 0x700"
  by (simp_all add: mutex0_def sched0_def waiters_def)

subsection \<open>Properties\<close>

text \<open>C3: A mutex excludes: whatever the tasks do, in every reachable state at most one task is between
\<open>mutex_lock\<close> and \<open>mutex_unlock\<close>, the mutex is taken exactly then, and neither the loop of
\<open>mutex_lock\<close> nor \<open>mutex_unlock\<close> of the holder can fail an assertion.\<close>

theorem mutex_excludes:
  assumes "sched_inv A L s\<^sub>0" "t_state (pcb s\<^sub>0 (current s\<^sub>0)) = TASK_RUNNING" "waiters m \<in> A" "L (waiters m) = []"
    "sleep_list s\<^sub>0 \<noteq> waiters m" "block_list s\<^sub>0 \<noteq> waiters m" "\<not> mutex_value s\<^sub>0 m"
    and "(mstep A m)\<^sup>*\<^sup>* (\<lambda>_. Outside, s\<^sub>0) (ph, s)"
  shows "(\<forall>t u. ph t = Holding \<longrightarrow> ph u = Holding \<longrightarrow> t = u) \<and> (mutex_value s m \<longleftrightarrow> (\<exists>t. ph t = Holding)) \<and>
    (ph (current s) \<noteq> Holding \<longrightarrow> (\<exists>b s'. mutex_attempt m s = Inr (b, s'))) \<and>
    (ph (current s) = Holding \<longrightarrow> (\<exists>s'. mutex_unlock m s = Inr ((), s')))"
proof -
  have inv: "mutex_inv A m (ph, s)" by (rule mutex_inv_reach [OF assms(8) mutex_inv_start [OF assms(1-7)]])
  then have "(\<forall>t u. ph t = Holding \<longrightarrow> ph u = Holding \<longrightarrow> t = u) \<and> mutex_value s m = (\<exists>t. ph t = Holding)"
    unfolding mutex_inv_def by auto
  then show ?thesis using mutex_inv_runs [OF inv] by blast
qed

theorem mutex_excludes_witness:
  "\<exists>ph s. (mstep {0x500, 0x600, 0x704} 0x700)\<^sup>*\<^sup>* (\<lambda>_. Outside, mutex0) (ph, s) \<and> ph 0x10000 = Holding \<and> mutex_value s 0x700"
proof -
  define ph :: "u32 \<Rightarrow> phase" where "ph = (\<lambda>_. Outside)(0x10000 := Holding)"
  define s where "s = mutex0\<lparr>mutex_value := (mutex_value mutex0)(0x700 := True)\<rparr>"
  have c: "current mutex0 = 0x10000" by (simp add: mutex0_def)
  have "mstep {0x500, 0x600, 0x704} 0x700 (\<lambda>_. Outside, mutex0) (ph, s)"
    unfolding ph_def s_def c [symmetric] using attempt_free [OF mutex0_start(5)] by (intro m_get) simp_all
  then have r: "(mstep {0x500, 0x600, 0x704} 0x700)\<^sup>*\<^sup>* (\<lambda>_. Outside, mutex0) (ph, s)" by (rule r_into_rtranclp)
  have "mutex_value s 0x700 \<longleftrightarrow> (\<exists>t. ph t = Holding)"
    using mutex_excludes [OF mutex0_inv mutex0_start(1,2) refl mutex0_start(3-5) r] by (elim conjE)
  moreover have "ph 0x10000 = Holding" by (simp add: ph_def)
  ultimately show ?thesis using r by blast
qed

text \<open>C10: No wake-up is lost: in every reachable state in which tasks wait on the list of a mutex, the
mutex is taken (so its holder will release it) or some task in the loop of \<open>mutex_lock\<close> is not
blocked (so it will try again); and every task on the list is in that loop.\<close>

theorem mutex_no_lost_wakeup:
  assumes "sched_inv A L s\<^sub>0" "t_state (pcb s\<^sub>0 (current s\<^sub>0)) = TASK_RUNNING" "waiters m \<in> A" "L (waiters m) = []"
    "sleep_list s\<^sub>0 \<noteq> waiters m" "block_list s\<^sub>0 \<noteq> waiters m" "\<not> mutex_value s\<^sub>0 m"
    and "(mstep A m)\<^sup>*\<^sup>* (\<lambda>_. Outside, s\<^sub>0) (ph, s)"
  shows "\<exists>ns. dlist (heap s) (waiters m) ns \<and> (\<forall>n\<in>set ns. ph (node_task n) = Wanting) \<and>
    (ns \<noteq> [] \<longrightarrow> mutex_value s m \<or> (\<exists>t\<in>live s. ph t = Wanting \<and> \<not> waiting (t_state (pcb s t))))"
proof -
  obtain L' where L': "sched_inv A L' s" "waiters m \<in> A" "\<forall>n\<in>set (L' (waiters m)). ph (node_task n) = Wanting"
    "\<forall>t. ph t \<noteq> Outside \<longrightarrow> t \<in> live s"
    "L' (waiters m) \<noteq> [] \<longrightarrow> mutex_value s m \<or> (\<exists>t. ph t = Wanting \<and> \<not> waiting (t_state (pcb s t)))"
    using mutex_inv_reach [OF assms(8) mutex_inv_start [OF assms(1-7)]] unfolding mutex_inv_def by auto
  have "dlist (heap s) (waiters m) (L' (waiters m))" by (rule sched_invD(7) [OF L'(1,2)])
  moreover have "\<exists>t\<in>live s. ph t = Wanting \<and> \<not> waiting (t_state (pcb s t))" if "ph t = Wanting" "\<not> waiting (t_state (pcb s t))" for t
    using that L'(4) by (intro bexI [of _ t]) auto
  ultimately show ?thesis using L'(3,5) by blast
qed

text \<open>A run in which a task waits: the idle task takes the mutex and yields, the second task finds it taken and blocks.\<close>

lemma contended_run:
  "\<exists>s L. (mstep {0x500, 0x600, 0x704} 0x700)\<^sup>*\<^sup>* (\<lambda>_. Outside, mutex0)
       ((\<lambda>_. Outside)(0x10000 := Holding, 0x11000 := Wanting), s) \<and> sched_inv {0x500, 0x600, 0x704} L s \<and>
     L 0x704 = [0x11004] \<and> t_state (pcb s 0x11000) = TASK_BLOCKED"
proof -
  let ?A = "{0x500, 0x600, 0x704 :: u32}" and ?p1 = "(\<lambda>_ :: u32. Outside)(0x10000 := Holding)"
  define s1 where "s1 = mutex0\<lparr>mutex_value := (mutex_value mutex0)(0x700 := True)\<rparr>"
  have v1: "current s1 = 0x10000" "task_table s1 = [0x10000, 0x11000, 0]" "idle_task s1 = 0x10000" "mutex_value s1 0x700"
    "pcb s1 = (\<lambda>_. blank_task)(0x10000 := blank_task\<lparr>t_state := TASK_RUNNING\<rparr>)"
    by (simp_all add: s1_def mutex0_def sched0_def)
  have inv1: "sched_inv ?A (\<lambda>_. []) s1" using mutex0_inv by (simp add: s1_def)
  have ch: "chosen s1 = 0x11000" by (simp add: chosen_def v1 Let_def blank_task_def)
  have w: "waiters 0x700 = 0x704" by (simp add: waiters_def)
  have 1: "mstep ?A 0x700 (\<lambda>_. Outside, mutex0) (?p1, s1)"
  proof -
    have "mstep ?A 0x700 (\<lambda>_. Outside, mutex0) ((\<lambda>_. Outside)(current mutex0 := Holding), s1)"
      unfolding s1_def using attempt_free [OF mutex0_start(5)] by (intro m_get) simp_all
    then show ?thesis using v1(1) by (simp add: s1_def)
  qed
  from schedule_ok [OF inv1] obtain s2 where s2: "schedule s1 = Inr ((), s2)" "scheduled ?A (\<lambda>_. []) s1 s2"
    by (auto simp: ch v1(5) blank_task_def waiting_def)
  have v2: "current s2 = 0x11000" "idle_task s2 = 0x10000" "task_table s2 = [0x10000, 0x11000, 0]"
    "t_state (pcb s2 0x11000) = TASK_RUNNING" "t_state (pcb s2 0x10000) = TASK_READY" "sched_inv ?A (\<lambda>_. []) s2"
    using s2(2) by (simp_all add: scheduled_def ch v1 same_world_def)
  have "mutex_value s2 = mutex_value s1"
    using keepsD [OF keeps_schedule(1) s2(1)] by (cases s1; cases s2; simp)
  then have m2: "mutex_value s2 0x700" using v1(4) by simp
  have 2: "mstep ?A 0x700 (?p1, s1) (?p1, s2)"
  proof (rule m_other)
    show "kstep (?A - {waiters 0x700}) s1 s2" by (rule kstep.intros(1)) (simp add: task_yield_def s2(1))
  qed (simp add: v1(1))
  have st: "\<not> waiting (t_state (pcb s2 (current s2)))" "current s2 \<noteq> idle_task s2" "blocked_on s2 0x704 \<in> ?A" "waiting TASK_BLOCKED"
    using v2 by (simp_all add: waiting_def blocked_on_def)
  have b: "blocked_on s2 0x704 = 0x704" by (simp add: blocked_on_def)
  from task_block_self [OF v2(6) st] obtain s3 L where
    s3: "task_block 0x11000 0x704 TASK_BLOCKED s2 = Inr ((), s3)" "sched_inv ?A L s3" "t_state (pcb s3 0x11000) = TASK_BLOCKED"
      "current s3 \<noteq> 0x11000" "current s3 \<in> live s2"
      "\<not> waiting (t_state (pcb s2 (current s3))) \<longrightarrow> L = (\<lambda>_. [])(0x704 := [task_node 0x11000])"
    unfolding v2(1) b by auto
  have "current s3 = 0x10000" using s3(4,5) v2(3) by (auto simp: live_def)
  then have L: "L 0x704 = [0x11004]" using s3(6) v2(5) by (simp add: waiting_def task_node_def)
  have at: "mutex_attempt 0x700 s2 = Inr (False, s3)" using m2 s3(1) by (simp add: mutex_attempt_def w v2(1))
  have "mstep ?A 0x700 (?p1, s2) (?p1(current s2 := Wanting), s3)" by (rule m_wait [OF _ at]) (simp add: v2(1))
  then have 3: "mstep ?A 0x700 (?p1, s2) (?p1(0x11000 := Wanting), s3)" by (simp only: v2(1))
  define R :: "(u32 \<Rightarrow> phase) \<times> msched \<Rightarrow> _" where "R = mstep ?A 0x700"
  define p1 :: "u32 \<Rightarrow> phase" where "p1 = ?p1"
  have R: "R (\<lambda>_. Outside, mutex0) (p1, s1)" "R (p1, s1) (p1, s2)" "R (p1, s2) (p1(0x11000 := Wanting), s3)"
    unfolding R_def p1_def by (fact 1 2 3)+
  have "R\<^sup>*\<^sup>* (\<lambda>_. Outside, mutex0) (p1(0x11000 := Wanting), s3)"
    by (rule converse_rtranclp_into_rtranclp [where r = R, OF R(1)], rule converse_rtranclp_into_rtranclp [where r = R, OF R(2)], rule r_into_rtranclp [where r = R, OF R(3)])
  then show ?thesis unfolding R_def p1_def using s3(2,3) L by (intro exI [of _ s3] exI [of _ L] conjI)
qed

theorem mutex_no_lost_wakeup_witness:
  "\<exists>ph s ns. (mstep {0x500, 0x600, 0x704} 0x700)\<^sup>*\<^sup>* (\<lambda>_. Outside, mutex0) (ph, s) \<and>
     dlist (heap s) 0x704 ns \<and> 0x11004 \<in> set ns \<and> t_state (pcb s 0x11000) = TASK_BLOCKED \<and> ph 0x11000 = Wanting \<and>
     (mutex_value s 0x700 \<or> (\<exists>t\<in>live s. ph t = Wanting \<and> \<not> waiting (t_state (pcb s t))))"
proof -
  obtain ph s L where r: "(mstep {0x500, 0x600, 0x704} 0x700)\<^sup>*\<^sup>* (\<lambda>_. Outside, mutex0) (ph, s)"
      "sched_inv {0x500, 0x600, 0x704} L s" "L 0x704 = [0x11004]" "t_state (pcb s 0x11000) = TASK_BLOCKED"
    using contended_run by blast
  from mutex_no_lost_wakeup [OF mutex0_inv mutex0_start(1,2) refl mutex0_start(3-5) r(1)] obtain ns where
    ns: "dlist (heap s) 0x704 ns" "\<forall>n\<in>set ns. ph (node_task n) = Wanting"
      "ns \<noteq> [] \<longrightarrow> mutex_value s 0x700 \<or> (\<exists>t\<in>live s. ph t = Wanting \<and> \<not> waiting (t_state (pcb s t)))"
    by (auto simp: waiters_def)
  have "dlist (heap s) 0x704 (L 0x704)" by (rule sched_invD(7) [OF r(2)]) simp
  then have "list_search (heap s) 0x704 0x11004 = Inr True" using list_search_dlist r(3) by fastforce
  with list_search_dlist [OF ns(1)] have mem: "0x11004 \<in> set ns" by simp
  then have "ph (node_task 0x11004) = Wanting" using ns(2) by blast
  then have "ph 0x11000 = Wanting" by (simp add: node_task_def)
  moreover have "ns \<noteq> []" using mem by auto
  ultimately show ?thesis using r(1,4) ns(1,3) mem by blast
qed

text \<open>The holder of a reentrant lock only counts.\<close>

lemma reentrant_lock_again:
  "lock_holder s l = current s \<Longrightarrow>
   reentrant_lock l s = Inr ((), s\<lparr>lock_repeat := (lock_repeat s)(l := lock_repeat s l + 1)\<rparr>)"
  by (simp add: reentrant_lock_def set_repeat_def)

lemma reentrant_unlock_inner:
  "lock_holder s l = current s \<Longrightarrow> lock_repeat s l \<noteq> 1 \<Longrightarrow>
   reentrant_unlock l s = Inr ((), s\<lparr>lock_repeat := (lock_repeat s)(l := lock_repeat s l - 1)\<rparr>)"
  by (simp add: reentrant_unlock_def set_repeat_def)

lemma reentrant_lock_many:
  "lock_holder s l = current s \<Longrightarrow> sforeach (replicate k ()) (\<lambda>_. reentrant_lock l) s =
     Inr ((), s\<lparr>lock_repeat := (lock_repeat s)(l := lock_repeat s l + of_nat k)\<rparr>)"
  by (induction k arbitrary: s) (simp_all add: reentrant_lock_again algebra_simps)

lemma reentrant_unlock_many:
  "lock_holder s l = current s \<Longrightarrow> k < unat (lock_repeat s l) \<Longrightarrow> sforeach (replicate k ()) (\<lambda>_. reentrant_unlock l) s =
     Inr ((), s\<lparr>lock_repeat := (lock_repeat s)(l := lock_repeat s l - of_nat k)\<rparr>)"
proof (induction k arbitrary: s)
  case (Suc k)
  let ?s = "s\<lparr>lock_repeat := (lock_repeat s)(l := lock_repeat s l - 1)\<rparr>"
  have one: "unat (lock_repeat s l - 1) = unat (lock_repeat s l) - 1"
    using Suc.prems(2) by (subst unat_sub_32) simp_all
  have "lock_repeat s l \<noteq> 1" using Suc.prems(2) by auto
  then have "reentrant_unlock l s = Inr ((), ?s)" using reentrant_unlock_inner Suc.prems(1) by blast
  moreover have "sforeach (replicate k ()) (\<lambda>_. reentrant_unlock l) ?s =
      Inr ((), ?s\<lparr>lock_repeat := (lock_repeat ?s)(l := lock_repeat ?s l - of_nat k)\<rparr>)"
    using Suc.prems one by (intro Suc.IH) simp_all
  ultimately show ?case by (simp add: algebra_simps fun_upd_def cong: if_cong)
qed simp

text \<open>C40: A reentrant lock nests: when the holder takes the lock any number of times more and releases
it as often, nothing fails, the mutex is not touched, and the lock is held as often as before.\<close>

theorem reentrant_nests:
  assumes "lock_holder s l = current s" "0 < lock_repeat s l" "unat (lock_repeat s l) + k < 2 ^ 32"
  shows "sbind (sforeach (replicate k ()) (\<lambda>_. reentrant_lock l)) (\<lambda>_. sforeach (replicate k ()) (\<lambda>_. reentrant_unlock l)) s = Inr ((), s)"
proof -
  let ?s = "s\<lparr>lock_repeat := (lock_repeat s)(l := lock_repeat s l + of_nat k)\<rparr>"
  have "k < 2 ^ 32" using assms(3) by linarith
  then have "unat (of_nat k :: u32) = k" by (rule unat_of_nat_32)
  then have "unat (lock_repeat s l + of_nat k) = unat (lock_repeat s l) + k" using assms(3) by (subst unat_add_32) simp_all
  then have "sforeach (replicate k ()) (\<lambda>_. reentrant_unlock l) ?s =
      Inr ((), ?s\<lparr>lock_repeat := (lock_repeat ?s)(l := lock_repeat ?s l - of_nat k)\<rparr>)"
    using assms(1,2) by (intro reentrant_unlock_many) (simp_all add: word_less_nat_alt)
  then show ?thesis using assms(1) by (simp add: reentrant_lock_many)
qed

theorem reentrant_nests_witness:
  "sbind (sforeach (replicate 2 ()) (\<lambda>_. reentrant_lock 0x7fc)) (\<lambda>_. sforeach (replicate 2 ()) (\<lambda>_. reentrant_unlock 0x7fc))
     (mutex0\<lparr>lock_holder := \<lambda>_. 0x10000, lock_repeat := \<lambda>_. 1\<rparr>) =
   Inr ((), mutex0\<lparr>lock_holder := \<lambda>_. 0x10000, lock_repeat := \<lambda>_. 1\<rparr>)"
  by (rule reentrant_nests) (simp_all add: mutex0_def)

end
