(* ===== verification/Buffer_Wait.thy ===== *)
theory Buffer_Wait
  imports Disk_Store
begin

text \<open>
  A task that waits for a buffer: \<open>get_free_buffer\<close> queues it on \<open>wait_list\<close>, and \<open>brelease\<close> takes it
  off that list twice, with \<open>list_pop\<close> and again inside \<open>task_unblock\<close>, whose \<open>list_remove\<close> asserts that
  the node is still linked.
\<close>

lemma remove_detached: "detached h n \<Longrightarrow> n \<noteq> 0 \<Longrightarrow> list_remove h n = Inl AssertFail"
  by (simp add: detached_def list_remove_def get_prev_def)

lemma wake_waiter_asserts:
  assumes "dlist (heap s) (wait_list s) (n # ns)"
  shows "wake_waiter s = Inl AssertFail"
proof -
  obtain h where h: "list_pop (heap s) (wait_list s) = Inr (n, h)" "detached h n"
    using list_pop_dlist [OF assms] by blast
  have "n \<noteq> 0" using assms by (auto simp: dlist_def path_def)
  then have "task_unblock (node_task n) (s\<lparr>heap := h\<rparr>) = Inl AssertFail"
    using remove_detached [OF h(2)] by (simp add: task_unblock_def ensure_disabled_def get_interrupt_state_def on_heap_def)
  then show ?thesis
    using h(1) assms by (simp add: wake_waiter_def list_empty_dlist)
qed

text \<open>C29: A task that waits for a buffer is never woken: when the last reference to a clean buffer is
released while \<open>wait_list\<close> is not empty, \<open>brelease\<close> stops with a failed assertion, because \<open>list_pop\<close> has
already unlinked the node that \<open>task_unblock\<close> removes.\<close>

theorem brelease_fails_for_waiter:
  assumes s: "cache_ok s" and p: "p \<in> hashed s" "b_count (buf_at s p) = 1" "\<not> b_dirty (buf_at s p)"
    and w: "dlist (heap s) (wait_list s) (n # ns)"
  shows "brelease p s = Inl AssertFail"
proof -
  let ?b = "buf_at s p"
  let ?bc = "b_count_update (\<lambda>n. n - 1) ?b"
  let ?i = "unat (hash (b_dev ?b) (b_block ?b))"
  let ?s2 = "(touch p ?bc s)\<lparr>hash_table := (hash_table s)[?i := remove1 p (hash_table s ! ?i)]\<rparr>"
  let ?s3 = "touch p (?bc\<lparr>b_dev := - 1, b_block := 0, b_valid := False\<rparr>) ?s2"
  have v: "valid_buf s p" "p \<noteq> 0" using hashedD(1) [OF s p(1)] by (simp_all add: valid_buf_def)
  have v2: "valid_buf ?s2 p" "buf_at ?s2 p = ?bc"
    using v buf_at_change(1) [OF v(1) v(1)] by (simp_all add: valid_buf_def buf_at_def touch_def)
  have free: "p \<notin> set (free_list ?s3)" using free_not_hashed [OF s] p(1) by (auto simp: touch_def)
  have "unhash p ?bc (touch p ?bc s) = Inr ((), ?s2)" using unhash_ok [OF s p(1), of ?bc] by simp
  moreover have "upd_buf p (b_count_update (\<lambda>n. n - 1)) s = Inr ((), touch p ?bc s)" "get_buf p (touch p ?bc s) = Inr (?bc, touch p ?bc s)"
    using v by (simp_all add: upd_buf_touch get_buf_ok buf_at_change)
  moreover have "upd_buf p (\<lambda>b. b\<lparr>b_dev := - 1, b_block := 0, b_valid := False\<rparr>) ?s2 = Inr ((), ?s3)"
    using upd_buf_touch [OF v2(1)] v2(2) by simp
  moreover have "wake_waiter (?s3\<lparr>free_list := p # free_list ?s3\<rparr>) = Inl AssertFail"
    using w by (intro wake_waiter_asserts [where n = n and ns = ns]) (simp add: touch_def)
  ultimately show ?thesis
    using p(2,3) v(2) free by (simp add: brelease_def cong: run_congs)
qed

definition waiting_state :: "ram_world buf_state" where
  "waiting_state = cold_state\<lparr>
     buffers := [\<lparr>b_data = replicate 1024 0, b_dev = 1, b_block = 0, b_count = 1, b_dirty = False, b_valid = True\<rparr>],
     buffer_ptr := KERNEL_BUFFER_MEM + 64, buffer_data := KERNEL_BUFFER_MEM + KERNEL_BUFFER_SIZE - 2048,
     hash_table := (replicate 31 [])[1 := [1]], wait_list := 0x700,
     heap := (\<lambda>_. \<lparr>n_prev = 0, n_next = 0\<rparr>)(0x700 := \<lparr>n_prev = 0, n_next = 0x1004\<rparr>,
       0x1004 := \<lparr>n_prev = 0x700, n_next = 0x708\<rparr>, 0x708 := \<lparr>n_prev = 0x1004, n_next = 0\<rparr>)\<rparr>"

theorem brelease_fails_for_waiter_witness:
  "brelease 1 waiting_state = Inl AssertFail"
proof (rule brelease_fails_for_waiter)
  have at: "buf_at waiting_state 1 = \<lparr>b_data = replicate 1024 0, b_dev = 1, b_block = 0, b_count = 1, b_dirty = False, b_valid = True\<rparr>"
    by (simp add: waiting_state_def buf_at_def)
  have ht: "hash_table waiting_state ! i = (if i = 1 then [1] else [])" if "i < 31" for i
    using that by (simp add: waiting_state_def nth_list_update)
  have len: "length (hash_table waiting_state) = 31" by (simp add: waiting_state_def)
  have h: "hashed waiting_state = {1}"
    using ht [of 1] ht by (auto simp: hashed_nth [OF len] split: if_splits intro!: exI [of _ 1])
  have "chain_ok waiting_state i (hash_table waiting_state ! i)" if "i < 31" for i
    using that at by (simp add: ht chain_ok_def hash_def HASH_COUNT_def valid_buf_def) (simp add: waiting_state_def)
  then show "cache_ok waiting_state"
    unfolding cache_ok_def h
    using len by (simp add: cold_state_def waiting_state_def carved_def BLOCK_SIZE_def)
  show "1 \<in> hashed waiting_state" "b_count (buf_at waiting_state 1) = 1" "\<not> b_dirty (buf_at waiting_state 1)"
    by (simp_all add: h at)
  show "dlist (heap waiting_state) (wait_list waiting_state) [0x1004]"
    by (simp add: waiting_state_def dlist_def path_def lhead_def ltail_def)
qed
end
