(* ===== verification/Pipes.thy ===== *)
theory Pipes
  imports Files Disk_Store
begin

text \<open>
  What a pipe does for tasks that do not have to wait: the bytes that \<open>pipe_write\<close> of
  \<open>src/src/fs/pipe.c\<close> puts into the queue of the pipe's inode come out of \<open>pipe_read\<close> in the same order,
  and nothing else of the file system changes.
\<close>

definition pipe_at :: "('w, 'a) fs_state_scheme \<Rightarrow> u32 \<Rightarrow> inode" where
  "pipe_at s ip = inodes s ! (unat ip - 1)"

definition pipe_idle :: "('w, 'a) fs_state_scheme \<Rightarrow> u32 \<Rightarrow> bool" where
  "pipe_idle s ip \<longleftrightarrow> ip \<noteq> 0 \<and> unat ip - 1 < length (inodes s) \<and> fifo_wf (i_fifo (pipe_at s ip)) \<and>
     i_rxwaiter (pipe_at s ip) = 0 \<and> i_txwaiter (pipe_at s ip) = 0"

definition pipe_bytes :: "('w, 'a) fs_state_scheme \<Rightarrow> u32 \<Rightarrow> u8 list" where
  "pipe_bytes s ip = fifo_list (i_fifo (pipe_at s ip))"

definition pipe_cap :: "('w, 'a) fs_state_scheme \<Rightarrow> u32 \<Rightarrow> nat" where
  "pipe_cap s ip = fifo_cap (i_fifo (pipe_at s ip))"

definition only_pipe :: "u32 \<Rightarrow> ('w, 'a) fs_state_scheme \<Rightarrow> ('w, 'a) fs_state_scheme \<Rightarrow> bool" where
  "only_pipe ip s s' \<longleftrightarrow> (\<exists>q. s' = s\<lparr>inodes := (inodes s)[unat ip - 1 := i_fifo_update (\<lambda>_. q) (pipe_at s ip)]\<rparr>)"

lemma only_pipe_refl: "only_pipe ip s s"
  unfolding only_pipe_def pipe_at_def by (intro exI [of _ "i_fifo (inodes s ! (unat ip - 1))"]) simp

lemma only_pipe_trans: "only_pipe ip s s' \<Longrightarrow> only_pipe ip s' s'' \<Longrightarrow> only_pipe ip s s''"
proof -
  assume "only_pipe ip s s'" "only_pipe ip s' s''"
  then obtain q r where
    "s' = s\<lparr>inodes := (inodes s)[unat ip - 1 := i_fifo_update (\<lambda>_. q) (pipe_at s ip)]\<rparr>"
    "s'' = s'\<lparr>inodes := (inodes s')[unat ip - 1 := i_fifo_update (\<lambda>_. r) (pipe_at s' ip)]\<rparr>"
    by (auto simp: only_pipe_def)
  then show ?thesis
    unfolding only_pipe_def
    by (intro exI [of _ r], cases "unat ip - 1 < length (inodes s)")
       (simp_all add: pipe_at_def list_update_beyond)
qed

lemma set_fifo:
  assumes "pipe_idle s ip" "fifo_wf q" "fifo_cap q = pipe_cap s ip"
  defines "s' \<equiv> s\<lparr>inodes := (inodes s)[unat ip - 1 := i_fifo_update (\<lambda>_. q) (pipe_at s ip)]\<rparr>"
  shows "pipe_idle s' ip" "pipe_bytes s' ip = fifo_list q" "pipe_cap s' ip = pipe_cap s ip" "only_pipe ip s s'"
    "upd_inode ip (i_fifo_update (\<lambda>_. q)) s = Inr ((), s')" "get_inode ip s = Inr (pipe_at s ip, s)"
  using assms unfolding only_pipe_def
  by (auto simp: pipe_idle_def pipe_bytes_def pipe_cap_def pipe_at_def s'_def upd_inode_def get_inode_def)

lemma pipe_put_room:
  assumes p: "pipe_idle s ip" and room: "length (pipe_bytes s ip) < pipe_cap s ip"
  shows "\<exists>s'. pipe_put ip c s = Inr (True, s') \<and> pipe_idle s' ip \<and> pipe_bytes s' ip = pipe_bytes s ip @ [c] \<and>
    pipe_cap s' ip = pipe_cap s ip \<and> only_pipe ip s s'"
proof -
  let ?f = "i_fifo (pipe_at s ip)"
  have wf: "fifo_wf ?f" "i_rxwaiter (pipe_at s ip) = 0" using p by (simp_all add: pipe_idle_def)
  have room': "fifo_count ?f < fifo_cap ?f" using room by (simp add: pipe_bytes_def pipe_cap_def)
  obtain q where q: "fifo_put ?f c = Inr q" "fifo_wf q" "fifo_cap q = pipe_cap s ip" "fifo_list q = pipe_bytes s ip @ [c]"
    using fifo_put_wf [OF wf(1), of c] room' by (auto simp: pipe_bytes_def pipe_cap_def)
  note S = set_fifo [OF p q(2,3)]
  then show ?thesis
    using q wf room' fifo_full_count [OF wf(1)] by (intro exI) (auto simp: pipe_put_def)
qed

lemma pipe_get_some:
  assumes p: "pipe_idle s ip" and ne: "pipe_bytes s ip = c # cs"
  shows "\<exists>s'. pipe_get ip s = Inr (Some c, s') \<and> pipe_idle s' ip \<and> pipe_bytes s' ip = cs \<and>
    pipe_cap s' ip = pipe_cap s ip \<and> only_pipe ip s s'"
proof -
  let ?f = "i_fifo (pipe_at s ip)"
  have wf: "fifo_wf ?f" "i_txwaiter (pipe_at s ip) = 0" using p by (simp_all add: pipe_idle_def)
  obtain q where q: "fifo_get ?f = Inr (c, q)" "fifo_wf q" "fifo_cap q = pipe_cap s ip" "fifo_list q = cs"
    using fifo_get_wf [OF wf(1)] ne by (auto simp: pipe_bytes_def pipe_cap_def)
  have "\<not> fifo_empty ?f"
    using ne fifo_empty_count [OF wf(1)] length_fifo_list [of ?f] by (simp add: pipe_bytes_def)
  with set_fifo [OF p q(2,3)] q wf show ?thesis
    by (intro exI) (auto simp: pipe_get_def)
qed

lemma pipe_write_room:
  assumes "pipe_idle s ip" "length (pipe_bytes s ip) + length bs \<le> pipe_cap s ip"
  shows "\<exists>s'. pipe_write_list ip bs s = Inr ((), s') \<and> pipe_idle s' ip \<and> pipe_bytes s' ip = pipe_bytes s ip @ bs \<and>
    pipe_cap s' ip = pipe_cap s ip \<and> only_pipe ip s s'"
  using assms
proof (induction bs arbitrary: s)
  case Nil
  then show ?case by (simp add: only_pipe_refl)
next
  case (Cons b bs)
  obtain s1 where 1: "pipe_put ip b s = Inr (True, s1)" "pipe_idle s1 ip" "pipe_bytes s1 ip = pipe_bytes s ip @ [b]"
    "pipe_cap s1 ip = pipe_cap s ip" "only_pipe ip s s1"
    using pipe_put_room [OF Cons.prems(1), of b] Cons.prems(2) by auto
  then show ?case
    using Cons.IH [OF 1(2)] Cons.prems(2) only_pipe_trans [OF 1(5)] by (auto simp: 1)
qed

lemma pipe_read_prefix:
  assumes "pipe_idle s ip" "n \<le> length (pipe_bytes s ip)"
  shows "\<exists>s'. pipe_read_n ip n s = Inr (take n (pipe_bytes s ip), s') \<and> pipe_idle s' ip \<and>
    pipe_bytes s' ip = drop n (pipe_bytes s ip) \<and> pipe_cap s' ip = pipe_cap s ip \<and> only_pipe ip s s'"
  using assms
proof (induction n arbitrary: s)
  case 0
  then show ?case by (simp add: only_pipe_refl)
next
  case (Suc n)
  obtain c cs where c: "pipe_bytes s ip = c # cs" using Suc.prems(2) by (cases "pipe_bytes s ip") auto
  obtain s1 where 1: "pipe_get ip s = Inr (Some c, s1)" "pipe_idle s1 ip" "pipe_bytes s1 ip = cs"
    "pipe_cap s1 ip = pipe_cap s ip" "only_pipe ip s s1"
    using pipe_get_some [OF Suc.prems(1) c] by auto
  then show ?case
    using Suc.IH [OF 1(2)] Suc.prems(2) c only_pipe_trans [OF 1(5)] by (auto simp: 1)
qed

text \<open>C27: A pipe is a bounded queue of bytes: on a pipe at which no task waits, neither to read nor to write, writing bytes that
fit behind those it holds and then reading \<open>n\<close> of them returns the first \<open>n\<close> in the order of writing, leaves the
others, and changes nothing but the queue of that pipe.\<close>

theorem pipe_delivers:
  assumes "pipe_idle s ip" "length (pipe_bytes s ip) + length bs \<le> pipe_cap s ip" "n \<le> length (pipe_bytes s ip) + length bs"
  shows "\<exists>s'. sbind (pipe_write ip bs (int (length bs))) (\<lambda>_. pipe_read ip (int n)) s =
      Inr ((int n, take n (pipe_bytes s ip @ bs)), s') \<and>
    pipe_bytes s' ip = drop n (pipe_bytes s ip @ bs) \<and> pipe_idle s' ip \<and> only_pipe ip s s'"
proof -
  obtain s1 where 1: "pipe_write_list ip bs s = Inr ((), s1)" "pipe_idle s1 ip" "pipe_bytes s1 ip = pipe_bytes s ip @ bs"
    "only_pipe ip s s1" using pipe_write_room [OF assms(1,2)] by auto
  have n: "n \<le> length (pipe_bytes s1 ip)" using assms(3) 1(3) by simp
  obtain s2 where 2: "pipe_read_n ip n s1 = Inr (take n (pipe_bytes s ip @ bs), s2)" "pipe_idle s2 ip"
    "pipe_bytes s2 ip = drop n (pipe_bytes s ip @ bs)" "only_pipe ip s1 s2"
    using pipe_read_prefix [OF 1(2) n] 1(3) by auto
  have "min (length (pipe_bytes s ip)) n + min (length bs) (n - length (pipe_bytes s ip)) = n" using assms(3) by linarith
  then have "int (length (take n (pipe_bytes s ip @ bs))) = int n" by (simp add: min.commute)
  then have "sbind (pipe_write ip bs (int (length bs))) (\<lambda>_. pipe_read ip (int n)) s =
      Inr ((int n, take n (pipe_bytes s ip @ bs)), s2)"
    by (simp add: pipe_write_def pipe_read_def 1 2 del: take_append length_take)
  with 2 only_pipe_trans [OF 1(4) 2(4)] show ?thesis by blast
qed

definition pipe_state :: "ram_world fs_state" where
  "pipe_state = buf_state.extend (buf_state.truncate cold_state) \<lparr>supers = [],
     inodes = [\<lparr>i_desc = 0, i_buf = 0, i_dev = - 2, i_nr = 0, i_count = 2, i_atime = 0, i_ctime = 0, i_mount = 0,
       i_rxwaiter = 0, i_txwaiter = 0, i_pipe = True, i_fifo = fifo_init (replicate 4096 0) 4096\<rparr>],
     files = [], root_sb = 0, startup_time = 0, kmem = (\<lambda>_. 0)\<rparr>"

theorem pipe_delivers_witness:
  "\<exists>s'. sbind (pipe_write 1 [1, 2, 3] 3) (\<lambda>_. pipe_read 1 2) pipe_state = Inr ((2, [1, 2]), s') \<and> pipe_bytes s' 1 = [3]"
proof -
  have "i_fifo (pipe_at pipe_state 1) = fifo_init (replicate 4096 0) 4096"
    by (simp add: pipe_state_def buf_state.extend_def pipe_at_def)
  with fifo_init_wf [of "replicate 4096 (0 :: u8)" 4096]
  have "pipe_idle pipe_state 1" "pipe_bytes pipe_state 1 = []" "pipe_cap pipe_state 1 = 4095"
    by (auto simp: pipe_idle_def pipe_bytes_def pipe_cap_def) (simp_all add: pipe_state_def buf_state.extend_def pipe_at_def)
  with pipe_delivers [of pipe_state 1 "[1, 2, 3]" 2] show ?thesis
    by (auto simp del: sop_simps)
qed

end
