(* ===== verification/Heap_Allocator.thy ===== *)
theory Heap_Allocator
  imports Prelude "HOL-Library.Multiset"
begin

text \<open>
  The contract of an allocator of blocks of memory, as the kernel relies on it for \<open>kmalloc\<close> and
  \<open>kfree\<close>. \<open>rep s H\<close> says that in the state \<open>s\<close> the blocks in use are those of \<open>H\<close>, which gives for the
  address of a block the bytes that belong to it. An allocation either panics or adds a block that
  shares no byte with any other, a block in use can be released.
\<close>

primrec alloc_all :: "(u32 \<Rightarrow> ('s, u32) op) \<Rightarrow> u32 list \<Rightarrow> ('s, u32 list) op" where
  "alloc_all alloc [] = sret []"
| "alloc_all alloc (n # ns) = sbind (alloc n) (\<lambda>p. sbind (alloc_all alloc ns) (\<lambda>ps. sret (p # ps)))"

definition bytes_from :: "u32 \<Rightarrow> u32 \<Rightarrow> nat set" where
  "bytes_from p n = {unat p..<unat p + unat n}"

locale block_heap =
  fixes alloc :: "u32 \<Rightarrow> ('s, u32) op"
    and release :: "u32 \<Rightarrow> ('s, unit) op"
    and rep :: "'s \<Rightarrow> (u32 \<Rightarrow> nat set option) \<Rightarrow> bool"
    and max_size :: nat
  assumes alloc_law: "rep s H \<Longrightarrow> unat n \<le> max_size \<Longrightarrow> alloc n s = Inr (p, s') \<Longrightarrow>
      \<exists>E. H p = None \<and> rep s' (H(p \<mapsto> E)) \<and> bytes_from p n \<subseteq> E \<and> (\<forall>E'\<in>ran H. E \<inter> E' = {})"
    and alloc_fail: "rep s H \<Longrightarrow> unat n \<le> max_size \<Longrightarrow> alloc n s = Inl e \<Longrightarrow> e = Panic"
    and release_law: "rep s H \<Longrightarrow> H p = Some E \<Longrightarrow>
      \<exists>s'. release p s = Inr ((), s') \<and> rep s' (H(p := None))"
begin

lemma release_all:
  assumes "rep s H" "distinct ps" "set ps \<subseteq> dom H"
  shows "\<exists>s'. sforeach ps release s = Inr ((), s') \<and> rep s' (H |` (- set ps))"
  using assms
proof (induction ps arbitrary: s H)
  case Nil
  then show ?case by simp
next
  case (Cons p ps)
  obtain E where "H p = Some E" using Cons.prems(3) by auto
  from release_law [OF Cons.prems(1) this] obtain s1 where
    1: "release p s = Inr ((), s1)" "rep s1 (H(p := None))" by blast
  have "set ps \<subseteq> dom (H(p := None))" using Cons.prems(2,3) by auto
  from Cons.IH [OF 1(2) _ this] Cons.prems(2) obtain s2 where
    2: "sforeach ps release s1 = Inr ((), s2)" "rep s2 (H(p := None) |` (- set ps))"
    unfolding distinct.simps by blast
  have "H(p := None) |` (- set ps) = H |` (- set (p # ps))"
    by (auto simp: restrict_map_def fun_eq_iff)
  then show ?case using 1 2 by simp
qed

lemma alloc_all_fresh:
  assumes "rep s H" "\<forall>n\<in>set ns. unat n \<le> max_size" "alloc_all alloc ns s = Inr (ps, s')"
  shows "\<exists>Es. length Es = length ns \<and> length ps = length ns \<and> distinct ps \<and> set ps \<inter> dom H = {} \<and>
    rep s' (H ++ map_of (zip ps Es)) \<and> (\<forall>i<length ns. bytes_from (ps ! i) (ns ! i) \<subseteq> Es ! i) \<and>
    (\<forall>E\<in>set Es. \<forall>E'\<in>ran H. E \<inter> E' = {}) \<and>
    (\<forall>i<length ns. \<forall>j<length ns. i \<noteq> j \<longrightarrow> Es ! i \<inter> Es ! j = {})"
  using assms
proof (induction ns arbitrary: s H ps)
  case Nil
  then show ?case by simp
next
  case (Cons n ns)
  obtain p s1 qs where 1: "alloc n s = Inr (p, s1)" "alloc_all alloc ns s1 = Inr (qs, s')" "ps = p # qs"
    using Cons.prems(3) by (auto simp: rbind_eq_Inr)
  obtain E where E: "H p = None" "rep s1 (H(p \<mapsto> E))" "bytes_from p n \<subseteq> E" "\<forall>E'\<in>ran H. E \<inter> E' = {}"
    using alloc_law [OF Cons.prems(1) _ 1(1)] Cons.prems(2) by auto
  obtain Es where Es: "length Es = length ns" "length qs = length ns" "distinct qs" "set qs \<inter> dom (H(p \<mapsto> E)) = {}"
    "rep s' (H(p \<mapsto> E) ++ map_of (zip qs Es))" "\<forall>i<length ns. bytes_from (qs ! i) (ns ! i) \<subseteq> Es ! i"
    "\<forall>F\<in>set Es. \<forall>E'\<in>ran (H(p \<mapsto> E)). F \<inter> E' = {}"
    "\<forall>i<length ns. \<forall>j<length ns. i \<noteq> j \<longrightarrow> Es ! i \<inter> Es ! j = {}"
    using Cons.IH [OF E(2) _ 1(2)] Cons.prems(2) by (force simp del: dom_fun_upd fun_upd_apply)
  have p: "p \<notin> set qs" using Es(4) by auto
  have ran: "ran (H(p \<mapsto> E)) = insert E (ran H)" using E(1) by auto
  have "H(p \<mapsto> E) ++ map_of (zip qs Es) = H ++ map_of (zip (p # qs) (E # Es))"
    using p Es(1,2) by (simp add: map_add_upd_left)
  moreover have "Es ! k \<inter> E = {}" if "k < length ns" for k
    using Es(7) that Es(1) by (simp add: ran)
  then have "(E # Es) ! i \<inter> (E # Es) ! j = {}" if "i < length (n # ns)" "j < length (n # ns)" "i \<noteq> j" for i j
    using that Es(8) by (cases i; cases j) auto
  moreover have "bytes_from ((p # qs) ! i) ((n # ns) ! i) \<subseteq> (E # Es) ! i" if "i < length (n # ns)" for i
    using that E(3) Es(6) by (cases i) auto
  ultimately show ?case
    using Es E p by (intro exI [of _ "E # Es"]) (auto simp: 1(3) ran simp del: fun_upd_apply)
qed

lemma alloc_all_fail:
  assumes "rep s H" "\<forall>n\<in>set ns. unat n \<le> max_size" "alloc_all alloc ns s = Inl e"
  shows "e = Panic"
  using assms
proof (induction ns arbitrary: s H)
  case (Cons n ns)
  show ?case
  proof (cases "alloc n s")
    case (Inl f)
    then show ?thesis using alloc_fail [OF Cons.prems(1) _ Inl] Cons.prems(2,3) by simp
  next
    case (Inr r)
    then obtain p s1 where 1: "alloc n s = Inr (p, s1)" by (cases r) auto
    then obtain E where "rep s1 (H(p \<mapsto> E))" using alloc_law [OF Cons.prems(1) _ 1] Cons.prems(2) by auto
    from Cons.IH [OF this] Cons.prems(2,3) 1 show ?thesis by (auto simp: rbind_eq_Inl)
  qed
qed simp

text \<open>A group of allocations: the blocks share no byte, and they can be released in any order.\<close>

lemma alloc_all_release_all:
  assumes "rep s H" "\<forall>n\<in>set ns. unat n \<le> max_size" "alloc_all alloc ns s = Inr (ps, s')" "mset qs = mset ps"
  shows "length ps = length ns \<and> distinct ps \<and> set ps \<inter> dom H = {} \<and>
    (\<forall>i<length ns. \<forall>j<length ns. i \<noteq> j \<longrightarrow> bytes_from (ps ! i) (ns ! i) \<inter> bytes_from (ps ! j) (ns ! j) = {}) \<and>
    (\<exists>s''. sforeach qs release s' = Inr ((), s'') \<and> rep s'' H)"
proof -
  obtain Es where Es: "length Es = length ns" "length ps = length ns" "distinct ps" "set ps \<inter> dom H = {}"
    "rep s' (H ++ map_of (zip ps Es))" "\<forall>i<length ns. bytes_from (ps ! i) (ns ! i) \<subseteq> Es ! i"
    "\<forall>i<length ns. \<forall>j<length ns. i \<noteq> j \<longrightarrow> Es ! i \<inter> Es ! j = {}"
    using alloc_all_fresh [OF assms(1-3)] by auto
  have qs: "set qs = set ps" "distinct qs"
    using assms(4) Es(3) mset_eq_setD mset_eq_imp_distinct_iff by blast+
  have d: "dom (map_of (zip ps Es)) = set ps" using Es(1,2) by simp
  have "set qs \<subseteq> dom (H ++ map_of (zip ps Es))" using qs d by auto
  from release_all [OF Es(5) qs(2) this] obtain s'' where
    s'': "sforeach qs release s' = Inr ((), s'')" "rep s'' ((H ++ map_of (zip ps Es)) |` (- set qs))" by blast
  have "((H ++ map_of (zip ps Es)) |` (- set qs)) x = H x" for x
  proof (cases "x \<in> set ps")
    case True
    then have "H x = None" using Es(4) by auto
    with True show ?thesis using qs(1) by simp
  next
    case False
    then have "map_of (zip ps Es) x = None" using d by auto
    then show ?thesis using False qs(1) by (simp add: map_add_def)
  qed
  then have "(H ++ map_of (zip ps Es)) |` (- set qs) = H" by auto
  with s'' have "\<exists>s''. sforeach qs release s' = Inr ((), s'') \<and> rep s'' H" by auto
  moreover have "bytes_from (ps ! i) (ns ! i) \<inter> bytes_from (ps ! j) (ns ! j) = {}"
    if "i < length ns" "j < length ns" "i \<noteq> j" for i j
    using Es(6,7) that by blast
  ultimately show ?thesis using Es(2-4) by blast
qed

end

end
