(* ===== verification/Arena.thy ===== *)
theory Arena
  imports Frames Heap_Allocator Sched
begin

text \<open>
  Blocks of kernel memory: \<open>src/src/kernel/arena.c\<close>. A block comes from an arena, one page that is cut
  into blocks of one of seven sizes, or a run of pages for one large block; the arena's header stands
  in its first 16 bytes and is found by rounding the address of a block down to a page. The headers are
  a map from addresses, and \<open>adescs\<close> are the seven descriptors; a pointer to the descriptor \<open>i\<close> is \<open>i + 1\<close>,
  and 0 is \<open>NULL\<close>. The free list of a descriptor is the list of its blocks from the head on.
\<close>

unbundle bit_operations_syntax

record adesc =
  ad_total :: u32
  ad_block :: u32
  ad_free :: "u32 list"

record arena =
  ar_desc :: u32
  ar_count :: u32
  ar_large :: u32
  ar_magic :: u32

record heap_state =
  kmm :: mm
  adescs :: "adesc list"
  arenas :: "u32 \<Rightarrow> arena"

definition DESC_COUNT :: nat where "DESC_COUNT = 7"
definition sizeof_arena :: u32 where "sizeof_arena = 16"

definition on_mm :: "(mm, 'b) op \<Rightarrow> (heap_state, 'b) op" where
  "on_mm f = (\<lambda>s. rbind (f (kmm s)) (\<lambda>(x, m). Inr (x, s\<lparr>kmm := m\<rparr>)))"

definition get_adesc :: "u32 \<Rightarrow> (heap_state, adesc) op" where
  "get_adesc d = (\<lambda>s. if d = 0 then Inl Fault else rbind (rd (adescs s) (unat d - 1)) (\<lambda>x. Inr (x, s)))"

definition upd_adesc :: "u32 \<Rightarrow> (adesc \<Rightarrow> adesc) \<Rightarrow> (heap_state, unit) op" where
  "upd_adesc d f = (\<lambda>s. if d = 0 then Inl Fault
     else rbind (rd (adescs s) (unat d - 1)) (\<lambda>x. Inr ((), s\<lparr>adescs := (adescs s)[unat d - 1 := f x]\<rparr>)))"

definition get_arena :: "u32 \<Rightarrow> (heap_state, arena) op" where
  "get_arena a = sget (\<lambda>s. arenas s a)"

definition put_arena :: "u32 \<Rightarrow> arena \<Rightarrow> (heap_state, unit) op" where
  "put_arena a h = smodify (arenas_update (\<lambda>m. m(a := h)))"

definition zero_arena :: arena where
  "zero_arena = \<lparr>ar_desc = 0, ar_count = 0, ar_large = 0, ar_magic = 0\<rparr>"

text \<open>The headers after \<open>memset\<close> of \<open>len\<close> bytes.\<close>

definition clear_arenas :: "u32 \<Rightarrow> u32 \<Rightarrow> (heap_state, unit) op" where
  "clear_arenas a len = smodify (arenas_update (\<lambda>m x. if x - a < len then zero_arena else m x))"

definition arena_init :: "(heap_state, unit) op" where
  "arena_init = sforeach [0..<DESC_COUNT] (\<lambda>i.
     let block_size = push_bit i 16
     in upd_adesc (of_nat i + 1) (\<lambda>_. \<lparr>ad_total = (PAGE_SIZE - sizeof_arena) div block_size,
          ad_block = block_size, ad_free = []\<rparr>))"

definition get_arena_block :: "u32 \<Rightarrow> u32 \<Rightarrow> (heap_state, u32) op" where
  "get_arena_block a idx =
     sbind (get_arena a) (\<lambda>h.
     sbind (get_adesc (ar_desc h)) (\<lambda>d.
     sbind (sensure (ad_total d > idx)) (\<lambda>_.
     sret (a + sizeof_arena + idx * ad_block d))))"

definition get_block_arena :: "u32 \<Rightarrow> u32" where
  "get_block_arena block = block AND 0xfffff000"

text \<open>\<open>list_push\<close>, \<open>list_pop\<close> and \<open>list_remove\<close> on a free list.\<close>

definition push_free :: "u32 \<Rightarrow> u32 \<Rightarrow> (heap_state, unit) op" where
  "push_free d p = sbind (get_adesc d) (\<lambda>x.
     if p \<in> set (ad_free x) then sfail AssertFail else upd_adesc d (ad_free_update (\<lambda>l. p # l)))"

definition pop_free :: "u32 \<Rightarrow> (heap_state, u32) op" where
  "pop_free d = sbind (get_adesc d) (\<lambda>x.
     case ad_free x of [] \<Rightarrow> sfail AssertFail
     | p # l \<Rightarrow> sbind (upd_adesc d (ad_free_update (\<lambda>_. l))) (\<lambda>_. sret p))"

definition remove_free :: "u32 \<Rightarrow> u32 \<Rightarrow> (heap_state, unit) op" where
  "remove_free d p = sbind (get_adesc d) (\<lambda>x.
     if p \<in> set (ad_free x) then upd_adesc d (ad_free_update (remove1 p)) else sfail AssertFail)"

definition in_free :: "u32 \<Rightarrow> u32 \<Rightarrow> (heap_state, bool) op" where
  "in_free d p = sbind (get_adesc d) (\<lambda>x. sret (p \<in> set (ad_free x)))"

text \<open>The search for a descriptor: \<open>i\<close> is the last one that was looked at.\<close>

primrec pick_desc :: "adesc list \<Rightarrow> u32 \<Rightarrow> u32 \<Rightarrow> u32" where
  "pick_desc [] sz i = i"
| "pick_desc (d # ds) sz i = (if ad_block d \<ge> sz then i + 1 else pick_desc ds sz (i + 1))"

definition fill_block :: "u32 \<Rightarrow> nat \<Rightarrow> (heap_state, unit) op" where
  "fill_block a i =
     sbind (get_arena_block a (of_nat i)) (\<lambda>block.
     sbind (get_arena a) (\<lambda>h.
     sbind (in_free (ar_desc h) block) (\<lambda>found.
     sbind (sensure (\<not> found)) (\<lambda>_.
     sbind (push_free (ar_desc h) block) (\<lambda>_.
     sbind (in_free (ar_desc h) block) (\<lambda>found.
     sensure found))))))"

definition fill_arena :: "u32 \<Rightarrow> (heap_state, unit) op" where
  "fill_arena a = sbind (get_arena a) (\<lambda>h. sforeach [0..<unat (ar_count h)] (fill_block a))"

definition new_arena :: "u32 \<Rightarrow> (heap_state, unit) op" where
  "new_arena d =
     sbind (on_mm (alloc_kpage 1)) (\<lambda>a.
     sbind (clear_arenas a PAGE_SIZE) (\<lambda>_.
     sbind (get_adesc d) (\<lambda>x.
     sbind (put_arena a \<lparr>ar_desc = d, ar_count = ad_total x, ar_large = 0, ar_magic = ONIX_MAGIC\<rparr>) (\<lambda>_.
     fill_arena a))))"

definition kmalloc :: "u32 \<Rightarrow> (heap_state, u32) op" where
  "kmalloc sz =
     (if sz > 1024 then
        sbind (slift (div_round_up (sz + sizeof_arena) PAGE_SIZE)) (\<lambda>count.
        sbind (on_mm (alloc_kpage count)) (\<lambda>a.
        sbind (clear_arenas a (count * PAGE_SIZE)) (\<lambda>_.
        sbind (put_arena a \<lparr>ar_desc = 0, ar_count = count, ar_large = 1, ar_magic = ONIX_MAGIC\<rparr>) (\<lambda>_.
        sret (a + sizeof_arena)))))
      else
        sbind (sget (\<lambda>s. pick_desc (adescs s) sz 0)) (\<lambda>d.
        sbind (sensure (d \<noteq> 0)) (\<lambda>_.
        sbind (get_adesc d) (\<lambda>x.
        sbind (if ad_free x = [] then new_arena d else sret ()) (\<lambda>_.
        sbind (pop_free d) (\<lambda>block.
        sbind (get_arena (get_block_arena block)) (\<lambda>h.
        sbind (sensure (ar_large h = 0 \<and> ar_magic h = ONIX_MAGIC)) (\<lambda>_.
        sbind (put_arena (get_block_arena block) (ar_count_update (\<lambda>c. c - 1) h)) (\<lambda>_.
        sret block)))))))))"

definition drain_block :: "u32 \<Rightarrow> nat \<Rightarrow> (heap_state, unit) op" where
  "drain_block a i =
     sbind (get_arena_block a (of_nat i)) (\<lambda>block.
     sbind (get_arena a) (\<lambda>h.
     sbind (in_free (ar_desc h) block) (\<lambda>found.
     sbind (sensure found) (\<lambda>_.
     sbind (remove_free (ar_desc h) block) (\<lambda>_.
     sbind (in_free (ar_desc h) block) (\<lambda>found.
     sensure (\<not> found)))))))"

definition drain_arena :: "u32 \<Rightarrow> (heap_state, unit) op" where
  "drain_arena a =
     sbind (get_arena a) (\<lambda>h.
     sbind (get_adesc (ar_desc h)) (\<lambda>x. sforeach [0..<unat (ad_total x)] (drain_block a)))"

definition kfree :: "u32 \<Rightarrow> (heap_state, unit) op" where
  "kfree ptr =
     sbind (sensure (ptr \<noteq> 0)) (\<lambda>_.
     let a = get_block_arena ptr
     in sbind (get_arena a) (\<lambda>h.
        sbind (sensure (ar_magic h = ONIX_MAGIC)) (\<lambda>_.
        if ar_large h = 1 then on_mm (free_kpage a (ar_count h))
        else sbind (put_arena a (ar_count_update (\<lambda>c. c + 1) h)) (\<lambda>_.
             sbind (push_free (ar_desc h) ptr) (\<lambda>_.
             sbind (get_adesc (ar_desc h)) (\<lambda>x.
             if ar_count h + 1 = ad_total x
             then sbind (drain_arena a) (\<lambda>_. on_mm (free_kpage a 1))
             else sret ()))))))"

end
