(* ===== verification/Arena_Inv.thy ===== *)
theory Arena_Inv
  imports Arena
begin

text \<open>
  The invariant of the allocator of \<open>Arena\<close>. The geometry of a page of blocks comes first: the blocks
  of an arena are disjoint, lie behind its header, and rounding down the address of one gives the arena.
  \<open>heap_rep U s H\<close> relates a state to the blocks in use, \<open>H\<close>, and to the kernel pages \<open>U\<close> that others have;
  then come the four changes that the operations make: a large arena or a page of blocks is added, the
  free list changes on one page, an arena is given back.
\<close>

subsection \<open>Blocks and pages\<close>

definition bsz :: "u32 \<Rightarrow> nat" where
  "bsz d = 16 * 2 ^ (unat d - 1)"

definition bcnt :: "u32 \<Rightarrow> nat" where
  "bcnt d = 4080 div bsz d"

definition blk :: "u32 \<Rightarrow> u32 \<Rightarrow> nat \<Rightarrow> u32" where
  "blk a d i = a + 16 + of_nat (i * bsz d)"

definition blk_bytes :: "u32 \<Rightarrow> u32 \<Rightarrow> nat set" where
  "blk_bytes p d = {unat p..<unat p + bsz d}"

definition page_blocks :: "u32 \<Rightarrow> u32 \<Rightarrow> u32 set" where
  "page_blocks a d = blk a d ` {..<bcnt d}"

definition run_bytes :: "u32 \<Rightarrow> u32 \<Rightarrow> nat set" where
  "run_bytes a n = {unat a..<unat a + 4096 * unat n}"

lemma bsz_pos [simp]: "0 < bsz d"
  by (simp add: bsz_def)

lemma blk_in_page: "i < bcnt d \<Longrightarrow> i * bsz d + bsz d \<le> 4080"
proof -
  assume "i < bcnt d"
  then have "Suc i * bsz d \<le> bcnt d * bsz d" by (intro mult_le_mono1) simp
  also have "\<dots> \<le> 4080" by (simp add: bcnt_def)
  finally show ?thesis by simp
qed

lemma aligned_mult: "page_aligned a \<Longrightarrow> unat a = 4096 * unat (IDX a)"
  using mult_div_mod_eq [of 4096 "unat a"] by (simp add: unat_IDX page_aligned_unat)

lemma aligned_room: "page_aligned a \<Longrightarrow> unat a + 4096 \<le> 2 ^ 32"
  using unat_IDX_less [of a] by (simp add: aligned_mult)

lemma unat_blk:
  assumes "page_aligned a" "i < bcnt d"
  shows "unat (blk a d i) = unat a + 16 + i * bsz d"
proof -
  let ?k = "16 + i * bsz d"
  have k: "?k < 4096" using blk_in_page [OF assms(2)] bsz_pos [of d] by linarith
  then have u: "unat (of_nat ?k :: u32) = ?k" by (intro unat_of_nat_32) simp
  have "blk a d i = a + of_nat ?k" by (simp add: blk_def)
  moreover have "unat (a + of_nat ?k) = unat a + ?k"
    using aligned_room [OF assms(1)] k by (subst unat_add_32) (simp_all only: u)
  ultimately show ?thesis by simp
qed

lemma get_block_arena_PAGE: "get_block_arena p = PAGE (IDX p)"
proof -
  have m: "(0xfffff000 :: u32) = NOT (mask 12)" by (simp add: mask_eq_exp_minus_1)
  show ?thesis
    unfolding get_block_arena_def PAGE_def IDX_def m
    by (intro bit_word_eqI) (auto simp: bit_simps)
qed

lemma get_block_arena_in:
  assumes "page_aligned a" "unat a \<le> unat p" "unat p < unat a + 4096"
  shows "get_block_arena p = a"
proof -
  have "unat p div 4096 = unat (IDX a)"
    using assms(2,3) unfolding aligned_mult [OF assms(1)] by (intro div_nat_eqI) simp_all
  then have "IDX p = IDX a" by (simp add: u32_eq_iff unat_IDX)
  then show ?thesis using PAGE_IDX [OF assms(1)] by (simp add: get_block_arena_PAGE)
qed

lemma page_blocks_arena:
  assumes "page_aligned a" "p \<in> page_blocks a d"
  shows "get_block_arena p = a" "blk_bytes p d \<subseteq> {unat a + 16..<unat a + 4096}" "unat a + 16 \<le> unat p"
proof -
  obtain i where i: "i < bcnt d" "p = blk a d i" using assms(2) by (auto simp: page_blocks_def)
  note u = unat_blk [OF assms(1) i(1)]
  have b: "i * bsz d + bsz d \<le> 4080" using blk_in_page [OF i(1)] .
  then have b': "i * bsz d < 4080" using bsz_pos [of d] by linarith
  show "unat a + 16 \<le> unat p" by (simp add: i(2) u)
  show "get_block_arena p = a"
    using b b' by (intro get_block_arena_in [OF assms(1)]) (simp_all add: i(2) u)
  show "blk_bytes p d \<subseteq> {unat a + 16..<unat a + 4096}"
    using b by (auto simp: blk_bytes_def i(2) u)
qed

lemma blk_disjoint:
  assumes "page_aligned a" "p \<in> page_blocks a d" "q \<in> page_blocks a d" "p \<noteq> q"
  shows "blk_bytes p d \<inter> blk_bytes q d = {}"
proof -
  have *: "blk_bytes (blk a d i) d \<inter> blk_bytes (blk a d j) d = {}" if "i < j" "j < bcnt d" for i j
  proof -
    have "Suc i * bsz d \<le> j * bsz d" using that(1) by (intro mult_le_mono1) simp
    then show ?thesis using that by (auto simp: blk_bytes_def unat_blk [OF assms(1)])
  qed
  obtain i j where "i < bcnt d" "p = blk a d i" "j < bcnt d" "q = blk a d j"
    using assms(2,3) by (auto simp: page_blocks_def)
  then show ?thesis using * [of i j] * [of j i] assms(4) by (cases i j rule: linorder_cases) auto
qed

lemma inj_blk: "page_aligned a \<Longrightarrow> inj_on (blk a d) {..<bcnt d}"
proof (rule inj_onI)
  fix i j assume "page_aligned a" "i \<in> {..<bcnt d}" "j \<in> {..<bcnt d}" "blk a d i = blk a d j"
  then have "unat a + 16 + i * bsz d = unat a + 16 + j * bsz d" using unat_blk by (metis lessThan_iff)
  then show "i = j" using bsz_pos [of d] by simp
qed

lemma card_page_blocks: "page_aligned a \<Longrightarrow> card (page_blocks a d) = bcnt d"
  by (simp add: page_blocks_def card_image inj_blk)

lemma run_bytes_disjoint:
  assumes "page_aligned a" "page_aligned b" "page_run a n \<inter> page_run b m = {}"
  shows "run_bytes a n \<inter> run_bytes b m = {}"
proof -
  have "x div 4096 \<in> page_run c k" if "x \<in> run_bytes c k" "page_aligned c" for x c k
  proof -
    have "4096 * unat (IDX c) \<le> x" "x < (unat (IDX c) + unat k) * 4096"
      using that(1) unfolding run_bytes_def aligned_mult [OF that(2)] by simp_all
    then show ?thesis by (simp add: page_run_def less_mult_imp_div_less less_eq_div_iff_mult_less_eq)
  qed
  then show ?thesis using assms by blast
qed

lemma head_in_run: "0 < n \<Longrightarrow> page_aligned a \<Longrightarrow> unat (IDX a) \<in> page_run a n"
  by (simp add: page_run_def word_less_nat_alt)

text \<open>A header outside a run of pages is not cleared with it.\<close>

lemma outside_run:
  assumes "page_aligned a" "page_aligned b" "unat (IDX a) + unat n \<le> 2 ^ 20" "0 < n" "unat (IDX b) \<notin> page_run a n"
  shows "\<not> b - a < n * PAGE_SIZE"
proof -
  have a: "unat a = 4096 * unat (IDX a)" "unat b = 4096 * unat (IDX b)"
    using aligned_mult [OF assms(1)] aligned_mult [OF assms(2)] by blast+
  have n: "unat (n * PAGE_SIZE) = unat n * 4096 mod 2 ^ 32" by (simp add: unat_word_ariths)
  show ?thesis
  proof (cases "unat a \<le> unat b")
    case True
    then have d: "unat (b - a) = unat b - unat a" by (rule unat_sub_32)
    have "unat (IDX a) + unat n \<le> unat (IDX b)"
      using assms(5) True a by (simp add: page_run_def)
    then have "unat n * 4096 \<le> unat b - unat a" using a by simp
    moreover have "unat n * 4096 mod 2 ^ 32 \<le> unat n * 4096" by simp
    ultimately show ?thesis using d n unfolding word_less_nat_alt by linarith
  next
    case False
    have d1: "unat (a - b) = unat a - unat b" using False by (intro unat_sub_32) simp
    have "unat (a - b + (b - a)) = (unat (a - b) + unat (b - a)) mod 2 ^ 32" by (subst unat_word_ariths) simp
    then have "(unat (a - b) + unat (b - a)) mod 2 ^ 32 = 0" by simp
    then have "2 ^ 32 \<le> unat (a - b) + unat (b - a)"
      using d1 False by (intro leI notI) (simp add: mod_less)
    then have d: "2 ^ 32 - (unat a - unat b) \<le> unat (b - a)" using d1 by linarith
    have "unat n * 4096 mod 2 ^ 32 \<le> unat n * 4096" by simp
    moreover have "unat n * 4096 + unat a \<le> 2 ^ 32" using assms(3) a by simp
    ultimately show ?thesis using d n unfolding word_less_nat_alt by linarith
  qed
qed

subsection \<open>The invariant\<close>

definition valid_d :: "u32 \<Rightarrow> bool" where
  "valid_d d \<longleftrightarrow> d \<noteq> 0 \<and> unat d \<le> 7"

definition desc_at :: "heap_state \<Rightarrow> u32 \<Rightarrow> adesc" where
  "desc_at s d = adescs s ! (unat d - 1)"

definition freed :: "heap_state \<Rightarrow> u32 \<Rightarrow> u32 set" where
  "freed s d = set (ad_free (desc_at s d))"

definition npages :: "arena \<Rightarrow> u32" where
  "npages h = (if ar_large h = 1 then ar_count h else 1)"

definition kmap :: "heap_state \<Rightarrow> bitmap" where
  "kmap s = kernel_map (kmm s)"

definition run_of :: "heap_state \<Rightarrow> u32 \<Rightarrow> nat set" where
  "run_of s a = page_run a (npages (arenas s a))"

definition descs_ok :: "heap_state \<Rightarrow> bool" where
  "descs_ok s \<longleftrightarrow> length (adescs s) = 7 \<and> (\<forall>d. valid_d d \<longrightarrow>
     unat (ad_block (desc_at s d)) = bsz d \<and> unat (ad_total (desc_at s d)) = bcnt d \<and> distinct (ad_free (desc_at s d)))"

definition small_ok :: "bool \<Rightarrow> heap_state \<Rightarrow> u32 \<Rightarrow> arena \<Rightarrow> bool" where
  "small_ok full s a h \<longleftrightarrow> ar_large h = 0 \<and> valid_d (ar_desc h) \<and>
     unat (ar_count h) = card (page_blocks a (ar_desc h) \<inter> freed s (ar_desc h)) \<and> (full \<or> unat (ar_count h) < bcnt (ar_desc h))"

definition arena_ok :: "bool \<Rightarrow> heap_state \<Rightarrow> u32 \<Rightarrow> bool" where
  "arena_ok full s a \<longleftrightarrow> page_aligned a \<and> ar_magic (arenas s a) = ONIX_MAGIC \<and> run_fits (kmap s) a (npages (arenas s a)) \<and>
     (ar_large (arenas s a) = 1 \<and> 0 < ar_count (arenas s a) \<or> small_ok full s a (arenas s a))"

definition free_ok :: "heap_state \<Rightarrow> u32 set \<Rightarrow> bool" where
  "free_ok s P \<longleftrightarrow> (\<forall>d. valid_d d \<longrightarrow> (\<forall>p\<in>freed s d. get_block_arena p \<in> P \<and> ar_large (arenas s (get_block_arena p)) = 0 \<and>
     ar_desc (arenas s (get_block_arena p)) = d \<and> p \<in> page_blocks (get_block_arena p) d))"

text \<open>
  \<open>P\<close> are the first pages of the arenas, \<open>U\<close> the kernel pages that others have. In the middle of an
  operation the arenas of \<open>Q\<close> may have all their blocks free.
\<close>

definition arena_inv :: "nat set \<Rightarrow> u32 set \<Rightarrow> heap_state \<Rightarrow> u32 set \<Rightarrow> bool" where
  "arena_inv U Q s P \<longleftrightarrow> descs_ok s \<and> page_bitmap (kmap s) \<and> (\<forall>a\<in>P. arena_ok (a \<in> Q) s a) \<and>
     (\<forall>a\<in>P. \<forall>b\<in>P. a \<noteq> b \<longrightarrow> run_of s a \<inter> run_of s b = {}) \<and>
     page_bits (kmap s) = U \<union> (\<Union>a\<in>P. run_of s a) \<and> U \<inter> (\<Union>a\<in>P. run_of s a) = {} \<and> free_ok s P"

definition block_at :: "heap_state \<Rightarrow> u32 \<Rightarrow> u32 \<Rightarrow> nat set option" where
  "block_at s a p = (let h = arenas s a in
     if ar_large h = 1 then (if p = a + 16 then Some {unat a + 16..<unat a + 4096 * unat (ar_count h)} else None)
     else if p \<in> page_blocks a (ar_desc h) - freed s (ar_desc h) then Some (blk_bytes p (ar_desc h)) else None)"

definition blocks_of :: "heap_state \<Rightarrow> u32 set \<Rightarrow> u32 \<Rightarrow> nat set option" where
  "blocks_of s P p = (if get_block_arena p \<in> P then block_at s (get_block_arena p) p else None)"

definition heap_rep :: "nat set \<Rightarrow> heap_state \<Rightarrow> (u32 \<Rightarrow> nat set option) \<Rightarrow> bool" where
  "heap_rep U s H \<longleftrightarrow> (\<exists>P. arena_inv U {} s P \<and> H = blocks_of s P)"

lemma arena_invD:
  assumes "arena_inv U Q s P"
  shows "descs_ok s" "page_bitmap (kmap s)" "a \<in> P \<Longrightarrow> arena_ok (a \<in> Q) s a"
    "a \<in> P \<Longrightarrow> b \<in> P \<Longrightarrow> a \<noteq> b \<Longrightarrow> run_of s a \<inter> run_of s b = {}"
    "page_bits (kmap s) = U \<union> (\<Union>a\<in>P. run_of s a)" "U \<inter> (\<Union>a\<in>P. run_of s a) = {}" "free_ok s P"
  using assms by (auto simp: arena_inv_def)

lemma descs_okD:
  assumes "descs_ok s" "valid_d d"
  shows "unat (ad_block (desc_at s d)) = bsz d" "unat (ad_total (desc_at s d)) = bcnt d" "distinct (ad_free (desc_at s d))"
    "unat d - 1 < length (adescs s)" "get_adesc d s = Inr (desc_at s d, s)"
  using assms by (auto simp: descs_ok_def valid_d_def get_adesc_def desc_at_def unat_eq_0)

lemma arena_okD:
  assumes "arena_ok full s a"
  shows "page_aligned a" "ar_magic (arenas s a) = ONIX_MAGIC" "run_fits (kmap s) a (npages (arenas s a))"
    "0 < npages (arenas s a)" "unat (IDX a) \<in> run_of s a"
proof -
  show *: "page_aligned a" "ar_magic (arenas s a) = ONIX_MAGIC" "run_fits (kmap s) a (npages (arenas s a))"
    "0 < npages (arenas s a)" using assms by (auto simp: arena_ok_def npages_def small_ok_def)
  show "unat (IDX a) \<in> run_of s a" using head_in_run [OF *(4,1)] by (simp add: run_of_def)
qed

lemma unat_plus_16: "page_aligned a \<Longrightarrow> unat (a + 16) = unat a + 16"
  using aligned_room [of a] by (subst unat_add_32) simp_all

lemma get_block_arena_16: "page_aligned a \<Longrightarrow> get_block_arena (a + 16) = a"
  by (rule get_block_arena_in) (simp_all add: unat_plus_16)

text \<open>The bytes of a block lie in the pages of its arena.\<close>

lemma block_in_run:
  assumes "arena_ok full s a" "block_at s a p = Some E"
  shows "E \<subseteq> run_bytes a (npages (arenas s a))"
proof (cases "ar_large (arenas s a) = 1")
  case True
  then show ?thesis using assms(2) by (auto simp: block_at_def run_bytes_def npages_def split: if_splits)
next
  case False
  then have "p \<in> page_blocks a (ar_desc (arenas s a))" "E = blk_bytes p (ar_desc (arenas s a))"
    using assms(2) by (auto simp: block_at_def Let_def split: if_splits)
  with page_blocks_arena(2) [OF arena_okD(1) [OF assms(1)]] False show ?thesis
    by (force simp: run_bytes_def npages_def)
qed

lemma blocks_disjoint:
  assumes inv: "arena_inv U Q s P" and "blocks_of s P p = Some E" "blocks_of s P q = Some F" "p \<noteq> q"
  shows "E \<inter> F = {}"
proof -
  let ?a = "get_block_arena p" and ?b = "get_block_arena q"
  have a: "?a \<in> P" "block_at s ?a p = Some E" "?b \<in> P" "block_at s ?b q = Some F"
    using assms(2,3) by (auto simp: blocks_of_def split: if_splits)
  note ok = arena_invD(3) [OF inv a(1)] arena_invD(3) [OF inv a(3)]
  show ?thesis
  proof (cases "?a = ?b")
    case True
    show ?thesis
    proof (cases "ar_large (arenas s ?a) = 1")
      case False
      then have "p \<in> page_blocks ?a (ar_desc (arenas s ?a))" "q \<in> page_blocks ?a (ar_desc (arenas s ?a))"
        "E = blk_bytes p (ar_desc (arenas s ?a))" "F = blk_bytes q (ar_desc (arenas s ?a))"
        using a(2,4) True by (auto simp: block_at_def Let_def split: if_splits)
      then show ?thesis using blk_disjoint [OF arena_okD(1) [OF ok(1)]] assms(4) by simp
    qed (use a(2,4) True assms(4) in \<open>auto simp: block_at_def split: if_splits\<close>)
  next
    case False
    have "run_bytes ?a (npages (arenas s ?a)) \<inter> run_bytes ?b (npages (arenas s ?b)) = {}"
      using arena_invD(4) [OF inv a(1,3) False] arena_okD(1) [OF ok(1)] arena_okD(1) [OF ok(2)]
      by (intro run_bytes_disjoint) (simp_all add: run_of_def)
    then show ?thesis using block_in_run [OF ok(1) a(2)] block_in_run [OF ok(2) a(4)] by blast
  qed
qed

subsection \<open>New pages\<close>

definition take_pages :: "u32 \<Rightarrow> u32 \<Rightarrow> bitmap \<Rightarrow> heap_state \<Rightarrow> heap_state" where
  "take_pages a n bm s = s\<lparr>kmm := (kmm s)\<lparr>kernel_map := bm\<rparr>,
     arenas := (\<lambda>x. if x - a < n * PAGE_SIZE then zero_arena else arenas s x)\<rparr>"

definition set_arena :: "u32 \<Rightarrow> arena \<Rightarrow> heap_state \<Rightarrow> heap_state" where
  "set_arena a h s = s\<lparr>arenas := (arenas s)(a := h)\<rparr>"

definition set_free :: "u32 \<Rightarrow> u32 list \<Rightarrow> heap_state \<Rightarrow> heap_state" where
  "set_free d l s = s\<lparr>adescs := (adescs s)[unat d - 1 := (desc_at s d)\<lparr>ad_free := l\<rparr>]\<rparr>"

lemma change_simps [simp]:
  "desc_at (take_pages a n bm s) d = desc_at s d" "kmap (take_pages a n bm s) = bm"
  "desc_at (set_arena a h s) d = desc_at s d" "kmap (set_arena a h s) = kmap s"
  "arenas (set_free d l s) = arenas s" "kmap (set_free d l s) = kmap s"
  "adescs (take_pages a n bm s) = adescs s" "adescs (set_arena a h s) = adescs s"
  "arenas (set_arena a h s) = (arenas s)(a := h)" "length (adescs (set_free d l s)) = length (adescs s)"
  by (simp_all add: take_pages_def set_arena_def set_free_def desc_at_def kmap_def)

lemma freed_change [simp]:
  "freed (take_pages a n bm s) d = freed s d" "freed (set_arena a h s) d = freed s d"
  by (simp_all add: freed_def)

lemma valid_d_eq: "valid_d d \<Longrightarrow> valid_d e \<Longrightarrow> unat d - 1 = unat e - 1 \<longleftrightarrow> d = e"
proof -
  assume "valid_d d" "valid_d e"
  then have "0 < unat d" "0 < unat e" by (auto simp: valid_d_def unat_gt_0)
  then show ?thesis by (auto simp: u32_eq_iff)
qed

lemma desc_set_free:
  assumes "descs_ok s" "valid_d d" "valid_d e"
  shows "desc_at (set_free d l s) e = (if e = d then (desc_at s d)\<lparr>ad_free := l\<rparr> else desc_at s e)"
    "freed (set_free d l s) e = (if e = d then set l else freed s e)"
  using descs_okD(4) [OF assms(1,3)] valid_d_eq [OF assms(2,3)]
  by (auto simp: desc_at_def set_free_def nth_list_update freed_def)

lemma descs_ok_change:
  "descs_ok (take_pages a n bm s) = descs_ok s" "descs_ok (set_arena a h s) = descs_ok s"
  "descs_ok s \<Longrightarrow> valid_d d \<Longrightarrow> distinct l \<Longrightarrow> descs_ok (set_free d l s)"
proof -
  show "descs_ok (take_pages a n bm s) = descs_ok s" "descs_ok (set_arena a h s) = descs_ok s"
    by (simp_all add: descs_ok_def)
  assume *: "descs_ok s" "valid_d d" "distinct l"
  then show "descs_ok (set_free d l s)"
    by (simp add: descs_ok_def desc_set_free [OF *(1,2)])
qed

lemma one_pos_32: "0 < (1 :: u32)"
  by simp

lemma run_of_bits: "arena_inv U Q s P \<Longrightarrow> b \<in> P \<Longrightarrow> run_of s b \<subseteq> page_bits (kmap s)"
  by (auto simp: arena_inv_def)

lemma scanned:
  assumes inv: "arena_inv U Q s P" and n: "0 < n" and sc: "scan_page (kmap s) n = Inr (a, bm)"
  shows "page_aligned a" "run_fits bm a n" "page_run a n \<inter> page_bits (kmap s) = {}"
    "page_bits bm = page_bits (kmap s) \<union> page_run a n" "page_bitmap bm" "a \<notin> P"
    "\<And>b m. run_fits bm b m = run_fits (kmap s) b m"
    "b \<in> P \<Longrightarrow> arenas (take_pages a n bm s) b = arenas s b \<and> b \<noteq> a"
proof -
  have law: "page_bitmap bm" "run_fits bm a n" "page_run a n \<inter> page_bits (kmap s) = {}"
    "page_bits bm = page_bits (kmap s) \<union> page_run a n"
    using pages.alloc_law [OF arena_invD(2) [OF inv] n sc] by simp_all
  then show "run_fits bm a n" "page_run a n \<inter> page_bits (kmap s) = {}"
    "page_bits bm = page_bits (kmap s) \<union> page_run a n" "page_bitmap bm" by simp_all
  show al: "page_aligned a" using law(2) by (simp add: run_fits_def)
  show "run_fits bm b m = run_fits (kmap s) b m" for b m
    using pages.alloc_fits [OF arena_invD(2) [OF inv] n sc] .
  have out: "unat (IDX b) \<notin> page_run a n" if "b \<in> P" for b
    using that run_of_bits [OF inv that] arena_okD(5) [OF arena_invD(3) [OF inv that]] law(3) by blast
  show "a \<notin> P" using out head_in_run [OF n al] by blast
  have "unat (IDX a) + unat n \<le> 2 ^ 20" using law(1,2) by (simp add: run_fits_def page_bitmap_def)
  then show "arenas (take_pages a n bm s) b = arenas s b \<and> b \<noteq> a" if "b \<in> P"
    using outside_run [OF al arena_okD(1) [OF arena_invD(3) [OF inv that]] _ n out [OF that]] \<open>a \<notin> P\<close> that
    by (auto simp: take_pages_def)
qed

text \<open>What a new arena \<open>h\<close> at \<open>a\<close> does to the pages; the free lists are left to the two cases.\<close>

lemma add_run:
  assumes inv: "arena_inv U Q s P" and n: "0 < n" and sc: "scan_page (kmap s) n = Inr (a, bm)" and h: "npages h = n"
    and s': "kmap s' = bm" "arenas s' = (arenas (take_pages a n bm s))(a := h)"
  shows "a \<notin> P" "\<And>b. b \<in> P \<Longrightarrow> arenas s' b = arenas s b \<and> run_of s' b = run_of s b \<and> b \<noteq> a" "run_of s' a = page_run a n"
    "\<forall>x\<in>insert a P. \<forall>y\<in>insert a P. x \<noteq> y \<longrightarrow> run_of s' x \<inter> run_of s' y = {}"
    "page_bits (kmap s') = U \<union> (\<Union>x\<in>insert a P. run_of s' x)" "U \<inter> (\<Union>x\<in>insert a P. run_of s' x) = {}"
proof -
  note S = scanned [OF inv n sc]
  show aP: "a \<notin> P" by (rule S)
  show old: "arenas s' b = arenas s b \<and> run_of s' b = run_of s b \<and> b \<noteq> a" if "b \<in> P" for b
    using S(8) [OF that] by (simp add: s' run_of_def)
  show new: "run_of s' a = page_run a n" by (simp add: s' run_of_def h)
  have dis: "page_run a n \<inter> run_of s b = {}" if "b \<in> P" for b
    using run_of_bits [OF inv that] S(3) by blast
  have "x \<in> P \<Longrightarrow> y \<in> P \<Longrightarrow> x \<noteq> y \<Longrightarrow> run_of s' x \<inter> run_of s' y = {}" for x y
    using old arena_invD(4) [OF inv] by simp
  moreover have "x \<in> P \<Longrightarrow> run_of s' x \<inter> run_of s' a = {}" for x
    using old dis new by blast
  ultimately show "\<forall>x\<in>insert a P. \<forall>y\<in>insert a P. x \<noteq> y \<longrightarrow> run_of s' x \<inter> run_of s' y = {}"
    by (metis inf_commute insert_iff)
  have U: "(\<Union>x\<in>insert a P. run_of s' x) = page_run a n \<union> (\<Union>x\<in>P. run_of s x)"
    using old new by auto
  show "page_bits (kmap s') = U \<union> (\<Union>x\<in>insert a P. run_of s' x)"
    unfolding U s'(1) S(4) arena_invD(5) [OF inv] by blast
  show "U \<inter> (\<Union>x\<in>insert a P. run_of s' x) = {}"
    unfolding U using arena_invD(5,6) [OF inv] S(3) by blast
qed

lemma arena_ok_cong:
  assumes "arenas s' b = arenas s b" "kmap s' = bm" "\<And>m. run_fits bm b m = run_fits (kmap s) b m"
    and "ar_large (arenas s b) = 0 \<Longrightarrow> valid_d (ar_desc (arenas s b)) \<Longrightarrow>
      page_blocks b (ar_desc (arenas s b)) \<inter> freed s' (ar_desc (arenas s b)) = page_blocks b (ar_desc (arenas s b)) \<inter> freed s (ar_desc (arenas s b))"
  shows "arena_ok full s' b = arena_ok full s b"
  using assms by (auto simp: arena_ok_def small_ok_def)

definition large_arena :: "u32 \<Rightarrow> arena" where
  "large_arena n = \<lparr>ar_desc = 0, ar_count = n, ar_large = 1, ar_magic = ONIX_MAGIC\<rparr>"

lemma add_large:
  assumes inv: "arena_inv U {} s P" and n: "0 < n" and sc: "scan_page (kmap s) n = Inr (a, bm)"
  defines "s' \<equiv> set_arena a (large_arena n) (take_pages a n bm s)"
  shows "arena_inv U {} s' (insert a P)" "blocks_of s P (a + 16) = None"
    "blocks_of s' (insert a P) = (blocks_of s P)(a + 16 \<mapsto> {unat a + 16..<unat a + 4096 * unat n})"
proof -
  note S = scanned [OF inv n sc]
  have s': "kmap s' = bm" "arenas s' = (arenas (take_pages a n bm s))(a := large_arena n)" "\<And>d. freed s' d = freed s d"
    by (simp_all add: s'_def)
  have h: "npages (large_arena n) = n" by (simp add: large_arena_def npages_def)
  note A = add_run [OF inv n sc h s'(1,2)]
  have ok: "arena_ok False s' b" if "b \<in> P" for b
  proof -
    have "arena_ok False s' b = arena_ok False s b"
      using A(2) [OF that] s'(1,3) S(7) by (intro arena_ok_cong [where bm = bm]) simp_all
    then show ?thesis using arena_invD(3) [OF inv that] by simp
  qed
  have oka: "arena_ok False s' a"
    using S(1,2) n by (simp add: arena_ok_def s' large_arena_def npages_def)
  have fr: "free_ok s' (insert a P)"
    using arena_invD(7) [OF inv] A(2) by (auto simp: free_ok_def s'(3))
  show "arena_inv U {} s' (insert a P)"
    unfolding arena_inv_def
  proof (intro conjI)
    show "descs_ok s'" using arena_invD(1) [OF inv] by (simp add: s'_def descs_ok_change)
    show "page_bitmap (kmap s')" using S(5) s'(1) by simp
  qed (use ok oka A(4-6) fr in auto)
  show none: "blocks_of s P (a + 16) = None"
    using A(1) get_block_arena_16 [OF S(1)] by (simp add: blocks_of_def)
  show "blocks_of s' (insert a P) = (blocks_of s P)(a + 16 \<mapsto> {unat a + 16..<unat a + 4096 * unat n})"
  proof
    fix p
    show "blocks_of s' (insert a P) p = ((blocks_of s P)(a + 16 \<mapsto> {unat a + 16..<unat a + 4096 * unat n})) p"
    proof (cases "get_block_arena p = a")
      case True
      then show ?thesis using A(1) by (simp add: blocks_of_def block_at_def s'(2) large_arena_def)
    next
      case False
      then have "p \<noteq> a + 16" using get_block_arena_16 [OF S(1)] by auto
      moreover have "block_at s' (get_block_arena p) p = block_at s (get_block_arena p) p" if "get_block_arena p \<in> P"
        using A(2) [OF that] by (simp add: block_at_def Let_def s'(3))
      ultimately show ?thesis using False by (simp add: blocks_of_def)
    qed
  qed
qed

lemma other_page_blocks:
  "page_aligned a \<Longrightarrow> page_aligned b \<Longrightarrow> a \<noteq> b \<Longrightarrow> page_blocks a d \<inter> page_blocks b e = {}"
  using page_blocks_arena(1) by blast

lemma add_small:
  assumes inv: "arena_inv U {} s P" and sc: "scan_page (kmap s) 1 = Inr (a, bm)" and d: "valid_d d" and e: "freed s d = {}"
    and l: "distinct l" "set l = page_blocks a d" and h: "h = \<lparr>ar_desc = d, ar_count = ad_total (desc_at s d), ar_large = 0, ar_magic = ONIX_MAGIC\<rparr>"
  defines "s' \<equiv> set_free d l (set_arena a h (take_pages a 1 bm s))"
  shows "arena_inv U {a} s' (insert a P)" "blocks_of s' (insert a P) = blocks_of s P"
proof -
  note S = scanned [OF inv one_pos_32 sc]
  note D = arena_invD(1) [OF inv]
  have D': "descs_ok (set_arena a h (take_pages a 1 bm s))" using D by (simp add: descs_ok_change)
  have s': "kmap s' = bm" "arenas s' = (arenas (take_pages a 1 bm s))(a := h)"
    by (simp_all add: s'_def)
  have fr: "freed s' c = (if c = d then set l else freed s c)" if "valid_d c" for c
    using desc_set_free(2) [OF D' d that] by (simp add: s'_def)
  have h1: "npages h = 1" by (simp add: h npages_def)
  note A = add_run [OF inv one_pos_32 sc h1 s']
  have apart: "page_blocks b c \<inter> page_blocks a d = {}" if "b \<in> P" for b c
    using other_page_blocks [OF arena_okD(1) [OF arena_invD(3) [OF inv that]] S(1)] A(1) that by blast
  have ok: "arena_ok False s' b" if "b \<in> P" for b
  proof -
    have "arena_ok False s' b = arena_ok False s b"
      using A(2) [OF that] s'(1) S(7) apart [OF that] e l(2) by (intro arena_ok_cong [where bm = bm]) (auto simp: fr)
    then show ?thesis using arena_invD(3) [OF inv that] by simp
  qed
  have cnt: "unat (ar_count h) = card (page_blocks a d)"
    using descs_okD(2) [OF D d] card_page_blocks [OF S(1)] by (simp add: h)
  then have oka: "arena_ok True s' a"
    using S(1,2) d fr [OF d] l(2) by (simp add: arena_ok_def s' npages_def small_ok_def) (simp add: h)
  have pa: "get_block_arena p = a" if "p \<in> set l" for p
    using page_blocks_arena(1) [OF S(1)] that l(2) by blast
  have free: "free_ok s' (insert a P)"
    unfolding free_ok_def
  proof (intro allI impI ballI)
    fix c p assume c: "valid_d c" "p \<in> freed s' c"
    let ?b = "get_block_arena p"
    show "?b \<in> insert a P \<and> ar_large (arenas s' ?b) = 0 \<and> ar_desc (arenas s' ?b) = c \<and> p \<in> page_blocks ?b c"
    proof (cases "c = d")
      case True
      then have "p \<in> set l" using c fr by simp
      then show ?thesis using pa l(2) True by (simp add: s'(2) h)
    next
      case False
      then have "p \<in> freed s c" using c fr by simp
      then have "?b \<in> P" "ar_large (arenas s ?b) = 0 \<and> ar_desc (arenas s ?b) = c \<and> p \<in> page_blocks ?b c"
        using arena_invD(7) [OF inv] c(1) by (auto simp: free_ok_def)
      then show ?thesis using A(2) by simp
    qed
  qed
  show "arena_inv U {a} s' (insert a P)"
    unfolding arena_inv_def
  proof (intro conjI)
    show "descs_ok s'" unfolding s'_def by (rule descs_ok_change(3) [OF D' d l(1)])
    show "page_bitmap (kmap s')" using S(5) s'(1) by simp
    have "arena_ok (x \<in> {a}) s' x" if "x \<in> insert a P" for x
      using that ok oka by (cases "x = a") simp_all
    then show "\<forall>x\<in>insert a P. arena_ok (x \<in> {a}) s' x" by blast
  qed (use A(4-6) free in auto)
  show "blocks_of s' (insert a P) = blocks_of s P"
  proof
    fix p
    show "blocks_of s' (insert a P) p = blocks_of s P p"
    proof (cases "get_block_arena p = a")
      case True
      then show ?thesis using A(1) l(2) fr [OF d] by (simp add: blocks_of_def block_at_def s'(2)) (simp add: h)
    next
      case False
      have "block_at s' b p = block_at s b p" if "b \<in> P" "get_block_arena p = b" for b
      proof -
        let ?c = "ar_desc (arenas s b)"
        have "ar_large (arenas s b) = 1 \<or> valid_d ?c" using arena_invD(3) [OF inv that(1)] by (auto simp: arena_ok_def small_ok_def)
        moreover have "p \<in> freed s' ?c \<longleftrightarrow> p \<in> freed s ?c" if "valid_d ?c"
          using fr [OF that] e pa False by (auto split: if_splits)
        ultimately show ?thesis using A(2) [OF that(1)] by (auto simp: block_at_def Let_def)
      qed
      then show ?thesis using False by (simp add: blocks_of_def)
    qed
  qed
qed

subsection \<open>Taking and returning a block\<close>

text \<open>The free list of the descriptor of the arena \<open>a\<close> changes on the page of \<open>a\<close> only.\<close>

lemma change_free:
  assumes inv: "arena_inv U Q s P" and a: "a \<in> P" "ar_large (arenas s a) = 0" "ar_desc (arenas s a) = d"
    and l: "distinct l" "set l - page_blocks a d = freed s d - page_blocks a d"
    and c: "unat c = card (page_blocks a d \<inter> set l)" and full: "a \<in> Q' \<or> unat c < bcnt d" and Q: "Q - {a} = Q' - {a}"
  defines "s' \<equiv> set_arena a ((arenas s a)\<lparr>ar_count := c\<rparr>) (set_free d l s)"
  shows "arena_inv U Q' s' P"
    "blocks_of s' P = (\<lambda>p. if get_block_arena p = a then (if p \<in> page_blocks a d - set l then Some (blk_bytes p d) else None)
       else blocks_of s P p)"
proof -
  note ok = arena_invD(3) [OF inv a(1)] and D = arena_invD(1) [OF inv]
  have al: "page_aligned a" by (rule arena_okD(1) [OF ok])
  have d: "valid_d d" using ok a(2,3) by (simp add: arena_ok_def small_ok_def)
  have s': "kmap s' = kmap s" "arenas s' = (arenas s)(a := (arenas s a)\<lparr>ar_count := c\<rparr>)" by (simp_all add: s'_def)
  have fr: "freed s' e = (if e = d then set l else freed s e)" if "valid_d e" for e
    using desc_set_free(2) [OF D d that] by (simp add: s'_def)
  have run: "run_of s' b = run_of s b" for b using a(2) by (simp add: run_of_def npages_def s'(2))
  have apart: "page_blocks b d \<inter> set l = page_blocks b d \<inter> freed s d" if "b \<in> P" "b \<noteq> a" for b
  proof -
    have "page_blocks b d \<inter> page_blocks a d = {}"
      using other_page_blocks [OF arena_okD(1) [OF arena_invD(3) [OF inv that(1)]] al that(2)] .
    then show ?thesis using l(2) by blast
  qed
  have okb: "arena_ok (b \<in> Q') s' b" if "b \<in> P" "b \<noteq> a" for b
  proof -
    have "arena_ok (b \<in> Q') s' b = arena_ok (b \<in> Q') s b"
      using apart [OF that] that(2) by (intro arena_ok_cong [where bm = "kmap s"]) (auto simp: s' fr)
    moreover have "b \<in> Q' \<longleftrightarrow> b \<in> Q" using Q that(2) by blast
    ultimately show ?thesis using arena_invD(3) [OF inv that(1)] by simp
  qed
  have oka: "arena_ok (a \<in> Q') s' a"
    using ok a d c full fr [OF d] by (auto simp: arena_ok_def small_ok_def s' npages_def)
  have free: "free_ok s' P"
    unfolding free_ok_def
  proof (intro allI impI ballI)
    fix e p assume e: "valid_d e" "p \<in> freed s' e"
    let ?b = "get_block_arena p"
    have same: "ar_large (arenas s' b) = ar_large (arenas s b)" "ar_desc (arenas s' b) = ar_desc (arenas s b)" for b
      by (simp_all add: s'(2))
    show "?b \<in> P \<and> ar_large (arenas s' ?b) = 0 \<and> ar_desc (arenas s' ?b) = e \<and> p \<in> page_blocks ?b e"
    proof (cases "e = d \<and> p \<in> page_blocks a d")
      case True
      then show ?thesis using page_blocks_arena(1) [OF al, of p d] a by (simp add: same)
    next
      case False
      then have "p \<in> freed s e" using e fr l(2) by (auto split: if_splits)
      then show ?thesis using arena_invD(7) [OF inv] e(1) by (auto simp: free_ok_def same)
    qed
  qed
  show "arena_inv U Q' s' P"
    unfolding arena_inv_def
  proof (intro conjI)
    show "descs_ok s'" unfolding s'_def descs_ok_change by (rule descs_ok_change(3) [OF D d l(1)])
    have "arena_ok (x \<in> Q') s' x" if "x \<in> P" for x
      using that okb oka by (cases "x = a") simp_all
    then show "\<forall>x\<in>P. arena_ok (x \<in> Q') s' x" by blast
  qed (use arena_invD(2,4-6) [OF inv] free in \<open>simp_all add: run s'(1)\<close>)
  show "blocks_of s' P = (\<lambda>p. if get_block_arena p = a then (if p \<in> page_blocks a d - set l then Some (blk_bytes p d) else None)
       else blocks_of s P p)"
  proof
    fix p
    let ?b = "get_block_arena p" let ?c = "ar_desc (arenas s ?b)"
    show "blocks_of s' P p = (if ?b = a then (if p \<in> page_blocks a d - set l then Some (blk_bytes p d) else None)
       else blocks_of s P p)"
    proof (cases "?b = a")
      case True
      then show ?thesis using a fr [OF d] by (simp add: blocks_of_def block_at_def s'(2))
    next
      case False
      have "block_at s' ?b p = block_at s ?b p" if b: "?b \<in> P"
      proof -
        have "ar_large (arenas s ?b) = 1 \<or> valid_d ?c" using arena_invD(3) [OF inv b] by (auto simp: arena_ok_def small_ok_def)
        moreover have "p \<in> freed s' ?c \<longleftrightarrow> p \<in> freed s ?c" if "p \<in> page_blocks ?b ?c" "valid_d ?c"
          using fr [OF that(2)] apart [OF b False] that(1) by (auto split: if_splits)
        ultimately show ?thesis using False by (auto simp: block_at_def Let_def s'(2))
      qed
      then show ?thesis using False by (simp add: blocks_of_def)
    qed
  qed
qed

subsection \<open>Returning pages\<close>

text \<open>The pages of the arena \<open>a\<close> go back; if it is cut into blocks they have been taken off the free list.\<close>

lemma drop_arena:
  assumes inv: "arena_inv U Q s P" and a: "a \<in> P" and Q: "Q \<subseteq> {a}"
    and bm: "page_bitmap bm" "page_bits bm = page_bits (kmap s) - run_of s a" "\<And>b m. run_fits bm b m = run_fits (kmap s) b m"
    and s': "arenas s' = arenas s" "kmap s' = bm" "descs_ok s'"
    and fr: "\<And>d. valid_d d \<Longrightarrow> freed s' d = freed s d - {p. get_block_arena p = a}"
  shows "arena_inv U {} s' (P - {a})" "blocks_of s' (P - {a}) = (\<lambda>p. if get_block_arena p = a then None else blocks_of s P p)"
proof -
  have run: "run_of s' b = run_of s b" for b by (simp add: run_of_def s'(1))
  have other: "get_block_arena p = b" if "b \<in> P" "p \<in> page_blocks b d" for b p d
    using page_blocks_arena(1) [OF arena_okD(1) [OF arena_invD(3) [OF inv that(1)]] that(2)] .
  have fr': "p \<in> freed s' (ar_desc (arenas s b)) \<longleftrightarrow> p \<in> freed s (ar_desc (arenas s b))"
    if "b \<in> P" "b \<noteq> a" "valid_d (ar_desc (arenas s b))" "get_block_arena p = b" for b p
    using fr [OF that(3)] that(2,4) by auto
  have ok: "arena_ok False s' b" if "b \<in> P" "b \<noteq> a" for b
  proof -
    have "arena_ok False s' b = arena_ok False s b"
      using fr' [OF that] other [OF that(1)] bm(3) s'(1,2) by (intro arena_ok_cong [where bm = bm]) auto
    moreover have "b \<notin> Q" using Q that(2) by blast
    ultimately show ?thesis using arena_invD(3) [OF inv that(1)] by simp
  qed
  have U: "(\<Union>b\<in>P. run_of s b) = run_of s a \<union> (\<Union>b\<in>P - {a}. run_of s b)" using a by blast
  have dis: "run_of s a \<inter> (\<Union>b\<in>P - {a}. run_of s b) = {}" using arena_invD(4) [OF inv a] by blast
  show "arena_inv U {} s' (P - {a})"
    unfolding arena_inv_def
  proof (intro conjI)
    show "page_bits (kmap s') = U \<union> (\<Union>b\<in>P - {a}. run_of s' b)"
      unfolding s'(2) bm(2) arena_invD(5) [OF inv] run U using dis arena_invD(6) [OF inv, unfolded U] by blast
    show "U \<inter> (\<Union>b\<in>P - {a}. run_of s' b) = {}"
      unfolding run using arena_invD(6) [OF inv, unfolded U] by blast
    show "free_ok s' (P - {a})"
      using arena_invD(7) [OF inv] fr by (auto simp: free_ok_def s'(1))
  qed (use s' bm ok arena_invD(4) [OF inv] in \<open>auto simp: run\<close>)
  show "blocks_of s' (P - {a}) = (\<lambda>p. if get_block_arena p = a then None else blocks_of s P p)"
  proof
    fix p
    let ?b = "get_block_arena p"
    show "blocks_of s' (P - {a}) p = (if ?b = a then None else blocks_of s P p)"
    proof (cases "?b \<in> P - {a}")
      case True
      then have "ar_large (arenas s ?b) = 1 \<or> valid_d (ar_desc (arenas s ?b))"
        using arena_invD(3) [OF inv, of ?b] by (auto simp: arena_ok_def small_ok_def)
      then have "block_at s' ?b p = block_at s ?b p"
        using fr' [of ?b p] True by (auto simp: block_at_def Let_def s'(1))
      then show ?thesis using True by (simp add: blocks_of_def)
    qed (auto simp: blocks_of_def)
  qed
qed

end
