(* ===== verification/Kmalloc.thy ===== *)
theory Kmalloc
  imports Arena_Inv
begin

text \<open>
  \<open>kmalloc\<close> and \<open>kfree\<close> keep the invariant of \<open>Arena_Inv\<close>: each run of an operation is one of the changes
  proved there. The interpretation of the contract of \<open>Heap_Allocator\<close> then gives the properties of a
  series of allocations.
\<close>

subsection \<open>The loops over the blocks of an arena\<close>

lemma set_free_twice: "descs_ok s \<Longrightarrow> valid_d d \<Longrightarrow> set_free d l (set_free d l' s) = set_free d l s"
  using descs_okD(4) [of s d] by (simp add: set_free_def desc_at_def)

lemma set_free_id: "ad_free (desc_at s d) = l \<Longrightarrow> set_free d l s = s"
  unfolding set_free_def desc_at_def by auto

lemma upd_free: "descs_ok s \<Longrightarrow> valid_d d \<Longrightarrow>
    upd_adesc d (ad_free_update f) s = Inr ((), set_free d (f (ad_free (desc_at s d))) s)"
  using descs_okD(4) [of s d]
  by (cases "adescs s ! (unat d - 1)") (simp add: upd_adesc_def valid_d_def set_free_def desc_at_def)

lemma bcnt_less: "bcnt d < 2 ^ 32"
  unfolding bcnt_def by (rule le_less_trans [of _ 4080]) simp_all

lemma get_arena_block_ok:
  assumes "descs_ok s" "valid_d (ar_desc (arenas s a))" "i < bcnt (ar_desc (arenas s a))"
  shows "get_arena_block a (of_nat i) s = Inr (blk a (ar_desc (arenas s a)) i, s)"
proof -
  let ?d = "ar_desc (arenas s a)"
  note D = descs_okD [OF assms(1,2)]
  have "unat (of_nat i :: u32) = i" using assms(3) bcnt_less [of ?d] by (intro unat_of_nat_32) simp
  then have "of_nat i < ad_total (desc_at s ?d)" using assms(3) by (simp add: word_less_nat_alt D(2))
  moreover have "ad_block (desc_at s ?d) = of_nat (bsz ?d)" by (simp flip: D(1))
  ultimately show ?thesis
    by (simp add: get_arena_block_def get_arena_def D(5) sizeof_arena_def blk_def)
qed

lemma blk_new:
  assumes "page_aligned a" "i < bcnt d"
  shows "blk a d i \<notin> blk a d ` {..<i}"
proof
  assume "blk a d i \<in> blk a d ` {..<i}"
  then obtain x where x: "x < i" "blk a d i = blk a d x" by auto
  from inj_onD [OF inj_blk [OF assms(1)] x(2)] x(1) assms(2) show False by simp
qed

lemma fill_loop:
  assumes s: "descs_ok s" "valid_d d" "ar_desc (arenas s a) = d" and al: "page_aligned a" and n: "n \<le> bcnt d"
  shows "i \<le> n \<Longrightarrow> sforeach [i..<n] (fill_block a) (set_free d (rev (map (blk a d) [0..<i])) s) =
     Inr ((), set_free d (rev (map (blk a d) [0..<n])) s)"
proof (induction "n - i" arbitrary: i)
  case (Suc k)
  let ?l = "\<lambda>i. rev (map (blk a d) [0..<i])"
  have i: "i < n" using Suc.hyps(2) by simp
  then have up: "[i..<n] = i # [Suc i..<n]" by (simp add: upt_conv_Cons)
  have inj: "distinct (?l j)" if "j \<le> n" for j
  proof -
    have "inj_on (blk a d) {0..<j}" by (rule inj_on_subset [OF inj_blk [OF al]]) (use that n in auto)
    then show ?thesis by (simp add: distinct_map)
  qed
  have ok: "descs_ok (set_free d (?l j) s)" if "j \<le> n" for j
    using descs_ok_change(3) [OF s(1,2) inj [OF that]] .
  have fr: "ad_free (desc_at (set_free d l s) d) = l" for l
    using desc_set_free(1) [OF s(1,2,2)] by simp
  have b: "get_arena_block a (of_nat i) (set_free d (?l i) s) = Inr (blk a d i, set_free d (?l i) s)"
    using get_arena_block_ok [OF ok [of i], of a i] i n s by simp
  have new: "blk a d i \<notin> set (?l i)"
    using blk_new [OF al, of i d] i n by (simp add: atLeast0LessThan)
  have l: "blk a d i # ?l i = ?l (Suc i)" by simp
  note g = descs_okD(5) [OF ok s(2)]
  have push: "push_free d (blk a d i) (set_free d (?l i) s) = Inr ((), set_free d (?l (Suc i)) s)"
    using new i g [of i] upd_free [OF ok s(2), of i "\<lambda>l. blk a d i # l"] set_free_twice [OF s(1,2)]
    unfolding l [symmetric] by (simp add: push_free_def fr)
  have "blk a d i \<in> set (?l (Suc i))" by simp
  then show ?case
    using Suc.hyps(1) [of "Suc i"] Suc.hyps(2) i b new push g [of i] g [of "Suc i"] s(3)
    by (simp add: up fill_block_def in_free_def get_arena_def fr del: upt_Suc)
qed simp

lemma drain_loop:
  assumes s: "descs_ok s" "valid_d d" "ar_desc (arenas s a) = d" and al: "page_aligned a" and n: "n \<le> bcnt d"
    and l: "distinct l" "page_blocks a d \<subseteq> set l"
  shows "i \<le> n \<Longrightarrow> sforeach [i..<n] (drain_block a) (set_free d (filter (\<lambda>p. p \<notin> blk a d ` {..<i}) l) s) =
     Inr ((), set_free d (filter (\<lambda>p. p \<notin> blk a d ` {..<n}) l) s)"
proof (induction "n - i" arbitrary: i)
  case (Suc k)
  let ?l = "\<lambda>i. filter (\<lambda>p. p \<notin> blk a d ` {..<i}) l"
  have i: "i < n" using Suc.hyps(2) by simp
  then have up: "[i..<n] = i # [Suc i..<n]" by (simp add: upt_conv_Cons)
  have ok: "descs_ok (set_free d (?l j) s)" for j
    using descs_ok_change(3) [OF s(1,2)] l(1) by simp
  have fr: "ad_free (desc_at (set_free d l s) d) = l" for l
    using desc_set_free(1) [OF s(1,2,2)] by simp
  have b: "get_arena_block a (of_nat i) (set_free d (?l i) s) = Inr (blk a d i, set_free d (?l i) s)"
    using get_arena_block_ok [OF ok [of i], of a i] i n s by simp
  have "blk a d i \<in> set l" using l(2) i n by (auto simp: page_blocks_def)
  then have old: "blk a d i \<in> set (?l i)" using blk_new [OF al, of i d] i n by simp
  have rl: "remove1 (blk a d i) (?l i) = ?l (Suc i)"
    using l(1) by (subst distinct_remove1_removeAll) (auto simp: removeAll_filter_not_eq lessThan_Suc intro: filter_cong)
  note g = descs_okD(5) [OF ok s(2)]
  have rem: "remove_free d (blk a d i) (set_free d (?l i) s) = Inr ((), set_free d (?l (Suc i)) s)"
    using old g [of i] upd_free [OF ok [of i] s(2), of "remove1 (blk a d i)"] set_free_twice [OF s(1,2)]
    unfolding rl [symmetric] by (simp add: remove_free_def fr)
  have "blk a d i \<notin> set (?l (Suc i))" by simp
  then show ?case
    using Suc.hyps(1) [of "Suc i"] Suc.hyps(2) i b old rem g [of i] g [of "Suc i"] s(3)
    by (simp add: up drain_block_def get_arena_def in_free_def fr del: upt_Suc set_filter)
qed simp

lemma pick_desc_from:
  "k < length ds \<Longrightarrow> sz \<le> ad_block (ds ! k) \<Longrightarrow>
   \<exists>j < length ds. pick_desc ds sz i = i + 1 + of_nat j \<and> sz \<le> ad_block (ds ! j)"
proof (induction ds arbitrary: i k)
  case (Cons d ds)
  show ?case
  proof (cases "sz \<le> ad_block d")
    case True
    then show ?thesis by (intro exI [of _ 0]) simp
  next
    case False
    then obtain k' where k: "k = Suc k'" using Cons.prems(2) by (cases k) auto
    then obtain j where j: "j < length ds" "pick_desc ds sz (i + 1) = i + 1 + 1 + of_nat j" "sz \<le> ad_block (ds ! j)"
      using Cons.IH [of k' "i + 1"] Cons.prems by auto
    then show ?thesis using False by (intro exI [of _ "Suc j"]) (simp add: ac_simps)
  qed
qed simp

lemma pick_desc_ok:
  assumes "descs_ok s" "sz \<le> 1024"
  shows "valid_d (pick_desc (adescs s) sz 0)" "unat sz \<le> bsz (pick_desc (adescs s) sz 0)"
proof -
  have len: "length (adescs s) = 7" using assms(1) by (simp add: descs_ok_def)
  have v7: "valid_d 7" by (simp add: valid_d_def)
  have "unat (ad_block (adescs s ! 6)) = 1024"
    using descs_okD(1) [OF assms(1) v7] by (simp add: desc_at_def bsz_def)
  then have "sz \<le> ad_block (adescs s ! 6)" using assms(2) by (simp add: word_le_nat_alt)
  then obtain j where j: "j < 7" "pick_desc (adescs s) sz 0 = 1 + of_nat j" "sz \<le> ad_block (adescs s ! j)"
    using pick_desc_from [of 6 "adescs s" sz 0] len by auto
  have "unat (of_nat (Suc j) :: u32) = Suc j" using j(1) by (intro unat_of_nat_32) simp
  then have u: "unat (1 + of_nat j :: u32) = Suc j" by simp
  then show v: "valid_d (pick_desc (adescs s) sz 0)" using j(1,2) by (auto simp: valid_d_def)
  have "unat (ad_block (adescs s ! j)) = bsz (pick_desc (adescs s) sz 0)"
    using descs_okD(1) [OF assms(1) v] by (simp add: desc_at_def j(2) u)
  then show "unat sz \<le> bsz (pick_desc (adescs s) sz 0)" using j(3) by (simp add: word_le_nat_alt)
qed

subsection \<open>The operations\<close>

lemma alloc_pages:
  "0 < n \<Longrightarrow> on_mm (alloc_kpage n) s = (case scan_page (kmap s) n of Inl e \<Rightarrow> Inl e
     | Inr (a, bm) \<Rightarrow> Inr (a, s\<lparr>kmm := (kmm s)\<lparr>kernel_map := bm\<rparr>\<rparr>))"
  by (simp add: on_mm_def alloc_kpage_pages kmap_def split: sum.splits prod.splits)

lemma clear_pages:
  "clear_arenas a (n * PAGE_SIZE) (s\<lparr>kmm := (kmm s)\<lparr>kernel_map := bm\<rparr>\<rparr>) = Inr ((), take_pages a n bm s)"
  by (simp add: clear_arenas_def take_pages_def)

lemma put_arena_set: "put_arena a h s = Inr ((), set_arena a h s)"
  by (simp add: put_arena_def set_arena_def)

lemma new_arena_run:
  assumes inv: "arena_inv U {} s P" and d: "valid_d d" and e: "ad_free (desc_at s d) = []"
  shows "(\<exists>err. new_arena d s = Inl err \<and> err = Panic) \<or>
    (\<exists>a s' p l. new_arena d s = Inr ((), s') \<and> arena_inv U {a} s' (insert a P) \<and> blocks_of s' (insert a P) = blocks_of s P \<and>
       ad_free (desc_at s' d) = p # l \<and> get_block_arena p = a)"
proof (cases "scan_page (kmap s) 1")
  case (Inl err)
  then have "new_arena d s = Inl err" by (simp add: new_arena_def alloc_pages)
  then show ?thesis using pages.alloc_fail [OF arena_invD(2) [OF inv] one_pos_32 Inl] by blast
next
  case (Inr r)
  then obtain a bm where sc: "scan_page (kmap s) 1 = Inr (a, bm)" by (cases r) auto
  let ?h = "\<lparr>ar_desc = d, ar_count = ad_total (desc_at s d), ar_large = 0, ar_magic = ONIX_MAGIC\<rparr>"
  let ?s1 = "set_arena a ?h (take_pages a 1 bm s)" and ?l = "rev (map (blk a d) [0..<bcnt d])"
  note D = arena_invD(1) [OF inv]
  have al: "page_aligned a" by (rule scanned(1) [OF inv one_pos_32 sc])
  have D1: "descs_ok ?s1" using D by (simp add: descs_ok_change)
  have fill: "fill_arena a ?s1 = Inr ((), set_free d ?l ?s1)"
    using fill_loop [OF D1 d _ al order_refl, of 0] set_free_id [of ?s1 d "[]"] e descs_okD(2) [OF D d]
    by (simp add: fill_arena_def get_arena_def)
  have clear: "clear_arenas a PAGE_SIZE (s\<lparr>kmm := (kmm s)\<lparr>kernel_map := bm\<rparr>\<rparr>) = Inr ((), take_pages a 1 bm s)"
    using clear_pages [of a 1 bm s] by simp
  have get: "get_adesc d (take_pages a 1 bm s) = Inr (desc_at s d, take_pages a 1 bm s)"
    using descs_okD(5) [of "take_pages a 1 bm s", OF _ d] D by (simp add: descs_ok_change)
  have run: "new_arena d s = Inr ((), set_free d ?l ?s1)"
    by (simp add: new_arena_def alloc_pages sc clear get put_arena_set fill)
  have dist: "distinct ?l" using inj_blk [OF al] by (simp add: distinct_map atLeast0LessThan)
  have set: "set ?l = page_blocks a d" by (simp add: page_blocks_def atLeast0LessThan)
  note A = add_small [OF inv sc d _ dist set refl]
  have fr: "ad_free (desc_at (set_free d ?l ?s1) d) = ?l" by (simp add: desc_set_free(1) [OF D1 d d])
  have "0 < bcnt d"
  proof -
    have "bsz d \<le> 16 * 2 ^ 6" unfolding bsz_def using d by (intro mult_le_mono2 power_increasing) (auto simp: valid_d_def)
    then show ?thesis by (simp add: bcnt_def div_greater_zero_iff)
  qed
  then obtain p l where pl: "?l = p # l" by (cases ?l) auto
  then have "p \<in> page_blocks a d" using set by (metis list.set_intros(1))
  then have "get_block_arena p = a" by (rule page_blocks_arena(1) [OF al])
  then show ?thesis using run A e fr pl by (auto simp: freed_def)
qed

lemma upd_count: "ar_count_update f h = h\<lparr>ar_count := f (ar_count h)\<rparr>"
  by (cases h) simp

definition take_block :: "u32 \<Rightarrow> (heap_state, u32) op" where
  "take_block d = sbind (pop_free d) (\<lambda>block.
        sbind (get_arena (get_block_arena block)) (\<lambda>h.
        sbind (sensure (ar_large h = 0 \<and> ar_magic h = ONIX_MAGIC)) (\<lambda>_.
        sbind (put_arena (get_block_arena block) (ar_count_update (\<lambda>c. c - 1) h)) (\<lambda>_.
        sret block))))"

lemma take_block_run:
  assumes inv: "arena_inv U Q s P" and d: "valid_d d" and f: "ad_free (desc_at s d) = p # l" and Q: "Q \<subseteq> {get_block_arena p}"
  shows "\<exists>s'. take_block d s = Inr (p, s') \<and> arena_inv U {} s' P \<and> blocks_of s P p = None \<and>
    blocks_of s' P = (blocks_of s P)(p \<mapsto> blk_bytes p d)"
proof -
  let ?a = "get_block_arena p" let ?h = "arenas s ?a"
  note D = arena_invD(1) [OF inv]
  have pf: "p \<in> freed s d" by (simp add: freed_def f)
  then have a: "?a \<in> P" "ar_large ?h = 0" "ar_desc ?h = d" "p \<in> page_blocks ?a d"
    using arena_invD(7) [OF inv] d by (auto simp: free_ok_def)
  note ok = arena_invD(3) [OF inv a(1)]
  have dist: "distinct (p # l)" using descs_okD(3) [OF D d] by (simp add: f)
  have set: "freed s d = insert p (set l)" by (simp add: freed_def f)
  have count: "unat (ar_count ?h) = card (page_blocks ?a d \<inter> freed s d)"
    using ok a(2,3) by (simp add: arena_ok_def small_ok_def)
  have ins: "page_blocks ?a d \<inter> freed s d = insert p (page_blocks ?a d \<inter> set l)" using a(4) set by blast
  have fin: "finite (page_blocks ?a d)" by (simp add: page_blocks_def)
  have Suc: "unat (ar_count ?h) = Suc (card (page_blocks ?a d \<inter> set l))"
    using count fin dist by (simp add: ins)
  then have c: "unat (ar_count ?h - 1) = card (page_blocks ?a d \<inter> set l)" by (simp add: unat_sub_32)
  have "card (page_blocks ?a d \<inter> set l) < card (page_blocks ?a d)"
    using fin a(4) dist by (intro psubset_card_mono) auto
  then have less: "unat (ar_count ?h - 1) < bcnt d"
    using card_page_blocks [OF arena_okD(1) [OF ok]] c by simp
  let ?s' = "set_arena ?a (?h\<lparr>ar_count := ar_count ?h - 1\<rparr>) (set_free d l s)"
  have Q': "Q - {?a} = {} - {?a}" using Q by blast
  have part: "set l - page_blocks ?a d = freed s d - page_blocks ?a d" unfolding set using a(4) by blast
  note C = change_free [OF inv a(1-3) _ part c _ Q'] 
  have run: "take_block d s = Inr (p, ?s')"
    using descs_okD(5) [OF D d] upd_free [OF D d, of "\<lambda>_. l"] a(2) arena_okD(2) [OF ok]
    by (simp add: take_block_def pop_free_def f get_arena_def put_arena_set upd_count [of "\<lambda>c. c - 1"])
  have none: "blocks_of s P p = None" using a pf by (simp add: blocks_of_def block_at_def)
  have "blocks_of s' P = (blocks_of s P)(p \<mapsto> blk_bytes p d)" if "s' = ?s'" for s'
  proof
    fix q
    show "blocks_of s' P q = ((blocks_of s P)(p \<mapsto> blk_bytes p d)) q"
      using C(2) less dist a set unfolding that by (auto simp: blocks_of_def block_at_def)
  qed
  then show ?thesis using run none C(1) less dist by auto
qed

definition KMALLOC_MAX :: nat where
  "KMALLOC_MAX = 2 ^ 32 - 8192"

lemma kmalloc_small:
  assumes inv: "arena_inv U {} s P" and sz: "sz \<le> 1024"
  shows "kmalloc sz s = Inl Panic \<or> (\<exists>p s' P' E. kmalloc sz s = Inr (p, s') \<and> arena_inv U {} s' P' \<and>
    blocks_of s P p = None \<and> blocks_of s' P' = (blocks_of s P)(p \<mapsto> E) \<and> bytes_from p sz \<subseteq> E)"
proof -
  define d where "d = pick_desc (adescs s) sz 0"
  note D = arena_invD(1) [OF inv]
  have d: "valid_d d" "unat sz \<le> bsz d" using pick_desc_ok [OF D sz] by (simp_all add: d_def)
  have d0: "d \<noteq> 0" using d(1) by (simp add: valid_d_def)
  have E: "bytes_from p sz \<subseteq> blk_bytes p d" for p using d(2) by (auto simp: bytes_from_def blk_bytes_def)
  have small: "\<not> 1024 < sz" using sz by simp
  have run: "kmalloc sz s = (if ad_free (desc_at s d) = [] then sbind (new_arena d) (\<lambda>_. take_block d) s else take_block d s)"
    using small d0 descs_okD(5) [OF D d(1)] by (simp add: kmalloc_def take_block_def flip: d_def)
  show ?thesis
  proof (cases "ad_free (desc_at s d)")
    case (Cons p l)
    then show ?thesis using take_block_run [OF inv d(1) Cons] run E by fastforce
  next
    case Nil
    from new_arena_run [OF inv d(1) Nil] show ?thesis
    proof (elim disjE exE conjE)
      fix a s1 p l
      assume 1: "new_arena d s = Inr ((), s1)" "arena_inv U {a} s1 (insert a P)" "blocks_of s1 (insert a P) = blocks_of s P"
        "ad_free (desc_at s1 d) = p # l" "get_block_arena p = a"
      from take_block_run [OF 1(2) d(1) 1(4)] 1(5) obtain s' where
        "take_block d s1 = Inr (p, s')" "arena_inv U {} s' (insert a P)" "blocks_of s1 (insert a P) p = None"
        "blocks_of s' (insert a P) = (blocks_of s1 (insert a P))(p \<mapsto> blk_bytes p d)" by blast
      moreover have "kmalloc sz s = take_block d s1" using run Nil 1(1) by simp
      ultimately show ?thesis using 1(3) E by metis
    qed (simp add: run Nil)
  qed
qed

lemma kmalloc_large:
  assumes inv: "arena_inv U {} s P" and sz: "\<not> sz \<le> 1024" "unat sz \<le> KMALLOC_MAX"
  shows "kmalloc sz s = Inl Panic \<or> (\<exists>p s' P' E. kmalloc sz s = Inr (p, s') \<and> arena_inv U {} s' P' \<and>
    blocks_of s P p = None \<and> blocks_of s' P' = (blocks_of s P)(p \<mapsto> E) \<and> bytes_from p sz \<subseteq> E)"
proof -
  define n where "n = (sz + 16 + PAGE_SIZE - 1) div PAGE_SIZE"
  have s1: "unat (sz + 16) = unat sz + 16" using sz(2) by (subst unat_add_32) (simp_all add: KMALLOC_MAX_def)
  have "unat (sz + 16 + 0xfff) = unat sz + 16 + 4095" using sz(2) s1 by (subst unat_add_32) (simp_all add: KMALLOC_MAX_def)
  then have un: "unat n = (unat sz + 4111) div 4096" by (simp add: n_def unat_div)
  then have n: "0 < n" "unat sz + 16 \<le> 4096 * unat n" by (simp_all add: word_less_nat_alt div_greater_zero_iff)
  have run: "kmalloc sz s = sbind (on_mm (alloc_kpage n)) (\<lambda>a. sbind (clear_arenas a (n * PAGE_SIZE)) (\<lambda>_.
      sbind (put_arena a (large_arena n)) (\<lambda>_. sret (a + sizeof_arena)))) s"
    using sz(1) by (simp add: kmalloc_def div_round_up_def sizeof_arena_def n_def large_arena_def not_le)
  show ?thesis
  proof (cases "scan_page (kmap s) n")
    case (Inl e)
    then show ?thesis using pages.alloc_fail [OF arena_invD(2) [OF inv] n(1) Inl] by (simp add: run alloc_pages n(1))
  next
    case (Inr r)
    then obtain a bm where sc: "scan_page (kmap s) n = Inr (a, bm)" by (cases r) auto
    have "kmalloc sz s = Inr (a + 16, set_arena a (large_arena n) (take_pages a n bm s))"
      using clear_pages [of a n bm s] by (simp add: run alloc_pages n(1) sc put_arena_set sizeof_arena_def)
    moreover have "bytes_from (a + 16) sz \<subseteq> {unat a + 16..<unat a + 4096 * unat n}"
      using n(2) unat_plus_16 [OF scanned(1) [OF inv n(1) sc]] by (auto simp: bytes_from_def)
    ultimately show ?thesis using add_large [OF inv n(1) sc] by blast
  qed
qed

subsection \<open>Releasing a block\<close>

definition give_pages :: "bitmap \<Rightarrow> heap_state \<Rightarrow> heap_state" where
  "give_pages bm s = s\<lparr>kmm := (kmm s)\<lparr>kernel_map := bm\<rparr>\<rparr>"

lemma give_simps [simp]:
  "arenas (give_pages bm s) = arenas s" "kmap (give_pages bm s) = bm" "desc_at (give_pages bm s) d = desc_at s d"
  "freed (give_pages bm s) d = freed s d" "descs_ok (give_pages bm s) = descs_ok s"
  by (simp_all add: give_pages_def kmap_def desc_at_def freed_def descs_ok_def)

lemma free_pages:
  "0 < n \<Longrightarrow> reset_page (kmap s) a n = Inr bm \<Longrightarrow> on_mm (free_kpage a n) s = Inr ((), give_pages bm s)"
  by (simp add: on_mm_def free_kpage_pages kmap_def give_pages_def)

lemma returned:
  assumes inv: "arena_inv U Q s P" and a: "a \<in> P"
  obtains bm where "reset_page (kmap s) a (npages (arenas s a)) = Inr bm" "page_bitmap bm"
    "page_bits bm = page_bits (kmap s) - run_of s a" "\<And>b m. run_fits bm b m = run_fits (kmap s) b m"
proof -
  note ok = arena_okD [OF arena_invD(3) [OF inv a]]
  have "page_run a (npages (arenas s a)) \<subseteq> page_bits (kmap s)"
    using run_of_bits [OF inv a] by (simp add: run_of_def)
  from pages.release_law [OF arena_invD(2) [OF inv] ok(4,3) this] that show ?thesis
    unfolding run_of_def by blast
qed

lemma block_pos:
  assumes inv: "arena_inv U Q s P" and b: "blocks_of s P p = Some E"
  shows "get_block_arena p \<in> P" "block_at s (get_block_arena p) p = Some E" "p \<noteq> 0"
proof -
  let ?a = "get_block_arena p"
  show *: "?a \<in> P" "block_at s ?a p = Some E" using b by (auto simp: blocks_of_def split: if_splits)
  have al: "page_aligned ?a" using arena_okD(1) [OF arena_invD(3) [OF inv *(1)]] .
  have "p = ?a + 16 \<or> p \<in> page_blocks ?a (ar_desc (arenas s ?a))"
    using *(2) by (auto simp: block_at_def Let_def split: if_splits)
  then have "unat ?a + 16 \<le> unat p" using page_blocks_arena(3) [OF al] unat_plus_16 [OF al] by auto
  then show "p \<noteq> 0" by auto
qed

lemma kfree_large:
  assumes inv: "arena_inv U {} s P" and b: "blocks_of s P p = Some E" and lg: "ar_large (arenas s (get_block_arena p)) = 1"
  shows "\<exists>s' P'. kfree p s = Inr ((), s') \<and> arena_inv U {} s' P' \<and> blocks_of s' P' = (blocks_of s P)(p := None)"
proof -
  let ?a = "get_block_arena p"
  note B = block_pos [OF inv b]
  note ok = arena_okD [OF arena_invD(3) [OF inv B(1)]]
  have p: "p = ?a + 16" using B(2) lg by (auto simp: block_at_def split: if_splits)
  obtain bm where bm: "reset_page (kmap s) ?a (npages (arenas s ?a)) = Inr bm" "page_bitmap bm"
    "page_bits bm = page_bits (kmap s) - run_of s ?a" "\<And>b m. run_fits bm b m = run_fits (kmap s) b m"
    using returned [OF inv B(1)] by blast
  have run: "kfree p s = Inr ((), give_pages bm s)"
    using B(3) ok(2,4) lg free_pages [OF ok(4) bm(1)] by (simp add: kfree_def Let_def get_arena_def npages_def)
  have fr: "freed (give_pages bm s) d = freed s d - {q. get_block_arena q = ?a}" if "valid_d d" for d
  proof -
    have "get_block_arena q \<noteq> ?a" if "q \<in> freed s d" for q
      using arena_invD(7) [OF inv] that \<open>valid_d d\<close> lg unfolding free_ok_def by fastforce
    then show ?thesis by auto
  qed
  note D = drop_arena [OF inv B(1) _ bm(2-4), of "give_pages bm s"]
  have "arena_inv U {} (give_pages bm s) (P - {?a})"
    by (rule D(1)) (use fr arena_invD(1) [OF inv] in simp_all)
  moreover have "blocks_of (give_pages bm s) (P - {?a}) = (\<lambda>q. if get_block_arena q = ?a then None else blocks_of s P q)"
    by (rule D(2)) (use fr arena_invD(1) [OF inv] in simp_all)
  moreover have "\<dots> = (blocks_of s P)(p := None)"
    using lg p by (auto simp: fun_eq_iff blocks_of_def block_at_def)
  ultimately show ?thesis using run by (simp only:) blast
qed

lemma set_free_arena: "set_free d l (set_arena a h s) = set_arena a h (set_free d l s)"
  by (simp add: set_free_def set_arena_def desc_at_def)

lemma kfree_small:
  assumes inv: "arena_inv U {} s P" and b: "blocks_of s P p = Some E" and sm: "ar_large (arenas s (get_block_arena p)) = 0"
  shows "\<exists>s' P'. kfree p s = Inr ((), s') \<and> arena_inv U {} s' P' \<and> blocks_of s' P' = (blocks_of s P)(p := None)"
proof -
  define a where "a = get_block_arena p"
  define h where "h = arenas s a"
  define d where "d = ar_desc h"
  define l where "l = ad_free (desc_at s d)"
  define s1 where "s1 = set_arena a (h\<lparr>ar_count := ar_count h + 1\<rparr>) (set_free d (p # l) s)"
  note B = block_pos [OF inv b, folded a_def]
  note okA = arena_invD(3) [OF inv B(1)] and D = arena_invD(1) [OF inv]
  note ok = arena_okD [OF okA]
  have lg: "ar_large h = 0" using sm by (simp add: h_def a_def)
  have d: "valid_d d" and cnt: "unat (ar_count h) = card (page_blocks a d \<inter> set l)" "unat (ar_count h) < bcnt d"
    using okA lg by (simp_all add: arena_ok_def small_ok_def h_def d_def freed_def l_def)
  have p: "p \<in> page_blocks a d" "p \<notin> set l"
    using B(2) lg by (auto simp: block_at_def h_def d_def freed_def l_def Let_def split: if_splits)
  have dist: "distinct (p # l)" using descs_okD(3) [OF D d] p(2) by (simp add: l_def)
  have fin: "finite (page_blocks a d)" by (simp add: page_blocks_def)
  have c1: "unat (ar_count h + 1) = unat (ar_count h) + 1"
    using cnt(2) bcnt_less [of d] by (intro unat_Suc_32) simp
  have c: "unat (ar_count h + 1) = card (page_blocks a d \<inter> set (p # l))"
    using p fin cnt(1) c1 by simp
  have part: "set (p # l) - page_blocks a d = freed s d - page_blocks a d"
    using p(1) by (auto simp: freed_def l_def)
  note C = change_free [OF inv B(1) lg [unfolded h_def] d_def [unfolded h_def, symmetric] dist part c, folded h_def, folded s1_def]
  have blocks: "blocks_of s1 P = (blocks_of s P)(p := None)"
  proof
    fix q
    have "block_at s a q = (if q \<in> page_blocks a d - set l then Some (blk_bytes q d) else None)"
      using lg by (simp add: block_at_def freed_def l_def d_def h_def Let_def)
    then show "blocks_of s1 P q = ((blocks_of s P)(p := None)) q"
      using C(2) [of "{a}"] B(1) a_def by (auto simp: blocks_of_def)
  qed
  have D0: "descs_ok (set_arena a h' s)" for h' using D by (simp add: descs_ok_change)
  have push: "push_free d p (set_arena a h' s) = Inr ((), set_arena a h' (set_free d (p # l) s))" for h'
    using descs_okD(5) [OF D0 d] upd_free [OF D0 d, of "\<lambda>l. p # l"] p(2)
    by (simp add: push_free_def l_def set_free_arena)
  have D1: "descs_ok s1" unfolding s1_def descs_ok_change using descs_ok_change(3) [OF D d dist] .
  have desc1: "desc_at s1 d = (desc_at s d)\<lparr>ad_free := p # l\<rparr>"
    using desc_set_free(1) [OF D d d] by (simp add: s1_def)
  have tot: "unat (ad_total (desc_at s d)) = bcnt d" by (rule descs_okD(2) [OF D d])
  have run: "kfree p s = (if unat (ar_count h + 1) = bcnt d
      then sbind (drain_arena a) (\<lambda>_. on_mm (free_kpage a 1)) s1 else Inr ((), s1))"
    using B(3) ok(2) lg push [of "h\<lparr>ar_count := ar_count h + 1\<rparr>"] descs_okD(5) [OF D1 d] tot
    by (simp add: kfree_def Let_def get_arena_def put_arena_set u32_eq_iff desc1 upd_count [of "\<lambda>c. c + 1"]
        flip: a_def h_def d_def s1_def)
  show ?thesis
  proof (cases "unat (ar_count h + 1) = bcnt d")
    case False
    then have "unat (ar_count h + 1) < bcnt d" using c1 cnt(2) by linarith
    then have "arena_inv U {} s1 P" by (intro C(1)) simp_all
    then show ?thesis using False run blocks by auto
  next
    case True
    have inv1: "arena_inv U {a} s1 P" by (intro C(1)) simp_all
    have a1: "arenas s1 a = h\<lparr>ar_count := ar_count h + 1\<rparr>" by (simp add: s1_def)
    have "card (page_blocks a d \<inter> set (p # l)) = card (page_blocks a d)"
      using c True card_page_blocks [OF ok(1)] by simp
    then have all: "page_blocks a d \<subseteq> set (p # l)"
      using card_subset_eq [OF fin, of "page_blocks a d \<inter> set (p # l)"] by blast
    define l2 where "l2 = filter (\<lambda>q. q \<notin> page_blocks a d) (p # l)"
    have d1: "ar_desc (arenas s1 a) = d" by (simp add: a1 d_def)
    have id: "set_free d (p # l) s1 = s1" by (rule set_free_id) (simp add: desc1)
    have drain: "drain_arena a s1 = Inr ((), set_free d l2 s1)"
      using drain_loop [OF D1 d d1 ok(1) order_refl dist all, of 0] descs_okD(5) [OF D1 d] tot id
      by (simp add: drain_arena_def get_arena_def d1 desc1 page_blocks_def l2_def del: filter.simps)
    define s2 where "s2 = set_free d l2 s1"
    have D2: "descs_ok s2" unfolding s2_def using descs_ok_change(3) [OF D1 d, of l2] dist by (simp add: l2_def)
    have k2: "kmap s2 = kmap s1" "arenas s2 = arenas s1" by (simp_all add: s2_def)
    have n1: "npages (arenas s1 a) = 1" using lg by (simp add: a1 npages_def)
    obtain bm where bm: "reset_page (kmap s1) a 1 = Inr bm" "page_bitmap bm"
      "page_bits bm = page_bits (kmap s1) - run_of s1 a" "\<And>b m. run_fits bm b m = run_fits (kmap s1) b m"
      using returned [OF inv1 B(1)] unfolding n1 by blast
    have run2: "kfree p s = Inr ((), give_pages bm s2)"
      using run True drain free_pages [OF one_pos_32, of s2 a bm] bm(1) k2(1) by (simp flip: s2_def)
    have fr: "freed (give_pages bm s2) e = freed s1 e - {q. get_block_arena q = a}" if e: "valid_d e" for e
    proof -
      have "freed s2 e = (if e = d then set l2 else freed s1 e)"
        unfolding s2_def by (rule desc_set_free(2) [OF D1 d e])
      moreover have "set l2 = freed s1 d - page_blocks a d" by (auto simp: freed_def desc1 l2_def)
      moreover have "q \<in> freed s1 e \<Longrightarrow> get_block_arena q = a \<Longrightarrow> e = d \<and> q \<in> page_blocks a d" for q
        using arena_invD(7) [OF inv1] e d1 by (auto simp: free_ok_def)
      moreover have "q \<in> page_blocks a d \<Longrightarrow> get_block_arena q = a" for q
        by (rule page_blocks_arena(1) [OF ok(1)])
      ultimately show ?thesis by auto
    qed
    note R = drop_arena [OF inv1 B(1) _ bm(2-4), of "give_pages bm s2"]
    have "arena_inv U {} (give_pages bm s2) (P - {a})"
      by (rule R(1)) (use fr D2 k2 in simp_all)
    moreover have "blocks_of (give_pages bm s2) (P - {a}) = (\<lambda>q. if get_block_arena q = a then None else blocks_of s1 P q)"
      by (rule R(2)) (use fr D2 k2 in simp_all)
    moreover have "\<dots> = blocks_of s1 P"
      using all by (auto simp: fun_eq_iff blocks_of_def block_at_def Let_def a1 lg d1 freed_def desc1 simp flip: d_def)
    ultimately show ?thesis using run2 blocks by (simp only:) blast
  qed
qed

interpretation arena: block_heap kmalloc kfree "heap_rep U" KMALLOC_MAX for U
proof
  fix s H n p s' and e :: fail and E
  assume "heap_rep U s H"
  then obtain P where P: "arena_inv U {} s P" "H = blocks_of s P" by (auto simp: heap_rep_def)
  have alloc: "kmalloc n s = Inl Panic \<or> (\<exists>p s' P' E. kmalloc n s = Inr (p, s') \<and> arena_inv U {} s' P' \<and>
      blocks_of s P p = None \<and> blocks_of s' P' = (blocks_of s P)(p \<mapsto> E) \<and> bytes_from p n \<subseteq> E)" if "unat n \<le> KMALLOC_MAX"
    using kmalloc_small [OF P(1), of n] kmalloc_large [OF P(1), of n] that by (cases "n \<le> 1024") simp_all
  show "e = Panic" if "unat n \<le> KMALLOC_MAX" "kmalloc n s = Inl e"
    using alloc that by auto
  show "\<exists>E. H p = None \<and> heap_rep U s' (H(p \<mapsto> E)) \<and> bytes_from p n \<subseteq> E \<and> (\<forall>E'\<in>ran H. E \<inter> E' = {})"
    if n: "unat n \<le> KMALLOC_MAX" and run: "kmalloc n s = Inr (p, s')"
  proof -
    obtain P' E where E: "arena_inv U {} s' P'" "H p = None" "blocks_of s' P' = H(p \<mapsto> E)" "bytes_from p n \<subseteq> E"
      using alloc [OF n] run unfolding P(2) by (elim disjE exE conjE) simp_all
    have "E \<inter> E' = {}" if "E' \<in> ran H" for E'
    proof -
      obtain q where "H q = Some E'" using \<open>E' \<in> ran H\<close> by (auto simp: ran_def)
      then have "blocks_of s' P' p = Some E" "blocks_of s' P' q = Some E'" "p \<noteq> q" using E(2,3) by auto
      then show ?thesis by (rule blocks_disjoint [OF E(1)])
    qed
    moreover have "heap_rep U s' (H(p \<mapsto> E))" unfolding heap_rep_def using E(1) E(3) [symmetric] by blast
    ultimately show ?thesis using E(2,4) by blast
  qed
  assume b: "H p = Some E"
  then have "get_block_arena p \<in> P" using P(2) by (auto simp: blocks_of_def split: if_splits)
  then have "ar_large (arenas s (get_block_arena p)) = 1 \<or> ar_large (arenas s (get_block_arena p)) = 0"
    using arena_invD(3) [OF P(1)] by (auto simp: arena_ok_def small_ok_def)
  then obtain t P' where "kfree p s = Inr ((), t)" "arena_inv U {} t P'" "blocks_of t P' = H(p := None)"
    using kfree_large [OF P(1)] kfree_small [OF P(1)] b unfolding P(2) by blast
  then show "\<exists>s'. kfree p s = Inr ((), s') \<and> heap_rep U s' (H(p := None))" unfolding heap_rep_def by metis
qed

text \<open>An arena always has a block in use, so no pages are held when there is none.\<close>

lemma heap_rep_empty:
  assumes "heap_rep U s Map.empty"
  shows "page_bits (kmap s) = U"
proof -
  obtain P where P: "arena_inv U {} s P" "blocks_of s P = Map.empty" using assms by (auto simp: heap_rep_def)
  have "False" if a: "a \<in> P" for a
  proof -
    note okA = arena_invD(3) [OF P(1) a] note ok = arena_okD [OF okA]
    show False
    proof (cases "ar_large (arenas s a) = 1")
      case True
      then have "blocks_of s P (a + 16) \<noteq> None"
        using a by (simp add: blocks_of_def block_at_def get_block_arena_16 [OF ok(1)])
      then show ?thesis using P(2) by simp
    next
      case False
      define d where "d = ar_desc (arenas s a)"
      have "card (page_blocks a d \<inter> freed s d) < card (page_blocks a d)"
        using okA False card_page_blocks [OF ok(1)] by (simp add: arena_ok_def small_ok_def d_def)
      then have "page_blocks a d \<inter> freed s d \<noteq> page_blocks a d" by auto
      then obtain p where p: "p \<in> page_blocks a d - freed s d" by blast
      then have "blocks_of s P p \<noteq> None"
        using a False page_blocks_arena(1) [OF ok(1), of p d] by (simp add: blocks_of_def block_at_def d_def)
      then show ?thesis using P(2) by simp
    qed
  qed
  then show ?thesis using arena_invD(5) [OF P(1)] by blast
qed

lemma arena_init_run:
  assumes "length (adescs s) = 7"
  shows "arena_init s = Inr ((), s\<lparr>adescs := map (\<lambda>i. \<lparr>ad_total = 4080 div push_bit i 16, ad_block = push_bit i 16, ad_free = []\<rparr>) [0..<7]\<rparr>)"
proof -
  obtain a b c d e f g where "adescs s = [a, b, c, d, e, f, g]"
    using assms by (auto simp: length_Suc_conv numeral_eq_Suc)
  then show ?thesis
    by (simp add: arena_init_def DESC_COUNT_def upt_rec upd_adesc_def sizeof_arena_def)
qed

lemma arena_init_rep:
  assumes "length (adescs s) = 7" "page_bitmap (kmap s)"
  shows "\<exists>s'. arena_init s = Inr ((), s') \<and> heap_rep (page_bits (kmap s)) s' Map.empty \<and> kmap s' = kmap s"
proof -
  let ?s = "s\<lparr>adescs := map (\<lambda>i. \<lparr>ad_total = 4080 div push_bit i 16, ad_block = push_bit i 16, ad_free = []\<rparr>) [0..<7]\<rparr>"
  have sizes: "unat (push_bit k 16 :: u32) = 16 * 2 ^ k \<and> unat (4080 div push_bit k 16 :: u32) = 4080 div (16 * 2 ^ k)" if "k < 7" for k
  proof -
    have "k \<in> {0, 1, 2, 3, 4, 5, 6}" using that by auto
    then show ?thesis by (elim insertE) simp_all
  qed
  have desc: "desc_at ?s d = \<lparr>ad_total = 4080 div push_bit (unat d - 1) 16, ad_block = push_bit (unat d - 1) 16, ad_free = []\<rparr> \<and> unat d - 1 < 7"
    if "valid_d d" for d
  proof -
    have "unat d - 1 < 7" using that by (auto simp: valid_d_def)
    then show ?thesis by (simp add: desc_at_def)
  qed
  have "descs_ok ?s" using desc sizes by (simp add: descs_ok_def bsz_def bcnt_def)
  then have i: "arena_inv (page_bits (kmap s)) {} ?s {}"
    using assms(2) desc by (simp add: arena_inv_def free_ok_def freed_def kmap_def)
  have b: "blocks_of ?s {} = Map.empty" by (simp add: blocks_of_def fun_eq_iff)
  have "heap_rep (page_bits (kmap s)) ?s Map.empty"
    unfolding heap_rep_def by (rule exI, rule conjI, rule i, rule b [symmetric])
  moreover have "kmap ?s = kmap s" by (simp add: kmap_def)
  ultimately show ?thesis using arena_init_run [OF assms(1)] by blast
qed

text \<open>C4: Blocks of kernel memory never overlap: whatever is allocated already, a series of \<open>kmalloc\<close> of at most
\<open>KMALLOC\_MAX\<close> bytes each (all sizes up to 8192 below \<open>2^32\<close>, from which on the code's computation of the pages wraps
around) either panics for want of pages or returns different addresses whose requested bytes are disjoint from one
another and from every block in use, and \<open>kfree\<close> then takes the new blocks back in any order, after
which exactly the old blocks are in use.\<close>

theorem kmalloc_blocks_disjoint:
  assumes "heap_rep U s H" "\<forall>n\<in>set ns. unat n \<le> KMALLOC_MAX"
  shows "case alloc_all kmalloc ns s of Inl e \<Rightarrow> e = Panic
    | Inr (ps, s') \<Rightarrow> length ps = length ns \<and> distinct ps \<and> set ps \<inter> dom H = {} \<and>
        (\<forall>i<length ns. \<forall>E\<in>ran H. bytes_from (ps ! i) (ns ! i) \<inter> E = {}) \<and>
        (\<forall>i<length ns. \<forall>j<length ns. i \<noteq> j \<longrightarrow> bytes_from (ps ! i) (ns ! i) \<inter> bytes_from (ps ! j) (ns ! j) = {}) \<and>
        (\<forall>qs. mset qs = mset ps \<longrightarrow> (\<exists>s''. sforeach qs kfree s' = Inr ((), s'') \<and> heap_rep U s'' H))"
proof (cases "alloc_all kmalloc ns s")
  case (Inl e)
  then show ?thesis using arena.alloc_all_fail [OF assms Inl] by simp
next
  case (Inr r)
  then obtain ps s' where r: "alloc_all kmalloc ns s = Inr (ps, s')" by (cases r) auto
  obtain Es where Es: "length Es = length ns" "\<forall>i<length ns. bytes_from (ps ! i) (ns ! i) \<subseteq> Es ! i"
    "\<forall>E\<in>set Es. \<forall>E'\<in>ran H. E \<inter> E' = {}" using arena.alloc_all_fresh [OF assms r] by auto
  have "bytes_from (ps ! i) (ns ! i) \<inter> E = {}" if "i < length ns" "E \<in> ran H" for i E
    using Es that nth_mem [of i Es] by fastforce
  then have "\<forall>i<length ns. \<forall>E\<in>ran H. bytes_from (ps ! i) (ns ! i) \<inter> E = {}" by blast
  moreover note R = arena.alloc_all_release_all [OF assms r]
  have "\<forall>qs. mset qs = mset ps \<longrightarrow> (\<exists>s''. sforeach qs kfree s' = Inr ((), s'') \<and> heap_rep U s'' H)"
    by (intro allI impI, drule R) (elim conjE, assumption)
  moreover note R [OF refl]
  ultimately show ?thesis unfolding r sum.case prod.case by (elim conjE) (intro conjI, assumption+)
qed

definition heap0 :: heap_state where
  "heap0 = \<lparr>kmm = mm0, adescs = replicate 7 \<lparr>ad_total = 0, ad_block = 0, ad_free = []\<rparr>, arenas = (\<lambda>_. zero_arena)\<rparr>"

lemma heap0_ready: "length (adescs heap0) = 7" "page_bitmap (kmap heap0)"
  by (simp_all add: heap0_def kmap_def mm0_def page_bitmap_def bitmap_wf_def bitmap_make_def nbits_def)

theorem kmalloc_blocks_disjoint_witness:
  "\<exists>s U. arena_init heap0 = Inr ((), s) \<and> (case alloc_all kmalloc [24, 24, 5000] s of Inl e \<Rightarrow> e = Panic
    | Inr (ps, s') \<Rightarrow> distinct ps \<and> bytes_from (ps ! 0) 24 \<inter> bytes_from (ps ! 1) 24 = {} \<and>
        (\<exists>s''. sforeach (rev ps) kfree s' = Inr ((), s'') \<and> heap_rep U s'' Map.empty))"
proof -
  obtain s where s: "arena_init heap0 = Inr ((), s)" "heap_rep (page_bits (kmap heap0)) s Map.empty"
    using arena_init_rep [OF heap0_ready] by blast
  have "\<forall>n\<in>set [24, 24, 5000 :: u32]. unat n \<le> KMALLOC_MAX" by (simp add: KMALLOC_MAX_def)
  note blocks = kmalloc_blocks_disjoint [OF s(2) this]
  show ?thesis
  proof (cases "alloc_all kmalloc [24, 24, 5000] s")
    case (Inl e)
    with blocks s(1) show ?thesis by (simp del: alloc_all.simps)
  next
    case (Inr r)
    then obtain ps t where r: "alloc_all kmalloc [24, 24, 5000] s = Inr (ps, t)" by (cases r) auto
    have "bytes_from (ps ! 0) ([24, 24, 5000] ! 0) \<inter> bytes_from (ps ! 1) ([24, 24, 5000] ! 1) = {}" "distinct ps"
      "\<exists>s''. sforeach (rev ps) kfree t = Inr ((), s'') \<and> heap_rep (page_bits (kmap heap0)) s'' Map.empty"
      using blocks unfolding r sum.case prod.case by (simp_all only: list.size) force+
    with s(1) r show ?thesis by (intro exI [of _ s] exI [of _ "page_bits (kmap heap0)"]) (simp del: alloc_all.simps)
  qed
qed

text \<open>C12: Memory is not leaked: from the state after \<open>arena_init\<close> on, when every block of a series of
\<open>kmalloc\<close> has been freed, in any order, exactly the kernel pages are in use that were before.\<close>

theorem kfree_returns_pages:
  assumes "length (adescs s) = 7" "page_bitmap (kmap s)" "\<forall>n\<in>set ns. unat n \<le> KMALLOC_MAX"
  shows "case sbind arena_init (\<lambda>_. alloc_all kmalloc ns) s of Inl e \<Rightarrow> e = Panic
    | Inr (ps, s') \<Rightarrow> (\<forall>qs. mset qs = mset ps \<longrightarrow> (\<exists>s''. sforeach qs kfree s' = Inr ((), s'') \<and>
        page_bits (kmap s'') = page_bits (kmap s)))"
proof -
  obtain s0 where s0: "arena_init s = Inr ((), s0)" "heap_rep (page_bits (kmap s)) s0 Map.empty"
    using arena_init_rep [OF assms(1,2)] by blast
  show ?thesis
  proof (cases "alloc_all kmalloc ns s0")
    case (Inl e)
    then show ?thesis using arena.alloc_all_fail [OF s0(2) assms(3) Inl] s0(1) by simp
  next
    case (Inr r)
    then obtain ps s' where r: "alloc_all kmalloc ns s0 = Inr (ps, s')" by (cases r) auto
    then show ?thesis
      using arena.alloc_all_release_all [OF s0(2) assms(3) r] heap_rep_empty s0(1) by fastforce
  qed
qed

theorem kfree_returns_pages_witness:
  "case sbind arena_init (\<lambda>_. alloc_all kmalloc [24, 24, 5000]) heap0 of Inl e \<Rightarrow> e = Panic
    | Inr (ps, s') \<Rightarrow> (\<exists>s''. sforeach (rev ps) kfree s' = Inr ((), s'') \<and> page_bits (kmap s'') = page_bits (kmap heap0))"
  using kfree_returns_pages [OF heap0_ready, of "[24, 24, 5000]"]
  by (auto simp: KMALLOC_MAX_def split: sum.splits)

text \<open>A size close to the end of the address space wraps: one page is allocated for it.\<close>

lemma kmalloc_wraps: "div_round_up (0xfffffff8 + sizeof_arena) PAGE_SIZE = Inr 1"
  by (simp add: div_round_up_def sizeof_arena_def)

end
