(* ===== verification/Process.thy ===== *)
theory Process
  imports Cwd Files Kmalloc Paging
begin

text \<open>
  The life of a task in \<open>src/src/kernel/tasks.c\<close>: its creation, \<open>fork\<close>, \<open>exit\<close> and \<open>waitpid\<close>. The
  state joins the file system's with the kernel's memory. A control block stands at the start of its
  page; the words of the page that are not part of it, the kernel stack, are in the memory \<open>ram\<close> of the
  pages, which the kernel sees at their physical addresses. A task's bitmap of mapped pages is a value of
  its control block; \<open>vmap_at\<close> and \<open>vbits_at\<close> are the addresses of its structure and of its bits.
\<close>

unbundle bit_operations_syntax

record 'w proc_state = "'w fs_state" +
  kheap :: heap_state
  vmap_at :: "u32 \<Rightarrow> u32"
  vbits_at :: "u32 \<Rightarrow> u32"

definition NR_TASKS :: nat where "NR_TASKS = 64"
definition NORMAL_USER :: u32 where "NORMAL_USER = 1000"
definition STDIN_FILENO :: nat where "STDIN_FILENO = 0"
definition STDOUT_FILENO :: nat where "STDOUT_FILENO = 1"
definition STDERR_FILENO :: nat where "STDERR_FILENO = 2"
definition USER_MMAP_SIZE :: u32 where "USER_MMAP_SIZE = 0x8000000"
definition USER_CODE_SELECTOR :: u32 where "USER_CODE_SELECTOR = 0x23"
definition USER_DATA_SELECTOR :: u32 where "USER_DATA_SELECTOR = 0x2b"

text \<open>The sizes of \<open>task_frame_t\<close>, \<open>intr_frame_t\<close> and \<open>bitmap_t\<close>.\<close>

definition sizeof_task_frame :: u32 where "sizeof_task_frame = 20"
definition sizeof_intr_frame :: u32 where "sizeof_intr_frame = 80"
definition sizeof_bitmap :: u32 where "sizeof_bitmap = 12"

definition with_heap :: "(heap_state, 'b) op \<Rightarrow> (('w, 'a) proc_state_scheme, 'b) op" where
  "with_heap f = (\<lambda>s. rbind (f (kheap s)) (\<lambda>(x, h). Inr (x, s\<lparr>kheap := h\<rparr>)))"

text \<open>An operation of the paging component, for the running task.\<close>

definition mm_view :: "('w, 'a) proc_state_scheme \<Rightarrow> mm" where
  "mm_view s = (let t = pcb s (current s) in (kmm (kheap s))\<lparr>cr3 := cr3_reg s,
     cur := \<lparr>mt_pde = t_pde t, mt_brk = t_brk t, mt_end = t_end t, mt_uid = t_uid t, mt_vmap = t_vmap t\<rparr>\<rparr>)"

definition with_mm :: "(mm, 'b) op \<Rightarrow> (('w, 'a) proc_state_scheme, 'b) op" where
  "with_mm f = (\<lambda>s. rbind (f (mm_view s)) (\<lambda>(x, m). Inr (x, s\<lparr>kheap := (kheap s)\<lparr>kmm := m\<rparr>, cr3_reg := cr3 m,
     pcb := (pcb s)(current s := (pcb s (current s))\<lparr>t_brk := mt_brk (cur m), t_vmap := mt_vmap (cur m)\<rparr>)\<rparr>)))"

definition alloc_page :: "(('w, 'a) proc_state_scheme, u32) op" where
  "alloc_page = with_heap (on_mm (alloc_kpage 1))"

definition free_page :: "u32 \<Rightarrow> (('w, 'a) proc_state_scheme, unit) op" where
  "free_page a = with_heap (on_mm (free_kpage a 1))"

text \<open>Consecutive words of kernel memory.\<close>

primrec put_words :: "u32 \<Rightarrow> u32 list \<Rightarrow> (('w, 'a) proc_state_scheme, unit) op" where
  "put_words a [] = sret ()"
| "put_words a (v # vs) = sbind (with_heap (on_mm (pwrite a v))) (\<lambda>_. put_words (a + 4) vs)"

subsection \<open>New tasks\<close>

primrec free_slot_from :: "u32 list \<Rightarrow> nat \<Rightarrow> nat option" where
  "free_slot_from [] i = None"
| "free_slot_from (t # ts) i = (if t = 0 then Some i else free_slot_from ts (i + 1))"

text \<open>A page of zeros, read as a control block.\<close>

definition zero_task :: task where
  "zero_task = \<lparr>t_stack = 0, t_state = TASK_INIT, t_priority = 0, t_ticks = 0, t_jiffies = 0, t_name = replicate 16 0,
     t_uid = 0, t_gid = 0, t_pid = 0, t_ppid = 0, t_pde = 0, t_vmap = bitmap_make [] 0 0, t_text = 0, t_data = 0,
     t_end = 0, t_brk = 0, t_status = 0, t_waitpid = 0, t_pwd = 0, t_ipwd = 0, t_iroot = 0, t_iexec = 0, t_umask = 0,
     t_files = replicate 16 0, t_magic = 0\<rparr>"

definition get_free_task :: "(('w, 'a) proc_state_scheme, u32) op" where
  "get_free_task =
     sbind (sget (\<lambda>s. free_slot_from (take NR_TASKS (task_table s)) 0)) (\<lambda>r.
     case r of None \<Rightarrow> sfail Panic
     | Some i \<Rightarrow>
         sbind alloc_page (\<lambda>task.
         sbind (with_heap (on_mm (zero_page task))) (\<lambda>_.
         sbind (smodify (\<lambda>s. s\<lparr>pcb := (pcb s)(task := zero_task\<lparr>t_pid := int i\<rparr>),
           heap := (heap s)(task_node task := \<lparr>n_prev = 0, n_next = 0\<rparr>),
           task_table := (task_table s)[i := task]\<rparr>)) (\<lambda>_. sret task))))"

definition count_file :: "u32 \<Rightarrow> (('w, 'a) proc_state_scheme, unit) op" where
  "count_file p = upd_fl p (fl_count_update (\<lambda>n. n + 1))"

definition task_create :: "u32 \<Rightarrow> u8 list \<Rightarrow> u32 \<Rightarrow> u32 \<Rightarrow> (('w, 'a) proc_state_scheme, u32) op" where
  "task_create target name priority uid =
     sbind get_free_task (\<lambda>task.
     let stack = task + PAGE_SIZE - sizeof_task_frame
     in sbind (if length name < 16 then sret () else sfail Fault) (\<lambda>_.
        sbind (sget (\<lambda>s. kernel_map (kmm (kheap s)))) (\<lambda>km.
        sbind (upd_task task (\<lambda>t. t\<lparr>t_name := put (t_name t) 0 (name @ [0]), t_stack := stack, t_priority := priority,
          t_ticks := priority, t_jiffies := 0, t_state := TASK_READY, t_uid := uid, t_gid := 0, t_vmap := km,
          t_pde := 0x1000, t_brk := USER_EXEC_ADDR, t_text := USER_EXEC_ADDR, t_data := USER_EXEC_ADDR,
          t_end := USER_EXEC_ADDR, t_iroot := get_root_inode, t_ipwd := get_root_inode\<rparr>)) (\<lambda>_.
        sbind (upd_inode get_root_inode (i_count_update (\<lambda>n. n + 2))) (\<lambda>_.
        sbind alloc_page (\<lambda>pwd.
        sbind (smodify (\<lambda>s. s\<lparr>kmem := (kmem s)(pwd := SLASH, pwd + 1 := 0)\<rparr>)) (\<lambda>_.
        sbind (upd_task task (\<lambda>t. t\<lparr>t_pwd := pwd, t_umask := 18,
          t_files := ((t_files t)[STDIN_FILENO := 1])[STDOUT_FILENO := 2, STDERR_FILENO := 3]\<rparr>)) (\<lambda>_.
        sbind (sforeach [1, 2, 3] count_file) (\<lambda>_.
        sbind (upd_task task (t_magic_update (\<lambda>_. ONIX_MAGIC))) (\<lambda>_.
        sbind (put_words stack [0x33333333, 0x22222222, 0x11111111, 0x44444444, target]) (\<lambda>_.
        sret task)))))))))))"

definition task_setup :: "(('w, 'a) proc_state_scheme, unit) op" where
  "task_setup = sbind (sget current) (\<lambda>c.
     sbind (upd_task c (\<lambda>t. t\<lparr>t_magic := ONIX_MAGIC, t_ticks := 1, t_state := TASK_RUNNING\<rparr>)) (\<lambda>_.
     smodify (task_table_update (\<lambda>_. replicate NR_TASKS 0))))"

text \<open>The names are ``idle\_thread'', ``init\_thread'' and ``test\_thread''.\<close>

definition thread_name :: "u8 list \<Rightarrow> u8 list" where
  "thread_name xs = xs @ [0x5f, 0x74, 0x68, 0x72, 0x65, 0x61, 0x64]"

definition task_init :: "u32 \<Rightarrow> u32 \<Rightarrow> u32 \<Rightarrow> (('w, 'a) proc_state_scheme, unit) op" where
  "task_init idle_thread init_thread test_thread =
     sbind (smodify (\<lambda>s. s\<lparr>heap := list_init (list_init (heap s) (block_list s)) (sleep_list s)\<rparr>)) (\<lambda>_.
     sbind task_setup (\<lambda>_.
     sbind (task_create idle_thread (thread_name [0x69, 0x64, 0x6c, 0x65]) 1 KERNEL_USER) (\<lambda>idle.
     sbind (smodify (idle_task_update (\<lambda>_. idle))) (\<lambda>_.
     sbind (task_create init_thread (thread_name [0x69, 0x6e, 0x69, 0x74]) 5 NORMAL_USER) (\<lambda>_.
     sbind (task_create test_thread (thread_name [0x74, 0x65, 0x73, 0x74]) 5 KERNEL_USER) (\<lambda>_.
     sret ()))))))"

text \<open>
  \<open>sys_execve\<close> is an argument here; it does not return when it succeeds. The interrupt frame is
  written from its first word on, the word \<open>vector0\<close> keeps its value.
\<close>

definition task_to_user_mode :: "(('w, 'a) proc_state_scheme, unit) op \<Rightarrow> (('w, 'a) proc_state_scheme, unit) op" where
  "task_to_user_mode execve_init =
     sbind (sget current) (\<lambda>task.
     sbind (with_heap (kmalloc sizeof_bitmap)) (\<lambda>vm.
     sbind alloc_page (\<lambda>buf.
     sbind (slift (bitmap_init (replicate 4096 0) (USER_MMAP_SIZE div PAGE_SIZE div 8)
       (USER_MMAP_ADDR div PAGE_SIZE))) (\<lambda>bm.
     sbind (upd_task task (t_vmap_update (\<lambda>_. bm))) (\<lambda>_.
     sbind (smodify (\<lambda>s. s\<lparr>vmap_at := (vmap_at s)(task := vm), vbits_at := (vbits_at s)(task := buf)\<rparr>)) (\<lambda>_.
     sbind (with_mm copy_pde) (\<lambda>pde.
     sbind (upd_task task (t_pde_update (\<lambda>_. pde))) (\<lambda>_.
     sbind (with_mm (set_cr3 pde)) (\<lambda>_.
     let iframe = task + PAGE_SIZE - sizeof_intr_frame
     in sbind (put_words iframe [0x20, 1, 2, 3, 4, 5, 6, 7, 8, 0, USER_DATA_SELECTOR, USER_DATA_SELECTOR, USER_DATA_SELECTOR]) (\<lambda>_.
        sbind (put_words (iframe + 56) [ONIX_MAGIC, 0, USER_CODE_SELECTOR, 0x202, USER_STACK_TOP, USER_DATA_SELECTOR]) (\<lambda>_.
        sbind execve_init (\<lambda>_. sfail Panic))))))))))))"

subsection \<open>Fork\<close>

text \<open>\<open>memcpy\<close> of the whole page of a task.\<close>

definition copy_task :: "u32 \<Rightarrow> u32 \<Rightarrow> (('w, 'a) proc_state_scheme, unit) op" where
  "copy_task child task =
     sbind (smodify (\<lambda>s. s\<lparr>pcb := (pcb s)(child := pcb s task),
       heap := (heap s)(task_node child := heap s (task_node task)),
       vmap_at := (vmap_at s)(child := vmap_at s task), vbits_at := (vbits_at s)(child := vbits_at s task)\<rparr>)) (\<lambda>_.
     with_heap (on_mm (smodify (ram_update (\<lambda>r x. if x - child < PAGE_SIZE then r (task + (x - child)) else r x)))))"

definition task_build_stack :: "u32 \<Rightarrow> u32 \<Rightarrow> (('w, 'a) proc_state_scheme, unit) op" where
  "task_build_stack interrupt_exit task =
     (let addr = task + PAGE_SIZE - sizeof_intr_frame; frame = addr - sizeof_task_frame
      in sbind (put_words (addr + 32) [0]) (\<lambda>_.
         sbind (put_words frame [0xaa55aa55, 0xaa55aa55, 0xaa55aa55, 0xaa55aa55, interrupt_exit]) (\<lambda>_.
         upd_task task (t_stack_update (\<lambda>_. frame)))))"

text \<open>The address space, the directories and the files of the child.\<close>

definition fork_resources :: "task \<Rightarrow> u32 \<Rightarrow> (('w, 'a) proc_state_scheme, unit) op" where
  "fork_resources t child =
     sbind (with_heap (kmalloc sizeof_bitmap)) (\<lambda>vm.
     sbind alloc_page (\<lambda>buf.
     sbind (smodify (\<lambda>s. s\<lparr>vmap_at := (vmap_at s)(child := vm), vbits_at := (vbits_at s)(child := buf)\<rparr>)) (\<lambda>_.
     sbind (with_mm copy_pde) (\<lambda>pde.
     sbind (upd_task child (t_pde_update (\<lambda>_. pde))) (\<lambda>_.
     sbind alloc_page (\<lambda>pwd.
     sbind (upd_task child (t_pwd_update (\<lambda>_. pwd))) (\<lambda>_.
     sbind (smodify (\<lambda>s. s\<lparr>kmem := strncpy (kmem s) pwd (t_pwd t) PAGE_SIZE\<rparr>)) (\<lambda>_.
     sbind (upd_inode (t_ipwd t) (i_count_update (\<lambda>n. n + 1))) (\<lambda>_.
     sbind (upd_inode (t_iroot t) (i_count_update (\<lambda>n. n + 1))) (\<lambda>_.
     sbind (if t_iexec t \<noteq> 0 then upd_inode (t_iexec t) (i_count_update (\<lambda>n. n + 1)) else sret ()) (\<lambda>_.
     sforeach (take (unat TASK_FILE_NR) (t_files t)) (\<lambda>file. if file \<noteq> 0 then count_file file else sret ()))))))))))))"

definition task_fork :: "u32 \<Rightarrow> (('w, 'a) proc_state_scheme, int) op" where
  "task_fork interrupt_exit =
     sbind (sget current) (\<lambda>task.
     sbind (get_task task) (\<lambda>t.
     sbind (ensure_detached task) (\<lambda>_.
     sbind (sensure (t_state t = TASK_RUNNING)) (\<lambda>_.
     sbind get_free_task (\<lambda>child.
     sbind (get_task child) (\<lambda>c.
     sbind (copy_task child task) (\<lambda>_.
     sbind (upd_task child (\<lambda>x. x\<lparr>t_pid := t_pid c, t_ppid := t_pid t, t_state := TASK_READY, t_ticks := t_priority x\<rparr>)) (\<lambda>_.
     sbind (fork_resources t child) (\<lambda>_.
     sbind (task_build_stack interrupt_exit child) (\<lambda>_.
     sbind (get_task child) (\<lambda>c. sret (t_pid c))))))))))))"

subsection \<open>Exit\<close>

definition close_file :: "nat \<Rightarrow> (('w, 'a) proc_state_scheme, unit) op" where
  "close_file i = sbind (fd_file (of_nat i)) (\<lambda>file. if file \<noteq> 0 then sys_close (of_nat i) else sret ())"

definition exit_release :: "u32 \<Rightarrow> (('w, 'a) proc_state_scheme, unit) op" where
  "exit_release task =
     sbind (with_mm free_pde) (\<lambda>_.
     sbind (sget (\<lambda>s. vbits_at s task)) (\<lambda>bits.
     sbind (free_page bits) (\<lambda>_.
     sbind (sget (\<lambda>s. vmap_at s task)) (\<lambda>vm.
     sbind (with_heap (kfree vm)) (\<lambda>_.
     sbind (get_task task) (\<lambda>t.
     sbind (free_page (t_pwd t)) (\<lambda>_.
     sbind (iput (t_ipwd t)) (\<lambda>_.
     sbind (iput (t_iroot t)) (\<lambda>_.
     sbind (iput (t_iexec t)) (\<lambda>_.
     sforeach [0..<unat TASK_FILE_NR] close_file))))))))))"

text \<open>The children of the task become children of its own parent.\<close>

definition reparent :: "u32 \<Rightarrow> u32 \<Rightarrow> (('w, 'a) proc_state_scheme, unit) op" where
  "reparent task child =
     (if child = 0 then sret ()
      else sbind (get_task child) (\<lambda>c.
           sbind (get_task task) (\<lambda>t.
           if t_ppid c \<noteq> t_pid t then sret ()
           else upd_task child (t_ppid_update (\<lambda>_. t_ppid t)))))"

definition wake_parent :: "u32 \<Rightarrow> (('w, 'a) proc_state_scheme, unit) op" where
  "wake_parent task =
     sbind (get_task task) (\<lambda>t.
     sbind (sget task_table) (\<lambda>tab.
     sbind (if t_ppid t < 0 then sfail Fault else slift (rd tab (nat (t_ppid t)))) (\<lambda>parent.
     sbind (get_task parent) (\<lambda>p.
     if t_state p = TASK_WAITING \<and> (t_waitpid p = t_pid t \<or> t_waitpid p = - 1) then task_unblock parent else sret ()))))"

definition exit_family :: "u32 \<Rightarrow> (('w, 'a) proc_state_scheme, unit) op" where
  "exit_family task =
     sbind (sget (\<lambda>s. take NR_TASKS (task_table s))) (\<lambda>tab.
     sbind (sforeach tab (reparent task)) (\<lambda>_. wake_parent task))"

definition task_exit :: "int \<Rightarrow> (('w, 'a) proc_state_scheme, unit) op" where
  "task_exit status =
     sbind (sget current) (\<lambda>task.
     sbind (get_task task) (\<lambda>t.
     sbind (ensure_detached task) (\<lambda>_.
     sbind (sensure (t_state t = TASK_RUNNING)) (\<lambda>_.
     sbind (upd_task task (\<lambda>t. t\<lparr>t_state := TASK_DEAD, t_status := status\<rparr>)) (\<lambda>_.
     sbind (exit_release task) (\<lambda>_.
     sbind (exit_family task) (\<lambda>_. schedule)))))))"

subsection \<open>Waiting for a child\<close>

text \<open>The scan of the table: the index of a dead child, and whether a living one was seen.\<close>

primrec wait_scan :: "(u32 \<Rightarrow> task) \<Rightarrow> int \<Rightarrow> int \<Rightarrow> u32 list \<Rightarrow> nat \<Rightarrow> bool \<Rightarrow> nat option \<times> bool" where
  "wait_scan p me pid [] i has_child = (None, has_child)"
| "wait_scan p me pid (t # ts) i has_child =
     (if t = 0 \<or> t_ppid (p t) \<noteq> me \<or> (pid \<noteq> t_pid (p t) \<and> pid \<noteq> - 1) then wait_scan p me pid ts (i + 1) has_child
      else if t_state (p t) = TASK_DEAD then (Some i, has_child)
      else wait_scan p me pid ts (i + 1) True)"

text \<open>One turn of the loop: a child was reaped, the task has been put to sleep, or there is no child.\<close>

datatype wait_end = Reaped int int | Asleep | No_child

definition waitpid_turn :: "int \<Rightarrow> (('w, 'a) proc_state_scheme, wait_end) op" where
  "waitpid_turn pid =
     sbind (sget current) (\<lambda>task.
     sbind (get_task task) (\<lambda>t.
     sbind (sget (\<lambda>s. wait_scan (pcb s) (t_pid t) pid (drop 2 (take NR_TASKS (task_table s))) 2 False)) (\<lambda>(found, has_child).
     case found of
       Some i \<Rightarrow>
         sbind (sget (\<lambda>s. task_table s ! i)) (\<lambda>child.
         sbind (smodify (\<lambda>s. s\<lparr>task_table := (task_table s)[i := 0]\<rparr>)) (\<lambda>_.
         sbind (get_task child) (\<lambda>c.
         sbind (free_page child) (\<lambda>_. sret (Reaped (t_pid c) (t_status c))))))
     | None \<Rightarrow>
         if has_child then
           sbind (upd_task task (t_waitpid_update (\<lambda>_. pid))) (\<lambda>_.
           sbind (task_block task 0 TASK_WAITING) (\<lambda>_. sret Asleep))
         else sret No_child)))"

text \<open>The value is the child's number, or \<open>-1\<close>, and the status that is stored.\<close>

definition task_waitpid :: "int \<Rightarrow> (('w, 'a) proc_state_scheme, int \<times> int option) op" where
  "task_waitpid pid = sbind (waitpid_turn pid) (\<lambda>r. case r of Reaped p st \<Rightarrow> sret (p, Some st)
     | Asleep \<Rightarrow> sfail Blocked | No_child \<Rightarrow> sret (- 1, None))"

text \<open>The mask of the permission bits, in \<open>src/src/kernel/system.c\<close>.\<close>

definition sys_umask :: "u16 \<Rightarrow> ('a sched_scheme, u16) op" where
  "sys_umask msk =
     sbind (sget current) (\<lambda>task.
     sbind (get_task task) (\<lambda>t.
     sbind (upd_task task (t_umask_update (\<lambda>_. msk AND 0x1ff))) (\<lambda>_. sret (t_umask t))))"

end
