(* ===== verification/Held.thy ===== *)
theory Held
  imports Process
begin

text \<open>
  What \<open>fork\<close> does to the bitmap of the kernel's pages: pages are only taken, never given back. \<open>grows k f\<close>
  states it of an operation on a state in which \<open>k\<close> is the bitmap; it is shown of every operation below
  \<open>task_fork\<close>, in the memory, in the heap and in the state of the processes.
\<close>

definition more_pages :: "bitmap \<Rightarrow> bitmap \<Rightarrow> bool" where
  "more_pages bm bm' \<longleftrightarrow> (page_bitmap bm \<longrightarrow>
     page_bitmap bm' \<and> (\<forall>a n. run_fits bm' a n = run_fits bm a n) \<and> page_bits bm \<subseteq> page_bits bm')"

lemma more_pages_refl [simp]: "more_pages bm bm"
  by (simp add: more_pages_def)

lemma more_pages_trans: "more_pages a b \<Longrightarrow> more_pages b c \<Longrightarrow> more_pages a c"
  by (auto simp: more_pages_def)

definition grows :: "('s \<Rightarrow> bitmap) \<Rightarrow> ('s, 'b) op \<Rightarrow> bool" where
  "grows k f \<longleftrightarrow> (\<forall>s x s'. f s = Inr (x, s') \<longrightarrow> more_pages (k s) (k s'))"

lemma growsD: "grows k f \<Longrightarrow> f s = Inr (x, s') \<Longrightarrow> more_pages (k s) (k s')"
  by (simp add: grows_def)

named_theorems grows_intro \<open>operations that give no page of the kernel back\<close>

lemma grows_bind [grows_intro]: "grows k m \<Longrightarrow> (\<And>x. grows k (f x)) \<Longrightarrow> grows k (sbind m f)"
  unfolding grows_def by (simp add: rbind_eq_Inr split: prod.splits) (metis more_pages_trans)

lemma grows_if [grows_intro]: "(b \<Longrightarrow> grows k f) \<Longrightarrow> (\<not> b \<Longrightarrow> grows k g) \<Longrightarrow> grows k (if b then f else g)"
  by simp

lemma grows_foreach [grows_intro]: "(\<And>x. x \<in> set xs \<Longrightarrow> grows k (f x)) \<Longrightarrow> grows k (sforeach xs f)"
proof (induction xs)
  case (Cons x xs)
  then show ?case unfolding sforeach.simps by (intro grows_bind) auto
qed (simp add: grows_def)

lemma grows_option [grows_intro]:
  "grows k f \<Longrightarrow> (\<And>x. grows k (g x)) \<Longrightarrow> grows k (case r of None \<Rightarrow> f | Some x \<Rightarrow> g x)"
  by (cases r) simp_all

lemma grows_list [grows_intro]:
  "grows k f \<Longrightarrow> (\<And>x xs. grows k (g x xs)) \<Longrightarrow> grows k (case l of [] \<Rightarrow> f | x # xs \<Rightarrow> g x xs)"
  by (cases l) simp_all

lemma grows_prod [grows_intro]: "(\<And>x y. grows k (f x y)) \<Longrightarrow> grows k (case p of (x, y) \<Rightarrow> f x y)"
  by (cases p) simp

lemma grows_basic [grows_intro]:
  "grows k (sret x)" "grows k (sfail e)" "grows k (sget g)" "grows k (sensure b)" "grows k (slift r)"
  by (auto simp: grows_def rbind_eq_Inr)

lemma grows_smodify [grows_intro]: "(\<And>s. k (g s) = k s) \<Longrightarrow> grows k (smodify g)"
  by (simp add: grows_def)

subsection \<open>The memory\<close>

lemma grows_alloc [grows_intro]: "grows kernel_map (alloc_kpage n)"
proof -
  have "more_pages (kernel_map m) (kernel_map m')" if r: "alloc_kpage n m = Inr (a, m')" for m a m'
  proof -
    have n: "0 < n" using r by (auto simp: alloc_kpage_def split: if_splits)
    then obtain bm where sc: "scan_page (kernel_map m) n = Inr (a, bm)" "m' = m\<lparr>kernel_map := bm\<rparr>"
      using r by (auto simp: alloc_kpage_pages split: sum.splits prod.splits)
    show ?thesis
    proof (cases "page_bitmap (kernel_map m)")
      case True
      have "page_bitmap bm" "page_bits (kernel_map m) \<subseteq> page_bits bm"
        using pages.alloc_law [OF True n sc(1)] by auto
      moreover have "run_fits bm b c = run_fits (kernel_map m) b c" for b c using pages.alloc_fits [OF True n sc(1)] .
      ultimately show ?thesis using sc(2) by (simp add: more_pages_def)
    qed (simp add: more_pages_def)
  qed
  then show ?thesis by (simp add: grows_def)
qed

lemma grows_ram [grows_intro]:
  "grows kernel_map (map_get i)" "grows kernel_map (map_put i c)" "grows kernel_map (vread a)" "grows kernel_map (vwrite a v)"
  "grows kernel_map (pwrite a v)" "grows kernel_map (set_cr3 a)"
  by (auto simp: grows_def map_get_def map_put_def vread_def vwrite_def pwrite_def set_cr3_def rbind_eq_Inr
      split: if_splits option.splits)

lemma grows_get_page_from: "get_page_from i s = Inr (x, s') \<Longrightarrow> kernel_map s' = kernel_map s"
proof (induction i s rule: get_page_from.induct)
  case (1 i s)
  from 1(2) show ?case
    by (subst (asm) get_page_from.simps) (auto simp: rbind_eq_Inr map_get_def map_put_def split: if_splits intro!: 1(1))
qed

lemma grows_frames [grows_intro]: "grows kernel_map get_page"
  by (auto simp: grows_def get_page_def dest: grows_get_page_from)

lemma grows_zero [grows_intro]: "grows kernel_map (zero_page a)" "grows kernel_map (vzero a)" "grows kernel_map (vcopy a b)"
  unfolding zero_page_def vzero_def vcopy_def by (intro grows_intro)+

lemma grows_get_pte [grows_intro]: "grows kernel_map (get_pte va c)"
  unfolding get_pte_def Let_def by (intro grows_intro)

lemma grows_copy_page [grows_intro]: "grows kernel_map (copy_page a)"
  unfolding copy_page_def by (intro grows_intro)

lemma grows_copy_table [grows_intro]: "grows kernel_map (copy_table a d)"
  unfolding copy_table_def share_entry_def Let_def by (intro grows_intro)

lemma grows_copy_pde [grows_intro]: "grows kernel_map copy_pde"
  unfolding copy_pde_def by (intro grows_intro)

subsection \<open>The heap\<close>

lemma grows_on_mm [grows_intro]: "grows kernel_map f \<Longrightarrow> grows kmap (on_mm f)"
  by (fastforce simp: grows_def on_mm_def kmap_def rbind_eq_Inr split: prod.splits)

lemma grows_arena [grows_intro]:
  "grows kmap (get_adesc d)" "grows kmap (upd_adesc d g)" "grows kmap (get_arena a)" "grows kmap (put_arena a h)"
  "grows kmap (clear_arenas a n)"
  by (auto simp: grows_def get_adesc_def upd_adesc_def get_arena_def put_arena_def clear_arenas_def kmap_def rbind_eq_Inr
      split: if_splits)

lemma grows_blocks [grows_intro]:
  "grows kmap (get_arena_block a i)" "grows kmap (push_free d p)" "grows kmap (pop_free d)" "grows kmap (in_free d p)"
  unfolding get_arena_block_def push_free_def pop_free_def in_free_def by (intro grows_intro)+

lemma grows_kmalloc [grows_intro]: "grows kmap (kmalloc n)"
  unfolding kmalloc_def new_arena_def fill_arena_def fill_block_def by (intro grows_intro)

subsection \<open>The processes\<close>

abbreviation pmap :: "('w, 'a) proc_state_scheme \<Rightarrow> bitmap" where
  "pmap s \<equiv> kmap (kheap s)"

lemma grows_with [grows_intro]:
  "grows kmap f \<Longrightarrow> grows pmap (with_heap f)" "grows kernel_map g \<Longrightarrow> grows pmap (with_mm g)"
  by (fastforce simp: grows_def with_heap_def with_mm_def mm_view_def Let_def kmap_def rbind_eq_Inr split: prod.splits)+

lemma grows_alloc_page [grows_intro]: "grows pmap alloc_page"
  unfolding alloc_page_def by (intro grows_intro)

lemma grows_put_words [grows_intro]: "grows pmap (put_words a vs)"
  by (induction vs arbitrary: a) (auto intro: grows_intro)

lemma grows_tables [grows_intro]:
  "grows pmap (get_task t)" "grows pmap (upd_task t f)" "grows pmap (upd_inode p g)" "grows pmap (upd_fl p h)"
  by (auto simp: grows_def get_task_def upd_task_def upd_inode_def upd_fl_def rbind_eq_Inr split: if_splits)

lemma grows_get_free_task [grows_intro]: "grows pmap get_free_task"
  unfolding get_free_task_def by (intro grows_intro) simp

lemma grows_fork_resources [grows_intro]: "grows pmap (fork_resources t child)"
  unfolding fork_resources_def count_file_def by (intro grows_intro) simp_all

lemma grows_copy_task [grows_intro]: "grows pmap (copy_task child task)"
  unfolding copy_task_def by (intro grows_intro) simp_all

lemma grows_detached [grows_intro]: "grows pmap (ensure_detached t)"
  by (auto simp: grows_def ensure_detached_def rbind_eq_Inr split: if_splits)

lemma grows_build_stack [grows_intro]: "grows pmap (task_build_stack ie t)"
  unfolding task_build_stack_def Let_def by (intro grows_intro)

lemma grows_fork: "grows pmap (task_fork ie)"
  unfolding task_fork_def by (intro grows_intro)

end
