(* ===== verification/Family.thy ===== *)
theory Family
  imports Held Pipes Mutex
begin

text \<open>
  The table of processes in \<open>src/src/kernel/tasks.c\<close> is a forest: each entry's number is its place, and
  its parent is an entry that has not exited. Every operation of the tasks keeps this, because it either
  leaves the table and the kinship of its entries alone or is \<open>fork\<close>, \<open>exit\<close> or \<open>waitpid\<close>. The status
  of a task that exits reaches the parent that waits for it.
\<close>

subsection \<open>What most operations leave alone\<close>

definition same_kin :: "'a sched_scheme \<Rightarrow> 'a sched_scheme \<Rightarrow> bool" where
  "same_kin s s' \<longleftrightarrow> task_table s' = task_table s \<and>
     (\<forall>t. t_pid (pcb s' t) = t_pid (pcb s t) \<and> t_ppid (pcb s' t) = t_ppid (pcb s t) \<and>
        (t_state (pcb s' t) = TASK_DEAD \<longrightarrow> t_state (pcb s t) = TASK_DEAD))"

lemma same_kin_refl [simp]: "same_kin s s"
  by (simp add: same_kin_def)

lemma same_kin_trans: "same_kin s s' \<Longrightarrow> same_kin s' s'' \<Longrightarrow> same_kin s s''"
  by (simp add: same_kin_def)

definition kin :: "('a sched_scheme, 'b) op \<Rightarrow> bool" where
  "kin f \<longleftrightarrow> (\<forall>s x s'. f s = Inr (x, s') \<longrightarrow> same_kin s s')"

lemma kinD: "kin f \<Longrightarrow> f s = Inr (x, s') \<Longrightarrow> same_kin s s'"
  by (simp add: kin_def)

named_theorems kin_intro \<open>operations that keep the table of tasks and their kinship\<close>

lemma kin_bind [kin_intro]: "kin m \<Longrightarrow> (\<And>x. kin (f x)) \<Longrightarrow> kin (sbind m f)"
  unfolding kin_def by (simp add: rbind_eq_Inr split: prod.splits) (metis same_kin_trans)

lemma kin_fail: "kin (sbind m (\<lambda>_. sfail e))"
  by (simp add: kin_def rbind_eq_Inr split: prod.splits)

lemma kin_if [kin_intro]: "(b \<Longrightarrow> kin f) \<Longrightarrow> (\<not> b \<Longrightarrow> kin g) \<Longrightarrow> kin (if b then f else g)"
  by simp

lemma kin_smodify [kin_intro]: "(\<And>s. same_kin s (g s)) \<Longrightarrow> kin (smodify g)"
  by (simp add: kin_def)

lemma kin_read [kin_intro]: "kin (\<lambda>s. rbind (r s) (\<lambda>n. Inr (q n s, s)))"
  by (auto simp: kin_def rbind_eq_Inr)

definition tame :: "(task \<Rightarrow> task) \<Rightarrow> bool" where
  "tame f \<longleftrightarrow> (\<forall>t. t_pid (f t) = t_pid t \<and> t_ppid (f t) = t_ppid t \<and> (t_state (f t) = TASK_DEAD \<longrightarrow> t_state t = TASK_DEAD))"

lemma kin_upd_task [kin_intro]: "tame f \<Longrightarrow> kin (upd_task t f)"
  by (auto simp: kin_def upd_task_def same_kin_def tame_def split: if_splits)

lemma kin_basic [kin_intro]:
  "kin (sret x)" "kin (sfail e)" "kin (sget g)" "kin (sensure b)" "kin (on_heap h)" "kin (slift r)"
  "kin (get_task t)" "kin get_interrupt_state"
  by (auto simp: kin_def on_heap_def get_task_def get_interrupt_state_def rbind_eq_Inr same_kin_def split: if_splits)

lemma kin_foreach [kin_intro]: "(\<And>x. x \<in> set xs \<Longrightarrow> kin (f x)) \<Longrightarrow> kin (sforeach xs f)"
  by (induction xs) (auto intro: kin_intro)

lemma kin_option [kin_intro]:
  "kin f \<Longrightarrow> (\<And>x. kin (g x)) \<Longrightarrow> kin (case r of None \<Rightarrow> f | Some x \<Rightarrow> g x)"
  by (cases r) simp_all

lemma kin_prod [kin_intro]: "(\<And>x y. kin (f x y)) \<Longrightarrow> kin (case p of (x, y) \<Rightarrow> f x y)"
  by (cases p) simp

lemma kin_sched [kin_intro]:
  "kin ensure_disabled" "kin (ensure_detached t)" "kin (task_search st)" "kin (task_activate t)" "kin (task_switch t)"
  unfolding ensure_disabled_def ensure_detached_def task_search_def task_activate_def task_switch_def
  by (intro kin_intro; simp add: same_kin_def)+

lemma kin_unblock [kin_intro]: "kin (task_unblock t)"
  unfolding task_unblock_def by (intro kin_intro) (simp add: tame_def)

lemma kin_schedule [kin_intro]: "kin schedule"
  unfolding schedule_def by (intro kin_intro; simp add: tame_def)

lemma kin_block: "st \<noteq> TASK_DEAD \<Longrightarrow> kin (task_block t l st)"
  unfolding task_block_def Let_def by (intro kin_intro; simp add: tame_def)

lemma kin_sleep [kin_intro]: "kin (task_sleep ms)"
  unfolding task_sleep_def Let_def by (intro kin_intro; simp add: tame_def)

subsection \<open>Devices, buffers, inodes and files\<close>

lemma kin_devices [kin_intro]:
  "kin (on_world f)" "kin (upd_device i g)" "kin (\<lambda>s. if b then Inl e else rbind (r s) (\<lambda>d. Inr (d, s)))"
  by (auto simp: kin_def on_world_def upd_device_def rbind_eq_Inr same_kin_def split: if_splits prod.splits)

lemma kin_driver [kin_intro]:
  "kin (device_get dev)" "kin (device_ioctl dev cmd flags)" "kin (device_read dev n idx flags)" "kin (device_write dev buf n idx flags)"
proof -
  show g: "kin (device_get dev)" for dev :: int
    unfolding device_get_def by (intro kin_intro)
  show "kin (device_ioctl dev cmd flags)" "kin (device_read dev n idx flags)" "kin (device_write dev buf n idx flags)"
    unfolding device_ioctl_def device_read_def device_write_def by (intro kin_intro g)+
qed

lemma kin_request [kin_intro]: "kin (device_request dev buf n idx flags type)"
  unfolding device_request_def device_submit_def device_finish_def do_request_def request_nextreq_def Let_def
  by (intro kin_intro kin_fail | subst split_beta)+

lemma kin_tables [kin_intro]:
  "kin (get_buf p)" "kin (upd_buf p f)" "kin (get_inode p)" "kin (upd_inode p g)" "kin (get_fl p)" "kin (upd_fl p h)"
  by (auto simp: kin_def get_buf_def upd_buf_def get_inode_def upd_inode_def get_fl_def upd_fl_def rbind_eq_Inr same_kin_def
      split: if_splits)


lemma kin_push [kin_intro]: "kin (\<lambda>s. if p s then Inl e else Inr ((), free_list_update f s))"
  by (auto simp: kin_def same_kin_def split: if_splits)

lemma kin_unhash [kin_intro]: "kin (unhash p b)"
  by (auto simp: kin_def unhash_def Let_def rbind_eq_Inr same_kin_def split: if_splits)

lemma kin_free_list [kin_intro]:
  "kin (\<lambda>s. if p \<in> set (free_list s) then Inl AssertFail else Inr ((), s\<lparr>free_list := p # free_list s\<rparr>))"
  by (auto simp: kin_def same_kin_def split: if_splits)

lemma kin_pop [kin_intro]: "kin (\<lambda>s. rbind (r s) (\<lambda>(n, h). Inr (n, s\<lparr>heap := h\<rparr>)))"
  by (auto simp: kin_def rbind_eq_Inr same_kin_def split: prod.splits)

lemma kin_brelease [kin_intro]: "kin (brelease p)"
  unfolding brelease_def bwrite_def wake_waiter_def by (intro kin_intro)

lemma kin_unlink [kin_intro]: "kin (unlink_inode p)"
  by (auto simp: kin_def unlink_inode_def same_kin_def split: if_splits)

lemma kin_iput [kin_intro]: "kin (iput p)"
  unfolding iput_def put_pipe_inode_def put_free_inode_def by (intro kin_intro)

lemma kin_files [kin_intro]: "kin (fd_file fd)" "kin (set_fd fd f)" "kin (sys_close fd)"
proof -
  show 1: "kin (fd_file fd)" for fd unfolding fd_file_def running_task_def by (intro kin_intro)
  show 2: "kin (set_fd fd f)" for fd f unfolding set_fd_def by (intro kin_intro) (simp add: tame_def)
  show "kin (sys_close fd)" unfolding sys_close_def put_file_def task_put_fd_def by (intro kin_intro 1 2)
qed

subsection \<open>Memory\<close>

lemma kin_memory [kin_intro]: "kin (with_heap f)" "kin (with_mm g)"
  by (auto simp: kin_def with_heap_def with_mm_def rbind_eq_Inr same_kin_def split: prod.splits if_splits)

lemma kin_pages [kin_intro]: "kin alloc_page" "kin (free_page a)" "kin (put_words a vs)"
proof -
  show "kin alloc_page" "kin (free_page a)" unfolding alloc_page_def free_page_def by (intro kin_intro)+
  show "kin (put_words a vs)" by (induction vs arbitrary: a) (auto intro: kin_intro)
qed

lemma kin_exit_release: "kin (exit_release task)"
  unfolding exit_release_def close_file_def by (intro kin_intro)

lemma kin_fork_resources: "kin (fork_resources t child)"
  unfolding fork_resources_def count_file_def by (intro kin_intro; simp add: same_kin_def tame_def)

lemma kin_build_stack: "kin (task_build_stack ie task)"
  unfolding task_build_stack_def Let_def by (intro kin_intro; simp add: tame_def)

subsection \<open>The process table\<close>

text \<open>
  A task's number is its place in the table, its parent is in the table and has not exited.
\<close>

definition parent_ok :: "'a sched_scheme \<Rightarrow> u32 \<Rightarrow> bool" where
  "parent_ok s t \<longleftrightarrow> (\<exists>j<NR_TASKS. t_ppid (pcb s t) = int j \<and> task_table s ! j \<noteq> 0 \<and>
     t_state (pcb s (task_table s ! j)) \<noteq> TASK_DEAD)"

definition family_ok :: "'a sched_scheme \<Rightarrow> bool" where
  "family_ok s \<longleftrightarrow> length (task_table s) = NR_TASKS \<and>
     (\<forall>i<NR_TASKS. task_table s ! i \<noteq> 0 \<longrightarrow> t_pid (pcb s (task_table s ! i)) = int i \<and> parent_ok s (task_table s ! i))"

lemma family_okD:
  assumes "family_ok s"
  shows "length (task_table s) = NR_TASKS" "take NR_TASKS (task_table s) = task_table s"
    "i < NR_TASKS \<Longrightarrow> task_table s ! i \<noteq> 0 \<Longrightarrow> t_pid (pcb s (task_table s ! i)) = int i"
    "i < NR_TASKS \<Longrightarrow> task_table s ! i \<noteq> 0 \<Longrightarrow> parent_ok s (task_table s ! i)"
    "i < NR_TASKS \<Longrightarrow> j < NR_TASKS \<Longrightarrow> task_table s ! i = task_table s ! j \<Longrightarrow> task_table s ! i \<noteq> 0 \<Longrightarrow> i = j"
  using assms by (auto simp: family_ok_def) (metis of_nat_eq_iff)

lemma family_kin: "family_ok s \<Longrightarrow> same_kin s s' \<Longrightarrow> family_ok s'"
  unfolding family_ok_def parent_ok_def same_kin_def by metis

text \<open>A new task: \<open>t\<close> is entered at the free place \<open>i\<close> with the parent \<open>j\<close>.\<close>

lemma family_enter:
  assumes f: "family_ok s" and i: "i < NR_TASKS" "task_table s ! i = 0" and t: "t \<noteq> 0" "t \<notin> live s"
    and j: "j < NR_TASKS" "task_table s ! j \<noteq> 0" "t_state (pcb s (task_table s ! j)) \<noteq> TASK_DEAD"
    and s': "task_table s' = (task_table s)[i := t]" "t_pid (pcb s' t) = int i" "t_ppid (pcb s' t) = int j"
      "\<And>u. u \<in> live s \<Longrightarrow> t_pid (pcb s' u) = t_pid (pcb s u) \<and> t_ppid (pcb s' u) = t_ppid (pcb s u) \<and>
        (t_state (pcb s' u) = TASK_DEAD \<longrightarrow> t_state (pcb s u) = TASK_DEAD)"
  shows "family_ok s'"
proof -
  note F = family_okD [OF f]
  have live: "task_table s ! k \<in> live s" if "k < NR_TASKS" "task_table s ! k \<noteq> 0" for k
    using that F(1) by (simp add: live_def)
  have at: "task_table s' ! k = (if k = i then t else task_table s ! k)" if "k < NR_TASKS" for k
    using that F(1) i(1) by (simp add: s'(1) nth_list_update)
  have par: "parent_ok s' u" if p: "parent_ok s u" "t_ppid (pcb s' u) = t_ppid (pcb s u)" for u
  proof -
    obtain k where k: "k < NR_TASKS" "t_ppid (pcb s u) = int k" "task_table s ! k \<noteq> 0"
      "t_state (pcb s (task_table s ! k)) \<noteq> TASK_DEAD" using p(1) by (auto simp: parent_ok_def)
    then have "k \<noteq> i" using i(2) by auto
    then show ?thesis using k p(2) s'(4) [OF live [OF k(1,3)]] unfolding parent_ok_def
      by (intro exI [of _ k]) (simp add: at)
  qed
  have "j \<noteq> i" using j(2) i(2) by auto
  then have "parent_ok s' t" using j s'(3) s'(4) [OF live [OF j(1,2)]] unfolding parent_ok_def
    by (intro exI [of _ j]) (simp add: at)
  then have "t_pid (pcb s' (task_table s' ! k)) = int k \<and> parent_ok s' (task_table s' ! k)"
    if k: "k < NR_TASKS" "task_table s' ! k \<noteq> 0" for k
    using k at [OF k(1)] s'(2) s'(4) [OF live [of k]] F(3) [of k] par [OF F(4) [of k]] by (cases "k = i") simp_all
  then show ?thesis using F(1) by (simp add: family_ok_def s'(1))
qed

lemma free_slot_from_Some:
  "free_slot_from ts n = Some i \<Longrightarrow> n \<le> i \<and> i - n < length ts \<and> ts ! (i - n) = 0"
proof (induction ts arbitrary: n)
  case (Cons t ts)
  show ?case
  proof (cases "t = 0")
    case False
    with Cons.prems have "free_slot_from ts (n + 1) = Some i" by simp
    from Cons.IH [OF this] show ?thesis by (auto simp: nth_Cons' )
  qed (use Cons.prems in simp)
qed simp

text \<open>
  The parents lead from every entry of the table to the entry 0, the idle task. In the proofs this is a rank that
  gets smaller from an entry to its parent.
\<close>

definition parent_index :: "'a sched_scheme \<Rightarrow> nat \<Rightarrow> nat" where
  "parent_index s i = nat (t_ppid (pcb s (task_table s ! i)))"

definition forest :: "'a sched_scheme \<Rightarrow> bool" where
  "forest s \<longleftrightarrow> (\<forall>i<NR_TASKS. task_table s ! i \<noteq> 0 \<longrightarrow> (\<exists>n. (parent_index s ^^ n) i = 0))"

definition ranked :: "(nat \<Rightarrow> nat) \<Rightarrow> 'a sched_scheme \<Rightarrow> bool" where
  "ranked r s \<longleftrightarrow> (\<forall>i<NR_TASKS. 0 < i \<longrightarrow> task_table s ! i \<noteq> 0 \<longrightarrow> r (parent_index s i) < r i)"

lemma parent_index_ok:
  "parent_ok s (task_table s ! i) \<Longrightarrow> parent_index s i < NR_TASKS \<and> task_table s ! parent_index s i \<noteq> 0 \<and>
     t_state (pcb s (task_table s ! parent_index s i)) \<noteq> TASK_DEAD"
  by (auto simp: parent_ok_def parent_index_def)

lemma ranked_forest:
  assumes f: "family_ok s" and r: "ranked r s"
  shows "forest s"
proof -
  have "\<exists>n. (parent_index s ^^ n) i = 0" if "i < NR_TASKS" "task_table s ! i \<noteq> 0" for i
    using that
  proof (induction "r i" arbitrary: i rule: less_induct)
    case less
    show ?case
    proof (cases "i = 0")
      case True
      then show ?thesis by (intro exI [of _ 0]) simp
    next
      case False
      then have "r (parent_index s i) < r i" using r less.prems by (simp add: ranked_def)
      from less.hyps [OF this] obtain n where "(parent_index s ^^ n) (parent_index s i) = 0"
        using parent_index_ok family_okD(4) [OF f less.prems] by blast
      then show ?thesis by (intro exI [of _ "Suc n"]) (simp add: funpow_swap1)
    qed
  qed
  then show ?thesis by (simp add: forest_def)
qed

lemma forest_ranked:
  assumes "family_ok s" "forest s"
  shows "\<exists>r. ranked r s"
proof -
  define r where "r = (\<lambda>i. LEAST n. (parent_index s ^^ n) i = 0)"
  have "r (parent_index s i) < r i" if i: "i < NR_TASKS" "0 < i" "task_table s ! i \<noteq> 0" for i
  proof -
    have "\<exists>n. (parent_index s ^^ n) i = 0" using assms(2) i by (simp add: forest_def)
    then have l: "(parent_index s ^^ r i) i = 0" unfolding r_def by (rule LeastI_ex)
    then obtain n where n: "r i = Suc n" using i(2) by (cases "r i") auto
    then have "(parent_index s ^^ n) (parent_index s i) = 0" using l by (simp add: funpow_swap1)
    then have "r (parent_index s i) \<le> n" unfolding r_def by (rule Least_le)
    then show ?thesis using n by simp
  qed
  then show ?thesis by (auto simp: ranked_def)
qed

lemma ranked_kin: "ranked r s \<Longrightarrow> same_kin s s' \<Longrightarrow> ranked r s'"
  by (simp add: ranked_def parent_index_def same_kin_def)

lemma not_own_parent:
  assumes "family_ok s" "ranked r s" "i < NR_TASKS" "0 < i" "task_table s ! i \<noteq> 0"
  shows "t_ppid (pcb s (task_table s ! i)) \<noteq> t_pid (pcb s (task_table s ! i))"
proof
  assume "t_ppid (pcb s (task_table s ! i)) = t_pid (pcb s (task_table s ! i))"
  then have "parent_index s i = i" using family_okD(3) [OF assms(1,3,5)] by (simp add: parent_index_def)
  then show False using assms(2-5) by (fastforce simp: ranked_def)
qed

lemma ranked_enter:
  assumes f: "family_ok s" and r: "ranked r s" and i: "i < NR_TASKS" "task_table s ! i = 0" and t: "t \<noteq> 0" "t \<notin> live s"
    and j: "j < NR_TASKS" "task_table s ! j \<noteq> 0"
    and s': "task_table s' = (task_table s)[i := t]" "t_ppid (pcb s' t) = int j"
      "\<And>u. u \<in> live s \<Longrightarrow> t_ppid (pcb s' u) = t_ppid (pcb s u)"
  shows "ranked (r(i := Suc (r j))) s'"
proof -
  note F = family_okD [OF f]
  have at: "task_table s' ! k = (if k = i then t else task_table s ! k)" if "k < NR_TASKS" for k
    using that F(1) i(1) by (simp add: s'(1) nth_list_update)
  have "(r(i := Suc (r j))) (parent_index s' k) < (r(i := Suc (r j))) k" if k: "k < NR_TASKS" "0 < k" "task_table s' ! k \<noteq> 0" for k
  proof (cases "k = i")
    case True
    then have "parent_index s' k = j" using s'(2) at [OF i(1)] by (simp add: parent_index_def)
    moreover have "j \<noteq> i" using j(2) i(2) by auto
    ultimately show ?thesis using True by simp
  next
    case False
    then have o: "task_table s ! k \<noteq> 0" "task_table s ! k \<in> live s" using k at [OF k(1)] F(1) by (simp_all add: live_def)
    then have p: "parent_index s' k = parent_index s k" using False s'(3) at [OF k(1)] by (simp add: parent_index_def)
    moreover have "parent_index s k \<noteq> i" using parent_index_ok [OF F(4) [OF k(1) o(1)]] i(2) by auto
    ultimately show ?thesis using False r k o by (simp add: ranked_def)
  qed
  then show ?thesis by (simp add: ranked_def)
qed

text \<open>The pages of the control blocks are in use, so a new page is not one of them.\<close>

definition blocks_held :: "('w, 'a) proc_state_scheme \<Rightarrow> bool" where
  "blocks_held s \<longleftrightarrow> page_bitmap (pmap s) \<and> \<not> run_fits (pmap s) 0 1 \<and>
     (\<forall>t\<in>live s. page_aligned t \<and> unat (IDX t) \<in> page_bits (pmap s))"

lemma held_grows:
  "blocks_held s \<Longrightarrow> more_pages (pmap s) (pmap s') \<Longrightarrow> task_table s' = task_table s \<Longrightarrow> blocks_held s'"
  by (auto simp: blocks_held_def more_pages_def live_def)

text \<open>The operations of the scheduler do not touch the memory.\<close>

lemma held_keeps:
  assumes "keeps f" "kin f" "f s = Inr (x, s')" "blocks_held s"
  shows "blocks_held s'"
proof -
  have "sched.more s' = sched.more s" by (rule keepsD [OF assms(1,3)])
  then have "kheap s' = kheap s" by (cases s; cases s'; simp)
  moreover have "task_table s' = task_table s" using kinD [OF assms(2,3)] by (simp add: same_kin_def)
  ultimately show ?thesis using assms(4) by (simp add: blocks_held_def live_def)
qed

lemma alloc_page_fresh:
  assumes "blocks_held s" "alloc_page s = Inr (a, s')"
  shows "a \<notin> live s" "a \<noteq> 0" "\<exists>h. s' = s\<lparr>kheap := h\<rparr>" "page_aligned a" "unat (IDX a) \<in> page_bits (pmap s')"
proof -
  have 1: "0 < (1 :: u32)" by simp
  obtain bm h where sc: "scan_page (pmap s) 1 = Inr (a, bm)" and s': "s' = s\<lparr>kheap := h\<rparr>" "kmap h = bm"
    using assms(2) by (auto simp: alloc_page_def with_heap_def alloc_pages rbind_eq_Inr kmap_def split: sum.splits prod.splits)
  have law: "run_fits bm a 1" "page_run a 1 \<inter> page_bits (pmap s) = {}" "page_bits bm = page_bits (pmap s) \<union> page_run a 1"
    using pages.alloc_law [OF _ 1 sc] assms(1) by (simp_all add: blocks_held_def)
  then show al: "page_aligned a" by (simp add: run_fits_def)
  have m: "unat (IDX a) \<in> page_run a 1" using head_in_run [OF 1 al] .
  then show "a \<notin> live s" using law(2) assms(1) by (auto simp: blocks_held_def)
  have "run_fits (pmap s) a 1" using law(1) pages.alloc_fits [OF _ 1 sc] assms(1) by (simp add: blocks_held_def)
  then show "a \<noteq> 0" using assms(1) by (auto simp: blocks_held_def)
  show "\<exists>h. s' = s\<lparr>kheap := h\<rparr>" using s'(1) by blast
  show "unat (IDX a) \<in> page_bits (pmap s')" using m law(3) s' by simp
qed

lemma keeps_kheap: "with_heap f s = Inr (x, s') \<Longrightarrow> \<exists>h. s' = s\<lparr>kheap := h\<rparr>"
  by (auto simp: with_heap_def rbind_eq_Inr split: prod.splits)

lemma get_free_task_enters:
  assumes f: "family_ok s" and h: "blocks_held s" and r: "get_free_task s = Inr (t, s')"
  shows "\<exists>i h. i < NR_TASKS \<and> task_table s ! i = 0 \<and> t \<notin> live s \<and> t \<noteq> 0 \<and> blocks_held s' \<and>
    s' = s\<lparr>kheap := h, pcb := (pcb s)(t := zero_task\<lparr>t_pid := int i\<rparr>),
      heap := (heap s)(task_node t := \<lparr>n_prev = 0, n_next = 0\<rparr>), task_table := (task_table s)[i := t]\<rparr>"
proof -
  obtain i where i: "free_slot_from (task_table s) 0 = Some i"
    using r family_okD(2) [OF f] by (cases "free_slot_from (task_table s) 0") (auto simp: get_free_task_def)
  obtain s1 s2 where 1: "alloc_page s = Inr (t, s1)" "with_heap (on_mm (zero_page t)) s1 = Inr ((), s2)"
    "s' = s2\<lparr>pcb := (pcb s2)(t := zero_task\<lparr>t_pid := int i\<rparr>),
           heap := (heap s2)(task_node t := \<lparr>n_prev = 0, n_next = 0\<rparr>), task_table := (task_table s2)[i := t]\<rparr>"
    using r family_okD(2) [OF f] i by (auto simp: get_free_task_def rbind_eq_Inr split: prod.splits)
  obtain h1 h2 where "s1 = s\<lparr>kheap := h1\<rparr>" "s2 = s1\<lparr>kheap := h2\<rparr>"
    using alloc_page_fresh(3) [OF h 1(1)] keeps_kheap [OF 1(2)] by blast
  then have s': "s' = s\<lparr>kheap := h2, pcb := (pcb s)(t := zero_task\<lparr>t_pid := int i\<rparr>),
      heap := (heap s)(task_node t := \<lparr>n_prev = 0, n_next = 0\<rparr>), task_table := (task_table s)[i := t]\<rparr>"
    using 1(3) by simp
  have g: "more_pages (pmap s) (pmap s1)" "more_pages (pmap s1) (pmap s2)"
    using growsD [OF grows_alloc_page 1(1)] growsD [OF grows_with(1) 1(2)] by (auto intro: grows_intro)
  have "pmap s' = pmap s2" using 1(3) by simp
  with more_pages_trans [OF g] g(2) have g': "more_pages (pmap s) (pmap s')" "more_pages (pmap s1) (pmap s')" by simp_all
  have "page_bitmap (pmap s1)" using g(1) h by (simp add: more_pages_def blocks_held_def)
  then have "unat (IDX t) \<in> page_bits (pmap s')" using g'(2) alloc_page_fresh(5) [OF h 1(1)] by (auto simp: more_pages_def)
  moreover have "u \<in> live s \<or> u = t" if "u \<in> live s'" for u
    using that s' by (auto simp: live_def dest: subsetD [OF set_update_subset_insert])
  ultimately have "blocks_held s'"
    using h g'(1) alloc_page_fresh(4) [OF h 1(1)] unfolding blocks_held_def more_pages_def by blast
  then show ?thesis
    using s' free_slot_from_Some [OF i] family_okD(1) [OF f] alloc_page_fresh(1,2) [OF h 1(1)] by auto
qed

subsection \<open>Fork\<close>

lemma ensure_detached_same: "ensure_detached t s = Inr (x, s') \<Longrightarrow> s' = s"
  by (auto simp: ensure_detached_def rbind_eq_Inr split: if_splits)

lemma task_fork_child:
  assumes f: "family_ok s" and h: "blocks_held s" and c: "current s \<in> live s" and r: "task_fork ie s = Inr (pid, s')"
  shows "family_ok s' \<and> blocks_held s' \<and> (ranked rk s \<longrightarrow> (\<exists>rk'. ranked rk' s')) \<and> (\<exists>i<NR_TASKS. task_table s ! i = 0 \<and> pid = int i \<and> task_table s' ! i \<notin> insert 0 (live s) \<and>
    t_ppid (pcb s' (task_table s' ! i)) = t_pid (pcb s (current s)) \<and> task_table s' = (task_table s)[i := task_table s' ! i])"
proof -
  let ?p = "current s"
  obtain s1 child s2 s3 s4 s5 where
    st: "t_state (pcb s ?p) = TASK_RUNNING" and
    1: "get_free_task s = Inr (child, s1)" "copy_task child ?p s1 = Inr ((), s2)"
      "upd_task child (\<lambda>x. x\<lparr>t_pid := t_pid (pcb s1 child), t_ppid := t_pid (pcb s ?p), t_state := TASK_READY, t_ticks := t_priority x\<rparr>) s2 = Inr ((), s3)"
      "fork_resources (pcb s ?p) child s3 = Inr ((), s4)" "task_build_stack ie child s4 = Inr ((), s5)" and
    e: "s' = s5" "pid = t_pid (pcb s5 child)"
    using r by (auto simp: task_fork_def get_task_def rbind_eq_Inr dest!: ensure_detached_same split: if_splits prod.splits)
  obtain i hp where i: "i < NR_TASKS" "task_table s ! i = 0" "child \<notin> live s" "child \<noteq> 0" and held1: "blocks_held s1" and
    s1: "s1 = s\<lparr>kheap := hp, pcb := (pcb s)(child := zero_task\<lparr>t_pid := int i\<rparr>),
      heap := (heap s)(task_node child := \<lparr>n_prev = 0, n_next = 0\<rparr>), task_table := (task_table s)[i := child]\<rparr>"
    using get_free_task_enters [OF f h 1(1)] by blast
  have s2: "task_table s2 = (task_table s)[i := child]" "pcb s2 = (pcb s)(child := pcb s ?p)"
    using 1(2) c i(3) s1 by (auto simp: copy_task_def rbind_eq_Inr dest!: keeps_kheap split: prod.splits)
  have s3: "task_table s3 = (task_table s)[i := child]" "t_pid (pcb s3 child) = int i" "t_ppid (pcb s3 child) = t_pid (pcb s ?p)"
    "\<And>u. u \<in> live s \<Longrightarrow> pcb s3 u = pcb s u"
    using 1(3) s2 i(3,4) by (auto simp: upd_task_def s1)
  obtain j where j: "j < NR_TASKS" "task_table s ! j = ?p" "?p \<noteq> 0"
    using c family_okD(1) [OF f] by (auto simp: live_def in_set_conv_nth)
  have "t_pid (pcb s ?p) = int j" using family_okD(3) [OF f j(1)] j by simp
  with family_enter [OF f i(1,2,4,3) j(1), of s3] s3 st j have fam3: "family_ok s3" by simp
  have rk3: "ranked rk s \<Longrightarrow> ranked (rk(i := Suc (rk j))) s3"
    by (rule ranked_enter [OF f _ i(1,2,4,3) j(1)]) (use s3 j \<open>t_pid (pcb s ?p) = int j\<close> in simp_all)
  note k = same_kin_trans [OF kinD [OF kin_fork_resources 1(4)] kinD [OF kin_build_stack 1(5)]]
  have "family_ok s'" unfolding e(1) by (rule family_kin [OF fam3 k])
  moreover have "task_table s5 = (task_table s)[i := child]" "t_pid (pcb s5 child) = int i" "t_ppid (pcb s5 child) = t_pid (pcb s ?p)"
    using k s3 by (simp_all add: same_kin_def)
  moreover have "more_pages (pmap s1) (pmap s')"
    using growsD [OF grows_copy_task 1(2)] growsD [OF grows_tables(2) 1(3)] growsD [OF grows_fork_resources 1(4)]
      growsD [OF grows_build_stack 1(5)] more_pages_trans unfolding e(1) by metis
  then have "blocks_held s'" by (rule held_grows [OF held1]) (use s1 \<open>task_table s5 = _\<close> e(1) in simp)
  moreover have "ranked rk s \<longrightarrow> (\<exists>rk'. ranked rk' s')" using ranked_kin [OF rk3 k] e(1) by blast
  ultimately show ?thesis using i e family_okD(1) [OF f] by (intro conjI exI [of _ i]) auto
qed

subsection \<open>Exit\<close>

text \<open>The state after the loop of \<open>exit_family\<close>.\<close>

definition adopted :: "u32 \<Rightarrow> u32 list \<Rightarrow> (u32 \<Rightarrow> task) \<Rightarrow> u32 \<Rightarrow> task" where
  "adopted task ts p t = (if t \<in> set ts - {0} \<and> t_ppid (p t) = t_pid (p task) then (p t)\<lparr>t_ppid := t_ppid (p task)\<rparr> else p t)"

lemma reparent_all:
  assumes "task \<noteq> 0" "t_ppid (pcb s task) \<noteq> t_pid (pcb s task)"
  shows "sforeach ts (reparent task) s = Inr ((), s\<lparr>pcb := adopted task ts (pcb s)\<rparr>)"
  using assms
proof (induction ts arbitrary: s)
  case Nil
  then show ?case by (simp add: adopted_def fun_eq_iff)
next
  case (Cons c ts)
  define p where "p = (if c = 0 \<or> t_ppid (pcb s c) \<noteq> t_pid (pcb s task) then pcb s
    else (pcb s)(c := (pcb s c)\<lparr>t_ppid := t_ppid (pcb s task)\<rparr>))"
  have 1: "reparent task c s = Inr ((), s\<lparr>pcb := p\<rparr>)"
    using Cons.prems(1) by (simp add: reparent_def get_task_def upd_task_def p_def)
  have p: "t_pid (p t) = t_pid (pcb s t)" "t_ppid (p task) = t_ppid (pcb s task)" for t
    using Cons.prems(2) by (auto simp: p_def)
  have "adopted task ts p = adopted task (c # ts) (pcb s)"
    using Cons.prems(2) by (auto simp: adopted_def p_def fun_eq_iff)
  with 1 Cons.IH [of "s\<lparr>pcb := p\<rparr>"] Cons.prems p show ?case by simp
qed

lemma kin_wake_parent: "kin (wake_parent task)"
  unfolding wake_parent_def by (intro kin_intro)

text \<open>The task that exits may be dead already; after the loop it has no children.\<close>

lemma family_adopted:
  assumes f: "family_ok s" and t: "task \<in> live s" "t_ppid (pcb s task) \<noteq> t_pid (pcb s task)"
    and p: "\<And>u. t_pid (p u) = t_pid (pcb s u) \<and> t_ppid (p u) = t_ppid (pcb s u)"
      "\<And>u. u \<noteq> task \<Longrightarrow> t_state (p u) = TASK_DEAD \<Longrightarrow> t_state (pcb s u) = TASK_DEAD"
  shows "family_ok (s\<lparr>pcb := adopted task (task_table s) p\<rparr>)"
proof -
  note F = family_okD [OF f]
  let ?s = "s\<lparr>pcb := adopted task (task_table s) p\<rparr>"
  obtain k where k: "k < NR_TASKS" "task_table s ! k = task" "task \<noteq> 0"
    using t(1) F(1) by (auto simp: live_def in_set_conv_nth)
  have pk: "t_pid (pcb s task) = int k" using F(3) [OF k(1)] k by simp
  obtain j where j: "j < NR_TASKS" "t_ppid (pcb s task) = int j" "task_table s ! j \<noteq> 0"
    "t_state (pcb s (task_table s ! j)) \<noteq> TASK_DEAD" using F(4) [OF k(1)] k by (auto simp: parent_ok_def)
  have jk: "j \<noteq> k" using t(2) pk j(2) by auto
  have state: "t_state (adopted task (task_table s) p u) = t_state (p u)" "t_pid (adopted task (task_table s) p u) = t_pid (pcb s u)" for u
    using p(1) by (auto simp: adopted_def)
  have not_dead: "t_state (p (task_table s ! m)) \<noteq> TASK_DEAD"
    if "m < NR_TASKS" "m \<noteq> k" "task_table s ! m \<noteq> 0" "t_state (pcb s (task_table s ! m)) \<noteq> TASK_DEAD" for m
  proof -
    have "task_table s ! m \<noteq> task" using F(5) [OF that(1) k(1)] that(2,3) k(2) by auto
    from p(2) [OF this] that(4) show ?thesis by blast
  qed
  have par: "parent_ok ?s (task_table s ! i)" if i: "i < NR_TASKS" "task_table s ! i \<noteq> 0" for i
  proof -
    let ?u = "task_table s ! i"
    have u: "?u \<in> set (task_table s) - {0}" using i F(1) by simp
    obtain m where m: "m < NR_TASKS" "t_ppid (pcb s ?u) = int m" "task_table s ! m \<noteq> 0"
      "t_state (pcb s (task_table s ! m)) \<noteq> TASK_DEAD" using F(4) [OF i] by (auto simp: parent_ok_def)
    show ?thesis
    proof (cases "m = k")
      case True
      then have "t_ppid (adopted task (task_table s) p ?u) = int j"
        using u m(2) pk j(2) p(1) by (simp add: adopted_def)
      then show ?thesis using j not_dead [OF j(1) jk j(3,4)] by (auto simp: parent_ok_def state)
    next
      case False
      then have "t_ppid (adopted task (task_table s) p ?u) = int m" using m(2) pk p(1) by (simp add: adopted_def)
      then show ?thesis using m not_dead [OF m(1) False m(3,4)] by (auto simp: parent_ok_def state)
    qed
  qed
  show ?thesis using F(1,3) par by (simp add: family_ok_def state)
qed

lemma ranked_adopted:
  assumes f: "family_ok s" and r: "ranked r s" and k: "k < NR_TASKS" "0 < k" "task_table s ! k = task" "task \<noteq> 0"
    and p: "\<And>u. t_pid (p u) = t_pid (pcb s u) \<and> t_ppid (p u) = t_ppid (pcb s u)"
  shows "ranked r (s\<lparr>pcb := adopted task (task_table s) p\<rparr>)"
proof -
  have up: "r (parent_index s k) < r k" using r k by (simp add: ranked_def)
  have pk: "t_pid (pcb s task) = int k" using family_okD(3) [OF f k(1)] k(3,4) by simp
  have "parent_index (s\<lparr>pcb := adopted task (task_table s) p\<rparr>) i = parent_index s i \<or>
      parent_index s i = k \<and> parent_index (s\<lparr>pcb := adopted task (task_table s) p\<rparr>) i = parent_index s k" for i
    using p pk k(3) by (auto simp: parent_index_def adopted_def)
  then have "r (parent_index (s\<lparr>pcb := adopted task (task_table s) p\<rparr>) i) \<le> r (parent_index s i)" for i
    using up by (metis less_imp_le order_refl)
  then show ?thesis using r unfolding ranked_def by simp (meson le_less_trans)
qed

lemma task_exit_family:
  assumes f: "family_ok s" and rk: "ranked rk s" and c: "current s \<in> live s" "current s \<noteq> task_table s ! 0"
    and r: "task_exit st s = Inr ((), s')"
  shows "family_ok s' \<and> ranked rk s' \<and> task_table s' = task_table s"
proof -
  let ?p = "current s"
  let ?s1 = "s\<lparr>pcb := (pcb s)(?p := (pcb s ?p)\<lparr>t_state := TASK_DEAD, t_status := st\<rparr>)\<rparr>"
  have p0: "?p \<noteq> 0" using c(1) by (simp add: live_def)
  obtain i where i: "i < NR_TASKS" "task_table s ! i = ?p" using c(1) family_okD(1) [OF f] by (auto simp: live_def in_set_conv_nth)
  then have i0: "0 < i" using c(2) by (cases i) auto
  have own: "t_ppid (pcb s ?p) \<noteq> t_pid (pcb s ?p)" using not_own_parent [OF f rk i(1) i0] i(2) p0 by simp
  obtain s2 s3 where 2: "exit_release ?p ?s1 = Inr ((), s2)" "exit_family ?p s2 = Inr ((), s3)" "schedule s3 = Inr ((), s')"
    using r p0 by (auto simp: task_exit_def get_task_def upd_task_def rbind_eq_Inr dest!: ensure_detached_same split: if_splits prod.splits)
  have k2: "same_kin ?s1 s2" using kinD [OF kin_exit_release 2(1)] .
  have pid: "t_pid (pcb s2 u) = t_pid (pcb s u) \<and> t_ppid (pcb s2 u) = t_ppid (pcb s u)" for u
    using k2 by (simp add: same_kin_def split: if_splits)
  have tab: "task_table s2 = task_table s" using k2 by (simp add: same_kin_def)
  have dead: "t_state (pcb s2 u) = TASK_DEAD \<Longrightarrow> u \<noteq> ?p \<Longrightarrow> t_state (pcb s u) = TASK_DEAD" for u
    using k2 by (auto simp: same_kin_def split: if_splits)
  have run: "sforeach (task_table s) (reparent ?p) s2 = Inr ((), s2\<lparr>pcb := adopted ?p (task_table s) (pcb s2)\<rparr>)"
    using reparent_all [OF p0, of s2 "task_table s"] pid own by simp
  have "family_ok (s\<lparr>pcb := adopted ?p (task_table s) (pcb s2)\<rparr>)"
    using family_adopted [OF f c(1) own, of "pcb s2"] pid dead by blast
  then have fam: "family_ok (s2\<lparr>pcb := adopted ?p (task_table s) (pcb s2)\<rparr>)"
    using tab by (simp add: family_ok_def parent_ok_def)
  have wake: "wake_parent ?p (s2\<lparr>pcb := adopted ?p (task_table s) (pcb s2)\<rparr>) = Inr ((), s3)"
    using 2(2) run by (simp add: exit_family_def tab family_okD(2) [OF f])
  have k: "same_kin (s2\<lparr>pcb := adopted ?p (task_table s) (pcb s2)\<rparr>) s'"
    using same_kin_trans [OF kinD [OF kin_wake_parent wake] kinD [OF kin_schedule 2(3)]] .
  have "ranked rk (s\<lparr>pcb := adopted ?p (task_table s) (pcb s2)\<rparr>)" by (rule ranked_adopted [OF f rk i(1) i0 i(2) p0 pid])
  then have "ranked rk (s2\<lparr>pcb := adopted ?p (task_table s) (pcb s2)\<rparr>)" using tab by (simp add: ranked_def parent_index_def)
  then show ?thesis using family_kin [OF fam k] ranked_kin [OF _ k] tab k by (simp add: same_kin_def)
qed

subsection \<open>Waiting\<close>

lemma wait_scan_Some:
  "wait_scan p me pid ts n b = (Some i, b') \<Longrightarrow> n \<le> i \<and> i - n < length ts \<and> ts ! (i - n) \<noteq> 0 \<and>
     t_ppid (p (ts ! (i - n))) = me \<and> (pid = - 1 \<or> t_pid (p (ts ! (i - n))) = pid) \<and> t_state (p (ts ! (i - n))) = TASK_DEAD"
proof (induction ts arbitrary: n b)
  case (Cons t ts)
  show ?case
  proof (cases "i = n")
    case True
    have "wait_scan p me pid ts (n + 1) c \<noteq> (Some n, b')" for c
      using Cons.IH [of "n + 1" c] True by auto
    then show ?thesis using Cons.prems True by (auto split: if_splits)
  next
    case False
    then obtain c where "wait_scan p me pid ts (n + 1) c = (Some i, b')" using Cons.prems by (auto split: if_splits)
    from Cons.IH [OF this] show ?thesis by (auto simp: nth_Cons' )
  qed
qed simp

lemma family_reap:
  assumes f: "family_ok s" and i: "i < NR_TASKS" "task_table s ! i \<noteq> 0" "t_state (pcb s (task_table s ! i)) = TASK_DEAD"
  shows "family_ok (s\<lparr>task_table := (task_table s)[i := 0]\<rparr>)"
proof -
  note F = family_okD [OF f]
  let ?s = "s\<lparr>task_table := (task_table s)[i := 0]\<rparr>"
  have at: "task_table ?s ! k = (if k = i then 0 else task_table s ! k)" if "k < NR_TASKS" for k
    using that F(1) i(1) by (simp add: nth_list_update)
  have "parent_ok ?s t" if p: "parent_ok s t" for t
  proof -
    obtain k where k: "k < NR_TASKS" "t_ppid (pcb s t) = int k" "task_table s ! k \<noteq> 0"
      "t_state (pcb s (task_table s ! k)) \<noteq> TASK_DEAD" using p by (auto simp: parent_ok_def)
    then have "k \<noteq> i" using i(3) by auto
    then show ?thesis using k at [OF k(1)] unfolding parent_ok_def by (intro exI [of _ k]) simp
  qed
  then show ?thesis using F(1,3,4) at by (auto simp: family_ok_def)
qed

lemma aligned_idx: "page_aligned a \<Longrightarrow> page_aligned b \<Longrightarrow> IDX a = IDX b \<Longrightarrow> a = b"
  using PAGE_IDX by metis

lemma page_held_fits: "page_aligned a \<Longrightarrow> unat (IDX a) \<in> page_bits bm \<Longrightarrow> run_fits bm a 1"
  by (auto simp: page_bits_def run_fits_def)

lemma page_run_one: "page_run a 1 = {unat (IDX a)}"
  by (auto simp: page_run_def)

text \<open>Giving back the page of a control block leaves the pages of the others in use.\<close>

lemma free_page_held:
  assumes h: "blocks_held s" and c: "c \<in> live s"
    and t: "task_table t = (task_table s)[i := 0]" "kheap t = kheap s" "c \<notin> live t"
  shows "\<exists>kh. free_page c t = Inr ((), t\<lparr>kheap := kh\<rparr>) \<and> blocks_held (t\<lparr>kheap := kh\<rparr>)"
proof -
  have 1: "0 < (1 :: u32)" by simp
  have b: "page_bitmap (pmap s)" "page_aligned c" "unat (IDX c) \<in> page_bits (pmap s)" using h c by (simp_all add: blocks_held_def)
  from pages.release_law [OF b(1) 1 page_held_fits [OF b(2,3)]] b(3) obtain bm where
    bm: "reset_page (pmap s) c 1 = Inr bm" "page_bitmap bm" "page_bits bm = page_bits (pmap s) - {unat (IDX c)}"
      "\<forall>a n. run_fits bm a n = run_fits (pmap s) a n" by (auto simp: page_run_one)
  from free_pages [OF 1 bm(1)] obtain kh where kh: "on_mm (free_kpage c 1) (kheap s) = Inr ((), kh)" "kmap kh = bm"
    by (auto simp: give_pages_def kmap_def)
  have fp: "free_page c t = Inr ((), t\<lparr>kheap := kh\<rparr>)" using kh(1) t(2) by (simp add: free_page_def with_heap_def)
  have lv: "live (t\<lparr>kheap := kh\<rparr>) \<subseteq> live s - {c}"
    using t(1,3) by (auto simp: live_def dest: subsetD [OF set_update_subset_insert])
  have "page_aligned u \<and> unat (IDX u) \<in> page_bits bm" if "u \<in> live s" "u \<noteq> c" for u
    using that h b(2) aligned_idx [of u c] bm(3) by (auto simp: blocks_held_def u32_eq_iff)
  then have "blocks_held (t\<lparr>kheap := kh\<rparr>)" using lv h bm(2,4) kh(2) by (auto simp: blocks_held_def)
  with fp show ?thesis by blast
qed

text \<open>A turn that finds a dead child: its entry and its page are freed.\<close>

lemma waitpid_reaps:
  assumes f: "family_ok s" and h: "blocks_held s" and p: "current s \<noteq> 0"
    and sc: "wait_scan (pcb s) (t_pid (pcb s (current s))) pid (drop 2 (task_table s)) 2 False = (Some i, b)"
  shows "\<exists>kh. waitpid_turn pid s = Inr (Reaped (int i) (t_status (pcb s (task_table s ! i))),
      s\<lparr>task_table := (task_table s)[i := 0], kheap := kh\<rparr>) \<and>
    blocks_held (s\<lparr>task_table := (task_table s)[i := 0], kheap := kh\<rparr>) \<and>
    2 \<le> i \<and> i < NR_TASKS \<and> task_table s ! i \<noteq> 0 \<and> t_ppid (pcb s (task_table s ! i)) = t_pid (pcb s (current s)) \<and>
    (pid = - 1 \<or> int i = pid) \<and> t_state (pcb s (task_table s ! i)) = TASK_DEAD"
proof -
  note F = family_okD [OF f] and S = wait_scan_Some [OF sc]
  have "Suc (Suc (i - 2)) = i" using S by linarith
  then have i: "2 \<le> i" "i < NR_TASKS" "task_table s ! i \<noteq> 0" "t_ppid (pcb s (task_table s ! i)) = t_pid (pcb s (current s))"
    "pid = - 1 \<or> t_pid (pcb s (task_table s ! i)) = pid" "t_state (pcb s (task_table s ! i)) = TASK_DEAD"
    using S F(1) by auto
  let ?c = "task_table s ! i" and ?t = "s\<lparr>task_table := (task_table s)[i := 0]\<rparr>"
  have pc: "t_pid (pcb s ?c) = int i" using F(3) [OF i(2,3)] .
  have cl: "?c \<in> live s" using i(2,3) F(1) by (simp add: live_def)
  have "?c \<notin> live ?t"
  proof
    assume "?c \<in> live ?t"
    then obtain k where k: "k < NR_TASKS" "(task_table s)[i := 0] ! k = ?c" using F(1) by (auto simp: live_def in_set_conv_nth)
    then have "k \<noteq> i" "task_table s ! k = ?c" using i(2,3) F(1) by (auto simp: nth_list_update split: if_splits)
    then show False using F(5) [OF k(1) i(2)] i(3) by simp
  qed
  from free_page_held [OF h cl _ _ this, of i] obtain kh where
    "free_page ?c ?t = Inr ((), ?t\<lparr>kheap := kh\<rparr>)" "blocks_held (?t\<lparr>kheap := kh\<rparr>)" by auto
  then show ?thesis
    using sc i p F(2) pc by (intro exI [of _ kh]) (simp add: waitpid_turn_def get_task_def)
qed

lemma waitpid_turn_family:
  assumes f: "family_ok s" and rk: "ranked rk s" and h: "blocks_held s" and r: "waitpid_turn pid s = Inr (x, s')"
  shows "family_ok s' \<and> ranked rk s' \<and> blocks_held s'"
proof -
  let ?p = "current s"
  obtain found b where sc: "wait_scan (pcb s) (t_pid (pcb s ?p)) pid (drop 2 (task_table s)) 2 False = (found, b)" by fastforce
  show ?thesis
  proof (cases found)
    case (Some i)
    have "?p \<noteq> 0" using r by (auto simp: waitpid_turn_def get_task_def split: if_splits)
    from waitpid_reaps [OF f h this sc [unfolded Some]] r obtain kh where
      s': "s' = s\<lparr>task_table := (task_table s)[i := 0], kheap := kh\<rparr>" "blocks_held s'"
        "i < NR_TASKS" "task_table s ! i \<noteq> 0" "t_state (pcb s (task_table s ! i)) = TASK_DEAD" by auto
    have "family_ok s'" using family_reap [OF f s'(3-5)] by (simp add: s'(1) family_ok_def parent_ok_def)
    moreover have "ranked rk s'" unfolding ranked_def
    proof (intro allI impI)
      fix k assume k: "k < NR_TASKS" "0 < k" "task_table s' ! k \<noteq> 0"
      then have "k \<noteq> i" "task_table s ! k \<noteq> 0" using family_okD(1) [OF f] s'(3) by (auto simp: s'(1) nth_list_update split: if_splits)
      then show "rk (parent_index s' k) < rk k" using rk k(1,2) by (simp add: ranked_def parent_index_def s'(1))
    qed
    ultimately show ?thesis using s'(2) by blast
  next
    case None
    have "same_kin s s' \<and> blocks_held s'"
    proof (cases b)
      case True
      let ?s1 = "s\<lparr>pcb := (pcb s)(?p := (pcb s ?p)\<lparr>t_waitpid := pid\<rparr>)\<rparr>"
      have b: "task_block ?p 0 TASK_WAITING ?s1 = Inr ((), s')"
        using r sc None True family_okD(2) [OF f]
        by (auto simp: waitpid_turn_def get_task_def upd_task_def rbind_eq_Inr split: if_splits prod.splits)
      then have "same_kin ?s1 s'" using kinD [OF kin_block] by blast
      then have "same_kin s s'" by (auto simp: same_kin_def split: if_splits)
      moreover have "blocks_held ?s1" using h by (simp add: blocks_held_def live_def)
      then have "blocks_held s'" using held_keeps [OF keeps_block(1) kin_block b] by blast
      ultimately show ?thesis by blast
    next
      case False
      then have "s' = s" using r sc None family_okD(2) [OF f]
        by (auto simp: waitpid_turn_def get_task_def rbind_eq_Inr split: if_splits)
      then show ?thesis using h by simp
    qed
    then show ?thesis using family_kin [OF f] ranked_kin [OF rk] by blast
  qed
qed

subsection \<open>Runs of the kernel\<close>

text \<open>
  The operations of \<open>src/src/kernel/tasks.c\<close> that tasks run, in any order. An \<open>exit\<close> is that of a task other than the
  idle task, whose thread is an endless loop, and it is one that gives no page of a control block back: the pages that
  \<open>task\_exit\<close> frees are those of the address space, of the directory name and of the map of the task, which
  are not related to the control blocks here.
\<close>

inductive pstep :: "u32 \<Rightarrow> ('w, 'a) proc_state_scheme \<Rightarrow> ('w, 'a) proc_state_scheme \<Rightarrow> bool" for ie where
  fork: "current s \<in> live s \<Longrightarrow> task_fork ie s = Inr (pid, s') \<Longrightarrow> pstep ie s s'"
| exit: "current s \<in> live s \<Longrightarrow> current s \<noteq> task_table s ! 0 \<Longrightarrow> task_exit st s = Inr ((), s') \<Longrightarrow> blocks_held s' \<Longrightarrow>
    pstep ie s s'"
| wait: "waitpid_turn pid s = Inr (r, s') \<Longrightarrow> pstep ie s s'"
| yield: "schedule s = Inr ((), s') \<Longrightarrow> pstep ie s s'"
| block: "st \<noteq> TASK_DEAD \<Longrightarrow> task_block t l st s = Inr ((), s') \<Longrightarrow> pstep ie s s'"
| unblock: "task_unblock t s = Inr ((), s') \<Longrightarrow> pstep ie s s'"
| sleep: "task_sleep ms s = Inr ((), s') \<Longrightarrow> pstep ie s s'"

definition process_inv :: "('w, 'a) proc_state_scheme \<Rightarrow> bool" where
  "process_inv s \<longleftrightarrow> family_ok s \<and> (\<exists>rk. ranked rk s) \<and> blocks_held s"

lemma process_inv_kin:
  "process_inv s \<Longrightarrow> keeps f \<Longrightarrow> kin f \<Longrightarrow> f s = Inr (x, s') \<Longrightarrow> process_inv s'"
proof -
  assume i: "process_inv s" and f: "keeps f" "kin f" "f s = Inr (x, s')"
  obtain rk where rk: "family_ok s" "ranked rk s" "blocks_held s" using i by (auto simp: process_inv_def)
  have "same_kin s s'" by (rule kinD [OF f(2,3)])
  with rk have "family_ok s'" "ranked rk s'" using family_kin ranked_kin by blast+
  moreover have "blocks_held s'" by (rule held_keeps [OF f rk(3)])
  ultimately show ?thesis by (auto simp: process_inv_def)
qed

lemma pstep_family: "pstep ie s s' \<Longrightarrow> process_inv s \<Longrightarrow> process_inv s'"
proof (induction rule: pstep.induct)
  case (fork s pid s')
  then show ?case using task_fork_child unfolding process_inv_def by blast
next
  case (exit s st s')
  then show ?case using task_exit_family unfolding process_inv_def by blast
next
  case (wait pid s r s')
  then show ?case using waitpid_turn_family unfolding process_inv_def by blast
next
  case (yield s s')
  then show ?case using process_inv_kin [OF _ keeps_schedule(1) kin_schedule] by blast
next
  case (block st t l s s')
  then show ?case using process_inv_kin [OF _ keeps_block(1) kin_block] by blast
next
  case (unblock t s s')
  then show ?case using process_inv_kin [OF _ keeps_sched(3) kin_unblock] by blast
next
  case (sleep ms s s')
  then show ?case using process_inv_kin [OF _ keeps_block(2) kin_sleep] by blast
qed


subsection \<open>The end of a task\<close>

lemma wait_scan_finds:
  "m < length ts \<Longrightarrow> ts ! m \<noteq> 0 \<Longrightarrow> t_ppid (p (ts ! m)) = me \<Longrightarrow> pid = t_pid (p (ts ! m)) \<or> pid = - 1 \<Longrightarrow>
   t_state (p (ts ! m)) = TASK_DEAD \<Longrightarrow> \<exists>i b'. wait_scan p me pid ts n b = (Some i, b')"
proof (induction ts arbitrary: m n b)
  case (Cons t ts)
  show ?case
  proof (cases m)
    case (Suc l)
    then have "\<exists>i b'. wait_scan p me pid ts k c = (Some i, b')" for k c using Cons.prems by (intro Cons.IH [of l]) simp_all
    then show ?thesis by simp
  qed (use Cons.prems in auto)
qed simp

lemma exit_family_wakes:
  assumes inv: "sched_inv A L s" and fam: "family_ok s"
    and c: "i < NR_TASKS" "task_table s ! i = c" "c \<noteq> 0" "t_state (pcb s c) = TASK_DEAD"
    and p: "j < NR_TASKS" "task_table s ! j = p" "t_ppid (pcb s c) = int j" "j \<noteq> i"
    and w: "t_state (pcb s p) = TASK_WAITING" "t_waitpid (pcb s p) = int i \<or> t_waitpid (pcb s p) = - 1"
  shows "\<exists>h L'. let q = adopted c (task_table s) (pcb s);
      s1 = s\<lparr>heap := h, pcb := q(p := (q p)\<lparr>t_state := TASK_READY\<rparr>)\<rparr>
    in exit_family c s = Inr ((), s1) \<and> sched_inv A L' s1"
proof -
  note F = family_okD [OF fam]
  have pc: "t_pid (pcb s c) = int i" using F(3) [OF c(1)] c by simp
  have p0: "p \<noteq> 0" using F(4) [OF c(1)] c p by (auto simp: parent_ok_def)
  have pl: "p \<in> live s" using p F(1) p0 by (auto simp: live_def)
  define q where "q = adopted c (task_table s) (pcb s)"
  have q: "t_state (q u) = t_state (pcb s u)" "t_magic (q u) = t_magic (pcb s u)" "t_pde (q u) = t_pde (pcb s u)"
    "t_waitpid (q u) = t_waitpid (pcb s u)" "t_pid (q u) = t_pid (pcb s u)" for u
    by (simp_all add: q_def adopted_def)
  have qc: "q c = pcb s c" using p(3,4) pc by (simp add: q_def adopted_def)
  let ?s = "s\<lparr>pcb := q\<rparr>"
  have invq: "sched_inv A L ?s"
    by (rule sched_inv_cong [OF inv]) (use sched_invD(1,3,5) [OF inv] q in auto)
  have run1: "sforeach (task_table s) (reparent c) s = Inr ((), ?s)"
    unfolding q_def by (rule reparent_all [OF c(3)]) (use p pc in simp)
  have wt: "waiting (t_state (pcb ?s p))" using w(1) q by (simp add: waiting_def)
  have pl': "p \<in> live ?s" using pl by (simp add: live_def)
  obtain h' L' where h': "task_unblock p ?s = Inr ((), ?s\<lparr>heap := h', pcb := (pcb ?s)(p := (pcb ?s p)\<lparr>t_state := TASK_READY\<rparr>)\<rparr>)"
    "sched_inv A L' (?s\<lparr>heap := h', pcb := (pcb ?s)(p := (pcb ?s p)\<lparr>t_state := TASK_READY\<rparr>)\<rparr>)"
    using task_unblock_ok [OF invq pl' wt] by blast
  have "wake_parent c ?s = task_unblock p ?s"
    using c(3) p F(1) p0 w q qc pc by (auto simp: wake_parent_def get_task_def)
  then have "exit_family c s = task_unblock p ?s"
    using run1 F(2) by (simp add: exit_family_def)
  with h' show ?thesis unfolding q_def Let_def by (intro exI [of _ h'] exI [of _ L']) simp
qed

text \<open>C2: The status of a task that exits reaches its parent: when the parent sleeps in \<open>waitpid\<close> for that
task or for any child, the last part of \<open>task_exit\<close> makes it ready to run, and its next turn of the loop, which asks for
what the parent waits for, frees the entry of a dead child and returns that child's number and status. For a parent
that waits for this task, it is this task. For one that waits for any child it is a dead child of the parent with a number from 2
on, and if it is not this task then this one stays in the table, dead and with its status, for the next call.
The task that exits is not one of the entries 0 and 1, which are never reaped.\<close>

theorem exit_status_delivered:
  assumes "sched_inv A L s" "family_ok s" "blocks_held s"
    and "i < NR_TASKS" "2 \<le> i" "task_table s ! i = c" "c \<noteq> 0" "t_state (pcb s c) = TASK_DEAD"
    and "j < NR_TASKS" "task_table s ! j = p" "t_ppid (pcb s c) = int j" "j \<noteq> i"
    and "t_state (pcb s p) = TASK_WAITING" "t_waitpid (pcb s p) = int i \<or> t_waitpid (pcb s p) = - 1"
  shows "\<exists>s1 k s2 L'. exit_family c s = Inr ((), s1) \<and> t_state (pcb s1 p) = TASK_READY \<and> sched_inv A L' s1 \<and>
    waitpid_turn (t_waitpid (pcb s p)) (s1\<lparr>current := p\<rparr>) = Inr (Reaped (int k) (t_status (pcb s (task_table s ! k))), s2) \<and>
    task_table s2 = (task_table s)[k := 0] \<and> 2 \<le> k \<and> k < NR_TASKS \<and> task_table s ! k \<noteq> 0 \<and>
    t_state (pcb s (task_table s ! k)) = TASK_DEAD \<and> t_ppid (pcb s1 (task_table s ! k)) = int j \<and>
    (t_waitpid (pcb s p) = int i \<longrightarrow> k = i) \<and>
    (k \<noteq> i \<longrightarrow> task_table s2 ! i = c \<and> t_state (pcb s2 c) = TASK_DEAD \<and> t_status (pcb s2 c) = t_status (pcb s c) \<and>
       t_ppid (pcb s2 c) = int j)"
proof -
  note F = family_okD [OF assms(2)]
  define q where "q = adopted c (task_table s) (pcb s)"
  obtain h L' where h: "exit_family c s = Inr ((), s\<lparr>heap := h, pcb := q(p := (q p)\<lparr>t_state := TASK_READY\<rparr>)\<rparr>)"
    "sched_inv A L' (s\<lparr>heap := h, pcb := q(p := (q p)\<lparr>t_state := TASK_READY\<rparr>)\<rparr>)"
    using exit_family_wakes [OF assms(1,2,4,6-14)] by (auto simp: Let_def q_def)
  define r where "r = q(p := (q p)\<lparr>t_state := TASK_READY\<rparr>)"
  define s1 where "s1 = s\<lparr>heap := h, pcb := r\<rparr>"
  define t where "t = s1\<lparr>current := p\<rparr>"
  have p0: "p \<noteq> 0" using F(4) [OF assms(4)] assms(6-12) by (auto simp: parent_ok_def)
  have pid: "t_pid (pcb s c) = int i" "t_pid (pcb s p) = int j"
    using F(3) [OF assms(4)] F(3) [OF assms(9)] assms(6,7,10) p0 by simp_all
  have cp: "c \<noteq> p" using pid assms(12) by auto
  have cl: "c \<in> live s" using assms(4,6,7) F(1) by (auto simp: live_def)
  have own: "t_ppid (pcb s c) \<noteq> t_pid (pcb s c)" using pid(1) assms(11,12) by simp
  have "q c = pcb s c" using pid assms(11,12) by (simp add: q_def adopted_def)
  then have rc: "r c = pcb s c" using cp by (simp add: r_def)
  have rsame: "t_pid (r u) = t_pid (pcb s u)" "t_status (r u) = t_status (pcb s u)" "t_state (r u) = TASK_DEAD \<Longrightarrow> t_state (pcb s u) = TASK_DEAD" for u
    by (auto simp: r_def q_def adopted_def split: if_splits)
  have "family_ok (s\<lparr>pcb := q\<rparr>)" unfolding q_def by (rule family_adopted [OF assms(2) cl own]) simp_all
  moreover have "same_kin (s\<lparr>pcb := q\<rparr>) t" by (auto simp: same_kin_def t_def s1_def r_def)
  ultimately have ft: "family_ok t" by (rule family_kin)
  have ht: "blocks_held t" using assms(3) by (simp add: blocks_held_def live_def t_def s1_def)
  have tv: "task_table t = task_table s" "pcb t = r" "current t = p" by (simp_all add: t_def s1_def)
  have "2 + (i - 2) = i" using assms(5) by simp
  then have nth: "drop 2 (task_table s) ! (i - 2) = c" using assms(4-6) F(1) by (simp only: nth_drop)
  have "\<exists>k b. wait_scan r (int j) (t_waitpid (pcb s p)) (drop 2 (task_table s)) 2 False = (Some k, b)"
    by (rule wait_scan_finds [of "i - 2"]) (use assms(4,5,7,8,11,14) F(1) nth rc pid(1) in simp_all)
  then obtain k b where sc: "wait_scan (pcb t) (t_pid (pcb t (current t))) (t_waitpid (pcb s p)) (drop 2 (task_table t)) 2 False = (Some k, b)"
    using pid(2) by (auto simp: tv rsame)
  have "current t \<noteq> 0" using p0 by (simp add: tv)
  from waitpid_reaps [OF ft ht this sc] obtain kh where
    W: "waitpid_turn (t_waitpid (pcb s p)) t = Inr (Reaped (int k) (t_status (r (task_table s ! k))), t\<lparr>task_table := (task_table s)[k := 0], kheap := kh\<rparr>)"
      "2 \<le> k" "k < NR_TASKS" "task_table s ! k \<noteq> 0" "t_ppid (r (task_table s ! k)) = int j"
      "t_waitpid (pcb s p) = - 1 \<or> int k = t_waitpid (pcb s p)" "t_state (r (task_table s ! k)) = TASK_DEAD"
    using pid(2) by (auto simp: tv rsame)
  let ?s2 = "t\<lparr>task_table := (task_table s)[k := 0], kheap := kh\<rparr>"
  have "k \<noteq> i \<longrightarrow> task_table ?s2 ! i = c \<and> t_state (pcb ?s2 c) = TASK_DEAD \<and> t_status (pcb ?s2 c) = t_status (pcb s c) \<and>
      t_ppid (pcb ?s2 c) = int j"
    using rc assms(6,8,11) by (simp add: tv)
  moreover have "t_state (pcb s1 p) = TASK_READY" "pcb s1 = r" by (simp_all add: s1_def r_def)
  moreover have "exit_family c s = Inr ((), s1)" "sched_inv A L' s1" using h by (simp_all only: s1_def r_def)
  ultimately show ?thesis
    using W rsame(2) [of "task_table s ! k"] rsame(3) [OF W(7)]
    by (intro exI [of _ s1] exI [of _ k] exI [of _ ?s2] exI [of _ L']) (auto simp: t_def)
qed

subsection \<open>An instance\<close>

text \<open>The idle task, the first process waiting for any child, and its child that has exited.\<close>

definition proc0 :: "ram_world proc_state" where
  "proc0 = fs_state.extend (fs_state.truncate pipe_state) \<lparr>kheap = heap0\<lparr>kmm := (kmm heap0)\<lparr>kernel_map := bitmap_make [0x07, 0x00] 2 0x100\<rparr>\<rparr>, vmap_at = (\<lambda>_. 0), vbits_at = (\<lambda>_. 0)\<rparr>
     \<lparr>task_table := [0x102000, 0x100000, 0x101000] @ replicate 61 0,
      pcb := (\<lambda>_. blank_task)(0x100000 := blank_task\<lparr>t_pid := 1, t_state := TASK_WAITING, t_waitpid := - 1\<rparr>,
        0x101000 := blank_task\<lparr>t_pid := 2, t_ppid := 1, t_state := TASK_DEAD, t_status := 7\<rparr>),
      heap := (list_init (list_init (\<lambda>_. \<lparr>n_prev = 0, n_next = 0\<rparr>) 0x500) 0x600)
        (0x500 := \<lparr>n_prev = 0, n_next = 0x100004\<rparr>, 0x100004 := \<lparr>n_prev = 0x500, n_next = 0x508\<rparr>,
         0x508 := \<lparr>n_prev = 0x100004, n_next = 0\<rparr>),
      block_list := 0x500, sleep_list := 0x600, idle_task := 0x102000, current := 0x101000, c_if := False\<rparr>"

lemmas proc0_simps = proc0_def fs_state.extend_def

lemma proc0_live: "live proc0 = {0x102000, 0x100000, 0x101000}"
  by (auto simp: proc0_simps live_def)

lemma proc0_sched: "sched_inv {0x500, 0x600} ((\<lambda>_. [])(0x500 := [0x100004])) proc0"
proof -
  have "dlist (heap proc0) 0x500 [0x100004]" "dlist (heap proc0) 0x600 []"
    by (simp_all add: proc0_simps dlist_def path_def list_init_def lhead_def ltail_def)
  then show ?thesis
    by (simp add: sched_inv_def proc0_live) (simp add: proc0_simps list_node_def path_def lhead_def ltail_def
      list_init_def task_node_def node_task_def detached_def blank_task_def waiting_def runnable_def page_aligned_def)
qed

lemma proc0_at: "i < NR_TASKS \<Longrightarrow> task_table proc0 ! i \<noteq> 0 \<Longrightarrow> i = 0 \<or> i = 1 \<or> i = 2"
proof -
  assume i: "i < NR_TASKS" "task_table proc0 ! i \<noteq> 0"
  have "task_table proc0 ! (3 + k) = 0" if "k < 61" for k
  proof -
    have "task_table proc0 = [0x102000, 0x100000, 0x101000] @ replicate 61 0" by (simp add: proc0_simps)
    then show ?thesis using that nth_append [of "[0x102000, 0x100000, 0x101000]" "replicate 61 0" "3 + k"] by simp
  qed
  moreover have "3 + (i - 3) = i" "i - 3 < 61" if "3 \<le> i" using that i(1) unfolding NR_TASKS_def by linarith+
  ultimately have "\<not> 3 \<le> i" using i(2) by metis
  then show ?thesis by linarith
qed

lemma proc0_family: "family_ok proc0"
proof -
  have len: "length (task_table proc0) = NR_TASKS" by (simp add: proc0_simps NR_TASKS_def)
  have e: "task_table proc0 ! 0 = 0x102000" "task_table proc0 ! 1 = 0x100000" "task_table proc0 ! 2 = 0x101000"
    by (simp_all add: proc0_simps)
  have p: "t_pid (pcb proc0 0x102000) = 0" "t_pid (pcb proc0 0x100000) = 1" "t_pid (pcb proc0 0x101000) = 2"
    "t_ppid (pcb proc0 0x102000) = 0" "t_ppid (pcb proc0 0x100000) = 0" "t_ppid (pcb proc0 0x101000) = 1"
    "t_state (pcb proc0 0x102000) \<noteq> TASK_DEAD" "t_state (pcb proc0 0x100000) \<noteq> TASK_DEAD"
    by (simp_all add: proc0_simps blank_task_def)
  have "parent_ok proc0 0x102000" "parent_ok proc0 0x100000"
    unfolding parent_ok_def using e p by (auto intro!: exI [of _ 0] simp: NR_TASKS_def)
  moreover have "parent_ok proc0 0x101000"
    unfolding parent_ok_def using e p by (intro exI [of _ 1]) (simp add: NR_TASKS_def)
  ultimately show ?thesis using len e p proc0_at unfolding family_ok_def by fastforce
qed

lemma proc0_map: "pmap proc0 = bitmap_make [0x07, 0x00] 2 0x100"
  by (simp add: proc0_simps kmap_def)

lemma proc0_held: "blocks_held proc0"
proof -
  have b: "{256, 257, 258} \<subseteq> page_bits (bitmap_make [0x07, 0x00] 2 0x100)"
    by (simp add: page_bits_def bit_of_def bitmap_make_def nbits_def)
  have "page_bitmap (bitmap_make [0x07, 0x00] 2 0x100)" "\<not> run_fits (bitmap_make [0x07, 0x00] 2 0x100) 0 1"
    by (simp_all add: page_bitmap_def bitmap_wf_def bitmap_make_def nbits_def run_fits_def IDX_def)
  then show ?thesis
    unfolding blocks_held_def proc0_map proc0_live using b by (simp add: page_aligned_def IDX_def)
qed

theorem exit_status_delivered_witness:
  "\<exists>s1 s2 L'. exit_family 0x101000 proc0 = Inr ((), s1) \<and> t_state (pcb s1 0x100000) = TASK_READY \<and>
    sched_inv {0x500, 0x600} L' s1 \<and> t_waitpid (pcb proc0 0x100000) = - 1 \<and>
    waitpid_turn (- 1) (s1\<lparr>current := 0x100000\<rparr>) = Inr (Reaped 2 7, s2) \<and> task_table s2 = (task_table proc0)[2 := 0]"
proof -
  have e: "2 < NR_TASKS" "2 \<le> (2 :: nat)" "task_table proc0 ! 2 = 0x101000" "(0x101000 :: u32) \<noteq> 0"
    "t_state (pcb proc0 0x101000) = TASK_DEAD" "1 < NR_TASKS" "task_table proc0 ! 1 = 0x100000"
    "t_ppid (pcb proc0 0x101000) = int 1" "(1 :: nat) \<noteq> 2" "t_state (pcb proc0 0x100000) = TASK_WAITING"
    "t_waitpid (pcb proc0 0x100000) = int 2 \<or> t_waitpid (pcb proc0 0x100000) = - 1"
    by (simp_all add: proc0_simps blank_task_def NR_TASKS_def)
  have w: "t_waitpid (pcb proc0 0x100000) = - 1" "t_status (pcb proc0 0x101000) = 7" by (simp_all add: proc0_simps blank_task_def)
  from exit_status_delivered [OF proc0_sched proc0_family proc0_held e] obtain s1 k s2 L' where
    r: "exit_family 0x101000 proc0 = Inr ((), s1)" "t_state (pcb s1 0x100000) = TASK_READY" "sched_inv {0x500, 0x600} L' s1"
      "waitpid_turn (- 1) (s1\<lparr>current := 0x100000\<rparr>) = Inr (Reaped (int k) (t_status (pcb proc0 (task_table proc0 ! k))), s2)"
      "task_table s2 = (task_table proc0)[k := 0]" "2 \<le> k" "k < NR_TASKS" "task_table proc0 ! k \<noteq> 0"
    unfolding w(1) by blast
  have "k = 2" using proc0_at [OF r(7,8)] r(6) by auto
  then show ?thesis using r w e(3) by auto
qed

text \<open>The first process runs and reaps its child.\<close>

definition proc1 :: "ram_world proc_state" where
  "proc1 = proc0\<lparr>current := 0x100000, pcb := (pcb proc0)(0x100000 := (pcb proc0 0x100000)\<lparr>t_state := TASK_RUNNING\<rparr>)\<rparr>"

lemma proc1_family: "family_ok proc1" "forest proc1" "blocks_held proc1"
proof -
  have k: "same_kin proc0 proc1" by (auto simp: same_kin_def proc1_def)
  show f: "family_ok proc1" using family_kin [OF proc0_family k] .
  show "blocks_held proc1" using proc0_held by (simp add: blocks_held_def proc1_def live_def)
  have "parent_index proc0 1 = 0" "parent_index proc0 2 = 1" by (simp_all add: parent_index_def proc0_simps blank_task_def)
  then have "ranked (\<lambda>i. i) proc0" unfolding ranked_def using proc0_at by fastforce
  then show "forest proc1" using ranked_forest [OF f ranked_kin [OF _ k]] by blast
qed

lemma proc1_reaps:
  "\<exists>s. waitpid_turn (- 1) proc1 = Inr (Reaped 2 7, s) \<and> task_table s = (task_table proc1)[2 := 0]"
proof -
  have v: "task_table proc1 = [0x102000, 0x100000, 0x101000] @ replicate 61 0" "current proc1 = 0x100000"
    "t_pid (pcb proc1 0x100000) = 1" "t_ppid (pcb proc1 0x101000) = 1" "t_state (pcb proc1 0x101000) = TASK_DEAD"
    "t_status (pcb proc1 0x101000) = 7" by (simp_all add: proc1_def proc0_simps blank_task_def)
  have "wait_scan (pcb proc1) (t_pid (pcb proc1 (current proc1))) (- 1) (drop 2 (task_table proc1)) 2 False = (Some 2, False)"
    by (simp add: v)
  from waitpid_reaps [OF proc1_family(1,3) _ this] show ?thesis by (auto simp: v)
qed


end
