(* ===== verification/Elevator.thy ===== *)
theory Elevator
  imports Tasks Device
begin

text \<open>
  The order in which a disk serves its queue (\<open>request_nextreq\<close> in \<open>src/src/kernel/device.c\<close>): the
  elevator. The queue is sorted by the sector; after a request the code picks its neighbour in the current
  direction, turns round at the end, and takes the request that was served off the queue.
\<close>

text \<open>What \<open>device_request\<close> does with the queue after the transfer.\<close>

definition serve_next :: "nat \<Rightarrow> u32 \<Rightarrow> (('w, 'a) dev_state_scheme, request option) op" where
  "serve_next i addr =
     sbind (request_nextreq i addr) (\<lambda>next.
     sbind (upd_device i (d_requests_update (filter (\<lambda>r. r_addr r \<noteq> addr)))) (\<lambda>_. sret next))"

text \<open>
  The requests that are served after the one at \<open>addr\<close>, at most \<open>n\<close> of them, when no request is added meanwhile. In the
  code each turn is taken by the task of the request, which is woken up by the turn before; this function only
  puts the turns on the queue one after the other.
\<close>

primrec serve_queue :: "nat \<Rightarrow> u32 \<Rightarrow> nat \<Rightarrow> (('w, 'a) dev_state_scheme, request list) op" where
  "serve_queue i addr 0 = sret []"
| "serve_queue i addr (Suc n) =
     sbind (serve_next i addr) (\<lambda>next.
     case next of None \<Rightarrow> sret [] | Some r \<Rightarrow> sbind (serve_queue i (r_addr r) n) (\<lambda>rs. sret (r # rs)))"

lemma device_finish_serves:
  "device_finish i req buf =
     sbind (do_request req buf) (\<lambda>buf.
     sbind (serve_next i (r_addr req)) (\<lambda>next.
     sbind (case next of None \<Rightarrow> sret ()
            | Some r \<Rightarrow> sbind (get_task (r_task r)) (\<lambda>t. sbind (sensure (t_magic t = ONIX_MAGIC)) (\<lambda>_. task_unblock (r_task r)))) (\<lambda>_.
     sret buf)))"
  by (simp only: device_finish_def serve_next_def sbind_assoc sbind_ret)

text \<open>The order: the rest of the sweep, then the way back.\<close>

definition sweep :: "bool \<Rightarrow> 'b list \<Rightarrow> 'b list \<Rightarrow> 'b list" where
  "sweep down us vs = (if down then rev us @ vs else vs @ rev us)"

definition queue_at :: "('w, 'a) dev_state_scheme \<Rightarrow> nat \<Rightarrow> request list" where
  "queue_at s i = d_requests (devices s ! i)"

lemma split_at_addr:
  assumes "distinct (map r_addr (us @ r # vs))"
  shows "takeWhile (\<lambda>x. r_addr x \<noteq> r_addr r) (us @ r # vs) = us"
    "dropWhile (\<lambda>x. r_addr x \<noteq> r_addr r) (us @ r # vs) = r # vs"
    "filter (\<lambda>x. r_addr x \<noteq> r_addr r) (us @ r # vs) = us @ vs"
proof -
  have "r_addr r \<notin> r_addr ` set us" "r_addr r \<notin> r_addr ` set vs" using assms by simp_all
  then have "x \<in> set us \<union> set vs \<Longrightarrow> r_addr x \<noteq> r_addr r" for x by (metis UnE imageI)
  then show "takeWhile (\<lambda>x. r_addr x \<noteq> r_addr r) (us @ r # vs) = us"
    "dropWhile (\<lambda>x. r_addr x \<noteq> r_addr r) (us @ r # vs) = r # vs"
    "filter (\<lambda>x. r_addr x \<noteq> r_addr r) (us @ r # vs) = us @ vs"
    by (simp_all add: takeWhile_append2 dropWhile_append2)
qed

lemma elevator_cases:
  "elevator down us vs = (down', next) \<Longrightarrow>
     (next = None \<and> us = [] \<and> vs = []) \<or>
     (\<exists>us' r. us = us' @ [r] \<and> next = Some r \<and> down' \<and> sweep down us vs = r # sweep down' us' vs) \<or>
     (\<exists>r vs'. vs = r # vs' \<and> next = Some r \<and> \<not> down' \<and> sweep down us vs = r # sweep down' us vs')"
  by (cases vs; cases us rule: rev_cases; cases down) (auto simp: elevator_def Let_def sweep_def)

lemma upd_requests: "d_requests_update (filter P) d = d\<lparr>d_requests := filter P (d_requests d)\<rparr>"
  by simp

lemma serve_next_run:
  assumes "i < length (devices s)" "queue_at s i = us @ r # vs" "distinct (map r_addr (us @ r # vs))"
    "elevator (d_down (devices s ! i)) us vs = (down', next)"
  shows "serve_next i (r_addr r) s = Inr (next, s\<lparr>devices := (devices s)[i := (devices s ! i)\<lparr>d_down := down', d_requests := us @ vs\<rparr>]\<rparr>)"
  using assms(1,2,4) split_at_addr [OF assms(3)]
  by (simp add: serve_next_def request_nextreq_def queue_at_def upd_device_def Let_def upd_requests)

text \<open>One turn of the driver: the transfer that ends names the next one, and the rest is served from there.\<close>

lemma serve_queue_step:
  fixes s :: "('w, 'a) dev_state_scheme"
  assumes run: "serve_next i a s = Inr (nx, t)"
    and at: "i < length (devices t)" "queue_at t i = us @ vs" "d_down (devices t ! i) = down'"
    and len: "Suc n = length us + length vs" and dist: "distinct (map r_addr (us @ r # vs))"
    and q: "us @ vs = us' @ q # vs'" "nx = Some q" "ys = q # sweep down' us' vs'"
    and rest: "\<And>us r vs. \<lbrakk>n = length us + length vs; queue_at t i = us @ r # vs; distinct (map r_addr (us @ r # vs))\<rbrakk> \<Longrightarrow>
      \<exists>s'. serve_queue i (r_addr r) (Suc (length us + length vs)) t = Inr (sweep (d_down (devices t ! i)) us vs, s') \<and>
        queue_at s' i = []"
  shows "\<exists>s'. serve_queue i a (Suc (length us + length vs)) s = Inr (ys, s') \<and> queue_at s' i = []"
proof -
  have n: "n = length us' + length vs'" using arg_cong [OF q(1), of length] len by simp
  have "distinct (map r_addr (us' @ q # vs'))" unfolding q(1) [symmetric] using dist by auto
  from rest [OF n trans [OF at(2) q(1)] this] obtain s' where
    "serve_queue i (r_addr q) (Suc (length us' + length vs')) t = Inr (sweep down' us' vs', s')" "queue_at s' i = []"
    unfolding at(3) by blast
  moreover have "length us + length vs = Suc (length us' + length vs')" using n len by simp
  ultimately show ?thesis using run q(2,3) by (simp del: serve_queue.simps(2) add: serve_queue.simps(2) [of i a])
qed

text \<open>C18: The order of the elevator on a queue to which nothing is added: starting with any request in the queue of a
disk, the choices of \<open>request\_nextreq\<close>, each followed by the removal of the request that was served, go once through
all other requests, first those that lie ahead in the current direction of the disk in the order of their place,
then the others on the way back, and the queue is empty at the end. The transfers and the wake-up of the tasks are not part of this
statement, and it says nothing of requests that arrive in between: as long as requests keep arriving ahead of
the head, those behind it wait.\<close>

theorem elevator_serves_all:
  assumes "i < length (devices s)" "queue_at s i = us @ r # vs" "distinct (map r_addr (us @ r # vs))"
  shows "\<exists>s'. serve_queue i (r_addr r) (Suc (length us + length vs)) s = Inr (sweep (d_down (devices s ! i)) us vs, s') \<and>
    queue_at s' i = []"
  using assms
proof (induction "length us + length vs" arbitrary: s us r vs)
  case (0 us vs)
  then have "us = []" "vs = []" by simp_all
  with 0 show ?case
    using serve_next_run [OF 0(2,3,4)] by (cases "elevator (d_down (devices s ! i)) us vs")
      (auto simp: elevator_def Let_def queue_at_def sweep_def)
next
  case (Suc n us vs)
  obtain down' nx where e: "elevator (d_down (devices s ! i)) us vs = (down', nx)" by fastforce
  let ?s = "s\<lparr>devices := (devices s)[i := (devices s ! i)\<lparr>d_down := down', d_requests := us @ vs\<rparr>]\<rparr>"
  have run: "serve_next i (r_addr r) s = Inr (nx, ?s)" by (rule serve_next_run [OF Suc.prems e])
  have at: "i < length (devices ?s)" "queue_at ?s i = us @ vs" "d_down (devices ?s ! i) = down'"
    using Suc.prems(1) by (simp_all add: queue_at_def)
  note step = serve_queue_step [OF run at Suc.hyps(2) Suc.prems(3) _ _ _ Suc.hyps(1) [OF _ at(1)]]
  from elevator_cases [OF e] consider "us = []" "vs = []"
    | us' q where "us = us' @ [q]" "nx = Some q" "sweep (d_down (devices s ! i)) us vs = q # sweep down' us' vs"
    | q vs' where "vs = q # vs'" "nx = Some q" "sweep (d_down (devices s ! i)) us vs = q # sweep down' us vs'" by blast
  then show ?case
  proof cases
    case 1
    with Suc.hyps(2) show ?thesis by simp
  next
    case (2 us' q)
    then have "us @ vs = us' @ q # vs" by simp
    from step [OF this 2(2,3)] show ?thesis .
  next
    case (3 q vs')
    then have "us @ vs = us @ q # vs'" by simp
    from step [OF this 3(2,3)] show ?thesis .
  qed
qed

text \<open>A disk with four requests that is moving up from the second.\<close>

definition req0 :: "u32 \<Rightarrow> u32 \<Rightarrow> request" where
  "req0 a idx = \<lparr>r_addr = a, r_dev = 0, r_type = REQ_READ, r_idx = idx, r_count = 1, r_flags = 0, r_task = 0\<rparr>"

definition disk0 :: "unit dev_state" where
  "disk0 = sched.extend sched0 \<lparr>devices = [\<lparr>d_name = [], d_type = DEV_BLOCK, d_subtype = 0, d_dev = 0, d_parent = 0,
     d_ptr = 0, d_requests = [req0 1 10, req0 2 20, req0 3 30, req0 4 40], d_down = False, d_ioctl = None, d_read = None,
     d_write = None\<rparr>], world = (), request_addr = 0\<rparr>"

theorem elevator_serves_all_witness:
  "\<exists>s'. serve_queue 0 2 4 disk0 = Inr ([req0 3 30, req0 4 40, req0 1 10], s') \<and> queue_at s' 0 = []"
proof -
  have "0 < length (devices disk0)" "queue_at disk0 0 = [req0 1 10] @ req0 2 20 # [req0 3 30, req0 4 40]"
    "distinct (map r_addr ([req0 1 10] @ req0 2 20 # [req0 3 30, req0 4 40]))" "d_down (devices disk0 ! 0) = False"
    by (simp_all add: disk0_def sched.extend_def queue_at_def req0_def)
  note inst = elevator_serves_all [OF this(1-3), unfolded this(4)]
  have "Suc (length [req0 1 10] + length [req0 3 30, req0 4 40]) = 4" by simp
  moreover have "r_addr (req0 2 20) = 2" by (simp add: req0_def)
  moreover have "sweep False [req0 1 10] [req0 3 30, req0 4 40] = [req0 3 30, req0 4 40, req0 1 10]" by (simp add: sweep_def)
  ultimately show ?thesis using inst by (simp only:)
qed

end
