(* ===== verification/Keyboard.thy ===== *)
theory Keyboard
  imports Fifo Mutex
begin

text \<open>
  The keyboard driver \<open>src/src/kernel/keyboard.c\<close>. The table \<open>keymap\<close> has a row of four characters for each
  key: the character without and with shift, and the two flags that say whether the key is down (as an
  ordinary and as an extended key). The handler turns scan codes into characters in a circular queue,
  \<open>keyboard_read\<close> takes them out. The device behind the ports is a parameter of the state.
\<close>

unbundle bit_operations_syntax

definition KEY_CTRL_L :: nat where "KEY_CTRL_L = 0x1d"
definition KEY_SHIFT_L :: nat where "KEY_SHIFT_L = 0x2a"
definition KEY_SLASH :: u16 where "KEY_SLASH = 0x35"
definition KEY_SHIFT_R :: nat where "KEY_SHIFT_R = 0x36"
definition KEY_CAPSLOCK :: u16 where "KEY_CAPSLOCK = 0x3a"
definition KEY_NUMLOCK :: u16 where "KEY_NUMLOCK = 0x45"
definition KEY_SCRLOCK :: u16 where "KEY_SCRLOCK = 0x46"
definition KEY_PRINT_SCREEN :: u16 where "KEY_PRINT_SCREEN = 0x5f"
definition CODE_PRINT_SCREEN_DOWN :: u16 where "CODE_PRINT_SCREEN_DOWN = 0xb7"
definition KEYBOARD_BUFFER_SIZE :: u32 where "KEYBOARD_BUFFER_SIZE = 64"

text \<open>The characters of the keys, without and with shift.\<close>

definition key_chars :: "(u8 \<times> u8) list" where
  "key_chars = [
     (0x0, 0x0), (0x1b, 0x1b), (0x31, 0x21), (0x32, 0x40), (0x33, 0x23), (0x34, 0x24), (0x35, 0x25), (0x36, 0x5e),
     (0x37, 0x26), (0x38, 0x2a), (0x39, 0x28), (0x30, 0x29), (0x2d, 0x5f), (0x3d, 0x2b), (0x8, 0x8), (0x9, 0x9),
     (0x71, 0x51), (0x77, 0x57), (0x65, 0x45), (0x72, 0x52), (0x74, 0x54), (0x79, 0x59), (0x75, 0x55), (0x69, 0x49),
     (0x6f, 0x4f), (0x70, 0x50), (0x5b, 0x7b), (0x5d, 0x7d), (0xa, 0xa), (0x0, 0x0), (0x61, 0x41), (0x73, 0x53),
     (0x64, 0x44), (0x66, 0x46), (0x67, 0x47), (0x68, 0x48), (0x6a, 0x4a), (0x6b, 0x4b), (0x6c, 0x4c), (0x3b, 0x3a),
     (0x27, 0x22), (0x60, 0x7e), (0x0, 0x0), (0x5c, 0x7c), (0x7a, 0x5a), (0x78, 0x58), (0x63, 0x43), (0x76, 0x56),
     (0x62, 0x42), (0x6e, 0x4e), (0x6d, 0x4d), (0x2c, 0x3c), (0x2e, 0x3e), (0x2f, 0x3f), (0x0, 0x0), (0x2a, 0x2a),
     (0x0, 0x0), (0x20, 0x20), (0x0, 0x0), (0x0, 0x0), (0x0, 0x0), (0x0, 0x0), (0x0, 0x0), (0x0, 0x0),
     (0x0, 0x0), (0x0, 0x0), (0x0, 0x0), (0x0, 0x0), (0x0, 0x0), (0x0, 0x0), (0x0, 0x0), (0x37, 0x0),
     (0x38, 0x0), (0x39, 0x0), (0x2d, 0x2d), (0x34, 0x0), (0x35, 0x0), (0x36, 0x0), (0x2b, 0x2b), (0x31, 0x0),
     (0x32, 0x0), (0x33, 0x0), (0x30, 0x0), (0x2e, 0x7f), (0x0, 0x0), (0x0, 0x0), (0x0, 0x0), (0x0, 0x0),
     (0x0, 0x0), (0x0, 0x0), (0x0, 0x0), (0x0, 0x0), (0x0, 0x0), (0x0, 0x0), (0x0, 0x0), (0x0, 0x0)]"

definition keymap0 :: "u8 list list" where
  "keymap0 = map (\<lambda>(a, b). [a, b, 0, 0]) key_chars"

record keyboard = msched +
  keymap :: "u8 list list"
  kb_fifo :: fifo
  kb_waiter :: u32
  kb_lock :: u32
  capslock_state :: bool
  scrlock_state :: bool
  numlock_state :: bool
  extcode_state :: bool

definition key_at :: "u8 list list \<Rightarrow> nat \<Rightarrow> nat \<Rightarrow> u8 res" where
  "key_at km k i = rbind (rd km k) (\<lambda>row. rd row i)"

definition set_key :: "nat \<Rightarrow> nat \<Rightarrow> u8 \<Rightarrow> ('a keyboard_scheme, unit) op" where
  "set_key k i v = (\<lambda>s. rbind (rd (keymap s) k) (\<lambda>row. rbind (wr row i v) (\<lambda>row.
     rbind (wr (keymap s) k row) (\<lambda>km. Inr ((), s\<lparr>keymap := km\<rparr>)))))"

definition shift_state :: "u8 list list \<Rightarrow> bool res" where
  "shift_state km = rbind (key_at km KEY_SHIFT_L 2) (\<lambda>l. if l \<noteq> 0 then Inr True
     else rbind (key_at km KEY_SHIFT_R 2) (\<lambda>r. Inr (r \<noteq> 0)))"

subsection \<open>The lamps\<close>

partial_function (option) wait_loop :: "'a ports_scheme \<Rightarrow> (unit \<times> 'a ports_scheme) res option" where
  "wait_loop s = lbind (inb 0x64 s) (\<lambda>r. if fst r AND 0x02 \<noteq> 0 then wait_loop (snd r) else Some (Inr ((), snd r)))"

definition keyboard_wait :: "('a ports_scheme, unit) op" where
  "keyboard_wait = (\<lambda>s. run_loop (wait_loop s))"

partial_function (option) ack_loop :: "'a ports_scheme \<Rightarrow> (unit \<times> 'a ports_scheme) res option" where
  "ack_loop s = lbind (inb 0x60 s) (\<lambda>r. if fst r \<noteq> 0xfa then ack_loop (snd r) else Some (Inr ((), snd r)))"

definition keyboard_ack :: "('a ports_scheme, unit) op" where
  "keyboard_ack = (\<lambda>s. run_loop (ack_loop s))"

definition set_led :: "('a keyboard_scheme, unit) op" where
  "set_led =
     sbind (sget (\<lambda>s. push_bit 2 (of_bool (capslock_state s)) OR push_bit 1 (of_bool (numlock_state s)) OR
       of_bool (scrlock_state s))) (\<lambda>leds.
     sbind keyboard_wait (\<lambda>_.
     sbind (outb 0x60 0xed) (\<lambda>_.
     sbind keyboard_ack (\<lambda>_.
     sbind keyboard_wait (\<lambda>_.
     sbind (outb 0x60 leds) (\<lambda>_. keyboard_ack))))))"

subsection \<open>The interrupt\<close>

definition toggle_lock :: "u16 \<Rightarrow> ('a keyboard_scheme, unit) op" where
  "toggle_lock makecode =
     (if makecode = KEY_NUMLOCK then sbind (smodify (\<lambda>s. s\<lparr>numlock_state := \<not> numlock_state s\<rparr>)) (\<lambda>_. set_led)
      else if makecode = KEY_CAPSLOCK then sbind (smodify (\<lambda>s. s\<lparr>capslock_state := \<not> capslock_state s\<rparr>)) (\<lambda>_. set_led)
      else if makecode = KEY_SCRLOCK then sbind (smodify (\<lambda>s. s\<lparr>scrlock_state := \<not> scrlock_state s\<rparr>)) (\<lambda>_. set_led)
      else sret ())"

text \<open>The character of the key; \<open>char\<close> is a signed type.\<close>

definition key_char :: "u8 list list \<Rightarrow> bool \<Rightarrow> u16 \<Rightarrow> nat \<Rightarrow> u8 res" where
  "key_char km caps makecode ext =
     (if ext = 3 \<and> makecode \<noteq> KEY_SLASH then key_at km (unat makecode) 1
      else rbind (key_at km (unat makecode) 0) (\<lambda>plain.
           rbind (if caps \<and> 0x61 \<le> sint plain \<and> sint plain \<le> 0x7a then Inr True else shift_state km) (\<lambda>shift.
           key_at km (unat makecode) (if shift then 1 else 0))))"

definition put_char :: "u8 \<Rightarrow> ('a keyboard_scheme, unit) op" where
  "put_char ch =
     (if ch = 0 then sret ()
      else sbind (sget kb_fifo) (\<lambda>f.
           sbind (slift (fifo_put f ch)) (\<lambda>f.
           sbind (smodify (kb_fifo_update (\<lambda>_. f))) (\<lambda>_.
           sbind (sget kb_waiter) (\<lambda>w.
           if w \<noteq> 0 then sbind (task_unblock w) (\<lambda>_. smodify (kb_waiter_update (\<lambda>_. 0))) else sret ())))))"

text \<open>A key goes down; its character is put into the queue.\<close>

definition key_down :: "u16 \<Rightarrow> nat \<Rightarrow> ('a keyboard_scheme, unit) op" where
  "key_down makecode ext =
     sbind (set_key (unat makecode) ext 1) (\<lambda>_.
     sbind (toggle_lock makecode) (\<lambda>_.
     sbind (sget (\<lambda>s. (keymap s, capslock_state s))) (\<lambda>(km, caps).
     sbind (slift (key_char km caps makecode ext)) put_char)))"

definition key_event :: "u16 \<Rightarrow> nat \<Rightarrow> ('a keyboard_scheme, unit) op" where
  "key_event scancode ext =
     (let makecode = scancode AND 0x7f;
          makecode = (if makecode = CODE_PRINT_SCREEN_DOWN then KEY_PRINT_SCREEN else makecode)
      in if makecode > KEY_PRINT_SCREEN then sret ()
         else if scancode AND 0x80 \<noteq> 0 then set_key (unat makecode) ext 0
         else key_down makecode ext)"

text \<open>The handler after the scan code is read; the prefix of an extended key does not fit in 16 bits.\<close>

definition scan_code :: "u16 \<Rightarrow> ('a keyboard_scheme, unit) op" where
  "scan_code scancode =
     (if scancode = 0xe0 then smodify (extcode_state_update (\<lambda>_. True))
      else
        sbind (sget extcode_state) (\<lambda>e.
        if e then sbind (smodify (extcode_state_update (\<lambda>_. False))) (\<lambda>_.
          key_event (ucast ((ucast scancode :: u32) OR 0xe0000)) 3)
        else key_event scancode 2))"

definition keyboard_handler :: "int \<Rightarrow> ('a keyboard_scheme, unit) op" where
  "keyboard_handler vector =
     sbind (sensure (vector = 0x21)) (\<lambda>_.
     sbind (send_eoi vector) (\<lambda>_.
     sbind (inb 0x60) (\<lambda>b. scan_code (ucast b))))"

subsection \<open>Reading\<close>

text \<open>One turn of the inner loop; \<open>None\<close> when the reader is put to sleep.\<close>

definition key_get :: "('a keyboard_scheme, u8 option) op" where
  "key_get =
     sbind (sget kb_fifo) (\<lambda>f.
     if fifo_empty f then
       sbind (sget current) (\<lambda>cur.
       sbind (smodify (kb_waiter_update (\<lambda>_. cur))) (\<lambda>_.
       sbind (task_block cur 0 TASK_BLOCKED) (\<lambda>_. sret None)))
     else sbind (slift (fifo_get f)) (\<lambda>(c, f). sbind (smodify (kb_fifo_update (\<lambda>_. f))) (\<lambda>_. sret (Some c))))"

primrec key_get_n :: "nat \<Rightarrow> ('a keyboard_scheme, u8 list) op" where
  "key_get_n 0 = sret []"
| "key_get_n (Suc n) =
     sbind key_get (\<lambda>r. case r of None \<Rightarrow> sfail Blocked | Some c \<Rightarrow> sbind (key_get_n n) (\<lambda>cs. sret (c # cs)))"

definition keyboard_read :: "u32 \<Rightarrow> ('a keyboard_scheme, u32 \<times> u8 list) op" where
  "keyboard_read count =
     sbind (sget kb_lock) (\<lambda>lock.
     sbind (reentrant_lock lock) (\<lambda>_.
     sbind (key_get_n (unat count)) (\<lambda>cs.
     sbind (reentrant_unlock lock) (\<lambda>_. sret (count, cs)))))"

text \<open>The buffer is the static array; \<open>install\<close> enters the driver in the table of the devices.\<close>

definition keyboard_init :: "u32 \<Rightarrow> u8 list \<Rightarrow> ('a keyboard_scheme, unit) op \<Rightarrow> ('a keyboard_scheme, unit) op" where
  "keyboard_init handler buf install =
     sbind (smodify (\<lambda>s. s\<lparr>numlock_state := False, scrlock_state := False, capslock_state := False, extcode_state := False,
       kb_fifo := fifo_init buf KEYBOARD_BUFFER_SIZE\<rparr>)) (\<lambda>_.
     sbind (sget kb_lock) (\<lambda>lock.
     sbind (reentrant_init lock) (\<lambda>_.
     sbind (smodify (kb_waiter_update (\<lambda>_. 0))) (\<lambda>_.
     sbind (set_interrupt_handler 1 handler) (\<lambda>_.
     sbind (set_interrupt_mask 1 True) (\<lambda>_. install))))))"

end
