(* ===== verification/Typing.thy ===== *)
theory Typing
  imports Keyboard
begin

text \<open>
  The keyboard driver on whole texts. \<open>keyboard_ok\<close> is the type of the driver's state: the characters of
  the table never change and its flags are booleans. \<open>type_text\<close> is the environment: for each character
  of a text it lets the keyboard send the codes of the key, with the shift key around it when needed.
\<close>

unbundle bit_operations_syntax

subsection \<open>The table of the keys\<close>

definition row_ok :: "nat \<Rightarrow> u8 list \<Rightarrow> bool" where
  "row_ok k row \<longleftrightarrow> (\<exists>d e. row = [fst (key_chars ! k), snd (key_chars ! k), d, e] \<and> d \<in> {0, 1} \<and> e \<in> {0, 1})"

definition keymap_ok :: "u8 list list \<Rightarrow> bool" where
  "keymap_ok km \<longleftrightarrow> length km = 96 \<and> (\<forall>k<96. row_ok k (km ! k))"

definition keyboard_ok :: "'a keyboard_scheme \<Rightarrow> bool" where
  "keyboard_ok s \<longleftrightarrow> keymap_ok (keymap s) \<and> fifo_wf (kb_fifo s)"

lemma length_key_chars: "length key_chars = 96"
  by (simp add: key_chars_def)

lemma keymap0_nth: "k < 96 \<Longrightarrow> keymap0 ! k = [fst (key_chars ! k), snd (key_chars ! k), 0, 0]"
  by (simp add: keymap0_def length_key_chars split_beta)

lemma keymap0_ok: "keymap_ok keymap0"
  by (simp add: keymap_ok_def row_ok_def keymap0_nth) (simp add: keymap0_def length_key_chars)

lemma key_at_ok: "keymap_ok km \<Longrightarrow> k < 96 \<Longrightarrow> i < 4 \<Longrightarrow> key_at km k i = Inr (km ! k ! i)"
  by (auto simp: keymap_ok_def row_ok_def key_at_def)

lemma set_key_run:
  assumes "keymap_ok (keymap s)" "k < 96" "i < 4"
  shows "set_key k i v s = Inr ((), s\<lparr>keymap := (keymap s)[k := (keymap s ! k)[i := v]]\<rparr>)"
proof -
  have "length (keymap s ! k) = 4" using assms by (auto simp: keymap_ok_def row_ok_def)
  then show ?thesis using assms by (simp add: set_key_def keymap_ok_def)
qed

lemma set_key_ok:
  assumes "keymap_ok km" "k < 96" "i = 2 \<or> i = 3" "v \<in> {0, 1}"
  shows "keymap_ok (km[k := (km ! k)[i := v]])"
proof -
  have "row_ok k ((km ! k)[i := v])"
    using assms by (auto simp: keymap_ok_def row_ok_def numeral_2_eq_2 numeral_3_eq_3)
  then show ?thesis using assms(1,2) by (simp add: keymap_ok_def nth_list_update)
qed

lemma shift_state_ok:
  "keymap_ok km \<Longrightarrow> shift_state km = Inr (km ! KEY_SHIFT_L ! 2 \<noteq> 0 \<or> km ! KEY_SHIFT_R ! 2 \<noteq> 0)"
  by (simp add: shift_state_def key_at_ok KEY_SHIFT_L_def KEY_SHIFT_R_def)

lemma key_char_ok:
  "keymap_ok km \<Longrightarrow> unat c < 96 \<Longrightarrow> \<exists>ch. key_char km caps c ext = Inr ch"
  by (simp add: key_char_def key_at_ok shift_state_ok)

subsection \<open>The type of the state\<close>

text \<open>The part of the state that the scheduler works on, and the waiting reader.\<close>

definition reader_view :: "'a keyboard_scheme \<Rightarrow> _" where
  "reader_view s = (task_table s, pcb s, heap s, block_list s, sleep_list s, idle_task s, current s, c_if s, kb_waiter s)"

definition kb_same :: "'a keyboard_scheme \<Rightarrow> 'a keyboard_scheme \<Rightarrow> bool" where
  "kb_same s s' \<longleftrightarrow> keymap s' = keymap s \<and> kb_fifo s' = kb_fifo s \<and> reader_view s' = reader_view s"

text \<open>The scheduler keeps its invariant, and the task in the \<open>waiter\<close> variable, if there is one, waits.\<close>

definition reader_ok :: "u32 set \<Rightarrow> 'a keyboard_scheme \<Rightarrow> bool" where
  "reader_ok A s \<longleftrightarrow> (\<exists>L. sched_inv A L s) \<and>
     (kb_waiter s \<noteq> 0 \<longrightarrow> kb_waiter s \<in> live s \<and> waiting (t_state (pcb s (kb_waiter s))))"

lemma reader_ok_cong: "reader_view s' = reader_view s \<Longrightarrow> reader_ok A s' = reader_ok A s"
  by (simp add: reader_view_def reader_ok_def sched_inv_def live_def)

text \<open>The waiting task, if there is one, is left as it is, or it is woken up, and nothing else happens to the tasks.\<close>

definition reader_woken :: "'a keyboard_scheme \<Rightarrow> 'a keyboard_scheme \<Rightarrow> bool" where
  "reader_woken s s' \<longleftrightarrow> pcb s' = pcb s \<and> kb_waiter s' = kb_waiter s \<or>
     kb_waiter s \<noteq> 0 \<and> kb_waiter s' = 0 \<and> pcb s' = (pcb s)(kb_waiter s := (pcb s (kb_waiter s))\<lparr>t_state := TASK_READY\<rparr>)"

lemma reader_woken_trans: "reader_woken s t \<Longrightarrow> reader_woken t u \<Longrightarrow> reader_woken s u"
  by (auto simp: reader_woken_def)

lemma reader_woken_view: "reader_view s' = reader_view s \<Longrightarrow> reader_woken s s'"
  by (simp add: reader_view_def reader_woken_def)

text \<open>The loops of the lamps leave everything but the ports alone, and can only fail to end.\<close>

lemma wait_loop_ports:
  "wait_loop s = Some r \<Longrightarrow> \<exists>t. r = Inr ((), s\<lparr>p_trace := t\<rparr>)"
proof (rule wait_loop.raw_induct [of "\<lambda>s r. \<exists>t. r = Inr ((), s\<lparr>p_trace := t\<rparr>)"])
  fix loop :: "'a ports_scheme \<Rightarrow> (unit \<times> 'a ports_scheme) res option" and s r
  assume IH: "\<And>s r. loop s = Some r \<Longrightarrow> \<exists>t. r = Inr ((), s\<lparr>p_trace := t\<rparr>)"
    and l: "lbind (inb 0x64 s) (\<lambda>r. if fst r AND 0x02 \<noteq> 0 then loop (snd r) else Some (Inr ((), snd r))) = Some r"
  show "\<exists>t. r = Inr ((), s\<lparr>p_trace := t\<rparr>)"
    using l IH by (fastforce simp: inb_def Let_def split: if_splits)
qed

lemma ack_loop_ports:
  "ack_loop s = Some r \<Longrightarrow> \<exists>t. r = Inr ((), s\<lparr>p_trace := t\<rparr>)"
proof (rule ack_loop.raw_induct [of "\<lambda>s r. \<exists>t. r = Inr ((), s\<lparr>p_trace := t\<rparr>)"])
  fix loop :: "'a ports_scheme \<Rightarrow> (unit \<times> 'a ports_scheme) res option" and s r
  assume IH: "\<And>s r. loop s = Some r \<Longrightarrow> \<exists>t. r = Inr ((), s\<lparr>p_trace := t\<rparr>)"
    and l: "lbind (inb 0x60 s) (\<lambda>r. if fst r \<noteq> 0xfa then loop (snd r) else Some (Inr ((), snd r))) = Some r"
  show "\<exists>t. r = Inr ((), s\<lparr>p_trace := t\<rparr>)"
    using l IH by (fastforce simp: inb_def Let_def split: if_splits)
qed

lemma run_loop_ports:
  "(\<And>r. l = Some r \<Longrightarrow> \<exists>t. r = Inr ((), g t)) \<Longrightarrow> run_loop l = Inl Diverge \<or> (\<exists>t. run_loop l = Inr ((), g t))"
  by (cases l) auto

lemma waits_ports:
  "keyboard_wait s = Inl Diverge \<or> (\<exists>t. keyboard_wait s = Inr ((), s\<lparr>p_trace := t\<rparr>))"
  "keyboard_ack s = Inl Diverge \<or> (\<exists>t. keyboard_ack s = Inr ((), s\<lparr>p_trace := t\<rparr>))"
proof -
  show "keyboard_wait s = Inl Diverge \<or> (\<exists>t. keyboard_wait s = Inr ((), s\<lparr>p_trace := t\<rparr>))"
    unfolding keyboard_wait_def by (rule run_loop_ports) (rule wait_loop_ports)
  show "keyboard_ack s = Inl Diverge \<or> (\<exists>t. keyboard_ack s = Inr ((), s\<lparr>p_trace := t\<rparr>))"
    unfolding keyboard_ack_def by (rule run_loop_ports) (rule ack_loop_ports)
qed

text \<open>An operation is mild when it only uses the ports and the lock flags, or does not end.\<close>

definition mild :: "('a keyboard_scheme, unit) op \<Rightarrow> bool" where
  "mild f \<longleftrightarrow> (\<forall>s. f s = Inl Diverge \<or> (\<exists>s'. f s = Inr ((), s') \<and> kb_same s s'))"

lemma mild_bind: "mild f \<Longrightarrow> mild g \<Longrightarrow> mild (sbind f (\<lambda>_. g))"
proof -
  assume m: "mild f" "mild g"
  have "sbind f (\<lambda>_. g) s = Inl Diverge \<or> (\<exists>s'. sbind f (\<lambda>_. g) s = Inr ((), s') \<and> kb_same s s')" for s
  proof (cases "f s = Inl Diverge")
    case False
    then obtain s1 where 1: "f s = Inr ((), s1)" "kb_same s s1" using m(1) unfolding mild_def by blast
    from m(2) consider "g s1 = Inl Diverge" | s2 where "g s1 = Inr ((), s2)" "kb_same s1 s2" unfolding mild_def by blast
    then show ?thesis using 1 by cases (simp_all add: kb_same_def)
  qed simp
  then show ?thesis by (simp add: mild_def)
qed

lemma mild_basic: "mild keyboard_wait" "mild keyboard_ack" "mild (outb p v)" "mild (sret ())"
  "(\<And>s. kb_same s (f s)) \<Longrightarrow> mild (smodify f)"
  using waits_ports by (fastforce simp: mild_def kb_same_def reader_view_def outb_def)+

lemma mild_sget: "(\<And>x. mild (f x)) \<Longrightarrow> mild (sbind (sget g) f)"
  by (simp add: mild_def)

lemma mild_set_led: "mild set_led"
  unfolding set_led_def by (intro mild_sget mild_bind mild_basic)

lemma mild_toggle: "mild (toggle_lock c)"
  unfolding toggle_lock_def by (auto intro!: mild_bind mild_basic mild_set_led simp: kb_same_def reader_view_def)

lemma put_char_ok:
  assumes "keyboard_ok s" "kb_waiter s = 0"
  shows "\<exists>f. fifo_wf f \<and> put_char c s = Inr ((), s\<lparr>kb_fifo := f\<rparr>) \<and> fifo_cap f = fifo_cap (kb_fifo s) \<and>
    fifo_list f = (if c = 0 then fifo_list (kb_fifo s) else last_part (fifo_cap (kb_fifo s)) (fifo_list (kb_fifo s) @ [c]))"
proof (cases "c = 0")
  case True
  then show ?thesis using assms by (intro exI [of _ "kb_fifo s"]) (simp add: put_char_def keyboard_ok_def)
next
  case False
  from fq.enq_content [of "kb_fifo s" c] obtain f where f: "fifo_put (kb_fifo s) c = Inr f" "fifo_wf f"
    "fifo_cap f = fifo_cap (kb_fifo s)" "fifo_list f = last_part (fifo_cap (kb_fifo s)) (fifo_list (kb_fifo s) @ [c])"
    using assms(1) by (auto simp: keyboard_ok_def)
  then show ?thesis using False assms(2) by (intro exI [of _ f]) (simp add: put_char_def)
qed

text \<open>\<open>set_flag\<close> is the state with the flag of a key set.\<close>

definition set_flag :: "nat \<Rightarrow> nat \<Rightarrow> u8 \<Rightarrow> 'a keyboard_scheme \<Rightarrow> 'a keyboard_scheme" where
  "set_flag k i v s = s\<lparr>keymap := (keymap s)[k := (keymap s ! k)[i := v]]\<rparr>"

text \<open>A character is queued, and the task that waits for it is woken up.\<close>

definition kb_ready :: "u32 set \<Rightarrow> 'a keyboard_scheme \<Rightarrow> bool" where
  "kb_ready A s \<longleftrightarrow> keyboard_ok s \<and> reader_ok A s"

lemma reader_wake:
  assumes "reader_ok A s" "kb_waiter s \<noteq> 0"
  shows "\<exists>s'. task_unblock (kb_waiter s) s = Inr ((), s') \<and> reader_ok A (s'\<lparr>kb_waiter := 0\<rparr>) \<and>
    reader_woken s (s'\<lparr>kb_waiter := 0\<rparr>) \<and> keymap s' = keymap s \<and> kb_fifo s' = kb_fifo s"
proof -
  obtain L where "sched_inv A L s" using assms(1) by (auto simp: reader_ok_def)
  moreover have "kb_waiter s \<in> live s" "waiting (t_state (pcb s (kb_waiter s)))" using assms by (auto simp: reader_ok_def)
  ultimately obtain h' L' where u: "task_unblock (kb_waiter s) s = Inr ((), s\<lparr>heap := h', pcb := (pcb s)(kb_waiter s := (pcb s (kb_waiter s))\<lparr>t_state := TASK_READY\<rparr>)\<rparr>)"
      "sched_inv A L' (s\<lparr>heap := h', pcb := (pcb s)(kb_waiter s := (pcb s (kb_waiter s))\<lparr>t_state := TASK_READY\<rparr>)\<rparr>)"
    using task_unblock_ok by blast
  define r where "r = s\<lparr>heap := h', pcb := (pcb s)(kb_waiter s := (pcb s (kb_waiter s))\<lparr>t_state := TASK_READY\<rparr>)\<rparr>"
  note r = u [folded r_def]
  have "sched_inv A L' (t\<lparr>kb_waiter := w\<rparr>) = sched_inv A L' t" for w and t :: "'a keyboard_scheme"
    by (simp add: sched_inv_def live_def)
  with r(2) have "reader_ok A (r\<lparr>kb_waiter := 0\<rparr>)" by (auto simp: reader_ok_def)
  with r(1) assms(2) show ?thesis
    by (intro exI [of _ r] conjI) (simp_all add: reader_woken_def r_def)
qed

lemma put_char_ready:
  assumes "kb_ready A s"
  shows "\<exists>s'. put_char c s = Inr ((), s') \<and> kb_ready A s' \<and> reader_woken s s'"
proof (cases "c = 0")
  case True
  then show ?thesis using assms by (simp add: put_char_def reader_woken_def)
next
  case False
  have "fifo_wf (kb_fifo s)" using assms by (simp add: kb_ready_def keyboard_ok_def)
  from fq.enq_content [OF this, of c] obtain f where f: "fifo_put (kb_fifo s) c = Inr f" "fifo_wf f" by blast
  let ?s = "s\<lparr>kb_fifo := f\<rparr>"
  have v: "reader_view ?s = reader_view s" by (simp add: reader_view_def)
  have ok: "keyboard_ok ?s" "reader_ok A ?s"
    using assms f(2) by (simp_all add: kb_ready_def keyboard_ok_def reader_ok_cong [OF v])
  show ?thesis
  proof (cases "kb_waiter s = 0")
    case True
    then show ?thesis using False f(1) ok reader_woken_view [OF v] by (simp add: put_char_def kb_ready_def)
  next
    case w: False
    with reader_wake [OF ok(2)] obtain s' where
      s': "task_unblock (kb_waiter s) ?s = Inr ((), s')" "reader_ok A (s'\<lparr>kb_waiter := 0\<rparr>)" "reader_woken ?s (s'\<lparr>kb_waiter := 0\<rparr>)"
        "keymap s' = keymap s" "kb_fifo s' = f" by auto
    then have "kb_ready A (s'\<lparr>kb_waiter := 0\<rparr>)" using ok(1) by (simp add: kb_ready_def keyboard_ok_def)
    then show ?thesis
      using False w f(1) s'(1) reader_woken_trans [OF reader_woken_view [OF v] s'(3)] by (simp add: put_char_def)
  qed
qed

lemma set_flag_ready:
  assumes "kb_ready A s" "k < 96" "i = 2 \<or> i = 3" "v \<in> {0, 1}"
  shows "set_key k i v s = Inr ((), set_flag k i v s)" "kb_ready A (set_flag k i v s)" "reader_woken s (set_flag k i v s)"
proof -
  have w: "reader_view (set_flag k i v s) = reader_view s" by (simp add: set_flag_def reader_view_def)
  show "set_key k i v s = Inr ((), set_flag k i v s)" "kb_ready A (set_flag k i v s)" "reader_woken s (set_flag k i v s)"
    using assms set_key_run [of s k i v] set_key_ok [of "keymap s" k i v] reader_ok_cong [OF w, of A] reader_woken_view [OF w]
    by (auto simp: keyboard_ok_def set_flag_def kb_ready_def)
qed

lemma kb_same_ready: "kb_same s s' \<Longrightarrow> kb_ready A s \<Longrightarrow> kb_ready A s' \<and> reader_woken s s'"
  using reader_ok_cong [of s' s A] reader_woken_view [of s' s] by (simp add: kb_same_def keyboard_ok_def kb_ready_def)

text \<open>An operation is typed when it keeps \<open>kb_ready\<close>, does nothing to the tasks but wake up the reader, and can
only fail by waiting for ever.\<close>

definition typed_at :: "u32 set \<Rightarrow> 'a keyboard_scheme \<Rightarrow> (unit \<times> 'a keyboard_scheme) res \<Rightarrow> bool" where
  "typed_at A s r \<longleftrightarrow> (case r of Inl e \<Rightarrow> e = Diverge | Inr (_, s') \<Rightarrow> kb_ready A s' \<and> reader_woken s s')"

lemma typed_at_simps [simp]:
  "typed_at A s (Inl e) \<longleftrightarrow> e = Diverge"
  "typed_at A s (Inr (x, s')) \<longleftrightarrow> kb_ready A s' \<and> reader_woken s s'"
  by (simp_all add: typed_at_def)

definition typed :: "u32 set \<Rightarrow> ('a keyboard_scheme, unit) op \<Rightarrow> bool" where
  "typed A f \<longleftrightarrow> (\<forall>s. kb_ready A s \<longrightarrow> typed_at A s (f s))"

lemma typed_bind: "typed A f \<Longrightarrow> typed A g \<Longrightarrow> typed A (sbind f (\<lambda>_. g))"
proof -
  assume t: "typed A f" "typed A g"
  have "typed_at A s (sbind f (\<lambda>_. g) s)" if s: "kb_ready A s" for s
  proof (cases "f s")
    case (Inl e)
    then show ?thesis using t(1) s by (force simp: typed_def)
  next
    case (Inr r)
    obtain s1 where r: "r = ((), s1)" by (cases r) simp
    then have s1: "kb_ready A s1" "reader_woken s s1" using t(1) s Inr by (force simp: typed_def)+
    then have "typed_at A s1 (g s1)" using t(2) by (simp add: typed_def)
    then have "typed_at A s (g s1)" using reader_woken_trans [OF s1(2)] by (auto simp: typed_at_def split: sum.splits)
    then show ?thesis using Inr r by simp
  qed
  then show ?thesis by (simp add: typed_def)
qed

lemma typed_mild: "mild f \<Longrightarrow> typed A f"
proof -
  assume m: "mild f"
  have "typed_at A s (f s)" if s: "kb_ready A s" for s
    using m kb_same_ready [OF _ s] unfolding mild_def by (auto dest: spec [of _ s])
  then show ?thesis by (simp add: typed_def)
qed

lemma typed_set_key: "k < 96 \<Longrightarrow> i = 2 \<or> i = 3 \<Longrightarrow> v \<in> {0, 1} \<Longrightarrow> typed A (set_key k i v)"
  using set_flag_ready by (fastforce simp: typed_def)

lemma typed_char:
  assumes "unat c < 96"
  shows "typed A (sbind (sget (\<lambda>s. (keymap s, capslock_state s))) (\<lambda>(km, caps). sbind (slift (key_char km caps c i)) put_char))"
proof -
  have "\<exists>s'. sbind (slift (key_char (keymap s) (capslock_state s) c i)) put_char s = Inr ((), s') \<and> kb_ready A s' \<and> reader_woken s s'"
    if s: "kb_ready A s" for s :: "'a keyboard_scheme"
  proof -
    obtain ch where ch: "key_char (keymap s) (capslock_state s) c i = Inr ch"
      using key_char_ok assms s unfolding kb_ready_def keyboard_ok_def by blast
    then show ?thesis using put_char_ready [OF s, of ch] by simp
  qed
  then show ?thesis by (fastforce simp: typed_def)
qed

lemma typed_key_event: "i = 2 \<or> i = 3 \<Longrightarrow> typed A (key_event c i :: ('a keyboard_scheme, unit) op)"
proof -
  assume i: "i = 2 \<or> i = 3"
  define k where "k = (if c AND 0x7f = CODE_PRINT_SCREEN_DOWN then KEY_PRINT_SCREEN else c AND 0x7f)"
  have ix: "\<not> k > KEY_PRINT_SCREEN \<Longrightarrow> unat k < 96"
    by (simp add: KEY_PRINT_SCREEN_def word_less_nat_alt)
  have "typed A (sret () :: ('a keyboard_scheme, unit) op)" by (simp add: typed_def reader_woken_def)
  moreover have "typed A (key_down k i :: ('a keyboard_scheme, unit) op)" if "unat k < 96"
    unfolding key_down_def by (intro typed_bind typed_set_key typed_mild [OF mild_toggle] typed_char that i) simp
  ultimately show ?thesis
    using ix i typed_set_key [of "unat k" i 0, where ?'a = 'a] by (simp add: key_event_def Let_def k_def [symmetric])
qed

lemma typed_scan_code: "typed A (scan_code c :: ('a keyboard_scheme, unit) op)"
proof -
  have m: "typed A (smodify (extcode_state_update f) :: ('a keyboard_scheme, unit) op)" for f
    by (intro typed_mild mild_basic) (simp add: kb_same_def reader_view_def)
  have "typed A (sbind (smodify (extcode_state_update f)) (\<lambda>_. key_event d 3) :: ('a keyboard_scheme, unit) op)" for f d
    by (intro typed_bind m typed_key_event) simp
  then show ?thesis using m typed_key_event [of 2 A c, where ?'a = 'a] unfolding scan_code_def typed_def by simp
qed

text \<open>C21: The driver keeps its types and never leaves its arrays, whatever the keyboard sends: for every byte at the
port, in every state that satisfies the invariant of the scheduler and in which the reader that is noted as waiting, if
there is one, does wait, the handler returns with the table of the keys well formed (the characters as at the start, the
flags booleans), the queue well formed and the same invariant, or it waits for ever for the lamps; no access is out of
range and no assertion fails, those of \<open>task_unblock\<close> included. The tasks are as before, but that
the reader may have been woken up: then it is ready and no longer noted.\<close>

theorem keyboard_handler_typed:
  fixes s :: "'a keyboard_scheme"
  assumes "keyboard_ok s" "reader_ok A s"
  shows "case keyboard_handler 0x21 s of Inl e \<Rightarrow> e = Diverge
    | Inr (_, s') \<Rightarrow> keyboard_ok s' \<and> reader_ok A s' \<and> reader_woken s s'"
proof -
  have v: "reader_view (s\<lparr>p_trace := t\<rparr>) = reader_view s" for t by (simp add: reader_view_def)
  then have r: "kb_ready A (s\<lparr>p_trace := t\<rparr>)" for t
    using assms by (simp add: kb_ready_def keyboard_ok_def reader_ok_cong [OF v])
  have "case scan_code c (s\<lparr>p_trace := t\<rparr>) of Inl e \<Rightarrow> e = Diverge
    | Inr (_, s') \<Rightarrow> keyboard_ok s' \<and> reader_ok A s' \<and> reader_woken s s'" for c t
  proof -
    have "typed_at A (s\<lparr>p_trace := t\<rparr>) (scan_code c (s\<lparr>p_trace := t\<rparr>))"
      using typed_scan_code [of A c, where ?'a = 'a] r [of t] by (simp add: typed_def)
    then show ?thesis
      using reader_woken_trans [OF reader_woken_view [OF v [of t]]] by (auto simp: typed_at_def kb_ready_def split: sum.splits)
  qed
  then show ?thesis
    by (simp add: keyboard_handler_def send_eoi_def outb_run inb_def Let_def)
qed

text \<open>A reader that finds the queue empty leaves the driver in such a state: it waits, and it is noted.\<close>

lemma key_get_ready:
  assumes "kb_ready A s" "fifo_empty (kb_fifo s)" "\<not> waiting (t_state (pcb s (current s)))" "current s \<noteq> idle_task s"
  shows "\<exists>s'. key_get s = Inr (None, s') \<and> kb_ready A s' \<and> kb_waiter s' = current s"
proof -
  let ?s = "s\<lparr>kb_waiter := current s\<rparr>"
  obtain L where "sched_inv A L s" using assms(1) by (auto simp: kb_ready_def reader_ok_def)
  then have inv: "sched_inv A L ?s" by (simp add: sched_inv_def live_def)
  have c: "current ?s \<noteq> idle_task ?s" using assms(4) by simp
  have cl: "current s \<in> live s" "blocked_on ?s 0 \<in> A" using sched_invD [OF inv] by (auto simp: blocked_on_def live_def)
  from task_block_self [OF inv _ c cl(2), of TASK_BLOCKED] assms(3) obtain s' L' where
    s': "task_block (current s) 0 TASK_BLOCKED ?s = Inr ((), s')" "sched_inv A L' s'" "same_world ?s s'"
      "t_state (pcb s' (current s)) = TASK_BLOCKED" by (auto simp: waiting_def)
  have k: "sched.more s' = sched.more ?s" by (rule keepsD [OF keeps_block(1) s'(1)])
  have f: "kb_waiter s' = current s" "keymap s' = keymap s" "kb_fifo s' = kb_fifo s"
    using k by (cases s; cases s'; simp)+
  have "current s \<in> live s'" using cl(1) s'(3) by (simp add: live_def same_world_def)
  then have "kb_ready A s'"
    using s'(2,4) f assms(1) by (auto simp: kb_ready_def keyboard_ok_def reader_ok_def waiting_def)
  then show ?thesis using s'(1) f(1) assms(2) by (simp add: key_get_def)
qed

subsection \<open>Typing a text\<close>

primrec find_key :: "(u8 \<times> u8) list \<Rightarrow> nat \<Rightarrow> u8 \<Rightarrow> (nat \<times> bool) option" where
  "find_key [] k c = None"
| "find_key (p # ps) k c = (if c = fst p then Some (k, False) else if c = snd p then Some (k, True) else find_key ps (k + 1) c)"

text \<open>The key of a character on the main part of the keyboard, and whether it needs shift.\<close>

definition key_of :: "u8 \<Rightarrow> (nat \<times> bool) option" where
  "key_of c = (if c = 0 then None else find_key (take 0x45 key_chars) 0 c)"

definition codes_of :: "u8 \<Rightarrow> u8 list" where
  "codes_of c = (case key_of c of None \<Rightarrow> []
     | Some (k, sh) \<Rightarrow> if sh then [0x2a, of_nat k, of_nat k + 0x80, 0xaa] else [of_nat k, of_nat k + 0x80])"

text \<open>The keyboard interrupts with a code in its data port.\<close>

definition send_code :: "u8 \<Rightarrow> ('a keyboard_scheme, unit) op" where
  "send_code c = sbind (smodify (p_dev_update (\<lambda>_ _ _. ucast c))) (\<lambda>_. keyboard_handler 0x21)"

definition type_text :: "u8 list \<Rightarrow> ('a keyboard_scheme, unit) op" where
  "type_text cs = sforeach cs (\<lambda>c. sforeach (codes_of c) send_code)"

lemma find_key_Some:
  "find_key ps n c = Some (k, sh) \<Longrightarrow> n \<le> k \<and> k - n < length ps \<and> (if sh then snd else fst) (ps ! (k - n)) = c"
proof (induction ps arbitrary: n)
  case (Cons p ps)
  show ?case
  proof (cases "c = fst p \<or> c = snd p")
    case False
    then have "find_key ps (n + 1) c = Some (k, sh)" using Cons.prems by simp
    from Cons.IH [OF this] show ?thesis by (auto simp: nth_Cons')
  qed (use Cons.prems in \<open>auto split: if_splits\<close>)
qed simp

lemma key_of_Some:
  assumes "key_of c = Some (k, sh)"
  shows "k < 0x45" "(if sh then snd else fst) (key_chars ! k) = c" "c \<noteq> 0" "k \<notin> {KEY_SHIFT_L, KEY_SHIFT_R, 0x3a}"
proof -
  have f: "find_key (take 0x45 key_chars) 0 c = Some (k, sh)" and c: "c \<noteq> 0"
    using assms by (simp_all add: key_of_def split: if_splits)
  show k: "k < 0x45" using find_key_Some [OF f] by simp
  show e: "(if sh then snd else fst) (key_chars ! k) = c" using find_key_Some [OF f] k by (simp split: if_splits)
  show "c \<noteq> 0" by (rule c)
  have "key_chars ! KEY_SHIFT_L = (0, 0)" "key_chars ! KEY_SHIFT_R = (0, 0)" "key_chars ! 0x3a = (0, 0)"
    by (simp_all add: key_chars_def KEY_SHIFT_L_def KEY_SHIFT_R_def)
  then show "k \<notin> {KEY_SHIFT_L, KEY_SHIFT_R, 0x3a}" using e c by (auto split: if_splits)
qed

definition kb_view :: "'a keyboard_scheme \<Rightarrow> u8 list list \<times> fifo \<times> bool \<times> bool \<times> u32" where
  "kb_view s = (keymap s, kb_fifo s, capslock_state s, extcode_state s, kb_waiter s)"

lemma send_code_run: "\<exists>s1. send_code c s = scan_code (ucast c) s1 \<and> kb_view s1 = kb_view s"
  unfolding send_code_def keyboard_handler_def
  by (simp add: send_eoi_def outb_run inb_def Let_def kb_view_def, rule exI, rule conjI, rule refl) simp

text \<open>The bits of the codes.\<close>

lemma code_bits:
  assumes "k < 0x60"
  shows "(ucast (of_nat k :: u8) :: u16) AND 0x7f = of_nat k" "(ucast (of_nat k :: u8) :: u16) AND 0x80 = 0"
    "(ucast (of_nat k :: u8) :: u16) \<noteq> 0xe0" "unat (of_nat k :: u16) = k"
    "(ucast (of_nat k + 0x80 :: u8) :: u16) AND 0x7f = of_nat k" "(ucast (of_nat k + 0x80 :: u8) :: u16) AND 0x80 \<noteq> 0"
    "(ucast (of_nat k + 0x80 :: u8) :: u16) \<noteq> 0xe0"
proof -
  have "\<forall>k\<in>set [0..<0x60]. (ucast (of_nat k :: u8) :: u16) AND 0x7f = of_nat k \<and> (ucast (of_nat k :: u8) :: u16) AND 0x80 = 0 \<and>
    (ucast (of_nat k :: u8) :: u16) \<noteq> 0xe0 \<and> unat (of_nat k :: u16) = k \<and>
    (ucast (of_nat k + 0x80 :: u8) :: u16) AND 0x7f = of_nat k \<and> (ucast (of_nat k + 0x80 :: u8) :: u16) AND 0x80 \<noteq> 0 \<and>
    (ucast (of_nat k + 0x80 :: u8) :: u16) \<noteq> 0xe0"
    by code_simp
  with assms show "(ucast (of_nat k :: u8) :: u16) AND 0x7f = of_nat k" "(ucast (of_nat k :: u8) :: u16) AND 0x80 = 0"
    "(ucast (of_nat k :: u8) :: u16) \<noteq> 0xe0" "unat (of_nat k :: u16) = k"
    "(ucast (of_nat k + 0x80 :: u8) :: u16) AND 0x7f = of_nat k" "(ucast (of_nat k + 0x80 :: u8) :: u16) AND 0x80 \<noteq> 0"
    "(ucast (of_nat k + 0x80 :: u8) :: u16) \<noteq> 0xe0"
    by simp_all
qed

lemma key_event_code:
  assumes "k < 0x60"
  shows "key_event (ucast (of_nat k :: u8)) 2 = key_down (of_nat k) 2"
    "key_event (ucast (of_nat k + 0x80 :: u8)) 2 = set_key k 2 0"
proof -
  have "(of_nat k :: u16) < 0x60" using assms code_bits(4) [OF assms] by (simp add: word_less_nat_alt)
  moreover have "\<not> (of_nat k :: u16) > KEY_PRINT_SCREEN"
    using assms unfolding KEY_PRINT_SCREEN_def by (simp add: word_less_nat_alt code_bits(4) [OF assms])
  ultimately have "(of_nat k :: u16) \<noteq> CODE_PRINT_SCREEN_DOWN" "\<not> (of_nat k :: u16) > KEY_PRINT_SCREEN"
    unfolding CODE_PRINT_SCREEN_DOWN_def by auto
  then show "key_event (ucast (of_nat k :: u8)) 2 = key_down (of_nat k) 2"
    "key_event (ucast (of_nat k + 0x80 :: u8)) 2 = set_key k 2 0"
    using code_bits [OF assms] by (simp_all add: key_event_def Let_def)
qed

lemma press_code:
  assumes s: "kb_view s = (km, f, False, False, 0)" "keymap_ok km" "fifo_wf f"
    and k: "k < 0x60" "k \<notin> {0x3a, 0x45, 0x46}"
    and km': "km' = km[k := (km ! k)[2 := 1]]"
    and ch: "ch = km' ! k ! (if km' ! KEY_SHIFT_L ! 2 \<noteq> 0 \<or> km' ! KEY_SHIFT_R ! 2 \<noteq> 0 then 1 else 0)"
  shows "\<exists>s' f'. send_code (of_nat k) s = Inr ((), s') \<and> kb_view s' = (km', f', False, False, 0) \<and> fifo_wf f' \<and>
    fifo_cap f' = fifo_cap f \<and> fifo_list f' = (if ch = 0 then fifo_list f else last_part (fifo_cap f) (fifo_list f @ [ch]))"
proof -
  obtain s1 where 1: "send_code (of_nat k) s = scan_code (ucast (of_nat k :: u8)) s1" "kb_view s1 = (km, f, False, False, 0)"
    using send_code_run [of "of_nat k" s] s(1) by metis
  note v = 1(2) [unfolded kb_view_def prod.inject]
  have "(of_nat k :: u16) \<noteq> KEY_NUMLOCK" "(of_nat k :: u16) \<noteq> KEY_CAPSLOCK" "(of_nat k :: u16) \<noteq> KEY_SCRLOCK"
    using k code_bits(4) [OF k(1)] by (auto simp: KEY_NUMLOCK_def KEY_CAPSLOCK_def KEY_SCRLOCK_def word_unat_eq_iff)
  then have tog: "toggle_lock (of_nat k) s = sret () s" for s :: "'a keyboard_scheme" by (simp add: toggle_lock_def)
  have set: "set_key k 2 1 s1 = Inr ((), s1\<lparr>keymap := km'\<rparr>)" using set_key_run [of s1 k 2 1] v s(2) k(1) km' by simp
  have ok: "keymap_ok km'" using set_key_ok [of km k 2 1] s(2) k(1) km' by simp
  have kc: "key_char km' False (of_nat k) 2 = Inr ch"
    using ok k(1) code_bits(4) [OF k(1)] by (simp add: key_char_def key_at_ok shift_state_ok ch)
  let ?s2 = "s1\<lparr>keymap := km'\<rparr>"
  have "keyboard_ok ?s2" "kb_waiter ?s2 = 0" using ok v s(3) by (simp_all add: keyboard_ok_def)
  from put_char_ok [OF this, of ch] obtain f' where f': "fifo_wf f'" "put_char ch ?s2 = Inr ((), ?s2\<lparr>kb_fifo := f'\<rparr>)"
    "fifo_cap f' = fifo_cap f" "fifo_list f' = (if ch = 0 then fifo_list f else last_part (fifo_cap f) (fifo_list f @ [ch]))"
    using v by auto
  have "send_code (of_nat k) s = Inr ((), ?s2\<lparr>kb_fifo := f'\<rparr>)"
    using 1(1) v set tog kc f'(2) code_bits [OF k(1)]
    by (simp add: scan_code_def key_event_code [OF k(1)] key_down_def del: One_nat_def)
  moreover have "kb_view (?s2\<lparr>kb_fifo := f'\<rparr>) = (km', f', False, False, 0)" using v by (simp add: kb_view_def)
  ultimately show ?thesis using f' by blast
qed

lemma release_code:
  assumes s: "kb_view s = (km, f, False, False, 0)" "keymap_ok km" and k: "k < 0x60"
  shows "\<exists>s'. send_code (of_nat k + 0x80) s = Inr ((), s') \<and> kb_view s' = (km[k := (km ! k)[2 := 0]], f, False, False, 0)"
proof -
  obtain s1 where 1: "send_code (of_nat k + 0x80) s = scan_code (ucast (of_nat k + 0x80 :: u8)) s1"
    "kb_view s1 = (km, f, False, False, 0)" using send_code_run [of "of_nat k + 0x80" s] s(1) by metis
  note v = 1(2) [unfolded kb_view_def prod.inject]
  have "send_code (of_nat k + 0x80) s = Inr ((), s1\<lparr>keymap := km[k := (km ! k)[2 := 0]]\<rparr>)"
    using 1(1) v code_bits [OF k] set_key_run [of s1 k 2 0] s(2) k by (simp add: scan_code_def key_event_code [OF k])
  then show ?thesis using v by (auto simp: kb_view_def)
qed

text \<open>The keyboard at rest: no key is down, no lock is on, nobody waits.\<close>

definition kb_rest :: "'a keyboard_scheme \<Rightarrow> bool" where
  "kb_rest s \<longleftrightarrow> kb_view s = (keymap0, kb_fifo s, False, False, 0) \<and> fifo_wf (kb_fifo s)"

lemma flag_back:
  assumes "keymap_ok km" "k < 96" "km ! k ! 2 = 0"
  shows "(km[k := (km ! k)[2 := 1]])[k := (km[k := (km ! k)[2 := 1]] ! k)[2 := 0]] = km"
proof -
  have "(km ! k)[2 := 0] = km ! k" using assms(3) by (metis list_update_id)
  then show ?thesis using assms(1,2) by (simp add: keymap_ok_def)
qed

lemma type_plain:
  assumes "kb_rest s" "key_of c = Some (k, False)"
  shows "\<exists>s'. sforeach (codes_of c) send_code s = Inr ((), s') \<and> kb_rest s' \<and> fifo_cap (kb_fifo s') = fifo_cap (kb_fifo s) \<and>
    fifo_list (kb_fifo s') = last_part (fifo_cap (kb_fifo s)) (fifo_list (kb_fifo s) @ [c])"
proof -
  note K = key_of_Some [OF assms(2), simplified]
  note v = assms(1) [unfolded kb_rest_def, THEN conjunct1] and wf = assms(1) [unfolded kb_rest_def, THEN conjunct2]
  have k: "k < 0x60" "k \<notin> {0x3a, 0x45, 0x46}" using K(1,4) by auto
  define km where "km = keymap0[k := (keymap0 ! k)[2 := 1]]"
  have len: "length keymap0 = 96" by (simp add: keymap0_def length_key_chars)
  have "km ! KEY_SHIFT_L ! 2 = 0" "km ! KEY_SHIFT_R ! 2 = 0" "km ! k ! 0 = c"
    using K k len by (auto simp: km_def nth_list_update keymap0_nth KEY_SHIFT_L_def KEY_SHIFT_R_def)
  then have ch: "c = km ! k ! (if km ! KEY_SHIFT_L ! 2 \<noteq> 0 \<or> km ! KEY_SHIFT_R ! 2 \<noteq> 0 then 1 else 0)" by simp
  obtain s1 f where 1: "send_code (of_nat k) s = Inr ((), s1)" "kb_view s1 = (km, f, False, False, 0)" "fifo_wf f"
    "fifo_cap f = fifo_cap (kb_fifo s)" "fifo_list f = last_part (fifo_cap (kb_fifo s)) (fifo_list (kb_fifo s) @ [c])"
    using press_code [OF v keymap0_ok wf k km_def ch] K(3) by auto
  have "keymap_ok km" using set_key_ok [OF keymap0_ok, of k 2 1] k by (simp add: km_def)
  from release_code [OF 1(2) this k(1)] obtain s2 where
    2: "send_code (of_nat k + 0x80) s1 = Inr ((), s2)" "kb_view s2 = (km[k := (km ! k)[2 := 0]], f, False, False, 0)" by blast
  have "km[k := (km ! k)[2 := 0]] = keymap0"
    unfolding km_def by (rule flag_back) (use k keymap0_ok in \<open>simp_all add: keymap0_nth\<close>)
  then have "kb_view s2 = (keymap0, f, False, False, 0)" "kb_fifo s2 = f" using 2(2) by (simp_all add: kb_view_def)
  moreover have "sforeach (codes_of c) send_code s = Inr ((), s2)" using 1(1) 2(1) assms(2) by (simp add: codes_of_def)
  ultimately show ?thesis using 1 by (intro exI [of _ s2]) (simp add: kb_rest_def)
qed

lemma type_shifted:
  assumes "kb_rest s" "key_of c = Some (k, True)"
  shows "\<exists>s'. sforeach (codes_of c) send_code s = Inr ((), s') \<and> kb_rest s' \<and> fifo_cap (kb_fifo s') = fifo_cap (kb_fifo s) \<and>
    fifo_list (kb_fifo s') = last_part (fifo_cap (kb_fifo s)) (fifo_list (kb_fifo s) @ [c])"
proof -
  note K = key_of_Some [OF assms(2), simplified]
  note v = assms(1) [unfolded kb_rest_def, THEN conjunct1] and wf = assms(1) [unfolded kb_rest_def, THEN conjunct2]
  have k: "k < 0x60" "k \<notin> {0x3a, 0x45, 0x46}" "k \<noteq> KEY_SHIFT_L" using K(1,4) by auto
  have l: "KEY_SHIFT_L < 0x60" "KEY_SHIFT_L \<notin> {0x3a, 0x45, 0x46}" by (simp_all add: KEY_SHIFT_L_def)
  have len: "length keymap0 = 96" by (simp add: keymap0_def length_key_chars)
  define km1 where "km1 = keymap0[KEY_SHIFT_L := (keymap0 ! KEY_SHIFT_L)[2 := 1]]"
  define km2 where "km2 = km1[k := (km1 ! k)[2 := 1]]"
  have ok1: "keymap_ok km1" using set_key_ok [OF keymap0_ok l(1), of 2 1] by (simp add: km1_def)
  have ok2: "keymap_ok km2" using set_key_ok [OF ok1 k(1), of 2 1] by (simp add: km2_def)
  have "snd (key_chars ! KEY_SHIFT_L) = 0" by (simp add: key_chars_def KEY_SHIFT_L_def)
  then have sh1: "km1 ! KEY_SHIFT_L ! 2 = 1" "km1 ! KEY_SHIFT_L ! 1 = 0" and at1: "km1 ! k = keymap0 ! k"
    using l len k by (simp_all add: km1_def keymap0_nth)
  have len1: "length km1 = 96" using ok1 by (simp add: keymap_ok_def)
  have sh2: "km2 ! KEY_SHIFT_L ! 2 = 1" "km2 ! k ! 1 = c"
    using sh1 k len1 at1 K(2) by (simp_all add: km2_def keymap0_nth)
  have c1: "0 = km1 ! KEY_SHIFT_L ! (if km1 ! KEY_SHIFT_L ! 2 \<noteq> 0 \<or> km1 ! KEY_SHIFT_R ! 2 \<noteq> 0 then 1 else 0)"
    using sh1 by simp
  have c2: "c = km2 ! k ! (if km2 ! KEY_SHIFT_L ! 2 \<noteq> 0 \<or> km2 ! KEY_SHIFT_R ! 2 \<noteq> 0 then 1 else 0)" using sh2 by simp
  obtain s1 f1 where 1: "send_code (of_nat KEY_SHIFT_L) s = Inr ((), s1)" "kb_view s1 = (km1, f1, False, False, 0)" "fifo_wf f1"
    "fifo_cap f1 = fifo_cap (kb_fifo s)" "fifo_list f1 = fifo_list (kb_fifo s)"
    using press_code [OF v keymap0_ok wf l km1_def c1] by auto
  obtain s2 f2 where 2: "send_code (of_nat k) s1 = Inr ((), s2)" "kb_view s2 = (km2, f2, False, False, 0)" "fifo_wf f2"
    "fifo_cap f2 = fifo_cap (kb_fifo s)" "fifo_list f2 = last_part (fifo_cap (kb_fifo s)) (fifo_list (kb_fifo s) @ [c])"
    using press_code [OF 1(2) ok1 1(3) k(1,2) km2_def c2] K(3) 1(4,5) by auto
  have "km1 ! k ! 2 = 0" using at1 k by (simp add: keymap0_nth)
  then have b2: "km2[k := (km2 ! k)[2 := 0]] = km1"
    unfolding km2_def by (intro flag_back ok1) (use k in simp_all)
  have b1: "km1[KEY_SHIFT_L := (km1 ! KEY_SHIFT_L)[2 := 0]] = keymap0"
    unfolding km1_def by (intro flag_back keymap0_ok) (use l in \<open>simp_all add: keymap0_nth\<close>)
  obtain s3 where 3: "send_code (of_nat k + 0x80) s2 = Inr ((), s3)" "kb_view s3 = (km1, f2, False, False, 0)"
    using release_code [OF 2(2) ok2 k(1)] b2 by auto
  obtain s4 where 4: "send_code (of_nat KEY_SHIFT_L + 0x80) s3 = Inr ((), s4)" "kb_view s4 = (keymap0, f2, False, False, 0)"
    using release_code [OF 3(2) ok1 l(1)] b1 by auto
  have "codes_of c = [of_nat KEY_SHIFT_L, of_nat k, of_nat k + 0x80, of_nat KEY_SHIFT_L + 0x80]"
    using assms(2) by (simp add: codes_of_def KEY_SHIFT_L_def)
  then have "sforeach (codes_of c) send_code s = Inr ((), s4)" using 1(1) 2(1) 3(1) 4(1) by simp
  moreover have "kb_fifo s4 = f2" using 4(2) by (simp add: kb_view_def)
  ultimately show ?thesis using 4(2) 2 by (intro exI [of _ s4]) (simp add: kb_rest_def)
qed

lemma type_char:
  assumes "kb_rest s" "key_of c = Some (k, sh)"
  shows "\<exists>s'. sforeach (codes_of c) send_code s = Inr ((), s') \<and> kb_rest s' \<and> fifo_cap (kb_fifo s') = fifo_cap (kb_fifo s) \<and>
    fifo_list (kb_fifo s') = last_part (fifo_cap (kb_fifo s)) (fifo_list (kb_fifo s) @ [c])"
proof (cases sh)
  case True
  show ?thesis by (rule type_shifted [OF assms(1)]) (use assms(2) True in simp)
next
  case False
  show ?thesis by (rule type_plain [OF assms(1)]) (use assms(2) False in simp)
qed

lemma type_text_queue:
  assumes "kb_rest s" "\<forall>c\<in>set cs. key_of c \<noteq> None"
  shows "\<exists>s'. type_text cs s = Inr ((), s') \<and> kb_rest s' \<and> fifo_cap (kb_fifo s') = fifo_cap (kb_fifo s) \<and>
    fifo_list (kb_fifo s') = last_part (fifo_cap (kb_fifo s)) (fifo_list (kb_fifo s) @ cs)"
  using assms
proof (induction cs arbitrary: s)
  case Nil
  then have "length (fifo_list (kb_fifo s)) \<le> fifo_cap (kb_fifo s)" by (simp add: fifo_count_le kb_rest_def)
  then show ?case using Nil by (intro exI [of _ s]) (simp add: type_text_def last_part_short)
next
  case (Cons c cs)
  then obtain k sh where "key_of c = Some (k, sh)" by auto
  then obtain s1 where 1: "sforeach (codes_of c) send_code s = Inr ((), s1)" "kb_rest s1" "fifo_cap (kb_fifo s1) = fifo_cap (kb_fifo s)"
    "fifo_list (kb_fifo s1) = last_part (fifo_cap (kb_fifo s)) (fifo_list (kb_fifo s) @ [c])"
    using type_char [OF Cons.prems(1)] by blast
  from Cons.IH [OF 1(2)] Cons.prems(2) obtain s2 where 2: "type_text cs s1 = Inr ((), s2)" "kb_rest s2"
    "fifo_cap (kb_fifo s2) = fifo_cap (kb_fifo s)"
    "fifo_list (kb_fifo s2) = last_part (fifo_cap (kb_fifo s)) (fifo_list (kb_fifo s1) @ cs)"
    using 1(3) by auto
  have "type_text (c # cs) s = Inr ((), s2)" using 1(1) 2(1) by (simp add: type_text_def)
  moreover have "fifo_list (kb_fifo s2) = last_part (fifo_cap (kb_fifo s)) (fifo_list (kb_fifo s) @ c # cs)"
    using 2(4) 1(4) last_part_push [of "fifo_cap (kb_fifo s)" "fifo_list (kb_fifo s) @ [c]" cs] by simp
  ultimately show ?case using 2(2,3) by blast
qed

lemma key_get_n_queue:
  assumes "fifo_wf (kb_fifo s)" "fifo_list (kb_fifo s) = cs"
  shows "\<exists>s'. key_get_n (length cs) s = Inr (cs, s')"
  using assms
proof (induction cs arbitrary: s)
  case (Cons c cs)
  from fifo_get_wf [OF Cons.prems(1)] Cons.prems(2) obtain f where
    f: "fifo_get (kb_fifo s) = Inr (c, f)" "fifo_wf f" "fifo_list f = cs" by auto
  have "\<not> fifo_empty (kb_fifo s)" using f(1) by (auto simp: fifo_get_def)
  then have "key_get s = Inr (Some c, s\<lparr>kb_fifo := f\<rparr>)" using f(1) by (simp add: key_get_def)
  moreover obtain s' where "key_get_n (length cs) (s\<lparr>kb_fifo := f\<rparr>) = Inr (cs, s')"
    using Cons.IH [of "s\<lparr>kb_fifo := f\<rparr>"] f by auto
  ultimately show ?case by simp
qed simp

text \<open>Every printable character, and the control characters of the keyboard, have a key.\<close>

definition typeable :: "u8 \<Rightarrow> bool" where
  "typeable c \<longleftrightarrow> (0x20 \<le> c \<and> c \<le> 0x7e) \<or> c \<in> {0x08, 0x09, 0x0a, 0x1b}"

text \<open>The characters of the main part of the keyboard, as numbers.\<close>

definition main_codes :: "nat list" where
  "main_codes = [0, 27, 49, 50, 51, 52, 53, 54, 55, 56, 57, 48, 45, 61, 8, 9, 113, 119, 101, 114, 116, 121, 117, 105, 111, 112,
       91, 93, 10, 0, 97, 115, 100, 102, 103, 104, 106, 107, 108, 59, 39, 96, 0, 92, 122, 120, 99, 118, 98, 110, 109,
       44, 46, 47, 0, 42, 0, 32, 0, 0, 0, 0, 0, 0, 0, 0, 0, 0, 0, 0, 27, 33, 64, 35, 36, 37, 94, 38, 42, 40, 41, 95,
       43, 8, 9, 81, 87, 69, 82, 84, 89, 85, 73, 79, 80, 123, 125, 10, 0, 65, 83, 68, 70, 71, 72, 74, 75, 76, 58, 34,
       126, 0, 124, 90, 88, 67, 86, 66, 78, 77, 60, 62, 63, 0, 42, 0, 32, 0, 0, 0, 0, 0, 0, 0, 0, 0, 0, 0]"
lemma main_codes_eq: "map unat (map fst (take 0x45 key_chars) @ map snd (take 0x45 key_chars)) = main_codes"
  by (simp add: key_chars_def main_codes_def)
lemma main_codes_printable: "\<forall>n\<in>set ([8, 9, 10, 27] @ [0x20..<0x7f]). n \<in> set main_codes"
  unfolding main_codes_def by simp

lemma find_key_None: "find_key ps n c = None \<longleftrightarrow> c \<notin> set (map fst ps @ map snd ps)"
  by (induction ps arbitrary: n) auto

lemma typeable_key: "typeable c \<Longrightarrow> key_of c \<noteq> None"
proof -
  assume c: "typeable c"
  have "unat c \<in> set ([8, 9, 10, 27] @ [0x20..<0x7f])"
    using c unfolding set_append set_upt by (auto simp: typeable_def word_le_nat_alt)
  with main_codes_printable have "unat c \<in> set main_codes" by blast
  then have "unat c \<in> unat ` set (map fst (take 0x45 key_chars) @ map snd (take 0x45 key_chars))"
    unfolding main_codes_eq [symmetric] set_map .
  then have "c \<in> set (map fst (take 0x45 key_chars) @ map snd (take 0x45 key_chars))"
    by (metis imageE word_unat_eq_iff)
  moreover have "c \<noteq> 0" using c by (auto simp: typeable_def)
  ultimately show ?thesis using find_key_None by (simp only: key_of_def if_False not_False_eq_True) blast
qed

text \<open>C11: What is typed is what is read: when the keys of a text are pressed and released one after the other, with
the shift key where the character needs it, on a keyboard at rest with an empty queue of at least that
many places, then the driver's read loop returns exactly that text.\<close>

theorem typed_text_is_read:
  assumes "kb_rest s" "fifo_list (kb_fifo s) = []" "length cs \<le> fifo_cap (kb_fifo s)" "\<forall>c\<in>set cs. typeable c"
  shows "\<exists>s'. sbind (type_text cs) (\<lambda>_. key_get_n (length cs)) s = Inr (cs, s')"
proof -
  obtain s1 where 1: "type_text cs s = Inr ((), s1)" "kb_rest s1" "fifo_list (kb_fifo s1) = cs"
    using type_text_queue [OF assms(1), of cs] assms(2-4) typeable_key by (auto simp: last_part_short)
  then show ?thesis using key_get_n_queue [of s1 cs] by (auto simp: kb_rest_def)
qed

text \<open>The driver after its initialisation.\<close>

definition keyboard0 :: keyboard where
  "keyboard0 = msched.extend mutex0 \<lparr>keymap = keymap0, kb_fifo = fifo_init (replicate 64 0) 64, kb_waiter = 0, kb_lock = 0x700,
     capslock_state = False, scrlock_state = False, numlock_state = False, extcode_state = False\<rparr>"

lemma keyboard0_fields:
  "keymap keyboard0 = keymap0" "kb_fifo keyboard0 = fifo_init (replicate 64 0) 64" "kb_waiter keyboard0 = 0"
  "\<not> capslock_state keyboard0" "\<not> extcode_state keyboard0"
  by (simp_all add: keyboard0_def msched.extend_def)

lemma keyboard0_fifo:
  "fifo_wf (kb_fifo keyboard0)" "fifo_list (kb_fifo keyboard0) = []" "fifo_cap (kb_fifo keyboard0) = 63"
  using fifo_init_wf [of "replicate 64 (0 :: u8)" 64] by (simp_all add: keyboard0_fields)

text \<open>The second task runs and reads; the keyboard will send the code of the key Q.\<close>

definition keyboard1 :: keyboard where
  "keyboard1 = keyboard0\<lparr>current := 0x11000, p_dev := (\<lambda>_ _. 0x10),
     pcb := (\<lambda>_. blank_task)(0x11000 := blank_task\<lparr>t_state := TASK_RUNNING\<rparr>)\<rparr>"

lemma keyboard1_ready: "kb_ready {0x500, 0x600} keyboard1"
proof -
  have "task_table keyboard1 = task_table sched0" "heap keyboard1 = list_init (heap sched0) 0x704" "block_list keyboard1 = 0x500"
    "sleep_list keyboard1 = 0x600" "idle_task keyboard1 = 0x10000" "current keyboard1 = 0x11000" "\<not> c_if keyboard1"
    "pcb keyboard1 = (\<lambda>_. blank_task)(0x11000 := blank_task\<lparr>t_state := TASK_RUNNING\<rparr>)"
    by (simp_all add: keyboard1_def keyboard0_def msched.extend_def mutex0_def)
  note v = this
  have "dlist (heap keyboard1) 0x500 []" "dlist (heap keyboard1) 0x600 []"
    by (simp_all add: v sched0_def dlist_def path_def list_init_def lhead_def ltail_def)
  moreover have "live keyboard1 = {0x10000, 0x11000}" by (auto simp: v sched0_def live_def)
  ultimately have "sched_inv {0x500, 0x600} (\<lambda>_. []) keyboard1"
    by (simp add: sched_inv_def) (simp add: v sched0_def list_node_def path_def lhead_def ltail_def list_init_def
      task_node_def detached_def blank_task_def waiting_def runnable_def page_aligned_def)
  then show ?thesis
    by (auto simp: kb_ready_def reader_ok_def keyboard_ok_def keyboard1_def keymap0_ok keyboard0_fifo keyboard0_fields(1,3))
qed

theorem keyboard_handler_typed_witness:
  "\<exists>s. key_get keyboard1 = Inr (None, s) \<and> kb_waiter s = 0x11000 \<and>
    (case keyboard_handler 0x21 s of Inl e \<Rightarrow> e = Diverge
     | Inr (_, s') \<Rightarrow> keyboard_ok s' \<and> reader_ok {0x500, 0x600} s' \<and> reader_woken s s')"
proof -
  have "fifo_empty (kb_fifo keyboard1)" by (simp add: keyboard1_def keyboard0_fields fifo_empty_def fifo_init_def)
  moreover have "\<not> waiting (t_state (pcb keyboard1 (current keyboard1)))" "current keyboard1 = 0x11000" "idle_task keyboard1 = 0x10000"
    by (simp_all add: keyboard1_def keyboard0_def msched.extend_def mutex0_def waiting_def)
  ultimately obtain s where s: "key_get keyboard1 = Inr (None, s)" "kb_ready {0x500, 0x600} s" "kb_waiter s = 0x11000"
    using key_get_ready [OF keyboard1_ready] by auto
  with keyboard_handler_typed [of s "{0x500, 0x600}"] show ?thesis unfolding kb_ready_def by blast
qed

theorem typed_text_is_read_witness:
  "\<exists>s'. sbind (type_text [0x48, 0x69, 0x21, 0x0a]) (\<lambda>_. key_get_n 4) keyboard0 = Inr ([0x48, 0x69, 0x21, 0x0a], s')"
proof -
  have "kb_rest keyboard0" by (simp add: kb_rest_def kb_view_def keyboard0_fifo(1)) (simp add: keyboard0_fields)
  moreover have "\<forall>c\<in>set [0x48, 0x69, 0x21, 0x0a]. typeable c" by (simp add: typeable_def)
  moreover have "length [0x48, 0x69, 0x21, 0x0a :: u8] = 4" "length [0x48, 0x69, 0x21, 0x0a :: u8] \<le> fifo_cap (kb_fifo keyboard0)"
    by (simp_all add: keyboard0_fifo(3))
  ultimately show ?thesis
    using typed_text_is_read [of keyboard0 "[0x48, 0x69, 0x21, 0x0a]"] keyboard0_fifo(2) by (simp only:)
qed

end
