(* ===== verification/Console.thy ===== *)
theory Console
  imports KString Device
begin

text \<open>
  The console driver \<open>src/src/kernel/console.c\<close>: the video memory, the window of it that is on the screen,
  and the cursor, which the driver keeps both as an address and as coordinates.
\<close>

unbundle bit_operations_syntax

definition MEM_BASE :: u32 where "MEM_BASE = 0xb8000"
definition MEM_SIZE :: u32 where "MEM_SIZE = 0x4000"
definition MEM_END :: u32 where "MEM_END = MEM_BASE + MEM_SIZE"
definition WIDTH :: u32 where "WIDTH = 80"
definition HEIGHT :: u32 where "HEIGHT = 25"
definition ROW_SIZE :: u32 where "ROW_SIZE = WIDTH * 2"
definition SCR_SIZE :: u32 where "SCR_SIZE = ROW_SIZE * HEIGHT"

record console = sched +
  vmem :: mem
  screen :: u32
  pos :: u32
  con_x :: u32
  con_y :: u32
  attr :: u8
  erase :: u16

text \<open>Bytes and words of the video memory.\<close>

definition put16 :: "mem \<Rightarrow> u32 \<Rightarrow> u16 \<Rightarrow> mem" where
  "put16 m a v = m(a := ucast v, a + 1 := ucast (drop_bit 8 v))"

primrec fill16 :: "mem \<Rightarrow> u32 \<Rightarrow> u16 \<Rightarrow> nat \<Rightarrow> mem" where
  "fill16 m a v 0 = m"
| "fill16 m a v (Suc n) = fill16 (put16 m a v) (a + 2) v n"

definition crt_get :: "u8 \<Rightarrow> u8 \<Rightarrow> ('a ports_scheme, u32) op" where
  "crt_get h l =
     sbind (outb 0x3d4 h) (\<lambda>_.
     sbind (inb 0x3d5) (\<lambda>hi.
     sbind (outb 0x3d4 l) (\<lambda>_.
     sbind (inb 0x3d5) (\<lambda>lo. sret (push_bit 1 (push_bit 8 (ucast hi) OR ucast lo) + MEM_BASE)))))"

definition get_screen :: "('a console_scheme, unit) op" where
  "get_screen = sbind (crt_get 0xc 0xd) (\<lambda>v. smodify (screen_update (\<lambda>_. v)))"

definition get_cursor :: "('a console_scheme, unit) op" where
  "get_cursor = sbind (crt_get 0xe 0xf) (\<lambda>v. smodify (pos_update (\<lambda>_. v)))"

definition set_screen :: "('a console_scheme, unit) op" where
  "set_screen =
     sbind (sget screen) (\<lambda>a.
     sbind (outb 0x3d4 0xc) (\<lambda>_.
     sbind (outb 0x3d5 (ucast (drop_bit 9 (a - MEM_BASE) AND 0xff))) (\<lambda>_.
     sbind (outb 0x3d4 0xd) (\<lambda>_. outb 0x3d5 (ucast (drop_bit 1 a AND 0xff))))))"

definition set_cursor :: "('a console_scheme, unit) op" where
  "set_cursor =
     sbind (sget pos) (\<lambda>a.
     sbind (outb 0x3d4 0xe) (\<lambda>_.
     sbind (outb 0x3d5 (ucast (drop_bit 9 (a - MEM_BASE) AND 0xff))) (\<lambda>_.
     sbind (outb 0x3d4 0xf) (\<lambda>_. outb 0x3d5 (ucast (drop_bit 1 (a - MEM_BASE) AND 0xff))))))"

definition get_x_y :: "('a console_scheme, unit) op" where
  "get_x_y = smodify (\<lambda>s. let delta = drop_bit 1 (pos s - screen s) in s\<lparr>con_x := delta mod WIDTH, con_y := delta div WIDTH\<rparr>)"

definition console_clear :: "('a console_scheme, unit) op" where
  "console_clear =
     sbind (smodify (\<lambda>s. s\<lparr>screen := MEM_BASE, pos := MEM_BASE, con_x := 0, con_y := 0\<rparr>)) (\<lambda>_.
     sbind set_cursor (\<lambda>_.
     sbind set_screen (\<lambda>_.
     smodify (\<lambda>s. s\<lparr>vmem := fill16 (vmem s) MEM_BASE (erase s) (unat MEM_SIZE div 2)\<rparr>))))"

definition command_bs :: "('a console_scheme, unit) op" where
  "command_bs = smodify (\<lambda>s. if con_x s \<noteq> 0
     then s\<lparr>con_x := con_x s - 1, pos := pos s - 2, vmem := put16 (vmem s) (pos s - 2) (erase s)\<rparr> else s)"

definition scroll_up :: "('a console_scheme, unit) op" where
  "scroll_up =
     sbind (smodify (\<lambda>s. if screen s + SCR_SIZE + 1 \<ge> MEM_END
       then s\<lparr>vmem := memcpy (vmem s) MEM_BASE (screen s) SCR_SIZE, pos := pos s - (screen s - MEM_BASE), screen := MEM_BASE\<rparr>
       else s)) (\<lambda>_.
     sbind (smodify (\<lambda>s. s\<lparr>vmem := fill16 (vmem s) (screen s + SCR_SIZE) (erase s) (unat WIDTH)\<rparr>)) (\<lambda>_.
     sbind (smodify (\<lambda>s. s\<lparr>screen := screen s + ROW_SIZE, pos := pos s + ROW_SIZE\<rparr>)) (\<lambda>_. set_screen)))"

definition command_lf :: "('a console_scheme, unit) op" where
  "command_lf =
     sbind (sget con_y) (\<lambda>y.
     if y + 1 < HEIGHT then smodify (\<lambda>s. s\<lparr>con_y := con_y s + 1, pos := pos s + ROW_SIZE\<rparr>) else scroll_up)"

definition command_cr :: "('a console_scheme, unit) op" where
  "command_cr = smodify (\<lambda>s. s\<lparr>pos := pos s - push_bit 1 (con_x s), con_x := 0\<rparr>)"

definition command_del :: "('a console_scheme, unit) op" where
  "command_del = smodify (\<lambda>s. s\<lparr>vmem := put16 (vmem s) (pos s) (erase s)\<rparr>)"

definition put_glyph :: "u8 \<Rightarrow> ('a console_scheme, unit) op" where
  "put_glyph ch =
     sbind (sget con_x) (\<lambda>x.
     sbind (if x \<ge> WIDTH then sbind command_lf (\<lambda>_. command_cr) else sret ()) (\<lambda>_.
     smodify (\<lambda>s. s\<lparr>vmem := (vmem s)(pos s := ch, pos s + 1 := attr s), pos := pos s + 2, con_x := con_x s + 1\<rparr>)))"

definition console_char :: "u8 \<Rightarrow> ('a console_scheme, unit) op" where
  "console_char ch =
     (if ch = 0x00 \<or> ch = 0x05 then sret ()
      else if ch = 0x07 then start_beep
      else if ch = 0x08 then command_bs
      else if ch = 0x09 then sret ()
      else if ch = 0x0a then sbind command_lf (\<lambda>_. command_cr)
      else if ch = 0x0b then sret ()
      else if ch = 0x0c then command_lf
      else if ch = 0x0d then command_cr
      else if ch = 0x7f then command_del
      else put_glyph ch)"

text \<open>The loop runs \<open>count--\<close> down to zero and once more, so \<open>count\<close> is \<open>-1\<close> in the end.\<close>

definition console_write :: "u8 list \<Rightarrow> u32 \<Rightarrow> ('a console_scheme, u32) op" where
  "console_write buf count =
     sbind interrupt_disable (\<lambda>itr.
     sbind (if unat count \<le> length buf then sret () else sfail Fault) (\<lambda>_.
     sbind (sforeach (take (unat count) buf) console_char) (\<lambda>_.
     sbind set_cursor (\<lambda>_.
     sbind (set_interrupt_state itr) (\<lambda>_. sret (- 1))))))"

text \<open>Entering the driver in the table of the devices is an argument.\<close>

definition console_init :: "('a console_scheme, unit) op \<Rightarrow> ('a console_scheme, unit) op" where
  "console_init install = sbind console_clear (\<lambda>_. install)"

end
