(* ===== verification/Terminal.thy ===== *)
theory Terminal
  imports Console Tasks
begin

text \<open>
  The console as a terminal: 25 rows of 80 cells, numbered from the upper left corner, and a cursor. The
  driver's window into the video memory refines it; scrolling moves the window, or copies it back to the
  start of the memory when it has reached the end.
\<close>

unbundle bit_operations_syntax

record terminal =
  cells :: "nat \<Rightarrow> u8 \<times> u8"
  t_x :: nat
  t_y :: nat

definition t_idx :: "terminal \<Rightarrow> nat" where
  "t_idx t = 80 * t_y t + t_x t"

definition t_lf :: "u8 \<times> u8 \<Rightarrow> terminal \<Rightarrow> terminal" where
  "t_lf b t = (if t_y t + 1 < 25 then t\<lparr>t_y := t_y t + 1\<rparr>
     else t\<lparr>cells := (\<lambda>i. if i < 1920 then cells t (i + 80) else b)\<rparr>)"

definition t_cr :: "terminal \<Rightarrow> terminal" where
  "t_cr t = t\<lparr>t_x := 0\<rparr>"

definition t_set :: "nat \<Rightarrow> u8 \<times> u8 \<Rightarrow> terminal \<Rightarrow> terminal" where
  "t_set i c t = t\<lparr>cells := (cells t)(i := c)\<rparr>"

definition t_bs :: "u8 \<times> u8 \<Rightarrow> terminal \<Rightarrow> terminal" where
  "t_bs b t = (if t_x t = 0 then t else t_set (t_idx t - 1) b (t\<lparr>t_x := t_x t - 1\<rparr>))"

definition t_glyph :: "u8 \<times> u8 \<Rightarrow> u8 \<Rightarrow> u8 \<Rightarrow> terminal \<Rightarrow> terminal" where
  "t_glyph b a ch t =
     (let u = (if 80 \<le> t_x t then t_cr (t_lf b t) else t)
      in t_set (t_idx u) (ch, a) (u\<lparr>t_x := t_x u + 1\<rparr>))"

definition t_char :: "u8 \<times> u8 \<Rightarrow> u8 \<Rightarrow> u8 \<Rightarrow> terminal \<Rightarrow> terminal" where
  "t_char b a ch t =
     (if ch \<in> {0x00, 0x05, 0x07, 0x09, 0x0b} then t
      else if ch = 0x08 then t_bs b t
      else if ch = 0x0a then t_cr (t_lf b t)
      else if ch = 0x0c then t_lf b t
      else if ch = 0x0d then t_cr t
      else if ch = 0x7f then t_set (t_idx t) b t
      else t_glyph b a ch t)"

subsection \<open>The video memory by offsets\<close>

definition vat :: "mem \<Rightarrow> nat \<Rightarrow> u8" where
  "vat m n = m (MEM_BASE + of_nat n)"

lemma of_nat_eq_32: "n < 2 ^ 32 \<Longrightarrow> j < 2 ^ 32 \<Longrightarrow> (of_nat n :: u32) = of_nat j \<longleftrightarrow> n = j"
  using unat_of_nat_32 by metis

lemma vat_upd:
  "n < 2 ^ 32 \<Longrightarrow> j < 2 ^ 32 \<Longrightarrow> vat (m(MEM_BASE + of_nat n := v)) j = (if j = n then v else vat m j)"
  using of_nat_eq_32 [of n j] by (auto simp: vat_def)

lemma vat_upd2:
  "n + 1 < 2 ^ 32 \<Longrightarrow> j < 2 ^ 32 \<Longrightarrow>
   vat (m(MEM_BASE + of_nat n := v, MEM_BASE + of_nat n + 1 := w)) j = (if j = n then v else if j = n + 1 then w else vat m j)"
proof -
  assume n: "n + 1 < 2 ^ 32" "j < 2 ^ 32"
  have e: "MEM_BASE + of_nat n + 1 = MEM_BASE + of_nat (n + 1)" by simp
  show ?thesis unfolding e by (subst vat_upd) (use n vat_upd [of n j m v] in auto)
qed

lemma vat_fill16:
  "n + 2 * c < 2 ^ 32 \<Longrightarrow> j < 2 ^ 32 \<Longrightarrow>
   vat (fill16 m (MEM_BASE + of_nat n) v c) j =
     (if n \<le> j \<and> j < n + 2 * c then (if even (j - n) then ucast v else ucast (drop_bit 8 v)) else vat m j)"
proof (induction c arbitrary: m n)
  case (Suc c)
  have a: "MEM_BASE + of_nat n + 2 = MEM_BASE + of_nat (n + 2)" by simp
  have 1: "vat (fill16 m (MEM_BASE + of_nat n) v (Suc c)) j = vat (fill16 (put16 m (MEM_BASE + of_nat n) v) (MEM_BASE + of_nat (n + 2)) v c) j"
    unfolding a [symmetric] by simp
  have 2: "\<dots> = (if n + 2 \<le> j \<and> j < n + 2 + 2 * c then (if even (j - (n + 2)) then ucast v else ucast (drop_bit 8 v))
      else vat (put16 m (MEM_BASE + of_nat n) v) j)"
    using Suc.prems by (intro Suc.IH) simp_all
  have 3: "vat (put16 m (MEM_BASE + of_nat n) v) j = (if j = n then ucast v else if j = n + 1 then ucast (drop_bit 8 v) else vat m j)"
    unfolding put16_def using Suc.prems by (intro vat_upd2) simp_all
  consider "j < n" | "j = n" | "j = n + 1" | "n + 2 \<le> j" by linarith
  then show ?case
  proof cases
    case 4
    then have "even (j - (n + 2)) = even (j - n)" by presburger
    then show ?thesis unfolding 1 2 3 using 4 by simp
  qed (unfold 1 2 3, simp_all)
qed auto

lemma vat_memcpy_n:
  "d + n \<le> q \<Longrightarrow> q + n < 2 ^ 32 \<Longrightarrow> j < 2 ^ 32 \<Longrightarrow>
   vat (memcpy_n m (MEM_BASE + of_nat d) (MEM_BASE + of_nat q) n) j = (if d \<le> j \<and> j < d + n then vat m (q + (j - d)) else vat m j)"
proof (induction n arbitrary: m d q)
  case (Suc n)
  let ?m = "m(MEM_BASE + of_nat d := m (MEM_BASE + of_nat q))"
  have a: "MEM_BASE + of_nat d + 1 = MEM_BASE + of_nat (d + 1)" "MEM_BASE + of_nat q + 1 = MEM_BASE + of_nat (q + 1)" by simp_all
  have 1: "vat (memcpy_n m (MEM_BASE + of_nat d) (MEM_BASE + of_nat q) (Suc n)) j =
      vat (memcpy_n ?m (MEM_BASE + of_nat (d + 1)) (MEM_BASE + of_nat (q + 1)) n) j"
    unfolding a [symmetric] by simp
  have 2: "\<dots> = (if d + 1 \<le> j \<and> j < d + 1 + n then vat ?m (q + 1 + (j - (d + 1))) else vat ?m j)"
    using Suc.prems by (intro Suc.IH) simp_all
  have 3: "vat ?m i = (if i = d then vat m q else vat m i)" if "i < 2 ^ 32" for i
    using Suc.prems that vat_upd [of d i m "m (MEM_BASE + of_nat q)"] by (simp add: vat_def [of m q])
  show ?case
  proof (cases "d + 1 \<le> j \<and> j < d + 1 + n")
    case True
    then have "q + 1 + (j - (d + 1)) = q + (j - d)" "q + (j - d) \<noteq> d" "q + (j - d) < 2 ^ 32" using Suc.prems by linarith+
    then show ?thesis unfolding 1 2 using True 3 [of "q + (j - d)"] by simp
  next
    case False
    then show ?thesis unfolding 1 2 using 3 [OF Suc.prems(3)] by auto
  qed
qed auto

subsection \<open>The refinement\<close>

definition blank :: "u16 \<Rightarrow> u8 \<times> u8" where
  "blank e = (ucast e, ucast (drop_bit 8 e))"

text \<open>The window with \<open>k\<close> rows above it shows the cells.\<close>

definition window :: "mem \<Rightarrow> nat \<Rightarrow> (nat \<Rightarrow> u8 \<times> u8) \<Rightarrow> bool" where
  "window m k c \<longleftrightarrow> (\<forall>i<2000. vat m (160 * k + 2 * i) = fst (c i) \<and> vat m (160 * k + 2 * i + 1) = snd (c i))"

text \<open>
  The bytes from \<open>BEHIND\<close> on are those of \<open>m0\<close>: it is the first offset behind everything that the driver writes. The video memory ends at the offset 16384 (\<open>MEM_SIZE\<close>), but the
  last window that \<open>scroll_up\<close> allows begins at row 78, so that it and the word at the cursor behind it reach 98 bytes further.
\<close>

definition BEHIND :: nat where "BEHIND = 16482"

definition con_rep :: "u16 \<Rightarrow> u8 \<Rightarrow> mem \<Rightarrow> 'a console_scheme \<Rightarrow> terminal \<Rightarrow> bool" where
  "con_rep e a m0 s t \<longleftrightarrow> erase s = e \<and> attr s = a \<and> t_x t \<le> 80 \<and> t_y t < 25 \<and>
     con_x s = of_nat (t_x t) \<and> con_y s = of_nat (t_y t) \<and> (\<forall>j<2 ^ 32. BEHIND \<le> j \<longrightarrow> vat (vmem s) j = vat m0 j) \<and>
     (\<exists>k\<le>78. screen s = MEM_BASE + of_nat (160 * k) \<and> pos s = MEM_BASE + of_nat (160 * k + 2 * t_idx t) \<and>
        window (vmem s) k (cells t))"

definition runs :: "('s \<Rightarrow> 't \<Rightarrow> bool) \<Rightarrow> ('s, unit) op \<Rightarrow> ('t \<Rightarrow> 't) \<Rightarrow> bool" where
  "runs R f g \<longleftrightarrow> (\<forall>s t. R s t \<longrightarrow> (\<exists>s'. f s = Inr ((), s') \<and> R s' (g t)))"

lemma runs_seq: "runs R f g \<Longrightarrow> runs R f' g' \<Longrightarrow> runs R (sbind f (\<lambda>_. f')) (\<lambda>t. g' (g t))"
  by (fastforce simp: runs_def)

lemma runs_foreach: "(\<And>x. runs R (f x) (g x)) \<Longrightarrow> runs R (sforeach xs f) (\<lambda>t. fold g xs t)"
proof (induction xs)
  case (Cons x xs)
  have "runs R (sbind (f x) (\<lambda>_. sforeach xs f)) (\<lambda>t. fold g xs (g x t))"
    by (rule runs_seq) (use Cons in blast)+
  then show ?case by (simp only: sforeach.simps fold_simps)
qed (simp add: runs_def)

lemma runs_skip: "runs R (sret ()) (\<lambda>t. t)"
  by (simp add: runs_def)

lemma con_rep_ports: "con_rep e a m0 s t \<Longrightarrow> con_rep e a m0 (s\<lparr>p_trace := tr\<rparr>) t"
  "con_rep e a m0 s t \<Longrightarrow> con_rep e a m0 (s\<lparr>beeping := n\<rparr>) t" "con_rep e a m0 s t \<Longrightarrow> con_rep e a m0 (s\<lparr>c_if := b\<rparr>) t"
  by (simp_all add: con_rep_def)

lemma runs_crt: "runs (con_rep e a m0) set_screen (\<lambda>t. t)" "runs (con_rep e a m0) set_cursor (\<lambda>t. t)"
  by (auto simp: runs_def set_screen_def set_cursor_def outb_run intro!: con_rep_ports)

lemma runs_beep: "runs (con_rep e a m0) start_beep (\<lambda>t. t)"
  by (auto simp: runs_def start_beep_def outb_run inb_def Let_def intro!: con_rep_ports)

lemma con_repE:
  assumes "con_rep e a m0 s t"
  obtains k where "k \<le> 78" "screen s = MEM_BASE + of_nat (160 * k)" "pos s = MEM_BASE + of_nat (160 * k + 2 * t_idx t)"
    "window (vmem s) k (cells t)" "t_x t \<le> 80" "t_y t < 25" "con_x s = of_nat (t_x t)" "con_y s = of_nat (t_y t)"
    "erase s = e" "attr s = a" "\<forall>j<2 ^ 32. BEHIND \<le> j \<longrightarrow> vat (vmem s) j = vat m0 j"
  using assms by (auto simp: con_rep_def)

lemma runs_cr: "runs (con_rep e a m0) command_cr t_cr"
proof -
  have "con_rep e a m0 (s\<lparr>pos := pos s - push_bit 1 (con_x s), con_x := 0\<rparr>) (t_cr t)" if r: "con_rep e a m0 s t" for s :: "'a console_scheme" and t
  proof -
    obtain k where k: "k \<le> 78" "screen s = MEM_BASE + of_nat (160 * k)" "pos s = MEM_BASE + of_nat (160 * k + 2 * t_idx t)"
      "window (vmem s) k (cells t)" "con_x s = of_nat (t_x t)" using r by (rule con_repE)
    have "pos s - push_bit 1 (con_x s) = MEM_BASE + of_nat (160 * k + 2 * t_idx (t_cr t))"
      unfolding k(3,5) by (simp add: t_idx_def t_cr_def push_bit_eq_mult algebra_simps)
    then show ?thesis using r k(1,2,4) by (auto simp: con_rep_def t_cr_def)
  qed
  then show ?thesis by (simp add: runs_def command_cr_def)
qed

text \<open>A cell of the screen, or the one behind it, is written.\<close>

lemma window_set:
  assumes "window m k c" "k \<le> 78" "i \<le> 2000"
  shows "window (m(MEM_BASE + of_nat (160 * k + 2 * i) := v, MEM_BASE + of_nat (160 * k + 2 * i) + 1 := w)) k (c(i := (v, w)))"
    "j < 2 ^ 32 \<Longrightarrow> BEHIND \<le> j \<Longrightarrow>
      vat (m(MEM_BASE + of_nat (160 * k + 2 * i) := v, MEM_BASE + of_nat (160 * k + 2 * i) + 1 := w)) j = vat m j"
proof -
  have u: "vat (m(MEM_BASE + of_nat (160 * k + 2 * i) := v, MEM_BASE + of_nat (160 * k + 2 * i) + 1 := w)) j =
    (if j = 160 * k + 2 * i then v else if j = 160 * k + 2 * i + 1 then w else vat m j)" if "j < 2 ^ 32" for j
    using assms(2,3) that by (intro vat_upd2) simp_all
  show "window (m(MEM_BASE + of_nat (160 * k + 2 * i) := v, MEM_BASE + of_nat (160 * k + 2 * i) + 1 := w)) k (c(i := (v, w)))"
    unfolding window_def
  proof (intro allI impI)
    fix l :: nat assume l: "l < 2000"
    have b: "160 * k + 2 * l < 2 ^ 32" "160 * k + 2 * l + 1 < 2 ^ 32" using l assms(2) by simp_all
    have "160 * k + 2 * l \<noteq> 160 * k + 2 * i + 1" "160 * k + 2 * l + 1 \<noteq> 160 * k + 2 * i" by presburger+
    then show "vat (m(MEM_BASE + of_nat (160 * k + 2 * i) := v, MEM_BASE + of_nat (160 * k + 2 * i) + 1 := w)) (160 * k + 2 * l) = fst ((c(i := (v, w))) l) \<and>
      vat (m(MEM_BASE + of_nat (160 * k + 2 * i) := v, MEM_BASE + of_nat (160 * k + 2 * i) + 1 := w)) (160 * k + 2 * l + 1) = snd ((c(i := (v, w))) l)"
      using u [OF b(1)] u [OF b(2)] assms(1) l by (simp add: window_def)
  qed
  show "vat (m(MEM_BASE + of_nat (160 * k + 2 * i) := v, MEM_BASE + of_nat (160 * k + 2 * i) + 1 := w)) j = vat m j"
    if "j < 2 ^ 32" "BEHIND \<le> j"
    using u [OF that(1)] that(2) assms(2,3) by (simp add: BEHIND_def)
qed

lemma runs_del: "runs (con_rep e a m0) command_del (\<lambda>t. t_set (t_idx t) (blank e) t)"
proof -
  have "con_rep e a m0 (s\<lparr>vmem := put16 (vmem s) (pos s) (erase s)\<rparr>) (t_set (t_idx t) (blank e) t)"
    if r: "con_rep e a m0 s t" for s :: "'a console_scheme" and t
  proof -
    obtain k where k: "k \<le> 78" "screen s = MEM_BASE + of_nat (160 * k)" "pos s = MEM_BASE + of_nat (160 * k + 2 * t_idx t)"
      "window (vmem s) k (cells t)" "t_x t \<le> 80" "t_y t < 25" "erase s = e" using r by (rule con_repE)
    have "t_idx t \<le> 2000" using k(5,6) by (simp add: t_idx_def)
    from window_set [OF k(4,1) this] have "window (put16 (vmem s) (pos s) e) k ((cells t)(t_idx t := blank e))"
      "\<And>j. j < 2 ^ 32 \<Longrightarrow> BEHIND \<le> j \<Longrightarrow> vat (put16 (vmem s) (pos s) e) j = vat (vmem s) j"
      unfolding put16_def blank_def k(3) by blast+
    then show ?thesis using r k(1,2,3,7) by (auto simp: con_rep_def t_set_def t_idx_def)
  qed
  then show ?thesis by (simp add: runs_def command_del_def)
qed

lemma t_x_zero: "t_x t \<le> 80 \<Longrightarrow> (of_nat (t_x t) :: u32) = 0 \<longleftrightarrow> t_x t = 0"
  using of_nat_eq_32 [of "t_x t" 0] by simp

lemma runs_bs: "runs (con_rep e a m0) command_bs (t_bs (blank e))"
proof -
  have "con_rep e a m0 (if con_x s \<noteq> 0 then s\<lparr>con_x := con_x s - 1, pos := pos s - 2, vmem := put16 (vmem s) (pos s - 2) (erase s)\<rparr> else s)
      (t_bs (blank e) t)" if r: "con_rep e a m0 s t" for s :: "'a console_scheme" and t
  proof (cases "t_x t = 0")
    case True
    then show ?thesis using r by (auto simp: t_bs_def elim: con_repE)
  next
    case False
    obtain k where k: "k \<le> 78" "screen s = MEM_BASE + of_nat (160 * k)" "pos s = MEM_BASE + of_nat (160 * k + 2 * t_idx t)"
      "window (vmem s) k (cells t)" "t_x t \<le> 80" "t_y t < 25" "con_x s = of_nat (t_x t)" "con_y s = of_nat (t_y t)" "erase s = e" "attr s = a"
      "\<forall>j<2 ^ 32. BEHIND \<le> j \<longrightarrow> vat (vmem s) j = vat m0 j" using r by (rule con_repE)
    let ?u = "t\<lparr>t_x := t_x t - 1\<rparr>"
    have x: "con_x s \<noteq> 0" "con_x s - 1 = of_nat (t_x t - 1)" using False k(7) t_x_zero [OF k(5)] by (simp_all add: of_nat_diff)
    have iu: "t_idx t = t_idx ?u + 1" "t_idx ?u \<le> 2000" using False k(5,6) by (simp_all add: t_idx_def)
    then have p: "pos s - 2 = MEM_BASE + of_nat (160 * k + 2 * t_idx ?u)" unfolding k(3) by simp
    from window_set [OF k(4,1) iu(2)] have w: "window (put16 (vmem s) (pos s - 2) e) k ((cells t)(t_idx ?u := blank e))"
      "\<And>j. j < 2 ^ 32 \<Longrightarrow> BEHIND \<le> j \<Longrightarrow> vat (put16 (vmem s) (pos s - 2) e) j = vat (vmem s) j"
      unfolding put16_def blank_def p by blast+
    have t: "t_bs (blank e) t = ?u\<lparr>cells := (cells t)(t_idx ?u := blank e)\<rparr>" using False iu by (simp add: t_bs_def t_set_def)
    have "con_rep e a m0 (s\<lparr>con_x := con_x s - 1, pos := pos s - 2, vmem := put16 (vmem s) (pos s - 2) (erase s)\<rparr>)
      (?u\<lparr>cells := (cells t)(t_idx ?u := blank e)\<rparr>)"
      unfolding con_rep_def using k w x p by (auto simp: t_idx_def)
    then show ?thesis using x(1) t by simp
  qed
  then show ?thesis by (simp add: runs_def command_bs_def)
qed

subsection \<open>Scrolling\<close>

lemma window_copy:
  assumes "window m 78 c"
  shows "window (memcpy m MEM_BASE (MEM_BASE + of_nat (160 * 78)) SCR_SIZE) 0 c"
    "j < 2 ^ 32 \<Longrightarrow> BEHIND \<le> j \<Longrightarrow> vat (memcpy m MEM_BASE (MEM_BASE + of_nat (160 * 78)) SCR_SIZE) j = vat m j"
proof -
  have "memcpy m MEM_BASE (MEM_BASE + of_nat (160 * 78)) SCR_SIZE = memcpy_n m (MEM_BASE + of_nat 0) (MEM_BASE + of_nat (160 * 78)) 4000"
    by (simp add: memcpy_def SCR_SIZE_def ROW_SIZE_def WIDTH_def HEIGHT_def)
  then have v: "vat (memcpy m MEM_BASE (MEM_BASE + of_nat (160 * 78)) SCR_SIZE) j = (if j < 4000 then vat m (160 * 78 + j) else vat m j)"
    if "j < 2 ^ 32" for j
    using that vat_memcpy_n [of 0 4000 "160 * 78" j m] by simp
  show "window (memcpy m MEM_BASE (MEM_BASE + of_nat (160 * 78)) SCR_SIZE) 0 c"
    using assms v unfolding window_def by simp
  show "j < 2 ^ 32 \<Longrightarrow> BEHIND \<le> j \<Longrightarrow> vat (memcpy m MEM_BASE (MEM_BASE + of_nat (160 * 78)) SCR_SIZE) j = vat m j"
    using v [of j] by (simp add: BEHIND_def)
qed

lemma window_scroll:
  assumes "window m k c" "k \<le> 77"
  shows "window (fill16 m (MEM_BASE + of_nat (160 * k + 4000)) e 80) (k + 1) (\<lambda>i. if i < 1920 then c (i + 80) else blank e)"
    "j < 2 ^ 32 \<Longrightarrow> BEHIND \<le> j \<Longrightarrow> vat (fill16 m (MEM_BASE + of_nat (160 * k + 4000)) e 80) j = vat m j"
proof -
  have v: "vat (fill16 m (MEM_BASE + of_nat (160 * k + 4000)) e 80) j =
    (if 160 * k + 4000 \<le> j \<and> j < 160 * k + 4160 then (if even (j - (160 * k + 4000)) then ucast e else ucast (drop_bit 8 e)) else vat m j)"
    if "j < 2 ^ 32" for j
    using vat_fill16 [of "160 * k + 4000" 80 j m e] assms(2) that by simp
  show "window (fill16 m (MEM_BASE + of_nat (160 * k + 4000)) e 80) (k + 1) (\<lambda>i. if i < 1920 then c (i + 80) else blank e)"
    unfolding window_def
  proof (intro allI impI)
    fix i :: nat assume i: "i < 2000"
    have b: "160 * (k + 1) + 2 * i < 2 ^ 32" "160 * (k + 1) + 2 * i + 1 < 2 ^ 32" using i assms(2) by simp_all
    show "vat (fill16 m (MEM_BASE + of_nat (160 * k + 4000)) e 80) (160 * (k + 1) + 2 * i) = fst (if i < 1920 then c (i + 80) else blank e) \<and>
      vat (fill16 m (MEM_BASE + of_nat (160 * k + 4000)) e 80) (160 * (k + 1) + 2 * i + 1) = snd (if i < 1920 then c (i + 80) else blank e)"
    proof (cases "i < 1920")
      case True
      have "i + 80 < 2000" using True by simp
      then have "vat m (160 * k + 2 * (i + 80)) = fst (c (i + 80)) \<and> vat m (160 * k + 2 * (i + 80) + 1) = snd (c (i + 80))"
        using assms(1) unfolding window_def by blast
      moreover have "160 * (k + 1) + 2 * i = 160 * k + 2 * (i + 80)" by simp
      moreover have "\<not> 160 * k + 4000 \<le> 160 * k + 2 * (i + 80)" "\<not> 160 * k + 4000 \<le> 160 * k + 2 * (i + 80) + 1"
        using True by simp_all
      ultimately show ?thesis using v [OF b(1)] v [OF b(2)] True by (simp only: if_True if_False simp_thms)
    next
      case False
      have "even (160 * (k + 1) + 2 * i - (160 * k + 4000))" "odd (160 * (k + 1) + 2 * i + 1 - (160 * k + 4000))"
        using False by presburger+
      then show ?thesis using v [OF b(1)] v [OF b(2)] False i by (simp add: blank_def)
    qed
  qed
  show "j < 2 ^ 32 \<Longrightarrow> BEHIND \<le> j \<Longrightarrow> vat (fill16 m (MEM_BASE + of_nat (160 * k + 4000)) e 80) j = vat m j"
    using v [of j] assms(2) by (simp add: BEHIND_def)
qed

lemma at_end: "k \<le> 78 \<Longrightarrow> screen s = MEM_BASE + of_nat (160 * k) \<Longrightarrow> screen s + SCR_SIZE + 1 \<ge> MEM_END \<longleftrightarrow> k = 78"
proof -
  assume k: "k \<le> 78" "screen s = MEM_BASE + of_nat (160 * k)"
  have "screen s + SCR_SIZE + 1 = of_nat (0xb8000 + 160 * k + 4001)" unfolding k(2)
    by (simp add: MEM_BASE_def SCR_SIZE_def ROW_SIZE_def WIDTH_def HEIGHT_def)
  moreover have "unat (of_nat (0xb8000 + 160 * k + 4001) :: u32) = 0xb8000 + 160 * k + 4001" using k(1) by (intro unat_of_nat_32) simp
  moreover have "unat MEM_END = 0xbc000" by (simp add: MEM_END_def MEM_BASE_def MEM_SIZE_def)
  ultimately show ?thesis using k(1) by (auto simp: word_le_nat_alt)
qed

lemma runs_scroll: "t_y t = 24 \<Longrightarrow> con_rep e a m0 s t \<Longrightarrow> \<exists>s'. scroll_up s = Inr ((), s') \<and> con_rep e a m0 s' (t_lf (blank e) t)"
proof -
  assume y: "t_y t = 24" and r: "con_rep e a m0 s t"
  obtain k where k: "k \<le> 78" "screen s = MEM_BASE + of_nat (160 * k)" "pos s = MEM_BASE + of_nat (160 * k + 2 * t_idx t)"
    "window (vmem s) k (cells t)" "t_x t \<le> 80" "t_y t < 25" "con_x s = of_nat (t_x t)" "con_y s = of_nat (t_y t)" "erase s = e" "attr s = a"
    "\<forall>j<2 ^ 32. BEHIND \<le> j \<longrightarrow> vat (vmem s) j = vat m0 j" using r by (rule con_repE)
  define s1 where "s1 = (if screen s + SCR_SIZE + 1 \<ge> MEM_END
       then s\<lparr>vmem := memcpy (vmem s) MEM_BASE (screen s) SCR_SIZE, pos := pos s - (screen s - MEM_BASE), screen := MEM_BASE\<rparr>
       else s)"
  obtain l where l: "l \<le> 77" "screen s1 = MEM_BASE + of_nat (160 * l)" "pos s1 = MEM_BASE + of_nat (160 * l + 2 * t_idx t)"
    "window (vmem s1) l (cells t)" "\<forall>j<2 ^ 32. BEHIND \<le> j \<longrightarrow> vat (vmem s1) j = vat m0 j"
  proof (cases "k = 78")
    case True
    then have e: "s1 = s\<lparr>vmem := memcpy (vmem s) MEM_BASE (screen s) SCR_SIZE, pos := pos s - (screen s - MEM_BASE), screen := MEM_BASE\<rparr>"
      using at_end [OF k(1,2)] by (simp add: s1_def)
    have "window (vmem s1) 0 (cells t)" using window_copy(1) k(2,4) True e by simp
    moreover have "\<forall>j<2 ^ 32. BEHIND \<le> j \<longrightarrow> vat (vmem s1) j = vat m0 j"
      using window_copy(2) [of "vmem s" "cells t"] k(2,4,11) True e by simp
    moreover have "screen s1 = MEM_BASE + of_nat (160 * 0)" "pos s1 = MEM_BASE + of_nat (160 * 0 + 2 * t_idx t)"
      using k(2,3) e by simp_all
    ultimately show thesis using that [of 0] by blast
  next
    case False
    then have "s1 = s" "k \<le> 77" using at_end [OF k(1,2)] k(1) by (simp_all add: s1_def)
    then show thesis using that [of k] k by blast
  qed
  have keep: "erase s1 = e" "attr s1 = a" "con_x s1 = con_x s" "con_y s1 = con_y s" using k(9,10) by (simp_all add: s1_def)
  define s2 where "s2 = s1\<lparr>vmem := fill16 (vmem s1) (screen s1 + SCR_SIZE) e 80, screen := screen s1 + ROW_SIZE, pos := pos s1 + ROW_SIZE\<rparr>"
  have "screen s1 + SCR_SIZE = MEM_BASE + of_nat (160 * l + 4000)"
    unfolding l(2) by (simp add: SCR_SIZE_def ROW_SIZE_def WIDTH_def HEIGHT_def)
  then have m2: "vmem s2 = fill16 (vmem s1) (MEM_BASE + of_nat (160 * l + 4000)) e 80" by (simp add: s2_def)
  have "screen s2 = MEM_BASE + of_nat (160 * (l + 1))" "pos s2 = MEM_BASE + of_nat (160 * (l + 1) + 2 * t_idx t)"
    using l(2,3) by (simp_all add: s2_def ROW_SIZE_def WIDTH_def algebra_simps)
  moreover have "window (vmem s2) (l + 1) (cells (t_lf (blank e) t))"
    unfolding m2 using window_scroll(1) [OF l(4,1), of e] y by (simp add: t_lf_def)
  moreover have "\<forall>j<2 ^ 32. BEHIND \<le> j \<longrightarrow> vat (vmem s2) j = vat m0 j"
    unfolding m2 using window_scroll(2) [OF l(4,1), of _ e] l(5) by simp
  moreover have "t_idx (t_lf (blank e) t) = t_idx t" "t_x (t_lf (blank e) t) = t_x t" "t_y (t_lf (blank e) t) = t_y t"
    using y by (simp_all add: t_lf_def t_idx_def)
  ultimately have "con_rep e a m0 s2 (t_lf (blank e) t)"
    unfolding con_rep_def using k(5-8) keep l(1) by (auto simp: s2_def intro!: exI [of _ "l + 1"])
  moreover have "scroll_up s = set_screen s2"
    by (simp add: scroll_up_def s1_def [symmetric] s2_def keep(1) WIDTH_def)
  ultimately show ?thesis using runs_crt(1) [of e a m0] unfolding runs_def by metis
qed

lemma runs_lf: "runs (con_rep e a m0) command_lf (t_lf (blank e))"
proof -
  have "\<exists>s'. command_lf s = Inr ((), s') \<and> con_rep e a m0 s' (t_lf (blank e) t)"
    if r: "con_rep e a m0 s t" for s :: "'a console_scheme" and t
  proof -
    obtain k where k: "k \<le> 78" "screen s = MEM_BASE + of_nat (160 * k)" "pos s = MEM_BASE + of_nat (160 * k + 2 * t_idx t)"
      "window (vmem s) k (cells t)" "t_x t \<le> 80" "t_y t < 25" "con_x s = of_nat (t_x t)" "con_y s = of_nat (t_y t)" "erase s = e" "attr s = a"
      "\<forall>j<2 ^ 32. BEHIND \<le> j \<longrightarrow> vat (vmem s) j = vat m0 j" using r by (rule con_repE)
    have "con_y s + 1 = of_nat (t_y t + 1)" unfolding k(8) by simp
    moreover have "unat (of_nat (t_y t + 1) :: u32) = t_y t + 1" using k(6) by (intro unat_of_nat_32) simp
    moreover have "unat HEIGHT = 25" by (simp add: HEIGHT_def)
    ultimately have c: "con_y s + 1 < HEIGHT \<longleftrightarrow> t_y t + 1 < 25" by (simp only: word_less_nat_alt)
    show ?thesis
    proof (cases "t_y t + 1 < 25")
      case True
      have "pos s + ROW_SIZE = MEM_BASE + of_nat (160 * k + 2 * t_idx (t\<lparr>t_y := t_y t + 1\<rparr>))"
        unfolding k(3) by (simp add: ROW_SIZE_def WIDTH_def t_idx_def)
      then have "con_rep e a m0 (s\<lparr>con_y := con_y s + 1, pos := pos s + ROW_SIZE\<rparr>) (t\<lparr>t_y := t_y t + 1\<rparr>)"
        unfolding con_rep_def using k True by auto
      then show ?thesis using c True by (simp add: command_lf_def t_lf_def)
    next
      case False
      then have "command_lf s = scroll_up s" using c by (simp add: command_lf_def)
      then show ?thesis using runs_scroll [OF _ r] False k(6) by simp
    qed
  qed
  then show ?thesis by (simp add: runs_def)
qed

lemma runs_place: "con_rep e a m0 s t \<Longrightarrow> t_x t < 80 \<Longrightarrow>
  con_rep e a m0 (s\<lparr>vmem := (vmem s)(pos s := ch, pos s + 1 := attr s), pos := pos s + 2, con_x := con_x s + 1\<rparr>)
    (t_set (t_idx t) (ch, a) (t\<lparr>t_x := t_x t + 1\<rparr>))"
proof -
  assume r: "con_rep e a m0 s t" and x: "t_x t < 80"
  obtain k where k: "k \<le> 78" "screen s = MEM_BASE + of_nat (160 * k)" "pos s = MEM_BASE + of_nat (160 * k + 2 * t_idx t)"
    "window (vmem s) k (cells t)" "t_x t \<le> 80" "t_y t < 25" "con_x s = of_nat (t_x t)" "con_y s = of_nat (t_y t)" "erase s = e" "attr s = a"
    "\<forall>j<2 ^ 32. BEHIND \<le> j \<longrightarrow> vat (vmem s) j = vat m0 j" using r by (rule con_repE)
  have "t_idx t \<le> 2000" using k(5,6) by (simp add: t_idx_def)
  from window_set [OF k(4,1) this] have w: "window ((vmem s)(pos s := ch, pos s + 1 := a)) k ((cells t)(t_idx t := (ch, a)))"
    "\<And>j. j < 2 ^ 32 \<Longrightarrow> BEHIND \<le> j \<Longrightarrow> vat ((vmem s)(pos s := ch, pos s + 1 := a)) j = vat (vmem s) j"
    unfolding k(3) by blast+
  have "pos s + 2 = MEM_BASE + of_nat (160 * k + 2 * t_idx (t\<lparr>t_x := t_x t + 1\<rparr>))" unfolding k(3) by (simp add: t_idx_def)
  then show ?thesis unfolding con_rep_def using k w x by (auto simp: t_set_def t_idx_def)
qed

lemma runs_glyph: "runs (con_rep e a m0) (put_glyph ch) (t_glyph (blank e) a ch)"
proof -
  have "\<exists>s'. put_glyph ch s = Inr ((), s') \<and> con_rep e a m0 s' (t_glyph (blank e) a ch t)"
    if r: "con_rep e a m0 s t" for s :: "'a console_scheme" and t
  proof -
    have tx: "t_x t \<le> 80" "con_x s = of_nat (t_x t)" using r by (auto simp: con_rep_def)
    have "unat (of_nat (t_x t) :: u32) = t_x t" using tx(1) by (intro unat_of_nat_32) simp
    then have c: "con_x s \<ge> WIDTH \<longleftrightarrow> 80 \<le> t_x t" unfolding tx(2) by (simp add: WIDTH_def word_le_nat_alt)
    let ?u = "if 80 \<le> t_x t then t_cr (t_lf (blank e) t) else t"
    have "runs (con_rep e a m0) (sbind command_lf (\<lambda>_. command_cr)) (\<lambda>t. t_cr (t_lf (blank e) t))"
      by (rule runs_seq [OF runs_lf runs_cr])
    then have "\<exists>s1. sbind command_lf (\<lambda>_. command_cr) s = Inr ((), s1) \<and> con_rep e a m0 s1 (t_cr (t_lf (blank e) t))"
      using r unfolding runs_def by blast
    moreover have "sret () s = Inr ((), s)" by simp
    ultimately obtain s1 where s1: "(if con_x s \<ge> WIDTH then sbind command_lf (\<lambda>_. command_cr) else sret ()) s = Inr ((), s1)"
      "con_rep e a m0 s1 ?u" unfolding c using r by (cases "80 \<le> t_x t") (simp_all only: if_True if_False, blast+)
    have "t_x ?u < 80" using tx(1) by (auto simp: t_cr_def)
    from runs_place [OF s1(2) this, of ch] show ?thesis using s1(1) by (simp add: put_glyph_def t_glyph_def Let_def del: fun_upd_apply)
  qed
  then show ?thesis by (simp add: runs_def)
qed

lemma runs_if: "(c \<Longrightarrow> runs R f g) \<Longrightarrow> (\<not> c \<Longrightarrow> runs R f' g') \<Longrightarrow> runs R (if c then f else f') (if c then g else g')"
  by simp

lemma t_char_cases:
  "t_char b a ch = (if ch = 0x00 \<or> ch = 0x05 then (\<lambda>t. t) else if ch = 0x07 then (\<lambda>t. t) else if ch = 0x08 then t_bs b
     else if ch = 0x09 then (\<lambda>t. t) else if ch = 0x0a then (\<lambda>t. t_cr (t_lf b t)) else if ch = 0x0b then (\<lambda>t. t)
     else if ch = 0x0c then t_lf b else if ch = 0x0d then t_cr else if ch = 0x7f then (\<lambda>t. t_set (t_idx t) b t) else t_glyph b a ch)"
  by (rule ext) (simp add: t_char_def)

lemma runs_char: "runs (con_rep e a m0) (console_char ch) (t_char (blank e) a ch)"
  unfolding console_char_def t_char_cases
  by (intro runs_if runs_beep runs_bs runs_lf runs_cr runs_del runs_glyph runs_skip runs_seq [OF runs_lf runs_cr])

text \<open>C7: The console is a terminal: writing any text to the driver never fails, and afterwards the window that the screen shows
from the video memory on is what a screen of 25 rows and 80 columns shows after the same characters (line breaks,
backspace, wrap at the right margin and scrolling included), and the cursor is where the terminal's is. Besides the video
memory of \<open>MEM\_SIZE\<close> bytes, the driver touches at most the 98 bytes that follow it: its scrolling starts again at the
beginning of the memory only after the window has passed the end, against its intention (\<open>scroll\_up\_overruns\<close>); no other byte
is touched. The value is always \<open>-1\<close>, whatever was written.\<close>

theorem console_refines_terminal:
  assumes "con_rep e a m0 s t" "unat count \<le> length buf"
  shows "\<exists>s'. console_write buf count s = Inr (- 1, s') \<and>
    con_rep e a m0 s' (fold (t_char (blank e) a) (take (unat count) buf) t)"
proof -
  let ?xs = "take (unat count) buf"
  have "con_rep e a m0 (s\<lparr>c_if := False\<rparr>) t" by (rule con_rep_ports(3) [OF assms(1)])
  moreover have "runs (con_rep e a m0) (sforeach ?xs console_char) (fold (t_char (blank e) a) ?xs)"
    by (rule runs_foreach) (rule runs_char)
  ultimately obtain s1 where 1: "sforeach ?xs console_char (s\<lparr>c_if := False\<rparr>) = Inr ((), s1)"
    "con_rep e a m0 s1 (fold (t_char (blank e) a) ?xs t)" unfolding runs_def by blast
  obtain s2 where 2: "set_cursor s1 = Inr ((), s2)" "con_rep e a m0 s2 (fold (t_char (blank e) a) ?xs t)"
    using runs_crt(2) [of e a m0] 1(2) unfolding runs_def by blast
  have "console_write buf count s = Inr (- 1, s2\<lparr>c_if := c_if s\<rparr>)"
    using 1(1) 2(1) assms(2) by (simp add: console_write_def interrupt_disable_def set_interrupt_state_def)
  then show ?thesis using con_rep_ports(3) [OF 2(2)] by blast
qed

text \<open>After \<open>console\_clear\<close> the terminal is blank.\<close>

lemma console_clear_blank:
  "\<exists>s'. console_clear s = Inr ((), s') \<and> con_rep (erase s) (attr s) (vmem s) s' \<lparr>cells = (\<lambda>_. blank (erase s)), t_x = 0, t_y = 0\<rparr>"
proof -
  let ?m = "fill16 (vmem s) (MEM_BASE + of_nat 0) (erase s) 8192"
  have v: "vat ?m j = (if j < 16384 then (if even j then ucast (erase s) else ucast (drop_bit 8 (erase s))) else vat (vmem s) j)"
    if "j < 2 ^ 32" for j
    using vat_fill16 [of 0 8192 j "vmem s" "erase s"] that by simp
  have "window ?m 0 (\<lambda>_. blank (erase s))" using v by (simp add: window_def blank_def)
  moreover have "\<forall>j<2 ^ 32. BEHIND \<le> j \<longrightarrow> vat ?m j = vat (vmem s) j" using v by (simp add: BEHIND_def)
  moreover have "unat MEM_SIZE div 2 = 8192" by (simp add: MEM_SIZE_def)
  ultimately show ?thesis
    by (simp add: console_clear_def set_cursor_def set_screen_def outb_run con_rep_def t_idx_def) (intro exI [of _ 0], simp)
qed

text \<open>The last line break before the window is copied back clears 96 bytes behind the video memory.\<close>

lemma scroll_up_overruns:
  assumes "screen s = MEM_BASE + of_nat (160 * 77)"
  shows "\<exists>s'. scroll_up s = Inr ((), s') \<and> vmem s' MEM_END = ucast (erase s)"
proof -
  have "vat (fill16 (vmem s) (MEM_BASE + of_nat (160 * 77 + 4000)) (erase s) 80) 16384 = ucast (erase s)"
    using vat_fill16 [of "160 * 77 + 4000" 80 16384 "vmem s" "erase s"] by simp
  moreover have "MEM_BASE + of_nat 16384 = MEM_END" by (simp add: MEM_END_def MEM_SIZE_def)
  moreover have "screen s + SCR_SIZE = MEM_BASE + of_nat (160 * 77 + 4000)"
    unfolding assms by (simp add: SCR_SIZE_def ROW_SIZE_def WIDTH_def HEIGHT_def)
  moreover have "\<not> screen s + SCR_SIZE + 1 \<ge> MEM_END" using at_end [of 77 s] assms by simp
  ultimately show ?thesis by (simp add: scroll_up_def set_screen_def outb_run vat_def WIDTH_def)
qed

text \<open>A console that has just been cleared.\<close>

definition console0 :: console where
  "console0 = sched.extend sched0 \<lparr>vmem = (\<lambda>_. 0), screen = 0, pos = 0, con_x = 0, con_y = 0, attr = 7, erase = 0x0720\<rparr>"

theorem console_refines_terminal_witness:
  "\<exists>s'. sbind console_clear (\<lambda>_. console_write [0x48, 0x69, 0x0a] 3) console0 = Inr (- 1, s') \<and>
    con_rep 0x0720 7 (\<lambda>_. 0) s' \<lparr>cells = (\<lambda>_. (0x20, 7))(0 := (0x48, 7), 1 := (0x69, 7)), t_x = 0, t_y = 1\<rparr>"
proof -
  have c: "erase console0 = 0x0720" "attr console0 = 7" "vmem console0 = (\<lambda>_. 0)" by (simp_all add: console0_def sched.extend_def)
  obtain s1 where 1: "console_clear console0 = Inr ((), s1)"
    "con_rep 0x0720 7 (\<lambda>_. 0) s1 \<lparr>cells = (\<lambda>_. blank 0x0720), t_x = 0, t_y = 0\<rparr>"
    using console_clear_blank [of console0] unfolding c by blast
  have b: "blank 0x0720 = (0x20, 7)" by (simp add: blank_def)
  have "fold (t_char (blank 0x0720) 7) (take (unat (3 :: u32)) [0x48, 0x69, 0x0a]) \<lparr>cells = (\<lambda>_. blank 0x0720), t_x = 0, t_y = 0\<rparr> =
    \<lparr>cells = (\<lambda>_. (0x20, 7))(0 := (0x48, 7), 1 := (0x69, 7)), t_x = 0, t_y = 1\<rparr>"
    unfolding b by (simp add: t_char_def t_glyph_def t_set_def t_idx_def t_cr_def t_lf_def fun_eq_iff)
  with console_refines_terminal [OF 1(2), of 3 "[0x48, 0x69, 0x0a]"] 1(1) show ?thesis by simp
qed

end
