(* ===== verification/Ide.thy ===== *)
theory Ide
  imports Mutex Device
begin

text \<open>
  The disk driver \<open>src/src/kernel/ide.c\<close>, which moves sectors word by word through the ports of the two
  controllers. A disk is named by the number of its controller and its own number there. A task that
  has to wait for the interrupt is put to sleep; before the tasks exist the driver polls.
\<close>

unbundle bit_operations_syntax

definition IDE_CTRL_NR :: nat where "IDE_CTRL_NR = 2"
definition IDE_DISK_NR :: nat where "IDE_DISK_NR = 2"
definition IDE_PART_NR :: nat where "IDE_PART_NR = 4"
definition IDE_SR_DRQ :: u8 where "IDE_SR_DRQ = 0x08"
definition IDE_SR_DRDY :: u8 where "IDE_SR_DRDY = 0x40"
definition PART_FS_EXTENDED :: u8 where "PART_FS_EXTENDED = 5"

record ide_part =
  pt_name :: "u8 list"
  pt_disk :: "nat \<times> nat"
  pt_system :: u32
  pt_start :: u32
  pt_count :: u32

record ide_disk =
  dk_name :: "u8 list"
  dk_selector :: u8
  dk_master :: bool
  dk_total_lba :: u32
  dk_cylinders :: u32
  dk_heads :: u32
  dk_sectors :: u32
  dk_parts :: "ide_part list"

record ide_ctrl =
  ct_name :: "u8 list"
  ct_lock :: u32
  ct_iobase :: u16
  ct_disks :: "ide_disk list"
  ct_active :: "nat option"
  ct_control :: u8
  ct_waiter :: u32

record ide_state = msched +
  controllers :: "ide_ctrl list"

definition get_ctrl :: "nat \<Rightarrow> ('a ide_state_scheme, ide_ctrl) op" where
  "get_ctrl c = (\<lambda>s. rbind (rd (controllers s) c) (\<lambda>x. Inr (x, s)))"

definition upd_ctrl :: "nat \<Rightarrow> (ide_ctrl \<Rightarrow> ide_ctrl) \<Rightarrow> ('a ide_state_scheme, unit) op" where
  "upd_ctrl c f = (\<lambda>s. rbind (rd (controllers s) c) (\<lambda>x. Inr ((), s\<lparr>controllers := (controllers s)[c := f x]\<rparr>)))"

definition get_disk :: "nat \<times> nat \<Rightarrow> ('a ide_state_scheme, ide_disk) op" where
  "get_disk k = sbind (get_ctrl (fst k)) (\<lambda>c. slift (rd (ct_disks c) (snd k)))"

definition upd_disk :: "nat \<times> nat \<Rightarrow> (ide_disk \<Rightarrow> ide_disk) \<Rightarrow> ('a ide_state_scheme, unit) op" where
  "upd_disk k f = sbind (get_disk k) (\<lambda>d. upd_ctrl (fst k) (\<lambda>c. c\<lparr>ct_disks := (ct_disks c)[snd k := f d]\<rparr>))"

definition ide_handler :: "int \<Rightarrow> ('a ide_state_scheme, unit) op" where
  "ide_handler vector =
     sbind (send_eoi vector) (\<lambda>_.
     let i = vector - 14 - 0x20
     in if i < 0 then sfail Fault
        else sbind (get_ctrl (nat i)) (\<lambda>c.
             sbind (inb (ct_iobase c + 7)) (\<lambda>_.
             if ct_waiter c \<noteq> 0
             then sbind (task_unblock (ct_waiter c)) (\<lambda>_. upd_ctrl (nat i) (ct_waiter_update (\<lambda>_. 0)))
             else sret ())))"

text \<open>Only messages depend on the bits of the error register.\<close>

definition ide_error :: "u16 \<Rightarrow> ('a ports_scheme, unit) op" where
  "ide_error base = sbind (inb (base + 1)) (\<lambda>_. sret ())"

partial_function (option) busy_loop :: "u16 \<Rightarrow> u8 \<Rightarrow> 'a ports_scheme \<Rightarrow> (unit \<times> 'a ports_scheme) res option" where
  "busy_loop base m s =
     lbind (inb (base + 0x206) s) (\<lambda>r.
     lbind (if fst r AND 0x01 \<noteq> 0 then ide_error base (snd r) else Inr ((), snd r)) (\<lambda>q.
     if fst r AND 0x80 \<noteq> 0 then busy_loop base m (snd q)
     else if fst r AND m = m then Some (Inr ((), snd q))
     else busy_loop base m (snd q)))"

definition ide_busy_wait :: "u16 \<Rightarrow> u8 \<Rightarrow> ('a ports_scheme, unit) op" where
  "ide_busy_wait base m = (\<lambda>s. run_loop (busy_loop base m s))"

definition ide_reset_controller :: "nat \<Rightarrow> ('a ide_state_scheme, unit) op" where
  "ide_reset_controller i =
     sbind (get_ctrl i) (\<lambda>c.
     sbind (outb (ct_iobase c + 0x206) 0x04) (\<lambda>_.
     sbind (ide_busy_wait (ct_iobase c) 0) (\<lambda>_.
     sbind (outb (ct_iobase c + 0x206) (ct_control c)) (\<lambda>_. ide_busy_wait (ct_iobase c) 0))))"

definition ide_select_drive :: "nat \<times> nat \<Rightarrow> ('a ide_state_scheme, unit) op" where
  "ide_select_drive k =
     sbind (get_ctrl (fst k)) (\<lambda>c.
     sbind (get_disk k) (\<lambda>d.
     sbind (outb (ct_iobase c + 6) (dk_selector d)) (\<lambda>_. upd_ctrl (fst k) (ct_active_update (\<lambda>_. Some (snd k))))))"

definition ide_select_sector :: "nat \<times> nat \<Rightarrow> u32 \<Rightarrow> u8 \<Rightarrow> ('a ide_state_scheme, unit) op" where
  "ide_select_sector k lba n =
     sbind (get_ctrl (fst k)) (\<lambda>c.
     sbind (get_disk k) (\<lambda>d.
     sbind (outb (ct_iobase c + 1) 0) (\<lambda>_.
     sbind (outb (ct_iobase c + 2) n) (\<lambda>_.
     sbind (outb (ct_iobase c + 3) (ucast (lba AND 0xff))) (\<lambda>_.
     sbind (outb (ct_iobase c + 4) (ucast (drop_bit 8 lba AND 0xff))) (\<lambda>_.
     sbind (outb (ct_iobase c + 5) (ucast (drop_bit 16 lba AND 0xff))) (\<lambda>_.
     sbind (outb (ct_iobase c + 6) (ucast ((drop_bit 24 lba AND 0xf) OR ucast (dk_selector d)))) (\<lambda>_.
     upd_ctrl (fst k) (ct_active_update (\<lambda>_. Some (snd k)))))))))))"

primrec read_words :: "u16 \<Rightarrow> nat \<Rightarrow> ('a ports_scheme, u16 list) op" where
  "read_words port 0 = sret []"
| "read_words port (Suc n) = sbind (inw port) (\<lambda>w. sbind (read_words port n) (\<lambda>ws. sret (w # ws)))"

definition ide_pio_read_sector :: "u16 \<Rightarrow> ('a ports_scheme, u16 list) op" where
  "ide_pio_read_sector base = read_words base 256"

definition ide_pio_write_sector :: "u16 \<Rightarrow> u16 list \<Rightarrow> ('a ports_scheme, unit) op" where
  "ide_pio_write_sector base ws = (if length ws < 256 then sfail Fault else sforeach (take 256 ws) (outw base))"

text \<open>A running task sleeps until the interrupt; the value tells whether it was put to sleep.\<close>

definition ide_sleep :: "nat \<Rightarrow> ('a ide_state_scheme, bool) op" where
  "ide_sleep i =
     sbind (sget current) (\<lambda>task.
     sbind (get_task task) (\<lambda>t.
     if t_state t = TASK_RUNNING then
       sbind (upd_ctrl i (ct_waiter_update (\<lambda>_. task))) (\<lambda>_.
       sbind (task_block task 0 TASK_BLOCKED) (\<lambda>_. sret True))
     else sret False))"

primrec read_sectors :: "nat \<Rightarrow> u16 \<Rightarrow> nat \<Rightarrow> ('a ide_state_scheme, u16 list) op" where
  "read_sectors i base 0 = sret []"
| "read_sectors i base (Suc n) =
     sbind (ide_sleep i) (\<lambda>b.
     if b then sfail Blocked
     else sbind (ide_busy_wait base IDE_SR_DRQ) (\<lambda>_.
          sbind (ide_pio_read_sector base) (\<lambda>ws.
          sbind (read_sectors i base n) (\<lambda>rest. sret (ws @ rest)))))"

text \<open>The buffer is given as the list of the 16-bit words that the transfer leaves in it.\<close>

definition ide_pio_read :: "nat \<times> nat \<Rightarrow> u8 \<Rightarrow> u32 \<Rightarrow> ('a ide_state_scheme, int \<times> u16 list) op" where
  "ide_pio_read k n lba =
     sbind (sensure (n > 0)) (\<lambda>_.
     sbind ensure_disabled (\<lambda>_.
     sbind (get_ctrl (fst k)) (\<lambda>c.
     sbind (reentrant_lock (ct_lock c)) (\<lambda>_.
     sbind (ide_select_drive k) (\<lambda>_.
     sbind (ide_busy_wait (ct_iobase c) IDE_SR_DRDY) (\<lambda>_.
     sbind (ide_select_sector k lba n) (\<lambda>_.
     sbind (outb (ct_iobase c + 7) 0x20) (\<lambda>_.
     sbind (read_sectors (fst k) (ct_iobase c) (unat n)) (\<lambda>ws.
     sbind (reentrant_unlock (ct_lock c)) (\<lambda>_. sret (0, ws)))))))))))"

primrec write_sectors :: "nat \<Rightarrow> u16 \<Rightarrow> nat \<Rightarrow> u16 list \<Rightarrow> ('a ide_state_scheme, unit) op" where
  "write_sectors i base 0 ws = sret ()"
| "write_sectors i base (Suc n) ws =
     sbind (ide_pio_write_sector base ws) (\<lambda>_.
     sbind (ide_sleep i) (\<lambda>b.
     if b then sfail Blocked
     else sbind (ide_busy_wait base 0) (\<lambda>_. write_sectors i base n (drop 256 ws))))"

definition ide_pio_write :: "nat \<times> nat \<Rightarrow> u16 list \<Rightarrow> u8 \<Rightarrow> u32 \<Rightarrow> ('a ide_state_scheme, int) op" where
  "ide_pio_write k ws n lba =
     sbind (sensure (n > 0)) (\<lambda>_.
     sbind ensure_disabled (\<lambda>_.
     sbind (get_ctrl (fst k)) (\<lambda>c.
     sbind (reentrant_lock (ct_lock c)) (\<lambda>_.
     sbind (ide_select_drive k) (\<lambda>_.
     sbind (ide_busy_wait (ct_iobase c) IDE_SR_DRDY) (\<lambda>_.
     sbind (ide_select_sector k lba n) (\<lambda>_.
     sbind (outb (ct_iobase c + 7) 0x30) (\<lambda>_.
     sbind (write_sectors (fst k) (ct_iobase c) (unat n) ws) (\<lambda>_.
     sbind (reentrant_unlock (ct_lock c)) (\<lambda>_. sret 0))))))))))"

definition ide_pio_part_read :: "ide_part \<Rightarrow> u8 \<Rightarrow> u32 \<Rightarrow> ('a ide_state_scheme, int \<times> u16 list) op" where
  "ide_pio_part_read p n lba = ide_pio_read (pt_disk p) n (pt_start p + lba)"

definition ide_pio_part_write :: "ide_part \<Rightarrow> u16 list \<Rightarrow> u8 \<Rightarrow> u32 \<Rightarrow> ('a ide_state_scheme, int) op" where
  "ide_pio_part_write p ws n lba = ide_pio_write (pt_disk p) ws n (pt_start p + lba)"

definition ide_pio_ioctl :: "ide_disk \<Rightarrow> int \<Rightarrow> int res" where
  "ide_pio_ioctl d cmd = (if cmd = DEV_CMD_SECTOR_START then Inr 0 else if cmd = DEV_CMD_SECTOR_COUNT then Inr (sint (dk_total_lba d)) else Inl Panic)"

definition ide_pio_part_ioctl :: "ide_part \<Rightarrow> int \<Rightarrow> int res" where
  "ide_pio_part_ioctl p cmd =
     (if cmd = DEV_CMD_SECTOR_START then Inr (sint (pt_start p)) else if cmd = DEV_CMD_SECTOR_COUNT then Inr (sint (pt_count p)) else Inl Panic)"

subsection \<open>Finding the disks\<close>

text \<open>The strings of the identification have the bytes of each word exchanged; the last byte becomes the terminator.\<close>

fun swap_bytes :: "u8 list \<Rightarrow> u8 list" where
  "swap_bytes (a # b # xs) = b # a # swap_bytes xs"
| "swap_bytes xs = xs"

definition ide_swap_pairs :: "u8 list \<Rightarrow> u8 list res" where
  "ide_swap_pairs xs = (if odd (length xs) \<or> xs = [] then Inl Fault else Inr ((swap_bytes xs)[length xs - 1 := 0]))"

text \<open>The sector that a disk sends about itself, in words.\<close>

definition params_total_lba :: "u16 list \<Rightarrow> u32" where
  "params_total_lba ws = ucast (ws ! 60) OR push_bit 16 (ucast (ws ! 61))"

definition ide_identify :: "nat \<times> nat \<Rightarrow> ('a ide_state_scheme, u32) op" where
  "ide_identify k =
     sbind (get_ctrl (fst k)) (\<lambda>c.
     sbind (reentrant_lock (ct_lock c)) (\<lambda>_.
     sbind (ide_select_drive k) (\<lambda>_.
     sbind (outb (ct_iobase c + 7) 0xec) (\<lambda>_.
     sbind (ide_busy_wait (ct_iobase c) 0) (\<lambda>_.
     sbind (ide_pio_read_sector (ct_iobase c)) (\<lambda>ws.
     let total = params_total_lba ws
     in sbind (if total = 0 \<or> total > 0x10000000 then sret (- 1)
               else sbind (upd_disk k (\<lambda>d. d\<lparr>dk_total_lba := total, dk_cylinders := ucast (ws ! 1), dk_heads := ucast (ws ! 3),
                      dk_sectors := ucast (ws ! 6)\<rparr>)) (\<lambda>_. sret 0)) (\<lambda>ret.
        sbind (reentrant_unlock (ct_lock c)) (\<lambda>_. sret ret))))))))"

text \<open>Entry \<open>i\<close> of the partition table, in the bytes of the boot sector.\<close>

definition part_entry :: "nat \<times> nat \<Rightarrow> u8 list \<Rightarrow> u8 list \<Rightarrow> nat \<Rightarrow> ide_part" where
  "part_entry k name boot i = \<lparr>pt_name = name @ [0x31 + of_nat i], pt_disk = k, pt_system = ucast (boot ! (446 + 16 * i + 4)),
     pt_start = get32 boot (446 + 16 * i + 8), pt_count = get32 boot (446 + 16 * i + 12)\<rparr>"

definition ide_part_init :: "nat \<times> nat \<Rightarrow> ('a ide_state_scheme, unit) op" where
  "ide_part_init k =
     sbind (get_disk k) (\<lambda>d.
     if dk_total_lba d = 0 then sret ()
     else sbind (ide_pio_read k 1 0) (\<lambda>(_, ws).
          let boot = concat (map bytes16 ws)
          in sforeach [0..<IDE_PART_NR] (\<lambda>i.
             let p = part_entry k (dk_name d) boot i
             in if pt_count p = 0 \<or> pt_system p = ucast PART_FS_EXTENDED then sret ()
                else sbind (get_disk k) (\<lambda>d. if i < length (dk_parts d) then upd_disk k (\<lambda>d. d\<lparr>dk_parts := (dk_parts d)[i := p]\<rparr>)
                  else sfail Fault))))"

definition ide_disk_init :: "nat \<times> nat \<Rightarrow> ('a ide_state_scheme, unit) op" where
  "ide_disk_init k =
     sbind (upd_disk k (\<lambda>d. d\<lparr>dk_name := [0x68, 0x64, 0x61 + of_nat (fst k) * 2 + of_nat (snd k)],
       dk_master := (snd k = 0), dk_selector := (if snd k = 0 then 0xe0 else 0xf0)\<rparr>)) (\<lambda>_.
     sbind (ide_identify k) (\<lambda>_. ide_part_init k))"

text \<open>\<open>alloc\<close> and \<open>free\<close> stand for \<open>alloc\_kpage(1)\<close> and \<open>free\_kpage\<close>, which give the page for the sectors.\<close>

definition ide_ctrl_init :: "('a ide_state_scheme, u32) op \<Rightarrow> (u32 \<Rightarrow> ('a ide_state_scheme, unit) op) \<Rightarrow> ('a ide_state_scheme, unit) op" where
  "ide_ctrl_init alloc free =
     sbind alloc (\<lambda>buf.
     sbind (sforeach [0..<IDE_CTRL_NR] (\<lambda>i.
     sbind (get_ctrl i) (\<lambda>c.
     sbind (reentrant_init (ct_lock c)) (\<lambda>_.
     let base = (if i = 0 then 0x1f0 else 0x170)
     in sbind (inb (base + 0x206)) (\<lambda>v.
        sbind (upd_ctrl i (\<lambda>c. c\<lparr>ct_name := [0x69, 0x64, 0x65, 0x30 + of_nat i], ct_active := None, ct_waiter := 0,
          ct_iobase := base, ct_control := v\<rparr>)) (\<lambda>_.
        sforeach [0..<IDE_DISK_NR] (\<lambda>d. ide_disk_init (i, d)))))))) (\<lambda>_. free buf))"

text \<open>
  The entries for the table of the devices, in the order in which they are made: a disk, then its
  partitions. \<open>install\<close> stands for \<open>device_install\<close>, with the disk or the partition as the driver's data.
\<close>

definition ide_install :: "(nat \<times> nat \<Rightarrow> nat option \<Rightarrow> u8 list \<Rightarrow> int \<Rightarrow> ('a ide_state_scheme, int) op) \<Rightarrow> ('a ide_state_scheme, unit) op" where
  "ide_install install =
     sforeach [(i, d). i \<leftarrow> [0..<IDE_CTRL_NR], d \<leftarrow> [0..<IDE_DISK_NR]] (\<lambda>k.
     sbind (get_disk k) (\<lambda>disk.
     if dk_total_lba disk = 0 then sret ()
     else sbind (install k None (dk_name disk) 0) (\<lambda>dev.
          sforeach [0..<IDE_PART_NR] (\<lambda>j.
          sbind (slift (rd (dk_parts disk) j)) (\<lambda>p.
          if pt_count p = 0 then sret () else sbind (install k (Some j) (pt_name p) dev) (\<lambda>_. sret ()))))))"

definition ide_init :: "('a ide_state_scheme, u32) op \<Rightarrow> (u32 \<Rightarrow> ('a ide_state_scheme, unit) op) \<Rightarrow> u32 \<Rightarrow> (nat \<times> nat \<Rightarrow> nat option \<Rightarrow> u8 list \<Rightarrow> int \<Rightarrow> ('a ide_state_scheme, int) op) \<Rightarrow> ('a ide_state_scheme, unit) op" where
  "ide_init alloc free handler install =
     sbind (ide_ctrl_init alloc free) (\<lambda>_.
     sbind (ide_install install) (\<lambda>_.
     sbind (set_interrupt_handler 14 handler) (\<lambda>_.
     sbind (set_interrupt_handler 15 handler) (\<lambda>_.
     sbind (set_interrupt_mask 14 True) (\<lambda>_.
     sbind (set_interrupt_mask 15 True) (\<lambda>_. set_interrupt_mask 2 True))))))"

end
