(* ===== verification/Ata.thy ===== *)
theory Ata
  imports Ide Tasks
begin

text \<open>
  The disk driver against a disk. The disk behind the ports of a controller is described by what its
  registers mean: which sector is addressed (\<open>ata_sector\<close>), and how many words have been transferred since the
  last command (\<open>ata_count\<close>), both read off the history of the accesses; the data register then gives the
  words of the addressed sectors one after the other.
\<close>

unbundle bit_operations_syntax

fun last_out :: "u16 \<Rightarrow> io_event list \<Rightarrow> u8" where
  "last_out p [] = 0"
| "last_out p (Out q v # t) = (if q = p then v else last_out p t)"
| "last_out p (_ # t) = last_out p t"

text \<open>The slave disk or the master, and the first sector of the transfer.\<close>

definition ata_slave :: "u16 \<Rightarrow> io_event list \<Rightarrow> bool" where
  "ata_slave base t = bit (last_out (base + 6) t) 4"

definition ata_sector :: "u16 \<Rightarrow> io_event list \<Rightarrow> u32" where
  "ata_sector base t = ucast (last_out (base + 3) t) OR push_bit 8 (ucast (last_out (base + 4) t)) OR
     push_bit 16 (ucast (last_out (base + 5) t)) OR push_bit 24 (ucast (last_out (base + 6) t AND 0xf))"

fun ata_count :: "u16 \<Rightarrow> io_event list \<Rightarrow> nat" where
  "ata_count base [] = 0"
| "ata_count base (Out q v # t) = (if q = base + 7 then 0 else ata_count base t)"
| "ata_count base (InW q v # t) = (if q = base then Suc (ata_count base t) else ata_count base t)"
| "ata_count base (_ # t) = ata_count base t"

text \<open>
  The words of the last reading command (\<open>0x20\<close>) that are still to be fetched; a sector count of 0 means 256. After a
  command, and after each sector, the host has to see the status without BSY (bit 7) and with DRQ (bit 3) before it fetches.
\<close>

fun ata_left :: "u16 \<Rightarrow> io_event list \<Rightarrow> nat" where
  "ata_left base [] = 0"
| "ata_left base (Out q v # t) = (if q = base + 7
     then (if v = 0x20 then 256 * (let c = unat (last_out (base + 2) t) in if c = 0 then 256 else c) else 0) else ata_left base t)"
| "ata_left base (InW q v # t) = (if q = base then ata_left base t - 1 else ata_left base t)"
| "ata_left base (_ # t) = ata_left base t"

fun ata_drq :: "u16 \<Rightarrow> io_event list \<Rightarrow> bool" where
  "ata_drq base [] = False"
| "ata_drq base (Out q v # t) = (q \<noteq> base + 7 \<and> ata_drq base t)"
| "ata_drq base (InW q v # t) = (ata_drq base t \<and> (q = base \<longrightarrow> Suc (ata_count base t) mod 256 \<noteq> 0))"
| "ata_drq base (In q v # t) = (if q = base + 0x206 then v AND 0x80 = 0 \<and> v AND 0x08 = 0x08 else ata_drq base t)"
| "ata_drq base (_ # t) = ata_drq base t"

text \<open>One turn of the loop that waits: the status is read, and the error register when the status asks for it.\<close>

definition ata_status :: "u16 \<Rightarrow> 'a ports_scheme \<Rightarrow> io_event list \<Rightarrow> u8" where
  "ata_status base s t = ucast (p_dev s t (base + 0x206))"

definition ata_poll :: "u16 \<Rightarrow> 'a ports_scheme \<Rightarrow> io_event list \<Rightarrow> io_event list" where
  "ata_poll base s t = (let v = ata_status base s t; t' = In (base + 0x206) v # t
     in if v AND 0x01 \<noteq> 0 then In (base + 1) (ucast (p_dev s t' (base + 1))) # t' else t')"

definition ata_polls :: "u16 \<Rightarrow> 'a ports_scheme \<Rightarrow> nat \<Rightarrow> io_event list \<Rightarrow> io_event list" where
  "ata_polls base s n t = (ata_poll base s ^^ n) t"

text \<open>
  The protocol of a controller whose disks have the words \<open>w\<close> (by disk, sector and place in the sector): after any history
  it is busy for a number of turns only and then ready, with DRQ when words of a reading command are to be fetched; and a word
  that is fetched after DRQ was seen is the next one of the addressed sectors.
\<close>

definition ata_ready :: "u16 \<Rightarrow> (bool \<Rightarrow> u32 \<Rightarrow> nat \<Rightarrow> u16) \<Rightarrow> 'a ports_scheme \<Rightarrow> bool" where
  "ata_ready base w s \<longleftrightarrow>
     (\<forall>t. \<exists>n. (\<forall>i<n. ata_status base s (ata_polls base s i t) AND 0x80 \<noteq> 0) \<and>
        (let v = ata_status base s (ata_polls base s n t)
         in v AND 0x80 = 0 \<and> v AND 0x40 = 0x40 \<and> (0 < ata_left base t \<longrightarrow> v AND 0x08 = 0x08))) \<and>
     (\<forall>t. 0 < ata_left base t \<longrightarrow> ata_drq base t \<longrightarrow>
        p_dev s t base = w (ata_slave base t) (ata_sector base t + of_nat (ata_count base t div 256)) (ata_count base t mod 256))"

text \<open>What the history says about the transfer.\<close>

definition ata_view :: "u16 \<Rightarrow> io_event list \<Rightarrow> bool \<times> u32 \<times> nat \<times> nat" where
  "ata_view base t = (ata_slave base t, ata_sector base t, ata_count base t, ata_left base t)"

lemma ata_view_poll [simp]: "ata_view base (ata_poll base s t) = ata_view base t"
  by (simp add: ata_poll_def Let_def ata_view_def ata_slave_def ata_sector_def)

lemma ata_view_polls [simp]: "ata_view base (ata_polls base s n t) = ata_view base t"
  by (induction n) (simp_all add: ata_polls_def)

lemma ata_dev_cong:
  assumes "p_dev s' = p_dev s"
  shows "ata_status base s' = ata_status base s" "ata_poll base s' = ata_poll base s"
    "ata_polls base s' = ata_polls base s" "ata_ready base w s' = ata_ready base w s"
proof -
  show 1: "ata_status base s' = ata_status base s" using assms by (simp add: ata_status_def [abs_def])
  then show 2: "ata_poll base s' = ata_poll base s" using assms by (intro ext) (simp add: ata_poll_def Let_def)
  then show 3: "ata_polls base s' = ata_polls base s" by (simp add: ata_polls_def [abs_def])
  show "ata_ready base w s' = ata_ready base w s" by (simp add: ata_ready_def 1 3 assms)
qed

lemma ata_trace_simps [simp]:
  "ata_status base (s\<lparr>p_trace := t\<rparr>) = ata_status base s" "ata_poll base (s\<lparr>p_trace := t\<rparr>) = ata_poll base s"
  "ata_polls base (s\<lparr>p_trace := t\<rparr>) = ata_polls base s" "ata_ready base w (s\<lparr>p_trace := t\<rparr>) = ata_ready base w s"
  using ata_dev_cong [of "s\<lparr>p_trace := t\<rparr>" s] by simp_all

lemma busy_turn:
  "busy_loop base m s =
     (let v = ata_status base s (p_trace s); s' = s\<lparr>p_trace := ata_poll base s (p_trace s)\<rparr>
      in if v AND 0x80 = 0 \<and> v AND m = m then Some (Inr ((), s')) else busy_loop base m s')"
  by (subst busy_loop.simps)
    (simp add: inb_def ide_error_def ata_status_def ata_poll_def Let_def)

lemma busy_turns:
  assumes "\<forall>i<n. ata_status base s (ata_polls base s i (p_trace s)) AND 0x80 \<noteq> 0"
    and "v = ata_status base s (ata_polls base s n (p_trace s))" "v AND 0x80 = 0" "v AND m = m"
  shows "busy_loop base m s = Some (Inr ((), s\<lparr>p_trace := ata_polls base s (Suc n) (p_trace s)\<rparr>))"
  using assms
proof (induction n arbitrary: s)
  case 0
  then show ?case by (subst busy_turn) (simp add: Let_def ata_polls_def)
next
  case (Suc n)
  let ?s = "s\<lparr>p_trace := ata_poll base s (p_trace s)\<rparr>"
  have shift: "ata_polls base s i (ata_poll base s t) = ata_polls base s (Suc i) t" for i t
    by (simp add: ata_polls_def funpow_swap1)
  have "ata_status base s (p_trace s) AND 0x80 \<noteq> 0" using Suc.prems(1) by (auto simp: ata_polls_def)
  then have "busy_loop base m s = busy_loop base m ?s" by (subst busy_turn) (simp add: Let_def)
  also have "\<dots> = Some (Inr ((), ?s\<lparr>p_trace := ata_polls base ?s (Suc n) (p_trace ?s)\<rparr>))"
    using Suc.prems by (intro Suc.IH) (auto simp: shift)
  finally show ?case by (simp add: shift)
qed

text \<open>The waiting comes to its end; when words are to be fetched, DRQ has been seen.\<close>

lemma busy_wait_ready:
  assumes "ata_ready base w s" "m = 0 \<or> m = IDE_SR_DRDY \<or> m = IDE_SR_DRQ \<and> 0 < ata_left base (p_trace s)"
  shows "\<exists>t. ide_busy_wait base m s = Inr ((), s\<lparr>p_trace := t\<rparr>) \<and> ata_view base t = ata_view base (p_trace s) \<and>
    (m = IDE_SR_DRQ \<longrightarrow> ata_drq base t)"
proof -
  obtain n where n: "\<forall>i<n. ata_status base s (ata_polls base s i (p_trace s)) AND 0x80 \<noteq> 0"
    "ata_status base s (ata_polls base s n (p_trace s)) AND 0x80 = 0"
    "ata_status base s (ata_polls base s n (p_trace s)) AND 0x40 = 0x40"
    "0 < ata_left base (p_trace s) \<longrightarrow> ata_status base s (ata_polls base s n (p_trace s)) AND 0x08 = 0x08"
    using assms(1) unfolding ata_ready_def Let_def by blast
  let ?u = "ata_polls base s n (p_trace s)"
  have "ata_status base s ?u AND m = m" using n assms(2) by (auto simp: IDE_SR_DRDY_def IDE_SR_DRQ_def)
  from busy_turns [OF n(1) refl n(2) this]
  have "ide_busy_wait base m s = Inr ((), s\<lparr>p_trace := ata_polls base s (Suc n) (p_trace s)\<rparr>)"
    by (simp add: ide_busy_wait_def)
  moreover have "ata_drq base (ata_polls base s (Suc n) (p_trace s))" if "m = IDE_SR_DRQ"
    using n that assms(2) by (auto simp: ata_polls_def ata_poll_def Let_def IDE_SR_DRDY_def IDE_SR_DRQ_def)
  ultimately show ?thesis by (intro exI [of _ "ata_polls base s (Suc n) (p_trace s)"]) simp
qed

definition ata_words :: "(bool \<Rightarrow> u32 \<Rightarrow> nat \<Rightarrow> u16) \<Rightarrow> bool \<Rightarrow> u32 \<Rightarrow> nat \<Rightarrow> nat \<Rightarrow> u16 list" where
  "ata_words w sl lba i n = map (\<lambda>j. w sl (lba + of_nat (j div 256)) (j mod 256)) [i..<i + n]"

lemma ata_words_Suc: "ata_words w sl lba i (Suc n) = w sl (lba + of_nat (i div 256)) (i mod 256) # ata_words w sl lba (Suc i) n"
  by (simp add: ata_words_def upt_conv_Cons del: upt_Suc)

lemma ata_words_append: "ata_words w sl lba i n @ ata_words w sl lba (i + n) m = ata_words w sl lba i (n + m)"
  using upt_add_eq_append [of i "i + n" m] by (simp add: ata_words_def add.assoc flip: map_append)

lemma read_words_ready:
  assumes "ata_ready base w s" "ata_view base (p_trace s) = (sl, lba, i, n + l)" "ata_drq base (p_trace s)" "i mod 256 + n \<le> 256"
  shows "\<exists>t. read_words base n s = Inr (ata_words w sl lba i n, s\<lparr>p_trace := t\<rparr>) \<and> ata_view base t = (sl, lba, i + n, l)"
  using assms
proof (induction n arbitrary: s i)
  case 0
  then show ?case by (intro exI [of _ "p_trace s"]) (simp add: ata_words_def)
next
  case (Suc n)
  let ?v = "w sl (lba + of_nat (i div 256)) (i mod 256)"
  let ?s = "s\<lparr>p_trace := InW base ?v # p_trace s\<rparr>"
  have "0 < ata_left base (p_trace s)" using Suc.prems(2) by (simp add: ata_view_def)
  then have v: "inw base s = Inr (?v, ?s)"
    using Suc.prems(1-3) by (simp add: inw_def Let_def ata_ready_def ata_view_def)
  have view: "ata_view base (p_trace ?s) = (sl, lba, Suc i, n + l)"
    using Suc.prems(2) by (simp add: ata_view_def ata_slave_def ata_sector_def)
  show ?case
  proof (cases "n = 0")
    case True
    then show ?thesis using v view by (intro exI [of _ "p_trace ?s"]) (simp add: ata_words_def)
  next
    case False
    then have "Suc (i mod 256) < 256" using Suc.prems(4) by simp
    then have m: "Suc i mod 256 = Suc (i mod 256)" by (simp add: mod_Suc)
    have "ata_drq base (p_trace ?s)" using Suc.prems(2,3) m by (simp add: ata_view_def)
    from Suc.IH [OF _ view this] Suc.prems(1,4) m obtain t where
      t: "read_words base n ?s = Inr (ata_words w sl lba (Suc i) n, ?s\<lparr>p_trace := t\<rparr>)" "ata_view base t = (sl, lba, Suc i + n, l)"
      by auto
    then show ?thesis using v by (intro exI [of _ t]) (simp add: ata_words_Suc)
  qed
qed

text \<open>Before the tasks run, or when the caller is not marked as running, the driver polls.\<close>

lemma read_sectors_ready:
  assumes "ata_ready base w s" "ata_view base (p_trace s) = (sl, lba, 256 * i, 256 * n)"
    and "current s \<noteq> 0" "t_state (pcb s (current s)) \<noteq> TASK_RUNNING"
  shows "\<exists>t. read_sectors c base n s = Inr (ata_words w sl lba (256 * i) (256 * n), s\<lparr>p_trace := t\<rparr>)"
  using assms
proof (induction n arbitrary: s i)
  case 0
  then show ?case by (intro exI [of _ "p_trace s"]) (simp add: ata_words_def)
next
  case (Suc n)
  have sleep: "ide_sleep c s = Inr (False, s)" using Suc.prems(3,4) by (simp add: ide_sleep_def get_task_def)
  have "0 < ata_left base (p_trace s)" using Suc.prems(2) by (simp add: ata_view_def)
  with busy_wait_ready [OF Suc.prems(1), of IDE_SR_DRQ] obtain r where
    busy: "ide_busy_wait base IDE_SR_DRQ s = Inr ((), s\<lparr>p_trace := r\<rparr>)" "ata_view base r = ata_view base (p_trace s)" "ata_drq base r"
    by blast
  from read_words_ready [of base w "s\<lparr>p_trace := r\<rparr>" sl lba "256 * i" 256 "256 * n"] Suc.prems(1,2) busy(2,3) obtain t where
    t: "read_words base 256 (s\<lparr>p_trace := r\<rparr>) = Inr (ata_words w sl lba (256 * i) 256, s\<lparr>p_trace := t\<rparr>)"
      "ata_view base t = (sl, lba, 256 * i + 256, 256 * n)"
    by auto
  obtain u where "read_sectors c base n (s\<lparr>p_trace := t\<rparr>) = Inr (ata_words w sl lba (256 * i + 256) (256 * n), s\<lparr>p_trace := u\<rparr>)"
    using Suc.IH [of "s\<lparr>p_trace := t\<rparr>" "Suc i"] Suc.prems(1,3,4) t(2) by (auto simp: add.commute)
  moreover have "ata_words w sl lba (256 * i) 256 @ ata_words w sl lba (256 * i + 256) (256 * n) = ata_words w sl lba (256 * i) (256 * Suc n)"
    by (subst ata_words_append) simp
  ultimately show ?case using sleep busy(1) t(1)
    by (intro exI [of _ u]) (simp add: ide_pio_read_sector_def del: read_words.simps)
qed

subsection \<open>Addressing\<close>

lemma lba_bytes:
  assumes "lba < 2 ^ 28" "sel \<in> {0xe0, 0xf0}"
  shows "ucast (ucast (lba AND 0xff) :: u8) OR push_bit 8 (ucast (ucast (drop_bit 8 lba AND 0xff) :: u8)) OR
    push_bit 16 (ucast (ucast (drop_bit 16 lba AND 0xff) :: u8)) OR
    push_bit 24 (ucast ((ucast ((drop_bit 24 lba AND 0xf) OR ucast (sel :: u8)) :: u8) AND 0xf)) = (lba :: u32)" (is "?l = _")
    "bit ((ucast ((drop_bit 24 lba AND 0xf) OR ucast sel)) :: u8) 4 = (sel = 0xf0)"
proof -
  have m: "(0xff :: u32) = mask 8" "(0xf :: u32) = mask 4" "(0xf :: u8) = mask 4" by (simp_all add: mask_eq_exp_minus_1)
  have s: "\<not> bit sel 0" "\<not> bit sel 1" "\<not> bit sel 2" "\<not> bit sel 3" "bit sel 4 = (sel = 0xf0)"
    using assms(2) by auto
  have lt: "n < 4 \<Longrightarrow> \<not> bit sel n" for n
  proof -
    assume "n < 4"
    then have "n = 0 \<or> n = 1 \<or> n = 2 \<or> n = 3" by linarith
    with s show "\<not> bit sel n" by blast
  qed
  have "uint lba < 2 ^ 28" using assms(1) by (simp add: word_less_def)
  then have "uint (take_bit 28 lba) = uint lba" by (simp add: unsigned_take_bit_eq take_bit_int_eq_self)
  then have "take_bit 28 lba = lba" by (simp only: word_uint_eq_iff)
  then have hi: "bit lba n \<Longrightarrow> n < 28" for n by (metis bit_take_bit_iff)
  show "?l = lba"
  proof (rule bit_word_eqI)
    fix n assume n: "n < LENGTH(32)"
    consider "n < 8" | "8 \<le> n" "n < 16" | "16 \<le> n" "n < 24" | "24 \<le> n" "n < 28" | "28 \<le> n" by linarith
    then show "bit ?l n = bit lba n"
    proof cases
      case 5
      then show ?thesis using hi [of n] n lt unfolding m by (auto simp: bit_simps)
    qed (use n lt [of "n - 24"] in \<open>auto simp: m bit_simps\<close>)
  qed
  show "bit ((ucast ((drop_bit 24 lba AND 0xf) OR ucast sel)) :: u8) 4 = (sel = 0xf0)"
    unfolding m using s(5) by (simp add: bit_simps)
qed

lemma select_view:
  assumes "lba < 2 ^ 28" "sel = (if sl then 0xf0 else 0xe0 :: u8)" "0 < n"
  shows "ata_view base (Out (base + 7) 0x20 # Out (base + 6) (ucast ((drop_bit 24 lba AND 0xf) OR ucast sel)) #
      Out (base + 5) (ucast (drop_bit 16 lba AND 0xff)) # Out (base + 4) (ucast (drop_bit 8 lba AND 0xff)) #
      Out (base + 3) (ucast (lba AND 0xff)) # Out (base + 2) n # t) = (sl, lba, 0, 256 * unat n)"
proof -
  have sel: "sel \<in> {0xe0, 0xf0}" "sel = 0xf0 \<longleftrightarrow> sl" using assms(2) by auto
  show ?thesis
    using lba_bytes [OF assms(1) sel(1)] sel(2) assms(3)
    by (simp add: ata_view_def ata_slave_def ata_sector_def Let_def unat_gt_0 unat_eq_0)
qed

definition lock_free :: "u32 \<Rightarrow> 'a msched_scheme \<Rightarrow> bool" where
  "lock_free l s \<longleftrightarrow> lock_holder s l \<noteq> current s \<and> lock_repeat s l = 0 \<and> \<not> mutex_value s (l + 4) \<and>
     list_empty (heap s) (waiters (l + 4)) = Inr True"

lemma lock_taken:
  "lock_free l s \<Longrightarrow> reentrant_lock l s = Inr ((), s\<lparr>mutex_value := (mutex_value s)(l + 4 := True),
     lock_holder := (lock_holder s)(l := current s), lock_repeat := (lock_repeat s)(l := 1)\<rparr>)"
  by (simp add: lock_free_def reentrant_lock_def mutex_lock_def mutex_attempt_def interrupt_disable_def set_interrupt_state_def
      set_mutex_def set_holder_def set_repeat_def)

lemma lock_released:
  assumes "lock_holder s l = current s" "lock_repeat s l = 1" "mutex_value s (l + 4)" "list_empty (heap s) (waiters (l + 4)) = Inr True"
  shows "\<exists>s'. reentrant_unlock l s = Inr ((), s')"
  using assms by (simp add: reentrant_unlock_def mutex_unlock_def interrupt_disable_def set_interrupt_state_def
      set_mutex_def set_holder_def set_repeat_def)

lemma select_sector_run:
  assumes k: "fst k < length (controllers s)" "snd k < length (ct_disks c)" "c = controllers s ! fst k" "base = ct_iobase c"
    and sel: "dk_selector (ct_disks c ! snd k) = (if sl then 0xf0 else 0xe0)" and lba: "lba < 2 ^ 28"
    and r: "ata_ready base w s" and n: "0 < n"
  shows "\<exists>t cs. sbind (ide_select_drive k) (\<lambda>_. sbind (ide_busy_wait base IDE_SR_DRDY) (\<lambda>_. sbind (ide_select_sector k lba n) (\<lambda>_.
      outb (base + 7) 0x20))) s = Inr ((), s\<lparr>p_trace := t, controllers := cs\<rparr>) \<and> ata_view base t = (sl, lba, 0, 256 * unat n)"
proof -
  let ?c = "c\<lparr>ct_active := Some (snd k)\<rparr>"
  let ?s1 = "s\<lparr>p_trace := Out (base + 6) (dk_selector (ct_disks c ! snd k)) # p_trace s, controllers := (controllers s)[fst k := ?c]\<rparr>"
  have 1: "ide_select_drive k s = Inr ((), ?s1)"
    using k by (simp add: ide_select_drive_def get_disk_def get_ctrl_def upd_ctrl_def outb_run)
  have "ata_ready base w ?s1" using r ata_dev_cong(4) [of ?s1 s] by simp
  from busy_wait_ready [OF this, of IDE_SR_DRDY] obtain u where
    2: "ide_busy_wait base IDE_SR_DRDY ?s1 = Inr ((), ?s1\<lparr>p_trace := u\<rparr>)" by blast
  let ?s2 = "?s1\<lparr>p_trace := u\<rparr>"
  let ?sel = "dk_selector (ct_disks c ! snd k)"
  let ?t = "Out (base + 7) 0x20 # Out (base + 6) (ucast ((drop_bit 24 lba AND 0xf) OR ucast ?sel)) #
      Out (base + 5) (ucast (drop_bit 16 lba AND 0xff)) # Out (base + 4) (ucast (drop_bit 8 lba AND 0xff)) #
      Out (base + 3) (ucast (lba AND 0xff)) # Out (base + 2) n # Out (base + 1) 0 # p_trace ?s2"
  have 3: "sbind (ide_select_sector k lba n) (\<lambda>_. outb (base + 7) 0x20) ?s2 =
      Inr ((), s\<lparr>p_trace := ?t, controllers := (controllers s)[fst k := ?c]\<rparr>)"
    using k by (simp add: ide_select_sector_def get_disk_def get_ctrl_def upd_ctrl_def outb_run)
  have "ata_view base ?t = (sl, lba, 0, 256 * unat n)" by (rule select_view [OF lba sel n])
  then show ?thesis
    by (intro exI [of _ ?t] exI [of _ "(controllers s)[fst k := ?c]"] conjI)
      (simp only: sbind_run [of "ide_select_drive k", OF 1] sbind_run [of "ide_busy_wait base IDE_SR_DRDY", OF 2] 3)
qed


text \<open>A controller with a master and a slave whose words are their numbers; it is busy when its status is read for the first time.\<close>

definition disk_words :: "bool \<Rightarrow> u32 \<Rightarrow> nat \<Rightarrow> u16" where
  "disk_words sl lba j = (if sl then 0x8000 else 0) + ucast lba * 256 + of_nat j"

definition ata0 :: ide_state where
  "ata0 = msched.extend (mutex0\<lparr>p_dev := (\<lambda>t p. if p = 0x1f0
      then disk_words (ata_slave 0x1f0 t) (ata_sector 0x1f0 t + of_nat (ata_count 0x1f0 t div 256)) (ata_count 0x1f0 t mod 256)
      else if p = 0x3f6 then (case t of In q v # _ \<Rightarrow> if q = 0x3f6 then 0x48 else 0x80 | _ \<Rightarrow> 0x80) else 0), pcb := (\<lambda>_. blank_task)\<rparr>)
     \<lparr>controllers = [\<lparr>ct_name = [], ct_lock = 0x6fc, ct_iobase = 0x1f0, ct_disks = map (\<lambda>sel.
        \<lparr>dk_name = [], dk_selector = sel, dk_master = (sel = 0xe0), dk_total_lba = 100, dk_cylinders = 0, dk_heads = 0,
         dk_sectors = 0, dk_parts = []\<rparr>) [0xe0, 0xf0], ct_active = None, ct_control = 0, ct_waiter = 0\<rparr>]\<rparr>"


end
