(* ===== verification/Serial.thy ===== *)
theory Serial
  imports Mutex Fifo
begin

text \<open>
  The serial ports \<open>src/src/kernel/serial.c\<close>: a queue of received characters and a reader and a writer
  that sleep, for each of the two ports. A lock is named by its address; a queue carries the array
  \<open>rx\_buf\<close> that belongs to it. The loops are cut where the task is put to sleep.
\<close>

unbundle bit_operations_syntax

definition IRQ_SERIAL_1 :: u32 where "IRQ_SERIAL_1 = 4"
definition IRQ_SERIAL_2 :: u32 where "IRQ_SERIAL_2 = 3"
definition LSR_DR :: u8 where "LSR_DR = 0x1"
definition LSR_THRE :: u8 where "LSR_THRE = 0x20"
definition BUF_LEN :: u32 where "BUF_LEN = 64"

record serial =
  sr_iobase :: u16
  sr_rx_fifo :: fifo
  sr_rlock :: u32
  sr_rx_waiter :: u32
  sr_wlock :: u32
  sr_tx_waiter :: u32

record serial_state = msched +
  serials :: "serial list"

definition get_serial :: "nat \<Rightarrow> ('a serial_state_scheme, serial) op" where
  "get_serial i = (\<lambda>s. rbind (rd (serials s) i) (\<lambda>x. Inr (x, s)))"

definition upd_serial :: "nat \<Rightarrow> (serial \<Rightarrow> serial) \<Rightarrow> ('a serial_state_scheme, unit) op" where
  "upd_serial i f = (\<lambda>s. rbind (rd (serials s) i) (\<lambda>x. Inr ((), s\<lparr>serials := (serials s)[i := f x]\<rparr>)))"

definition recv_data :: "nat \<Rightarrow> ('a serial_state_scheme, unit) op" where
  "recv_data i =
     sbind (get_serial i) (\<lambda>p.
     sbind (inb (sr_iobase p)) (\<lambda>ch.
     let ch = (if ch = 0x0d then 0x0a else ch)
     in sbind (slift (fifo_put (sr_rx_fifo p) ch)) (\<lambda>f.
        sbind (upd_serial i (sr_rx_fifo_update (\<lambda>_. f))) (\<lambda>_.
        if sr_rx_waiter p \<noteq> 0
        then sbind (task_unblock (sr_rx_waiter p)) (\<lambda>_. upd_serial i (sr_rx_waiter_update (\<lambda>_. 0)))
        else sret ()))))"

text \<open>The index is computed without sign: for the second port it is not one of the array.\<close>

definition serial_handler :: "int \<Rightarrow> ('a serial_state_scheme, unit) op" where
  "serial_handler vector =
     (let irq = word_of_int (vector - 0x20); i = unat (irq - IRQ_SERIAL_1)
      in sbind (sensure (irq = IRQ_SERIAL_1 \<or> irq = IRQ_SERIAL_2)) (\<lambda>_.
         sbind (send_eoi vector) (\<lambda>_.
         sbind (get_serial i) (\<lambda>p.
         sbind (inb (sr_iobase p + 5)) (\<lambda>state.
         sbind (if state AND LSR_DR \<noteq> 0 then recv_data i else sret ()) (\<lambda>_.
         sbind (get_serial i) (\<lambda>p.
         if state AND LSR_THRE \<noteq> 0 \<and> sr_tx_waiter p \<noteq> 0
         then sbind (task_unblock (sr_tx_waiter p)) (\<lambda>_. upd_serial i (sr_tx_waiter_update (\<lambda>_. 0)))
         else sret ())))))))"

subsection \<open>Reading and writing\<close>

text \<open>One turn of the loop of a reader, and of a writer; \<open>None\<close> and \<open>False\<close> when the task is put to sleep.\<close>

definition rx_get :: "nat \<Rightarrow> ('a serial_state_scheme, u8 option) op" where
  "rx_get i =
     sbind (get_serial i) (\<lambda>p.
     if fifo_empty (sr_rx_fifo p) then
       sbind (sensure (sr_rx_waiter p = 0)) (\<lambda>_.
       sbind (sget current) (\<lambda>task.
       sbind (upd_serial i (sr_rx_waiter_update (\<lambda>_. task))) (\<lambda>_.
       sbind (task_block task 0 TASK_BLOCKED) (\<lambda>_. sret None))))
     else sbind (slift (fifo_get (sr_rx_fifo p))) (\<lambda>(c, f).
          sbind (upd_serial i (sr_rx_fifo_update (\<lambda>_. f))) (\<lambda>_. sret (Some c))))"

primrec rx_get_n :: "nat \<Rightarrow> nat \<Rightarrow> ('a serial_state_scheme, u8 list) op" where
  "rx_get_n i 0 = sret []"
| "rx_get_n i (Suc n) =
     sbind (rx_get i) (\<lambda>r. case r of None \<Rightarrow> sfail Blocked | Some c \<Rightarrow> sbind (rx_get_n i n) (\<lambda>cs. sret (c # cs)))"

definition serial_read :: "nat \<Rightarrow> u32 \<Rightarrow> ('a serial_state_scheme, u32 \<times> u8 list) op" where
  "serial_read i count =
     sbind (get_serial i) (\<lambda>p.
     sbind (reentrant_lock (sr_rlock p)) (\<lambda>_.
     sbind (rx_get_n i (unat count)) (\<lambda>cs.
     sbind (reentrant_unlock (sr_rlock p)) (\<lambda>_. sret (count, cs)))))"

definition tx_put :: "nat \<Rightarrow> u8 list \<Rightarrow> nat \<Rightarrow> ('a serial_state_scheme, bool) op" where
  "tx_put i buf nr =
     sbind (get_serial i) (\<lambda>p.
     sbind (inb (sr_iobase p + 5)) (\<lambda>state.
     if state AND LSR_THRE \<noteq> 0
     then sbind (slift (rd buf nr)) (\<lambda>ch. sbind (outb (sr_iobase p) ch) (\<lambda>_. sret True))
     else sbind (sget current) (\<lambda>task.
          sbind (upd_serial i (sr_tx_waiter_update (\<lambda>_. task))) (\<lambda>_.
          sbind (task_block task 0 TASK_BLOCKED) (\<lambda>_. sret False)))))"

primrec tx_put_n :: "nat \<Rightarrow> u8 list \<Rightarrow> nat \<Rightarrow> nat \<Rightarrow> ('a serial_state_scheme, unit) op" where
  "tx_put_n i buf nr 0 = sret ()"
| "tx_put_n i buf nr (Suc n) = sbind (tx_put i buf nr) (\<lambda>ok. if ok then tx_put_n i buf (nr + 1) n else sfail Blocked)"

definition serial_write :: "nat \<Rightarrow> u8 list \<Rightarrow> u32 \<Rightarrow> ('a serial_state_scheme, u32) op" where
  "serial_write i buf count =
     sbind (get_serial i) (\<lambda>p.
     sbind (reentrant_lock (sr_wlock p)) (\<lambda>_.
     sbind (tx_put_n i buf 0 (unat count)) (\<lambda>_.
     sbind (reentrant_unlock (sr_wlock p)) (\<lambda>_. sret count))))"

subsection \<open>Finding the ports\<close>

text \<open>The settings of a port, and the test in the loop back mode: does the byte come back?\<close>

definition serial_probe :: "u16 \<Rightarrow> ('a ports_scheme, bool) op" where
  "serial_probe base =
     sbind (sforeach [(3, 0x80), (0, 0x30), (1, 0x00), (3, 0x03), (1, 0x0d), (4, 0x1b), (0, 0xae)] (\<lambda>(r, v). outb (base + r) v)) (\<lambda>_.
     sbind (inb base) (\<lambda>v. sret (v = 0xae)))"

text \<open>\<open>install\<close> enters port \<open>i\<close> in the table of the devices, under its name.\<close>

definition serial_init_port ::
  "u32 \<Rightarrow> (nat \<Rightarrow> u8 list \<Rightarrow> ('a serial_state_scheme, unit) op) \<Rightarrow> nat \<Rightarrow> ('a serial_state_scheme, unit) op" where
  "serial_init_port handler install i =
     sbind (upd_serial i (\<lambda>p. p\<lparr>sr_rx_fifo := fifo_init (f_buf (sr_rx_fifo p)) BUF_LEN, sr_rx_waiter := 0\<rparr>)) (\<lambda>_.
     sbind (get_serial i) (\<lambda>p.
     sbind (reentrant_init (sr_rlock p)) (\<lambda>_.
     sbind (upd_serial i (sr_tx_waiter_update (\<lambda>_. 0))) (\<lambda>_.
     sbind (reentrant_init (sr_wlock p)) (\<lambda>_.
     let irq = (if i = 0 then IRQ_SERIAL_1 else IRQ_SERIAL_2); base = (if i = 0 then 0x3f8 else 0x2f8)
     in sbind (upd_serial i (sr_iobase_update (\<lambda>_. base))) (\<lambda>_.
        sbind (serial_probe base) (\<lambda>ok.
        if \<not> ok then sret ()
        else sbind (outb (base + 4) 0x0b) (\<lambda>_.
             sbind (set_interrupt_handler irq handler) (\<lambda>_.
             sbind (set_interrupt_mask irq True) (\<lambda>_.
             install i [0x63, 0x6f, 0x6d, 0x31 + of_nat i]))))))))))"

definition serial_init :: "u32 \<Rightarrow> (nat \<Rightarrow> u8 list \<Rightarrow> ('a serial_state_scheme, unit) op) \<Rightarrow> ('a serial_state_scheme, unit) op" where
  "serial_init handler install = sforeach [0, 1] (serial_init_port handler install)"

subsection \<open>What is sent and received\<close>

text \<open>A port that is always ready to send.\<close>

definition tx_ready :: "u16 \<Rightarrow> 'a ports_scheme \<Rightarrow> bool" where
  "tx_ready base s \<longleftrightarrow> (\<forall>t. (ucast (p_dev s t (base + 5)) :: u8) AND LSR_THRE \<noteq> 0)"

lemma tx_put_n_sends:
  assumes "i < length (serials s)" "sr_iobase (serials s ! i) = base" "tx_ready base s" "nr + n \<le> length buf"
  shows "\<exists>t. tx_put_n i buf nr n s = Inr ((), s\<lparr>p_trace := t\<rparr>) \<and> sent base t = sent base (p_trace s) @ take n (drop nr buf)"
  using assms
proof (induction n arbitrary: s nr)
  case 0
  then show ?case by (intro exI [of _ "p_trace s"]) simp
next
  case (Suc n)
  define s1 where "s1 = s\<lparr>p_trace := Out base (buf ! nr) # In (base + 5) (ucast (p_dev s (p_trace s) (base + 5))) # p_trace s\<rparr>"
  have "tx_put i buf nr s = Inr (True, s1)"
    using Suc.prems by (simp add: tx_put_def get_serial_def inb_def outb_run tx_ready_def s1_def Let_def)
  moreover from Suc.IH [of s1 "nr + 1"] Suc.prems obtain t where
    "tx_put_n i buf (nr + 1) n s1 = Inr ((), s1\<lparr>p_trace := t\<rparr>)" "sent base t = sent base (p_trace s1) @ take n (drop (nr + 1) buf)"
    by (auto simp: s1_def tx_ready_def)
  moreover have "take (Suc n) (drop nr buf) = buf ! nr # take n (drop (nr + 1) buf)"
    using Suc.prems by (simp add: Cons_nth_drop_Suc [symmetric])
  ultimately show ?case by (intro exI [of _ t]) (simp add: s1_def)
qed

text \<open>A received character goes to the end of the queue of its port, a carriage return as a line feed.\<close>

lemma recv_data_queue:
  assumes "i < length (serials s)" "p = serials s ! i" "fifo_wf (sr_rx_fifo p)" "sr_rx_waiter p = 0"
    and "c = ucast (p_dev s (p_trace s) (sr_iobase p))" "d = (if c = 0x0d then 0x0a else c)"
  shows "\<exists>f. recv_data i s = Inr ((), s\<lparr>p_trace := In (sr_iobase p) c # p_trace s, serials := (serials s)[i := p\<lparr>sr_rx_fifo := f\<rparr>]\<rparr>) \<and>
    fifo_wf f \<and> fifo_list f =
      (if length (fifo_list (sr_rx_fifo p)) = fifo_cap (sr_rx_fifo p) then tl (fifo_list (sr_rx_fifo p)) else fifo_list (sr_rx_fifo p)) @ [d]"
proof -
  from fifo_put_wf [OF assms(3), of d] obtain f where
    f: "fifo_put (sr_rx_fifo p) d = Inr f" "fifo_wf f" "fifo_list f =
      (if length (fifo_list (sr_rx_fifo p)) = fifo_cap (sr_rx_fifo p) then tl (fifo_list (sr_rx_fifo p)) else fifo_list (sr_rx_fifo p)) @ [d]"
    by blast
  have "get_serial i s = Inr (p, s)" using assms(1,2) by (simp add: get_serial_def)
  moreover have "inb (sr_iobase p) s = Inr (c, s\<lparr>p_trace := In (sr_iobase p) c # p_trace s\<rparr>)"
    by (simp add: inb_def Let_def assms(5))
  ultimately have "recv_data i s = Inr ((), s\<lparr>p_trace := In (sr_iobase p) c # p_trace s, serials := (serials s)[i := p\<lparr>sr_rx_fifo := f\<rparr>]\<rparr>)"
    using assms(1,2,4) f(1) by (simp add: recv_data_def Let_def assms(6) [symmetric] upd_serial_def)
  with f(2,3) show ?thesis by blast
qed

text \<open>The interrupt of the second port reaches outside the array.\<close>

lemma serial_handler_com2:
  assumes "length (serials s) = 2"
  shows "serial_handler 0x23 s = Inl Fault"
proof -
  have "unat (- 1 :: u32) = 4294967295" by (simp add: unsigned_minus_1_eq_mask mask_eq_exp_minus_1)
  then show ?thesis using assms
    by (simp add: serial_handler_def IRQ_SERIAL_1_def IRQ_SERIAL_2_def send_eoi_def get_serial_def outb_run Let_def rd_def)
qed

end
