(* ===== verification/Argv.thy ===== *)
theory Argv
  imports Bytes
begin

text \<open>
  The arguments of a new program: \<open>copy\_argv\_envp\<close> of \<open>src/src/kernel/execve.c\<close> builds, in four pages of
  the kernel, the top of the stack of the program: the strings, the arrays of pointers to them and the
  number of arguments. A string is the list of its characters before the terminator, an array of strings
  the list of its entries before the null pointer.
\<close>

unbundle bit_operations_syntax

text \<open>The kernel's copy of the stack: its bytes and the two stack pointers.\<close>

record arg_stack =
  as_mem :: "u8 list"
  as_ktop :: u32
  as_utop :: u32

definition count_argv :: "u8 list list option \<Rightarrow> nat" where
  "count_argv argv = (case argv of None \<Rightarrow> 0 | Some ss \<Rightarrow> length ss)"

definition push_bytes :: "u32 \<Rightarrow> u8 list \<Rightarrow> arg_stack \<Rightarrow> arg_stack res" where
  "push_bytes pages bs a =
     (let k = as_ktop a - of_nat (length bs)
      in if unat (k - pages) + length bs \<le> length (as_mem a)
         then Inr (a\<lparr>as_mem := put (as_mem a) (unat (k - pages)) bs, as_ktop := k\<rparr>) else Inl Fault)"

definition push_string :: "u32 \<Rightarrow> u8 list \<Rightarrow> arg_stack \<Rightarrow> (u32 \<times> arg_stack) res" where
  "push_string pages s a =
     rbind (push_bytes pages (s @ [0]) a) (\<lambda>b.
     let u = as_utop a - of_nat (length s + 1) in Inr (u, b\<lparr>as_utop := u\<rparr>))"

text \<open>The strings of an array, the last one first, and the addresses that they get.\<close>

primrec push_strings :: "u32 \<Rightarrow> u8 list list \<Rightarrow> arg_stack \<Rightarrow> (u32 list \<times> arg_stack) res" where
  "push_strings pages [] a = Inr ([], a)"
| "push_strings pages (s # ss) a =
     rbind (push_strings pages ss a) (\<lambda>(us, b).
     rbind (push_string pages s b) (\<lambda>(u, c). Inr (u # us, c)))"

definition words_bytes :: "u32 list \<Rightarrow> u8 list" where
  "words_bytes ws = concat (map bytes32 ws)"

text \<open>
  The page at \<open>argvk\<close> holds both arrays of pointers. The value is the bytes that are copied to the stack
  of the program, and their address.
\<close>

definition build_stack :: "u32 \<Rightarrow> u8 list \<Rightarrow> u8 list list option \<Rightarrow> u8 list list option \<Rightarrow> (u32 \<times> u8 list) res" where
  "build_stack pages filename argv envp =
     (let argc = count_argv argv + 1; envc = count_argv envp;
          a = \<lparr>as_mem = replicate 16384 0, as_ktop = pages + 4 * 0x1000, as_utop = 0x10000000\<rparr>
      in rbind (if argc + 1 + envc + 1 \<le> 1024 then Inr () else Inl Fault) (\<lambda>_.
         rbind (push_strings pages (case envp of None \<Rightarrow> [] | Some ss \<Rightarrow> ss) a) (\<lambda>(envpk, a).
         rbind (push_strings pages (case argv of None \<Rightarrow> [] | Some ss \<Rightarrow> ss) a) (\<lambda>(args, a).
         rbind (push_string pages filename a) (\<lambda>(arg0, a).
         rbind (push_bytes pages (words_bytes (envpk @ [0])) a) (\<lambda>a.
         rbind (push_bytes pages (words_bytes (arg0 # args @ [0])) a) (\<lambda>a.
         rbind (push_bytes pages (bytes32 (of_nat argc)) a) (\<lambda>a.
         rbind (if as_ktop a > pages then Inr () else Inl AssertFail) (\<lambda>_.
         let len = pages + 4 * 0x1000 - as_ktop a
         in Inr (0x10000000 - len, drop (unat (as_ktop a - pages)) (as_mem a)))))))))))"

subsection \<open>What the program finds\<close>

text \<open>
  The start of a program, \<open>\_start\<close> and \<open>\_\_libc\_start\_main\<close> of \<open>src/src/lib\<close>: at the stack pointer is the
  number of arguments, behind it their array, and the environment follows the null pointer of that array.
  The pointers are followed in the bytes \<open>img\<close> at \<open>tos\<close>.
\<close>

fun words_until_null :: "u8 list \<Rightarrow> u32 list" where
  "words_until_null (a # b # c # d # xs) = (let w = get32 [a, b, c, d] 0 in if w = 0 then [] else w # words_until_null xs)"
| "words_until_null xs = []"

definition string_at :: "u32 \<Rightarrow> u8 list \<Rightarrow> u32 \<Rightarrow> u8 list" where
  "string_at tos img p = cstring (drop (unat (p - tos)) img)"

definition libc_start_main :: "u32 \<Rightarrow> u8 list \<Rightarrow> u32 \<times> u8 list list \<times> u8 list list" where
  "libc_start_main tos img =
     (let argc = get32 img 0; argv = drop 4 img; envp = drop (4 * (unat argc + 1)) argv
      in (argc, map (string_at tos img) (words_until_null argv), map (string_at tos img) (words_until_null envp)))"

subsection \<open>The stack as a list that grows in front\<close>

definition stack_of :: "u32 \<Rightarrow> arg_stack \<Rightarrow> u8 list \<Rightarrow> bool" where
  "stack_of pages a T \<longleftrightarrow> length (as_mem a) = 16384 \<and> length T \<le> 16384 \<and>
     as_ktop a = pages + of_nat (16384 - length T) \<and> drop (16384 - length T) (as_mem a) = T"

lemma push_bytes_stack:
  assumes "stack_of pages a T" "length (bs @ T) \<le> 16384"
  shows "\<exists>b. push_bytes pages bs a = Inr b \<and> stack_of pages b (bs @ T) \<and> as_utop b = as_utop a"
proof -
  let ?n = "16384 - length (bs @ T)"
  have "of_nat (16384 - length T) = of_nat ?n + (of_nat (length bs) :: u32)"
    using assms(2) by (simp add: of_nat_add [symmetric] del: of_nat_add of_nat_diff)
  then have k: "as_ktop a - of_nat (length bs) = pages + of_nat ?n"
    using assms(1) by (simp add: stack_of_def del: of_nat_diff)
  have u: "unat (of_nat ?n :: u32) = ?n" by (simp add: unat_of_nat_32 del: of_nat_diff)
  have d: "drop (16384 - length T) (as_mem a) = T" "length (as_mem a) = 16384" "length T \<le> 16384"
    using assms(1) by (auto simp: stack_of_def)
  let ?b = "a\<lparr>as_mem := put (as_mem a) ?n bs, as_ktop := pages + of_nat ?n\<rparr>"
  have e: "?n + length bs = 16384 - length T" using assms(2) by simp
  have "push_bytes pages bs a = Inr ?b"
    using assms(2) d by (simp add: push_bytes_def Let_def k u del: of_nat_diff length_append) simp
  moreover have "drop ?n (put (as_mem a) ?n bs) = bs @ T"
    using d(1,2) by (simp add: put_def e del: length_append)
  then have "stack_of pages ?b (bs @ T)"
    using assms(2) d by (simp add: stack_of_def)
  ultimately show ?thesis by auto
qed

definition strings :: "u8 list list \<Rightarrow> u8 list" where
  "strings ss = concat (map (\<lambda>s. s @ [0]) ss)"

lemma strings_simps [simp]: "strings [] = []" "strings (s # ss) = s @ 0 # strings ss"
  "strings (ss @ ts) = strings ss @ strings ts"
  by (simp_all add: strings_def)

abbreviation below :: "u8 list \<Rightarrow> u32" where
  "below xs \<equiv> 0x10000000 - of_nat (length xs)"

text \<open>The addresses of the strings \<open>ss\<close>, pushed on \<open>T\<close>.\<close>

primrec addresses :: "u8 list \<Rightarrow> u8 list list \<Rightarrow> u32 list" where
  "addresses T [] = []"
| "addresses T (s # ss) = below (strings (s # ss) @ T) # addresses T ss"

lemma push_string_stack:
  assumes "stack_of pages a T" "as_utop a = below T" "length (s @ 0 # T) \<le> 16384"
  shows "\<exists>b. push_string pages s a = Inr (below (s @ 0 # T), b) \<and> stack_of pages b (s @ 0 # T) \<and> as_utop b = below (s @ 0 # T)"
proof -
  from push_bytes_stack [OF assms(1), of "s @ [0]"] assms(3) obtain b where
    b: "push_bytes pages (s @ [0]) a = Inr b" "stack_of pages b (s @ 0 # T)" by auto
  let ?b = "b\<lparr>as_utop := below (s @ 0 # T)\<rparr>"
  have "push_string pages s a = Inr (below (s @ 0 # T), ?b)"
    using b(1) assms(2) by (simp add: push_string_def Let_def algebra_simps)
  moreover have "stack_of pages ?b (s @ 0 # T)" using b(2) by (simp add: stack_of_def)
  ultimately show ?thesis by auto
qed

lemma push_strings_stack:
  assumes "stack_of pages a T" "as_utop a = below T" "length (strings ss @ T) \<le> 16384"
  shows "\<exists>b. push_strings pages ss a = Inr (addresses T ss, b) \<and> stack_of pages b (strings ss @ T) \<and>
    as_utop b = below (strings ss @ T)"
  using assms
proof (induction ss)
  case (Cons s ss)
  then obtain b where b: "push_strings pages ss a = Inr (addresses T ss, b)" "stack_of pages b (strings ss @ T)"
      "as_utop b = below (strings ss @ T)" by auto
  from push_string_stack [OF b(2,3), of s] Cons.prems(3) b(1) show ?case by auto
qed auto

lemma words_until_null_words:
  "0 \<notin> set ws \<Longrightarrow> words_until_null (words_bytes (ws @ [0]) @ xs) = ws"
proof (induction ws)
  case Nil
  show ?case by (simp add: words_bytes_def bytes32_def bytes16_def get32_def get16_def)
next
  case (Cons w ws)
  have "get32 (bytes32 w) 0 = w" using get32_put32 [of 0 "replicate 4 0" w] by (simp add: put_def)
  then have "get32 [ucast (ucast w :: u16), ucast (drop_bit 8 (ucast w :: u16)), ucast (ucast (drop_bit 16 w) :: u16),
      ucast (drop_bit 8 (ucast (drop_bit 16 w) :: u16))] 0 = w" by (simp add: bytes32_def bytes16_def)
  then show ?case using Cons by (simp add: words_bytes_def bytes32_def bytes16_def Let_def)
qed

lemma length_words_bytes [simp]: "length (words_bytes ws) = 4 * length ws"
  by (induction ws) (simp_all add: words_bytes_def)

lemma string_at_address:
  assumes "img = pre @ s @ 0 # rest" "length img \<le> 16384" "0 \<notin> set s"
  shows "string_at (below img) img (below (s @ 0 # rest)) = s"
proof -
  have "below (s @ 0 # rest) - below img = of_nat (length pre)" using assms(1) by simp
  moreover have "unat (of_nat (length pre) :: u32) = length pre" using assms(1,2) by (simp add: unat_of_nat_32)
  moreover have "cstring (s @ 0 # rest) = s"
    using assms(3) by (induction s) (auto simp: cstring_def)
  ultimately show ?thesis by (simp add: string_at_def assms(1))
qed

lemma strings_at_addresses:
  assumes "img = pre @ strings ss @ T" "length img \<le> 16384" "\<forall>s\<in>set ss. 0 \<notin> set s"
  shows "map (string_at (below img) img) (addresses T ss) = ss"
  using assms
proof (induction ss arbitrary: pre)
  case (Cons s ss)
  have "map (string_at (below img) img) (addresses T ss) = ss"
    using Cons.IH [of "pre @ s @ [0]"] Cons.prems by simp
  moreover have "string_at (below img) img (below (s @ 0 # (strings ss @ T))) = s"
    using Cons.prems by (intro string_at_address [of _ pre]) simp_all
  ultimately show ?case by simp
qed simp

lemma unat_below: "length xs \<le> 16384 \<Longrightarrow> unat (below xs) = 0x10000000 - length xs"
  by (subst unat_sub) (simp_all add: word_le_nat_alt unat_of_nat_32)

lemma addresses_nonzero: "length (strings ss @ T) \<le> 16384 \<Longrightarrow> 0 \<notin> set (addresses T ss)"
proof (induction ss)
  case (Cons s ss)
  have "unat (below (strings (s # ss) @ T)) \<noteq> 0"
    using unat_below [OF Cons.prems] Cons.prems by simp
  then have "below (strings (s # ss) @ T) \<noteq> 0" by (metis unat_0)
  with Cons show ?case by simp
qed simp

lemma length_addresses [simp]: "length (addresses T ss) = length ss"
  by (induction ss) simp_all

text \<open>The whole of the stack, and its size.\<close>

definition stack_image :: "u8 list list \<Rightarrow> u8 list list \<Rightarrow> u8 list" where
  "stack_image args env = bytes32 (of_nat (length args)) @ words_bytes (addresses (strings env) args @ [0]) @
     words_bytes (addresses [] env @ [0]) @ strings args @ strings env"

lemma length_stack_image:
  "length (stack_image args env) = 4 * (length args + length env + 3) + length (strings args) + length (strings env)"
  by (simp add: stack_image_def)

lemma build_stack_image:
  assumes "length (stack_image (filename # args) env) < 16384" "unat pages + 16384 < 2 ^ 32" "length args + length env \<le> 1021"
  shows "build_stack pages filename (Some args) (Some env) =
    Inr (below (stack_image (filename # args) env), stack_image (filename # args) env)"
proof -
  let ?a = "\<lparr>as_mem = replicate 16384 0, as_ktop = pages + 4 * 0x1000, as_utop = 0x10000000\<rparr>"
  define T where "T = strings (filename # args) @ strings env"
  define P where "P = words_bytes (addresses [] env @ [0])"
  define Q where "Q = words_bytes (below T # addresses (strings env) args @ [0])"
  define N where "N = bytes32 (of_nat (length args + 1))"
  define I where "I = stack_image (filename # args) env"
  have I: "I = N @ Q @ P @ T" by (simp add: I_def stack_image_def N_def Q_def P_def T_def)
  have fits: "4 * (length args + length env + 4) + length T < 16384" "length I < 16384"
    using assms(1) by (simp_all add: length_stack_image T_def I_def)
  have "stack_of pages ?a []" by (simp add: stack_of_def)
  from push_strings_stack [OF this, of env] fits obtain b where
    1: "push_strings pages env ?a = Inr (addresses [] env, b)" "stack_of pages b (strings env)" "as_utop b = below (strings env)"
    by (auto simp: T_def)
  from push_strings_stack [OF 1(2,3), of args] fits obtain c where
    2: "push_strings pages args b = Inr (addresses (strings env) args, c)" "stack_of pages c (strings args @ strings env)"
      "as_utop c = below (strings args @ strings env)" by (auto simp: T_def)
  have T: "filename @ 0 # strings args @ strings env = T" by (simp add: T_def)
  from push_string_stack [OF 2(2,3), of filename] fits obtain d where
    3: "push_string pages filename c = Inr (below T, d)" "stack_of pages d T" unfolding T by auto
  from push_bytes_stack [OF 3(2), of P] fits obtain e where
    4: "push_bytes pages P d = Inr e" "stack_of pages e (P @ T)" by (auto simp: P_def)
  from push_bytes_stack [OF 4(2), of Q] fits obtain f where
    5: "push_bytes pages Q e = Inr f" "stack_of pages f (Q @ P @ T)" by (auto simp: P_def Q_def)
  from push_bytes_stack [OF 5(2), of N] fits(2) obtain g where
    6: "push_bytes pages N f = Inr g" "stack_of pages g I" unfolding I by auto
  have k: "as_ktop g = pages + of_nat (16384 - length I)" "drop (16384 - length I) (as_mem g) = I"
    using 6(2) by (auto simp: stack_of_def)
  have u: "unat (of_nat (16384 - length I) :: u32) = 16384 - length I" by (intro unat_of_nat_32) simp
  have "unat (as_ktop g) = unat pages + (16384 - length I)"
    unfolding k(1) using assms(2) u by (subst unat_add_32) simp_all
  then have ok: "(as_ktop g > pages) = True" using fits(2) by (simp add: word_less_nat_alt)
  have i: "unat (as_ktop g - pages) = 16384 - length I" unfolding k(1) by (simp add: u del: of_nat_diff)
  have "of_nat (16384 - length I) + of_nat (length I) = (0x4000 :: u32)"
    using fits(2) by (simp add: of_nat_add [symmetric] del: of_nat_add of_nat_diff)
  then have l: "pages + 4 * 0x1000 - as_ktop g = of_nat (length I)" unfolding k(1) by (simp add: algebra_simps)
  have m: "(length args + 1 + 1 + length env + 1 \<le> 1024) = True" using assms(3) by simp
  show ?thesis
    unfolding build_stack_def count_argv_def Let_def option.case m if_True rbind_Inr prod.case 1(1) 2(1) 3(1) append_Cons
      P_def [symmetric] Q_def [symmetric] N_def [symmetric] 4(1) 5(1) 6(1) ok l i k(2) I_def [symmetric] by (rule refl)
qed

lemma get32_bytes32: "get32 (bytes32 v @ xs) 0 = v"
proof -
  have "get32 (bytes32 v @ xs) 0 = get32 (bytes32 v) 0" by (simp add: get32_def get16_def nth_append)
  also have "\<dots> = v" using get32_put32 [of 0 "replicate 4 0" v] by (simp add: put_def)
  finally show ?thesis .
qed

lemma libc_start_main_image:
  assumes "length (stack_image args env) < 16384" "\<forall>s\<in>set (args @ env). 0 \<notin> set s"
  shows "libc_start_main (below (stack_image args env)) (stack_image args env) = (of_nat (length args), args, env)"
proof -
  let ?I = "stack_image args env" and ?S = "strings args @ strings env"
  let ?p = "words_bytes (addresses [] env @ [0])" and ?q = "words_bytes (addresses (strings env) args @ [0])"
  have I: "?I = bytes32 (of_nat (length args)) @ ?q @ ?p @ ?S" by (simp add: stack_image_def)
  have argc: "get32 ?I 0 = of_nat (length args)" unfolding I by (rule get32_bytes32)
  have fits: "4 * (length args + length env + 3) + length ?S < 16384" using assms(1) by (simp add: length_stack_image)
  then have "unat (of_nat (length args) :: u32) = length args" by (intro unat_of_nat_32) simp
  moreover have "drop 4 ?I = ?q @ ?p @ ?S" by (simp add: I)
  moreover have "drop (4 * (length args + 1)) (?q @ ?p @ ?S) = ?p @ ?S" by simp
  moreover have "words_until_null (?q @ ?p @ ?S) = addresses (strings env) args"
    using fits by (intro words_until_null_words addresses_nonzero) simp
  moreover have "words_until_null (?p @ ?S) = addresses [] env"
    using fits by (intro words_until_null_words addresses_nonzero) simp
  moreover have "map (string_at (below ?I) ?I) (addresses (strings env) args) = args"
    using assms by (intro strings_at_addresses [of _ "bytes32 (of_nat (length args)) @ ?q @ ?p"]) (simp_all add: I)
  moreover have "map (string_at (below ?I) ?I) (addresses [] env) = env"
    using assms by (intro strings_at_addresses [of _ "bytes32 (of_nat (length args)) @ ?q @ ?p @ strings args"]) (simp_all add: I)
  ultimately show ?thesis unfolding libc_start_main_def Let_def by (simp only: argc)
qed

text \<open>C13: A program sees the arguments it is started with, once they are on its stack. This is about the image of the stack that
\<open>copy\_argv\_envp\<close> builds in the pages it has allocated, not about the allocation before it and the copy to the user's
stack after it, which may end in a panic for want of memory: when strings without zero bytes and their pointers fit into the four pages, and the
pointers into one page, the building succeeds, and the start code of the program finds in the image, from the stack pointer it gets, the
file name followed by exactly the arguments, the right number of them, and exactly the environment.\<close>

theorem program_sees_arguments:
  assumes "\<forall>s\<in>set (filename # args @ env). 0 \<notin> set s"
    and "(\<Sum>s\<leftarrow>filename # args @ env. length s + 1) + 4 * (length args + length env + 4) < 16384"
    and "length args + length env \<le> 1021" "unat pages + 16384 < 2 ^ 32"
  shows "\<exists>tos img. build_stack pages filename (Some args) (Some env) = Inr (tos, img) \<and>
    unat tos + length img = 0x10000000 \<and>
    libc_start_main tos img = (of_nat (length args + 1), filename # args, env)"
proof -
  let ?I = "stack_image (filename # args) env"
  have len: "length (strings ss) = (\<Sum>s\<leftarrow>ss. length s + 1)" for ss by (induction ss) simp_all
  have "length ?I < 16384"
    using assms(2) by (simp add: length_stack_image len del: strings_simps)
  moreover from this have "unat (below ?I) + length ?I = 0x10000000" by (simp add: unat_below)
  moreover have "libc_start_main (below ?I) ?I = (of_nat (length args + 1), filename # args, env)"
    using libc_start_main_image [of "filename # args" env] assms(1) \<open>length ?I < 16384\<close> by simp
  ultimately show ?thesis using build_stack_image [OF _ assms(4,3)] by blast
qed

theorem program_sees_arguments_witness:
  "\<exists>tos img. build_stack 0x200000 [0x6c, 0x73] (Some [[0x2d, 0x6c], []]) (Some [[0x48, 0x3d, 0x2f]]) = Inr (tos, img) \<and>
    unat tos + length img = 0x10000000 \<and>
    libc_start_main tos img = (3, [[0x6c, 0x73], [0x2d, 0x6c], []], [[0x48, 0x3d, 0x2f]])"
  using program_sees_arguments [where filename = "[0x6c, 0x73]" and args = "[[0x2d, 0x6c], []]" and env = "[[0x48, 0x3d, 0x2f]]" and pages = "0x200000"] by simp

end
