(* ===== verification/Execve.thy ===== *)
theory Execve
  imports Process Argv
begin

text \<open>
  The system call \<open>execve\<close> of \<open>src/src/kernel/execve.c\<close>: the headers of an ELF file, the loading of its
  segments into the memory of the running task, and the replacement of the task's image. The kernel
  reaches the user's memory at its virtual addresses; a byte whose page is missing takes the page fault
  handler first. When the call succeeds it does not return; its value is then the entry point and the
  stack pointer that the interrupt frame gets.
\<close>

unbundle bit_operations_syntax

definition ET_EXEC :: u16 where "ET_EXEC = 2"
definition EM_386 :: u16 where "EM_386 = 3"
definition EV_CURRENT :: u32 where "EV_CURRENT = 1"
definition PT_LOAD :: u32 where "PT_LOAD = 1"
definition PF_X :: u32 where "PF_X = 1"
definition PF_W :: u32 where "PF_W = 2"
definition PF_R :: u32 where "PF_R = 4"

record Elf32_Ehdr =
  e_type :: u16
  e_machine :: u16
  e_version :: u32
  e_entry :: u32
  e_phoff :: u32
  e_phentsize :: u16
  e_phnum :: u16

record Elf32_Phdr =
  p_type :: u32
  p_offset :: u32
  p_vaddr :: u32
  p_filesz :: u32
  p_memsz :: u32
  p_flags :: u32
  p_align :: u32

definition sizeof_ehdr :: u32 where "sizeof_ehdr = 52"
definition sizeof_phdr :: u32 where "sizeof_phdr = 32"

text \<open>The headers in their bytes.\<close>

definition ehdr_of :: "u8 list \<Rightarrow> Elf32_Ehdr" where
  "ehdr_of xs = \<lparr>e_type = get16 xs 16, e_machine = get16 xs 18, e_version = get32 xs 20, e_entry = get32 xs 24,
     e_phoff = get32 xs 28, e_phentsize = get16 xs 42, e_phnum = get16 xs 44\<rparr>"

definition phdr_of :: "u8 list \<Rightarrow> Elf32_Phdr" where
  "phdr_of xs = \<lparr>p_type = get32 xs 0, p_offset = get32 xs 4, p_vaddr = get32 xs 8, p_filesz = get32 xs 16,
     p_memsz = get32 xs 20, p_flags = get32 xs 24, p_align = get32 xs 28\<rparr>"

definition elf_validate :: "Elf32_Ehdr \<Rightarrow> bool" where
  "elf_validate h \<longleftrightarrow> e_type h = ET_EXEC \<and> e_machine h = EM_386 \<and> e_version h = EV_CURRENT \<and>
     ucast (e_phentsize h) = sizeof_phdr"

subsection \<open>The user's memory\<close>

text \<open>An access by the kernel: error code 2 is a write and 0 a read of a page that is not present.\<close>

definition touch :: "u32 \<Rightarrow> u32 \<Rightarrow> (mm, unit) op" where
  "touch error va = (\<lambda>s. case translate s va of Some _ \<Rightarrow> Inr ((), s)
     | None \<Rightarrow> sbind (page_fault 0xe error va) (\<lambda>e. case e of Resume \<Rightarrow> sret () | TaskExit _ \<Rightarrow> sfail Fault) s)"

definition load8 :: "u32 \<Rightarrow> (mm, u8) op" where
  "load8 va = sbind (touch 0 va) (\<lambda>_.
     sbind (vread (va AND NOT 3)) (\<lambda>w. sret (bytes32 w ! unat (va AND 3))))"

definition store8 :: "u32 \<Rightarrow> u8 \<Rightarrow> (mm, unit) op" where
  "store8 va b = sbind (touch 2 va) (\<lambda>_.
     sbind (vread (va AND NOT 3)) (\<lambda>w.
     vwrite (va AND NOT 3) (get32 ((bytes32 w)[unat (va AND 3) := b]) 0)))"

primrec user_load :: "u32 \<Rightarrow> nat \<Rightarrow> (mm, u8 list) op" where
  "user_load va 0 = sret []"
| "user_load va (Suc n) = sbind (load8 va) (\<lambda>b. sbind (user_load (va + 1) n) (\<lambda>bs. sret (b # bs)))"

primrec user_store :: "u32 \<Rightarrow> u8 list \<Rightarrow> (mm, unit) op" where
  "user_store va [] = sret ()"
| "user_store va (b # bs) = sbind (store8 va b) (\<lambda>_. user_store (va + 1) bs)"

subsection \<open>Loading\<close>

text \<open>The pages of a segment: linked, and later made read-only.\<close>

definition segment_page :: "u32 \<Rightarrow> (mm, unit) op" where
  "segment_page addr = sbind (sensure (addr \<ge> USER_EXEC_ADDR \<and> addr < USER_MMAP_ADDR)) (\<lambda>_. link_page addr)"

definition protect_page :: "u32 \<Rightarrow> (mm, unit) op" where
  "protect_page addr =
     sbind (get_entry addr False) (\<lambda>ea.
     sbind (vread ea) (\<lambda>entry. vwrite ea (pe_put 11 True (pe_put 1 False entry))))"

text \<open>The header stays in the user's memory while its segment is loaded, perhaps over it; it is read again each time.\<close>

definition phdr_at :: "u32 \<Rightarrow> (('w, 'a) proc_state_scheme, Elf32_Phdr) op" where
  "phdr_at p = sbind (with_mm (user_load p (unat sizeof_phdr))) (\<lambda>xs. sret (phdr_of xs))"

definition load_segment :: "u32 \<Rightarrow> u32 \<Rightarrow> (('w, 'a) proc_state_scheme, unit) op" where
  "load_segment ip p =
     sbind (phdr_at p) (\<lambda>phdr.
     sbind (sensure (p_align phdr = 0x1000)) (\<lambda>_.
     sbind (sensure (p_vaddr phdr AND 0xfff = 0)) (\<lambda>_.
     let vaddr = p_vaddr phdr
     in sbind (slift (div_round_up (if p_memsz phdr > p_filesz phdr then p_memsz phdr else p_filesz phdr) PAGE_SIZE)) (\<lambda>count.
        let pages = map (\<lambda>i. vaddr + of_nat i * PAGE_SIZE) [0..<unat count]
        in sbind (sforeach pages (\<lambda>p. with_mm (segment_page p))) (\<lambda>_.
           sbind (inode_read ip (p_filesz phdr) (p_offset phdr)) (\<lambda>(_, bs).
           sbind (with_mm (user_store vaddr bs)) (\<lambda>_.
           sbind (phdr_at p) (\<lambda>phdr.
           sbind (if p_filesz phdr < p_memsz phdr
                  then with_mm (user_store (vaddr + p_filesz phdr) (replicate (unat (p_memsz phdr - p_filesz phdr)) 0))
                  else sret ()) (\<lambda>_.
           sbind (phdr_at p) (\<lambda>phdr.
           sbind (if p_flags phdr AND PF_W = 0 then sforeach pages (\<lambda>p. with_mm (protect_page p)) else sret ()) (\<lambda>_.
           sbind (sget current) (\<lambda>task.
           upd_task task (\<lambda>t.
             let t = (if p_flags phdr = PF_R OR PF_X then t\<lparr>t_text := vaddr\<rparr>
                      else if p_flags phdr = PF_R OR PF_W then t\<lparr>t_data := vaddr\<rparr> else t);
                 e = vaddr + count * PAGE_SIZE
             in t\<lparr>t_end := (if t_end t > e then t_end t else e)\<rparr>)))))))))))))"

text \<open>
  The loop over the program headers, which are read from the memory they were copied to. The number of
  the headers has 16 bits, so 65536 turns are enough.
\<close>

primrec load_headers :: "nat \<Rightarrow> u32 \<Rightarrow> nat \<Rightarrow> u32 \<Rightarrow> (('w, 'a) proc_state_scheme, unit) op" where
  "load_headers 0 ip i p = sfail Diverge"
| "load_headers (Suc fuel) ip i p =
     sbind (with_mm (user_load USER_EXEC_ADDR (unat sizeof_ehdr))) (\<lambda>h.
     if i < unat (e_phnum (ehdr_of h)) then
       sbind (phdr_at p) (\<lambda>phdr.
       if p_type phdr \<noteq> PT_LOAD then load_headers fuel ip (i + 1) p
       else sbind (load_segment ip p) (\<lambda>_. load_headers fuel ip (i + 1) (p + sizeof_phdr)))
     else sret ())"

definition load_elf :: "u32 \<Rightarrow> (('w, 'a) proc_state_scheme, u32) op" where
  "load_elf ip =
     sbind (with_mm (link_page USER_EXEC_ADDR)) (\<lambda>_.
     sbind (inode_read ip sizeof_ehdr 0) (\<lambda>(n, bs).
     sbind (with_mm (user_store USER_EXEC_ADDR bs)) (\<lambda>_.
     sbind (sensure (n = int (unat sizeof_ehdr))) (\<lambda>_.
     sbind (with_mm (user_load USER_EXEC_ADDR (unat sizeof_ehdr))) (\<lambda>h.
     let ehdr = ehdr_of h
     in if \<not> elf_validate ehdr then sret EOF32
        else sbind (inode_read ip (ucast (e_phnum ehdr) * ucast (e_phentsize ehdr)) (e_phoff ehdr)) (\<lambda>(_, bs).
             sbind (with_mm (user_store (USER_EXEC_ADDR + sizeof_ehdr) bs)) (\<lambda>_.
             sbind (load_headers 65536 ip 0 (USER_EXEC_ADDR + sizeof_ehdr)) (\<lambda>_.
             sbind (with_mm (user_load USER_EXEC_ADDR (unat sizeof_ehdr))) (\<lambda>h. sret (e_entry (ehdr_of h)))))))))))"

subsection \<open>The system call\<close>

definition copy_argv_envp ::
  "u8 list \<Rightarrow> u8 list list option \<Rightarrow> u8 list list option \<Rightarrow> (('w, 'a) proc_state_scheme, u32) op" where
  "copy_argv_envp filename argv envp =
     sbind (with_heap (on_mm (alloc_kpage 4))) (\<lambda>pages.
     sbind alloc_page (\<lambda>argvk.
     sbind (slift (build_stack pages filename argv envp)) (\<lambda>(utop, bs).
     sbind (with_mm (user_store utop bs)) (\<lambda>_.
     sbind (free_page argvk) (\<lambda>_.
     sbind (with_heap (on_mm (free_kpage pages 4))) (\<lambda>_. sret utop))))))"

datatype exec_end = Entered u32 u32 | Returned int

definition sys_execve ::
  "u8 list \<Rightarrow> u8 list list option \<Rightarrow> u8 list list option \<Rightarrow> (('w, 'a) proc_state_scheme, exec_end) op" where
  "sys_execve filename argv envp =
     sbind (namei filename) (\<lambda>ip.
     let rollback = sbind (iput ip) (\<lambda>_. sret (Returned (- 1)))
     in if ip = 0 then rollback
     else sbind (desc_of ip) (\<lambda>d.
     if \<not> ISREG (d_mode d) then rollback
     else sbind (permission ip P_EXEC) (\<lambda>ok.
     if \<not> ok then rollback
     else sbind (sget current) (\<lambda>task.
          sbind (upd_task task (\<lambda>t. t\<lparr>t_name := strncpy_into (t_name t) filename 16\<rparr>)) (\<lambda>_.
          sbind (copy_argv_envp filename argv envp) (\<lambda>tos.
          sbind (upd_task task (t_end_update (\<lambda>_. USER_EXEC_ADDR))) (\<lambda>_.
          sbind (with_mm (sys_brk USER_EXEC_ADDR)) (\<lambda>_.
          sbind (load_elf ip) (\<lambda>entry.
          if entry = EOF32 then rollback
          else sbind (get_task task) (\<lambda>t.
               sbind (with_mm (sys_brk (t_end t))) (\<lambda>_.
               sbind (iput (t_iexec t)) (\<lambda>_.
               sbind (upd_task task (t_iexec_update (\<lambda>_. ip))) (\<lambda>_.
               let iframe = task + PAGE_SIZE - sizeof_intr_frame
               in sbind (put_words (iframe + 24) [0]) (\<lambda>_.
                  sbind (put_words (iframe + 60) [entry]) (\<lambda>_.
                  sbind (put_words (iframe + 72) [tos]) (\<lambda>_. sret (Entered entry tos)))))))))))))))))"

subsection \<open>A header that is not loaded\<close>

text \<open>
  A header of another type is not stepped over: once the loop meets one, it only counts, and none of the
  segments behind it is loaded.
\<close>

lemma load_headers_stuck:
  assumes "with_mm (user_load USER_EXEC_ADDR (unat sizeof_ehdr)) s = Inr (h, s)"
    and "phdr_at p s = Inr (phdr, s)" "p_type phdr \<noteq> PT_LOAD" "unat (e_phnum (ehdr_of h)) - i < fuel"
  shows "load_headers fuel ip i p s = Inr ((), s)"
  using assms
proof (induction fuel arbitrary: i)
  case (Suc fuel)
  have IH: "i < unat (e_phnum (ehdr_of h)) \<Longrightarrow> load_headers fuel ip (i + 1) p s = Inr ((), s)"
    using Suc.IH [OF Suc.prems(1-3), of "i + 1"] Suc.prems(4) by simp
  show ?case
    using IH Suc.prems(3)
    by (simp only: load_headers.simps sbind_run [of "with_mm (user_load USER_EXEC_ADDR (unat sizeof_ehdr))" s, OF Suc.prems(1)] sbind_run [of "phdr_at p" s, OF Suc.prems(2)] if_True
        sret_def split: if_splits) simp
qed simp

text \<open>The fuel is enough: the number of the headers has 16 bits.\<close>

lemma load_headers_fuel: "unat (e_phnum h) < 65536"
proof -
  have "unat (e_phnum h) < 2 ^ LENGTH(16)" by (rule unsigned_less)
  then show ?thesis by simp
qed

end
