(* ===== verification/Shell.thy ===== *)
theory Shell
  imports Bytes
begin

text \<open>
  The shell \<open>src/src/builtin/osh.c\<close>: reading a line from the keyboard, splitting it into arguments, and
  running it. The array \<open>cmd\<close> is a list of bytes and the entries of \<open>argv\<close> are positions in it. What the
  system calls do is given by a record of operations on the state of the kernel.
\<close>

definition MAX_CMD_LEN :: nat where "MAX_CMD_LEN = 256"
definition MAX_ARG_NR :: nat where "MAX_ARG_NR = 16"

abbreviation BLANK :: u8 where "BLANK \<equiv> 0x20"
abbreviation QUOTE :: u8 where "QUOTE \<equiv> 0x22"
abbreviation BACKSPACE :: u8 where "BACKSPACE \<equiv> 0x08"
abbreviation NEWLINE :: u8 where "NEWLINE \<equiv> 0x0a"
abbreviation RETURN :: u8 where "RETURN \<equiv> 0x0d"

subsection \<open>Reading a line\<close>

text \<open>
  The keys are the results of the calls of \<open>read\<close>, \<open>None\<close> for an error; the shell waits when there are no
  more. The value is the array, the keys that are left, and what was echoed.
\<close>

primrec readline_loop :: "nat \<Rightarrow> u8 option list \<Rightarrow> u8 list \<Rightarrow> nat \<Rightarrow> u8 list \<Rightarrow> (u8 list \<times> u8 option list \<times> u8 list) res" where
  "readline_loop n [] buf idx echo = (if idx < n then Inl Blocked else Inr (buf, [], echo))"
| "readline_loop n (k # ks) buf idx echo =
     (if \<not> idx < n then Inr (buf, k # ks, echo)
      else case k of
        None \<Rightarrow> rbind (wr buf idx 0) (\<lambda>buf. Inr (buf, ks, echo))
      | Some c \<Rightarrow>
          if c = NEWLINE \<or> c = RETURN then rbind (wr buf idx 0) (\<lambda>buf. Inr (buf, ks, echo @ [NEWLINE]))
          else rbind (wr buf idx c) (\<lambda>buf.
               if c = BACKSPACE then
                 (if buf ! 0 \<noteq> BACKSPACE then readline_loop n ks buf (idx - 1) (echo @ [BACKSPACE])
                  else readline_loop n ks buf idx echo)
               else readline_loop n ks buf (idx + 1) (echo @ [c])))"

definition readline :: "nat \<Rightarrow> u8 option list \<Rightarrow> (u8 list \<times> u8 option list \<times> u8 list) res" where
  "readline n ks = readline_loop n ks (replicate n 0) 0 []"

subsection \<open>Splitting it into arguments\<close>

text \<open>The two inner loops, from place \<open>i\<close> on; they fail at the end of the array.\<close>

primrec skip_blanks :: "bool \<Rightarrow> u8 list \<Rightarrow> nat \<Rightarrow> nat res" where
  "skip_blanks quot [] i = Inl Fault"
| "skip_blanks quot (c # cs) i = (if c = BLANK \<or> (quot \<and> c \<noteq> QUOTE) then skip_blanks quot cs (i + 1) else Inr i)"

primrec skip_word :: "u8 list \<Rightarrow> nat \<Rightarrow> nat res" where
  "skip_word [] i = Inl Fault"
| "skip_word (c # cs) i = (if c \<noteq> 0 \<and> c \<noteq> BLANK then skip_word cs (i + 1) else Inr i)"

text \<open>The outer loop moves on by a byte in every turn, so the length of the array bounds the turns.\<close>

primrec parse_loop :: "nat \<Rightarrow> u8 list \<Rightarrow> nat \<Rightarrow> nat list \<Rightarrow> bool \<Rightarrow> (nat list \<times> u8 list) res" where
  "parse_loop 0 cmd i argv quot = Inl Diverge"
| "parse_loop (Suc fuel) cmd i argv quot =
     rbind (rd cmd i) (\<lambda>c.
     if c = 0 \<or> length argv \<ge> MAX_ARG_NR then Inr (argv, cmd)
     else rbind (skip_blanks quot (drop i cmd) i) (\<lambda>i.
          rbind (rd cmd i) (\<lambda>c.
          if c = 0 then Inr (argv, cmd)
          else if c = QUOTE then
            (if \<not> quot then parse_loop fuel cmd (i + 1) (argv @ [i + 1]) True
             else parse_loop fuel (cmd[i := 0]) (i + 1) argv False)
          else rbind (skip_word (drop i cmd) i) (\<lambda>j.
               rbind (rd cmd j) (\<lambda>d.
               if d \<noteq> 0 then parse_loop fuel (cmd[j := 0]) (j + 1) (argv @ [i]) quot
               else parse_loop fuel cmd j (argv @ [i]) quot)))))"

text \<open>The null pointer behind the last argument must fit into \<open>argv\<close>, too.\<close>

definition cmd_parse :: "u8 list \<Rightarrow> (nat list \<times> u8 list) res" where
  "cmd_parse cmd =
     rbind (parse_loop (length cmd + 1) cmd 0 [] False) (\<lambda>(argv, cmd).
     if length argv < MAX_ARG_NR then Inr (argv, cmd) else Inl Fault)"

definition arg_string :: "u8 list \<Rightarrow> nat \<Rightarrow> u8 list" where
  "arg_string cmd p = cstring (drop p cmd)"

subsection \<open>The line that is edited\<close>

definition edit_key :: "u8 list \<Rightarrow> u8 \<Rightarrow> u8 list" where
  "edit_key l c = (if c = BACKSPACE then butlast l else l @ [c])"

definition edited :: "u8 list \<Rightarrow> u8 list" where
  "edited ks = foldl edit_key [] ks"

text \<open>The line stays shorter than \<open>n\<close> while it is edited.\<close>

fun stays_below :: "nat \<Rightarrow> u8 list \<Rightarrow> u8 list \<Rightarrow> bool" where
  "stays_below n l [] = (length l < n)"
| "stays_below n l (c # cs) = (length l < n \<and> stays_below n (edit_key l c) cs)"

definition line_in :: "u8 list \<Rightarrow> u8 list \<Rightarrow> bool" where
  "line_in buf l \<longleftrightarrow> length l < length buf \<and> take (length l) buf = l \<and> BACKSPACE \<notin> set l"

lemma line_in_update:
  "line_in buf l \<Longrightarrow> line_in (buf[length l := c]) l"
  by (simp add: line_in_def)

lemma readline_loop_edits:
  assumes "line_in buf l" "length buf = n" "NEWLINE \<notin> set cs" "RETURN \<notin> set cs" "stays_below n l cs"
  shows "\<exists>buf' echo'. readline_loop n (map Some cs @ Some NEWLINE # ks) buf (length l) echo = Inr (buf', ks, echo') \<and>
    length buf' = n \<and> line_in buf' (foldl edit_key l cs) \<and> buf' ! length (foldl edit_key l cs) = 0"
  using assms
proof (induction cs arbitrary: buf l echo)
  case Nil
  then show ?case by (auto simp: line_in_def)
next
  case (Cons c cs)
  have i: "length l < n" "length l < length buf" using Cons.prems by (auto simp: line_in_def)
  have w: "c \<noteq> NEWLINE" "c \<noteq> RETURN" using Cons.prems by auto
  show ?case
  proof (cases "c = BACKSPACE")
    case True
    show ?thesis
    proof (cases l rule: rev_cases)
      case Nil
      then have "line_in (buf[0 := BACKSPACE]) (edit_key l c)" "length (edit_key l c) = 0"
        using Cons.prems True by (auto simp: line_in_def edit_key_def)
      then show ?thesis
        using Cons.IH [of "buf[0 := BACKSPACE]" "edit_key l c" echo] Cons.prems True Nil i by simp
    next
      case (snoc m x)
      let ?b = "buf[length l := BACKSPACE]"
      have t: "take (length l) buf = l" using Cons.prems(1) by (simp add: line_in_def)
      have m: "line_in ?b m"
        using Cons.prems(1) snoc i by (auto simp: line_in_def dest: arg_cong [where f = "take (length m)"])
      have "?b ! 0 = l ! 0" using i snoc t by (metis length_append_singleton nth_list_update_neq nth_take old.nat.distinct(2) zero_less_Suc)
      then have "?b ! 0 \<in> set l" using snoc by (metis length_append_singleton nth_mem zero_less_Suc)
      then have "?b ! 0 \<noteq> BACKSPACE" using Cons.prems(1) by (auto simp: line_in_def)
      then show ?thesis
        using Cons.IH [of ?b m "echo @ [BACKSPACE]"] Cons.prems True snoc i m by (simp add: edit_key_def)
    qed
  next
    case False
    let ?b = "buf[length l := c]"
    have below: "length (l @ [c]) < n"
      using Cons.prems(5) False by (cases cs) (auto simp: edit_key_def)
    have "line_in ?b (l @ [c])"
      using Cons.prems(1,2) False below by (simp add: line_in_def take_Suc_conv_app_nth)
    then show ?thesis
      using Cons.IH [of ?b "l @ [c]" "echo @ [c]"] Cons.prems False i w by (simp add: edit_key_def)
  qed
qed

subsection \<open>The arguments in a line\<close>

text \<open>A line of words and quoted texts with the blanks behind each.\<close>

datatype item = Word "u8 list" | Quoted "u8 list"

primrec item_text :: "item \<Rightarrow> u8 list" where
  "item_text (Word w) = w"
| "item_text (Quoted w) = w"

primrec item_chars :: "item \<Rightarrow> u8 list" where
  "item_chars (Word w) = w"
| "item_chars (Quoted w) = QUOTE # w @ [QUOTE]"

primrec item_ok :: "item \<Rightarrow> bool" where
  "item_ok (Word w) \<longleftrightarrow> w \<noteq> [] \<and> hd w \<noteq> QUOTE \<and> 0 \<notin> set w \<and> BLANK \<notin> set w"
| "item_ok (Quoted w) \<longleftrightarrow> 0 \<notin> set w \<and> QUOTE \<notin> set w"

primrec line_text :: "(item \<times> nat) list \<Rightarrow> u8 list" where
  "line_text [] = []"
| "line_text (x # xs) = item_chars (fst x) @ replicate (snd x) BLANK @ line_text xs"

fun line_ok :: "(item \<times> nat) list \<Rightarrow> bool" where
  "line_ok [] = True"
| "line_ok [x] = item_ok (fst x)"
| "line_ok (x # y # xs) = (item_ok (fst x) \<and> 0 < snd x \<and> line_ok (y # xs))"

lemma skip_blanks_run: "c \<noteq> BLANK \<Longrightarrow> skip_blanks False (replicate n BLANK @ c # cs) i = Inr (i + n)"
  by (induction n arbitrary: i) simp_all

lemma skip_quoted_run: "QUOTE \<notin> set w \<Longrightarrow> skip_blanks True (w @ QUOTE # cs) i = Inr (i + length w)"
  by (induction w arbitrary: i) auto

lemma skip_word_run: "0 \<notin> set w \<Longrightarrow> BLANK \<notin> set w \<Longrightarrow> c = 0 \<or> c = BLANK \<Longrightarrow> skip_word (w @ c # cs) i = Inr (i + length w)"
  by (induction w arbitrary: i) auto

lemma rd_append: "rd (xs @ c # ys) (length xs) = Inr c"
  by (simp add: rd_def)

lemma cstring_text: "0 \<notin> set w \<Longrightarrow> cstring (w @ 0 # xs) = w"
  by (induction w) (auto simp: cstring_def)

lemma parse_turn:
  assumes "rd cmd i = Inr b" "b \<noteq> 0" "length argv < MAX_ARG_NR" "skip_blanks quot (drop i cmd) i = Inr j" "rd cmd j = Inr c"
  shows "c = 0 \<Longrightarrow> parse_loop (Suc fuel) cmd i argv quot = Inr (argv, cmd)"
    "c = QUOTE \<Longrightarrow> parse_loop (Suc fuel) cmd i argv quot =
      (if \<not> quot then parse_loop fuel cmd (j + 1) (argv @ [j + 1]) True else parse_loop fuel (cmd[j := 0]) (j + 1) argv False)"
    "c \<noteq> 0 \<Longrightarrow> c \<noteq> QUOTE \<Longrightarrow> skip_word (drop j cmd) j = Inr k \<Longrightarrow> rd cmd k = Inr d \<Longrightarrow> parse_loop (Suc fuel) cmd i argv quot =
      (if d \<noteq> 0 then parse_loop fuel (cmd[k := 0]) (k + 1) (argv @ [j]) quot else parse_loop fuel cmd k (argv @ [j]) quot)"
  using assms(2,3) by (simp_all add: assms(1,4,5) not_le)

text \<open>Turns of the loop: at a word, at an opening and at a closing quotation mark.\<close>

lemma parse_word:
  assumes "item_ok (Word w)" "length argv < MAX_ARG_NR" "d = BLANK \<or> d = 0"
  shows "parse_loop (Suc fuel) (pre @ replicate n BLANK @ w @ d # rest) (length pre) argv False =
    parse_loop fuel (pre @ replicate n BLANK @ w @ 0 # rest) (length pre + n + length w + (if d = 0 then 0 else 1)) (argv @ [length pre + n]) False"
proof -
  let ?cmd = "pre @ replicate n BLANK @ w @ d # rest" and ?i = "length pre + n"
  obtain c v where w: "w = c # v" "c \<noteq> QUOTE" "c \<noteq> 0" "c \<noteq> BLANK" using assms(1) by (cases w) auto
  obtain b where b: "rd ?cmd (length pre) = Inr b" "b \<noteq> 0"
    using w by (cases n) (auto simp: rd_append)
  have s: "skip_blanks False (drop (length pre) ?cmd) (length pre) = Inr ?i"
    using skip_blanks_run [OF w(4), of n "v @ d # rest" "length pre"] w(1) by simp
  have c: "rd ?cmd ?i = Inr c"
    using rd_append [of "pre @ replicate n BLANK" c "v @ d # rest"] w(1) by simp
  have k: "skip_word (drop ?i ?cmd) ?i = Inr (?i + length w)"
    using skip_word_run [of w d rest ?i] assms by auto
  have d: "rd ?cmd (?i + length w) = Inr d"
    using rd_append [of "pre @ replicate n BLANK @ w" d rest] by (simp add: add.assoc)
  have "?cmd[?i + length w := 0] = pre @ replicate n BLANK @ w @ 0 # rest"
    by (simp add: list_update_append add.assoc)
  then show ?thesis
    unfolding parse_turn(3) [OF b assms(2) s c w(3,2) k d] using assms(3) by (auto simp: add.assoc)
qed

lemma parse_open:
  assumes "length argv < MAX_ARG_NR"
  shows "parse_loop (Suc fuel) (pre @ replicate n BLANK @ QUOTE # rest) (length pre) argv False =
    parse_loop fuel (pre @ replicate n BLANK @ QUOTE # rest) (length pre + n + 1) (argv @ [length pre + n + 1]) True"
proof -
  let ?cmd = "pre @ replicate n BLANK @ QUOTE # rest" and ?i = "length pre + n"
  obtain b where b: "rd ?cmd (length pre) = Inr b" "b \<noteq> 0" by (cases n) (auto simp: rd_append)
  have s: "skip_blanks False (drop (length pre) ?cmd) (length pre) = Inr ?i"
    using skip_blanks_run [of QUOTE n rest "length pre"] by simp
  have c: "rd ?cmd ?i = Inr QUOTE" using rd_append [of "pre @ replicate n BLANK" QUOTE rest] by simp
  show ?thesis unfolding parse_turn(2) [OF b assms s c refl] by simp
qed

lemma parse_close:
  assumes "item_ok (Quoted w)" "length argv < MAX_ARG_NR"
  shows "parse_loop (Suc fuel) (pre @ w @ QUOTE # rest) (length pre) argv True =
    parse_loop fuel (pre @ w @ 0 # rest) (length pre + length w + 1) argv False"
proof -
  let ?cmd = "pre @ w @ QUOTE # rest" and ?i = "length pre + length w"
  obtain b where b: "rd ?cmd (length pre) = Inr b" "b \<noteq> 0" using assms(1) by (cases w) (auto simp: rd_append)
  have s: "skip_blanks True (drop (length pre) ?cmd) (length pre) = Inr ?i"
    using skip_quoted_run [of w rest "length pre"] assms(1) by simp
  have c: "rd ?cmd ?i = Inr QUOTE" using rd_append [of "pre @ w" QUOTE rest] by simp
  have "?cmd[?i := 0] = pre @ w @ 0 # rest" by (simp add: list_update_append)
  then show ?thesis unfolding parse_turn(2) [OF b assms(2) s c refl] by simp
qed

lemma parse_end:
  "parse_loop (Suc fuel) (pre @ replicate n BLANK @ 0 # rest) (length pre) argv False = Inr (argv, pre @ replicate n BLANK @ 0 # rest)"
proof (cases n)
  case 0
  then show ?thesis by (simp add: rd_append)
next
  case (Suc k)
  let ?cmd = "pre @ replicate n BLANK @ 0 # rest"
  have b: "rd ?cmd (length pre) = Inr BLANK" using Suc by (simp add: rd_append)
  have s: "skip_blanks False (drop (length pre) ?cmd) (length pre) = Inr (length pre + n)"
    using skip_blanks_run [of 0 n rest "length pre"] by simp
  have c: "rd ?cmd (length pre + n) = Inr 0" using rd_append [of "pre @ replicate n BLANK" 0 rest] by simp
  show ?thesis
    using parse_turn(1) [OF b _ _ s c refl] by (cases "length argv < MAX_ARG_NR") (simp_all add: b)
qed

text \<open>The whole line: every position gives the text of its item.\<close>

lemma parse_line:
  assumes "line_ok its" "length argv + length its < MAX_ARG_NR" "2 * length its < fuel"
  shows "\<exists>cmd ps. parse_loop fuel (pre @ replicate n BLANK @ line_text its @ 0 # rest) (length pre) argv False =
      Inr (argv @ ps, pre @ cmd) \<and> map (arg_string (pre @ cmd)) ps = map (item_text \<circ> fst) its"
  using assms
proof (induction its arbitrary: pre n argv fuel)
  case Nil
  then obtain f where "fuel = Suc f" by (cases fuel) auto
  then show ?case
    using parse_end [of f pre n rest argv] by (intro exI [of _ "replicate n BLANK @ 0 # rest"] exI [of _ "[]"]) simp
next
  case (Cons x its)
  obtain it k where x: "x = (it, k)" by (cases x)
  obtain f where f: "fuel = Suc (Suc f)" "2 * length its < f" using Cons.prems(3) by (cases fuel; cases "fuel - 1") auto
  have ok: "item_ok it" "line_ok its" "its \<noteq> [] \<Longrightarrow> 0 < k" using Cons.prems(1) x by (cases its; simp)+
  have room: "length argv < MAX_ARG_NR" "length (argv @ [a]) + length its < MAX_ARG_NR" for a using Cons.prems(2) by simp_all
  show ?case
  proof (cases it)
    case (Word w)
    show ?thesis
    proof (cases k)
      case 0
      then have "its = []" using ok(3) by auto
      moreover have "parse_loop (Suc f) (pre @ replicate n BLANK @ w @ 0 # rest) (length pre + n + length w) (argv @ [length pre + n]) False =
          Inr (argv @ [length pre + n], pre @ replicate n BLANK @ w @ 0 # rest)"
        using parse_end [of f "pre @ replicate n BLANK @ w" 0 rest "argv @ [length pre + n]"] by (simp add: add.assoc)
      moreover have "arg_string (pre @ replicate n BLANK @ w @ 0 # rest) (length pre + n) = w"
        using ok(1) Word by (simp add: arg_string_def cstring_text)
      ultimately show ?thesis
        using parse_word [of w argv 0 "Suc f" pre n rest] ok(1) Word room(1) 0 x f(1)
        by (intro exI [of _ "replicate n BLANK @ w @ 0 # rest"] exI [of _ "[length pre + n]"]) simp
    next
      case (Suc j)
      let ?pre = "pre @ replicate n BLANK @ w @ [0]" and ?a = "argv @ [length pre + n]"
      from Cons.IH [OF ok(2) room(2), of "Suc f" ?pre j "length pre + n"] f(2) obtain cmd ps where
        IH: "parse_loop (Suc f) (?pre @ replicate j BLANK @ line_text its @ 0 # rest) (length ?pre) ?a False = Inr (?a @ ps, ?pre @ cmd)"
          "map (arg_string (?pre @ cmd)) ps = map (item_text \<circ> fst) its" by auto
      have "parse_loop fuel (pre @ replicate n BLANK @ line_text (x # its) @ 0 # rest) (length pre) argv False = Inr (?a @ ps, ?pre @ cmd)"
        using parse_word [of w argv BLANK "Suc f" pre n "replicate j BLANK @ line_text its @ 0 # rest"] ok(1) Word room(1) Suc x f(1) IH(1)
        by (simp add: add.assoc)
      moreover have "arg_string (?pre @ cmd) (length pre + n) = w"
        using ok(1) Word by (simp add: arg_string_def cstring_text)
      ultimately show ?thesis
        using IH(2) Word x
        by (intro exI [of _ "replicate n BLANK @ w @ [0] @ cmd"] exI [of _ "(length pre + n) # ps"]) simp
    qed
  next
    case (Quoted w)
    let ?R = "replicate k BLANK @ line_text its @ 0 # rest" and ?pre = "pre @ replicate n BLANK @ QUOTE # w @ [0]"
    let ?a = "argv @ [length pre + n + 1]"
    from Cons.IH [OF ok(2) room(2) f(2), of ?pre k "length pre + n + 1"] obtain cmd ps where
      IH: "parse_loop f (?pre @ ?R) (length ?pre) ?a False = Inr (?a @ ps, ?pre @ cmd)"
        "map (arg_string (?pre @ cmd)) ps = map (item_text \<circ> fst) its" by blast
    have "parse_loop (Suc f) (pre @ replicate n BLANK @ QUOTE # w @ QUOTE # ?R) (length pre + n + 1) ?a True = parse_loop f (?pre @ ?R) (length ?pre) ?a False"
      using parse_close [of w ?a f "pre @ replicate n BLANK @ [QUOTE]" ?R] ok(1) Quoted Cons.prems(2) by (simp add: add.assoc)
    then have "parse_loop fuel (pre @ replicate n BLANK @ line_text (x # its) @ 0 # rest) (length pre) argv False = Inr (?a @ ps, ?pre @ cmd)"
      using parse_open [OF room(1), of "Suc f" pre n "w @ QUOTE # ?R"] Quoted x f(1) IH(1) by simp
    moreover have "arg_string (?pre @ cmd) (length pre + n + 1) = w"
      using ok(1) Quoted by (simp add: arg_string_def cstring_text)
    ultimately show ?thesis
      using IH(2) Quoted x
      by (intro exI [of _ "replicate n BLANK @ QUOTE # w @ [0] @ cmd"] exI [of _ "(length pre + n + 1) # ps"]) simp
  qed
qed

text \<open>C14: What is typed at the shell's prompt becomes the arguments of the command: when the keys, with the
corrections by the backspace key, leave a line of words and quoted texts separated by blanks, fewer than \<open>MAX\_ARG\_NR\<close> of
them, and the line that is being typed is at every moment shorter than \<open>MAX\_CMD\_LEN\<close> (beyond these two limits the code leaves
its arrays or returns a line without its terminator), the reading of the line and its splitting succeed, read no key behind the
line break, and the arguments are exactly the words and the quoted texts, in their order, without their quotation marks.\<close>

theorem shell_reads_arguments:
  assumes "edited ks = replicate n BLANK @ line_text its" "line_ok its" "length its < MAX_ARG_NR"
    and "NEWLINE \<notin> set ks" "RETURN \<notin> set ks" "stays_below MAX_CMD_LEN [] ks"
  shows "\<exists>buf echo argv cmd. readline MAX_CMD_LEN (map Some ks @ Some NEWLINE # more) = Inr (buf, more, echo) \<and>
    cmd_parse buf = Inr (argv, cmd) \<and> map (arg_string cmd) argv = map (item_text \<circ> fst) its"
proof -
  let ?l = "replicate n BLANK @ line_text its"
  have l: "foldl edit_key [] ks = ?l" using assms(1) by (simp add: edited_def)
  have "line_in (replicate MAX_CMD_LEN 0) []" by (simp add: line_in_def MAX_CMD_LEN_def)
  from readline_loop_edits [OF this _ assms(4-6), of more "[]"] obtain buf echo where
    r: "readline MAX_CMD_LEN (map Some ks @ Some NEWLINE # more) = Inr (buf, more, echo)" "length buf = MAX_CMD_LEN"
      "line_in buf ?l" "buf ! length ?l = 0" unfolding l by (auto simp: readline_def)
  have "buf = take (length ?l) buf @ buf ! length ?l # drop (Suc (length ?l)) buf"
    using r(3) by (intro id_take_nth_drop) (simp add: line_in_def)
  then have b: "buf = [] @ replicate n BLANK @ line_text its @ 0 # drop (Suc (length ?l)) buf"
    using r(3,4) by (simp add: line_in_def)
  have "2 * length its < length buf + 1" using assms(3) r(2) by (simp add: MAX_ARG_NR_def MAX_CMD_LEN_def)
  from parse_line [OF assms(2) _ this, of "[]" "[]" n "drop (Suc (length ?l)) buf"] assms(3) obtain cmd ps where
    p: "parse_loop (length buf + 1) buf 0 [] False = Inr (ps, cmd)" "map (arg_string cmd) ps = map (item_text \<circ> fst) its"
    unfolding b [symmetric] by auto
  have "length ps = length its" using arg_cong [OF p(2), of length] by simp
  then have "cmd_parse buf = Inr (ps, cmd)" using p(1) assms(3) by (simp add: cmd_parse_def)
  with r(1) p(2) show ?thesis by blast
qed

text \<open>The line \<open>ls -x\<close>, with the last letter corrected to \<open>l\<close>, and a quoted name with a blank.\<close>

theorem shell_reads_arguments_witness:
  "\<exists>buf echo argv cmd. readline MAX_CMD_LEN (map Some [0x6c, 0x73, 0x20, 0x2d, 0x78, 0x08, 0x6c, 0x20, 0x22, 0x61, 0x20, 0x62, 0x22] @
      Some NEWLINE # [Some 0x78]) = Inr (buf, [Some 0x78], echo) \<and>
    cmd_parse buf = Inr (argv, cmd) \<and> map (arg_string cmd) argv = [[0x6c, 0x73], [0x2d, 0x6c], [0x61, 0x20, 0x62]]"
proof -
  let ?its = "[(Word [0x6c, 0x73], 1), (Word [0x2d, 0x6c], 1), (Quoted [0x61, 0x20, 0x62], 0)]"
  have "edited [0x6c, 0x73, 0x20, 0x2d, 0x78, 0x08, 0x6c, 0x20, 0x22, 0x61, 0x20, 0x62, 0x22] = replicate 0 BLANK @ line_text ?its"
    by (simp add: edited_def edit_key_def)
  from shell_reads_arguments [OF this, of "[Some 0x78]"] show ?thesis
    by (simp add: MAX_ARG_NR_def MAX_CMD_LEN_def edit_key_def)
qed

end
