(* ===== verification/Osh.thy ===== *)
theory Osh
  imports Shell Calendar Vsprintf
begin

text \<open>
  Running a command in the shell \<open>src/src/builtin/osh.c\<close>: the built-in commands, the redirections, and the
  pipes of programs. An argument is a text, or \<open>None\<close> when its pointer has been cleared. The system calls
  are a record of operations; \<open>fork\<close> gives the number of the child, or 0 in the child itself, and the two
  continue with their own states.
\<close>

unbundle bit_operations_syntax

record 's syscalls =
  do_open :: "u8 list \<Rightarrow> int \<Rightarrow> int \<Rightarrow> ('s, int) op"
  do_close :: "int \<Rightarrow> ('s, int) op"
  do_fork :: "('s, int) op"
  do_dup2 :: "int \<Rightarrow> int \<Rightarrow> ('s, int) op"
  do_execve :: "u8 list \<Rightarrow> u8 list list option \<Rightarrow> u8 list list \<Rightarrow> ('s, int) op"
  do_exit :: "int \<Rightarrow> ('s, unit) op"
  do_pipe :: "('s, int \<times> int) op"
  do_stat :: "u8 list \<Rightarrow> ('s, int) op"
  do_waitpid :: "int \<Rightarrow> ('s, int) op"
  do_print :: "u8 list \<Rightarrow> ('s, unit) op"
  do_getcwd :: "('s, u8 list) op"
  do_chdir :: "u8 list option \<Rightarrow> ('s, int) op"
  do_mkdir :: "u8 list \<Rightarrow> int \<Rightarrow> ('s, int) op"
  do_rmdir :: "u8 list \<Rightarrow> ('s, int) op"
  do_unlink :: "u8 list \<Rightarrow> ('s, int) op"
  do_creat :: "u8 list \<Rightarrow> int \<Rightarrow> ('s, int) op"
  do_mount :: "u8 list \<Rightarrow> u8 list \<Rightarrow> int \<Rightarrow> ('s, int) op"
  do_umount :: "u8 list \<Rightarrow> ('s, int) op"
  do_mkfs :: "u8 list \<Rightarrow> int \<Rightarrow> ('s, int) op"
  do_clear :: "('s, unit) op"
  do_time :: "('s, u32) op"

type_synonym argv = "u8 list option list"

definition O_APPEND_FLAG :: int where "O_APPEND_FLAG = 0x400"
definition O_CREAT_FLAG :: int where "O_CREAT_FLAG = 0x40"

text \<open>The environment ``HOME=/'' and ``PATH=/bin''.\<close>

definition shell_env :: "u8 list list" where
  "shell_env = [[0x48, 0x4f, 0x4d, 0x45, 0x3d, 0x2f], [0x50, 0x41, 0x54, 0x48, 0x3d, 0x2f, 0x62, 0x69, 0x6e]]"

text \<open>\<open>argv[i]\<close> as a string; a null pointer is read as a fault.\<close>

definition arg :: "argv \<Rightarrow> nat \<Rightarrow> u8 list res" where
  "arg argv i = (if i < length argv then (case argv ! i of Some s \<Rightarrow> Inr s | None \<Rightarrow> Inl Fault) else Inl Fault)"

subsection \<open>The prompt\<close>

text \<open>The place of the last separator, which \<open>strrsep\<close> points to.\<close>

definition last_sep :: "u8 list \<Rightarrow> nat res" where
  "last_sep s = (case filter (\<lambda>i. is_separator (s ! i)) (rev [0..<length s]) of [] \<Rightarrow> Inl Fault | i # _ \<Rightarrow> Inr i)"

definition basename :: "u8 list \<Rightarrow> u8 list res" where
  "basename name = rbind (last_sep name) (\<lambda>p. Inr (if p + 1 < length name then drop (p + 1) name else drop p name))"

definition print_prompt :: "'s syscalls \<Rightarrow> ('s, unit) op" where
  "print_prompt K =
     sbind (do_getcwd K) (\<lambda>cwd.
     sbind (slift (last_sep cwd)) (\<lambda>p.
     sbind (slift (basename (if p \<noteq> 0 then take p cwd else cwd))) (\<lambda>base.
     do_print K ([0x5b, 0x72, 0x6f, 0x6f, 0x74, 0x20] @ base @ [0x5d, 0x23, 0x20]))))"

subsection \<open>Redirections\<close>

record redirect =
  rd_in :: "u8 list option"
  rd_out :: "u8 list option"
  rd_err :: "u8 list option"
  rd_outappend :: int
  rd_errappend :: int

text \<open>An operator and the field that its file name goes to.\<close>

definition redirection :: "u8 list \<Rightarrow> (u8 list option \<Rightarrow> redirect \<Rightarrow> redirect) option" where
  "redirection s =
     (if s = [0x3c] then Some (\<lambda>f. rd_in_update (\<lambda>_. f))
      else if s = [0x3e] then Some (\<lambda>f. rd_out_update (\<lambda>_. f))
      else if s = [0x3e, 0x3e] then Some (\<lambda>f r. r\<lparr>rd_out := f, rd_outappend := O_APPEND_FLAG\<rparr>)
      else if s = [0x32, 0x3e] then Some (\<lambda>f. rd_err_update (\<lambda>_. f))
      else if s = [0x32, 0x3e, 0x3e] then Some (\<lambda>f r. r\<lparr>rd_err := f, rd_errappend := O_APPEND_FLAG\<rparr>)
      else None)"

text \<open>The first pass clears the operators and leaves the names of the files behind them.\<close>

fun scan_redirects :: "argv \<Rightarrow> redirect \<Rightarrow> (argv \<times> redirect) res" where
  "scan_redirects [] r = Inr ([], r)"
| "scan_redirects [a] r = (case a of None \<Rightarrow> Inl Fault | Some s \<Rightarrow> Inr ([a], r))"
| "scan_redirects (a # b # as) r =
     (case a of None \<Rightarrow> Inl Fault
      | Some s \<Rightarrow>
          (case redirection s of
             Some f \<Rightarrow> rbind (scan_redirects as (f b r)) (\<lambda>(as, r). Inr (None # b # as, r))
           | None \<Rightarrow> rbind (scan_redirects (b # as) r) (\<lambda>(as, r). Inr (a # as, r))))"

definition open_failure :: "u8 list \<Rightarrow> u8 list" where
  "open_failure name = [0x6f, 0x70, 0x65, 0x6e, 0x20, 0x66, 0x69, 0x6c, 0x65, 0x20] @ name @
     [0x20, 0x66, 0x61, 0x69, 0x6c, 0x75, 0x72, 0x65, 0x0a]"

text \<open>The files are opened in this order; when one cannot be opened, those that are open are closed.\<close>

primrec open_redirects :: "'s syscalls \<Rightarrow> (u8 list option \<times> int) list \<Rightarrow> int list \<Rightarrow> ('s, int list option) op" where
  "open_redirects K [] fds = sret (Some fds)"
| "open_redirects K (x # xs) fds =
     (case fst x of None \<Rightarrow> open_redirects K xs (fds @ [- 1])
      | Some name \<Rightarrow>
          sbind (do_open K name (snd x) 493) (\<lambda>fd.
          if fd = - 1 then
            sbind (do_print K (open_failure name)) (\<lambda>_.
            sbind (sforeach (filter (\<lambda>fd. fd \<noteq> - 1) fds) (\<lambda>fd. sbind (do_close K fd) (\<lambda>_. sret ()))) (\<lambda>_. sret None))
          else open_redirects K xs (fds @ [fd])))"

definition dupfile :: "'s syscalls \<Rightarrow> argv \<Rightarrow> ('s, argv \<times> int list option) op" where
  "dupfile K argv =
     sbind (slift (scan_redirects argv \<lparr>rd_in = None, rd_out = None, rd_err = None, rd_outappend = 0, rd_errappend = 0\<rparr>)) (\<lambda>(argv, r).
     sbind (open_redirects K [(rd_in r, 0 OR rd_outappend r OR O_CREAT_FLAG), (rd_out r, 1 OR rd_outappend r OR O_CREAT_FLAG),
       (rd_err r, 1 OR rd_errappend r OR O_CREAT_FLAG)] []) (\<lambda>fds. sret (argv, fds)))"

subsection \<open>Programs and pipes\<close>

text \<open>The strings from an entry of \<open>argv\<close> up to the next null pointer.\<close>

primrec until_null :: "argv \<Rightarrow> u8 list list" where
  "until_null [] = []"
| "until_null (a # as) = (case a of None \<Rightarrow> [] | Some s \<Rightarrow> s # until_null as)"

definition close_fd :: "'s syscalls \<Rightarrow> int \<Rightarrow> ('s, unit) op" where
  "close_fd K fd = (if fd \<noteq> - 1 then sbind (do_close K fd) (\<lambda>_. sret ()) else sret ())"

definition move_fd :: "'s syscalls \<Rightarrow> int \<Rightarrow> int \<Rightarrow> ('s, unit) op" where
  "move_fd K fd std = (if fd \<noteq> - 1 then sbind (do_dup2 K fd std) (\<lambda>_. sbind (do_close K fd) (\<lambda>_. sret ())) else sret ())"

text \<open>In the child \<open>exit\<close> does not return.\<close>

definition builtin_command :: "'s syscalls \<Rightarrow> u8 list \<Rightarrow> u8 list list option \<Rightarrow> int \<Rightarrow> int \<Rightarrow> int \<Rightarrow> ('s, int) op" where
  "builtin_command K filename argv infd outfd errfd =
     sbind (do_fork K) (\<lambda>pid.
     if pid \<noteq> 0 then
       sbind (close_fd K infd) (\<lambda>_. sbind (close_fd K outfd) (\<lambda>_. sbind (close_fd K errfd) (\<lambda>_. sret pid)))
     else
       sbind (move_fd K infd 0) (\<lambda>_. sbind (move_fd K outfd 1) (\<lambda>_. sbind (move_fd K errfd 2) (\<lambda>_.
       sbind (do_execve K filename argv shell_env) (\<lambda>i. sbind (do_exit K i) (\<lambda>_. sret 0))))))"

text \<open>The state of the loop over the arguments; \<open>ex\_off\<close> is the place of \<open>name\<close> in the array \<open>buf\<close>.\<close>

record exec_state =
  ex_argv :: argv
  ex_p :: bool
  ex_bargv :: "nat option"
  ex_buf :: "u8 list"
  ex_off :: nat
  ex_in :: int
  ex_count :: nat

definition ex_name :: "exec_state \<Rightarrow> u8 list" where
  "ex_name e = cstring (drop (ex_off e) (ex_buf e))"

definition ex_args :: "exec_state \<Rightarrow> u8 list list option" where
  "ex_args e = map_option (\<lambda>i. until_null (drop i (ex_argv e))) (ex_bargv e)"

text \<open>\<open>sprintf(name, "/bin/%s.out", s)\<close>, with the terminator.\<close>

definition put_name :: "u8 list \<Rightarrow> exec_state \<Rightarrow> exec_state res" where
  "put_name s e =
     (let xs = [0x2f, 0x62, 0x69, 0x6e, 0x2f] @ s @ [0x2e, 0x6f, 0x75, 0x74, 0]
      in if ex_off e + length xs \<le> length (ex_buf e) then Inr (e\<lparr>ex_buf := put (ex_buf e) (ex_off e) xs\<rparr>) else Inl Fault)"

definition not_found :: "u8 list \<Rightarrow> u8 list" where
  "not_found s = [0x6f, 0x73, 0x68, 0x3a, 0x20, 0x63, 0x6f, 0x6d, 0x6d, 0x61, 0x6e, 0x64, 0x20, 0x6e, 0x6f, 0x74, 0x20,
     0x66, 0x6f, 0x75, 0x6e, 0x64, 0x3a, 0x20] @ s @ [0x0a]"

text \<open>Entry \<open>i\<close>: the sign of a pipe, the name of a program, or an argument; \<open>None\<close> when the command is not found.\<close>

definition exec_arg :: "'s syscalls \<Rightarrow> nat \<Rightarrow> exec_state \<Rightarrow> ('s, exec_state option) op" where
  "exec_arg K i e =
     (case ex_argv e ! i of None \<Rightarrow> sret (Some e)
      | Some s \<Rightarrow>
          if \<not> ex_p e \<and> s = [0x7c] then
            let e = e\<lparr>ex_argv := (ex_argv e)[i := None]\<rparr>
            in sbind (do_pipe K) (\<lambda>(rfd, wfd).
               sbind (builtin_command K (ex_name e) (ex_args e) (ex_in e) wfd (- 1)) (\<lambda>_.
               sret (Some (e\<lparr>ex_count := ex_count e + 1, ex_in := rfd, ex_off := ex_off e + length (ex_name e) + 1, ex_p := True\<rparr>))))
          else if \<not> ex_p e then sret (Some e)
          else sbind (slift (put_name s e)) (\<lambda>e.
               sbind (do_stat K (ex_name e)) (\<lambda>r.
               if r = - 1 then sbind (do_print K (not_found s)) (\<lambda>_. sret None)
               else sret (Some (e\<lparr>ex_bargv := Some (i + 1), ex_p := False\<rparr>)))))"

primrec exec_loop :: "'s syscalls \<Rightarrow> nat list \<Rightarrow> exec_state \<Rightarrow> ('s, exec_state option) op" where
  "exec_loop K [] e = sret (Some e)"
| "exec_loop K (i # is) e =
     sbind (exec_arg K i e) (\<lambda>r. case r of None \<Rightarrow> sret None | Some e \<Rightarrow> exec_loop K is e)"

definition builtin_exec :: "'s syscalls \<Rightarrow> u8 list \<Rightarrow> argv \<Rightarrow> ('s, unit) op" where
  "builtin_exec K buf argv =
     sbind (dupfile K argv) (\<lambda>(argv, fds).
     case fds of None \<Rightarrow> sret ()
     | Some fds \<Rightarrow>
         sbind (exec_loop K [0..<length argv] \<lparr>ex_argv = argv, ex_p = True, ex_bargv = None, ex_buf = buf, ex_off = 0,
           ex_in = fds ! 0, ex_count = 0\<rparr>) (\<lambda>r.
         case r of None \<Rightarrow> sret ()
         | Some e \<Rightarrow>
             sbind (builtin_command K (ex_name e) (ex_args e) (ex_in e) (fds ! 1) (fds ! 2)) (\<lambda>_.
             sforeach [0..<ex_count e + 1] (\<lambda>_. sbind (do_waitpid K (- 1)) (\<lambda>_. sret ())))))"

subsection \<open>The built-in commands\<close>

text \<open>A command that does nothing when it has too few arguments.\<close>

definition with_args :: "nat \<Rightarrow> argv \<Rightarrow> ('s, unit) op \<Rightarrow> ('s, unit) op" where
  "with_args n argv f = (if length argv < n then sret () else f)"

definition with_arg :: "argv \<Rightarrow> nat \<Rightarrow> (u8 list \<Rightarrow> ('s, int) op) \<Rightarrow> ('s, unit) op" where
  "with_arg argv i f = sbind (slift (arg argv i)) (\<lambda>s. sbind (f s) (\<lambda>_. sret ()))"

definition builtin_pwd :: "'s syscalls \<Rightarrow> ('s, unit) op" where
  "builtin_pwd K = sbind (do_getcwd K) (\<lambda>cwd. do_print K (cwd @ [0x0a]))"

definition builtin_cd :: "'s syscalls \<Rightarrow> argv \<Rightarrow> ('s, unit) op" where
  "builtin_cd K argv = sbind (do_chdir K (if 1 < length argv then argv ! 1 else None)) (\<lambda>_. sret ())"

definition builtin_mkdir :: "'s syscalls \<Rightarrow> argv \<Rightarrow> ('s, unit) op" where
  "builtin_mkdir K argv = with_args 2 argv (with_arg argv 1 (\<lambda>s. do_mkdir K s 493))"

definition builtin_rmdir :: "'s syscalls \<Rightarrow> argv \<Rightarrow> ('s, unit) op" where
  "builtin_rmdir K argv = with_args 2 argv (with_arg argv 1 (do_rmdir K))"

definition builtin_rm :: "'s syscalls \<Rightarrow> argv \<Rightarrow> ('s, unit) op" where
  "builtin_rm K argv = with_args 2 argv (with_arg argv 1 (do_unlink K))"

definition builtin_touch :: "'s syscalls \<Rightarrow> argv \<Rightarrow> ('s, unit) op" where
  "builtin_touch K argv = with_args 2 argv (with_arg argv 1 (\<lambda>s. sbind (do_creat K s 493) (do_close K)))"

definition builtin_mount :: "'s syscalls \<Rightarrow> argv \<Rightarrow> ('s, unit) op" where
  "builtin_mount K argv = with_args 3 argv (with_arg argv 1 (\<lambda>a. sbind (slift (arg argv 2)) (\<lambda>b. do_mount K a b 0)))"

definition builtin_umount :: "'s syscalls \<Rightarrow> argv \<Rightarrow> ('s, unit) op" where
  "builtin_umount K argv = with_args 2 argv (with_arg argv 1 (do_umount K))"

definition builtin_mkfs :: "'s syscalls \<Rightarrow> argv \<Rightarrow> ('s, unit) op" where
  "builtin_mkfs K argv = with_args 2 argv (with_arg argv 1 (\<lambda>s. do_mkfs K s 0))"

text \<open>\<open>printf\<close>, for a format and its arguments; \<open>m\<close> is the memory that the pointers among them point into.\<close>

definition printf :: "'s syscalls \<Rightarrow> u8 list \<Rightarrow> u32 list \<Rightarrow> mem \<Rightarrow> ('s, int) op" where
  "printf K fmt args m =
     sbind (slift (vsprintf fmt args m)) (\<lambda>(i, out, _). sbind (do_print K (take (nat i) out)) (\<lambda>_. sret i))"

text \<open>The format is ``\%d-\%02d-\%02d \%02d:\%02d:\%02d''.\<close>

definition strftime :: "u32 \<Rightarrow> tm \<Rightarrow> u8 list res" where
  "strftime stamp t0 =
     (let t = localtime stamp t0; d2 = [0x25, 0x30, 0x32, 0x64]
      in rbind (vsprintf ([0x25, 0x64, 0x2d] @ d2 @ [0x2d] @ d2 @ [0x20] @ d2 @ [0x3a] @ d2 @ [0x3a] @ d2)
           (map word_of_int [tm_year t + 1900, tm_mon t, tm_mday t, tm_hour t, tm_min t, tm_sec t]) (\<lambda>_. 0))
         (\<lambda>(_, out, _). Inr (cstring out)))"

definition builtin_date :: "'s syscalls \<Rightarrow> tm \<Rightarrow> ('s, unit) op" where
  "builtin_date K t0 = sbind (do_time K) (\<lambda>t. sbind (slift (strftime t t0)) (\<lambda>s. do_print K (s @ [0x0a])))"

subsection \<open>The shell\<close>

text \<open>\<open>exit\<close> does not return.\<close>

definition builtin_exit :: "'s syscalls \<Rightarrow> argv \<Rightarrow> ('s, unit) op" where
  "builtin_exit K argv = sbind (if length argv = 2 then slift (arg argv 1) else sret [0x30]) (\<lambda>s. do_exit K (atoi (Some s)))"

text \<open>The names are ``test'', ``pwd'', ``clear'', ``exit'', ``cd'', ``mkdir'', ``rmdir'', ``rm'', ``touch'', ``date'',
``mount'', ``umount'' and ``mkfs''; \<open>buf\<close> and \<open>t0\<close> are what the static array and the structure \<open>tm\<close> held before.\<close>

definition execute :: "'s syscalls \<Rightarrow> u8 list \<Rightarrow> tm \<Rightarrow> argv \<Rightarrow> ('s, unit) op" where
  "execute K buf t0 argv =
     sbind (slift (arg argv 0)) (\<lambda>line.
     if line = [0x74, 0x65, 0x73, 0x74] then sret ()
     else if line = [0x70, 0x77, 0x64] then builtin_pwd K
     else if line = [0x63, 0x6c, 0x65, 0x61, 0x72] then do_clear K
     else if line = [0x65, 0x78, 0x69, 0x74] then builtin_exit K argv
     else if line = [0x63, 0x64] then builtin_cd K argv
     else if line = [0x6d, 0x6b, 0x64, 0x69, 0x72] then builtin_mkdir K argv
     else if line = [0x72, 0x6d, 0x64, 0x69, 0x72] then builtin_rmdir K argv
     else if line = [0x72, 0x6d] then builtin_rm K argv
     else if line = [0x74, 0x6f, 0x75, 0x63, 0x68] then builtin_touch K argv
     else if line = [0x64, 0x61, 0x74, 0x65] then builtin_date K t0
     else if line = [0x6d, 0x6f, 0x75, 0x6e, 0x74] then builtin_mount K argv
     else if line = [0x75, 0x6d, 0x6f, 0x75, 0x6e, 0x74] then builtin_umount K argv
     else if line = [0x6d, 0x6b, 0x66, 0x73] then builtin_mkfs K argv
     else builtin_exec K buf argv)"

text \<open>One turn of the loop of \<open>main\<close>; the value is the keys that are left.\<close>

definition shell_turn :: "'s syscalls \<Rightarrow> u8 list \<Rightarrow> tm \<Rightarrow> u8 option list \<Rightarrow> ('s, u8 option list) op" where
  "shell_turn K buf t0 keys =
     sbind (print_prompt K) (\<lambda>_.
     sbind (slift (readline MAX_CMD_LEN keys)) (\<lambda>(cmd, keys, echo).
     sbind (sforeach echo (\<lambda>c. do_print K [c])) (\<lambda>_.
     if cmd ! 0 = 0 then sret keys
     else sbind (slift (cmd_parse cmd)) (\<lambda>(argv, cmd).
          sbind (execute K buf t0 (map (Some \<circ> arg_string cmd) argv)) (\<lambda>_. sret keys)))))"

text \<open>A line of blanks has no argument, and the null pointer is compared with the names of the commands.\<close>

lemma execute_no_argument: "execute K buf t0 [] s = Inl Fault"
  by (simp add: execute_def arg_def)

text \<open>A redirection keeps the other arguments: the operator is cleared, and the name of the file stays behind it.\<close>

lemma scan_redirects_plain:
  "\<forall>a\<in>set argv. \<exists>s. a = Some s \<and> redirection s = None \<Longrightarrow> scan_redirects argv r = Inr (argv, r)"
proof (induction argv r rule: scan_redirects.induct)
  case (3 a b as r)
  then obtain s where "a = Some s" "redirection s = None" by auto
  with 3 show ?case by simp
qed auto

text \<open>When a file of a redirection cannot be opened, exactly the files that were opened before are closed.\<close>

lemma open_redirects_rollback:
  assumes "do_open K name flags 493 s = Inr (- 1, s1)" "do_print K (open_failure name) s1 = Inr ((), s2)"
  shows "open_redirects K ((Some name, flags) # xs) fds s =
    sbind (sforeach (filter (\<lambda>fd. fd \<noteq> - 1) fds) (\<lambda>fd. sbind (do_close K fd) (\<lambda>_. sret ()))) (\<lambda>_. sret None) s2"
  using assms by (simp add: sbind_run)

end
