(* ===== verification/Userland.thy ===== *)
theory Userland
  imports Osh Fs
begin

text \<open>
  The other programs of the users, \<open>src/src/builtin\<close>: listing a directory, copying files and keys to the
  terminal, and the first program, which keeps a shell running. They use a few more system calls than the
  shell; a loop that goes on as long as its input does is a partial function.
\<close>

unbundle bit_operations_syntax

record stat_buf =
  sb_mode :: int
  sb_nlinks :: u32
  sb_uid :: u32
  sb_gid :: u32
  sb_size :: u32
  sb_ctime :: u32

record 's programs = "'s syscalls" +
  do_read :: "int \<Rightarrow> nat \<Rightarrow> ('s, int \<times> u8 list) op"
  do_write :: "int \<Rightarrow> u8 list \<Rightarrow> ('s, int) op"
  do_lseek :: "int \<Rightarrow> int \<Rightarrow> int \<Rightarrow> ('s, int) op"
  do_readdir :: "int \<Rightarrow> ('s, int \<times> u32 \<times> u8 list) op"
  do_statbuf :: "u8 list \<Rightarrow> ('s, stat_buf) op"
  do_wait :: "int \<Rightarrow> ('s, int \<times> int) op"
  do_getpid :: "('s, int) op"

abbreviation calls :: "'s programs \<Rightarrow> 's syscalls" where
  "calls K \<equiv> syscalls.truncate K"

subsection \<open>ls\<close>

text \<open>The letter of the kind of a file, and the letters of a group of three bits.\<close>

definition kind_char :: "int \<Rightarrow> u8" where
  "kind_char mode =
     (let f = mode AND IFMT
      in if f = IFREG then 0x2d else if f = IFBLK then 0x62 else if f = IFDIR then 0x64 else if f = IFCHR then 0x63
         else if f = 0x1000 then 0x70 else if f = 0xa000 then 0x6c else if f = 0xc000 then 0x73 else 0x3f)"

definition rwx :: "int \<Rightarrow> u8 list" where
  "rwx fmt = [if fmt AND 4 \<noteq> 0 then 0x72 else 0x2d, if fmt AND 2 \<noteq> 0 then 0x77 else 0x2d, if fmt AND 1 \<noteq> 0 then 0x78 else 0x2d]"

definition parsemode :: "int \<Rightarrow> u8 list" where
  "parsemode mode = kind_char mode # concat (map (\<lambda>i. rwx (drop_bit i mode AND 7)) [6, 3, 0])"

text \<open>The letters of the sizes; the loop divides until nothing is left, and fails behind the last letter.\<close>

definition qualifies :: "u8 list" where
  "qualifies = [0x42, 0x4b, 0x4d, 0x47, 0x54]"

primrec size_loop :: "u8 list \<Rightarrow> int \<Rightarrow> int \<times> u8 \<Rightarrow> (int \<times> u8) res" where
  "size_loop [] num r = (if num \<noteq> 0 then Inl Fault else Inr r)"
| "size_loop (q # qs) num r = (if num \<noteq> 0 then size_loop qs (drop_bit 10 num) (num, q) else Inr r)"

definition reckon_size :: "int \<Rightarrow> (int \<times> u8) res" where
  "reckon_size sz = size_loop qualifies sz (sz, 0x42)"

text \<open>The format is ``\% 2d \% 2d \% 2d \% 4d\%c \%s \%s''; the texts are put behind what \<open>vsprintf\<close> prints for the numbers.\<close>

definition list_line :: "stat_buf \<Rightarrow> u8 list \<Rightarrow> tm \<Rightarrow> u8 list res" where
  "list_line st name t0 =
     (let d2 = [0x25, 0x20, 0x32, 0x64, 0x20]
      in rbind (strftime (sb_ctime st) t0) (\<lambda>time.
         rbind (reckon_size (sint (sb_size st))) (\<lambda>(n, q).
         rbind (vsprintf (d2 @ d2 @ d2 @ [0x25, 0x20, 0x34, 0x64, 0x25, 0x63]) [sb_nlinks st, sb_uid st, sb_gid st, word_of_int n, ucast q] (\<lambda>_. 0))
           (\<lambda>(_, out, _). Inr (parsemode (sb_mode st) @ [0x20] @ cstring out @ [0x20] @ time @ [0x20] @ name @ [0x0a])))))"

partial_function (option) ls_loop :: "'s programs \<Rightarrow> bool \<Rightarrow> tm \<Rightarrow> int \<Rightarrow> 's \<Rightarrow> (unit \<times> 's) res option" where
  "ls_loop K list t0 fd s =
     lbind (do_readdir K fd s) (\<lambda>((len, nr, name), s).
     if len = - 1 then Some (Inr ((), s))
     else if nr = 0 \<or> name = [0x2e] \<or> name = [0x2e, 0x2e] then ls_loop K list t0 fd s
     else if \<not> list then lbind (do_print K (name @ [0x20]) s) (\<lambda>(_, s). ls_loop K list t0 fd s)
     else lbind (do_statbuf K name s) (\<lambda>(st, s).
          lbind (list_line st name t0) (\<lambda>line. lbind (do_print K line s) (\<lambda>(_, s). ls_loop K list t0 fd s))))"

text \<open>The value is that of \<open>main\<close>; the argument is ``-l''.\<close>

definition ls_main :: "'s programs \<Rightarrow> u8 list list \<Rightarrow> tm \<Rightarrow> ('s, int) op" where
  "ls_main K argv t0 =
     sbind (do_open K [0x2e] 0 0) (\<lambda>fd.
     if fd = - 1 then sret (- 1)
     else let list = (length argv = 2 \<and> argv ! 1 = [0x2d, 0x6c])
          in sbind (do_lseek K fd 0 1) (\<lambda>_.
             sbind (\<lambda>s. run_loop (ls_loop K list t0 fd s)) (\<lambda>_.
             sbind (if list then sret () else do_print K [0x0a]) (\<lambda>_.
             sbind (do_close K fd) (\<lambda>_. sret 0)))))"

subsection \<open>cat, dup, echo, env\<close>

partial_function (option) cat_loop :: "'s programs \<Rightarrow> int \<Rightarrow> 's \<Rightarrow> (unit \<times> 's) res option" where
  "cat_loop K fd s =
     lbind (do_read K fd 1024 s) (\<lambda>((len, bs), s).
     if len = - 1 then Some (Inr ((), s)) else lbind (do_write K 1 bs s) (\<lambda>(_, s). cat_loop K fd s))"

text \<open>The message is ``file \%s not exists.''.\<close>

definition cat_main :: "'s programs \<Rightarrow> u8 list list \<Rightarrow> ('s, int) op" where
  "cat_main K argv =
     (if length argv < 2 then sret (- 1)
      else sbind (do_open K (argv ! 1) 0 0) (\<lambda>fd.
           if fd = - 1 then
             sbind (do_print K ([0x66, 0x69, 0x6c, 0x65, 0x20] @ argv ! 1 @ [0x20, 0x6e, 0x6f, 0x74, 0x20, 0x65, 0x78, 0x69, 0x73, 0x74, 0x73, 0x2e, 0x0a]))
               (\<lambda>_. sret (- 1))
           else sbind (\<lambda>s. run_loop (cat_loop K fd s)) (\<lambda>_. sbind (do_close K fd) (\<lambda>_. sret 0))))"

partial_function (option) dup_loop :: "'s programs \<Rightarrow> 's \<Rightarrow> (unit \<times> 's) res option" where
  "dup_loop K s =
     lbind (do_read K 0 1 s) (\<lambda>((n, bs), s).
     if n = - 1 then Some (Inr ((), s))
     else lbind (do_write K 1 bs s) (\<lambda>(_, s).
          if bs = [0x0a] then Some (Inr ((), s)) else lbind (do_write K 1 bs s) (\<lambda>(_, s). dup_loop K s)))"

definition dup_main :: "'s programs \<Rightarrow> ('s, int) op" where
  "dup_main K = sbind (\<lambda>s. run_loop (dup_loop K s)) (\<lambda>_. sret 0)"

text \<open>Each argument is the format of a \<open>printf\<close> without further arguments.\<close>

definition echo_arg :: "'s programs \<Rightarrow> u8 list list \<Rightarrow> nat \<Rightarrow> ('s, unit) op" where
  "echo_arg K argv i =
     sbind (printf (calls K) (argv ! i) [] (\<lambda>_. 0)) (\<lambda>_.
     if i + 1 < length argv then do_print K [0x20] else sret ())"

definition echo_main :: "'s programs \<Rightarrow> u8 list list \<Rightarrow> ('s, int) op" where
  "echo_main K argv =
     sbind (sforeach [1..<length argv] (echo_arg K argv)) (\<lambda>_. sbind (do_print K [0x0a]) (\<lambda>_. sret 0))"

definition env_main :: "'s programs \<Rightarrow> u8 list list \<Rightarrow> u8 list list \<Rightarrow> ('s, int) op" where
  "env_main K argv envp =
     sbind (sforeach argv (\<lambda>a. do_print K (a @ [0x0a]))) (\<lambda>_.
     sbind (sforeach envp (\<lambda>e. if length e \<ge> 1022 then sret () else do_print K (e @ [0x0a]))) (\<lambda>_. sret 0))"

subsection \<open>init\<close>

text \<open>
  One turn of the loop: the parent waits for the shell and reports its end, the child becomes it. The
  formats are ``wait pid \%d status \%d'' and ``execve /bin/osh.out error \%d''. \<open>exit\<close> does not return.
\<close>

definition init_turn :: "'s programs \<Rightarrow> ('s, unit) op" where
  "init_turn K =
     (let osh = [0x2f, 0x62, 0x69, 0x6e, 0x2f, 0x6f, 0x73, 0x68, 0x2e, 0x6f, 0x75, 0x74]
      in sbind (do_fork K) (\<lambda>pid.
         if pid \<noteq> 0 then
           sbind (do_wait K pid) (\<lambda>(child, status).
           sbind (printf (calls K) [0x77, 0x61, 0x69, 0x74, 0x20, 0x70, 0x69, 0x64, 0x20, 0x25, 0x64, 0x20, 0x73, 0x74, 0x61, 0x74, 0x75, 0x73, 0x20, 0x25, 0x64, 0xa]
             [word_of_int child, word_of_int status] (\<lambda>_. 0)) (\<lambda>_. sret ()))
         else
           sbind (do_execve K osh None []) (\<lambda>err.
           sbind (printf (calls K) ([0x65, 0x78, 0x65, 0x63, 0x76, 0x65, 0x20] @ osh @ [0x20, 0x65, 0x72, 0x72, 0x6f, 0x72, 0x20, 0x25, 0x64, 0xa])
             [word_of_int err] (\<lambda>_. 0)) (\<lambda>_. do_exit K err))))"

partial_function (option) init_loop :: "'s programs \<Rightarrow> 's \<Rightarrow> (unit \<times> 's) res option" where
  "init_loop K s = lbind (init_turn K s) (\<lambda>(_, s). init_loop K s)"

text \<open>The message is ``init already running ...''.\<close>

definition init_main :: "'s programs \<Rightarrow> ('s, int) op" where
  "init_main K =
     sbind (do_getpid K) (\<lambda>pid.
     if pid \<noteq> 1 then sbind (do_print K [0x69, 0x6e, 0x69, 0x74, 0x20, 0x61, 0x6c, 0x72, 0x65, 0x61, 0x64, 0x79, 0x20, 0x72, 0x75, 0x6e, 0x6e, 0x69, 0x6e, 0x67, 0x20, 0x2e, 0x2e, 0x2e, 0xa]) (\<lambda>_. sret 0)
     else sbind (\<lambda>s. run_loop (init_loop K s)) (\<lambda>_. sret 0))"

subsection \<open>What is printed\<close>

text \<open>Behind the kind come nine letters, one for each permission bit, a dash where the bit is clear.\<close>

lemma rwx_nth: "i < 3 \<Longrightarrow> rwx fmt ! i \<noteq> 0x2d \<longleftrightarrow> bit fmt (2 - i)"
proof -
  have "(fmt AND 4 \<noteq> 0) = bit fmt 2" "(fmt AND 2 \<noteq> 0) = bit fmt 1" "(fmt AND 1 \<noteq> 0) = bit fmt 0"
    using bit_iff_and_push_bit_not_eq_0 [of fmt 2] bit_iff_and_push_bit_not_eq_0 [of fmt 1] bit_iff_and_push_bit_not_eq_0 [of fmt 0]
    by simp_all
  then show "i < 3 \<Longrightarrow> rwx fmt ! i \<noteq> 0x2d \<longleftrightarrow> bit fmt (2 - i)"
    by (auto simp: rwx_def less_Suc_eq numeral_3_eq_3)
qed

text \<open>The size of a file is printed in the largest unit that does not make it 0: below 1024 of that unit.\<close>

lemma size_loop_unit:
  "0 < num \<Longrightarrow> num < 1024 ^ length qs \<Longrightarrow> qs \<noteq> [] \<Longrightarrow>
   \<exists>k<length qs. size_loop qs num r = Inr (num div 1024 ^ k, qs ! k) \<and> 0 < num div 1024 ^ k \<and> num div 1024 ^ k < 1024"
proof (induction qs arbitrary: num r)
  case (Cons q qs)
  have d: "drop_bit 10 num = num div 1024" by (simp add: drop_bit_eq_div)
  show ?case
  proof (cases "num < 1024")
    case True
    then have "size_loop (q # qs) num r = Inr (num, q)" using Cons.prems(1) d by (cases qs) auto
    with True Cons.prems(1) show ?thesis by (intro exI [of _ 0]) simp
  next
    case False
    then have n: "0 < num div 1024" by (simp add: pos_imp_zdiv_pos_iff)
    have "qs \<noteq> []" using Cons.prems(2) False by (cases qs) auto
    moreover have "num div 1024 < 1024 ^ length qs"
    proof -
      have "num < 1024 * 1024 ^ length qs" using Cons.prems(2) by simp
      then show ?thesis by linarith
    qed
    ultimately obtain k where "k < length qs" "size_loop qs (num div 1024) (num, q) = Inr (num div 1024 div 1024 ^ k, qs ! k)"
        "0 < num div 1024 div 1024 ^ k" "num div 1024 div 1024 ^ k < 1024"
      using Cons.IH [of "num div 1024" "(num, q)"] n by blast
    then show ?thesis
      using Cons.prems(1) d by (intro exI [of _ "Suc k"]) (simp add: zdiv_zmult2_eq [symmetric])
  qed
qed simp

end
