(* ===== verification/Segments.thy ===== *)
theory Segments
  imports Prelude
begin

text \<open>
  The segments of the processor, \<open>src/src/kernel/global.c\<close> with its header: the descriptors of the flat
  code and data segments of the kernel and of the users, and the task state segment. A bit field of a
  descriptor is a number of its width; the layout of the fields is the hardware's.
\<close>

unbundle bit_operations_syntax

definition GDT_SIZE :: nat where "GDT_SIZE = 128"
definition KERNEL_CODE_IDX :: nat where "KERNEL_CODE_IDX = 1"
definition KERNEL_DATA_IDX :: nat where "KERNEL_DATA_IDX = 2"
definition KERNEL_TSS_IDX :: nat where "KERNEL_TSS_IDX = 3"
definition USER_CODE_IDX :: nat where "USER_CODE_IDX = 4"
definition USER_DATA_IDX :: nat where "USER_DATA_IDX = 5"
definition SIZEOF_TSS :: u32 where "SIZEOF_TSS = 108"

record descriptor =
  limit_low :: "16 word"
  base_low :: "24 word"
  seg_type :: "4 word"
  segment :: "1 word"
  DPL :: "2 word"
  present :: "1 word"
  limit_high :: "4 word"
  available :: "1 word"
  long_mode :: "1 word"
  big :: "1 word"
  granularity :: "1 word"
  base_high :: "8 word"

definition null_descriptor :: descriptor where
  "null_descriptor = \<lparr>limit_low = 0, base_low = 0, seg_type = 0, segment = 0, DPL = 0, present = 0, limit_high = 0,
     available = 0, long_mode = 0, big = 0, granularity = 0, base_high = 0\<rparr>"

record tss =
  tss_esp0 :: u32
  tss_ss0 :: u32
  tss_iobase :: u16

record segments =
  gdt :: "descriptor list"
  gdt_base :: u32
  gdt_limit :: u16
  tss_seg :: tss
  task_register :: u16

definition descriptor_init :: "u32 \<Rightarrow> u32 \<Rightarrow> descriptor \<Rightarrow> descriptor" where
  "descriptor_init base limit desc = desc\<lparr>base_low := ucast (base AND 0xffffff), base_high := ucast (drop_bit 24 base AND 0xff),
     limit_low := ucast (limit AND 0xffff), limit_high := ucast (drop_bit 16 limit AND 0xf)\<rparr>"

text \<open>The flat segment of 4 gigabytes, in units of pages.\<close>

definition flat :: "4 word \<Rightarrow> 2 word \<Rightarrow> descriptor \<Rightarrow> descriptor" where
  "flat ty dpl desc = (descriptor_init 0 0xFFFFF desc)\<lparr>seg_type := ty, segment := 1, DPL := dpl, present := 1, long_mode := 0,
     big := 1, granularity := 1\<rparr>"

text \<open>\<open>gdt\_at\<close> and \<open>tss\_at\<close> are the addresses of the static variables.\<close>

definition gdt_init :: "u32 \<Rightarrow> segments \<Rightarrow> segments" where
  "gdt_init gdt_at s =
     (let g = replicate GDT_SIZE null_descriptor;
          g = g[KERNEL_CODE_IDX := flat 0xa 0 (g ! KERNEL_CODE_IDX)];
          g = g[KERNEL_DATA_IDX := flat 0x2 0 (g ! KERNEL_DATA_IDX)];
          g = g[USER_CODE_IDX := flat 0xa 3 (g ! USER_CODE_IDX)];
          g = g[USER_DATA_IDX := flat 0x2 3 (g ! USER_DATA_IDX)]
      in s\<lparr>gdt := g, gdt_base := gdt_at, gdt_limit := of_nat (8 * GDT_SIZE - 1)\<rparr>)"

definition tss_init :: "u32 \<Rightarrow> segments \<Rightarrow> segments" where
  "tss_init tss_at s =
     s\<lparr>tss_seg := \<lparr>tss_esp0 = 0, tss_ss0 = push_bit 3 (of_nat KERNEL_DATA_IDX), tss_iobase = ucast SIZEOF_TSS\<rparr>,
       gdt := (gdt s)[KERNEL_TSS_IDX := (descriptor_init tss_at (SIZEOF_TSS - 1) (gdt s ! KERNEL_TSS_IDX))\<lparr>segment := 0,
         granularity := 0, big := 0, long_mode := 0, present := 1, DPL := 0, seg_type := 0x9\<rparr>],
       task_register := push_bit 3 (of_nat KERNEL_TSS_IDX)\<rparr>"

text \<open>The base and the limit that the processor puts together.\<close>

definition seg_base :: "descriptor \<Rightarrow> u32" where
  "seg_base d = ucast (base_low d) OR push_bit 24 (ucast (base_high d))"

definition seg_limit :: "descriptor \<Rightarrow> u32" where
  "seg_limit d = ucast (limit_low d) OR push_bit 16 (ucast (limit_high d))"

lemma descriptor_masks:
  "x AND 0xffffff = take_bit 24 (x :: u32)" "x AND 0xffff = take_bit 16 (x :: u32)"
  "x AND 0xff = take_bit 8 (x :: u32)" "x AND 0xf = take_bit 4 (x :: u32)"
  by (simp_all add: take_bit_eq_mask mask_eq_exp_minus_1)

lemma descriptor_init_base: "seg_base (descriptor_init b l d) = b"
proof (rule bit_word_eqI)
  fix n assume n: "n < LENGTH(32)"
  show "bit (seg_base (descriptor_init b l d)) n = bit b n"
  proof (cases "n < 24")
    case True
    then show ?thesis by (simp add: seg_base_def descriptor_init_def descriptor_masks bit_simps)
  next
    case False
    with n have "n - 24 < 8" "24 + (n - 24) = n" by simp_all
    with False show ?thesis by (simp add: seg_base_def descriptor_init_def descriptor_masks bit_simps)
  qed
qed

lemma descriptor_init_limit: "seg_limit (descriptor_init b l d) = take_bit 20 l"
proof (rule bit_word_eqI)
  fix n assume n: "n < LENGTH(32)"
  show "bit (seg_limit (descriptor_init b l d)) n = bit (take_bit 20 l) n"
  proof (cases "n < 16")
    case True
    then show ?thesis by (simp add: seg_limit_def descriptor_init_def descriptor_masks bit_simps)
  next
    case False
    with n have "n - 16 < 32" "16 + (n - 16) = n" "n - 16 < 4 \<longleftrightarrow> n < 20" by auto
    with False show ?thesis by (auto simp add: seg_limit_def descriptor_init_def descriptor_masks bit_simps)
  qed
qed

text \<open>The addresses that a descriptor lets a program use.\<close>

definition seg_end :: "descriptor \<Rightarrow> nat" where
  "seg_end d = unat (seg_base d) + (if granularity d = 1 then (unat (seg_limit d) + 1) * 4096 else unat (seg_limit d) + 1)"

lemma flat_whole: "seg_base (flat ty dpl d) = 0" "seg_end (flat ty dpl d) = 2 ^ 32"
proof -
  have b: "seg_base (flat ty dpl d) = seg_base (descriptor_init 0 0xFFFFF d)" by (simp add: flat_def seg_base_def)
  have l: "seg_limit (flat ty dpl d) = seg_limit (descriptor_init 0 0xFFFFF d)" by (simp add: flat_def seg_limit_def)
  show "seg_base (flat ty dpl d) = 0" by (simp add: b descriptor_init_base)
  then show "seg_end (flat ty dpl d) = 2 ^ 32" by (simp add: seg_end_def l descriptor_init_limit) (simp add: flat_def)
qed

text \<open>After the initialisation the four segments are flat, and the task state segment is the whole structure.\<close>

lemma segments_ready:
  assumes "s' = tss_init tss_at (gdt_init gdt_at s)"
  shows "i \<in> {KERNEL_CODE_IDX, KERNEL_DATA_IDX, USER_CODE_IDX, USER_DATA_IDX} \<Longrightarrow> seg_base (gdt s' ! i) = 0 \<and> seg_end (gdt s' ! i) = 2 ^ 32"
    "seg_base (gdt s' ! KERNEL_TSS_IDX) = tss_at" "seg_limit (gdt s' ! KERNEL_TSS_IDX) = SIZEOF_TSS - 1"
proof -
  note idx = GDT_SIZE_def KERNEL_CODE_IDX_def KERNEL_DATA_IDX_def KERNEL_TSS_IDX_def USER_CODE_IDX_def USER_DATA_IDX_def
  assume i: "i \<in> {KERNEL_CODE_IDX, KERNEL_DATA_IDX, USER_CODE_IDX, USER_DATA_IDX}"
  have "\<exists>ty dpl. gdt s' ! i = flat ty dpl null_descriptor"
    using i unfolding assms tss_init_def gdt_init_def Let_def idx by (auto simp only: insert_iff empty_iff simp_thms nth_list_update segments.simps segments.update_convs length_list_update length_replicate) (simp; blast)+
  then show "seg_base (gdt s' ! i) = 0 \<and> seg_end (gdt s' ! i) = 2 ^ 32" using flat_whole by metis
next
  note idx = GDT_SIZE_def KERNEL_CODE_IDX_def KERNEL_DATA_IDX_def KERNEL_TSS_IDX_def USER_CODE_IDX_def USER_DATA_IDX_def
  have t: "gdt s' ! KERNEL_TSS_IDX = (descriptor_init tss_at (SIZEOF_TSS - 1) null_descriptor)\<lparr>segment := 0,
         granularity := 0, big := 0, long_mode := 0, present := 1, DPL := 0, seg_type := 0x9\<rparr>"
    unfolding assms tss_init_def gdt_init_def Let_def idx by simp
  have "seg_base (gdt s' ! KERNEL_TSS_IDX) = seg_base (descriptor_init tss_at (SIZEOF_TSS - 1) null_descriptor)"
    "seg_limit (gdt s' ! KERNEL_TSS_IDX) = seg_limit (descriptor_init tss_at (SIZEOF_TSS - 1) null_descriptor)"
    unfolding t by (simp_all add: seg_base_def seg_limit_def)
  moreover have "take_bit 20 (SIZEOF_TSS - 1) = SIZEOF_TSS - 1" by (simp add: SIZEOF_TSS_def take_bit_eq_mask mask_eq_exp_minus_1)
  ultimately show "seg_base (gdt s' ! KERNEL_TSS_IDX) = tss_at" "seg_limit (gdt s' ! KERNEL_TSS_IDX) = SIZEOF_TSS - 1"
    by (simp_all add: descriptor_init_base descriptor_init_limit)
qed

end
