(* ===== verification/Gate.thy ===== *)
theory Gate
  imports Prelude
begin

text \<open>
  The table of the system calls, \<open>src/src/kernel/gate.c\<close>: the handler that is entered for each number of
  \<open>src/src/include/syscall.h\<close>. A handler is a name; the functions themselves are in the theories of their
  components.
\<close>

datatype handler = Sys_default | Sys_test | Sys_time | Sys_read | Sys_write | Sys_getpid | Sys_brk | Sys_getppid
  | Task_sleep | Task_yield | Task_fork | Task_exit | Task_waitpid | Sys_umask | Sys_mkdir | Sys_rmdir | Sys_link
  | Sys_unlink | Sys_open | Sys_creat | Sys_close | Sys_lseek | Sys_chdir | Sys_chroot | Sys_getcwd | Sys_readdir
  | Console_clear | Sys_stat | Sys_fstat | Sys_mknod | Sys_mount | Sys_umount | Sys_mkfs | Sys_mmap | Sys_munmap
  | Sys_execve | Sys_dup | Sys_dup2 | Sys_pipe

definition SYSCALL_SIZE :: nat where "SYSCALL_SIZE = 256"

text \<open>The numbers, with the handlers that are entered for them, in the order of the code.\<close>

definition syscall_entries :: "(nat \<times> handler) list" where
  "syscall_entries = [(0, Sys_test), (13, Sys_time), (3, Sys_read), (4, Sys_write), (20, Sys_getpid), (45, Sys_brk),
     (64, Sys_getppid), (158, Task_sleep), (162, Task_yield), (2, Task_fork), (1, Task_exit), (7, Task_waitpid),
     (60, Sys_umask), (39, Sys_mkdir), (40, Sys_rmdir), (9, Sys_link), (10, Sys_unlink), (5, Sys_open), (8, Sys_creat),
     (6, Sys_close), (19, Sys_lseek), (12, Sys_chdir), (61, Sys_chroot), (183, Sys_getcwd), (89, Sys_readdir),
     (200, Console_clear), (18, Sys_stat), (28, Sys_fstat), (14, Sys_mknod), (21, Sys_mount), (22, Sys_umount),
     (201, Sys_mkfs), (90, Sys_mmap), (91, Sys_munmap), (11, Sys_execve), (41, Sys_dup), (63, Sys_dup2), (42, Sys_pipe)]"

definition syscall_init :: "handler list" where
  "syscall_init = foldl (\<lambda>t (nr, h). t[nr := h]) (replicate SYSCALL_SIZE Sys_default) syscall_entries"

definition syscall_check :: "nat \<Rightarrow> unit res" where
  "syscall_check nr = (if nr \<ge> SYSCALL_SIZE then Inl Panic else Inr ())"

text \<open>The check, then the entry of the table; the default handler panics.\<close>

definition syscall_dispatch :: "nat \<Rightarrow> handler res" where
  "syscall_dispatch nr = rbind (syscall_check nr) (\<lambda>_. rbind (rd syscall_init nr) (\<lambda>h.
     if h = Sys_default then Inl Panic else Inr h))"

lemma entries_nth:
  "distinct (map fst es) \<Longrightarrow> \<forall>e\<in>set es. fst e < length t \<Longrightarrow> i < length t \<Longrightarrow>
   foldl (\<lambda>t (nr, h). t[nr := h]) t es ! i = (case map_of es i of None \<Rightarrow> t ! i | Some h \<Rightarrow> h)"
proof (induction es arbitrary: t)
  case (Cons e es)
  obtain a h where e: "e = (a, h)" by (cases e)
  have "foldl (\<lambda>t (nr, h). t[nr := h]) (t[a := h]) es ! i = (case map_of es i of None \<Rightarrow> t[a := h] ! i | Some h \<Rightarrow> h)"
    using Cons.IH [of "t[a := h]"] Cons.prems by simp
  moreover have "map_of es a = None" using Cons.prems(1) e by (simp add: map_of_eq_None_iff)
  ultimately show ?case using Cons.prems(2,3) e by (cases "a = i") (simp_all split: option.split)
qed simp

lemma length_entries: "length (foldl (\<lambda>t (nr, h). t[nr := h]) t es) = length t"
  by (induction es arbitrary: t) (auto split: prod.splits)

text \<open>Every number gives its own handler, and every other number panics.\<close>

lemma syscall_dispatch_entries:
  "syscall_dispatch nr = (case map_of syscall_entries nr of None \<Rightarrow> Inl Panic | Some h \<Rightarrow> Inr h)"
proof -
  have d: "distinct (map fst syscall_entries)" "\<forall>e\<in>set syscall_entries. fst e < 256 \<and> snd e \<noteq> Sys_default"
    by (simp_all add: syscall_entries_def)
  show ?thesis
  proof (cases "nr < 256")
    case True
    then have "syscall_init ! nr = (case map_of syscall_entries nr of None \<Rightarrow> Sys_default | Some h \<Rightarrow> h)"
      unfolding syscall_init_def using d by (subst entries_nth) (auto simp: SYSCALL_SIZE_def split: option.split)
    moreover have "map_of syscall_entries nr \<noteq> Some Sys_default" using d(2) by (force dest: map_of_SomeD)
    moreover have "length syscall_init = 256" by (simp add: syscall_init_def length_entries SYSCALL_SIZE_def)
    ultimately show ?thesis
      using True by (auto simp: syscall_dispatch_def syscall_check_def SYSCALL_SIZE_def split: option.split)
  next
    case False
    then have "map_of syscall_entries nr = None" using d(2) by (force simp: map_of_eq_None_iff)
    with False show ?thesis by (simp add: syscall_dispatch_def syscall_check_def SYSCALL_SIZE_def)
  qed
qed

text \<open>No two numbers share a handler.\<close>

lemma syscall_handlers_distinct: "distinct (map snd syscall_entries)"
  by (simp add: syscall_entries_def)

end
