(* ===== verification/Stubs.thy ===== *)
theory Stubs
  imports Gate
begin

text \<open>
  The library of the user programs, \<open>src/src/lib/syscall.c\<close>: each function puts the number of its system
  call and its arguments into the registers and enters the kernel with the interrupt 0x80. A function is
  modelled by those registers; the entry code pushes them as the arguments of the handler, and what the
  handler returns in the register \<open>eax\<close> is the value of the function.
\<close>

record registers =
  eax :: u32
  ebx :: u32
  ecx :: u32
  edx :: u32
  esi :: u32
  edi :: u32
  ebp :: u32

text \<open>Registers that a call does not set keep what they held; it does not matter here and is taken as 0.\<close>

definition syscall0 :: "u32 \<Rightarrow> registers" where
  "syscall0 nr = \<lparr>eax = nr, ebx = 0, ecx = 0, edx = 0, esi = 0, edi = 0, ebp = 0\<rparr>"

definition syscall1 :: "u32 \<Rightarrow> u32 \<Rightarrow> registers" where
  "syscall1 nr a = (syscall0 nr)\<lparr>ebx := a\<rparr>"

definition syscall2 :: "u32 \<Rightarrow> u32 \<Rightarrow> u32 \<Rightarrow> registers" where
  "syscall2 nr a b = (syscall1 nr a)\<lparr>ecx := b\<rparr>"

definition syscall3 :: "u32 \<Rightarrow> u32 \<Rightarrow> u32 \<Rightarrow> u32 \<Rightarrow> registers" where
  "syscall3 nr a b c = (syscall2 nr a b)\<lparr>edx := c\<rparr>"

definition syscall4 :: "u32 \<Rightarrow> u32 \<Rightarrow> u32 \<Rightarrow> u32 \<Rightarrow> u32 \<Rightarrow> registers" where
  "syscall4 nr a b c d = (syscall3 nr a b c)\<lparr>esi := d\<rparr>"

definition syscall5 :: "u32 \<Rightarrow> u32 \<Rightarrow> u32 \<Rightarrow> u32 \<Rightarrow> u32 \<Rightarrow> u32 \<Rightarrow> registers" where
  "syscall5 nr a b c d e = (syscall4 nr a b c d)\<lparr>edi := e\<rparr>"

definition syscall6 :: "u32 \<Rightarrow> u32 \<Rightarrow> u32 \<Rightarrow> u32 \<Rightarrow> u32 \<Rightarrow> u32 \<Rightarrow> u32 \<Rightarrow> registers" where
  "syscall6 nr a b c d e f = (syscall5 nr a b c d e)\<lparr>ebp := f\<rparr>"

subsection \<open>The functions\<close>

definition libc_test :: "registers" where
  "libc_test = syscall0 0"

definition libc_getpid :: "registers" where
  "libc_getpid = syscall0 20"

definition libc_brk :: "u32 \<Rightarrow> registers" where
  "libc_brk addr = syscall1 45 addr"

definition libc_mmap :: "u32 \<Rightarrow> u32 \<Rightarrow> u32 \<Rightarrow> u32 \<Rightarrow> u32 \<Rightarrow> u32 \<Rightarrow> registers" where
  "libc_mmap addr len prot flags fd off = syscall6 90 addr len prot flags fd off"

definition libc_munmap :: "u32 \<Rightarrow> u32 \<Rightarrow> registers" where
  "libc_munmap addr len = syscall2 91 addr len"

definition libc_open :: "u32 \<Rightarrow> u32 \<Rightarrow> u32 \<Rightarrow> registers" where
  "libc_open filename flags mode = syscall3 5 filename flags mode"

definition libc_creat :: "u32 \<Rightarrow> u32 \<Rightarrow> registers" where
  "libc_creat filename mode = syscall2 8 filename mode"

definition libc_close :: "u32 \<Rightarrow> registers" where
  "libc_close fd = syscall1 6 fd"

definition libc_getppid :: "registers" where
  "libc_getppid = syscall0 64"

definition libc_yield :: "registers" where
  "libc_yield = syscall0 162"

definition libc_sleep :: "u32 \<Rightarrow> registers" where
  "libc_sleep ms = syscall1 158 ms"

definition libc_read :: "u32 \<Rightarrow> u32 \<Rightarrow> u32 \<Rightarrow> registers" where
  "libc_read fd buf len = syscall3 3 fd buf len"

definition libc_write :: "u32 \<Rightarrow> u32 \<Rightarrow> u32 \<Rightarrow> registers" where
  "libc_write fd buf len = syscall3 4 fd buf len"

definition libc_fork :: "registers" where
  "libc_fork = syscall0 2"

definition libc_exit :: "u32 \<Rightarrow> registers" where
  "libc_exit status = syscall1 1 status"

definition libc_waitpid :: "u32 \<Rightarrow> u32 \<Rightarrow> registers" where
  "libc_waitpid pid status = syscall2 7 pid status"

definition libc_time :: "registers" where
  "libc_time = syscall0 13"

definition libc_umask :: "u32 \<Rightarrow> registers" where
  "libc_umask msk = syscall1 60 msk"

definition libc_mkdir :: "u32 \<Rightarrow> u32 \<Rightarrow> registers" where
  "libc_mkdir pathname mode = syscall2 39 pathname mode"

definition libc_rmdir :: "u32 \<Rightarrow> registers" where
  "libc_rmdir pathname = syscall1 40 pathname"

definition libc_link :: "u32 \<Rightarrow> u32 \<Rightarrow> registers" where
  "libc_link oldname name = syscall2 9 oldname name"

definition libc_unlink :: "u32 \<Rightarrow> registers" where
  "libc_unlink filename = syscall1 10 filename"

definition libc_lseek :: "u32 \<Rightarrow> u32 \<Rightarrow> u32 \<Rightarrow> registers" where
  "libc_lseek fd off whence = syscall3 19 fd off whence"

definition libc_getcwd :: "u32 \<Rightarrow> u32 \<Rightarrow> registers" where
  "libc_getcwd buf sz = syscall2 183 buf sz"

definition libc_chdir :: "u32 \<Rightarrow> registers" where
  "libc_chdir pathname = syscall1 12 pathname"

definition libc_chroot :: "u32 \<Rightarrow> registers" where
  "libc_chroot pathname = syscall1 61 pathname"

definition libc_readdir :: "u32 \<Rightarrow> u32 \<Rightarrow> u32 \<Rightarrow> registers" where
  "libc_readdir fd dir count = syscall3 89 fd dir count"

definition libc_clear :: "registers" where
  "libc_clear = syscall0 200"

definition libc_stat :: "u32 \<Rightarrow> u32 \<Rightarrow> registers" where
  "libc_stat filename statbuf = syscall2 18 filename statbuf"

definition libc_fstat :: "u32 \<Rightarrow> u32 \<Rightarrow> registers" where
  "libc_fstat fd statbuf = syscall2 28 fd statbuf"

definition libc_mknod :: "u32 \<Rightarrow> u32 \<Rightarrow> u32 \<Rightarrow> registers" where
  "libc_mknod filename mode dev = syscall3 14 filename mode dev"

definition libc_mount :: "u32 \<Rightarrow> u32 \<Rightarrow> u32 \<Rightarrow> registers" where
  "libc_mount devname dirname flags = syscall3 21 devname dirname flags"

definition libc_umount :: "u32 \<Rightarrow> registers" where
  "libc_umount target = syscall1 22 target"

definition libc_mkfs :: "u32 \<Rightarrow> u32 \<Rightarrow> registers" where
  "libc_mkfs devname icount = syscall2 201 devname icount"

definition libc_execve :: "u32 \<Rightarrow> u32 \<Rightarrow> u32 \<Rightarrow> registers" where
  "libc_execve filename argv envp = syscall3 11 filename argv envp"

definition libc_dup :: "u32 \<Rightarrow> registers" where
  "libc_dup oldfd = syscall1 41 oldfd"

definition libc_dup2 :: "u32 \<Rightarrow> u32 \<Rightarrow> registers" where
  "libc_dup2 oldfd newfd = syscall2 63 oldfd newfd"

definition libc_pipe :: "u32 \<Rightarrow> registers" where
  "libc_pipe pipefd = syscall1 42 pipefd"


text \<open>What the interrupt enters, and the arguments that the entry code pushes.\<close>

definition entered :: "registers \<Rightarrow> handler res" where
  "entered r = syscall_dispatch (unat (eax r))"

definition pushed :: "registers \<Rightarrow> u32 list" where
  "pushed r = [ebx r, ecx r, edx r, esi r, edi r, ebp r]"

lemmas syscall_defs = syscall0_def syscall1_def syscall2_def syscall3_def syscall4_def syscall5_def syscall6_def

text \<open>The library and the kernel agree: every function enters its own handler, \<open>sleep\<close> and \<open>yield\<close> those of the scheduler.\<close>

lemma libc_reaches_handlers:
  "entered libc_test = Inr Sys_test"
  "entered libc_getpid = Inr Sys_getpid"
  "entered (libc_brk addr) = Inr Sys_brk"
  "entered (libc_mmap addr len prot flags fd off) = Inr Sys_mmap"
  "entered (libc_munmap addr len) = Inr Sys_munmap"
  "entered (libc_open filename flags mode) = Inr Sys_open"
  "entered (libc_creat filename mode) = Inr Sys_creat"
  "entered (libc_close fd) = Inr Sys_close"
  "entered (libc_getppid) = Inr Sys_getppid"
  "entered (libc_yield) = Inr Task_yield"
  "entered (libc_sleep ms) = Inr Task_sleep"
  "entered (libc_read fd buf len) = Inr Sys_read"
  "entered (libc_write fd buf len) = Inr Sys_write"
  "entered (libc_fork) = Inr Task_fork"
  "entered (libc_exit status) = Inr Task_exit"
  "entered (libc_waitpid pid status) = Inr Task_waitpid"
  "entered (libc_time) = Inr Sys_time"
  "entered (libc_umask msk) = Inr Sys_umask"
  "entered (libc_mkdir pathname mode) = Inr Sys_mkdir"
  "entered (libc_rmdir pathname) = Inr Sys_rmdir"
  "entered (libc_link oldname name) = Inr Sys_link"
  "entered (libc_unlink filename) = Inr Sys_unlink"
  "entered (libc_lseek fd off whence) = Inr Sys_lseek"
  "entered (libc_getcwd buf sz) = Inr Sys_getcwd"
  "entered (libc_chdir pathname) = Inr Sys_chdir"
  "entered (libc_chroot pathname) = Inr Sys_chroot"
  "entered (libc_readdir fd dir count) = Inr Sys_readdir"
  "entered (libc_clear) = Inr Console_clear"
  "entered (libc_stat filename statbuf) = Inr Sys_stat"
  "entered (libc_fstat fd statbuf) = Inr Sys_fstat"
  "entered (libc_mknod filename mode dev) = Inr Sys_mknod"
  "entered (libc_mount devname dirname flags) = Inr Sys_mount"
  "entered (libc_umount target) = Inr Sys_umount"
  "entered (libc_mkfs devname icount) = Inr Sys_mkfs"
  "entered (libc_execve filename argv envp) = Inr Sys_execve"
  "entered (libc_dup oldfd) = Inr Sys_dup"
  "entered (libc_dup2 oldfd newfd) = Inr Sys_dup2"
  "entered (libc_pipe pipefd) = Inr Sys_pipe"
  by (simp_all add: entered_def syscall_dispatch_entries syscall_entries_def syscall_defs
    libc_test_def libc_getpid_def libc_brk_def libc_mmap_def libc_munmap_def libc_open_def libc_creat_def libc_close_def
    libc_getppid_def libc_yield_def libc_sleep_def libc_read_def libc_write_def libc_fork_def libc_exit_def libc_waitpid_def
    libc_time_def libc_umask_def libc_mkdir_def libc_rmdir_def libc_link_def libc_unlink_def libc_lseek_def libc_getcwd_def
    libc_chdir_def libc_chroot_def libc_readdir_def libc_clear_def libc_stat_def libc_fstat_def libc_mknod_def libc_mount_def
    libc_umount_def libc_mkfs_def libc_execve_def libc_dup_def libc_dup2_def libc_pipe_def)

lemma pushed_args:
  "take 1 (pushed (syscall1 nr a)) = [a]" "take 2 (pushed (syscall2 nr a b)) = [a, b]" "take 3 (pushed (syscall3 nr a b c)) = [a, b, c]"
  "pushed (syscall6 nr a b c d e f) = [a, b, c, d, e, f]"
  by (simp_all add: pushed_def syscall_defs)

end
