(* ===== verification/Devfs.thy ===== *)
theory Devfs
  imports Super Dirs
begin

text \<open>
  The directory of the devices, \<open>src/src/fs/dev.c\<close>: at the start of the first process the memory disks are
  formatted, the first of them is mounted on \<open>/dev\<close>, every device gets a node there, and the three standard
  files are opened. A name is the list of its characters; a file of the table is its index and one.
\<close>

unbundle bit_operations_syntax

definition dev_dir :: "u8 list" where "dev_dir = [0x2f, 0x64, 0x65, 0x76]"

text \<open>``/dev/'' and a name.\<close>

definition dev_path :: "u8 list \<Rightarrow> u8 list" where
  "dev_path name = dev_dir @ [0x2f] @ name"

definition the_device :: "int \<Rightarrow> nat \<Rightarrow> (('w, 'a) dev_state_scheme, 'w device) op" where
  "the_device subtype idx = sbind (device_find subtype (of_nat idx)) (\<lambda>r.
     case r of None \<Rightarrow> sfail Fault | Some i \<Rightarrow> sbind (sget devices) (\<lambda>ds. slift (rd ds i)))"

definition format_ramdisk :: "nat \<Rightarrow> (('w, 'a) fs_state_scheme, int) op" where
  "format_ramdisk i =
     sbind (device_find DEV_RAMDISK (of_nat i)) (\<lambda>r.
     case r of None \<Rightarrow> sfail AssertFail
     | Some j \<Rightarrow> sbind (sget devices) (\<lambda>ds. sbind (slift (rd ds j)) (\<lambda>d.
         sbind (devmkfs (d_dev d) 0) (\<lambda>_. sret (d_dev d)))))"

text \<open>The first memory disk becomes the directory \<open>/dev\<close>.\<close>

definition mount_dev :: "(('w, 'a) fs_state_scheme, unit) op" where
  "mount_dev =
     sbind (format_ramdisk 0) (\<lambda>dev.
     sbind (read_super dev) (\<lambda>sb.
     sbind (iget dev 1) (\<lambda>iroot.
     sbind (upd_sb sb (sb_iroot_update (\<lambda>_. iroot))) (\<lambda>_.
     sbind (namei dev_dir) (\<lambda>imount.
     sbind (upd_sb sb (sb_imount_update (\<lambda>_. imount))) (\<lambda>_.
     upd_inode imount (i_mount_update (\<lambda>_. dev))))))))"

text \<open>The nodes of the devices of a kind from number \<open>i\<close> on; the table has 64 entries.\<close>

primrec make_nodes :: "nat \<Rightarrow> int \<Rightarrow> int \<Rightarrow> nat \<Rightarrow> (('w, 'a) fs_state_scheme, unit) op" where
  "make_nodes 0 subtype mode i = sfail Diverge"
| "make_nodes (Suc fuel) subtype mode i =
     sbind (device_find subtype (of_nat i)) (\<lambda>r.
     case r of None \<Rightarrow> sret ()
     | Some j \<Rightarrow> sbind (sget devices) (\<lambda>ds. sbind (slift (rd ds j)) (\<lambda>d.
         sbind (sys_mknod (dev_path (cstring (d_name d))) mode (d_dev d)) (\<lambda>_. make_nodes fuel subtype mode (i + 1)))))"

text \<open>One of the standard files, on the node with a name.\<close>

definition open_standard :: "u32 \<Rightarrow> u8 list \<Rightarrow> int \<Rightarrow> (('w, 'a) fs_state_scheme, unit) op" where
  "open_standard file name flags =
     sbind (namei (dev_path name)) (\<lambda>inode.
     sbind (desc_of inode) (\<lambda>d.
     upd_fl file (\<lambda>f. f\<lparr>fl_inode := inode, fl_mode := d_mode d, fl_flags := flags, fl_offset := 0\<rparr>)))"

text \<open>The names are ``console'', ``keyboard'', ``stdout'', ``stderr'' and ``stdin''.\<close>

definition dev_init :: "(('w, 'a) fs_state_scheme, unit) op" where
  "dev_init =
     (let console = [0x63, 0x6f, 0x6e, 0x73, 0x6f, 0x6c, 0x65]; keyboard = [0x6b, 0x65, 0x79, 0x62, 0x6f, 0x61, 0x72, 0x64];
          stdout = [0x73, 0x74, 0x64, 0x6f, 0x75, 0x74]; stderr = [0x73, 0x74, 0x64, 0x65, 0x72, 0x72];
          stdin = [0x73, 0x74, 0x64, 0x69, 0x6e]
      in sbind (sys_mkdir dev_dir 493) (\<lambda>_.
         sbind (sforeach [1, 2, 3] (\<lambda>i. sbind (format_ramdisk i) (\<lambda>_. sret ()))) (\<lambda>_.
         sbind mount_dev (\<lambda>_.
         sbind (the_device DEV_CONSOLE 0) (\<lambda>d. sbind (sys_mknod (dev_path console) (IFCHR OR 128) (d_dev d)) (\<lambda>_.
         sbind (the_device DEV_KEYBOARD 0) (\<lambda>d. sbind (sys_mknod (dev_path keyboard) (IFCHR OR 256) (d_dev d)) (\<lambda>_.
         sbind (make_nodes 65 DEV_IDE_DISK (IFBLK OR 384) 0) (\<lambda>_.
         sbind (make_nodes 65 DEV_IDE_PART (IFBLK OR 384) 0) (\<lambda>_.
         sbind (make_nodes 65 DEV_SERIAL (IFCHR OR 384) 0) (\<lambda>_.
         sbind (make_nodes 65 DEV_RAMDISK (IFBLK OR 384) 1) (\<lambda>_.
         sbind (sys_link (dev_path console) (dev_path stdout)) (\<lambda>_.
         sbind (sys_link (dev_path console) (dev_path stderr)) (\<lambda>_.
         sbind (sys_link (dev_path keyboard) (dev_path stdin)) (\<lambda>_.
         sbind (open_standard 1 stdin O_RDONLY) (\<lambda>_.
         sbind (open_standard 2 stdout O_WRONLY) (\<lambda>_.
         open_standard 3 stderr O_WRONLY)))))))))))))))))"

text \<open>The loop ends within its fuel: no kind has as many devices as the table has entries.\<close>

lemma find_from_bound: "find_from subtype idx ds i nr = Some j \<Longrightarrow> unat nr + length ds < 2 ^ 32 \<Longrightarrow> nr \<le> idx \<Longrightarrow> unat idx < unat nr + length ds"
proof (induction ds arbitrary: i nr)
  case (Cons d ds)
  show ?case
  proof (cases "d_subtype d = subtype \<and> nr \<noteq> idx")
    case True
    have nr: "unat (nr + 1) = unat nr + 1" using Cons.prems(2) by (subst unat_add_32) simp_all
    have "nr < idx" using True Cons.prems(3) by (metis order_le_less)
    then have "nr + 1 \<le> idx" by (simp add: word_le_nat_alt word_less_nat_alt nr)
    with Cons.IH [of "i + 1" "nr + 1"] Cons.prems(1,2) True nr show ?thesis by simp
  next
    case False
    then show ?thesis using Cons by (fastforce split: if_splits)
  qed
qed simp

lemma device_find_end:
  assumes "length (devices s) \<le> 64" "64 \<le> i" "i < 2 ^ 32"
  shows "device_find subtype (of_nat i) s = Inr (None, s)"
proof -
  have "unat (of_nat i :: u32) = i" using assms(3) by (rule unat_of_nat_32)
  then have False if "find_from subtype (of_nat i) (drop 1 (devices s)) 1 0 = Some a" for a
  proof -
    have "unat (0 :: u32) + length (drop 1 (devices s)) < 2 ^ 32" using assms(1) by simp
    from find_from_bound [OF that this] \<open>unat (of_nat i :: u32) = i\<close> assms(1,2) show False by simp
  qed
  then have "find_from subtype (of_nat i) (drop 1 (devices s)) 1 0 = None" by fastforce
  then show ?thesis by (simp add: device_find_def)
qed

end
