(* ===== verification/Rtc.thy ===== *)
theory Rtc
  imports Calendar Console Vsprintf
begin

text \<open>
  The interrupt of the clock chip, \<open>src/src/kernel/rtc.c\<close> (setting its alarm is in \<open>Calendar\<close>), and the kernel's
  \<open>printk\<close>, which formats a text and writes it to the console. \<open>ticks\<close> is the counter \<open>count\<close> of the handler.
\<close>

record rtc_state = cpu +
  ticks :: u32

definition rtc_handler :: "int \<Rightarrow> ('a rtc_state_scheme, unit) op" where
  "rtc_handler vector =
     sbind (sensure (vector = 0x28)) (\<lambda>_.
     sbind (send_eoi vector) (\<lambda>_. smodify (ticks_update (\<lambda>n. n + 1))))"

definition rtc_init :: "u32 \<Rightarrow> ('a cpu_scheme, unit) op" where
  "rtc_init handler =
     sbind (set_interrupt_handler 8 handler) (\<lambda>_.
     sbind (set_interrupt_mask 8 True) (\<lambda>_. set_interrupt_mask 2 True))"

text \<open>The interrupt comes from the second controller, so both are told that it has been served.\<close>

lemma rtc_handler_serves:
  "rtc_handler 0x28 s = Inr ((), s\<lparr>p_trace := Out 0xa0 0x20 # Out 0x20 0x20 # p_trace s, ticks := ticks s + 1\<rparr>)"
  by (simp add: rtc_handler_def send_eoi_def outb_run)

subsection \<open>Messages of the kernel\<close>

text \<open>The memory \<open>m\<close> holds the texts that the arguments point to; the buffer is static.\<close>

definition printk :: "u8 list \<Rightarrow> u32 list \<Rightarrow> mem \<Rightarrow> ('a console_scheme, int) op" where
  "printk fmt args m =
     sbind (slift (vsprintf fmt args m)) (\<lambda>(i, out, _). sbind (console_write out (word_of_int i)) (\<lambda>_. sret i))"

end
