(* ===== verification/Spec2Isabelle.thy ===== *)
theory Spec2Isabelle
  imports Fifo Bitmap DList KString Calendar Vsprintf Paging Tasks Ramdisk Super Files Cwd Disk_Store Mutex Buffer_Wait Pipes Process Family Elevator Typing Terminal Ata Serial Execve Osh Userland Segments Stubs Devfs Rtc
begin

text \<open>
  A verification development for \<open>onix\<close>, the x86 teaching kernel under \<open>src/src\<close>, with its library and the
  programs it starts. The rest of the repository is the emulator it is run on (\<open>src/bochs\<close>), which is not
  the project's own code.

  \<^bold>\<open>The program and its parts.\<close> The kernel finds its memory and turns paging on, sets up interrupts, the
  clock, the drivers, the buffer cache and the file system, makes the first tasks and starts to schedule.
  A task enters the kernel by the system call interrupt; it may block on a list of waiting tasks, and
  another task or an interrupt handler makes it ready again. Disk blocks pass through the buffer cache,
  which reads and writes them by requests to a device; inodes, directories, super blocks, open files and
  pipes are built on the buffers. \<open>fork\<close>, \<open>exit\<close>, \<open>waitpid\<close> and \<open>execve\<close> join the scheduler with the
  memory and the file system. The shell and the small programs run on the system calls.

  \<^bold>\<open>How code becomes definitions.\<close> A function of the source is a definition of the same name. Fallible code
  has the type \<open>'a res\<close>, a sum of a failure and a value: \<open>AssertFail\<close> is a failed \<open>assert\<close>, \<open>Panic\<close> a
  \<open>panic\<close>, \<open>Fault\<close> undefined behaviour (an index outside an array, a null pointer, a division by zero),
  \<open>Diverge\<close> a loop that does not end. Stateful code is an \<open>op\<close>, a function from the state to a result and
  the next state (\<open>sbind\<close>, \<open>sret\<close>, \<open>sget\<close>, \<open>smodify\<close> in \<open>Prelude\<close>); states are records that extend each
  other in the order of the components, so an operation of a lower component runs unchanged on the state
  of a higher one. Machine integers are words of their width and wrap around; \<open>int\<close> values of the code are
  \<open>int\<close> with the conversions written out. A pointer into a static table is the index and one, with 0 as
  \<open>NULL\<close>; list nodes, tasks and memory are known by their addresses. A loop whose end depends on data is
  structural recursion, a \<open>function\<close> with a measure, or a \<open>partial\_function (option)\<close> whose \<open>None\<close> is
  \<open>Diverge\<close>. The fuel of a loop is named where it is chosen, with the reason why it is enough: the number
  of the program headers has 16 bits (\<open>load\_headers\<close>), the shell's line has 256 bytes (\<open>cmd\_parse\<close>), the
  device table 64 entries (\<open>make\_nodes\<close>).

  A task that goes to sleep in the middle of a function is modelled up to that point: the turn of the
  loop is a definition of its own that says whether the task was put to sleep (\<open>mutex\_attempt\<close>,
  \<open>waitpid\_turn\<close>, \<open>key\_get\<close>, \<open>rx\_get\<close>, \<open>tx\_put\<close>, \<open>ide\_sleep\<close>), and the whole function then ends with the
  failure \<open>Blocked\<close>. The steps of several tasks are put together as inductive step relations over these
  turns, in \<open>Tasks\<close>, \<open>Mutex\<close> and \<open>Family\<close>.

  \<^bold>\<open>The theories.\<close>

  \<^item> Base: \<open>Prelude\<close> (results, operations, loops, words), \<open>Bytes\<close> (little-endian fields), \<open>Ports\<close>
    (\<open>inb\<close>, \<open>outb\<close>; the devices behind the ports are a function of the history of accesses).
  \<^item> Library: \<open>Fifo\<close> (\<open>fifo.c\<close>, contract \<open>Char\_Queue\<close>), \<open>Bitmap\<close> (\<open>bitmap.c\<close>), \<open>DList\<close> (\<open>list.c\<close>, on
    an address heap), \<open>KString\<close> (\<open>string.c\<close>), \<open>Stdlib\<close> (\<open>stdlib.c\<close>), \<open>Vsprintf\<close> (\<open>vsprintf.c\<close>),
    \<open>Calendar\<close> (\<open>kernel/time.c\<close> and the alarm of \<open>rtc.c\<close>), \<open>Stubs\<close> (\<open>lib/syscall.c\<close>).
  \<^item> Memory: \<open>Frames\<close> and \<open>Paging\<close> (\<open>memory.c\<close>: the frames with their counts, the kernel pages, the two
    levels of tables through the recursive mapping, copy on write, page faults, \<open>brk\<close>, \<open>mmap\<close>), with the
    contract \<open>Run\_Allocator\<close>; \<open>Arena\<close>, \<open>Arena\_Inv\<close>, \<open>Kmalloc\<close> (\<open>arena.c\<close>), with \<open>Heap\_Allocator\<close>.
  \<^item> Processor: \<open>Segments\<close> (\<open>global.c\<close>), \<open>Interrupt\<close> (\<open>interrupt.c\<close>), \<open>Gate\<close> (\<open>gate.c\<close>).
  \<^item> Tasks: \<open>Sched\<close> and \<open>Tasks\<close> (the scheduler of \<open>tasks.c\<close> and \<open>clock.c\<close>), \<open>Mutex\<close> (\<open>mutex.c\<close>), \<open>Process\<close>,
    \<open>Held\<close> and \<open>Family\<close> (creation, \<open>fork\<close>, \<open>exit\<close>, \<open>waitpid\<close>), \<open>Argv\<close> and \<open>Execve\<close> (\<open>execve.c\<close>, \<open>crt1.c\<close>).
  \<^item> Devices: \<open>Device\<close> and \<open>Elevator\<close> (\<open>device.c\<close>), \<open>Ramdisk\<close> (\<open>ramdisk.c\<close>), \<open>Ide\<close> and \<open>Ata\<close> (\<open>ide.c\<close>),
    \<open>Keyboard\<close> and \<open>Typing\<close> (\<open>keyboard.c\<close>), \<open>Console\<close> and \<open>Terminal\<close> (\<open>console.c\<close>), \<open>Serial\<close> (\<open>serial.c\<close>),
    \<open>Rtc\<close> (\<open>rtc.c\<close>, \<open>printk.c\<close>).
  \<^item> Blocks and files: \<open>Buffer\<close>, \<open>Block\_Store\<close>, \<open>Cache\<close>, \<open>Disk\_Store\<close>, \<open>Buffer\_Wait\<close> (\<open>buffer.c\<close> on the memory
    disks), \<open>Fs\<close> (the structures of \<open>fs.h\<close>), \<open>Bmap\<close> (\<open>bmap.c\<close>), \<open>Inode\<close> (\<open>inode.c\<close>), \<open>Namei\<close>, \<open>Dirs\<close>, \<open>Cwd\<close>
    (\<open>namei.c\<close>), \<open>Super\<close> (\<open>super.c\<close>), \<open>Files\<close> and \<open>Pipes\<close> (\<open>file.c\<close>, \<open>pipe.c\<close>, \<open>stat.c\<close>), \<open>Devfs\<close> (\<open>dev.c\<close>).
  \<^item> Programs: \<open>Shell\<close> and \<open>Osh\<close> (\<open>osh.c\<close>), \<open>Userland\<close> (\<open>ls\<close>, \<open>cat\<close>, \<open>dup\<close>, \<open>echo\<close>, \<open>env\<close>, \<open>init\<close>).

  \<^bold>\<open>The states.\<close> \<open>ports\<close> (history of accesses) \<open>\<subset>\<close> \<open>cpu\<close> (interrupt flag, handler table) \<open>\<subset>\<close> \<open>sched\<close> (task
  table, control blocks, list nodes, ticks), from which branch \<open>msched\<close> (mutexes; with \<open>keyboard\<close>, \<open>ide\_state\<close>,
  \<open>serial\_state\<close>), \<open>console\<close> (video memory), and \<open>dev\_state\<close> (device table) \<open>\<subset>\<close> \<open>buf\_state\<close> (the cache) \<open>\<subset>\<close>
  \<open>fs\_state\<close> (super blocks, inodes, files, kernel memory by bytes) \<open>\<subset>\<close> \<open>proc\_state\<close> (the kernel heap \<open>heap\_state\<close>
  with the memory \<open>mm\<close>). The devices work on a world \<open>'w\<close> of their own, for the memory disks \<open>ram\_world\<close>,
  which the hardware of other drivers can extend.

  \<^bold>\<open>Contracts and their providers.\<close> Each locale states what a client may rely on, and is interpreted on the
  code's definitions: \<open>char\_queue\<close> by \<open>fq\<close> (the circular queue), \<open>node\_queue\<close> by \<open>pushq\<close> and \<open>backq\<close> (the two
  directions of a linked list), \<open>run\_allocator\<close> by \<open>pages\<close> (the kernel pages), \<open>block\_heap\<close> by \<open>arena\<close>
  (\<open>kmalloc\<close> and \<open>kfree\<close>), \<open>block\_store\<close> by \<open>ramstore\<close> (the memory disks under the cache).

  \<^bold>\<open>What is shown.\<close>

  \<^item> The scheduler: no operation fails in a state that the kernel reaches, the invariant of the task lists
    holds in every such state, \<open>schedule\<close> chooses a ready task, and a sleeper is woken when its time has come.
  \<^item> Mutexes exclude and lose no wake-up under every interleaving; a reentrant lock nests.
  \<^item> The process table stays a forest whatever tasks fork, exit, wait and sleep, no new task gets the page of another one,
    and an exit status reaches the parent. What \<open>task\_exit\<close> frees is supposed not to be the page of a control block.
  \<^item> Memory: allocations do not overlap and nothing is leaked; a page fault maps the page or copies it on
    a write without changing what other tasks see.
  \<^item> Blocks of the memory disks: what is written through the cache is read back, releasing a buffer loses nothing, both
    with blocks of any other devices in the cache, and the state after booting meets the invariant. The elevator goes
    through a queue in order. The disk driver, polling, reads the sectors it is asked for.
  \<^item> The console implements a terminal, in the memory that it has and a stretch behind it; what is typed at the keyboard is what is
    read, and the handler of the keyboard keeps its types and the scheduler's invariant; what is typed at the
    shell's prompt becomes the arguments of a command; a program finds on its stack the arguments it was
    started with.
  \<^item> The library: queues, lists, bitmaps, strings, numbers and dates agree with their mathematical meaning.
  \<^item> Where the code fails, lemmas state the failure: a task waiting for a buffer is never woken
    (\<open>brelease\_fails\_for\_waiter\<close>), \<open>kmalloc\<close> wraps (\<open>kmalloc\_wraps\<close>), the console is scrolled out of its memory
    (\<open>scroll\_up\_overruns\<close>), the interrupt of the second serial port reads outside its array
    (\<open>serial\_handler\_com2\<close>), a program header of another type stops the loading (\<open>load\_headers\_stuck\<close>), a
    file is never truncated (\<open>inode\_truncate\_nothing\<close>), a line of blanks makes the shell read a null pointer
    (\<open>execute\_no\_argument\<close>).

  \<^bold>\<open>Not modelled\<close>, and why: the emulator under \<open>src/bochs\<close> is a third party's program; the assembly of the
  boot sector, the loader, the entry of interrupts and system calls, the switch of tasks and the start of
  programs has no counterpart but the effects that the C code relies on (\<open>task\_switch\<close>, \<open>pushed\<close>,
  \<open>libc\_start\_main\<close>); \<open>assert.c\<close> and \<open>debug.c\<close> only print before the kernel stops or goes on, which the failures
  stand for; \<open>kernel\_init\<close> of \<open>main.c\<close> calls the initialisers one after the other, which are modelled in their
  components (\<open>boot\_store\_ok\<close> puts those of the disks together), and the threads of \<open>thread.c\<close> only halt or start
  \<open>dev\_init\<close>; \<open>err.c\<close> is a program that is meant to fault; the build files and the headers of constants are
  folded into the definitions. There is no TLB in the model of the memory, and log output is left out.
\<close>

end
